(* ===== verification/Prelude.thy ===== *)
theory Prelude
  imports Main "HOL-Library.List_Lexorder" "HOL-Library.Char_ord" "HOL-Library.AList"
begin

section \<open>Shared vocabulary\<close>

text \<open>
  What every component uses: Go strings as byte lists ordered bytewise, Go maps with string keys
  as association lists read through \<^const>\<open>map_of\<close>, the last-one-wins indexes the
  source builds with \<open>index[x.Name] = &x\<close>, and generic facts about filters, folds and
  strictly sorted lists.

  A Go slice is a list. The nil slice and the empty slice are both \<open>[]\<close>; where the source
  tells them apart (\<open>entries == nil\<close>) the model takes an \<open>option\<close>. Go's \<open>int\<close> is 64 bits
  wide; lengths and counters of in-memory collections are \<open>nat\<close> or \<open>int\<close> without wrap-around,
  hashes and bitmaps are words.
\<close>

named_theorems go_simps \<open>unfolding rules of the small Go helpers\<close>

type_synonym 'v gomap = "(string \<times> 'v) list"

text \<open>\<open>m[k]\<close> with the comma-ok form, and \<open>slices.Sorted(maps.Keys(m))\<close>.\<close>

abbreviation go_get :: "'v gomap \<Rightarrow> string \<Rightarrow> 'v option" where
  "go_get m k \<equiv> map_of m k"

definition sorted_keys :: "'v gomap \<Rightarrow> string list" where
  "sorted_keys m = sort (remdups (map fst m))"

lemma set_sorted_keys [simp]: "set (sorted_keys m) = dom (map_of m)"
  by (simp add: sorted_keys_def dom_map_of_conv_image_fst)

lemma distinct_sorted_keys [simp]: "distinct (sorted_keys m)"
  by (simp add: sorted_keys_def)

lemma sorted_sorted_keys [simp]: "sorted (sorted_keys m)"
  by (simp add: sorted_keys_def)

text \<open>An index built by assigning every element under its key: the last element wins.\<close>

definition index_by :: "('a \<Rightarrow> 'k) \<Rightarrow> 'a list \<Rightarrow> 'k \<Rightarrow> 'a option" where
  "index_by key xs = foldl (\<lambda>m x. m(key x \<mapsto> x)) Map.empty xs"

lemma index_by_Nil [simp]: "index_by key [] = Map.empty"
  by (simp add: index_by_def)

lemma index_by_snoc [simp]: "index_by key (xs @ [x]) = (index_by key xs)(key x \<mapsto> x)"
  by (simp add: index_by_def)

lemma dom_index_by [simp]: "dom (index_by key xs) = key ` set xs"
proof (induction xs rule: rev_induct)
  case (snoc x xs)
  then show ?case unfolding index_by_snoc dom_fun_upd by simp
qed simp

lemma index_by_SomeD: "index_by key xs k = Some x \<Longrightarrow> x \<in> set xs \<and> key x = k"
  by (induction xs rule: rev_induct) (auto split: if_splits)

lemma index_by_None_iff: "index_by key xs k = None \<longleftrightarrow> k \<notin> key ` set xs"
  by (metis domIff dom_index_by)

lemma index_by_distinct:
  "distinct (map key xs) \<Longrightarrow> x \<in> set xs \<Longrightarrow> index_by key xs (key x) = Some x"
  by (induction xs rule: rev_induct) (auto simp: rev_image_eqI)

subsection \<open>Strictly sorted keys\<close>

text \<open>The list \<open>xs\<close> is strictly increasing in \<open>key\<close>.\<close>

definition sorted_on :: "('a \<Rightarrow> 'k::linorder) \<Rightarrow> 'a list \<Rightarrow> bool" where
  "sorted_on key xs \<longleftrightarrow> sorted_wrt (<) (map key xs)"

lemma sorted_on_Nil [simp]: "sorted_on key []"
  by (simp add: sorted_on_def)

lemma sorted_on_Cons [simp]:
  "sorted_on key (x # xs) \<longleftrightarrow> (\<forall>y\<in>set xs. key x < key y) \<and> sorted_on key xs"
  by (simp add: sorted_on_def)

lemma sorted_on_append [simp]:
  "sorted_on key (xs @ ys) \<longleftrightarrow>
     sorted_on key xs \<and> sorted_on key ys \<and> (\<forall>x\<in>set xs. \<forall>y\<in>set ys. key x < key y)"
  by (auto simp: sorted_on_def sorted_wrt_append)

lemma sorted_on_filter [simp]: "sorted_on key xs \<Longrightarrow> sorted_on key (filter P xs)"
  by (induction xs) auto

lemma sorted_on_distinct: "sorted_on key xs \<Longrightarrow> distinct (map key xs)"
  by (induction xs) force+

lemma sorted_on_inj: "sorted_on key xs \<Longrightarrow> x \<in> set xs \<Longrightarrow> y \<in> set xs \<Longrightarrow> key x = key y \<Longrightarrow> x = y"
  by (induction xs) (auto dest: less_imp_neq)

text \<open>Storing and removing one element of a strictly sorted list, as filters.\<close>

definition put_on :: "('a \<Rightarrow> 'k::linorder) \<Rightarrow> 'a \<Rightarrow> 'a list \<Rightarrow> 'a list" where
  "put_on key x xs =
     filter (\<lambda>y. key y < key x) xs @ x # filter (\<lambda>y. key x < key y) xs"

definition cut_on :: "('a \<Rightarrow> 'k) \<Rightarrow> 'k \<Rightarrow> 'a list \<Rightarrow> 'a list" where
  "cut_on key k xs = filter (\<lambda>y. key y \<noteq> k) xs"

lemma sorted_on_put [simp]: "sorted_on key xs \<Longrightarrow> sorted_on key (put_on key x xs)"
  by (auto simp: put_on_def intro: less_trans)

lemma sorted_on_cut [simp]: "sorted_on key xs \<Longrightarrow> sorted_on key (cut_on key k xs)"
  by (simp add: cut_on_def)

lemma set_put_on [simp]: "set (put_on key x xs) = insert x {y \<in> set xs. key y \<noteq> key x}"
  by (auto simp: put_on_def)

lemma set_cut_on [simp]: "set (cut_on key k xs) = {y \<in> set xs. key y \<noteq> k}"
  by (simp add: cut_on_def)

text \<open>The unique element with a key.\<close>

definition find_on :: "('a \<Rightarrow> 'k) \<Rightarrow> 'k \<Rightarrow> 'a list \<Rightarrow> 'a option" where
  "find_on key k xs = find (\<lambda>y. key y = k) xs"

lemma find_on_Nil [simp]: "find_on key k [] = None"
  by (simp add: find_on_def)

lemma find_on_Cons [simp]:
  "find_on key k (x # xs) = (if key x = k then Some x else find_on key k xs)"
  by (simp add: find_on_def)

lemma find_on_append [simp]:
  "find_on key k (xs @ ys) = (case find_on key k xs of None \<Rightarrow> find_on key k ys | Some x \<Rightarrow> Some x)"
  by (induction xs) auto

lemma find_on_None_iff: "find_on key k xs = None \<longleftrightarrow> (\<forall>x\<in>set xs. key x \<noteq> k)"
  by (induction xs) auto

lemma find_on_SomeD: "find_on key k xs = Some x \<Longrightarrow> x \<in> set xs \<and> key x = k"
  by (induction xs) (auto split: if_splits)

lemma find_on_sorted:
  "sorted_on key xs \<Longrightarrow> find_on key k xs = Some x \<longleftrightarrow> x \<in> set xs \<and> key x = k"
  by (induction xs) (auto dest: less_imp_neq)

lemma find_on_put:
  "sorted_on key xs \<Longrightarrow> find_on key k (put_on key x xs) = (if k = key x then Some x else find_on key k xs)"
proof (cases "find_on key k (put_on key x xs)")
  case None
  then have "\<forall>y\<in>set (put_on key x xs). key y \<noteq> k"
    by (simp only: find_on_None_iff)
  then have "k \<noteq> key x" and "find_on key k xs = None"
    by (auto simp: find_on_None_iff)
  with None show ?thesis by simp
next
  case (Some y)
  assume sorted: "sorted_on key xs"
  from find_on_SomeD [OF Some] have y: "y \<in> set (put_on key x xs)" "key y = k" by blast+
  show ?thesis
  proof (cases "k = key x")
    case True
    with y have "y = x" by auto
    with True Some show ?thesis by simp
  next
    case False
    with y have "y \<in> set xs" by auto
    with sorted y have "find_on key k xs = Some y" by (simp add: find_on_sorted)
    with Some False show ?thesis by simp
  qed
qed

lemma find_on_cut:
  "find_on key k (cut_on key k' xs) = (if k = k' then None else find_on key k xs)"
  by (induction xs) (auto simp: cut_on_def)

lemma length_put_on:
  "sorted_on key xs \<Longrightarrow>
     length (put_on key x xs) = (if find_on key (key x) xs = None then Suc (length xs) else length xs)"
  by (induction xs) (auto simp: put_on_def split: if_splits)

lemma length_cut_on:
  "sorted_on key xs \<Longrightarrow>
     length (cut_on key k xs) = (if find_on key k xs = None then length xs else length xs - 1)"
proof (induction xs)
  case (Cons a xs)
  moreover have "find_on key (key a) xs = None" and "filter (\<lambda>y. key y \<noteq> key a) xs = xs"
    using Cons.prems by (auto simp: find_on_None_iff filter_id_conv)
  moreover have "find_on key k xs \<noteq> None \<Longrightarrow> 0 < length xs"
    by (cases xs) auto
  ultimately show ?case by (auto simp: cut_on_def)
qed (simp add: cut_on_def)

text \<open>The same operations around one element of a strictly sorted list.\<close>

lemma filter_key_sides:
  "\<forall>y\<in>set ys. k < key y \<Longrightarrow> filter (\<lambda>y. key y < k) ys = [] \<and> filter (\<lambda>y. k < key y) ys = ys"
  "\<forall>y\<in>set ys. key y < k \<Longrightarrow> filter (\<lambda>y. key y < k) ys = ys \<and> filter (\<lambda>y. k < key y) ys = []"
  for key :: "'a \<Rightarrow> 'k::linorder"
  by (auto simp: filter_empty_conv filter_id_conv)

lemma put_on_at:
  fixes key :: "'a \<Rightarrow> 'k::linorder"
  assumes "sorted_on key (xs @ x # ys)"
  shows "put_on key e (xs @ x # ys) =
    (if key e < key x then put_on key e xs @ x # ys
     else if key e > key x then xs @ x # put_on key e ys else xs @ e # ys)"
proof -
  have *: "\<forall>y\<in>set xs. key y < key x" "\<forall>y\<in>set ys. key x < key y" using assms by auto
  consider (less) "key e < key x" | (greater) "key x < key e" | (equal) "key e = key x"
    by (rule linorder_cases)
  then show ?thesis
  proof cases
    case less
    with * have "\<forall>y\<in>set ys. key e < key y" by (blast intro: less_trans)
    with less show ?thesis by (simp add: put_on_def filter_key_sides)
  next
    case greater
    with * have "\<forall>y\<in>set xs. key y < key e" by (blast intro: less_trans)
    with greater show ?thesis by (auto simp: put_on_def filter_key_sides)
  next
    case equal
    with * show ?thesis by (simp add: put_on_def filter_key_sides)
  qed
qed

lemma find_on_at:
  fixes key :: "'a \<Rightarrow> 'k::linorder"
  assumes "sorted_on key (xs @ x # ys)"
  shows "find_on key k (xs @ x # ys) =
    (if k < key x then find_on key k xs else if k > key x then find_on key k ys else Some x)"
proof -
  have *: "\<forall>y\<in>set xs. key y < key x" "\<forall>y\<in>set ys. key x < key y" using assms by auto
  then have "find_on key k xs = None" if "\<not> k < key x"
    using that by (auto simp: find_on_None_iff)
  moreover have "find_on key k ys = None" if "\<not> key x < k"
    using * that by (auto simp: find_on_None_iff)
  ultimately show ?thesis by (auto split: option.splits)
qed

lemma cut_on_at:
  fixes key :: "'a \<Rightarrow> 'k::linorder"
  assumes "sorted_on key (xs @ x # ys)"
  shows "cut_on key k (xs @ x # ys) =
    (if k < key x then cut_on key k xs @ x # ys
     else if k > key x then xs @ x # cut_on key k ys else xs @ ys)"
proof -
  have *: "\<forall>y\<in>set xs. key y < key x" "\<forall>y\<in>set ys. key x < key y" using assms by auto
  then have "filter (\<lambda>y. key y \<noteq> k) xs = xs" if "\<not> k < key x"
    using that by (auto simp: filter_id_conv)
  moreover have "filter (\<lambda>y. key y \<noteq> k) ys = ys" if "\<not> key x < k"
    using * that by (auto simp: filter_id_conv)
  ultimately show ?thesis by (auto simp: cut_on_def)
qed

lemma cut_on_absent: "find_on key k xs = None \<Longrightarrow> cut_on key k xs = xs"
  by (auto simp: cut_on_def find_on_None_iff filter_id_conv)

end
