(* ===== verification/Agent_Api.thy ===== *)
theory Agent_Api
  imports Prelude
begin

section \<open>The wire contract with the agent\<close>

text \<open>
  \<open>src/pkg/dataplane/agent/api\<close>: the operation kinds and the \<open>Op\<close> record the controller
  composes and the agent executes, the file and inventory records, the limits asserted at both
  ends, the token predicates (\<open>tokens.go\<close>) and the operation batches of a manifest
  (\<open>op_batches.go\<close>). The string constants of the operation kinds are a datatype with their wire
  names in \<open>op_wire\<close>, so an operation the controller builds always has one of the declared
  kinds. \<open>Manifest\<close> keeps the three operation lists, which is what the batch functions read.
\<close>

subsection \<open>Limits (\<open>limits.go\<close>)\<close>

definition MaxOpsPerApply :: nat where "MaxOpsPerApply = 1000"
definition MaxOpBatches :: nat where "MaxOpBatches = 8"
definition MaxPendingServerDeletes :: int where "MaxPendingServerDeletes = 1000"
definition MaxPendingBackendDeletes :: int where "MaxPendingBackendDeletes = 100"

subsection \<open>Operations (\<open>api.go\<close>)\<close>

datatype op_kind =
    OpBackendAdd | OpBackendPublish | OpBackendUnpublish | OpBackendDel | OpBackendWaitRemovable
  | OpServerAdd | OpServerEnable | OpServerDisable | OpServerSetAddr | OpServerSetWeight
  | OpServerSetState | OpServerWaitRemovable | OpShutdownSessions | OpServerDel
  | OpMapAdd | OpMapSet | OpMapDel | OpMapReplace
  | OpCertSet | OpCertNew | OpCASet | OpCANew | OpCRTListAdd | OpCRTListDel

fun op_wire :: "op_kind \<Rightarrow> string" where
  "op_wire OpBackendAdd = ''backend_add''"
| "op_wire OpBackendPublish = ''backend_publish''"
| "op_wire OpBackendUnpublish = ''backend_unpublish''"
| "op_wire OpBackendDel = ''backend_del''"
| "op_wire OpBackendWaitRemovable = ''wait_be_removable''"
| "op_wire OpServerAdd = ''server_add''"
| "op_wire OpServerEnable = ''server_enable''"
| "op_wire OpServerDisable = ''server_disable''"
| "op_wire OpServerSetAddr = ''server_set_addr''"
| "op_wire OpServerSetWeight = ''server_set_weight''"
| "op_wire OpServerSetState = ''server_set_state''"
| "op_wire OpServerWaitRemovable = ''wait_srv_removable''"
| "op_wire OpShutdownSessions = ''shutdown_sessions''"
| "op_wire OpServerDel = ''server_del''"
| "op_wire OpMapAdd = ''map_add''"
| "op_wire OpMapSet = ''map_set''"
| "op_wire OpMapDel = ''map_del''"
| "op_wire OpMapReplace = ''map_replace''"
| "op_wire OpCertSet = ''cert_set''"
| "op_wire OpCertNew = ''cert_new''"
| "op_wire OpCASet = ''ca_set''"
| "op_wire OpCANew = ''ca_new''"
| "op_wire OpCRTListAdd = ''crtlist_add''"
| "op_wire OpCRTListDel = ''crtlist_del''"

text \<open>\<open>api.KeywordArg\<close> is a record of its own; the render plan has another one.\<close>

record ApiKeywordArg =
  akw_Name :: string
  akw_Args :: "string list"

record Op =
  op_Kind :: op_kind
  op_Backend :: string
  op_Server :: string
  op_Profile :: string
  op_Mode :: string
  op_GUID :: string
  op_Address :: string
  op_Port :: int
  op_Weight :: "int option"
  op_State :: string
  op_Health :: bool
  op_Keywords :: "ApiKeywordArg list"
  op_TimeoutMs :: int
  op_Path :: string
  op_Key :: string
  op_Value :: string
  op_Cert :: string
  op_Options :: "ApiKeywordArg list"
  op_SNIFilters :: "string list"

text \<open>The composite literal \<open>api.Op{Kind: k}\<close>: every other field has its zero value.\<close>

definition mkOp :: "op_kind \<Rightarrow> Op" where
  "mkOp k = \<lparr>op_Kind = k, op_Backend = [], op_Server = [], op_Profile = [], op_Mode = [],
     op_GUID = [], op_Address = [], op_Port = 0, op_Weight = None, op_State = [],
     op_Health = False, op_Keywords = [], op_TimeoutMs = 0, op_Path = [], op_Key = [],
     op_Value = [], op_Cert = [], op_Options = [], op_SNIFilters = []\<rparr>"

lemma mkOp_sel [simp]:
  "op_Kind (mkOp k) = k" "op_Backend (mkOp k) = []" "op_Server (mkOp k) = []"
  "op_Address (mkOp k) = []" "op_Port (mkOp k) = 0" "op_Weight (mkOp k) = None"
  "op_State (mkOp k) = []" "op_Health (mkOp k) = False" "op_Keywords (mkOp k) = []"
  "op_Path (mkOp k) = []" "op_Key (mkOp k) = []" "op_Value (mkOp k) = []"
  "op_Cert (mkOp k) = []" "op_Options (mkOp k) = []" "op_SNIFilters (mkOp k) = []"
  "op_Profile (mkOp k) = []" "op_Mode (mkOp k) = []" "op_GUID (mkOp k) = []"
  "op_TimeoutMs (mkOp k) = 0"
  by (simp_all add: mkOp_def)

record ApiFile =
  af_Path :: string
  af_Digest :: string
  af_Proof :: string
  af_Size :: int
  af_Kind :: string
  af_ReloadOnChange :: bool

record Inventory =
  inv_Generation :: nat
  inv_Maps :: "string list"
  inv_Certs :: "string list"
  inv_CAFiles :: "string list"
  inv_CRLFiles :: "string list"
  inv_CRTLists :: "string list"

definition emptyInventory :: Inventory where
  "emptyInventory = \<lparr>inv_Generation = 0, inv_Maps = [], inv_Certs = [], inv_CAFiles = [],
     inv_CRLFiles = [], inv_CRTLists = []\<rparr>"

text \<open>The apply modes of \<open>api.go\<close>, and what a state read asks for.\<close>

datatype apply_mode = ModeAuto | ModeReload | ModeRevertLKG

record StateRead =
  sr_Verify :: bool
  sr_Plan :: bool

definition StateRead_Query :: "StateRead \<Rightarrow> string" where
  "StateRead_Query r =
     (let query = (if sr_Verify r then ''?verify=1'' else '''')
      in if \<not> sr_Plan r
         then (if query = '''' then ''?plan=0'' else query @ ''&plan=0'')
         else query)"

record HAProxyInfo =
  hi_Version :: string
  hi_FullVersion :: string
  hi_WorkerPID :: int
  hi_WorkerStartTimeUnixMicros :: int

definition HasWorkerIdentity :: "HAProxyInfo \<Rightarrow> bool" where
  "HasWorkerIdentity i \<longleftrightarrow> hi_WorkerPID i > 0 \<and> hi_WorkerStartTimeUnixMicros i > 0"

definition SameWorker :: "HAProxyInfo \<Rightarrow> HAProxyInfo \<Rightarrow> bool" where
  "SameWorker i other \<longleftrightarrow> HasWorkerIdentity i \<and>
     hi_WorkerPID i = hi_WorkerPID other \<and>
     hi_WorkerStartTimeUnixMicros i = hi_WorkerStartTimeUnixMicros other"

subsection \<open>Tokens (\<open>tokens.go\<close>)\<close>

text \<open>
  \<open>unsafeRunes\<close> and the space are ASCII, and a rune below \<open>0x20\<close> or equal to \<open>0x7f\<close> is
  encoded as that one byte, so the rune loops of the source are byte loops here: a byte of
  \<open>0x80\<close> or more decodes to a rune of at least \<open>0x80\<close>, or to \<open>U+FFFD\<close> when it is invalid.
\<close>

definition unsafeRunes :: string where
  "unsafeRunes = [CHR '';'', CHR ''<'', CHR ''>'', CHR 0x5C, CHR 0x0A, CHR 0x0D, CHR 0x09, CHR 0x00]"

definition SafeToken :: "string \<Rightarrow> bool" where
  "SafeToken s \<longleftrightarrow>
     \<not> (s = [] \<or> list_ex (\<lambda>c. c \<in> set unsafeRunes) s \<or> CHR '' '' \<in> set s) \<and>
     list_all (\<lambda>c. \<not> (of_char c < (0x20::nat) \<or> of_char c = (0x7f::nat))) s"

definition SafePayloadValue :: "string \<Rightarrow> bool" where
  "SafePayloadValue s \<longleftrightarrow> \<not> list_ex (\<lambda>c. c \<in> set [CHR 0x0A, CHR 0x0D, CHR 0x00]) s"

lemma SafeToken_nonempty: "SafeToken s \<Longrightarrow> s \<noteq> []"
  by (simp add: SafeToken_def)

lemma SafeToken_payload: "SafeToken s \<Longrightarrow> SafePayloadValue s"
  by (auto simp: SafeToken_def SafePayloadValue_def unsafeRunes_def list_ex_iff)

text \<open>
  A runtime command line is split at blanks and at the command separator. A safe token is one
  word of such a line: it holds none of the bytes that end a word, a command, a payload
  introducer or the line.
\<close>

definition line_words :: "string list \<Rightarrow> string" where
  "line_words ws = concat (map (\<lambda>w. w @ '' '') ws)"

fun split_blank :: "string \<Rightarrow> string \<Rightarrow> string list" where
  "split_blank acc [] = (if acc = [] then [] else [acc])"
| "split_blank acc (c # cs) =
     (if c = CHR '' '' then (if acc = [] then split_blank [] cs else acc # split_blank [] cs)
      else split_blank (acc @ [c]) cs)"

lemma split_blank_word:
  "CHR '' '' \<notin> set w \<Longrightarrow>
     split_blank acc (w @ CHR '' '' # cs) =
       (if acc @ w = [] then split_blank [] cs else (acc @ w) # split_blank [] cs)"
  by (induction w arbitrary: acc) auto

lemma split_line_words:
  assumes "\<forall>w\<in>set ws. SafeToken w"
  shows "split_blank [] (line_words ws) = ws"
  using assms
proof (induction ws)
  case (Cons w ws)
  then have "CHR '' '' \<notin> set w" and "w \<noteq> []" by (auto simp: SafeToken_def)
  with Cons show ?case by (simp add: line_words_def split_blank_word)
qed (simp add: line_words_def)

subsection \<open>Operation batches (\<open>op_batches.go\<close>)\<close>

record Manifest =
  mf_Ops :: "Op list"
  mf_OpBatches :: "Op list list"
  mf_InPlaceOps :: "Op list"

text \<open>The three errors of \<open>ValidateOpBatches\<close>, with the numbers their messages carry.\<close>

datatype batch_error = TooManyOps nat | TooManyBatches nat | BadBatch nat nat

fun check_batches :: "nat \<Rightarrow> Op list list \<Rightarrow> batch_error option" where
  "check_batches i [] = None"
| "check_batches i (batch # rest) =
     (if length batch = 0 \<or> length batch > MaxOpsPerApply
      then Some (BadBatch (i + 2) (length batch))
      else check_batches (Suc i) rest)"

definition ValidateOpBatches :: "Manifest \<Rightarrow> batch_error option" where
  "ValidateOpBatches m =
     (let count = length (mf_Ops m) + length (mf_InPlaceOps m)
      in if count > MaxOpsPerApply then Some (TooManyOps count)
         else if length (mf_OpBatches m) \<ge> MaxOpBatches
         then Some (TooManyBatches (1 + length (mf_OpBatches m)))
         else check_batches 0 (mf_OpBatches m))"

definition RuntimeOps :: "Manifest \<Rightarrow> Op list" where
  "RuntimeOps m =
     (if mf_OpBatches m = [] then mf_Ops m
      else foldl (\<lambda>ops batch. ops @ batch) (mf_Ops m) (mf_OpBatches m))"

lemma check_batches_None:
  "check_batches i bs = None \<longleftrightarrow> (\<forall>b\<in>set bs. b \<noteq> [] \<and> length b \<le> MaxOpsPerApply)"
  by (induction bs arbitrary: i) auto

lemma foldl_batches: "foldl (\<lambda>ops b. ops @ b) xs bs = xs @ concat bs"
  by (induction bs arbitrary: xs) auto

lemma RuntimeOps_concat: "RuntimeOps m = mf_Ops m @ concat (mf_OpBatches m)"
  by (simp add: RuntimeOps_def foldl_batches)

lemma length_concat_le:
  "\<forall>b\<in>set bs. length b \<le> n \<Longrightarrow> length (concat bs) \<le> length bs * n"
  by (induction bs) auto

end
