(* ===== verification/Render_Plan.thy ===== *)
theory Render_Plan
  imports Prelude "HOL-Library.Word"
begin

section \<open>The render plan\<close>

text \<open>
  \<open>src/pkg/dataplane/renderplan\<close>: the structure a render declares about its own output
  (\<open>plan.go\<close>), the field-by-field equality of backend records (\<open>backend_equal.go\<close>), the
  projection templates read as \<open>currentConfig\<close>, and the digest format. A plan is immutable, so
  its records are values; \<open>Clone\<close>, which only breaks aliasing, is the identity on them.
  \<open>sameSlice\<close> compares backing arrays: when it holds the elements are equal, so the comparison of
  the elements it short-cuts gives the same answer and the model compares the elements only.
\<close>

abbreviation "SectionKindCore \<equiv> ''core''"
abbreviation "SectionKindProfile \<equiv> ''profile''"
abbreviation "SectionKindBackend \<equiv> ''backend''"
abbreviation "ShapeDynamic \<equiv> ''dynamic''"
abbreviation "ShapeStructural \<equiv> ''structural''"
abbreviation "FileKindConfig \<equiv> ''config''"
abbreviation "FileKindMap \<equiv> ''map''"
abbreviation "FileKindCert \<equiv> ''cert''"
abbreviation "FileKindCA \<equiv> ''ca''"
abbreviation "FileKindCRTList \<equiv> ''crtlist''"
abbreviation "FileKindGeneral \<equiv> ''general''"

record Section =
  sec_Kind :: string
  sec_Name :: string
  sec_TextDigest :: string
  sec_Length :: int
  sec_Text :: string
  sec_TextKnown :: bool

record KeywordArg =
  kw_Name :: string
  kw_Args :: "string list"

record Server =
  srv_Name :: string
  srv_Address :: string
  srv_Port :: int
  srv_Weight :: "int option"
  srv_Disabled :: bool
  srv_GUID :: string
  srv_Comment :: string
  srv_Extra :: "KeywordArg list"

record Backend =
  be_Name :: string
  be_Profile :: string
  be_Mode :: string
  be_GUID :: string
  be_Balance :: string
  be_HashType :: string
  be_Shape :: string
  be_ShapeReason :: string
  be_Servers :: "Server list"
  be_DefaultServer :: "KeywordArg list"
  be_BodyDigest :: string
  be_CommentsDigest :: string
  be_RecordDigest :: string
  be_TextDigest :: string
  be_Body :: "string list"
  be_Comments :: "string list"
  be_ContentKnown :: bool

record Profile =
  prof_Name :: string
  prof_BodyDigest :: string
  prof_HasRules :: bool

record Entry =
  ent_Key :: string
  ent_Value :: string

record Map =
  map_Path :: string
  map_Ordered :: bool
  map_Entries :: "Entry list"

record CRTListEntry =
  cle_Cert :: string
  cle_Options :: "KeywordArg list"
  cle_SNIFilters :: "string list"

record CRTList =
  cl_Path :: string
  cl_Entries :: "CRTListEntry list"

record File =
  file_Path :: string
  file_Kind :: string
  file_ReloadOnChange :: bool
  file_Digest :: string
  file_Size :: int
  file_Content :: string
  file_ContentKnown :: bool

record Plan =
  plan_SchemaVersion :: int
  plan_ID :: string
  plan_Sections :: "Section list"
  plan_Backends :: "Backend gomap"
  plan_Profiles :: "Profile gomap"
  plan_Maps :: "Map gomap"
  plan_CRTLists :: "CRTList gomap"
  plan_Files :: "File list"

subsection \<open>Equality of records (\<open>backend_equal.go\<close>)\<close>

definition sameKeyword :: "KeywordArg \<Rightarrow> KeywordArg \<Rightarrow> bool" where
  "sameKeyword p n \<longleftrightarrow> kw_Name p = kw_Name n \<and> kw_Args p = kw_Args n"

definition EqualKeywordArgs :: "KeywordArg list \<Rightarrow> KeywordArg list \<Rightarrow> bool" where
  "EqualKeywordArgs left right \<longleftrightarrow> list_all2 sameKeyword left right"

fun equalOptionalInt :: "int option \<Rightarrow> int option \<Rightarrow> bool" where
  "equalOptionalInt (Some l) (Some r) = (l = r)"
| "equalOptionalInt l r = (l = None \<and> r = None)"

definition Server_Equal :: "Server \<Rightarrow> Server \<Rightarrow> bool" where
  "Server_Equal s other \<longleftrightarrow>
     srv_Name s = srv_Name other \<and> srv_Address s = srv_Address other \<and>
     srv_Port s = srv_Port other \<and> equalOptionalInt (srv_Weight s) (srv_Weight other) \<and>
     srv_Disabled s = srv_Disabled other \<and> srv_GUID s = srv_GUID other \<and>
     srv_Comment s = srv_Comment other \<and> EqualKeywordArgs (srv_Extra s) (srv_Extra other)"

definition equalServers :: "Server list \<Rightarrow> Server list \<Rightarrow> bool" where
  "equalServers left right \<longleftrightarrow> length left = length right \<and> list_all2 Server_Equal left right"

definition EqualRecord :: "Backend \<Rightarrow> Backend \<Rightarrow> bool" where
  "EqualRecord b other \<longleftrightarrow>
     be_Name b = be_Name other \<and> be_Profile b = be_Profile other \<and>
     be_Mode b = be_Mode other \<and> be_GUID b = be_GUID other \<and>
     be_Balance b = be_Balance other \<and> be_HashType b = be_HashType other \<and>
     be_Shape b = be_Shape other \<and> be_ShapeReason b = be_ShapeReason other \<and>
     equalServers (be_Servers b) (be_Servers other) \<and>
     EqualKeywordArgs (be_DefaultServer b) (be_DefaultServer other)"

definition EqualContent :: "Backend \<Rightarrow> Backend \<Rightarrow> bool" where
  "EqualContent b other \<longleftrightarrow>
     be_BodyDigest b = be_BodyDigest other \<and> be_CommentsDigest b = be_CommentsDigest other \<and>
     be_RecordDigest b = be_RecordDigest other \<and> be_ContentKnown b = be_ContentKnown other \<and>
     be_Body b = be_Body other \<and> be_Comments b = be_Comments other"

lemma sameKeyword_eq [simp]: "sameKeyword p n \<longleftrightarrow> p = n"
  by (auto simp: sameKeyword_def)

lemma EqualKeywordArgs_eq [simp]: "EqualKeywordArgs l r \<longleftrightarrow> l = r"
  by (simp add: EqualKeywordArgs_def list_all2_eq [symmetric] fun_eq_iff sameKeyword_eq [abs_def])

lemma equalOptionalInt_eq [simp]: "equalOptionalInt l r \<longleftrightarrow> l = r"
  by (cases l; cases r) auto

lemma Server_Equal_eq [simp]: "Server_Equal s t \<longleftrightarrow> s = t"
  by (auto simp: Server_Equal_def)

lemma equalServers_eq [simp]: "equalServers l r \<longleftrightarrow> l = r"
  by (auto simp: equalServers_def list_all2_eq [symmetric] fun_eq_iff Server_Equal_eq [abs_def])

text \<open>
  Together the two comparisons decide the whole record up to the text digest, which is left to
  the caller: no field is compared by neither.
\<close>

lemma EqualRecord_EqualContent_iff:
  "EqualRecord b other \<and> EqualContent b other \<longleftrightarrow>
     b = other\<lparr>be_TextDigest := be_TextDigest b\<rparr>"
  by (cases b; cases other) (auto simp: EqualRecord_def EqualContent_def)

subsection \<open>Exact identity and the current configuration (\<open>plan.go\<close>)\<close>

definition hasExactIdentity :: "Plan option \<Rightarrow> bool" where
  "hasExactIdentity plan =
     (case plan of None \<Rightarrow> False
      | Some p \<Rightarrow> list_all sec_TextKnown (plan_Sections p) \<and>
                 list_all (\<lambda>(_, be). be_ContentKnown be) (plan_Backends p) \<and>
                 list_all file_ContentKnown (plan_Files p))"

record ServerAddr =
  sa_Address :: string
  sa_Port :: int

text \<open>Assigning into a map keyed by server name keeps the last server of a name.\<close>

definition server_addrs :: "Server list \<Rightarrow> ServerAddr gomap" where
  "server_addrs declared =
     foldl (\<lambda>m s. AList.update (srv_Name s) \<lparr>sa_Address = srv_Address s, sa_Port = srv_Port s\<rparr> m)
       [] declared"

definition CurrentConfig :: "Plan \<Rightarrow> ServerAddr gomap gomap" where
  "CurrentConfig p =
     foldl (\<lambda>index (name, be).
              if be_Servers be = [] then index
              else AList.update name (server_addrs (be_Servers be)) index)
       [] (plan_Backends p)"

subsection \<open>Digests\<close>

text \<open>
  \<open>FormatDigest\<close> writes a 64-bit sum as eight big-endian bytes in lower-case hex. The hash itself
  (\<open>xxhash.Sum64\<close>, a third-party package) is a parameter wherever a digest is computed.
\<close>

definition hex_digit :: "nat \<Rightarrow> char" where
  "hex_digit n = (if n < 10 then char_of (48 + n) else char_of (87 + n))"

definition byte_at :: "64 word \<Rightarrow> nat \<Rightarrow> nat" where
  "byte_at w i = unat (drop_bit (8 * i) w) mod 256"

definition FormatDigest :: "64 word \<Rightarrow> string" where
  "FormatDigest h =
     concat (map (\<lambda>i. let b = byte_at h i in [hex_digit (b div 16), hex_digit (b mod 16)])
       [7, 6, 5, 4, 3, 2, 1, 0])"

definition DigestString :: "(string \<Rightarrow> 64 word) \<Rightarrow> string \<Rightarrow> string" where
  "DigestString sum64 s = FormatDigest (sum64 s)"

end
