(* ===== verification/Go_Std.thy ===== *)
theory Go_Std
  imports Prelude
begin

section \<open>The standard library the planner uses\<close>

text \<open>
  Models of what \<open>deployplan\<close> and \<open>renderplan\<close> use of Go's standard library, on byte strings:
  \<open>strings.TrimSpace\<close>, \<open>strings.Cut\<close>, \<open>strings.SplitN\<close>, \<open>strings.TrimPrefix\<close>,
  \<open>strings.IndexByte\<close>, \<open>strings.Index\<close>, \<open>strconv.Atoi\<close> and \<open>strconv.Itoa\<close>, \<open>path.Dir\<close>, and
  whether \<open>net.ParseIP\<close> accepts an address.
\<close>

subsection \<open>Strings\<close>

definition HasPrefix :: "string \<Rightarrow> string \<Rightarrow> bool" where
  "HasPrefix s p \<longleftrightarrow> take (length p) s = p"

definition TrimPrefix :: "string \<Rightarrow> string \<Rightarrow> string" where
  "TrimPrefix s p = (if HasPrefix s p then drop (length p) s else s)"

text \<open>The index of the first byte, or None for -1.\<close>

fun IndexByte :: "string \<Rightarrow> char \<Rightarrow> nat option" where
  "IndexByte [] c = None"
| "IndexByte (x # xs) c = (if x = c then Some 0 else map_option Suc (IndexByte xs c))"

lemma IndexByte_SomeD:
  "IndexByte s c = Some i \<Longrightarrow> i < length s \<and> s ! i = c \<and> c \<notin> set (take i s)"
  by (induction s arbitrary: i) (auto split: if_splits)

lemma IndexByte_None: "IndexByte s c = None \<longleftrightarrow> c \<notin> set s"
  by (induction s) auto

text \<open>\<open>before, after, _ := strings.Cut(s, c)\<close> for a one-byte separator.\<close>

definition Cut :: "string \<Rightarrow> char \<Rightarrow> string \<times> string" where
  "Cut s c = (case IndexByte s c of None \<Rightarrow> (s, []) | Some i \<Rightarrow> (take i s, drop (Suc i) s))"

text \<open>\<open>strings.SplitN(s, ".", n)\<close>: at most \<open>n\<close> fields, the last one unsplit.\<close>

fun SplitN :: "nat \<Rightarrow> string \<Rightarrow> char \<Rightarrow> string list" where
  "SplitN 0 s c = []"
| "SplitN (Suc 0) s c = [s]"
| "SplitN (Suc (Suc n)) s c =
     (case IndexByte s c of None \<Rightarrow> [s] | Some i \<Rightarrow> take i s # SplitN (Suc n) (drop (Suc i) s) c)"

text \<open>
  The UTF-8 encodings of the runes for which \<open>unicode.IsSpace\<close> holds. A leading or trailing rune
  of a string is white space exactly when the string starts or ends with one of them, also in
  the presence of invalid UTF-8: each encoding starts with the only byte of it that starts a rune.
\<close>

definition space_runes :: "string list" where
  "space_runes =
     [[CHR 0x09], [CHR 0x0A], [CHR 0x0B], [CHR 0x0C], [CHR 0x0D], [CHR 0x20],
      [CHR 0xC2, CHR 0x85], [CHR 0xC2, CHR 0xA0], [CHR 0xE1, CHR 0x9A, CHR 0x80]] @
     map (\<lambda>c. [CHR 0xE2, CHR 0x80, c])
       [CHR 0x80, CHR 0x81, CHR 0x82, CHR 0x83, CHR 0x84, CHR 0x85, CHR 0x86, CHR 0x87, CHR 0x88,
        CHR 0x89, CHR 0x8A] @
     [[CHR 0xE2, CHR 0x80, CHR 0xA8], [CHR 0xE2, CHR 0x80, CHR 0xA9],
      [CHR 0xE2, CHR 0x80, CHR 0xAF], [CHR 0xE2, CHR 0x81, CHR 0x9F],
      [CHR 0xE3, CHR 0x80, CHR 0x80]]"

definition leading_space :: "string \<Rightarrow> nat" where
  "leading_space s = (case find (HasPrefix s) space_runes of None \<Rightarrow> 0 | Some r \<Rightarrow> length r)"

definition trailing_space :: "string \<Rightarrow> nat" where
  "trailing_space s =
     (case find (\<lambda>r. HasPrefix (rev s) (rev r)) space_runes of None \<Rightarrow> 0 | Some r \<Rightarrow> length r)"

function trim_left :: "string \<Rightarrow> string" where
  "trim_left s =
     (if leading_space s = 0 \<or> s = [] then s else trim_left (drop (leading_space s) s))"
  by pat_completeness auto
termination by (relation "measure length") auto

function trim_right :: "string \<Rightarrow> string" where
  "trim_right s =
     (if trailing_space s = 0 \<or> s = [] then s
      else trim_right (take (length s - trailing_space s) s))"
  by pat_completeness auto
termination by (relation "measure length") auto

declare trim_left.simps [simp del] trim_right.simps [simp del]

definition TrimSpace :: "string \<Rightarrow> string" where
  "TrimSpace s = trim_right (trim_left s)"

text \<open>Trimming yields a contiguous part of the string.\<close>

lemma trim_left_drop: "\<exists>n. trim_left s = drop n s"
proof (induction s rule: trim_left.induct)
  case (1 s)
  show ?case
  proof (cases "leading_space s = 0 \<or> s = []")
    case True
    then show ?thesis by (metis drop0 trim_left.simps)
  next
    case False
    with 1 obtain n where "trim_left (drop (leading_space s) s) = drop n (drop (leading_space s) s)"
      by blast
    with False show ?thesis by (subst trim_left.simps) auto
  qed
qed

lemma trim_right_take: "\<exists>n. trim_right s = take n s"
proof (induction s rule: trim_right.induct)
  case (1 s)
  show ?case
  proof (cases "trailing_space s = 0 \<or> s = []")
    case True
    then show ?thesis by (metis take_all order_refl trim_right.simps)
  next
    case False
    let ?t = "take (length s - trailing_space s) s"
    from False 1 obtain n where "trim_right ?t = take n ?t" by blast
    moreover have "trim_right s = trim_right ?t"
      using False by (subst trim_right.simps) simp
    ultimately show ?thesis by (metis take_take)
  qed
qed

lemma TrimSpace_infix: "\<exists>m n. TrimSpace s = take n (drop m s)"
  using trim_left_drop [of s] trim_right_take [of "trim_left s"] by (metis TrimSpace_def)

lemma set_TrimSpace: "set (TrimSpace s) \<subseteq> set s"
  using TrimSpace_infix [of s] by (metis order_trans set_drop_subset set_take_subset)

text \<open>\<open>strings.Index(s, sub)\<close>, used where \<open>sub\<close> is known to occur: the first occurrence.\<close>

fun Index :: "string \<Rightarrow> string \<Rightarrow> nat option" where
  "Index s sub =
     (if HasPrefix s sub then Some 0
      else (case s of [] \<Rightarrow> None | _ # t \<Rightarrow> map_option Suc (Index t sub)))"

declare Index.simps [simp del]

lemma Index_SomeD: "Index s sub = Some i \<Longrightarrow> take (length sub) (drop i s) = sub \<and> i + length sub \<le> length s"
proof (induction s arbitrary: i)
  case Nil
  then show ?case by (subst (asm) Index.simps) (auto simp: HasPrefix_def split: if_splits)
next
  case (Cons x xs)
  show ?case
  proof (cases "HasPrefix (x # xs) sub")
    case True
    with Cons.prems have "i = 0" by (subst (asm) Index.simps) simp
    with True show ?thesis
      by (simp add: HasPrefix_def) (metis length_Cons length_take min.cobounded1)
  next
    case False
    with Cons.prems obtain j where "Index xs sub = Some j" and "i = Suc j"
      by (subst (asm) Index.simps) auto
    with Cons.IH show ?thesis by auto
  qed
qed

lemma Index_finds: "take n (drop m s) = sub \<Longrightarrow> length sub = n \<Longrightarrow> Index s sub \<noteq> None"
proof (induction s arbitrary: m)
  case Nil
  then show ?case by (subst Index.simps) (simp add: HasPrefix_def)
next
  case (Cons x xs)
  show ?case
  proof (cases m)
    case 0
    with Cons.prems show ?thesis by (subst Index.simps) (simp add: HasPrefix_def)
  next
    case (Suc k)
    with Cons.prems Cons.IH [of k] show ?thesis
      by (subst Index.simps) auto
  qed
qed

subsection \<open>Numbers\<close>

definition is_digit :: "char \<Rightarrow> bool" where
  "is_digit c \<longleftrightarrow> CHR ''0'' \<le> c \<and> c \<le> CHR ''9''"

definition digit_val :: "char \<Rightarrow> int" where
  "digit_val c = of_char c - 48"

definition digits_val :: "string \<Rightarrow> int" where
  "digits_val s = foldl (\<lambda>n c. 10 * n + digit_val c) 0 s"

text \<open>
  \<open>strconv.Atoi\<close> on a string without a sign, which is all it is given here: an empty string or a
  value above the largest 64-bit \<open>int\<close> is an error, and with the range error the function still
  returns that largest value, which the second caller uses.
\<close>

definition max_int64 :: int where
  "max_int64 = 2 ^ 63 - 1"

datatype atoi_error = SyntaxError | RangeError

definition Atoi :: "string \<Rightarrow> int \<times> atoi_error option" where
  "Atoi s =
     (if s = [] \<or> \<not> list_all is_digit s then (0, Some SyntaxError)
      else if digits_val s > max_int64 then (max_int64, Some RangeError)
      else (digits_val s, None))"

fun nat_digits :: "nat \<Rightarrow> string" where
  "nat_digits n = (if n < 10 then [char_of (48 + n)] else nat_digits (n div 10) @ [char_of (48 + n mod 10)])"

declare nat_digits.simps [simp del]

definition Itoa :: "int \<Rightarrow> string" where
  "Itoa i = (if i < 0 then CHR ''-'' # nat_digits (nat (- i)) else nat_digits (nat i))"

subsection \<open>Addresses\<close>

text \<open>
  The fields of a dotted IPv4 address: decimal, without leading zeros, at most 255, four of them.
  The arguments are the value and digit count of the current field, the fields already closed and
  whether the previous byte was a dot (or the start).
\<close>

fun ipv4_fields :: "int \<Rightarrow> nat \<Rightarrow> nat \<Rightarrow> bool \<Rightarrow> string \<Rightarrow> bool" where
  "ipv4_fields val digLen pos dot [] = (pos = 3 \<and> \<not> dot)"
| "ipv4_fields val digLen pos dot (c # cs) =
     (if is_digit c then
        \<not> (digLen = 1 \<and> val = 0) \<and> val * 10 + digit_val c \<le> 255 \<and>
        ipv4_fields (val * 10 + digit_val c) (Suc digLen) pos False cs
      else if c = CHR ''.'' then
        \<not> dot \<and> cs \<noteq> [] \<and> pos \<noteq> 3 \<and> ipv4_fields 0 0 (Suc pos) True cs
      else False)"

definition parse_ipv4 :: "string \<Rightarrow> bool" where
  "parse_ipv4 s = ipv4_fields 0 0 0 True s"

definition is_hex :: "char \<Rightarrow> bool" where
  "is_hex c \<longleftrightarrow> is_digit c \<or> (CHR ''a'' \<le> c \<and> c \<le> CHR ''f'') \<or> (CHR ''A'' \<le> c \<and> c \<le> CHR ''F'')"

text \<open>
  The loop over the 16-bit groups of an IPv6 address: \<open>i\<close> bytes are parsed, \<open>ellipsis\<close> says
  whether a \<open>::\<close> was seen. The result is the final pair with the unread rest, or None for an
  error. Every round reads at least one digit, so the length of the rest is a measure.
\<close>

function ipv6_groups :: "nat \<Rightarrow> bool \<Rightarrow> string \<Rightarrow> (nat \<times> bool \<times> string) option" where
  "ipv6_groups i ellipsis s =
     (if i \<ge> 16 then Some (i, ellipsis, s)
      else let off = length (takeWhile is_hex s); rest = drop off s in
        if off = 0 \<or> off > 4 then None
        else if rest = [] then Some (i + 2, ellipsis, [])
        else if hd rest = CHR ''.'' then
          (if (\<not> ellipsis \<and> i \<noteq> 12) \<or> i + 4 > 16 \<or> \<not> parse_ipv4 s then None
           else Some (i + 4, ellipsis, []))
        else if hd rest \<noteq> CHR '':'' \<or> length rest = 1 then None
        else let after = tl rest in
          if hd after = CHR '':'' then
            (if ellipsis then None
             else if tl after = [] then Some (i + 2, True, [])
             else ipv6_groups (i + 2) True (tl after))
          else ipv6_groups (i + 2) ellipsis after)"
  by pat_completeness auto
termination
proof (relation "measure (\<lambda>(i, e, s). length s)", goal_cases)
  case (2 i ellipsis s off rest after)
  then have "0 < length rest" and "length after = length rest - 1" and "length rest \<le> length s"
    by simp_all
  then show ?case by (cases rest) auto
next
  case (3 i ellipsis s off rest after)
  then have "0 < length rest" and "length after = length rest - 1" and "length rest \<le> length s"
    by simp_all
  then show ?case by (cases rest) auto
qed simp

declare ipv6_groups.simps [simp del]

definition parse_ipv6 :: "string \<Rightarrow> bool" where
  "parse_ipv6 s =
     (let lead = HasPrefix s ''::''; t = (if lead then drop 2 s else s)
      in if lead \<and> t = [] then True
         else (case ipv6_groups 0 lead t of
                 None \<Rightarrow> False
               | Some (i, ellipsis, rest) \<Rightarrow>
                   rest = [] \<and> (if i < 16 then ellipsis else \<not> ellipsis)))"

text \<open>
  \<open>net.ParseIP(s) != nil\<close>. The first of \<open>.\<close>, \<open>:\<close> and \<open>%\<close> picks the parser; an IPv6 address
  with a zone is refused (a zone is split off at \<open>%\<close>, and \<open>net.ParseIP\<close> takes none).
\<close>

definition ParseIP_ok :: "string \<Rightarrow> bool" where
  "ParseIP_ok s =
     (case find (\<lambda>c. c = CHR ''.'' \<or> c = CHR '':'' \<or> c = CHR ''%'') s of
        None \<Rightarrow> False
      | Some c \<Rightarrow>
          if c = CHR ''.'' then parse_ipv4 s
          else if c = CHR '':'' then CHR ''%'' \<notin> set s \<and> parse_ipv6 s
          else False)"

subsection \<open>Paths\<close>

text \<open>
  \<open>path.Dir\<close>: the cleaned text before the last slash. Cleaning works on the slash-separated
  elements: empty and \<open>.\<close> elements go, \<open>..\<close> removes the element before it (at the root it goes,
  at the start of a relative path it stays), and the empty result is \<open>.\<close> or \<open>/\<close>.
\<close>

fun split_on :: "char \<Rightarrow> string \<Rightarrow> string list" where
  "split_on c [] = [[]]"
| "split_on c (x # xs) =
     (if x = c then [] # split_on c xs
      else (case split_on c xs of [] \<Rightarrow> [[x]] | w # ws \<Rightarrow> (x # w) # ws))"

fun clean_elems :: "bool \<Rightarrow> string list \<Rightarrow> string list \<Rightarrow> string list" where
  "clean_elems rooted acc [] = rev acc"
| "clean_elems rooted acc (e # es) =
     (if e = [] \<or> e = ''.'' then clean_elems rooted acc es
      else if e = ''..'' then
        (case acc of
           [] \<Rightarrow> clean_elems rooted (if rooted then [] else [e]) es
         | a # as \<Rightarrow> if a = ''..'' then clean_elems rooted (e # acc) es
                    else clean_elems rooted as es)
      else clean_elems rooted (e # acc) es)"

fun join_slash :: "string list \<Rightarrow> string" where
  "join_slash [] = []"
| "join_slash [w] = w"
| "join_slash (w # ws) = w @ ''/'' @ join_slash ws"

definition path_Clean :: "string \<Rightarrow> string" where
  "path_Clean p =
     (if p = [] then ''.''
      else let rooted = HasPrefix p ''/'';
               out = join_slash (clean_elems rooted [] (split_on (CHR ''/'') p))
           in if rooted then ''/'' @ out else if out = [] then ''.'' else out)"

definition path_Dir :: "string \<Rightarrow> string" where
  "path_Dir p = path_Clean (join_slash (butlast (split_on (CHR ''/'') p)) @
     (if CHR ''/'' \<in> set p then ''/'' else []))"

end
