(* ===== verification/Deploy_Servers.thy ===== *)
theory Deploy_Servers
  imports Agent_Api Render_Plan Go_Std
begin

section \<open>What a pod can do, and the operations of one server\<close>

text \<open>
  \<open>src/pkg/dataplane/deployplan\<close>: the capabilities of a pod (\<open>caps.go\<close>), the keyword rules of
  \<open>add server\<close> (\<open>keywords.go\<close>) and the composer that turns one server record into operations or
  into the reason why HAProxy would refuse them (\<open>servers.go\<close>). A method that returns
  \<open>(ops, reason)\<close> returns \<open>Inl reason\<close> for a non-empty reason and \<open>Inr ops\<close> otherwise. Each
  constructor of \<open>server_reason\<close> is one message of the source with its arguments; the wording is
  not modelled. \<open>map[string]bool\<close> values that are only set to true are lists of the keys.
\<close>

subsection \<open>Capabilities (\<open>caps.go\<close>)\<close>

record Caps =
  DynamicServers :: bool
  DynamicBackends :: bool
  ServerInitState :: bool
  AgentOps :: "string list option"

fun leadingDigits :: "string \<Rightarrow> string" where
  "leadingDigits [] = []"
| "leadingDigits (c # cs) =
     (if c < CHR ''0'' \<or> c > CHR ''9'' then [] else c # leadingDigits cs)"

definition parseMajorMinor :: "string \<Rightarrow> (int \<times> int) option" where
  "parseMajorMinor version =
     (case SplitN 3 (TrimPrefix (TrimSpace version) ''v'') (CHR ''.'') of
        [] \<Rightarrow> None
      | f0 # rest \<Rightarrow>
          (case Atoi (leadingDigits f0) of
             (_, Some _) \<Rightarrow> None
           | (major, None) \<Rightarrow>
               Some (major, case rest of [] \<Rightarrow> 0 | f1 # _ \<Rightarrow> fst (Atoi (leadingDigits f1)))))"

definition notBelow :: "int \<Rightarrow> int \<Rightarrow> int \<Rightarrow> int \<Rightarrow> bool" where
  "notBelow major minor wantMajor wantMinor \<longleftrightarrow>
     major > wantMajor \<or> (major = wantMajor \<and> minor \<ge> wantMinor)"

definition CapsFor :: "string \<Rightarrow> string list \<Rightarrow> Caps" where
  "CapsFor haproxyVersion agentOps =
     (let caps = \<lparr>DynamicServers = False, DynamicBackends = False, ServerInitState = False,
                  AgentOps = (if agentOps = [] then None else Some agentOps)\<rparr>
      in case parseMajorMinor haproxyVersion of
           None \<Rightarrow> caps
         | Some (major, minor) \<Rightarrow>
             caps\<lparr>DynamicServers := notBelow major minor 3 0,
                  ServerInitState := notBelow major minor 3 1,
                  DynamicBackends := notBelow major minor 3 4\<rparr>)"

definition executes :: "Caps \<Rightarrow> op_kind \<Rightarrow> bool" where
  "executes c kind = (case AgentOps c of None \<Rightarrow> True | Some kinds \<Rightarrow> op_wire kind \<in> set kinds)"

lemma notBelow_mono:
  "notBelow major minor M m \<Longrightarrow> m' \<le> m \<Longrightarrow> notBelow major minor M m'"
  by (auto simp: notBelow_def)

subsection \<open>Keywords (\<open>keywords.go\<close>)\<close>

definition keywordCheck :: string where "keywordCheck = ''check''"
definition keywordGUID :: string where "keywordGUID = ''guid''"
definition keywordInitState :: string where "keywordInitState = ''init-state''"
definition keywordWeight :: string where "keywordWeight = ''weight''"
definition keywordCAFile :: string where "keywordCAFile = ''ca-file''"
definition keywordCRT :: string where "keywordCRT = ''crt''"
definition keywordCRLFile :: string where "keywordCRLFile = ''crl-file''"

definition addServerKeywords :: "string list" where
  "addServerKeywords =
     [keywordCheck, ''inter'', ''fastinter'', ''downinter'', ''rise'', ''fall'', ''port'', ''addr'',
      keywordWeight, ''maxconn'', ''maxqueue'', ''minconn'', ''backup'', ''cookie'', keywordGUID,
      ''ssl'', ''sni'', ''verify'', ''verifyhost'', keywordCAFile, keywordCRT, keywordCRLFile,
      ''alpn'', ''ciphers'', ''ciphersuites'', ''ssl-min-ver'', ''ssl-max-ver'', ''proto'',
      ''send-proxy'', ''send-proxy-v2'', ''slowstart'', ''agent-check'', ''agent-port'',
      ''agent-inter'', ''agent-send'', ''on-marked-down'', ''observe'', ''disabled'',
      keywordInitState]"

lemmas keyword_defs [go_simps] =
  keywordCheck_def keywordGUID_def keywordInitState_def keywordWeight_def keywordCAFile_def
  keywordCRT_def keywordCRLFile_def

definition algorithm :: "string \<Rightarrow> string" where
  "algorithm setting = fst (Cut (fst (Cut (TrimSpace setting) (CHR '' ''))) (CHR ''(''))"

definition dynamicBalance :: "string \<Rightarrow> string \<Rightarrow> bool" where
  "dynamicBalance balance hashType =
     (let a = algorithm balance in
      if a \<in> set ['''', ''roundrobin'', ''leastconn'', ''random'', ''first''] then True
      else if a = ''static-rr'' then False
      else algorithm hashType = ''consistent'')"

definition balanceOf :: "Backend \<Rightarrow> string" where
  "balanceOf be = (if be_Balance be = '''' then ''roundrobin'' else be_Balance be)"

definition apiKeywords :: "KeywordArg list \<Rightarrow> ApiKeywordArg list" where
  "apiKeywords keywords = map (\<lambda>kw. \<lparr>akw_Name = kw_Name kw, akw_Args = kw_Args kw\<rparr>) keywords"

text \<open>One round of the loop of \<open>mergeKeywords\<close>: replace the first keyword of the name, or append.\<close>

fun replace_keyword :: "ApiKeywordArg \<Rightarrow> ApiKeywordArg list \<Rightarrow> ApiKeywordArg list" where
  "replace_keyword r [] = [r]"
| "replace_keyword r (m # ms) =
     (if akw_Name m = akw_Name r then r # ms else m # replace_keyword r ms)"

definition mergeKeywords :: "KeywordArg list \<Rightarrow> KeywordArg list \<Rightarrow> ApiKeywordArg list" where
  "mergeKeywords defaults extra =
     foldl (\<lambda>merged kw. replace_keyword \<lparr>akw_Name = kw_Name kw, akw_Args = kw_Args kw\<rparr> merged)
       (apiKeywords defaults) extra"

definition hasKeyword :: "ApiKeywordArg list \<Rightarrow> string \<Rightarrow> bool" where
  "hasKeyword keywords name \<longleftrightarrow> list_ex (\<lambda>kw. akw_Name kw = name) keywords"

definition allSafeTokens :: "string list \<Rightarrow> bool" where
  "allSafeTokens args \<longleftrightarrow> list_all SafeToken args"

datatype server_reason =
    NoAddServer
  | BalanceTakesNoServer string
  | NameNotSafe
  | AddressNotIP string
  | PortOutOfRange
  | KeywordIneligible string
  | KeywordsChanged
  | WeightDropped
  | NoDelServer
  | ServerDeletesPending int

definition endpointReason :: "string \<Rightarrow> int \<Rightarrow> server_reason option" where
  "endpointReason address port =
     (if \<not> ParseIP_ok address then Some (AddressNotIP address)
      else if port < 1 \<or> port > 65535 then Some PortOutOfRange
      else None)"

subsection \<open>The composer (\<open>servers.go\<close>)\<close>

definition stateMaint :: string where "stateMaint = ''maint''"

definition removableTimeoutMs :: int where "removableTimeoutMs = 2000"

record composer =
  c_caps :: Caps
  c_inventory :: Inventory
  c_created :: "string list"
  c_certDir :: string
  c_pendingServerDeletes :: int
  c_pendingBackendDeletes :: int

definition underCRTBase :: "'a composer_scheme \<Rightarrow> string \<Rightarrow> string" where
  "underCRTBase c arg =
     (if c_certDir c = '''' \<or> HasPrefix arg ''/'' then arg else c_certDir c @ ''/'' @ arg)"

text \<open>The runtime store holds a name when the worker loaded it or this diff creates it.\<close>

definition held :: "'a composer_scheme \<Rightarrow> string list \<Rightarrow> string \<Rightarrow> bool" where
  "held c loaded name \<longleftrightarrow> name \<in> set loaded \<or> name \<in> set (c_created c)"

definition filesLoaded :: "'a composer_scheme \<Rightarrow> ApiKeywordArg \<Rightarrow> bool" where
  "filesLoaded c kw =
     (let check = (\<lambda>loaded. case akw_Args kw of
                     [name] \<Rightarrow>
                       held c loaded
                         (if akw_Name kw = keywordCRT \<and> \<not> held c loaded name
                          then underCRTBase c name else name)
                   | _ \<Rightarrow> False)
      in if akw_Name kw = keywordCRT then check (inv_Certs (c_inventory c))
         else if akw_Name kw = keywordCAFile then check (inv_CAFiles (c_inventory c))
         else if akw_Name kw = keywordCRLFile then check (inv_CRLFiles (c_inventory c))
         else True)"

text \<open>
  The name of the first keyword \<open>add server\<close> would refuse, or the empty string. A refused keyword
  whose own name is empty makes the result empty as well, as in the source.
\<close>

definition keyword_refused :: "'a composer_scheme \<Rightarrow> ApiKeywordArg \<Rightarrow> bool" where
  "keyword_refused c kw \<longleftrightarrow>
     akw_Name kw \<notin> set addServerKeywords \<or>
     (akw_Name kw = keywordInitState \<and> \<not> ServerInitState (c_caps c)) \<or>
     \<not> SafeToken (akw_Name kw) \<or> \<not> allSafeTokens (akw_Args kw) \<or>
     \<not> filesLoaded c kw"

fun ineligibleKeyword :: "'a composer_scheme \<Rightarrow> ApiKeywordArg list \<Rightarrow> string" where
  "ineligibleKeyword c [] = ''''"
| "ineligibleKeyword c (kw # kws) =
     (if keyword_refused c kw then akw_Name kw else ineligibleKeyword c kws)"

definition withRuntimeKeywords ::
  "'a composer_scheme \<Rightarrow> ApiKeywordArg list \<Rightarrow> Server \<Rightarrow> ApiKeywordArg list" where
  "withRuntimeKeywords c keywords srv =
     (let k1 = (case srv_Weight srv of
                  None \<Rightarrow> keywords
                | Some w \<Rightarrow> if hasKeyword keywords keywordWeight then keywords
                            else keywords @ [\<lparr>akw_Name = keywordWeight, akw_Args = [Itoa w]\<rparr>]);
          k2 = (if srv_GUID srv \<noteq> '''' \<and> \<not> hasKeyword k1 keywordGUID
                then k1 @ [\<lparr>akw_Name = keywordGUID, akw_Args = [srv_GUID srv]\<rparr>] else k1)
      in if ServerInitState (c_caps c) \<and> hasKeyword k2 keywordCheck \<and> \<not> hasKeyword k2 keywordInitState
         then k2 @ [\<lparr>akw_Name = keywordInitState, akw_Args = [''up'']\<rparr>] else k2)"

definition serverAddOp :: "Backend \<Rightarrow> Server \<Rightarrow> ApiKeywordArg list \<Rightarrow> Op" where
  "serverAddOp be srv keywords =
     (mkOp OpServerAdd)\<lparr>op_Backend := be_Name be, op_Server := srv_Name srv,
        op_Address := srv_Address srv, op_Port := srv_Port srv, op_Keywords := keywords\<rparr>"

definition serverEnableOp :: "string \<Rightarrow> string \<Rightarrow> bool \<Rightarrow> Op" where
  "serverEnableOp backend server health =
     (mkOp OpServerEnable)\<lparr>op_Backend := backend, op_Server := server, op_Health := health\<rparr>"

definition addServer :: "'a composer_scheme \<Rightarrow> Backend \<Rightarrow> Server \<Rightarrow> server_reason + Op list" where
  "addServer c be srv =
     (if \<not> DynamicServers (c_caps c) then Inl NoAddServer
      else if \<not> dynamicBalance (be_Balance be) (be_HashType be)
      then Inl (BalanceTakesNoServer (balanceOf be))
      else if \<not> SafeToken (srv_Name srv) then Inl NameNotSafe
      else case endpointReason (srv_Address srv) (srv_Port srv) of
        Some reason \<Rightarrow> Inl reason
      | None \<Rightarrow>
          (let merged = mergeKeywords (be_DefaultServer be) (srv_Extra srv);
               bad = ineligibleKeyword c merged
           in if bad \<noteq> '''' then Inl (KeywordIneligible bad)
              else let keywords = withRuntimeKeywords c merged srv;
                       add = serverAddOp be srv keywords
                   in if srv_Disabled srv then Inr [add]
                      else Inr [add, serverEnableOp (be_Name be) (srv_Name srv)
                                       (hasKeyword keywords keywordCheck)]))"

definition sameWeight :: "int option \<Rightarrow> int option \<Rightarrow> bool" where
  "sameWeight p n \<longleftrightarrow> (if p = None \<or> n = None then p = n else the p = the n)"

text \<open>The three optional parts of \<open>updateServer\<close>, in the order they are appended.\<close>

definition addrOps :: "string \<Rightarrow> Server \<Rightarrow> Server \<Rightarrow> server_reason + Op list" where
  "addrOps backend prev next =
     (if srv_Address prev \<noteq> srv_Address next \<or> srv_Port prev \<noteq> srv_Port next
      then (case endpointReason (srv_Address next) (srv_Port next) of
              Some reason \<Rightarrow> Inl reason
            | None \<Rightarrow> Inr [(mkOp OpServerSetAddr)\<lparr>op_Backend := backend,
                        op_Server := srv_Name next, op_Address := srv_Address next,
                        op_Port := srv_Port next\<rparr>])
      else Inr [])"

definition weightOps :: "string \<Rightarrow> Server \<Rightarrow> Server \<Rightarrow> server_reason + Op list" where
  "weightOps backend prev next =
     (if \<not> sameWeight (srv_Weight prev) (srv_Weight next)
      then (case srv_Weight next of
              None \<Rightarrow> Inl WeightDropped
            | Some w \<Rightarrow> Inr [(mkOp OpServerSetWeight)\<lparr>op_Backend := backend,
                          op_Server := srv_Name next, op_Weight := Some w\<rparr>])
      else Inr [])"

definition stateOps :: "Backend \<Rightarrow> Server \<Rightarrow> Server \<Rightarrow> Op list" where
  "stateOps be prev next =
     (if srv_Disabled prev = srv_Disabled next then []
      else if srv_Disabled next
      then [(mkOp OpServerSetState)\<lparr>op_Backend := be_Name be, op_Server := srv_Name next,
              op_State := stateMaint\<rparr>]
      else [serverEnableOp (be_Name be) (srv_Name next)
              (hasKeyword (mergeKeywords (be_DefaultServer be) (srv_Extra next)) keywordCheck)])"

definition updateServer :: "Backend \<Rightarrow> Server \<Rightarrow> Server \<Rightarrow> server_reason + Op list" where
  "updateServer be prev next =
     (if srv_GUID prev \<noteq> srv_GUID next \<or> \<not> list_all2 sameKeyword (srv_Extra prev) (srv_Extra next)
      then Inl KeywordsChanged
      else case addrOps (be_Name be) prev next of
        Inl reason \<Rightarrow> Inl reason
      | Inr addr \<Rightarrow>
          (case weightOps (be_Name be) prev next of
             Inl reason \<Rightarrow> Inl reason
           | Inr weight \<Rightarrow> Inr (addr @ weight @ stateOps be prev next)))"

text \<open>\<open>removeServer\<close> counts the delete it composes against the queue, so it returns the composer.\<close>

definition drainOps :: "string \<Rightarrow> string \<Rightarrow> Op list" where
  "drainOps backend server =
     [(mkOp OpServerDisable)\<lparr>op_Backend := backend, op_Server := server\<rparr>,
      (mkOp OpServerWaitRemovable)\<lparr>op_Backend := backend, op_Server := server,
         op_TimeoutMs := removableTimeoutMs\<rparr>,
      (mkOp OpServerDel)\<lparr>op_Backend := backend, op_Server := server\<rparr>]"

definition removeServer ::
  "'a composer_scheme \<Rightarrow> string \<Rightarrow> Server \<Rightarrow> 'a composer_scheme \<times> (server_reason + Op list)" where
  "removeServer c backend srv =
     (if \<not> DynamicServers (c_caps c) then (c, Inl NoDelServer)
      else if c_pendingServerDeletes c \<ge> MaxPendingServerDeletes
      then (c, Inl (ServerDeletesPending (c_pendingServerDeletes c)))
      else if \<not> SafeToken (srv_Name srv) then (c, Inl NameNotSafe)
      else (c\<lparr>c_pendingServerDeletes := c_pendingServerDeletes c + 1\<rparr>,
            Inr (drainOps backend (srv_Name srv))))"

end
