(* ===== verification/Deploy_Maps.thy ===== *)
theory Deploy_Maps
  imports Agent_Api Render_Plan "HOL-Library.Multiset"
begin

section \<open>Map file deltas\<close>

text \<open>
  \<open>src/pkg/dataplane/deployplan/maps.go\<close>: the operations that bring a runtime map from the entries
  of one render to those of the next, per entry or as one atomic replacement. The lemmas replay the
  operations on a runtime map (a list of entries: \<open>add\<close> appends, \<open>set\<close> and \<open>del\<close> touch every
  entry of the key, the semantics \<open>mutateMap\<close> and the comments of the source state) and compare the
  result with the file the render wrote.
\<close>

record mapOps =
  mo_upserts :: "Op list"
  mo_deletes :: "Op list"
  mo_whole :: bool

definition mapWhole :: mapOps where
  "mapWhole = \<lparr>mo_upserts = [], mo_deletes = [], mo_whole = True\<rparr>"

subsection \<open>Reading a map file\<close>

definition valuesByKey :: "Entry list \<Rightarrow> string \<Rightarrow> string list option" where
  "valuesByKey entries =
     foldl (\<lambda>grouped e. grouped(ent_Key e \<mapsto>
              (case grouped (ent_Key e) of None \<Rightarrow> [] | Some vs \<Rightarrow> vs) @ [ent_Value e]))
       Map.empty entries"

definition keyOrder :: "Entry list \<Rightarrow> string list" where
  "keyOrder entries =
     foldl (\<lambda>keys e. if ent_Key e \<in> set keys then keys else keys @ [ent_Key e]) [] entries"

definition payloadSafe :: "string list \<Rightarrow> bool" where
  "payloadSafe vs \<longleftrightarrow> list_all SafePayloadValue vs"

definition sameValues :: "string list \<Rightarrow> string list \<Rightarrow> bool" where
  "sameValues prev next \<longleftrightarrow> length prev = length next \<and> sort prev = sort next"

text \<open>\<open>grouped[key]\<close> without the comma-ok: nil for a missing key.\<close>

definition valuesOf :: "(string \<Rightarrow> string list option) \<Rightarrow> string \<Rightarrow> string list" where
  "valuesOf m k = (case m k of None \<Rightarrow> [] | Some vs \<Rightarrow> vs)"

definition addEntries :: "string \<Rightarrow> string \<Rightarrow> string list \<Rightarrow> Op list" where
  "addEntries path key vs =
     map (\<lambda>v. (mkOp OpMapAdd)\<lparr>op_Path := path, op_Key := key, op_Value := v\<rparr>) vs"

definition mapSetOp :: "string \<Rightarrow> string \<Rightarrow> string \<Rightarrow> Op" where
  "mapSetOp path key v = (mkOp OpMapSet)\<lparr>op_Path := path, op_Key := key, op_Value := v\<rparr>"

definition mapDelOp :: "string \<Rightarrow> string \<Rightarrow> Op" where
  "mapDelOp path key = (mkOp OpMapDel)\<lparr>op_Path := path, op_Key := key\<rparr>"

subsection \<open>The delta\<close>

text \<open>
  The loop over the keys of the new file, shared by the two kinds of map: they differ in when a
  new key may be added (\<open>may_add\<close>). None stands for \<open>mapOps{whole: true}\<close>.
\<close>

fun upsertLoop ::
  "(string \<Rightarrow> bool) \<Rightarrow> string \<Rightarrow> (string \<Rightarrow> string list option) \<Rightarrow> (string \<Rightarrow> string list option)
     \<Rightarrow> string list \<Rightarrow> Op list option" where
  "upsertLoop may_add path before after [] = Some []"
| "upsertLoop may_add path before after (key # keys) =
     (let want = valuesOf after key;
          have = valuesOf before key;
          existed = before key \<noteq> None
      in if existed \<and> sameValues have want then upsertLoop may_add path before after keys
         else if \<not> SafeToken key \<or> \<not> payloadSafe want then None
         else if \<not> existed \<and> may_add key then
           map_option ((@) (addEntries path key want)) (upsertLoop may_add path before after keys)
         else if existed \<and> length have = 1 \<and> length want = 1 \<and> SafeToken (hd want) then
           map_option ((#) (mapSetOp path key (hd want))) (upsertLoop may_add path before after keys)
         else None)"

text \<open>\<open>withRemovals\<close>: a del for every dropped key in the old order, or the whole map.\<close>

fun removalLoop :: "string \<Rightarrow> (string \<Rightarrow> string list option) \<Rightarrow> string list \<Rightarrow> Op list option" where
  "removalLoop path after [] = Some []"
| "removalLoop path after (key # keys) =
     (if after key \<noteq> None then removalLoop path after keys
      else if \<not> SafeToken key then None
      else map_option ((#) (mapDelOp path key)) (removalLoop path after keys))"

definition withRemovals ::
  "mapOps \<Rightarrow> string \<Rightarrow> Entry list \<Rightarrow> (string \<Rightarrow> string list option) \<Rightarrow> mapOps" where
  "withRemovals ops path prev after =
     (case removalLoop path after (keyOrder prev) of
        None \<Rightarrow> mapWhole
      | Some dels \<Rightarrow> ops\<lparr>mo_deletes := mo_deletes ops @ dels\<rparr>)"

definition entryDelta ::
  "(string \<Rightarrow> bool) \<Rightarrow> string \<Rightarrow> Entry list \<Rightarrow> Entry list \<Rightarrow> mapOps" where
  "entryDelta may_add path prev next =
     (case upsertLoop may_add path (valuesByKey prev) (valuesByKey next) (keyOrder next) of
        None \<Rightarrow> mapWhole
      | Some ups \<Rightarrow>
          withRemovals \<lparr>mo_upserts = ups, mo_deletes = [], mo_whole = False\<rparr> path prev
            (valuesByKey next))"

definition unorderedEntryOps :: "string \<Rightarrow> Entry list \<Rightarrow> Entry list \<Rightarrow> mapOps" where
  "unorderedEntryOps path prev next = entryDelta (\<lambda>_. True) path prev next"

text \<open>The length of the common front of two lists; the common back is that of the reversed rests.\<close>

fun commonLen :: "'a list \<Rightarrow> 'a list \<Rightarrow> nat" where
  "commonLen (x # xs) (y # ys) = (if x = y then Suc (commonLen xs ys) else 0)"
| "commonLen xs ys = 0"

definition trimCommonEntries :: "Entry list \<Rightarrow> Entry list \<Rightarrow> (Entry list \<times> Entry list) option" where
  "trimCommonEntries prev next =
     (let front = commonLen prev next;
          back = commonLen (rev (drop front prev)) (rev (drop front next))
      in if front = 0 \<and> back = 0 then Some (prev, next)
         else let prevWindow = take (length prev - back - front) (drop front prev);
                  nextWindow = take (length next - back - front) (drop front next);
                  windowKeys = map ent_Key prevWindow @ map ent_Key nextWindow
              in if windowKeys = [] then Some (prevWindow, nextWindow)
                 else if list_ex (\<lambda>e. ent_Key e \<in> set windowKeys) (take front prev) then None
                 else if list_ex (\<lambda>e. ent_Key e \<in> set windowKeys) (drop (length prev - back) prev) then None
                 else Some (prevWindow, nextWindow))"

definition unorderedMapOps :: "string \<Rightarrow> Entry list \<Rightarrow> Entry list \<Rightarrow> mapOps" where
  "unorderedMapOps path prev next =
     (case trimCommonEntries prev next of
        Some (prevWindow, nextWindow) \<Rightarrow> unorderedEntryOps path prevWindow nextWindow
      | None \<Rightarrow> unorderedEntryOps path prev next)"

definition keysPresentIn :: "Entry list \<Rightarrow> (string \<Rightarrow> string list option) \<Rightarrow> string list" where
  "keysPresentIn entries other = filter (\<lambda>k. other k \<noteq> None) (map ent_Key entries)"

definition sameRelativeOrder :: "Entry list \<Rightarrow> Entry list \<Rightarrow> bool" where
  "sameRelativeOrder prev next \<longleftrightarrow>
     keysPresentIn prev (valuesByKey next) = keysPresentIn next (valuesByKey prev)"

text \<open>
  \<open>appendedKeys\<close>: what remains of the key order once everything up to the last kept key is dropped.
\<close>

definition appendedKeys :: "Entry list \<Rightarrow> Entry list \<Rightarrow> string list" where
  "appendedKeys prev next =
     rev (takeWhile (\<lambda>k. valuesByKey prev k = None) (rev (keyOrder next)))"

definition orderedMapOps :: "string \<Rightarrow> Entry list \<Rightarrow> Entry list \<Rightarrow> mapOps" where
  "orderedMapOps path prev next =
     (if \<not> sameRelativeOrder prev next then mapWhole
      else entryDelta (\<lambda>k. k \<in> set (appendedKeys prev next)) path prev next)"

subsection \<open>What the readers return\<close>

text \<open>The values of a key in file order.\<close>

definition vals :: "string \<Rightarrow> Entry list \<Rightarrow> string list" where
  "vals k es = map ent_Value (filter (\<lambda>e. ent_Key e = k) es)"

lemma vals_simps [simp]:
  "vals k [] = []"
  "vals k (e # es) = (if ent_Key e = k then ent_Value e # vals k es else vals k es)"
  "vals k (es @ fs) = vals k es @ vals k fs"
  by (simp_all add: vals_def)

lemma vals_Nil_iff: "vals k es = [] \<longleftrightarrow> k \<notin> ent_Key ` set es"
  by (induction es) auto

lemma vals_absent [simp]: "k \<notin> ent_Key ` set es \<Longrightarrow> vals k es = []"
  by (simp add: vals_Nil_iff)

lemma valuesByKey_eq: "valuesByKey es k = (if k \<in> ent_Key ` set es then Some (vals k es) else None)"
proof (induction es rule: rev_induct)
  case (snoc e es)
  then show ?case by (auto simp: valuesByKey_def vals_Nil_iff)
qed (simp add: valuesByKey_def)

lemma valuesOf_eq [simp]: "valuesOf (valuesByKey es) k = vals k es"
  by (auto simp: valuesOf_def valuesByKey_eq vals_Nil_iff split: if_splits)

lemma keyOrder_Nil [simp]: "keyOrder [] = []"
  by (simp add: keyOrder_def)

lemma keyOrder_snoc [simp]:
  "keyOrder (es @ [e]) =
     (if ent_Key e \<in> set (keyOrder es) then keyOrder es else keyOrder es @ [ent_Key e])"
  by (simp add: keyOrder_def)

lemma set_keyOrder [simp]: "set (keyOrder es) = ent_Key ` set es"
  by (induction es rule: rev_induct) (auto simp: insert_absorb)

lemma distinct_keyOrder [simp]: "distinct (keyOrder es)"
  by (induction es rule: rev_induct) auto

lemma keyOrder_append:
  "keyOrder (es @ fs) = keyOrder es @ filter (\<lambda>k. k \<notin> ent_Key ` set es) (keyOrder fs)"
proof (induction fs rule: rev_induct)
  case (snoc f fs)
  have "keyOrder (es @ fs @ [f]) = keyOrder ((es @ fs) @ [f])" by simp
  then show ?case using snoc by (auto simp del: append_assoc)
qed simp

lemma keyOrder_distinct: "distinct (map ent_Key es) \<Longrightarrow> keyOrder es = map ent_Key es"
  by (induction es rule: rev_induct) auto

lemma sameValues_mset: "sameValues xs ys \<longleftrightarrow> mset xs = mset ys"
proof
  assume "sameValues xs ys"
  then show "mset xs = mset ys" by (metis mset_sort sameValues_def)
next
  assume eq: "mset xs = mset ys"
  then have "sort xs = sort ys" by (metis mset_sort properties_for_sort sorted_sort)
  with mset_eq_length [OF eq] show "sameValues xs ys" by (simp add: sameValues_def)
qed

lemma sameValues_refl [simp]: "sameValues xs xs"
  by (simp add: sameValues_def)


subsection \<open>Trimming the common front and back\<close>

lemma commonLen_take: "take (commonLen xs ys) xs = take (commonLen xs ys) ys"
  by (induction xs ys rule: commonLen.induct) auto

lemma commonLen_le: "commonLen xs ys \<le> length xs \<and> commonLen xs ys \<le> length ys"
  by (induction xs ys rule: commonLen.induct) auto

text \<open>The window of a successful trim: a common frame around it that shares no key with it.\<close>

lemma trimCommonEntries_SomeD:
  assumes "trimCommonEntries prev next = Some (P, N)"
  obtains A B where "prev = A @ P @ B" and "next = A @ N @ B"
    and "ent_Key ` set (A @ B) \<inter> ent_Key ` set (P @ N) = {}"
proof -
  define front where "front = commonLen prev next"
  define rp where "rp = drop front prev"
  define rn where "rn = drop front next"
  define bk where "bk = commonLen (rev rp) (rev rn)"
  define A where "A = take front prev"
  define B where "B = drop (length rp - bk) rp"
  note bounds = commonLen_le [of prev "next", folded front_def]
    commonLen_le [of "rev rp" "rev rn", folded bk_def, simplified]
  have A: "A = take front next"
    by (simp add: A_def front_def commonLen_take)
  have "take bk (rev rp) = take bk (rev rn)"
    by (simp add: bk_def commonLen_take)
  then have B: "B = drop (length rn - bk) rn"
    by (simp add: take_rev B_def)
  have prev: "prev = A @ take (length rp - bk) rp @ B"
    by (simp add: A_def B_def) (simp add: rp_def)
  have nxt: "next = A @ take (length rn - bk) rn @ B"
    by (simp add: A B) (simp add: rn_def)
  have rp: "length rp = length prev - front" "length rn = length next - front"
    by (simp_all add: rp_def rn_def)
  have "length prev - bk = length rp - bk + front"
    using bounds unfolding rp by linarith
  then have tail: "drop (length prev - bk) prev = B"
    by (simp add: B_def rp_def)
  show thesis
  proof (cases "front = 0 \<and> bk = 0")
    case True
    then have "P = prev" "N = next"
      using assms by (auto simp: trimCommonEntries_def Let_def front_def bk_def rp_def rn_def)
    with that [of "[]" "[]"] show thesis by simp
  next
    case False
    define W where "W = take (length rp - bk) rp"
    define V where "V = take (length rn - bk) rn"
    have "length prev - bk - front = length rp - bk" "length next - bk - front = length rn - bk"
      by (simp_all add: rp)
    then have trim: "trimCommonEntries prev next =
        (if map ent_Key W @ map ent_Key V = [] then Some (W, V)
         else if list_ex (\<lambda>e. ent_Key e \<in> set (map ent_Key W @ map ent_Key V)) A then None
         else if list_ex (\<lambda>e. ent_Key e \<in> set (map ent_Key W @ map ent_Key V)) B then None
         else Some (W, V))"
      unfolding trimCommonEntries_def Let_def front_def [symmetric] rp_def [symmetric]
        rn_def [symmetric] bk_def [symmetric] A_def [symmetric] tail if_not_P [OF False]
      by (simp only: W_def V_def)
    have win: "P = W \<and> N = V"
      using assms unfolding trim by (simp split: if_splits)
    have sep: "\<forall>e\<in>set (A @ B). ent_Key e \<notin> set (map ent_Key P @ map ent_Key N)"
      using assms unfolding trim by (auto simp: list_ex_iff split: if_splits)
    have "ent_Key ` set (A @ B) \<inter> ent_Key ` set (P @ N) = {}"
      using sep by auto
    with that [of A B] prev nxt win show thesis by (simp add: W_def V_def)
  qed
qed

subsection \<open>Equivalence of the trimmed and the full comparison\<close>

lemma upsertLoop_append:
  "upsertLoop ma path b a (ks @ ls) =
     (case upsertLoop ma path b a ks of None \<Rightarrow> None
      | Some us \<Rightarrow> (case upsertLoop ma path b a ls of None \<Rightarrow> None | Some vs \<Rightarrow> Some (us @ vs)))"
  by (induction ks) (auto simp: Let_def split: option.splits)

lemma upsertLoop_skip:
  "\<forall>k\<in>set ks. b k \<noteq> None \<and> sameValues (valuesOf b k) (valuesOf a k) \<Longrightarrow>
     upsertLoop ma path b a ks = Some []"
  by (induction ks) auto

lemma upsertLoop_cong:
  "\<forall>k\<in>set ks. b k = b' k \<and> a k = a' k \<Longrightarrow>
     upsertLoop ma path b a ks = upsertLoop ma path b' a' ks"
  by (induction ks) (auto simp: valuesOf_def Let_def)

lemma removalLoop_append:
  "removalLoop path a (ks @ ls) =
     (case removalLoop path a ks of None \<Rightarrow> None
      | Some us \<Rightarrow> (case removalLoop path a ls of None \<Rightarrow> None | Some vs \<Rightarrow> Some (us @ vs)))"
  by (induction ks) (auto split: option.splits)

lemma removalLoop_skip: "\<forall>k\<in>set ks. a k \<noteq> None \<Longrightarrow> removalLoop path a ks = Some []"
  by (induction ks) auto

lemma removalLoop_cong:
  "\<forall>k\<in>set ks. (a k = None) = (a' k = None) \<Longrightarrow> removalLoop path a ks = removalLoop path a' ks"
  by (induction ks) auto

text \<open>Around a frame that shares no key with the window, the frame's keys cause no operation.\<close>

lemma entryDelta_frame:
  assumes disj: "ent_Key ` set (A @ B) \<inter> ent_Key ` set (P @ N) = {}"
  shows "entryDelta (\<lambda>_. True) path (A @ P @ B) (A @ N @ B) = entryDelta (\<lambda>_. True) path P N"
proof -
  let ?p = "valuesByKey (A @ P @ B)" and ?n = "valuesByKey (A @ N @ B)"
  define KB where "KB = filter (\<lambda>k. k \<notin> ent_Key ` set (A @ P)) (keyOrder B)"
  define KB' where "KB' = filter (\<lambda>k. k \<notin> ent_Key ` set (A @ N)) (keyOrder B)"
  have win_P: "filter (\<lambda>k. k \<notin> ent_Key ` set A) (keyOrder P) = keyOrder P"
    and win_N: "filter (\<lambda>k. k \<notin> ent_Key ` set A) (keyOrder N) = keyOrder N"
    using disj by (auto simp: filter_id_conv)
  have ko_p: "keyOrder (A @ P @ B) = keyOrder A @ keyOrder P @ KB"
    and ko_n: "keyOrder (A @ N @ B) = keyOrder A @ keyOrder N @ KB'"
    using win_P win_N keyOrder_append [of "A @ P" B] keyOrder_append [of "A @ N" B]
    by (simp_all add: keyOrder_append [of A P] keyOrder_append [of A N] KB_def KB'_def)
  have frame: "?p k \<noteq> None \<and> ?n k \<noteq> None \<and> sameValues (valuesOf ?p k) (valuesOf ?n k)"
    if "k \<in> ent_Key ` set (A @ B)" for k
  proof -
    from that disj have "k \<notin> ent_Key ` set (P @ N)" by (metis disjoint_iff)
    then have "vals k P = []" and "vals k N = []" by (auto intro: vals_absent)
    moreover from that have "k \<in> ent_Key ` set (A @ P @ B)" "k \<in> ent_Key ` set (A @ N @ B)" by auto
    ultimately show ?thesis by (simp add: valuesByKey_eq)
  qed
  have window: "?p k = valuesByKey P k \<and> ?n k = valuesByKey N k"
    if "k \<in> ent_Key ` set (P @ N)" for k
  proof -
    from that disj have "k \<notin> ent_Key ` set (A @ B)" by (metis disjoint_iff)
    then have "vals k A = []" and "vals k B = []" and
      "k \<in> ent_Key ` set (A @ P @ B) \<longleftrightarrow> k \<in> ent_Key ` set P"
      "k \<in> ent_Key ` set (A @ N @ B) \<longleftrightarrow> k \<in> ent_Key ` set N"
      by (auto intro: vals_absent)
    then show ?thesis by (simp add: valuesByKey_eq)
  qed
  have ups: "upsertLoop (\<lambda>_. True) path ?p ?n (keyOrder (A @ N @ B)) =
      upsertLoop (\<lambda>_. True) path (valuesByKey P) (valuesByKey N) (keyOrder N)"
  proof -
    have "upsertLoop (\<lambda>_. True) path ?p ?n (keyOrder A) = Some []"
      and "upsertLoop (\<lambda>_. True) path ?p ?n KB' = Some []"
      using frame by (auto intro!: upsertLoop_skip simp: KB'_def)
    moreover have "upsertLoop (\<lambda>_. True) path ?p ?n (keyOrder N) =
        upsertLoop (\<lambda>_. True) path (valuesByKey P) (valuesByKey N) (keyOrder N)"
      using window by (auto intro!: upsertLoop_cong)
    ultimately show ?thesis
      by (auto simp: ko_n upsertLoop_append split: option.splits)
  qed
  have dels: "removalLoop path ?n (keyOrder (A @ P @ B)) =
      removalLoop path (valuesByKey N) (keyOrder P)"
  proof -
    have "removalLoop path ?n (keyOrder A) = Some []" and "removalLoop path ?n KB = Some []"
      using frame by (auto intro!: removalLoop_skip simp: KB_def)
    moreover have "removalLoop path ?n (keyOrder P) = removalLoop path (valuesByKey N) (keyOrder P)"
      using window by (auto intro!: removalLoop_cong)
    ultimately show ?thesis
      by (auto simp: ko_p removalLoop_append split: option.splits)
  qed
  show ?thesis unfolding entryDelta_def withRemovals_def ups dels ..
qed

lemma unorderedMapOps_eq_full: "unorderedMapOps path prev next = unorderedEntryOps path prev next"
proof (cases "trimCommonEntries prev next")
  case (Some w)
  obtain P N where w: "w = (P, N)" by (cases w)
  with Some obtain A B where "prev = A @ P @ B" "next = A @ N @ B"
    "ent_Key ` set (A @ B) \<inter> ent_Key ` set (P @ N) = {}"
    by (auto elim: trimCommonEntries_SomeD)
  with Some w show ?thesis
    by (simp add: unorderedMapOps_def unorderedEntryOps_def entryDelta_frame)
qed (simp add: unorderedMapOps_def)

subsection \<open>Replaying a delta on a runtime map\<close>

text \<open>
  What one operation does to a map the worker holds. Operations on another path or of another kind
  leave it alone; \<open>content\<close> is the file part a replacement loads.
\<close>

definition runMapOp :: "string \<Rightarrow> Entry list \<Rightarrow> Op \<Rightarrow> Entry list \<Rightarrow> Entry list" where
  "runMapOp path content op es =
     (if op_Path op \<noteq> path then es
      else if op_Kind op = OpMapAdd then es @ [\<lparr>ent_Key = op_Key op, ent_Value = op_Value op\<rparr>]
      else if op_Kind op = OpMapSet
      then map (\<lambda>e. if ent_Key e = op_Key op then e\<lparr>ent_Value := op_Value op\<rparr> else e) es
      else if op_Kind op = OpMapDel then filter (\<lambda>e. ent_Key e \<noteq> op_Key op) es
      else if op_Kind op = OpMapReplace then content
      else es)"

definition runMapOps :: "string \<Rightarrow> Entry list \<Rightarrow> Op list \<Rightarrow> Entry list \<Rightarrow> Entry list" where
  "runMapOps path content ops es = foldl (\<lambda>es op. runMapOp path content op es) es ops"

text \<open>The operations \<open>pushMapOps\<close> ships for one map, upserts before deletes.\<close>

definition shippedMapOps :: "string \<Rightarrow> mapOps \<Rightarrow> Op list" where
  "shippedMapOps path d =
     (if mo_whole d then [(mkOp OpMapReplace)\<lparr>op_Path := path\<rparr>] else mo_upserts d @ mo_deletes d)"

lemma runMapOps_simps [simp]:
  "runMapOps path content [] es = es"
  "runMapOps path content (op # ops) es = runMapOps path content ops (runMapOp path content op es)"
  "runMapOps path content (ops @ ops') es = runMapOps path content ops' (runMapOps path content ops es)"
  by (simp_all add: runMapOps_def)

lemma runMapOp_set [simp]:
  "runMapOp path content (mapSetOp path k v) es =
     map (\<lambda>e. if ent_Key e = k then e\<lparr>ent_Value := v\<rparr> else e) es"
  by (simp add: runMapOp_def mapSetOp_def)

lemma runMapOp_del [simp]:
  "runMapOp path content (mapDelOp path k) es = filter (\<lambda>e. ent_Key e \<noteq> k) es"
  by (simp add: runMapOp_def mapDelOp_def)

lemma runMapOps_add [simp]:
  "runMapOps path content (addEntries path k vs) es =
     es @ map (\<lambda>v. \<lparr>ent_Key = k, ent_Value = v\<rparr>) vs"
  by (induction vs arbitrary: es) (simp_all add: addEntries_def runMapOp_def)

lemma vals_map_set [simp]:
  "vals k (map (\<lambda>e. if ent_Key e = k' then e\<lparr>ent_Value := v\<rparr> else e) es) =
     (if k = k' then replicate (length (vals k es)) v else vals k es)"
  by (induction es) auto

lemma vals_filter_del [simp]:
  "vals k (filter (\<lambda>e. ent_Key e \<noteq> k') es) = (if k = k' then [] else vals k es)"
  by (induction es) auto

lemma vals_added [simp]:
  "vals k (map (\<lambda>v. \<lparr>ent_Key = k', ent_Value = v\<rparr>) vs) = (if k = k' then vs else [])"
  by (induction vs) auto

text \<open>The upserts give every processed key its new values and leave the other keys alone.\<close>

lemma runMapOps_upserts:
  assumes "upsertLoop ma path b a ks = Some ups" and "distinct ks"
    and "\<forall>k\<in>set ks. vals k es = valuesOf b k"
  shows "(\<forall>k\<in>set ks. mset (vals k (runMapOps path content ups es)) = mset (valuesOf a k)) \<and>
    (\<forall>k. k \<notin> set ks \<longrightarrow> vals k (runMapOps path content ups es) = vals k es)"
  using assms
proof (induction ks arbitrary: ups es)
  case (Cons k ks)
  let ?have = "valuesOf b k" and ?want = "valuesOf a k"
  have k: "k \<notin> set ks" and ks: "distinct ks" using Cons.prems(2) by auto
  consider (same) "sameValues ?have ?want" "upsertLoop ma path b a ks = Some ups"
    | (add) us where "b k = None" "upsertLoop ma path b a ks = Some us"
        "ups = addEntries path k ?want @ us"
    | (set) us v w where "?have = [v]" "?want = [w]" "upsertLoop ma path b a ks = Some us"
        "ups = mapSetOp path k w # us"
    using Cons.prems(1)
    by (auto simp: Let_def length_Suc_conv split: if_splits option.splits)
  then show ?case
  proof cases
    case same
    with Cons.IH [OF same(2) ks] Cons.prems(3) k show ?thesis
      by (auto simp: sameValues_mset)
  next
    case (add us)
    let ?es = "runMapOps path content (addEntries path k ?want) es"
    have "\<forall>k'\<in>set ks. vals k' ?es = valuesOf b k'"
      using Cons.prems(3) k by auto
    from Cons.IH [OF add(2) ks this] have IH:
      "\<forall>k'\<in>set ks. mset (vals k' (runMapOps path content us ?es)) = mset (valuesOf a k')"
      "\<forall>k'. k' \<notin> set ks \<longrightarrow> vals k' (runMapOps path content us ?es) = vals k' ?es" by blast+
    moreover have "vals k es = []"
      using Cons.prems(3) add(1) by (simp add: valuesOf_def)
    ultimately show ?thesis using k by (auto simp: add(3))
  next
    case (set us v w)
    let ?es = "runMapOp path content (mapSetOp path k w) es"
    have "\<forall>k'\<in>set ks. vals k' ?es = valuesOf b k'"
      using Cons.prems(3) k by auto
    from Cons.IH [OF set(3) ks this] have IH:
      "\<forall>k'\<in>set ks. mset (vals k' (runMapOps path content us ?es)) = mset (valuesOf a k')"
      "\<forall>k'. k' \<notin> set ks \<longrightarrow> vals k' (runMapOps path content us ?es) = vals k' ?es" by blast+
    moreover have "vals k es = [v]"
      using Cons.prems(3) set(1) by simp
    ultimately show ?thesis using k by (auto simp: set(2,4))
  qed
qed simp

lemma runMapOps_removals:
  assumes "removalLoop path a ks = Some dels"
  shows "runMapOps path content dels es =
    filter (\<lambda>e. \<not> (ent_Key e \<in> set ks \<and> a (ent_Key e) = None)) es"
  using assms
proof (induction ks arbitrary: dels es)
  case (Cons k ks)
  show ?case
  proof (cases "a k")
    case (Some v)
    with Cons show ?thesis by (auto intro!: filter_cong)
  next
    case None
    with Cons.prems obtain ds where "removalLoop path a ks = Some ds" "dels = mapDelOp path k # ds"
      by (auto split: if_splits)
    with Cons.IH None show ?thesis by (auto intro!: filter_cong)
  qed
qed simp

lemma entryDelta_cases:
  assumes "\<not> mo_whole (entryDelta ma path prev next)"
  obtains ups dels where
    "upsertLoop ma path (valuesByKey prev) (valuesByKey next) (keyOrder next) = Some ups"
    "removalLoop path (valuesByKey next) (keyOrder prev) = Some dels"
    "entryDelta ma path prev next = \<lparr>mo_upserts = ups, mo_deletes = dels, mo_whole = False\<rparr>"
  using assms
  by (auto simp: entryDelta_def withRemovals_def mapWhole_def split: option.splits)

text \<open>A per-entry delta reaches, for every key, the multiset of values the render wrote.\<close>

lemma entryDelta_replay:
  assumes "\<not> mo_whole (entryDelta ma path prev next)"
  shows "mset (vals k (runMapOps path content (shippedMapOps path (entryDelta ma path prev next)) prev)) =
    mset (vals k next)"
proof -
  from assms obtain ups dels where
    ups: "upsertLoop ma path (valuesByKey prev) (valuesByKey next) (keyOrder next) = Some ups"
    and dels: "removalLoop path (valuesByKey next) (keyOrder prev) = Some dels"
    and d: "entryDelta ma path prev next = \<lparr>mo_upserts = ups, mo_deletes = dels, mo_whole = False\<rparr>"
    by (rule entryDelta_cases)
  let ?mid = "runMapOps path content ups prev"
  note mid = runMapOps_upserts [OF ups distinct_keyOrder, of prev content, simplified]
  have "vals k (runMapOps path content (shippedMapOps path (entryDelta ma path prev next)) prev) =
      (if k \<in> ent_Key ` set prev \<and> k \<notin> ent_Key ` set next then [] else vals k ?mid)"
    by (auto simp: d shippedMapOps_def runMapOps_removals [OF dels] vals_def valuesByKey_eq
          filter_empty_conv split: if_splits intro!: arg_cong [where f = "map ent_Value"] filter_cong)
  moreover have "mset (vals k ?mid) = mset (vals k next)" if "k \<in> ent_Key ` set next"
    using that mid by auto
  moreover have "vals k ?mid = vals k prev" if "k \<notin> ent_Key ` set next"
    using that mid by auto
  ultimately show ?thesis by (cases "k \<in> ent_Key ` set next") auto
qed

subsection \<open>Order\<close>

text \<open>With one value per key the upserts keep the old key sequence and append the new keys.\<close>

lemma runMapOps_upserts_keys:
  assumes "upsertLoop ma path b a ks = Some ups"
    and "\<forall>k\<in>set ks. b k = None \<longrightarrow> length (valuesOf a k) = 1"
  shows "map ent_Key (runMapOps path content ups es) =
    map ent_Key es @ filter (\<lambda>k. b k = None) ks"
  using assms
proof (induction ks arbitrary: ups es)
  case (Cons k ks)
  have IH: "map ent_Key (runMapOps path content us fs) = map ent_Key fs @ filter (\<lambda>k. b k = None) ks"
    if "upsertLoop ma path b a ks = Some us" for us fs
    using Cons.IH [OF that] Cons.prems(2) by simp
  have keys: "map (ent_Key \<circ> (\<lambda>e. if ent_Key e = k' then e\<lparr>ent_Value := v\<rparr> else e)) es = map ent_Key es"
    for k' v by (auto intro!: map_cong)
  show ?case
  proof (cases "b k")
    case None
    with Cons.prems obtain us v where "upsertLoop ma path b a ks = Some us"
      "ups = addEntries path k [v] @ us"
      by (auto simp: Let_def length_Suc_conv split: if_splits)
    with None IH show ?thesis by simp
  next
    case (Some vs)
    with Cons.prems(1) IH keys show ?thesis
      by (auto simp: Let_def split: if_splits)
  qed
qed simp

lemma entries_eqI:
  assumes "map ent_Key es = map ent_Key fs" and "distinct (map ent_Key fs)"
    and "\<forall>k. vals k es = vals k fs"
  shows "es = fs"
  using assms
proof (induction es arbitrary: fs)
  case (Cons e es)
  then obtain f fs' where fs: "fs = f # fs'" and key: "ent_Key e = ent_Key f" by auto
  have "map ent_Key es = map ent_Key fs'"
    using Cons.prems(1) unfolding fs by simp
  then have "ent_Key ` set es = ent_Key ` set fs'"
    by (metis list.set_map)
  then have notin: "ent_Key f \<notin> ent_Key ` set fs'" "ent_Key f \<notin> ent_Key ` set es"
    using Cons.prems(2) unfolding fs by simp_all
  from Cons.prems(3) have "vals (ent_Key f) (e # es) = vals (ent_Key f) (f # fs')" by (simp add: fs)
  with notin key have "ent_Value e = ent_Value f" by simp
  moreover have "vals k es = vals k fs'" for k
    using Cons.prems(3) [THEN spec, of k] notin key by (cases "k = ent_Key f") (auto simp: fs)
  ultimately show ?case using Cons key by (simp add: fs)
qed simp

lemma vals_distinct:
  "distinct (map ent_Key es) \<Longrightarrow> k \<in> ent_Key ` set es \<Longrightarrow> length (vals k es) = 1"
  by (induction es) auto

lemma appendedKeys_partition:
  assumes "\<forall>k\<in>set (keyOrder next). valuesByKey prev k = None \<longrightarrow> k \<in> set (appendedKeys prev next)"
  shows "keyOrder next = filter (\<lambda>k. valuesByKey prev k \<noteq> None) (keyOrder next) @
    filter (\<lambda>k. valuesByKey prev k = None) (keyOrder next)"
proof -
  let ?new = "\<lambda>k. valuesByKey prev k = None"
  define front where "front = rev (dropWhile ?new (rev (keyOrder next)))"
  have split: "keyOrder next = front @ appendedKeys prev next"
    unfolding front_def appendedKeys_def by (metis rev_append rev_rev_ident takeWhile_dropWhile_id)
  have app: "\<forall>k\<in>set (appendedKeys prev next). ?new k"
    by (auto simp: appendedKeys_def dest: set_takeWhileD)
  have "distinct (front @ appendedKeys prev next)" by (metis split distinct_keyOrder)
  with assms have "\<forall>k\<in>set front. \<not> ?new k" by (auto simp: split)
  with app have "filter (\<lambda>k. \<not> ?new k) (keyOrder next) = front"
    and "filter ?new (keyOrder next) = appendedKeys prev next"
    unfolding split by (simp_all add: filter_empty_conv filter_id_conv)
  with split show ?thesis by simp
qed

lemma upsertLoop_added:
  "upsertLoop ma path b a ks = Some ups \<Longrightarrow> \<forall>k\<in>set ks. b k = None \<longrightarrow> ma k"
  by (induction ks arbitrary: ups) (auto simp: Let_def split: if_splits)

text \<open>An ordered map whose files name each key once is reproduced entry by entry, in order.\<close>

lemma orderedMapOps_replay:
  assumes "\<not> mo_whole (orderedMapOps path prev next)"
    and dp: "distinct (map ent_Key prev)" and dn: "distinct (map ent_Key next)"
  shows "runMapOps path content (shippedMapOps path (orderedMapOps path prev next)) prev = next"
proof (rule entries_eqI)
  let ?ma = "\<lambda>k. k \<in> set (appendedKeys prev next)"
  from assms(1) have rel: "sameRelativeOrder prev next"
    and ord: "orderedMapOps path prev next = entryDelta ?ma path prev next"
    by (auto simp: orderedMapOps_def mapWhole_def split: if_splits)
  from assms(1) have nw: "\<not> mo_whole (entryDelta ?ma path prev next)" by (simp add: ord)
  then obtain ups dels where
    ups: "upsertLoop ?ma path (valuesByKey prev) (valuesByKey next) (keyOrder next) = Some ups"
    and dels: "removalLoop path (valuesByKey next) (keyOrder prev) = Some dels"
    and d: "entryDelta ?ma path prev next = \<lparr>mo_upserts = ups, mo_deletes = dels, mo_whole = False\<rparr>"
    by (rule entryDelta_cases)
  have keys: "map ent_Key (runMapOps path content ups prev) =
      map ent_Key prev @ filter (\<lambda>k. valuesByKey prev k = None) (keyOrder next)"
    by (rule runMapOps_upserts_keys [OF ups]) (use dn in \<open>auto simp: vals_distinct [simplified]\<close>)
  have "map ent_Key (runMapOps path content (shippedMapOps path (orderedMapOps path prev next)) prev) =
      filter (\<lambda>k. \<not> (k \<in> set (keyOrder prev) \<and> valuesByKey next k = None))
        (map ent_Key (runMapOps path content ups prev))"
    by (simp add: ord d shippedMapOps_def runMapOps_removals [OF dels] filter_map comp_def)
  also have "\<dots> = keysPresentIn prev (valuesByKey next) @
      filter (\<lambda>k. valuesByKey prev k = None) (keyOrder next)"
    unfolding keys
    by (auto simp: keysPresentIn_def valuesByKey_eq filter_empty_conv intro!: filter_cong)
  also have "\<dots> = keyOrder next"
    using rel appendedKeys_partition [of "next" prev] upsertLoop_added [OF ups]
    by (simp add: sameRelativeOrder_def keysPresentIn_def keyOrder_distinct [OF dn])
  finally show "map ent_Key (runMapOps path content
      (shippedMapOps path (orderedMapOps path prev next)) prev) = map ent_Key next"
    by (simp add: keyOrder_distinct [OF dn])
  show "\<forall>k. vals k (runMapOps path content (shippedMapOps path (orderedMapOps path prev next)) prev) =
      vals k next"
  proof
    fix k
    let ?r = "runMapOps path content (shippedMapOps path (orderedMapOps path prev next)) prev"
    have eq: "mset (vals k ?r) = mset (vals k next)"
      using entryDelta_replay [OF nw] by (simp add: ord)
    show "vals k ?r = vals k next"
    proof (cases "k \<in> ent_Key ` set next")
      case True
      then obtain v where "vals k next = [v]"
        using vals_distinct [OF dn] by (auto simp: length_Suc_conv)
      with eq show ?thesis by (simp add: mset_single_iff)
    next
      case False
      with eq show ?thesis by simp
    qed
  qed
qed (rule dn)

subsection \<open>The contract of a map delta\<close>

text \<open>What the agent can put on a command line or in a payload for this map.\<close>

definition mapOpSendable :: "string \<Rightarrow> Op \<Rightarrow> bool" where
  "mapOpSendable path op \<longleftrightarrow> op_Path op = path \<and>
     (op_Kind op = OpMapAdd \<and> SafeToken (op_Key op) \<and> SafePayloadValue (op_Value op) \<or>
      op_Kind op = OpMapSet \<and> SafeToken (op_Key op) \<and> SafeToken (op_Value op) \<or>
      op_Kind op = OpMapDel \<and> SafeToken (op_Key op) \<or>
      op_Kind op = OpMapReplace)"

lemma upsertLoop_sendable:
  "upsertLoop ma path b a ks = Some ups \<Longrightarrow> op \<in> set ups \<Longrightarrow>
     mapOpSendable path op \<and> op_Kind op \<in> {OpMapAdd, OpMapSet}"
  by (induction ks arbitrary: ups)
     (auto simp: Let_def mapOpSendable_def addEntries_def mapSetOp_def payloadSafe_def list_all_iff
        split: if_splits)

lemma removalLoop_sendable:
  "removalLoop path a ks = Some dels \<Longrightarrow> op \<in> set dels \<Longrightarrow>
     mapOpSendable path op \<and> op_Kind op = OpMapDel"
  by (induction ks arbitrary: dels) (auto simp: mapOpSendable_def mapDelOp_def split: if_splits)

lemma entryDelta_sendable:
  assumes "op \<in> set (shippedMapOps path (entryDelta ma path prev next))"
  shows "mapOpSendable path op"
proof (cases "mo_whole (entryDelta ma path prev next)")
  case True
  with assms show ?thesis by (simp add: shippedMapOps_def mapOpSendable_def)
next
  case False
  then obtain ups dels where
    "upsertLoop ma path (valuesByKey prev) (valuesByKey next) (keyOrder next) = Some ups"
    "removalLoop path (valuesByKey next) (keyOrder prev) = Some dels"
    "entryDelta ma path prev next = \<lparr>mo_upserts = ups, mo_deletes = dels, mo_whole = False\<rparr>"
    by (rule entryDelta_cases)
  with assms show ?thesis
    by (auto simp: shippedMapOps_def dest: upsertLoop_sendable removalLoop_sendable)
qed

text \<open>
  The two deltas promise the same: what they ship is sendable, and unless the whole map is
  replaced the replay agrees with the new file, in the sense of agreement the kind of map needs.
\<close>

locale map_delta =
  fixes delta :: "string \<Rightarrow> Entry list \<Rightarrow> Entry list \<Rightarrow> mapOps"
    and wf :: "Entry list \<Rightarrow> bool"
    and agrees :: "Entry list \<Rightarrow> Entry list \<Rightarrow> bool"
  assumes agrees_refl: "agrees es es"
    and delta_replay: "wf prev \<Longrightarrow> wf nxt \<Longrightarrow> \<not> mo_whole (delta path prev nxt) \<Longrightarrow>
      agrees (runMapOps path content (shippedMapOps path (delta path prev nxt)) prev) nxt"
    and delta_sendable: "op \<in> set (shippedMapOps path (delta path prev nxt)) \<Longrightarrow> mapOpSendable path op"
begin

text \<open>Shipping the delta, with the file part behind a replacement, always reaches the new file.\<close>

lemma shipped_reaches:
  assumes "wf prev" and "wf nxt"
  shows "agrees (runMapOps path nxt (shippedMapOps path (delta path prev nxt)) prev) nxt"
proof (cases "mo_whole (delta path prev nxt)")
  case True
  then show ?thesis by (simp add: shippedMapOps_def runMapOp_def agrees_refl)
next
  case False
  with assms show ?thesis by (rule delta_replay)
qed

lemma shipped_touches_path:
  "path' \<noteq> path \<Longrightarrow> runMapOps path' content (shippedMapOps path (delta path prev nxt)) es = es"
proof -
  assume "path' \<noteq> path"
  moreover have "\<forall>op\<in>set (shippedMapOps path (delta path prev nxt)). op_Path op = path"
    using delta_sendable by (auto simp: mapOpSendable_def)
  moreover have "\<forall>op\<in>set ops. op_Path op = path \<Longrightarrow> path' \<noteq> path \<Longrightarrow>
      runMapOps path' content ops es = es" for ops
    by (induction ops) (auto simp: runMapOp_def)
  ultimately show ?thesis by blast
qed

end

definition sameLookups :: "Entry list \<Rightarrow> Entry list \<Rightarrow> bool" where
  "sameLookups es fs \<longleftrightarrow> (\<forall>k. mset (vals k es) = mset (vals k fs))"

interpretation unordered: map_delta unorderedMapOps "\<lambda>_. True" sameLookups
proof unfold_locales
  show "sameLookups es es" for es by (simp add: sameLookups_def)
  show "sameLookups (runMapOps path content (shippedMapOps path (unorderedMapOps path prev nxt)) prev) nxt"
    if "\<not> mo_whole (unorderedMapOps path prev nxt)" for path prev nxt content
    using that unfolding unorderedMapOps_eq_full unorderedEntryOps_def sameLookups_def
    by (blast intro: entryDelta_replay)
  show "mapOpSendable path op"
    if "op \<in> set (shippedMapOps path (unorderedMapOps path prev nxt))" for op path prev nxt
    using that unfolding unorderedMapOps_eq_full unorderedEntryOps_def by (rule entryDelta_sendable)
qed

interpretation ordered: map_delta orderedMapOps "\<lambda>es. distinct (map ent_Key es)" "(=)"
proof unfold_locales
  show "runMapOps path content (shippedMapOps path (orderedMapOps path prev nxt)) prev = nxt"
    if "distinct (map ent_Key prev)" "distinct (map ent_Key nxt)"
      "\<not> mo_whole (orderedMapOps path prev nxt)" for path prev nxt content
    using orderedMapOps_replay that by blast
  show "mapOpSendable path op"
    if "op \<in> set (shippedMapOps path (orderedMapOps path prev nxt))" for op path prev nxt
    using that
    by (cases "sameRelativeOrder prev nxt")
       (auto simp: orderedMapOps_def mapWhole_def shippedMapOps_def mapOpSendable_def
         dest: entryDelta_sendable [unfolded shippedMapOps_def mapOpSendable_def])
qed simp

subsection \<open>Properties of the map deltas\<close>

text \<open>
  C17. Trimming the common prefix and suffix of two map files never changes the delta: the operations
  computed over the window are those of the full compare.
\<close>

theorem trim_is_transparent:
  "unorderedMapOps path prev next = unorderedEntryOps path prev next"
  by (rule unorderedMapOps_eq_full)

text \<open>
  C18. The delta of an unordered map, or the replacement it falls back to, brings the worker's map to
  the render: every key then has the render's values, counted with their multiplicity. Every
  operation is one the agent can send for that map.
\<close>

theorem unordered_map_reaches:
  "sameLookups (runMapOps path nxt (shippedMapOps path (unorderedMapOps path prev nxt)) prev) nxt \<and>
   list_all (mapOpSendable path) (shippedMapOps path (unorderedMapOps path prev nxt))"
  using unordered.shipped_reaches [of path nxt prev, simplified] unordered.delta_sendable
  by (auto simp: list_all_iff)

text \<open>
  C19. An ordered map whose files name each key once is reproduced exactly, entry by entry and in
  order.
\<close>

theorem ordered_map_reaches:
  assumes "distinct (map ent_Key prev)" and "distinct (map ent_Key nxt)"
  shows "runMapOps path nxt (shippedMapOps path (orderedMapOps path prev nxt)) prev = nxt"
  using ordered.shipped_reaches [OF assms] .

theorem ordered_map_reaches_witness:
  "let prev = [\<lparr>ent_Key = ''a'', ent_Value = ''1''\<rparr>, \<lparr>ent_Key = ''b'', ent_Value = ''2''\<rparr>];
       nxt = [\<lparr>ent_Key = ''b'', ent_Value = ''3''\<rparr>, \<lparr>ent_Key = ''c'', ent_Value = ''4''\<rparr>]
   in runMapOps ''m'' nxt (shippedMapOps ''m'' (orderedMapOps ''m'' prev nxt)) prev = nxt"
  unfolding Let_def by (rule ordered_map_reaches) simp_all


end
