(* ===== verification/Deploy_Certs.thy ===== *)
theory Deploy_Certs
  imports Deploy_Servers
begin

section \<open>crt-list deltas\<close>

text \<open>
  The entry-level part of \<open>src/pkg/dataplane/deployplan/certs.go\<close>: \<open>crtListOps\<close> composes the
  operations that turn the entries of one render into those of the next, or gives the reason why
  only a reload does. The runtime list is replayed with \<open>add ssl crt-list\<close> appending and
  \<open>del ssl crt-list\<close> removing the entry of a certificate.
\<close>

datatype crt_reason =
    CertNotSafe string
  | OptionNotSafe string
  | SNIFilterNotSafe string
  | EntryOrderChanged

definition crtListDel :: "string \<Rightarrow> string \<Rightarrow> Op" where
  "crtListDel path cert = (mkOp OpCRTListDel)\<lparr>op_Path := path, op_Cert := cert\<rparr>"

definition crtListAdd :: "string \<Rightarrow> CRTListEntry \<Rightarrow> Op" where
  "crtListAdd path entry =
     (mkOp OpCRTListAdd)\<lparr>op_Path := path, op_Cert := cle_Cert entry,
        op_Options := apiKeywords (cle_Options entry), op_SNIFilters := cle_SNIFilters entry\<rparr>"

definition crtListOrder :: "CRTListEntry list \<Rightarrow> string list" where
  "crtListOrder entries = map cle_Cert entries"

definition crtListIndex :: "CRTListEntry list \<Rightarrow> string \<Rightarrow> CRTListEntry option" where
  "crtListIndex entries = index_by cle_Cert entries"

definition sameCRTListEntry :: "CRTListEntry \<Rightarrow> CRTListEntry \<Rightarrow> bool" where
  "sameCRTListEntry prev next \<longleftrightarrow>
     list_all2 sameKeyword (cle_Options prev) (cle_Options next) \<and>
     cle_SNIFilters prev = cle_SNIFilters next"

definition crtListEntryReason :: "CRTListEntry \<Rightarrow> crt_reason option" where
  "crtListEntryReason entry =
     (if \<not> SafeToken (cle_Cert entry) then Some (CertNotSafe (cle_Cert entry))
      else case find (\<lambda>opt. \<not> SafeToken (kw_Name opt) \<or> \<not> allSafeTokens (kw_Args opt)) (cle_Options entry) of
        Some opt \<Rightarrow> Some (OptionNotSafe (kw_Name opt))
      | None \<Rightarrow>
          (case find (\<lambda>sni. \<not> SafeToken sni) (cle_SNIFilters entry) of
             Some sni \<Rightarrow> Some (SNIFilterNotSafe sni)
           | None \<Rightarrow> None))"

text \<open>The loop over the old entries: deletes for the dropped ones, the running list of the kept.\<close>

fun crtRemovals ::
  "string \<Rightarrow> (string \<Rightarrow> CRTListEntry option) \<Rightarrow> CRTListEntry list \<Rightarrow> crt_reason + Op list \<times> string list" where
  "crtRemovals path after [] = Inr ([], [])"
| "crtRemovals path after (e # es) =
     (if after (cle_Cert e) \<noteq> None
      then map_sum id (\<lambda>(ops, running). (ops, cle_Cert e # running)) (crtRemovals path after es)
      else if \<not> SafeToken (cle_Cert e) then Inl (CertNotSafe (cle_Cert e))
      else map_sum id (\<lambda>(ops, running). (crtListDel path (cle_Cert e) # ops, running))
             (crtRemovals path after es))"

text \<open>The loop over the new entries, appending to the operations and to the running list.\<close>

fun crtUpserts ::
  "string \<Rightarrow> (string \<Rightarrow> CRTListEntry option) \<Rightarrow> Op list \<Rightarrow> string list \<Rightarrow> CRTListEntry list
     \<Rightarrow> Op list \<times> string list" where
  "crtUpserts path before ops running [] = (ops, running)"
| "crtUpserts path before ops running (e # es) =
     (case before (cle_Cert e) of
        Some old \<Rightarrow>
          if sameCRTListEntry old e then crtUpserts path before ops running es
          else crtUpserts path before (ops @ [crtListDel path (cle_Cert e), crtListAdd path e])
                 (filter (\<lambda>c. c \<noteq> cle_Cert e) running @ [cle_Cert e]) es
      | None \<Rightarrow> crtUpserts path before (ops @ [crtListAdd path e]) (running @ [cle_Cert e]) es)"

definition crtListOps :: "string \<Rightarrow> CRTListEntry list \<Rightarrow> CRTListEntry list \<Rightarrow> crt_reason + Op list" where
  "crtListOps path prev next =
     (case List.find (\<lambda>r. r \<noteq> None) (map crtListEntryReason next) of
        Some (Some reason) \<Rightarrow> Inl reason
      | _ \<Rightarrow>
          (case crtRemovals path (crtListIndex next) prev of
             Inl reason \<Rightarrow> Inl reason
           | Inr (ops, running) \<Rightarrow>
               (let (ops', running') = crtUpserts path (crtListIndex prev) ops running next
                in if running' \<noteq> crtListOrder next then Inl EntryOrderChanged else Inr ops')))"

subsection \<open>Replaying crt-list operations\<close>

record CrtLine =
  line_Cert :: string
  line_Options :: "ApiKeywordArg list"
  line_SNI :: "string list"

definition crtLine :: "CRTListEntry \<Rightarrow> CrtLine" where
  "crtLine e = \<lparr>line_Cert = cle_Cert e, line_Options = apiKeywords (cle_Options e),
     line_SNI = cle_SNIFilters e\<rparr>"

definition runCrtOp :: "Op \<Rightarrow> CrtLine list \<Rightarrow> CrtLine list" where
  "runCrtOp op ls =
     (if op_Kind op = OpCRTListDel then filter (\<lambda>l. line_Cert l \<noteq> op_Cert op) ls
      else if op_Kind op = OpCRTListAdd
      then ls @ [\<lparr>line_Cert = op_Cert op, line_Options = op_Options op, line_SNI = op_SNIFilters op\<rparr>]
      else ls)"

definition runCrtOps :: "Op list \<Rightarrow> CrtLine list \<Rightarrow> CrtLine list" where
  "runCrtOps ops ls = foldl (\<lambda>ls op. runCrtOp op ls) ls ops"

lemma runCrtOps_simps [simp]:
  "runCrtOps [] ls = ls"
  "runCrtOps (op # ops) ls = runCrtOps ops (runCrtOp op ls)"
  "runCrtOps (ops @ ops') ls = runCrtOps ops' (runCrtOps ops ls)"
  by (simp_all add: runCrtOps_def)

lemma runCrtOp_del [simp]:
  "runCrtOp (crtListDel path cert) ls = filter (\<lambda>l. line_Cert l \<noteq> cert) ls"
  by (simp add: runCrtOp_def crtListDel_def)

lemma runCrtOp_add [simp]: "runCrtOp (crtListAdd path e) ls = ls @ [crtLine e]"
  by (simp add: runCrtOp_def crtListAdd_def crtLine_def)

lemma line_Cert_crtLine [simp]: "line_Cert (crtLine e) = cle_Cert e"
  by (simp add: crtLine_def)

lemma sameCRTListEntry_line:
  "sameCRTListEntry p n \<Longrightarrow> cle_Cert p = cle_Cert n \<Longrightarrow> crtLine p = crtLine n"
  by (simp add: sameCRTListEntry_def crtLine_def EqualKeywordArgs_def [symmetric])

lemma crtRemovals_replay:
  assumes "crtRemovals path after es = Inr (ops, running)"
  shows "running = map cle_Cert (filter (\<lambda>e. after (cle_Cert e) \<noteq> None) es) \<and>
    runCrtOps ops ls =
      filter (\<lambda>l. \<not> (line_Cert l \<in> cle_Cert ` set es \<and> after (line_Cert l) = None)) ls"
  using assms
proof (induction es arbitrary: ops running ls)
  case (Cons e es)
  show ?case
  proof (cases "after (cle_Cert e)")
    case (Some a)
    with Cons.prems obtain r where "crtRemovals path after es = Inr (ops, r)" "running = cle_Cert e # r"
      by (cases "crtRemovals path after es") auto
    with Cons.IH Some show ?thesis by (auto intro!: filter_cong)
  next
    case None
    with Cons.prems obtain o' where "crtRemovals path after es = Inr (o', running)"
      "ops = crtListDel path (cle_Cert e) # o'"
      by (cases "crtRemovals path after es") (auto split: if_splits)
    with Cons.IH None show ?thesis by (auto intro!: filter_cong)
  qed
qed simp

text \<open>
  The invariant of the second loop: the running list names the replayed lines in order, a line of a
  processed certificate is the new one and any other line is still the old one.
\<close>

definition crtState ::
  "(string \<Rightarrow> CRTListEntry option) \<Rightarrow> (string \<Rightarrow> CRTListEntry option) \<Rightarrow> string list \<Rightarrow> CrtLine list \<Rightarrow> string set \<Rightarrow> bool"
  where
  "crtState before after running ls done \<longleftrightarrow> running = map line_Cert ls \<and>
     (\<forall>l\<in>set ls. (if line_Cert l \<in> done then map_option crtLine (after (line_Cert l)) = Some l
                 else map_option crtLine (before (line_Cert l)) = Some l))"

lemma crtUpserts_replay:
  assumes "crtUpserts path before ops running es = (ops', running')"
    and "crtState before after running (runCrtOps ops ls) done"
    and "distinct (map cle_Cert es)" and "done \<inter> cle_Cert ` set es = {}"
    and "\<forall>e\<in>set es. after (cle_Cert e) = Some e"
    and "\<forall>c e. before c = Some e \<longrightarrow> cle_Cert e = c"
  shows "crtState before after running' (runCrtOps ops' ls) (done \<union> cle_Cert ` set es)"
  using assms
proof (induction es arbitrary: ops running "done")
  case (Cons e es)
  let ?c = "cle_Cert e"
  have rest: "distinct (map cle_Cert es)" "insert ?c done \<inter> cle_Cert ` set es = {}"
    "\<forall>e\<in>set es. after (cle_Cert e) = Some e"
    using Cons.prems(3,4,5) by auto
  have new: "after ?c = Some e" using Cons.prems(5) by simp
  have "?c \<notin> done" using Cons.prems(4) by simp
  have step: "crtState before after running' (runCrtOps ops' ls) (insert ?c done \<union> cle_Cert ` set es)"
    if "crtUpserts path before o2 r2 es = (ops', running')"
      "crtState before after r2 (runCrtOps o2 ls) (insert ?c done)" for o2 r2
    using Cons.IH [OF that rest Cons.prems(6)] by simp
  consider (same) old where "before ?c = Some old" "sameCRTListEntry old e"
    | (change) old where "before ?c = Some old" "\<not> sameCRTListEntry old e"
    | (new) "before ?c = None" by (cases "before ?c") auto
  then have "crtState before after running' (runCrtOps ops' ls) (insert ?c done \<union> cle_Cert ` set es)"
  proof cases
    case (same old)
    then have line: "crtLine old = crtLine e"
      using Cons.prems(6) by (auto intro: sameCRTListEntry_line)
    have "crtState before after running (runCrtOps ops ls) (insert ?c done)"
      using Cons.prems(2) same line new \<open>?c \<notin> done\<close> by (fastforce simp: crtState_def)
    with Cons.prems(1) same show ?thesis by (intro step) auto
  next
    case (change old)
    have "crtState before after (filter (\<lambda>c. c \<noteq> ?c) running @ [?c])
        (runCrtOps (ops @ [crtListDel path ?c, crtListAdd path e]) ls) (insert ?c done)"
      using Cons.prems(2) new by (auto simp: crtState_def filter_map comp_def)
    with Cons.prems(1) change show ?thesis by (intro step) auto
  next
    case new
    have "crtState before after (running @ [?c]) (runCrtOps (ops @ [crtListAdd path e]) ls) (insert ?c done)"
      using Cons.prems(2) new \<open>after ?c = Some e\<close> \<open>?c \<notin> done\<close> by (fastforce simp: crtState_def)
    with Cons.prems(1) new show ?thesis by (intro step) auto
  qed
  then show ?case by simp
qed simp

lemma crtListOps_replay:
  assumes ops: "crtListOps path prev next = Inr ops"
    and dp: "distinct (map cle_Cert prev)" and dn: "distinct (map cle_Cert next)"
  shows "runCrtOps ops (map crtLine prev) = map crtLine next"
proof -
  let ?b = "crtListIndex prev" and ?a = "crtListIndex next"
  from ops obtain ops1 run1 where rem: "crtRemovals path ?a prev = Inr (ops1, run1)"
    and ups: "crtUpserts path ?b ops1 run1 next = (ops, crtListOrder next)"
    by (auto simp: crtListOps_def split: option.splits sum.splits if_splits prod.splits)
  let ?ls = "map crtLine prev"
  have before: "?b (cle_Cert e) = Some e" if "e \<in> set prev" for e
    using that dp by (simp add: crtListIndex_def index_by_distinct)
  have after: "?a (cle_Cert e) = Some e" if "e \<in> set next" for e
    using that dn by (simp add: crtListIndex_def index_by_distinct)
  have "crtState ?b ?a run1 (runCrtOps ops1 ?ls) {}"
    using crtRemovals_replay [OF rem, of ?ls] before
    by (auto simp: crtState_def filter_map comp_def intro!: filter_cong map_cong)
  from crtUpserts_replay [OF ups this dn] after
  have st: "crtState ?b ?a (crtListOrder next) (runCrtOps ops ?ls) (cle_Cert ` set next)"
    by (auto simp: crtListIndex_def dest: index_by_SomeD)
  let ?f = "\<lambda>c. the (map_option crtLine (?a c))"
  have certs: "map line_Cert (runCrtOps ops ?ls) = map cle_Cert next"
    using st by (simp add: crtState_def crtListOrder_def)
  have "runCrtOps ops ?ls = map (\<lambda>l. ?f (line_Cert l)) (runCrtOps ops ?ls)"
  proof (rule map_idI [symmetric])
    fix l assume l: "l \<in> set (runCrtOps ops ?ls)"
    then have "line_Cert l \<in> set (map line_Cert (runCrtOps ops ?ls))" by simp
    then have "line_Cert l \<in> cle_Cert ` set next" by (simp only: certs set_map)
    with st l show "?f (line_Cert l) = l" by (auto simp: crtState_def)
  qed
  also have "\<dots> = map ?f (map cle_Cert next)" by (simp flip: certs add: comp_def)
  also have "\<dots> = map crtLine next" using after by simp
  finally show ?thesis .
qed

subsection \<open>The property of the crt-list delta\<close>



end
