(* ===== verification/Deploy_Diff.thy ===== *)
theory Deploy_Diff
  imports Deploy_Servers Deploy_Maps Deploy_Certs
begin

section \<open>The deployment decision\<close>

text \<open>
  \<open>src/pkg/dataplane/deployplan\<close>: what one pod has to do to reach a render. The plan index
  (\<open>index.go\<close>), the exact-or-digest comparisons (\<open>exact.go\<close>), the inventory projection
  (\<open>inventory.go\<close>), the rules for sections, backends, certificates, maps and files
  (\<open>diff.go\<close>, \<open>backends.go\<close>, \<open>certs.go\<close>, \<open>maps.go\<close>), the in-place subset for a pod that waits for
  its reload (\<open>inplace.go\<close>) and the verdict with its execution batches (\<open>deployplan.go\<close>).

  The mutable part of the source's \<open>builder\<close> is the record \<open>builder\<close>, which extends \<open>composer\<close> as
  the Go struct embeds it; the plans and indexes a diff only reads are the record \<open>diffctx\<close>.
  A rule is a function from builder to builder. Each constructor of \<open>reason\<close> is one message of the
  source with its arguments.
\<close>

subsection \<open>Comparing content (\<open>exact.go\<close>)\<close>

definition sameFileContent :: "File option \<Rightarrow> File option \<Rightarrow> bool" where
  "sameFileContent prev next =
     (case (prev, next) of
        (Some p, Some n) \<Rightarrow>
          if file_ContentKnown p \<and> file_ContentKnown n then file_Content p = file_Content n
          else file_Digest p \<noteq> '''' \<and> file_Digest p = file_Digest n
      | _ \<Rightarrow> False)"

definition sameSectionText :: "Section option \<Rightarrow> Section option \<Rightarrow> bool" where
  "sameSectionText prev next =
     (case (prev, next) of
        (Some p, Some n) \<Rightarrow>
          if sec_TextKnown p \<and> sec_TextKnown n then sec_Text p = sec_Text n
          else sec_TextDigest p \<noteq> '''' \<and> sec_TextDigest p = sec_TextDigest n
      | _ \<Rightarrow> False)"

definition sameBackendBody :: "Backend \<Rightarrow> Backend \<Rightarrow> bool" where
  "sameBackendBody prev next =
     (if be_ContentKnown prev \<and> be_ContentKnown next then be_Body prev = be_Body next
      else be_BodyDigest prev \<noteq> '''' \<and> be_BodyDigest prev = be_BodyDigest next)"

definition sameBackendComments :: "Backend \<Rightarrow> Backend \<Rightarrow> bool" where
  "sameBackendComments prev next =
     (if be_ContentKnown prev \<and> be_ContentKnown next then be_Comments prev = be_Comments next
      else be_CommentsDigest prev = be_CommentsDigest next)"

definition sameBackendRecord :: "Backend \<Rightarrow> Backend \<Rightarrow> bool" where
  "sameBackendRecord prev next =
     (if be_ContentKnown prev \<and> be_ContentKnown next then EqualRecord prev next
      else be_RecordDigest next \<noteq> '''' \<and> be_RecordDigest prev = be_RecordDigest next)"

subsection \<open>Indexing a plan (\<open>index.go\<close>)\<close>

record backendEntry =
  bk_name :: string
  bk_section :: Section
  bk_record :: "Backend option" \<comment> \<open>\<open>described\<close> is \<open>bk_record \<noteq> None\<close>\<close>

record Index =
  idx_sections :: "string \<times> string \<Rightarrow> Section option"
  idx_files :: "string \<Rightarrow> File option"
  idx_backends :: "backendEntry list"
  idx_byName :: "string \<Rightarrow> nat option"

definition fileIndex :: "File list \<Rightarrow> string \<Rightarrow> File option" where
  "fileIndex files = index_by file_Path files"

definition serverIndex :: "Server list \<Rightarrow> string \<Rightarrow> Server option" where
  "serverIndex servers = index_by srv_Name servers"

definition indexSection :: "Plan \<Rightarrow> Index \<Rightarrow> Section \<Rightarrow> Index" where
  "indexSection p index sec =
     (if sec_Kind sec \<noteq> SectionKindBackend
      then index\<lparr>idx_sections := (idx_sections index)((sec_Kind sec, sec_Name sec) \<mapsto> sec)\<rparr>
      else index\<lparr>idx_byName := (idx_byName index)(sec_Name sec \<mapsto> length (idx_backends index)),
                 idx_backends := idx_backends index @
                   [\<lparr>bk_name = sec_Name sec, bk_section = sec,
                     bk_record = go_get (plan_Backends p) (sec_Name sec)\<rparr>]\<rparr>)"

definition IndexPlan :: "Plan \<Rightarrow> Index" where
  "IndexPlan p =
     foldl (indexSection p)
       \<lparr>idx_sections = Map.empty, idx_files = fileIndex (plan_Files p), idx_backends = [],
        idx_byName = Map.empty\<rparr>
       (plan_Sections p)"

definition Index_backend :: "Index \<Rightarrow> string \<Rightarrow> backendEntry option" where
  "Index_backend x name = (case idx_byName x name of Some at \<Rightarrow> Some (idx_backends x ! at) | None \<Rightarrow> None)"

definition sortedMapNames :: "Map gomap \<Rightarrow> string list" where
  "sortedMapNames plans = sorted_keys plans"

subsection \<open>Inventory (\<open>inventory.go\<close>)\<close>

definition InventoryOf :: "Plan option \<Rightarrow> Inventory" where
  "InventoryOf plan =
     (case plan of None \<Rightarrow> emptyInventory
      | Some p \<Rightarrow>
          foldl (\<lambda>inventory f.
             if file_Kind f = FileKindMap
             then inventory\<lparr>inv_Maps := inv_Maps inventory @ [file_Path f]\<rparr>
             else if file_Kind f = FileKindCert
             then inventory\<lparr>inv_Certs := inv_Certs inventory @ [file_Path f]\<rparr>
             else if file_Kind f = FileKindCA
             then inventory\<lparr>inv_CAFiles := inv_CAFiles inventory @ [file_Path f]\<rparr>
             else if file_Kind f = FileKindCRTList
             then inventory\<lparr>inv_CRTLists := inv_CRTLists inventory @ [file_Path f]\<rparr>
             else inventory) emptyInventory (plan_Files p))"

fun certDirOfFiles :: "File list \<Rightarrow> string" where
  "certDirOfFiles [] = ''''"
| "certDirOfFiles (f # fs) =
     (if file_Kind f \<noteq> FileKindCert then certDirOfFiles fs
      else let dir = path_Dir (file_Path f) in if dir \<noteq> ''.'' then dir else certDirOfFiles fs)"

definition certDirOf :: "Plan \<Rightarrow> string" where
  "certDirOf p = certDirOfFiles (plan_Files p)"

subsection \<open>The decision and the builder (\<open>deployplan.go\<close>, \<open>diff.go\<close>)\<close>

datatype Verdict = VerdictRuntime | VerdictFileOnly | VerdictReload

definition MaxChunks :: nat where "MaxChunks = MaxOpBatches"
definition MaxReasons :: nat where "MaxReasons = 32"

record Baseline =
  bl_Applied :: "Plan option"
  bl_AppliedIndex :: "Index option"
  bl_Running :: "Plan option"
  bl_WorkerOps :: "Plan option"
  bl_Inventory :: Inventory
  bl_Caps :: Caps
  bl_PendingServerDeletes :: int
  bl_PendingBackendDeletes :: int
  bl_ReloadPending :: bool

datatype reason =
    NoRender
  | NoBaseline
  | SchemaMismatch int int
  | AgentDoesNotExecute op_kind
  | OpCap nat nat
  | ProfileAdded string | CoreSectionAdded string
  | ProfileChanged string | CoreSectionChanged string
  | CoreSectionRemoved string
  | ProfileStillUsed string string
  | ProfileBackendNotDeleted string string
  | ConfigUnexplained string
  | FileReloadOnChange string
  | FileRemovedReloadOnChange string
  | FileRemoved string
  | BackendWithoutRecord string
  | BackendAddedShape string string | BackendRemovedShape string string
  | NoAddBackend string | NoDelBackend string
  | BackendTokensNotSafe string
  | ProfileNotRunning string string
  | BackendAddedServer string server_reason
  | BackendRemovedServer string server_reason
  | BackendDeletesPending string int
  | BackendBodyChanged string
  | BackendTextUnexplained string
  | BackendAttributeChanged string string
  | ServerRefused string string server_reason
  | FileTokenNotSafe string
  | CRTListAdded string | CRTListRemoved string
  | CRTListUndeclared string
  | CRTListNotLoaded string
  | CRTListRefused string crt_reason
  | MapNotLoaded string
  | MapTokenNotSafe string

record Decision =
  d_Verdict :: Verdict
  d_Ops :: "Op list"
  d_InPlace :: "Op list"
  d_WorkerPlan :: "Plan option"
  d_Chunks :: nat
  d_Reasons :: "reason list"
  d_Files :: "ApiFile list"
  d_Mode :: apply_mode

text \<open>The operation groups in the order they are emitted.\<close>

datatype op_group =
    groupBackendAdd | groupServerUpdate | groupBackendPublish | groupMapUpsert | groupCert
  | groupCRTList | groupMapDel | groupBackendUnpublish | groupServerDel | groupBackendDel

definition opGroups :: "op_group list" where
  "opGroups = [groupBackendAdd, groupServerUpdate, groupBackendPublish, groupMapUpsert, groupCert,
     groupCRTList, groupMapDel, groupBackendUnpublish, groupServerDel, groupBackendDel]"

record builder = composer +
  b_groups :: "op_group \<Rightarrow> Op list"
  b_reasons :: "reason list"
  b_reload :: bool
  b_sectionChange :: bool
  b_deletedByOps :: "string list"

record diffctx =
  dc_next :: Plan
  dc_prev :: Plan
  dc_nextIndex :: Index
  dc_prevIndex :: Index

definition push :: "op_group \<Rightarrow> Op list \<Rightarrow> builder \<Rightarrow> builder" where
  "push grp ops b = b\<lparr>b_groups := (b_groups b)(grp := b_groups b grp @ ops)\<rparr>"

definition notef :: "reason \<Rightarrow> builder \<Rightarrow> builder" where
  "notef r b = (if length (b_reasons b) \<ge> MaxReasons then b else b\<lparr>b_reasons := b_reasons b @ [r]\<rparr>)"

definition failf :: "reason \<Rightarrow> builder \<Rightarrow> builder" where
  "failf r b = notef r (b\<lparr>b_reload := True\<rparr>)"

definition orderedOps :: "builder \<Rightarrow> Op list" where
  "orderedOps b = concat (map (b_groups b) opGroups)"

definition Files :: "Plan \<Rightarrow> ApiFile list" where
  "Files p = map (\<lambda>f. \<lparr>af_Path = file_Path f, af_Digest = file_Digest f, af_Proof = file_Digest f,
     af_Size = file_Size f, af_Kind = file_Kind f, af_ReloadOnChange = file_ReloadOnChange f\<rparr>)
     (plan_Files p)"

definition chunkCount :: "nat \<Rightarrow> nat \<Rightarrow> nat" where
  "chunkCount ops inPlace =
     (if ops = 0 then 0
      else let first = min (MaxOpsPerApply - inPlace) ops
           in 1 + (ops - first + MaxOpsPerApply - 1) div MaxOpsPerApply)"

text \<open>
  The loop of \<open>Chunk\<close>. Only the first batch can have the budget 0, and every later one takes at
  least one operation.
\<close>

function chunkFrom :: "nat \<Rightarrow> 'a list \<Rightarrow> 'a list list" where
  "chunkFrom budget ops =
     (if ops = [] then []
      else take budget ops # chunkFrom MaxOpsPerApply (drop budget ops))"
  by pat_completeness auto
termination
  by (relation "measures [\<lambda>(budget, ops). length ops, \<lambda>(budget, ops). if budget = 0 then 1 else 0]")
     (auto simp: MaxOpsPerApply_def)

declare chunkFrom.simps [simp del]

definition Chunk :: "Decision \<Rightarrow> Op list list" where
  "Chunk d =
     (if d_Ops d = [] then []
      else chunkFrom (MaxOpsPerApply - length (d_InPlace d)) (d_Ops d))"

subsection \<open>Certificates and crt-lists (\<open>certs.go\<close>)\<close>

definition storeFile :: "string \<Rightarrow> op_kind \<Rightarrow> op_kind \<Rightarrow> string list \<Rightarrow> builder \<Rightarrow> builder" where
  "storeFile path set_kind create loaded b =
     (if \<not> SafeToken path then failf (FileTokenNotSafe path) b
      else let kind = (if path \<in> set loaded \<or> path \<in> set (c_created b) then set_kind else create)
           in push groupCert [(mkOp kind)\<lparr>op_Path := path\<rparr>]
                (b\<lparr>c_created := path # c_created b\<rparr>))"

definition diffCRTList :: "diffctx \<Rightarrow> string \<Rightarrow> bool \<Rightarrow> builder \<Rightarrow> builder" where
  "diffCRTList dc path existed b =
     (if \<not> existed then failf (CRTListAdded path) b
      else case (go_get (plan_CRTLists (dc_prev dc)) path, go_get (plan_CRTLists (dc_next dc)) path) of
        (Some prev, Some nxt) \<Rightarrow>
          if path \<notin> set (inv_CRTLists (c_inventory b)) then notef (CRTListNotLoaded path) b
          else (case crtListOps path (cl_Entries prev) (cl_Entries nxt) of
                  Inl r \<Rightarrow> failf (CRTListRefused path r) b
                | Inr ops \<Rightarrow> push groupCRTList ops b)
      | _ \<Rightarrow> failf (CRTListUndeclared path) b)"

definition diffCertFile :: "diffctx \<Rightarrow> builder \<Rightarrow> File \<Rightarrow> builder" where
  "diffCertFile dc b f =
     (let old = idx_files (dc_prevIndex dc) (file_Path f) in
      if sameFileContent old (Some f) then b
      else if file_Kind f = FileKindCert
      then storeFile (file_Path f) OpCertSet OpCertNew (inv_Certs (c_inventory b)) b
      else if file_Kind f = FileKindCA
      then storeFile (file_Path f) OpCASet OpCANew (inv_CAFiles (c_inventory b)) b
      else if file_Kind f = FileKindCRTList then diffCRTList dc (file_Path f) (old \<noteq> None) b
      else b)"

definition removedCRTList :: "diffctx \<Rightarrow> builder \<Rightarrow> File \<Rightarrow> builder" where
  "removedCRTList dc b f =
     (if idx_files (dc_nextIndex dc) (file_Path f) = None \<and> file_Kind f = FileKindCRTList
      then failf (CRTListRemoved (file_Path f)) b else b)"

definition diffCerts :: "diffctx \<Rightarrow> builder \<Rightarrow> builder" where
  "diffCerts dc b =
     foldl (removedCRTList dc) (foldl (diffCertFile dc) b (plan_Files (dc_next dc)))
       (plan_Files (dc_prev dc))"

subsection \<open>Backends (\<open>backends.go\<close>)\<close>

definition profileInRunningConfig :: "diffctx \<Rightarrow> string \<Rightarrow> bool" where
  "profileInRunningConfig dc name \<longleftrightarrow> name \<noteq> '''' \<and> go_get (plan_Profiles (dc_prev dc)) name \<noteq> None"

text \<open>The server loop of \<open>publishNewBackend\<close>: the operations of all servers or the first refusal.\<close>

fun addServers :: "builder \<Rightarrow> Backend \<Rightarrow> Server list \<Rightarrow> server_reason + Op list" where
  "addServers b be [] = Inr []"
| "addServers b be (srv # srvs) =
     (case addServer b be srv of
        Inl r \<Rightarrow> Inl r
      | Inr ops \<Rightarrow> map_sum id ((@) ops) (addServers b be srvs))"

definition publishNewBackend :: "Backend \<Rightarrow> builder \<Rightarrow> builder" where
  "publishNewBackend be b =
     (case addServers b be (be_Servers be) of
        Inl r \<Rightarrow> failf (BackendAddedServer (be_Name be) r) b
      | Inr adds \<Rightarrow>
          push groupBackendPublish [(mkOp OpBackendPublish)\<lparr>op_Backend := be_Name be\<rparr>]
            (push groupBackendAdd adds
              (push groupBackendAdd
                [(mkOp OpBackendAdd)\<lparr>op_Backend := be_Name be, op_Profile := be_Profile be,
                   op_Mode := be_Mode be, op_GUID := be_GUID be\<rparr>] b)))"

definition backendAdded :: "diffctx \<Rightarrow> Backend \<Rightarrow> builder \<Rightarrow> builder" where
  "backendAdded dc be b =
     (if be_Shape be \<noteq> ShapeDynamic then failf (BackendAddedShape (be_Name be) (be_ShapeReason be)) b
      else if \<not> DynamicBackends (c_caps b) then failf (NoAddBackend (be_Name be)) b
      else if \<not> SafeToken (be_Name be) \<or> \<not> SafeToken (be_Profile be) \<or>
              (be_GUID be \<noteq> '''' \<and> \<not> SafeToken (be_GUID be))
      then failf (BackendTokensNotSafe (be_Name be)) b
      else if \<not> profileInRunningConfig dc (be_Profile be)
      then failf (ProfileNotRunning (be_Name be) (be_Profile be)) b
      else publishNewBackend be b)"

text \<open>
  The server loop of \<open>deleteBackend\<close>. A refusal stops it; the deletes counted before it stay
  counted, as in the source.
\<close>

fun drainServers :: "builder \<Rightarrow> string \<Rightarrow> Server list \<Rightarrow> builder \<times> (server_reason + Op list)" where
  "drainServers b name [] = (b, Inr [])"
| "drainServers b name (srv # srvs) =
     (case removeServer b name srv of
        (b', Inl r) \<Rightarrow> (b', Inl r)
      | (b', Inr ops) \<Rightarrow>
          (case drainServers b' name srvs of (b'', res) \<Rightarrow> (b'', map_sum id ((@) ops) res)))"

definition deleteBackend :: "Backend \<Rightarrow> builder \<Rightarrow> builder" where
  "deleteBackend be b =
     (case drainServers b (be_Name be) (be_Servers be) of
        (b', Inl r) \<Rightarrow> failf (BackendRemovedServer (be_Name be) r) b'
      | (b', Inr drains) \<Rightarrow>
          (let b1 = push groupBackendUnpublish [(mkOp OpBackendUnpublish)\<lparr>op_Backend := be_Name be\<rparr>] b';
               b2 = push groupServerDel drains b1;
               b3 = push groupBackendDel
                      [(mkOp OpBackendWaitRemovable)\<lparr>op_Backend := be_Name be,
                         op_TimeoutMs := removableTimeoutMs\<rparr>,
                       (mkOp OpBackendDel)\<lparr>op_Backend := be_Name be\<rparr>] b2
           in b3\<lparr>b_deletedByOps := be_Name be # b_deletedByOps b3,
                 c_pendingBackendDeletes := c_pendingBackendDeletes b3 + 1\<rparr>))"

definition backendRemoved :: "Backend \<Rightarrow> builder \<Rightarrow> builder" where
  "backendRemoved be b =
     (if be_Shape be \<noteq> ShapeDynamic then failf (BackendRemovedShape (be_Name be) (be_ShapeReason be)) b
      else if \<not> DynamicBackends (c_caps b) then failf (NoDelBackend (be_Name be)) b
      else if c_pendingBackendDeletes b \<ge> MaxPendingBackendDeletes
      then failf (BackendDeletesPending (be_Name be) (c_pendingBackendDeletes b)) b
      else deleteBackend be b)"

definition unexplainedText :: "Backend \<Rightarrow> Backend \<Rightarrow> bool \<Rightarrow> bool" where
  "unexplainedText prev next textEqual \<longleftrightarrow>
     \<not> textEqual \<and> sameBackendRecord prev next \<and> sameBackendComments prev next"

definition changedAttribute :: "Backend \<Rightarrow> Backend \<Rightarrow> string" where
  "changedAttribute prev next =
     (if be_Profile prev \<noteq> be_Profile next then ''profile''
      else if be_Mode prev \<noteq> be_Mode next then ''mode''
      else if be_GUID prev \<noteq> be_GUID next then ''guid''
      else if be_Balance prev \<noteq> be_Balance next then ''balance''
      else if be_HashType prev \<noteq> be_HashType next then ''hash-type''
      else if be_Shape prev \<noteq> be_Shape next then ''shape''
      else if \<not> list_all2 sameKeyword (be_DefaultServer prev) (be_DefaultServer next)
      then ''default-server''
      else '''')"

text \<open>\<open>serverOps\<close> with the push around it: a refusal is recorded against the server it names.\<close>

definition pushServer :: "op_group \<Rightarrow> string \<Rightarrow> string \<Rightarrow> server_reason + Op list \<Rightarrow> builder \<Rightarrow> builder" where
  "pushServer grp backend server res b =
     (case res of Inl r \<Rightarrow> failf (ServerRefused backend server r) b | Inr ops \<Rightarrow> push grp ops b)"

definition diffServer :: "Backend \<Rightarrow> (string \<Rightarrow> Server option) \<Rightarrow> builder \<Rightarrow> Server \<Rightarrow> builder" where
  "diffServer nxt previous b srv =
     pushServer groupServerUpdate (be_Name nxt) (srv_Name srv)
       (case previous (srv_Name srv) of
          Some old \<Rightarrow> updateServer nxt old srv
        | None \<Rightarrow> addServer b nxt srv) b"

definition diffRemovedServer :: "Backend \<Rightarrow> (string \<Rightarrow> Server option) \<Rightarrow> builder \<Rightarrow> Server \<Rightarrow> builder" where
  "diffRemovedServer prev current b srv =
     (if current (srv_Name srv) \<noteq> None then b
      else case removeServer b (be_Name prev) srv of
        (b', res) \<Rightarrow> pushServer groupServerDel (be_Name prev) (srv_Name srv) res b')"

definition diffServers :: "Backend \<Rightarrow> Backend \<Rightarrow> builder \<Rightarrow> builder" where
  "diffServers prev nxt b =
     foldl (diffRemovedServer prev (serverIndex (be_Servers nxt)))
       (foldl (diffServer nxt (serverIndex (be_Servers prev))) b (be_Servers nxt))
       (be_Servers prev)"

definition backendChanged :: "Backend \<Rightarrow> Backend \<Rightarrow> bool \<Rightarrow> builder \<Rightarrow> builder" where
  "backendChanged prev nxt textEqual b =
     (if \<not> sameBackendBody prev nxt then failf (BackendBodyChanged (be_Name nxt)) b
      else if unexplainedText prev nxt textEqual then failf (BackendTextUnexplained (be_Name nxt)) b
      else if sameBackendRecord prev nxt then b
      else if changedAttribute prev nxt \<noteq> ''''
      then failf (BackendAttributeChanged (be_Name nxt) (changedAttribute prev nxt)) b
      else diffServers prev nxt b)"

definition diffBackend :: "diffctx \<Rightarrow> builder \<Rightarrow> backendEntry \<Rightarrow> builder" where
  "diffBackend dc b nxt =
     (case bk_record nxt of
        None \<Rightarrow> failf (BackendWithoutRecord (bk_name nxt)) b
      | Some nrec \<Rightarrow>
          (case Index_backend (dc_prevIndex dc) (bk_name nxt) of
             None \<Rightarrow> backendAdded dc nrec (b\<lparr>b_sectionChange := True\<rparr>)
           | Some prev \<Rightarrow>
               (case bk_record prev of
                  None \<Rightarrow> backendAdded dc nrec (b\<lparr>b_sectionChange := True\<rparr>)
                | Some prec \<Rightarrow>
                    (let textEqual = sameSectionText (Some (bk_section prev)) (Some (bk_section nxt))
                     in backendChanged prec nrec textEqual
                          (b\<lparr>b_sectionChange := b_sectionChange b \<or> \<not> textEqual\<rparr>)))))"

definition diffRemovedBackend :: "diffctx \<Rightarrow> builder \<Rightarrow> backendEntry \<Rightarrow> builder" where
  "diffRemovedBackend dc b prev =
     (let kept = (case Index_backend (dc_nextIndex dc) (bk_name prev) of
                    Some nxt \<Rightarrow> bk_record nxt \<noteq> None | None \<Rightarrow> False)
      in if kept then b
         else case bk_record prev of
           None \<Rightarrow> b
         | Some prec \<Rightarrow> backendRemoved prec (b\<lparr>b_sectionChange := True\<rparr>))"

definition diffBackends :: "diffctx \<Rightarrow> builder \<Rightarrow> builder" where
  "diffBackends dc b =
     foldl (diffRemovedBackend dc)
       (foldl (diffBackend dc) b (idx_backends (dc_nextIndex dc)))
       (idx_backends (dc_prevIndex dc))"

subsection \<open>Sections (\<open>diff.go\<close>)\<close>

definition sectionAdded :: "Section \<Rightarrow> builder \<Rightarrow> builder" where
  "sectionAdded sec b =
     failf (if sec_Kind sec = SectionKindProfile then ProfileAdded (sec_Name sec)
            else CoreSectionAdded (sec_Name sec)) (b\<lparr>b_sectionChange := True\<rparr>)"

definition sectionChanged :: "Section \<Rightarrow> builder \<Rightarrow> builder" where
  "sectionChanged sec b =
     failf (if sec_Kind sec = SectionKindProfile then ProfileChanged (sec_Name sec)
            else CoreSectionChanged (sec_Name sec)) (b\<lparr>b_sectionChange := True\<rparr>)"

definition usesProfile :: "string \<Rightarrow> backendEntry \<Rightarrow> bool" where
  "usesProfile name be = (case bk_record be of None \<Rightarrow> False | Some r \<Rightarrow> be_Profile r = name)"

definition profileRemoved :: "diffctx \<Rightarrow> string \<Rightarrow> builder \<Rightarrow> builder" where
  "profileRemoved dc name b =
     (case find (usesProfile name) (idx_backends (dc_nextIndex dc)) of
        Some be \<Rightarrow> failf (ProfileStillUsed name (bk_name be)) b
      | None \<Rightarrow>
          (case find (\<lambda>be. usesProfile name be \<and> bk_name be \<notin> set (b_deletedByOps b))
                  (idx_backends (dc_prevIndex dc)) of
             Some be \<Rightarrow> failf (ProfileBackendNotDeleted name (bk_name be)) b
           | None \<Rightarrow> b))"

definition sectionRemoved :: "diffctx \<Rightarrow> Section \<Rightarrow> builder \<Rightarrow> builder" where
  "sectionRemoved dc sec b =
     (let b' = b\<lparr>b_sectionChange := True\<rparr>
      in if sec_Kind sec = SectionKindProfile then profileRemoved dc (sec_Name sec) b'
         else failf (CoreSectionRemoved (sec_Name sec)) b')"

definition diffSection :: "diffctx \<Rightarrow> builder \<Rightarrow> Section \<Rightarrow> builder" where
  "diffSection dc b sec =
     (if sec_Kind sec = SectionKindBackend then b
      else case idx_sections (dc_prevIndex dc) (sec_Kind sec, sec_Name sec) of
        None \<Rightarrow> sectionAdded sec b
      | Some old \<Rightarrow> if sameSectionText (Some old) (Some sec) then b else sectionChanged sec b)"

definition diffRemovedSection :: "diffctx \<Rightarrow> builder \<Rightarrow> Section \<Rightarrow> builder" where
  "diffRemovedSection dc b sec =
     (if sec_Kind sec = SectionKindBackend then b
      else if idx_sections (dc_nextIndex dc) (sec_Kind sec, sec_Name sec) = None
      then sectionRemoved dc sec b else b)"

definition diffSections :: "diffctx \<Rightarrow> builder \<Rightarrow> builder" where
  "diffSections dc b =
     foldl (diffRemovedSection dc) (foldl (diffSection dc) b (plan_Sections (dc_next dc)))
       (plan_Sections (dc_prev dc))"

subsection \<open>Maps (\<open>maps.go\<close>)\<close>

definition mapPath :: "Map \<Rightarrow> string \<Rightarrow> string" where
  "mapPath m name = (if map_Path m = '''' then name else map_Path m)"

definition mapDelta :: "string \<Rightarrow> Map \<Rightarrow> Entry list \<Rightarrow> mapOps" where
  "mapDelta path nxt prevEntries =
     (if map_Ordered nxt then orderedMapOps path prevEntries (map_Entries nxt)
      else unorderedMapOps path prevEntries (map_Entries nxt))"

definition pushMapOps :: "mapOps \<Rightarrow> string \<Rightarrow> builder \<Rightarrow> builder" where
  "pushMapOps ops path b =
     (if mo_whole ops then push groupMapUpsert [(mkOp OpMapReplace)\<lparr>op_Path := path\<rparr>] b
      else push groupMapDel (mo_deletes ops) (push groupMapUpsert (mo_upserts ops) b))"

definition diffMap :: "Map option \<Rightarrow> Map \<Rightarrow> string \<Rightarrow> builder \<Rightarrow> builder" where
  "diffMap prev nxt name b =
     (let path = mapPath nxt name;
          prevEntries = (case prev of None \<Rightarrow> [] | Some m \<Rightarrow> map_Entries m)
      in if path \<notin> set (inv_Maps (c_inventory b)) then notef (MapNotLoaded path) b
         else if \<not> SafeToken path then failf (MapTokenNotSafe path) b
         else pushMapOps (mapDelta path nxt prevEntries) path b)"

definition diffMapNamed :: "diffctx \<Rightarrow> builder \<Rightarrow> string \<Rightarrow> builder" where
  "diffMapNamed dc b name =
     (case go_get (plan_Maps (dc_next dc)) name of
        None \<Rightarrow> b
      | Some nxt \<Rightarrow>
          (let prev = go_get (plan_Maps (dc_prev dc)) name in
           if prev \<noteq> None \<and> sameFileContent (idx_files (dc_prevIndex dc) name) (idx_files (dc_nextIndex dc) name)
           then b else diffMap prev nxt name b))"

definition diffMaps :: "diffctx \<Rightarrow> builder \<Rightarrow> builder" where
  "diffMaps dc b = foldl (diffMapNamed dc) b (sortedMapNames (plan_Maps (dc_next dc)))"

subsection \<open>Files (\<open>diff.go\<close>)\<close>

definition diffFile :: "diffctx \<Rightarrow> builder \<Rightarrow> File \<Rightarrow> builder" where
  "diffFile dc b f =
     (if sameFileContent (idx_files (dc_prevIndex dc) (file_Path f)) (Some f) then b
      else if file_Kind f = FileKindConfig
      then (if b_sectionChange b then b else failf (ConfigUnexplained (file_Path f)) b)
      else if file_ReloadOnChange f then failf (FileReloadOnChange (file_Path f)) b
      else b)"

definition diffRemovedFile :: "diffctx \<Rightarrow> builder \<Rightarrow> File \<Rightarrow> builder" where
  "diffRemovedFile dc b f =
     (if idx_files (dc_nextIndex dc) (file_Path f) \<noteq> None \<or> file_Kind f = FileKindCRTList then b
      else if file_ReloadOnChange f then failf (FileRemovedReloadOnChange (file_Path f)) b
      else notef (FileRemoved (file_Path f)) b)"

definition diffFiles :: "diffctx \<Rightarrow> builder \<Rightarrow> builder" where
  "diffFiles dc b =
     foldl (diffRemovedFile dc) (foldl (diffFile dc) b (plan_Files (dc_next dc)))
       (plan_Files (dc_prev dc))"

text \<open>The five passes in the order of \<open>DiffIndexed\<close>.\<close>

definition diffAll :: "diffctx \<Rightarrow> builder \<Rightarrow> builder" where
  "diffAll dc b = diffFiles dc (diffMaps dc (diffSections dc (diffBackends dc (diffCerts dc b))))"

end
