(* ===== verification/Deploy_InPlace.thy ===== *)
theory Deploy_InPlace
  imports Deploy_Diff
begin

section \<open>Operations while a reload is pending, and the verdict\<close>

text \<open>
  The subset of operations a pod may run while it waits for its reload (\<open>inplace.go\<close>), the verdict
  (\<open>decide\<close>, \<open>DiffIndexed\<close> and \<open>Diff\<close> of \<open>diff.go\<close>) and the operation kinds the controller
  composes (\<open>deployplan.go\<close>). \<open>sum64\<close> stands for \<open>xxhash.Sum64String\<close>, a third-party package;
  nothing is assumed of it. \<open>DiffIndexed\<close> calls itself once, on a baseline without a worker plan,
  to learn whether the worker could reach the render without a reload.
\<close>

subsection \<open>The encoding of an operation list (\<open>json.Marshal\<close>)\<close>

definition inRange :: "nat \<Rightarrow> nat \<Rightarrow> char \<Rightarrow> bool" where
  "inRange lo hi c \<longleftrightarrow> lo \<le> of_char c \<and> (of_char c :: nat) \<le> hi"

text \<open>The width of the UTF-8 sequence a string starts with, or 0 when the sequence is invalid.\<close>

definition rune_width :: "string \<Rightarrow> nat" where
  "rune_width s =
     (let cont = inRange 0x80 0xBF in
      case s of [] \<Rightarrow> 0
      | a # r \<Rightarrow>
          if inRange 0 0x7F a then 1
          else (case r of [] \<Rightarrow> 0
            | b # r' \<Rightarrow>
                if inRange 0xC2 0xDF a then (if cont b then 2 else 0)
                else (case r' of [] \<Rightarrow> 0
                  | c # r'' \<Rightarrow>
                      if inRange 0xE0 0xEF a
                      then (if inRange (if of_char a = (0xE0 :: nat) then 0xA0 else 0x80)
                                 (if of_char a = (0xED :: nat) then 0x9F else 0xBF) b \<and> cont c
                            then 3 else 0)
                      else (case r'' of [] \<Rightarrow> 0
                        | d # _ \<Rightarrow>
                            if inRange 0xF0 0xF4 a \<and>
                               inRange (if of_char a = (0xF0 :: nat) then 0x90 else 0x80)
                                 (if of_char a = (0xF4 :: nat) then 0x8F else 0xBF) b \<and> cont c \<and> cont d
                            then 4 else 0))))"

definition json_ascii :: "char \<Rightarrow> string" where
  "json_ascii c =
     (let n = (of_char c :: nat); slash = char_of (92 :: nat) in
      if n = 34 \<or> n = 92 then [slash, c]
      else if n = 8 then [slash, CHR ''b'']
      else if n = 12 then [slash, CHR ''f'']
      else if n = 10 then [slash, CHR ''n'']
      else if n = 13 then [slash, CHR ''r'']
      else if n = 9 then [slash, CHR ''t'']
      else if n < 32 \<or> n = 60 \<or> n = 62 \<or> n = 38
      then slash # ''u00'' @ [hex_digit (n div 16), hex_digit (n mod 16)]
      else [c])"

definition json_rune :: "string \<Rightarrow> string" where
  "json_rune run =
     (if run = [char_of (0xE2 :: nat), char_of (0x80 :: nat), char_of (0xA8 :: nat)]
      then char_of (92 :: nat) # ''u2028''
      else if run = [char_of (0xE2 :: nat), char_of (0x80 :: nat), char_of (0xA9 :: nat)]
      then char_of (92 :: nat) # ''u2029''
      else case run of [c] \<Rightarrow> json_ascii c | _ \<Rightarrow> run)"

function json_escape :: "string \<Rightarrow> string" where
  "json_escape s =
     (if s = [] then []
      else if rune_width s = 0 then char_of (92 :: nat) # ''ufffd'' @ json_escape (drop 1 s)
      else json_rune (take (rune_width s) s) @ json_escape (drop (rune_width s) s))"
  by pat_completeness auto
termination
  by (relation "measure length") auto

declare json_escape.simps [simp del]

definition json_string :: "string \<Rightarrow> string" where
  "json_string s = CHR 0x22 # json_escape s @ [CHR 0x22]"

fun json_join :: "string list \<Rightarrow> string" where
  "json_join [] = []"
| "json_join [x] = x"
| "json_join (x # xs) = x @ '','' @ json_join xs"

definition json_array :: "('a \<Rightarrow> string) \<Rightarrow> 'a list \<Rightarrow> string" where
  "json_array f xs = ''['' @ json_join (map f xs) @ '']''"

definition json_object :: "(string \<times> string option) list \<Rightarrow> string" where
  "json_object members =
     ''{'' @ json_join (map (\<lambda>(k, v). json_string k @ '':'' @ v)
        (concat (map (\<lambda>(k, v). case v of None \<Rightarrow> [] | Some x \<Rightarrow> [(k, x)]) members))) @ ''}''"

text \<open>The \<open>omitempty\<close> fields: the zero value of the type leaves the member out.\<close>

definition omit_string :: "string \<Rightarrow> string option" where
  "omit_string s = (if s = '''' then None else Some (json_string s))"

definition omit_int :: "int \<Rightarrow> string option" where
  "omit_int n = (if n = 0 then None else Some (Itoa n))"

definition omit_list :: "('a \<Rightarrow> string) \<Rightarrow> 'a list \<Rightarrow> string option" where
  "omit_list f xs = (if xs = [] then None else Some (json_array f xs))"

definition json_keyword :: "ApiKeywordArg \<Rightarrow> string" where
  "json_keyword kw =
     json_object [(''name'', Some (json_string (akw_Name kw))),
                  (''args'', omit_list json_string (akw_Args kw))]"

definition json_op :: "Op \<Rightarrow> string" where
  "json_op x =
     json_object
       [(''kind'', Some (json_string (op_wire (op_Kind x)))),
        (''backend'', omit_string (op_Backend x)), (''server'', omit_string (op_Server x)),
        (''profile'', omit_string (op_Profile x)), (''mode'', omit_string (op_Mode x)),
        (''guid'', omit_string (op_GUID x)), (''address'', omit_string (op_Address x)),
        (''port'', omit_int (op_Port x)), (''weight'', map_option Itoa (op_Weight x)),
        (''state'', omit_string (op_State x)),
        (''health'', if op_Health x then Some ''true'' else None),
        (''keywords'', omit_list json_keyword (op_Keywords x)),
        (''timeout_ms'', omit_int (op_TimeoutMs x)), (''path'', omit_string (op_Path x)),
        (''key'', omit_string (op_Key x)), (''value'', omit_string (op_Value x)),
        (''cert'', omit_string (op_Cert x)), (''options'', omit_list json_keyword (op_Options x)),
        (''sni_filters'', omit_list json_string (op_SNIFilters x))]"

definition json_ops :: "Op list \<Rightarrow> string" where
  "json_ops = json_array json_op"

subsection \<open>The worker's plan after an in-place batch\<close>

definition inPlaceKinds :: "op_kind list" where
  "inPlaceKinds = [OpServerSetAddr, OpServerSetWeight, OpServerSetState, OpServerAdd, OpServerEnable,
     OpServerDisable, OpMapSet, OpMapDel, OpCertSet]"

definition serverIn :: "Plan \<Rightarrow> string \<Rightarrow> string \<Rightarrow> Server option" where
  "serverIn plan backend name =
     (case go_get (plan_Backends plan) backend of
        None \<Rightarrow> None
      | Some be \<Rightarrow> find (\<lambda>s. srv_Name s = name) (be_Servers be))"

text \<open>The loop body of \<open>mutateServer\<close> on a server of the operation's name.\<close>

definition mutate_one :: "Op \<Rightarrow> Server \<Rightarrow> Server" where
  "mutate_one x srv =
     (case op_Kind x of
        OpServerEnable \<Rightarrow> srv\<lparr>srv_Disabled := False\<rparr>
      | OpServerDisable \<Rightarrow> srv\<lparr>srv_Disabled := True\<rparr>
      | OpServerSetState \<Rightarrow> srv\<lparr>srv_Disabled := (op_State x = stateMaint)\<rparr>
      | OpServerSetAddr \<Rightarrow> srv\<lparr>srv_Address := op_Address x, srv_Port := op_Port x\<rparr>
      | OpServerSetWeight \<Rightarrow>
          (case op_Weight x of None \<Rightarrow> srv | Some w \<Rightarrow> srv\<lparr>srv_Weight := Some w\<rparr>)
      | _ \<Rightarrow> srv)"

definition mutateServer :: "Plan \<Rightarrow> Op \<Rightarrow> Plan" where
  "mutateServer after x =
     (case go_get (plan_Backends after) (op_Backend x) of
        None \<Rightarrow> after
      | Some be \<Rightarrow>
          after\<lparr>plan_Backends := AList.update (op_Backend x)
            (be\<lparr>be_Servers := map (\<lambda>s. if srv_Name s \<noteq> op_Server x then s else mutate_one x s)
                  (be_Servers be)\<rparr>) (plan_Backends after)\<rparr>)"

definition mutateEntries :: "Op \<Rightarrow> Entry list \<Rightarrow> Entry list" where
  "mutateEntries x entries =
     concat (map (\<lambda>e. if ent_Key e \<noteq> op_Key x then [e]
                      else if op_Kind x = OpMapSet
                      then [\<lparr>ent_Key = ent_Key e, ent_Value = op_Value x\<rparr>] else []) entries)"

definition mutateMap :: "Plan \<Rightarrow> Op \<Rightarrow> Plan" where
  "mutateMap after x =
     after\<lparr>plan_Maps := map (\<lambda>(name, m).
        if mapPath m name \<noteq> op_Path x then (name, m)
        else (name, m\<lparr>map_Entries := mutateEntries x (map_Entries m)\<rparr>)) (plan_Maps after)\<rparr>"

definition zeroBackend :: Backend where
  "zeroBackend = \<lparr>be_Name = [], be_Profile = [], be_Mode = [], be_GUID = [], be_Balance = [],
     be_HashType = [], be_Shape = [], be_ShapeReason = [], be_Servers = [], be_DefaultServer = [],
     be_BodyDigest = [], be_CommentsDigest = [], be_RecordDigest = [], be_TextDigest = [],
     be_Body = [], be_Comments = [], be_ContentKnown = False\<rparr>"

definition addServerTo :: "Plan \<Rightarrow> string \<Rightarrow> Server \<Rightarrow> Plan" where
  "addServerTo after backend added =
     (let be = (case go_get (plan_Backends after) backend of Some be \<Rightarrow> be | None \<Rightarrow> zeroBackend)
      in after\<lparr>plan_Backends := AList.update backend
           (be\<lparr>be_Servers := be_Servers be @ [added]\<rparr>) (plan_Backends after)\<rparr>)"

definition setCertFile :: "Plan \<Rightarrow> Plan \<Rightarrow> string \<Rightarrow> Plan" where
  "setCertFile after nxt path =
     (case fileIndex (plan_Files nxt) path of
        None \<Rightarrow> after
      | Some updated \<Rightarrow>
          after\<lparr>plan_Files := map (\<lambda>f.
            if file_Path f = path
            then f\<lparr>file_Digest := file_Digest updated, file_Size := file_Size updated,
                   file_Content := file_Content updated, file_ContentKnown := file_ContentKnown updated\<rparr>
            else f) (plan_Files after)\<rparr>)"

definition applyInPlaceOp :: "Plan \<Rightarrow> Plan \<Rightarrow> Op \<Rightarrow> Plan" where
  "applyInPlaceOp nxt after x =
     (case op_Kind x of
        OpServerAdd \<Rightarrow>
          (case serverIn nxt (op_Backend x) (op_Server x) of
             Some added \<Rightarrow> addServerTo after (op_Backend x) added
           | None \<Rightarrow> after)
      | OpServerEnable \<Rightarrow> mutateServer after x
      | OpServerDisable \<Rightarrow> mutateServer after x
      | OpServerSetAddr \<Rightarrow> mutateServer after x
      | OpServerSetWeight \<Rightarrow> mutateServer after x
      | OpServerSetState \<Rightarrow> mutateServer after x
      | OpMapSet \<Rightarrow> mutateMap after x
      | OpMapDel \<Rightarrow> mutateMap after x
      | OpCertSet \<Rightarrow> setCertFile after nxt (op_Path x)
      | _ \<Rightarrow> after)"

definition workerAfter :: "(string \<Rightarrow> 64 word) \<Rightarrow> Plan \<Rightarrow> Plan \<Rightarrow> Op list \<Rightarrow> Plan" where
  "workerAfter sum64 worker nxt ops =
     (foldl (applyInPlaceOp nxt) worker ops)\<lparr>plan_ID :=
        DigestString sum64 (plan_ID worker @ [CHR 0x00] @ plan_ID nxt @ [CHR 0x00] @ json_ops ops)\<rparr>"

subsection \<open>Composing the in-place subset\<close>

definition composed :: "server_reason + Op list \<Rightarrow> Op list" where
  "composed res = (case res of Inl _ \<Rightarrow> [] | Inr ops \<Rightarrow> ops)"

definition serverOpsAgainstWorker :: "'a composer_scheme \<Rightarrow> Backend \<Rightarrow> Backend \<Rightarrow> Op list" where
  "serverOpsAgainstWorker c running nxt =
     concat (map (\<lambda>srv. case serverIndex (be_Servers running) (srv_Name srv) of
                    Some old \<Rightarrow> composed (updateServer nxt old srv)
                  | None \<Rightarrow> composed (addServer c running srv)) (be_Servers nxt)) @
     concat (map (\<lambda>srv. if serverIndex (be_Servers nxt) (srv_Name srv) \<noteq> None then []
                  else [(mkOp OpServerDisable)\<lparr>op_Backend := be_Name nxt, op_Server := srv_Name srv\<rparr>])
       (be_Servers running))"

definition inPlaceServerOps :: "'a composer_scheme \<Rightarrow> Index \<Rightarrow> Plan \<Rightarrow> Op list" where
  "inPlaceServerOps c nextIndex worker =
     concat (map (\<lambda>nxt.
       case (go_get (plan_Backends worker) (bk_name nxt), bk_record nxt) of
         (Some running, Some nrec) \<Rightarrow> serverOpsAgainstWorker c running nrec
       | _ \<Rightarrow> []) (idx_backends nextIndex))"

definition inPlaceCertOps :: "'a composer_scheme \<Rightarrow> Plan \<Rightarrow> Plan \<Rightarrow> Op list" where
  "inPlaceCertOps c nxt worker =
     concat (map (\<lambda>f.
       let old = fileIndex (plan_Files worker) (file_Path f) in
       if file_Kind f \<noteq> FileKindCert \<or> old = None \<or> sameFileContent old (Some f) then []
       else if file_Path f \<in> set (inv_Certs (c_inventory c))
       then [(mkOp OpCertSet)\<lparr>op_Path := file_Path f\<rparr>] else []) (plan_Files nxt))"

definition addsBackends :: "Plan \<Rightarrow> Plan \<Rightarrow> bool" where
  "addsBackends nxt worker \<longleftrightarrow>
     list_ex (\<lambda>(name, _). go_get (plan_Backends worker) name = None) (plan_Backends nxt)"

text \<open>The loop over the maps of the render; \<open>None\<close> is the early \<open>return nil\<close>.\<close>

fun inPlaceMapDeltas ::
  "'a composer_scheme \<Rightarrow> Plan \<Rightarrow> Plan \<Rightarrow> string list \<Rightarrow> (Op list \<times> Op list) option" where
  "inPlaceMapDeltas c nxt worker [] = Some ([], [])"
| "inPlaceMapDeltas c nxt worker (name # names) =
     (case go_get (plan_Maps nxt) name of
        None \<Rightarrow> inPlaceMapDeltas c nxt worker names
      | Some m \<Rightarrow>
          (let path = mapPath m name;
               prev = (case go_get (plan_Maps worker) name of None \<Rightarrow> [] | Some w \<Rightarrow> map_Entries w);
               delta = mapDelta path m prev
           in if path \<notin> set (inv_Maps (c_inventory c)) \<or> \<not> SafeToken path then None
              else if mo_whole delta then None
              else if list_ex (\<lambda>u. op_Kind u \<noteq> OpMapSet) (mo_upserts delta) then None
              else map_option (\<lambda>(us, ds). (mo_upserts delta @ us, mo_deletes delta @ ds))
                     (inPlaceMapDeltas c nxt worker names)))"

text \<open>
  \<open>verdict\<close> is that of \<open>DiffIndexed\<close> for the render against the worker's own plan; the source
  computes it here.
\<close>

definition inPlaceMapOps ::
  "Verdict \<Rightarrow> 'a composer_scheme \<Rightarrow> Plan \<Rightarrow> Plan \<Rightarrow> Op list" where
  "inPlaceMapOps verdict c nxt worker =
     (if addsBackends nxt worker then []
      else if verdict = VerdictReload then []
      else case inPlaceMapDeltas c nxt worker (sortedMapNames (plan_Maps nxt)) of
             None \<Rightarrow> []
           | Some (upserts, deletes) \<Rightarrow> upserts @ deletes)"

text \<open>The operations composed for the worker, and the part of them that is kept.\<close>

definition keepInPlace :: "Caps \<Rightarrow> Op list \<Rightarrow> Op list \<Rightarrow> Op list" where
  "keepInPlace caps ops mapOps =
     take MaxOpsPerApply
       (filter (\<lambda>x. op_Kind x \<in> set inPlaceKinds \<and> executes caps (op_Kind x))
          (if length ops + length mapOps \<le> MaxOpsPerApply then ops @ mapOps else ops))"

definition inPlaceOps ::
  "(string \<Rightarrow> 64 word) \<Rightarrow> Verdict \<Rightarrow> Baseline \<Rightarrow> Plan \<Rightarrow> Index \<Rightarrow> builder \<Rightarrow> Op list \<times> Plan option" where
  "inPlaceOps sum64 verdict base nxt nextIndex b =
     (if \<not> bl_ReloadPending base \<and> \<not> b_reload b then ([], None)
      else case bl_WorkerOps base of
        None \<Rightarrow> ([], None)
      | Some worker \<Rightarrow>
          (let c = b\<lparr>c_created := []\<rparr>;
               kept = keepInPlace (c_caps c)
                        (inPlaceServerOps c nextIndex worker @ inPlaceCertOps c nxt worker)
                        (inPlaceMapOps verdict c nxt worker)
           in if kept = [] then ([], None) else (kept, Some (workerAfter sum64 worker nxt kept))))"

subsection \<open>The verdict (\<open>diff.go\<close>)\<close>

definition unsupportedKind :: "Caps \<Rightarrow> Op list \<Rightarrow> op_kind option" where
  "unsupportedKind caps ops =
     (case AgentOps caps of
        None \<Rightarrow> None
      | Some _ \<Rightarrow> map_option op_Kind (find (\<lambda>x. \<not> executes caps (op_Kind x)) ops))"

definition decide ::
  "(string \<Rightarrow> 64 word) \<Rightarrow> Verdict \<Rightarrow> Baseline \<Rightarrow> Plan \<Rightarrow> Index \<Rightarrow> builder \<Rightarrow> Decision" where
  "decide sum64 verdict base nxt nextIndex b0 =
     (let ops = orderedOps b0;
          b1 = (case unsupportedKind (c_caps b0) ops of
                  None \<Rightarrow> b0 | Some kind \<Rightarrow> failf (AgentDoesNotExecute kind) b0);
          (inPlace, workerPlan) = inPlaceOps sum64 verdict base nxt nextIndex b1;
          chunks = chunkCount (length ops) (length inPlace);
          b = (if chunks > MaxChunks then failf (OpCap (length ops) MaxChunks) b1 else b1);
          d = \<lparr>d_Verdict = VerdictFileOnly, d_Ops = [], d_InPlace = inPlace, d_WorkerPlan = workerPlan,
               d_Chunks = 0, d_Reasons = b_reasons b, d_Files = Files nxt, d_Mode = ModeAuto\<rparr>
      in if b_reload b then d\<lparr>d_Verdict := VerdictReload, d_Mode := ModeReload\<rparr>
         else if ops \<noteq> [] then d\<lparr>d_Verdict := VerdictRuntime, d_Ops := ops, d_Chunks := chunks\<rparr>
         else d)"

text \<open>\<open>baselineUsable\<close> returns the builder with the reason it failed for, and its answer.\<close>

definition baselineUsable :: "Plan option \<Rightarrow> Plan \<Rightarrow> builder \<Rightarrow> builder \<times> bool" where
  "baselineUsable prev nxt b =
     (case prev of
        None \<Rightarrow> (failf NoBaseline b, False)
      | Some p \<Rightarrow>
          if plan_SchemaVersion p \<noteq> plan_SchemaVersion nxt
          then (failf (SchemaMismatch (plan_SchemaVersion p) (plan_SchemaVersion nxt)) b, False)
          else (b, True))"

definition newBuilder :: "Plan \<Rightarrow> Baseline \<Rightarrow> builder" where
  "newBuilder nxt base =
     \<lparr>c_caps = bl_Caps base, c_inventory = bl_Inventory base, c_created = [], c_certDir = certDirOf nxt,
      c_pendingServerDeletes = bl_PendingServerDeletes base,
      c_pendingBackendDeletes = bl_PendingBackendDeletes base,
      b_groups = (\<lambda>_. []), b_reasons = [], b_reload = False, b_sectionChange = False,
      b_deletedByOps = []\<rparr>"

definition zeroBaseline :: Baseline where
  "zeroBaseline = \<lparr>bl_Applied = None, bl_AppliedIndex = None, bl_Running = None, bl_WorkerOps = None,
     bl_Inventory = emptyInventory,
     bl_Caps = \<lparr>DynamicServers = False, DynamicBackends = False, ServerInitState = False, AgentOps = None\<rparr>,
     bl_PendingServerDeletes = 0, bl_PendingBackendDeletes = 0, bl_ReloadPending = False\<rparr>"

text \<open>The rules of one diff, up to the verdict.\<close>

definition runRules :: "Plan \<Rightarrow> Index \<Rightarrow> Baseline \<Rightarrow> builder" where
  "runRules nxt nextIndex base =
     (case baselineUsable (bl_Applied base) nxt (newBuilder nxt base) of
        (b, False) \<Rightarrow> b
      | (b, True) \<Rightarrow>
          (let prev = the (bl_Applied base);
               prevIndex = (case bl_AppliedIndex base of Some i \<Rightarrow> i | None \<Rightarrow> IndexPlan prev)
           in diffAll \<lparr>dc_next = nxt, dc_prev = prev, dc_nextIndex = nextIndex, dc_prevIndex = prevIndex\<rparr> b))"

text \<open>The baseline \<open>inPlaceMapOps\<close> diffs against: the worker's plan on both sides, nothing pending.\<close>

definition workerBaseline :: "Baseline \<Rightarrow> Plan \<Rightarrow> Baseline" where
  "workerBaseline base worker =
     base\<lparr>bl_Applied := Some worker, bl_Running := Some worker, bl_AppliedIndex := None,
          bl_WorkerOps := None, bl_ReloadPending := False\<rparr>"

text \<open>
  The inner call is made only with a worker plan and its baseline has none, so the recursion is one
  level deep. Its verdict is computed before the rules instead of inside \<open>inPlaceMapOps\<close>; a call
  that changes no shared state can be moved.
\<close>

function DiffIndexed ::
  "(string \<Rightarrow> 64 word) \<Rightarrow> Plan option \<Rightarrow> Index option \<Rightarrow> Baseline option \<Rightarrow> Decision" where
  "DiffIndexed sum64 next nextIndex base =
     (case next of
        None \<Rightarrow> \<lparr>d_Verdict = VerdictReload, d_Ops = [], d_InPlace = [], d_WorkerPlan = None,
                 d_Chunks = 0, d_Reasons = [NoRender], d_Files = [], d_Mode = ModeReload\<rparr>
      | Some nxt \<Rightarrow>
          (let bl = (case base of None \<Rightarrow> zeroBaseline | Some bl \<Rightarrow> bl);
               idx = (case nextIndex of None \<Rightarrow> IndexPlan nxt | Some i \<Rightarrow> i);
               verdict = (case bl_WorkerOps bl of
                            None \<Rightarrow> VerdictReload
                          | Some worker \<Rightarrow>
                              d_Verdict (DiffIndexed sum64 (Some nxt) (Some idx)
                                (Some (workerBaseline bl worker))))
           in decide sum64 verdict bl nxt idx (runRules nxt idx bl)))"
  by pat_completeness auto
termination
  by (relation "measure (\<lambda>(_, _, _, base). case base of
        Some bl \<Rightarrow> (if bl_WorkerOps bl = None then 0 else 1) | None \<Rightarrow> 0)")
     (auto simp: workerBaseline_def zeroBaseline_def split: option.splits)

declare DiffIndexed.simps [simp del]

definition Diff :: "(string \<Rightarrow> 64 word) \<Rightarrow> Plan option \<Rightarrow> Baseline option \<Rightarrow> Decision" where
  "Diff sum64 next base = DiffIndexed sum64 next None base"

definition composedOps :: "op_kind list" where
  "composedOps = [OpBackendAdd, OpBackendPublish, OpBackendUnpublish, OpBackendDel,
     OpBackendWaitRemovable, OpServerAdd, OpServerEnable, OpServerDisable, OpServerSetAddr,
     OpServerSetWeight, OpServerSetState, OpServerWaitRemovable, OpServerDel, OpMapAdd, OpMapSet,
     OpMapDel, OpMapReplace, OpCertSet, OpCertNew, OpCASet, OpCANew, OpCRTListAdd, OpCRTListDel]"

definition ComposedOps :: "string list" where
  "ComposedOps = map op_wire composedOps"

end
