(* ===== verification/Deploy_Rules.thy ===== *)
theory Deploy_Rules
  imports Deploy_InPlace
begin

section \<open>What the rules do to the builder\<close>

text \<open>
  Every rule of a diff changes the builder through the same few actions: it pushes operations of
  its group, notes or fails with a reason, marks a section change, records a created store object,
  or counts a deferred delete. The locale \<open>diff_rules\<close> states this once: a preorder on builders
  that every action respects relates the builder before a diff to the builder after it. Its
  interpretations give the facts the verdict rests on: which kinds a group holds, that a reload
  once forced stays forced, how many reasons are kept, how many deletes are queued.
\<close>

subsection \<open>The kinds the composers produce\<close>

fun group_kinds :: "op_group \<Rightarrow> op_kind list" where
  "group_kinds groupBackendAdd = [OpBackendAdd, OpServerAdd, OpServerEnable]"
| "group_kinds groupServerUpdate =
     [OpServerAdd, OpServerEnable, OpServerSetAddr, OpServerSetWeight, OpServerSetState]"
| "group_kinds groupBackendPublish = [OpBackendPublish]"
| "group_kinds groupMapUpsert = [OpMapAdd, OpMapSet, OpMapReplace]"
| "group_kinds groupCert = [OpCertSet, OpCertNew, OpCASet, OpCANew]"
| "group_kinds groupCRTList = [OpCRTListAdd, OpCRTListDel]"
| "group_kinds groupMapDel = [OpMapDel]"
| "group_kinds groupBackendUnpublish = [OpBackendUnpublish]"
| "group_kinds groupServerDel = [OpServerDisable, OpServerWaitRemovable, OpServerDel]"
| "group_kinds groupBackendDel = [OpBackendWaitRemovable, OpBackendDel]"

definition in_group :: "op_group \<Rightarrow> Op list \<Rightarrow> bool" where
  "in_group g ops \<longleftrightarrow> (\<forall>x\<in>set ops. op_Kind x \<in> set (group_kinds g))"

lemma in_group_simps [simp]:
  "in_group g []"
  "in_group g (x # xs) \<longleftrightarrow> op_Kind x \<in> set (group_kinds g) \<and> in_group g xs"
  "in_group g (xs @ ys) \<longleftrightarrow> in_group g xs \<and> in_group g ys"
  by (auto simp: in_group_def)

lemma addServer_kinds:
  "addServer c be srv = Inr ops \<Longrightarrow> in_group groupBackendAdd ops \<and> in_group groupServerUpdate ops"
  by (auto simp: addServer_def serverAddOp_def serverEnableOp_def Let_def
      split: if_splits option.splits)

lemma addServers_kinds: "addServers b be srvs = Inr ops \<Longrightarrow> in_group groupBackendAdd ops"
  by (induction b be srvs arbitrary: ops rule: addServers.induct)
     (auto simp: map_sum_def dest: addServer_kinds split: sum.splits)

lemma updateServer_kinds: "updateServer be prev nxt = Inr ops \<Longrightarrow> in_group groupServerUpdate ops"
  by (auto simp: updateServer_def addrOps_def weightOps_def stateOps_def serverEnableOp_def
      split: if_splits option.splits sum.splits)

lemma drainOps_kinds: "in_group groupServerDel (drainOps backend server)"
  by (simp add: drainOps_def)

lemma crtRemovals_kinds:
  "crtRemovals path after es = Inr (ops, running) \<Longrightarrow> in_group groupCRTList ops"
  by (induction es arbitrary: ops running)
     (auto simp: crtListDel_def map_sum_def split: if_splits sum.splits)

lemma crtUpserts_kinds:
  "crtUpserts path before ops running es = (ops', running') \<Longrightarrow> in_group groupCRTList ops \<Longrightarrow>
     in_group groupCRTList ops'"
  by (induction es arbitrary: ops running)
     (auto simp: crtListDel_def crtListAdd_def split: if_splits option.splits)

lemma crtListOps_kinds: "crtListOps path prev nxt = Inr ops \<Longrightarrow> in_group groupCRTList ops"
  by (auto simp: crtListOps_def Let_def dest: crtRemovals_kinds crtUpserts_kinds
      split: sum.splits option.splits prod.splits if_splits)

lemma mapWhole_kinds [simp]:
  "in_group groupMapUpsert (mo_upserts mapWhole)" "in_group groupMapDel (mo_deletes mapWhole)"
  by (simp_all add: mapWhole_def)

lemma entryDelta_kinds:
  "in_group groupMapUpsert (mo_upserts (entryDelta ma path prev nxt)) \<and>
   in_group groupMapDel (mo_deletes (entryDelta ma path prev nxt))"
proof (cases "mo_whole (entryDelta ma path prev nxt)")
  case True
  then have "entryDelta ma path prev nxt = mapWhole"
    by (auto simp: entryDelta_def withRemovals_def mapWhole_def split: option.splits)
  then show ?thesis by simp
next
  case False
  then show ?thesis
    by (rule entryDelta_cases)
       (auto simp: in_group_def dest: upsertLoop_sendable removalLoop_sendable)
qed

lemma mapDelta_kinds:
  "in_group groupMapUpsert (mo_upserts (mapDelta path m prev)) \<and>
   in_group groupMapDel (mo_deletes (mapDelta path m prev))"
  using entryDelta_kinds
  by (auto simp: mapDelta_def orderedMapOps_def unorderedMapOps_eq_full unorderedEntryOps_def)

subsection \<open>Deferred deletes\<close>

abbreviation count_deletes :: "nat \<Rightarrow> builder \<Rightarrow> builder" where
  "count_deletes n b \<equiv> b\<lparr>c_pendingServerDeletes := c_pendingServerDeletes b + int n\<rparr>"

abbreviation drains :: "string \<Rightarrow> string list \<Rightarrow> Op list" where
  "drains backend names \<equiv> concat (map (drainOps backend) names)"

definition may_count :: "nat \<Rightarrow> builder \<Rightarrow> bool" where
  "may_count n b \<longleftrightarrow> n = 0 \<or> c_pendingServerDeletes b + int n \<le> MaxPendingServerDeletes"

lemma drainServers_cases:
  "drainServers b name srvs = (b', res) \<Longrightarrow>
     \<exists>n. b' = count_deletes n b \<and> may_count n b \<and>
       (\<forall>ops. res = Inr ops \<longrightarrow> n = length srvs \<and> ops = drains name (map srv_Name srvs))"
proof (induction srvs arbitrary: b b' res)
  case (Cons srv srvs)
  obtain b1 r1 where rem: "removeServer b name srv = (b1, r1)" by fastforce
  show ?case
  proof (cases r1)
    case (Inl r)
    with rem have "b1 = b" by (auto simp: removeServer_def split: if_splits)
    with Cons.prems rem Inl have "b' = count_deletes 0 b" and "res = Inl r" by auto
    then show ?thesis by (intro exI [of _ 0]) (simp add: may_count_def)
  next
    case (Inr ops1)
    with rem have b1: "b1 = count_deletes 1 b" and ops1: "ops1 = drainOps name (srv_Name srv)"
      and lt: "c_pendingServerDeletes b < MaxPendingServerDeletes"
      by (auto simp: removeServer_def split: if_splits)
    obtain b2 r2 where rest: "drainServers b1 name srvs = (b2, r2)" by fastforce
    from Cons.IH [OF rest] obtain n where n: "b2 = count_deletes n b1" "may_count n b1"
      "\<forall>ops. r2 = Inr ops \<longrightarrow> n = length srvs \<and> ops = drains name (map srv_Name srvs)" by blast
    from Cons.prems rem Inr rest have "b' = b2" and "res = map_sum id ((@) ops1) r2" by simp_all
    with n b1 ops1 lt show ?thesis
      by (intro exI [of _ "Suc n"]) (cases r2, auto simp: may_count_def)
  qed
qed (auto simp: may_count_def intro!: exI [of _ 0])

lemma push_push_commute:
  "g \<noteq> h \<Longrightarrow> push g xs (push h ys b) = push h ys (push g xs b)"
  by (auto simp: push_def fun_upd_twist)

lemma push_count_commute: "push g xs (count_deletes n b) = count_deletes n (push g xs b)"
  by (simp add: push_def)

definition backendDelOps :: "string \<Rightarrow> Op list" where
  "backendDelOps name = [(mkOp OpBackendWaitRemovable)\<lparr>op_Backend := name, op_TimeoutMs := removableTimeoutMs\<rparr>,
     (mkOp OpBackendDel)\<lparr>op_Backend := name\<rparr>]"

definition finishBackendDel :: "string \<Rightarrow> builder \<Rightarrow> builder" where
  "finishBackendDel name b =
     (let b' = push groupBackendDel (backendDelOps name) b
      in b'\<lparr>b_deletedByOps := name # b_deletedByOps b',
            c_pendingBackendDeletes := c_pendingBackendDeletes b' + 1\<rparr>)"

lemma deleteBackend_alt:
  "deleteBackend be b =
     (case drainServers b (be_Name be) (be_Servers be) of
        (b', Inl r) \<Rightarrow> failf (BackendRemovedServer (be_Name be) r) b'
      | (b', Inr ops) \<Rightarrow>
          finishBackendDel (be_Name be) (push groupServerDel ops
            (push groupBackendUnpublish [(mkOp OpBackendUnpublish)\<lparr>op_Backend := be_Name be\<rparr>] b')))"
  by (simp add: deleteBackend_def finishBackendDel_def backendDelOps_def Let_def)

subsection \<open>The preorder of builders\<close>

locale diff_rules =
  fixes R :: "builder \<Rightarrow> builder \<Rightarrow> bool"
  assumes refl: "R b b"
    and trans: "R a b \<Longrightarrow> R b c \<Longrightarrow> R a c"
    and push: "g \<noteq> groupServerDel \<Longrightarrow> g \<noteq> groupBackendDel \<Longrightarrow> in_group g ops \<Longrightarrow> R b (push g ops b)"
    and noted: "R b (notef r b)"
    and fail: "R b (failf r b)"
    and sect: "R b (b\<lparr>b_sectionChange := v\<rparr>)"
    and created: "R b (b\<lparr>c_created := paths\<rparr>)"
    and count: "may_count n b \<Longrightarrow> R b (count_deletes n b)"
    and drained: "may_count (length names) b \<Longrightarrow>
      R b (push groupServerDel (drains backend names) (count_deletes (length names) b))"
    and deleted: "c_pendingBackendDeletes b < MaxPendingBackendDeletes \<Longrightarrow> R b (finishBackendDel name b)"
begin

lemma fold_rule: "(\<And>b x. R b (f b x)) \<Longrightarrow> R b (foldl f b xs)"
  by (induction xs arbitrary: b) (auto intro: refl trans)

lemma storeFile_R:
  "k \<in> set (group_kinds groupCert) \<Longrightarrow> k' \<in> set (group_kinds groupCert) \<Longrightarrow> R b (storeFile path k k' loaded b)"
  by (auto simp: storeFile_def Let_def intro: fail trans [OF created push])

lemma diffCRTList_R: "R b (diffCRTList dc path existed b)"
  by (auto simp: diffCRTList_def intro: fail noted push crtListOps_kinds split: option.splits sum.splits)

lemma diffCerts_R: "R b (diffCerts dc b)"
  unfolding diffCerts_def diffCertFile_def removedCRTList_def
  by (rule trans; rule fold_rule)
     (auto simp: Let_def intro: refl fail storeFile_R diffCRTList_R)

lemma publishNewBackend_R: "R b (publishNewBackend be b)"
proof (cases "addServers b be (be_Servers be)")
  case (Inr adds)
  have "in_group groupBackendAdd adds" by (rule addServers_kinds [OF Inr])
  then show ?thesis
    unfolding publishNewBackend_def Inr sum.case
    by (intro trans [OF push trans [OF push push]]) simp_all
qed (simp add: publishNewBackend_def fail)

lemma backendAdded_R: "R b (backendAdded dc be b)"
  by (simp add: backendAdded_def fail publishNewBackend_R)

lemma deleteBackend_R:
  assumes "c_pendingBackendDeletes b < MaxPendingBackendDeletes"
  shows "R b (deleteBackend be b)"
proof -
  let ?un = "[(mkOp OpBackendUnpublish)\<lparr>op_Backend := be_Name be\<rparr>]"
  obtain b' res where d: "drainServers b (be_Name be) (be_Servers be) = (b', res)" by fastforce
  from drainServers_cases [OF d] obtain n where n: "b' = count_deletes n b" "may_count n b"
    "\<forall>ops. res = Inr ops \<longrightarrow>
       n = length (be_Servers be) \<and> ops = drains (be_Name be) (map srv_Name (be_Servers be))" by blast
  show ?thesis
  proof (cases res)
    case (Inl r)
    with d n show ?thesis by (auto simp: deleteBackend_alt intro: trans [OF count fail])
  next
    case (Inr ops)
    let ?names = "map srv_Name (be_Servers be)"
    from n Inr have ops: "n = length ?names" "ops = drains (be_Name be) ?names" by auto
    have "R b (push groupServerDel ops b')"
      unfolding ops n(1) by (rule drained) (use n ops in simp)
    then have "R b (push groupServerDel ops (push groupBackendUnpublish ?un b'))"
      by (subst push_push_commute) (auto intro: trans [OF _ push])
    moreover have "c_pendingBackendDeletes (push groupServerDel ops (push groupBackendUnpublish ?un b')) <
        MaxPendingBackendDeletes"
      using assms n by (simp add: push_def)
    ultimately show ?thesis
      unfolding deleteBackend_alt d by (auto simp: Inr intro: trans [OF _ deleted])
  qed
qed

lemma backendRemoved_R: "R b (backendRemoved be b)"
  by (simp add: backendRemoved_def fail deleteBackend_R)

lemma diffServer_R: "R b (diffServer nxt previous b srv)"
  by (auto simp: diffServer_def pushServer_def intro: fail push dest: updateServer_kinds addServer_kinds
      split: sum.splits option.splits)

lemma diffRemovedServer_R: "R b (diffRemovedServer prev current b srv)"
  using drained [of "[srv_Name srv]" b "be_Name prev"]
  by (auto simp: diffRemovedServer_def pushServer_def removeServer_def may_count_def intro: fail refl)

lemma diffServers_R: "R b (diffServers prev nxt b)"
  unfolding diffServers_def by (rule trans; rule fold_rule) (rule diffServer_R diffRemovedServer_R)+

lemma backendChanged_R: "R b (backendChanged prev nxt same b)"
  by (simp add: backendChanged_def fail refl diffServers_R)

lemma diffBackend_R: "R b (diffBackend dc b e)"
  by (auto simp: diffBackend_def Let_def intro: fail trans [OF sect backendAdded_R]
      trans [OF sect backendChanged_R] split: option.splits)

lemma diffRemovedBackend_R: "R b (diffRemovedBackend dc b e)"
  by (auto simp: diffRemovedBackend_def Let_def intro: refl trans [OF sect backendRemoved_R]
      split: option.splits)

lemma diffBackends_R: "R b (diffBackends dc b)"
  unfolding diffBackends_def
  by (rule trans; rule fold_rule) (rule diffBackend_R diffRemovedBackend_R)+

lemma sectionAdded_R: "R b (sectionAdded sec b)"
  unfolding sectionAdded_def by (rule trans [OF sect fail])

lemma sectionChanged_R: "R b (sectionChanged sec b)"
  unfolding sectionChanged_def by (rule trans [OF sect fail])

lemma profileRemoved_R: "R b (profileRemoved dc name b)"
  by (auto simp: profileRemoved_def intro: refl fail split: option.splits)

lemma sectionRemoved_R: "R b (sectionRemoved dc sec b)"
  using trans [OF sect profileRemoved_R] trans [OF sect fail]
  by (simp add: sectionRemoved_def Let_def)

lemma diffSection_R: "R b (diffSection dc b sec)"
  by (simp add: diffSection_def refl sectionAdded_R sectionChanged_R split: option.split)

lemma diffRemovedSection_R: "R b (diffRemovedSection dc b sec)"
  by (simp add: diffRemovedSection_def refl sectionRemoved_R)

lemma diffSections_R: "R b (diffSections dc b)"
  unfolding diffSections_def
  by (rule trans; rule fold_rule) (rule diffSection_R diffRemovedSection_R)+

lemma pushMapOps_R: "R b (pushMapOps (mapDelta path m prev) path b)"
  using trans [OF push push] push by (simp add: pushMapOps_def mapDelta_kinds)

lemma diffMapNamed_R: "R b (diffMapNamed dc b name)"
  by (simp add: diffMapNamed_def diffMap_def Let_def refl noted fail pushMapOps_R split: option.split)

lemma diffMaps_R: "R b (diffMaps dc b)"
  unfolding diffMaps_def by (rule fold_rule) (rule diffMapNamed_R)

lemma diffFile_R: "R b (diffFile dc b f)"
  by (simp add: diffFile_def refl fail)

lemma diffRemovedFile_R: "R b (diffRemovedFile dc b f)"
  by (simp add: diffRemovedFile_def refl fail noted)

lemma diffFiles_R: "R b (diffFiles dc b)"
  unfolding diffFiles_def
  by (rule trans; rule fold_rule) (rule diffFile_R diffRemovedFile_R)+

lemma diffAll_R: "R b (diffAll dc b)"
  unfolding diffAll_def
  by (rule trans [OF diffCerts_R trans [OF diffBackends_R trans [OF diffSections_R
    trans [OF diffMaps_R diffFiles_R]]]])

end

subsection \<open>Interpretations\<close>

text \<open>What no rule changes: the pod's capabilities and inventory, and what is already decided.\<close>

definition kept :: "builder \<Rightarrow> builder \<Rightarrow> bool" where
  "kept a b \<longleftrightarrow> c_caps b = c_caps a \<and> c_inventory b = c_inventory a \<and> c_certDir b = c_certDir a \<and>
     (b_reload a \<longrightarrow> b_reload b) \<and> (\<forall>g. set (b_groups a g) \<subseteq> set (b_groups b g)) \<and>
     set (b_reasons a) \<subseteq> set (b_reasons b)"

interpretation keeps: diff_rules kept
proof unfold_locales
  show "kept a c" if "kept a b" and "kept b c" for a b c
    using that unfolding kept_def by (metis subset_trans)
qed (auto simp: kept_def push_def notef_def failf_def finishBackendDel_def Let_def)

text \<open>The builder's invariant: groups hold their own kinds, reasons are capped, a reload has one.\<close>

definition builder_ok :: "builder \<Rightarrow> bool" where
  "builder_ok b \<longleftrightarrow> (\<forall>g. in_group g (b_groups b g)) \<and> length (b_reasons b) \<le> MaxReasons \<and>
     (b_reload b \<longrightarrow> b_reasons b \<noteq> [])"

lemma builder_ok_push: "builder_ok b \<Longrightarrow> in_group g ops \<Longrightarrow> builder_ok (push g ops b)"
  by (auto simp: builder_ok_def push_def)

lemma drains_kinds: "in_group groupServerDel (drains backend names)"
  by (induction names) (simp_all add: drainOps_kinds)

lemma backendDelOps_kinds: "in_group groupBackendDel (backendDelOps name)"
  by (simp add: backendDelOps_def)

lemma builder_ok_notef: "builder_ok b \<Longrightarrow> builder_ok (notef r b)"
  by (auto simp: builder_ok_def notef_def)

lemma builder_ok_failf: "builder_ok b \<Longrightarrow> builder_ok (failf r b)"
  by (auto simp: builder_ok_def notef_def failf_def MaxReasons_def)

lemma builder_ok_update [simp]:
  "builder_ok (b\<lparr>b_sectionChange := v\<rparr>) = builder_ok b"
  "builder_ok (b\<lparr>c_created := paths\<rparr>) = builder_ok b"
  "builder_ok (b\<lparr>c_pendingServerDeletes := n\<rparr>) = builder_ok b"
  "builder_ok (b\<lparr>c_pendingBackendDeletes := n\<rparr>) = builder_ok b"
  "builder_ok (b\<lparr>b_deletedByOps := ns\<rparr>) = builder_ok b"
  by (simp_all add: builder_ok_def)

interpretation invariant: diff_rules "\<lambda>a b. builder_ok a \<longrightarrow> builder_ok b"
proof unfold_locales
  show "builder_ok b \<longrightarrow> builder_ok (finishBackendDel name b)" for b name
    using builder_ok_push backendDelOps_kinds by (simp add: finishBackendDel_def Let_def)
  show "builder_ok b \<longrightarrow>
      builder_ok (push groupServerDel (drains backend names) (count_deletes (length names) b))"
    for b backend names
    using builder_ok_push drains_kinds by simp
qed (auto simp: builder_ok_push builder_ok_notef builder_ok_failf)

text \<open>The queue of deferred deletes: what a diff composes is counted, and the caps hold.\<close>

definition queued :: "op_kind \<Rightarrow> op_group \<Rightarrow> builder \<Rightarrow> int" where
  "queued k g b = int (length (filter (\<lambda>x. op_Kind x = k) (b_groups b g)))"

definition counted :: "builder \<Rightarrow> builder \<Rightarrow> bool" where
  "counted a b \<longleftrightarrow>
     queued OpServerDel groupServerDel b - queued OpServerDel groupServerDel a
       \<le> c_pendingServerDeletes b - c_pendingServerDeletes a \<and>
     queued OpBackendDel groupBackendDel b - queued OpBackendDel groupBackendDel a
       \<le> c_pendingBackendDeletes b - c_pendingBackendDeletes a \<and>
     c_pendingServerDeletes b \<le> max (c_pendingServerDeletes a) MaxPendingServerDeletes \<and>
     c_pendingBackendDeletes b \<le> max (c_pendingBackendDeletes a) MaxPendingBackendDeletes"

lemma queued_push:
  "queued k g (push h ops b) =
     queued k g b + (if g = h then int (length (filter (\<lambda>x. op_Kind x = k) ops)) else 0)"
  by (simp add: queued_def push_def)

lemma queued_other [simp]:
  "queued k g (notef r b) = queued k g b" "queued k g (failf r b) = queued k g b"
  "queued k g (b\<lparr>b_sectionChange := v\<rparr>) = queued k g b"
  "queued k g (b\<lparr>c_created := paths\<rparr>) = queued k g b"
  "queued k g (b\<lparr>c_pendingServerDeletes := n\<rparr>) = queued k g b"
  "queued k g (b\<lparr>c_pendingBackendDeletes := n\<rparr>) = queued k g b"
  "queued k g (b\<lparr>b_deletedByOps := ns\<rparr>) = queued k g b"
  by (simp_all add: queued_def notef_def failf_def)

lemma drains_count: "length (filter (\<lambda>x. op_Kind x = OpServerDel) (drains backend names)) = length names"
  by (induction names) (simp_all add: drainOps_def)

lemma pending_other [simp]:
  "c_pendingServerDeletes (notef r b) = c_pendingServerDeletes b"
  "c_pendingServerDeletes (failf r b) = c_pendingServerDeletes b"
  "c_pendingServerDeletes (push g ops b) = c_pendingServerDeletes b"
  "c_pendingBackendDeletes (notef r b) = c_pendingBackendDeletes b"
  "c_pendingBackendDeletes (failf r b) = c_pendingBackendDeletes b"
  "c_pendingBackendDeletes (push g ops b) = c_pendingBackendDeletes b"
  by (simp_all add: notef_def failf_def push_def)

interpretation deletes: diff_rules counted
proof unfold_locales
  show "counted b (push groupServerDel (drains backend names) (count_deletes (length names) b))"
    if "may_count (length names) b" for b backend names
    using that by (auto simp: counted_def queued_push drains_count may_count_def)
  show "counted b (finishBackendDel name b)"
    if "c_pendingBackendDeletes b < MaxPendingBackendDeletes" for b name
    using that by (auto simp: counted_def queued_push finishBackendDel_def backendDelOps_def Let_def)
qed (auto simp: counted_def queued_push may_count_def)

text \<open>A fold of rules that did not force a reload did not do so at any of its elements.\<close>

lemma foldl_no_reload:
  assumes "\<not> b_reload (foldl f b xs)" and "x \<in> set xs" and R: "\<And>b x. kept b (f b x)"
  obtains b' where "kept b b'" and "\<not> b_reload (f b' x)" and "kept (f b' x) (foldl f b xs)"
proof -
  from assms(2) obtain ys zs where xs: "xs = ys @ x # zs" by (meson split_list)
  have "kept b (foldl f b ys)" by (rule keeps.fold_rule) (rule R)
  moreover have "kept (f (foldl f b ys) x) (foldl f b xs)"
    unfolding xs foldl_append foldl_Cons by (rule keeps.fold_rule) (rule R)
  ultimately show thesis using assms(1) that [of "foldl f b ys"] by (auto simp: kept_def)
qed

end
