(* ===== verification/Deploy_Decision.thy ===== *)
theory Deploy_Decision
  imports Deploy_Rules
begin

section \<open>The decision one pod gets\<close>

text \<open>
  What every result of \<open>DiffIndexed\<close> satisfies: the fields of a decision agree with its verdict, its
  operations are ones the agent executes, come in the order that keeps traffic flowing and fit the
  agent's limits, the batches the deployer cuts them into are accepted as one manifest, a decision
  without a reload has explained every change, and a render equal to the baseline asks for nothing.
\<close>

subsection \<open>Cutting operations into batches\<close>

lemma chunkFrom_concat: "concat (chunkFrom budget ops) = ops"
proof (induction budget ops rule: chunkFrom.induct)
  case (1 budget ops)
  then show ?case by (subst chunkFrom.simps) simp
qed

lemma chunkFrom_sizes:
  "0 < budget \<Longrightarrow> budget \<le> MaxOpsPerApply \<Longrightarrow>
     \<forall>c\<in>set (chunkFrom budget ops). c \<noteq> [] \<and> length c \<le> MaxOpsPerApply"
proof (induction budget ops rule: chunkFrom.induct)
  case (1 budget ops)
  then show ?case by (subst chunkFrom.simps) (auto simp: MaxOpsPerApply_def)
qed

lemma ceil_div_step:
  fixes n m :: nat
  assumes "0 < n" and "0 < m"
  shows "Suc ((n - m + m - 1) div m) = (n + m - 1) div m"
proof -
  have "(n + m - 1) div m = Suc ((n - 1) div m)"
    using assms div_add_self2 [of m "n - 1"] by simp
  then show ?thesis using assms by (cases "n \<le> m") simp_all
qed

lemma chunkFrom_length_full:
  "length (chunkFrom MaxOpsPerApply ops) = (length ops + MaxOpsPerApply - 1) div MaxOpsPerApply"
proof (induction "length ops" arbitrary: ops rule: less_induct)
  case less
  show ?case
  proof (cases "ops = []")
    case False
    then have "length (chunkFrom MaxOpsPerApply (drop MaxOpsPerApply ops)) =
        (length ops - MaxOpsPerApply + MaxOpsPerApply - 1) div MaxOpsPerApply"
      by (subst less) (auto simp: MaxOpsPerApply_def)
    with False ceil_div_step [of "length ops" 1000] show ?thesis
      by (subst chunkFrom.simps) (simp add: MaxOpsPerApply_def)
  qed (simp add: chunkFrom.simps MaxOpsPerApply_def)
qed

lemma Chunk_length: "length (Chunk d) = chunkCount (length (d_Ops d)) (length (d_InPlace d))"
proof (cases "d_Ops d = []")
  case False
  then show ?thesis
    by (simp add: Chunk_def chunkCount_def chunkFrom.simps [of _ "d_Ops d"] chunkFrom_length_full Let_def
        min_def)
qed (simp add: Chunk_def chunkCount_def)

lemma Chunk_concat: "concat (Chunk d) = d_Ops d"
  by (simp add: Chunk_def chunkFrom_concat)

text \<open>
  The manifest of \<open>applyOnce\<close> for an attempt that is not a full one: the first batch with the
  in-place operations, the other batches behind it.
\<close>

definition opsManifest :: "Decision \<Rightarrow> Manifest" where
  "opsManifest d =
     (let chunks = (if length (Chunk d) = 0 then [[]] else Chunk d)
      in \<lparr>mf_Ops = hd chunks, mf_OpBatches = tl chunks, mf_InPlaceOps = d_InPlace d\<rparr>)"

lemma opsManifest_valid:
  assumes "length (d_InPlace d) \<le> MaxOpsPerApply" and "length (Chunk d) \<le> MaxChunks"
  shows "ValidateOpBatches (opsManifest d) = None"
proof (cases "d_Ops d = []")
  case True
  with assms(1) show ?thesis
    by (simp add: Chunk_def opsManifest_def ValidateOpBatches_def MaxOpBatches_def)
next
  case False
  let ?budget = "MaxOpsPerApply - length (d_InPlace d)"
  have "Chunk d = take ?budget (d_Ops d) # chunkFrom MaxOpsPerApply (drop ?budget (d_Ops d))"
    using False by (simp add: Chunk_def chunkFrom.simps [of ?budget])
  moreover have "\<forall>c\<in>set (chunkFrom MaxOpsPerApply (drop ?budget (d_Ops d))).
      c \<noteq> [] \<and> length c \<le> MaxOpsPerApply"
    by (rule chunkFrom_sizes) (simp_all add: MaxOpsPerApply_def)
  ultimately show ?thesis
    using assms
    by (simp add: opsManifest_def ValidateOpBatches_def check_batches_None MaxChunks_def Let_def)
qed

lemma opsManifest_ops: "RuntimeOps (opsManifest d) = d_Ops d"
proof -
  have "concat (Chunk d) = d_Ops d" by (rule Chunk_concat)
  then show ?thesis
    by (cases "Chunk d") (auto simp: RuntimeOps_concat opsManifest_def)
qed

subsection \<open>The builder a verdict is made from\<close>

lemma newBuilder_ok: "builder_ok (newBuilder nxt base)"
  by (simp add: builder_ok_def newBuilder_def)

context diff_rules
begin

lemma runRules_R: "R (newBuilder nxt base) (runRules nxt idx base)"
  by (auto simp: runRules_def baselineUsable_def Let_def intro: fail diffAll_R split: option.splits)

end

lemma runRules_ok: "builder_ok (runRules nxt idx base)"
  using invariant.runRules_R newBuilder_ok by blast

lemma runRules_caps: "c_caps (runRules nxt idx base) = bl_Caps base"
  using keeps.runRules_R [of nxt base idx] by (simp add: kept_def newBuilder_def)

text \<open>Two levels of \<open>DiffIndexed\<close> in one equation: some verdict, then \<open>decide\<close> on the rules' result.\<close>

definition baseline_or_zero :: "Baseline option \<Rightarrow> Baseline" where
  "baseline_or_zero base = (case base of None \<Rightarrow> zeroBaseline | Some bl \<Rightarrow> bl)"

definition index_or_build :: "Index option \<Rightarrow> Plan \<Rightarrow> Index" where
  "index_or_build i nxt = (case i of None \<Rightarrow> IndexPlan nxt | Some idx \<Rightarrow> idx)"

lemma DiffIndexed_decide:
  "\<exists>verdict. DiffIndexed sum64 (Some nxt) nextIndex base =
     decide sum64 verdict (baseline_or_zero base) nxt (index_or_build nextIndex nxt)
       (runRules nxt (index_or_build nextIndex nxt) (baseline_or_zero base))"
  by (subst DiffIndexed.simps) (auto simp: baseline_or_zero_def index_or_build_def Let_def)

lemma DiffIndexed_None:
  "DiffIndexed sum64 None nextIndex base =
     \<lparr>d_Verdict = VerdictReload, d_Ops = [], d_InPlace = [], d_WorkerPlan = None,
      d_Chunks = 0, d_Reasons = [NoRender], d_Files = [], d_Mode = ModeReload\<rparr>"
  by (subst DiffIndexed.simps) simp

text \<open>The same as an elimination rule: a property of both cases holds of every decision.\<close>

lemma DiffIndexed_cases:
  obtains (no_render) "next = None"
      "DiffIndexed sum64 next nextIndex base =
         \<lparr>d_Verdict = VerdictReload, d_Ops = [], d_InPlace = [], d_WorkerPlan = None,
          d_Chunks = 0, d_Reasons = [NoRender], d_Files = [], d_Mode = ModeReload\<rparr>"
    | (rules) nxt verdict where "next = Some nxt"
      "DiffIndexed sum64 next nextIndex base =
         decide sum64 verdict (baseline_or_zero base) nxt (index_or_build nextIndex nxt)
           (runRules nxt (index_or_build nextIndex nxt) (baseline_or_zero base))"
proof (cases "next")
  case None
  show thesis by (rule no_render [OF None]) (simp only: None DiffIndexed_None)
next
  case (Some nxt)
  from DiffIndexed_decide [of sum64 nxt nextIndex base] show thesis
    by (elim exE) (rule rules [OF Some], simp only: Some)
qed

subsection \<open>The in-place subset\<close>

lemma keepInPlace_kinds:
  "x \<in> set (keepInPlace caps ops mapOps) \<Longrightarrow> op_Kind x \<in> set inPlaceKinds \<and> executes caps (op_Kind x)"
  unfolding keepInPlace_def by (drule in_set_takeD) simp

lemma keepInPlace_bound: "length (keepInPlace caps ops mapOps) \<le> MaxOpsPerApply"
  by (simp add: keepInPlace_def)

lemma inPlaceOps_cases:
  assumes "inPlaceOps h v base nxt idx b = (ops, w)"
  obtains (none) "ops = []" "w = None"
    | (some) worker xs ys where "bl_ReloadPending base \<or> b_reload b" "bl_WorkerOps base = Some worker"
      "ops = keepInPlace (c_caps b) xs ys" "ops \<noteq> []" "w = Some (workerAfter h worker nxt ops)"
proof (cases "(bl_ReloadPending base \<or> b_reload b) \<and> bl_WorkerOps base \<noteq> None \<and> ops \<noteq> []")
  case False
  with assms show thesis
    by (intro none) (auto simp: inPlaceOps_def Let_def split: if_split_asm option.split_asm)
next
  case True
  then obtain worker where "bl_WorkerOps base = Some worker" by blast
  with True assms show thesis
    by (intro some [OF _ _ _ _]) (auto simp: inPlaceOps_def Let_def split: if_split_asm)
qed

lemma unsupportedKind_None:
  "unsupportedKind caps ops = None \<longleftrightarrow> (\<forall>x\<in>set ops. executes caps (op_Kind x))"
  by (auto simp: unsupportedKind_def executes_def find_None_iff split: option.splits)

subsection \<open>The verdict\<close>

lemma decide_cases:
  assumes "decide h v base nxt idx b0 = d"
  obtains b1 b where
    "b1 = (case unsupportedKind (c_caps b0) (orderedOps b0) of
             None \<Rightarrow> b0 | Some kind \<Rightarrow> failf (AgentDoesNotExecute kind) b0)"
    "inPlaceOps h v base nxt idx b1 = (d_InPlace d, d_WorkerPlan d)"
    "b = (if chunkCount (length (orderedOps b0)) (length (d_InPlace d)) > MaxChunks
          then failf (OpCap (length (orderedOps b0)) MaxChunks) b1 else b1)"
    "d_Reasons d = b_reasons b" "d_Files d = Files nxt"
    "d_Verdict d = (if b_reload b then VerdictReload
       else if orderedOps b0 \<noteq> [] then VerdictRuntime else VerdictFileOnly)"
    "d_Mode d = (if b_reload b then ModeReload else ModeAuto)"
    "d_Ops d = (if b_reload b then [] else orderedOps b0)"
    "d_Chunks d = (if b_reload b then 0
       else chunkCount (length (orderedOps b0)) (length (d_InPlace d)))"
proof -
  define b1 where "b1 = (case unsupportedKind (c_caps b0) (orderedOps b0) of
      None \<Rightarrow> b0 | Some kind \<Rightarrow> failf (AgentDoesNotExecute kind) b0)"
  obtain ip w where ip: "inPlaceOps h v base nxt idx b1 = (ip, w)" by fastforce
  define b where "b = (if chunkCount (length (orderedOps b0)) (length ip) > MaxChunks
      then failf (OpCap (length (orderedOps b0)) MaxChunks) b1 else b1)"
  have d: "d = (if b_reload b
      then \<lparr>d_Verdict = VerdictReload, d_Ops = [], d_InPlace = ip, d_WorkerPlan = w, d_Chunks = 0,
            d_Reasons = b_reasons b, d_Files = Files nxt, d_Mode = ModeReload\<rparr>
      else if orderedOps b0 \<noteq> []
      then \<lparr>d_Verdict = VerdictRuntime, d_Ops = orderedOps b0, d_InPlace = ip, d_WorkerPlan = w,
            d_Chunks = chunkCount (length (orderedOps b0)) (length ip),
            d_Reasons = b_reasons b, d_Files = Files nxt, d_Mode = ModeAuto\<rparr>
      else \<lparr>d_Verdict = VerdictFileOnly, d_Ops = [], d_InPlace = ip, d_WorkerPlan = w, d_Chunks = 0,
            d_Reasons = b_reasons b, d_Files = Files nxt, d_Mode = ModeAuto\<rparr>)"
    unfolding assms [symmetric] decide_def Let_def b1_def [symmetric] ip prod.case b_def [symmetric]
    by simp
  then have sel: "d_InPlace d = ip" "d_WorkerPlan d = w" by simp_all
  show thesis
  proof (rule that [OF b1_def])
    show "inPlaceOps h v base nxt idx b1 = (d_InPlace d, d_WorkerPlan d)" by (simp add: ip sel)
    show "b = (if chunkCount (length (orderedOps b0)) (length (d_InPlace d)) > MaxChunks
      then failf (OpCap (length (orderedOps b0)) MaxChunks) b1 else b1)" by (simp only: sel b_def)
  qed (simp_all add: d chunkCount_def)
qed

lemma failf_reload [simp]: "b_reload (failf r b)"
  by (simp add: failf_def notef_def)

lemma failf_caps [simp]: "c_caps (failf r b) = c_caps b"
  by (simp add: failf_def notef_def)

lemma decide_ok:
  assumes "decide h v base nxt idx b0 = d" and "builder_ok b0"
  shows "(d_Verdict d = VerdictRuntime) = (d_Ops d \<noteq> [])"
    and "(d_Verdict d = VerdictReload) = (d_Mode d = ModeReload)"
    and "d_Mode d \<noteq> ModeRevertLKG"
    and "(d_WorkerPlan d = None) = (d_InPlace d = [])"
    and "length (d_InPlace d) \<le> MaxOpsPerApply"
    and "length (d_Reasons d) \<le> MaxReasons"
    and "d_Verdict d = VerdictReload \<Longrightarrow> d_Reasons d \<noteq> []"
    and "d_Chunks d = length (Chunk d)"
    and "d_Chunks d \<le> MaxChunks"
proof -
  from assms(1) obtain b1 b where *:
    "b1 = (case unsupportedKind (c_caps b0) (orderedOps b0) of
             None \<Rightarrow> b0 | Some kind \<Rightarrow> failf (AgentDoesNotExecute kind) b0)"
    "inPlaceOps h v base nxt idx b1 = (d_InPlace d, d_WorkerPlan d)"
    "b = (if chunkCount (length (orderedOps b0)) (length (d_InPlace d)) > MaxChunks
          then failf (OpCap (length (orderedOps b0)) MaxChunks) b1 else b1)"
    and d: "d_Reasons d = b_reasons b"
    "d_Verdict d = (if b_reload b then VerdictReload
       else if orderedOps b0 \<noteq> [] then VerdictRuntime else VerdictFileOnly)"
    "d_Mode d = (if b_reload b then ModeReload else ModeAuto)"
    "d_Ops d = (if b_reload b then [] else orderedOps b0)"
    "d_Chunks d = (if b_reload b then 0
       else chunkCount (length (orderedOps b0)) (length (d_InPlace d)))"
    by (rule decide_cases)
  have ok: "builder_ok b"
    unfolding * using assms(2) by (simp add: builder_ok_failf split: option.split)
  show "(d_Verdict d = VerdictRuntime) = (d_Ops d \<noteq> [])"
    and "(d_Verdict d = VerdictReload) = (d_Mode d = ModeReload)"
    and "d_Mode d \<noteq> ModeRevertLKG" by (simp_all add: d)
  show "(d_WorkerPlan d = None) = (d_InPlace d = [])" and "length (d_InPlace d) \<le> MaxOpsPerApply"
    using *(2) by (auto elim!: inPlaceOps_cases simp: keepInPlace_bound)
  show "length (d_Reasons d) \<le> MaxReasons" using ok by (simp add: d builder_ok_def)
  show "d_Verdict d = VerdictReload \<Longrightarrow> d_Reasons d \<noteq> []"
    using ok by (auto simp: d builder_ok_def split: if_splits)
  show "d_Chunks d = length (Chunk d)" by (simp add: d Chunk_length chunkCount_def)
  show "d_Chunks d \<le> MaxChunks" by (auto simp: d(5) *(3) not_less)
qed

lemma decide_ops:
  assumes "decide h v base nxt idx b0 = d" and "d_Ops d \<noteq> []"
  shows "d_Ops d = orderedOps b0" and "\<not> b_reload b0"
    and "\<forall>x\<in>set (orderedOps b0). executes (c_caps b0) (op_Kind x)"
proof -
  from assms(1) obtain b1 b where
    "b1 = (case unsupportedKind (c_caps b0) (orderedOps b0) of
             None \<Rightarrow> b0 | Some kind \<Rightarrow> failf (AgentDoesNotExecute kind) b0)"
    "b = (if chunkCount (length (orderedOps b0)) (length (d_InPlace d)) > MaxChunks
          then failf (OpCap (length (orderedOps b0)) MaxChunks) b1 else b1)"
    "d_Ops d = (if b_reload b then [] else orderedOps b0)"
    by (rule decide_cases)
  with assms(2) show "d_Ops d = orderedOps b0" and "\<not> b_reload b0"
    and "\<forall>x\<in>set (orderedOps b0). executes (c_caps b0) (op_Kind x)"
    by (auto simp: unsupportedKind_None [symmetric] split: if_splits option.splits)
qed

lemma decide_inPlace:
  assumes "decide h v base nxt idx b0 = d" and "x \<in> set (d_InPlace d)"
  shows "op_Kind x \<in> set inPlaceKinds \<and> executes (c_caps b0) (op_Kind x)"
proof -
  obtain b1 where "inPlaceOps h v base nxt idx b1 = (d_InPlace d, d_WorkerPlan d)"
    and "c_caps b1 = c_caps b0"
    using assms(1) by (elim decide_cases) (metis failf_caps option.case_eq_if)
  with assms(2) show ?thesis by (auto elim!: inPlaceOps_cases dest: keepInPlace_kinds)
qed

lemma orderedOps_kind:
  "builder_ok b \<Longrightarrow> x \<in> set (orderedOps b) \<Longrightarrow> \<exists>g. op_Kind x \<in> set (group_kinds g)"
  by (auto simp: orderedOps_def builder_ok_def in_group_def)

lemma group_kinds_composed: "k \<in> set (group_kinds g) \<Longrightarrow> k \<in> set composedOps"
  by (cases g) (auto simp: composedOps_def)

subsection \<open>The operations of a decision\<close>

text \<open>
  The phases an operation can run in. Creating and updating come first, publishing a backend after
  its servers exist, removals last, and within them a backend is unpublished before its servers
  drain and deleted after they are gone.
\<close>

fun phase :: "op_kind \<Rightarrow> nat" where
  "phase OpBackendAdd = 0" | "phase OpServerAdd = 0" | "phase OpServerEnable = 0"
| "phase OpServerSetAddr = 0" | "phase OpServerSetWeight = 0" | "phase OpServerSetState = 0"
| "phase OpBackendPublish = 1"
| "phase OpMapAdd = 2" | "phase OpMapSet = 2" | "phase OpMapReplace = 2"
| "phase OpCertSet = 3" | "phase OpCertNew = 3" | "phase OpCASet = 3" | "phase OpCANew = 3"
| "phase OpCRTListAdd = 4" | "phase OpCRTListDel = 4"
| "phase OpMapDel = 5"
| "phase OpBackendUnpublish = 6"
| "phase OpServerDisable = 7" | "phase OpServerWaitRemovable = 7" | "phase OpServerDel = 7"
| "phase OpShutdownSessions = 7"
| "phase OpBackendWaitRemovable = 8" | "phase OpBackendDel = 8"

fun group_phase :: "op_group \<Rightarrow> nat" where
  "group_phase groupBackendAdd = 0" | "group_phase groupServerUpdate = 0"
| "group_phase groupBackendPublish = 1" | "group_phase groupMapUpsert = 2"
| "group_phase groupCert = 3" | "group_phase groupCRTList = 4" | "group_phase groupMapDel = 5"
| "group_phase groupBackendUnpublish = 6" | "group_phase groupServerDel = 7"
| "group_phase groupBackendDel = 8"

lemma phase_group: "k \<in> set (group_kinds g) \<Longrightarrow> phase k = group_phase g"
  by (cases g) auto

lemma phases_of_group:
  "builder_ok b \<Longrightarrow>
     map (\<lambda>x. phase (op_Kind x)) (b_groups b g) = replicate (length (b_groups b g)) (group_phase g)"
  by (auto simp: builder_ok_def in_group_def phase_group intro!: replicate_eqI)

lemma sorted_replicates:
  "sorted (map f gs) \<Longrightarrow> sorted (concat (map (\<lambda>g. replicate (n g) (f g)) gs))"
  by (induction gs) (auto simp: sorted_append)

lemma orderedOps_phases: "builder_ok b \<Longrightarrow> sorted (map (\<lambda>x. phase (op_Kind x)) (orderedOps b))"
  unfolding orderedOps_def
  using sorted_replicates [of group_phase opGroups "\<lambda>g. length (b_groups b g)"]
  by (simp add: map_concat comp_def phases_of_group opGroups_def)

lemma concat_filter_count:
  "length (filter P (concat (map f gs))) = sum_list (map (\<lambda>g. length (filter P (f g))) gs)"
  by (induction gs) simp_all

lemma orderedOps_count:
  assumes "builder_ok b" and "\<And>h. k \<in> set (group_kinds h) \<Longrightarrow> h = g"
  shows "int (length (filter (\<lambda>x. op_Kind x = k) (orderedOps b))) = queued k g b"
proof -
  have other: "filter (\<lambda>x. op_Kind x = k) (b_groups b h) = []" if "h \<noteq> g" for h
    using assms that by (auto simp: builder_ok_def in_group_def filter_empty_conv)
  have "g \<in> set opGroups" and "distinct opGroups" by (cases g; simp add: opGroups_def)+
  then have "sum_list (map (\<lambda>h. length (filter (\<lambda>x. op_Kind x = k) (b_groups b h))) opGroups) =
      length (filter (\<lambda>x. op_Kind x = k) (b_groups b g))"
    using other
    by (simp add: sum_list_distinct_conv_sum_set sum.remove [of _ g] sum.neutral)
  then show ?thesis by (simp add: orderedOps_def concat_filter_count queued_def)
qed

lemma group_of_delete:
  "OpServerDel \<in> set (group_kinds h) \<Longrightarrow> h = groupServerDel"
  "OpBackendDel \<in> set (group_kinds h) \<Longrightarrow> h = groupBackendDel"
  by (cases h; simp)+

lemma runRules_counts:
  defines "n k \<equiv> \<lambda>ops. int (length (filter (\<lambda>x. op_Kind x = k) ops))"
  shows "bl_PendingServerDeletes base + n OpServerDel (orderedOps (runRules nxt idx base)) \<le>
      max (bl_PendingServerDeletes base) MaxPendingServerDeletes"
    and "bl_PendingBackendDeletes base + n OpBackendDel (orderedOps (runRules nxt idx base)) \<le>
      max (bl_PendingBackendDeletes base) MaxPendingBackendDeletes"
  using deletes.runRules_R [of nxt base idx]
  unfolding n_def counted_def
  by (simp_all add: orderedOps_count [OF runRules_ok group_of_delete(1)]
      orderedOps_count [OF runRules_ok group_of_delete(2)] queued_def newBuilder_def)

subsection \<open>Sample plans\<close>

text \<open>
  A small cluster the properties are evaluated on: one core section, one dynamic backend with the
  given servers, the configuration and one file that only a reload reads.
\<close>

definition sample_section :: "string \<Rightarrow> string \<Rightarrow> string \<Rightarrow> Section" where
  "sample_section kind name txt = \<lparr>sec_Kind = kind, sec_Name = name, sec_TextDigest = [],
     sec_Length = int (length txt), sec_Text = txt, sec_TextKnown = True\<rparr>"

definition sample_file :: "string \<Rightarrow> string \<Rightarrow> string \<Rightarrow> File" where
  "sample_file path kind content = \<lparr>file_Path = path, file_Kind = kind,
     file_ReloadOnChange = (kind = FileKindGeneral), file_Digest = [], file_Size = int (length content),
     file_Content = content, file_ContentKnown = True\<rparr>"

definition sample_server :: "string \<Rightarrow> Server" where
  "sample_server name = \<lparr>srv_Name = name, srv_Address = ''10.0.0.1'', srv_Port = 8080, srv_Weight = Some 10,
     srv_Disabled = False, srv_GUID = [], srv_Comment = [], srv_Extra = [\<lparr>kw_Name = ''check'', kw_Args = []\<rparr>]\<rparr>"

definition sample_plan :: "string \<Rightarrow> Server list \<Rightarrow> Plan" where
  "sample_plan cfg servers =
     \<lparr>plan_SchemaVersion = 1, plan_ID = cfg,
      plan_Sections = [sample_section ''core'' ''global'' ''global'', sample_section SectionKindBackend ''web'' cfg],
      plan_Backends = [(''web'', zeroBackend\<lparr>be_Name := ''web'', be_Servers := servers,
         be_ContentKnown := True, be_Shape := ShapeDynamic\<rparr>)],
      plan_Profiles = [], plan_Maps = [], plan_CRTLists = [],
      plan_Files = [sample_file ''haproxy.cfg'' FileKindConfig cfg,
                    sample_file ''err.http'' FileKindGeneral ''500'']\<rparr>"

definition sample_base :: "Plan \<Rightarrow> Baseline" where
  "sample_base p = zeroBaseline\<lparr>bl_Applied := Some p, bl_Caps := CapsFor ''3.4.0'' []\<rparr>"

text \<open>The baseline has one server; the render replaces it by another one.\<close>

abbreviation "sample_prev \<equiv> sample_plan ''a'' [sample_server ''s1'']"
abbreviation "sample_next \<equiv> sample_plan ''b'' [sample_server ''s2'']"

lemma sample_verdict:
  "d_Verdict (DiffIndexed (\<lambda>_. 0) (Some sample_next) None (Some (sample_base sample_prev))) = VerdictRuntime"
  by code_simp

subsection \<open>Properties of every decision\<close>

text \<open>
  C1. The fields of every decision agree with each other: operations are shipped exactly for the
  runtime verdict, the mode is reload exactly for the reload verdict and never a revert, the worker
  plan is set exactly when in-place operations are, at most 1000 in-place operations and 32 reasons
  are kept, a reload names a reason, and the number of batches is the length of \<open>Chunk\<close> and at
  most 8.
\<close>

theorem DiffIndexed_consistent:
  "let d = DiffIndexed sum64 next idx base in
     (d_Verdict d = VerdictRuntime) = (d_Ops d \<noteq> []) \<and>
     (d_Verdict d = VerdictReload) = (d_Mode d = ModeReload) \<and> d_Mode d \<noteq> ModeRevertLKG \<and>
     (d_WorkerPlan d = None) = (d_InPlace d = []) \<and>
     length (d_InPlace d) \<le> MaxOpsPerApply \<and> length (d_Reasons d) \<le> MaxReasons \<and>
     (d_Verdict d = VerdictReload \<longrightarrow> d_Reasons d \<noteq> []) \<and>
     d_Chunks d = length (Chunk d) \<and> d_Chunks d \<le> MaxChunks"
proof (cases sum64 "next" idx base rule: DiffIndexed_cases)
  case no_render
  then show ?thesis by (simp add: Chunk_def MaxReasons_def)
next
  case (rules nxt verdict)
  show ?thesis
    unfolding Let_def by (intro conjI impI) (rule decide_ok [OF rules(2) [symmetric] runRules_ok], assumption?)+
qed

theorem DiffIndexed_consistent_witness:
  "let d = DiffIndexed (\<lambda>_. 0) (Some sample_next) None None in
     d_Verdict d = VerdictReload \<and> d_Mode d = ModeReload \<and> d_Reasons d \<noteq> [] \<and> d_Ops d = []"
proof -
  have "d_Verdict (DiffIndexed (\<lambda>_. 0) (Some sample_next) None None) = VerdictReload" by code_simp
  with DiffIndexed_consistent [of "\<lambda>_. 0" "Some sample_next" None None] show ?thesis
    by (simp add: Let_def)
qed


text \<open>
  A decision holds only operations the pod's agent executes, of the kinds the controller declares
  to compose; the in-place ones are of the kinds a pod may run while a reload is pending.
\<close>

theorem DiffIndexed_executed:
  "let d = DiffIndexed sum64 next idx base in
     list_all (\<lambda>x. executes (bl_Caps (baseline_or_zero base)) (op_Kind x) \<and> op_Kind x \<in> set composedOps)
       (d_Ops d @ d_InPlace d) \<and>
     list_all (\<lambda>x. op_Kind x \<in> set inPlaceKinds) (d_InPlace d)"
proof (cases sum64 "next" idx base rule: DiffIndexed_cases)
  case no_render
  then show ?thesis by simp
next
  case (rules nxt verdict)
  let ?d = "DiffIndexed sum64 next idx base"
  have ops: "executes (bl_Caps (baseline_or_zero base)) (op_Kind x) \<and> op_Kind x \<in> set composedOps"
    if x: "x \<in> set (d_Ops ?d)" for x
  proof -
    have "d_Ops ?d \<noteq> []" using x by auto
    note facts = decide_ops [OF rules(2) [symmetric] this]
    with x show ?thesis
      using orderedOps_kind [OF runRules_ok] group_kinds_composed
      by (fastforce simp: runRules_caps)
  qed
  have inp: "op_Kind x \<in> set inPlaceKinds \<and> executes (bl_Caps (baseline_or_zero base)) (op_Kind x)"
    if "x \<in> set (d_InPlace ?d)" for x
    using decide_inPlace [OF rules(2) [symmetric] that] by (simp add: runRules_caps)
  moreover have "set inPlaceKinds \<subseteq> set composedOps" by (simp add: inPlaceKinds_def composedOps_def)
  ultimately show ?thesis
    using ops by (auto simp: Let_def list_all_iff)
qed

text \<open>
  C7. The operations of a decision run in phases: everything the new state needs is created and
  published, and every map is updated, before a map key, a server or a backend of the old state goes
  away, and a backend is deleted after it was unpublished and its servers were drained.
\<close>

theorem DiffIndexed_phases:
  "sorted (map (\<lambda>x. phase (op_Kind x)) (d_Ops (DiffIndexed sum64 next idx base)))"
proof (cases sum64 "next" idx base rule: DiffIndexed_cases)
  case no_render
  then show ?thesis by simp
next
  case (rules nxt verdict)
  then show ?thesis
    using decide_ops(1) [OF rules(2) [symmetric]] orderedOps_phases [OF runRules_ok]
    by (cases "d_Ops (DiffIndexed sum64 next idx base) = []") auto
qed

text \<open>
  C8. The deferred deletes a decision queues stay within the pod's caps: what is pending and what the
  decision adds never exceeds the cap unless the pod already reported more, and then nothing is
  added.
\<close>

theorem DiffIndexed_delete_caps:
  "let n = (\<lambda>k. int (length (filter (\<lambda>x. op_Kind x = k) (d_Ops (DiffIndexed sum64 next idx base)))));
       bl = baseline_or_zero base in
     bl_PendingServerDeletes bl + n OpServerDel \<le> max (bl_PendingServerDeletes bl) MaxPendingServerDeletes \<and>
     bl_PendingBackendDeletes bl + n OpBackendDel \<le> max (bl_PendingBackendDeletes bl) MaxPendingBackendDeletes"
proof (cases "d_Ops (DiffIndexed sum64 next idx base) = []")
  case False
  then obtain nxt verdict where
    d: "DiffIndexed sum64 next idx base = decide sum64 verdict (baseline_or_zero base) nxt
      (index_or_build idx nxt) (runRules nxt (index_or_build idx nxt) (baseline_or_zero base))"
    by (cases sum64 "next" idx base rule: DiffIndexed_cases) auto
  show ?thesis
    unfolding decide_ops(1) [OF d [symmetric] False] Let_def by (intro conjI runRules_counts)
qed simp

end
