(* ===== verification/Deploy_Explained.thy ===== *)
theory Deploy_Explained
  imports Deploy_Decision
begin

section \<open>When a decision needs no reload\<close>

text \<open>
  The rules read forwards: a change HAProxy cannot take at runtime forces a reload. This theory reads
  them backwards. A decision that is not a reload was made against a usable baseline, and every
  section, file and backend of the render is one the running worker already has or one the shipped
  operations bring it to. In the other direction a render equal to the baseline needs nothing.
\<close>

subsection \<open>The plan index\<close>

abbreviation sec_key :: "Section \<Rightarrow> string \<times> string" where
  "sec_key s \<equiv> (sec_Kind s, sec_Name s)"

definition backend_entry :: "Plan \<Rightarrow> Section \<Rightarrow> backendEntry" where
  "backend_entry p sec =
     \<lparr>bk_name = sec_Name sec, bk_section = sec, bk_record = go_get (plan_Backends p) (sec_Name sec)\<rparr>"

definition other_sections :: "Plan \<Rightarrow> Section list" where
  "other_sections p = filter (\<lambda>s. sec_Kind s \<noteq> SectionKindBackend) (plan_Sections p)"

definition backend_sections :: "Plan \<Rightarrow> Section list" where
  "backend_sections p = filter (\<lambda>s. sec_Kind s = SectionKindBackend) (plan_Sections p)"

definition index_at :: "Plan \<Rightarrow> Section list \<Rightarrow> Index" where
  "index_at p secs =
     foldl (indexSection p)
       \<lparr>idx_sections = Map.empty, idx_files = fileIndex (plan_Files p), idx_backends = [],
        idx_byName = Map.empty\<rparr> secs"

lemma index_at_snoc: "index_at p (secs @ [s]) = indexSection p (index_at p secs) s"
  by (simp add: index_at_def)

lemma index_at_fields:
  "idx_files (index_at p secs) = fileIndex (plan_Files p) \<and>
   idx_sections (index_at p secs) =
     index_by sec_key (filter (\<lambda>s. sec_Kind s \<noteq> SectionKindBackend) secs) \<and>
   idx_backends (index_at p secs) =
     map (backend_entry p) (filter (\<lambda>s. sec_Kind s = SectionKindBackend) secs)"
proof (induction secs rule: rev_induct)
  case (snoc s secs)
  then show ?case by (simp add: index_at_snoc indexSection_def backend_entry_def)
qed (simp add: index_at_def)

lemma IndexPlan_index_at: "IndexPlan p = index_at p (plan_Sections p)"
  by (simp add: IndexPlan_def index_at_def)

lemma IndexPlan_files [simp]: "idx_files (IndexPlan p) = fileIndex (plan_Files p)"
  by (simp add: IndexPlan_index_at index_at_fields)

lemma IndexPlan_sections: "idx_sections (IndexPlan p) = index_by sec_key (other_sections p)"
  by (simp add: IndexPlan_index_at index_at_fields other_sections_def)

lemma IndexPlan_backends: "idx_backends (IndexPlan p) = map (backend_entry p) (backend_sections p)"
  by (simp add: IndexPlan_index_at index_at_fields backend_sections_def)

lemma index_at_backend:
  "(\<forall>name i. idx_byName (index_at p secs) name = Some i \<longrightarrow> i < length (idx_backends (index_at p secs))) \<and>
   Index_backend (index_at p secs) name = index_by bk_name (idx_backends (index_at p secs)) name"
proof (induction secs rule: rev_induct)
  case Nil
  then show ?case by (simp add: index_at_def Index_backend_def)
next
  case (snoc s secs)
  let ?i = "index_at p secs"
  show ?case
  proof (cases "sec_Kind s = SectionKindBackend")
    case True
    have entries: "idx_backends (index_at p (secs @ [s])) = idx_backends ?i @ [backend_entry p s]"
      and names: "idx_byName (index_at p (secs @ [s])) =
        (idx_byName ?i)(sec_Name s \<mapsto> length (idx_backends ?i))"
      by (simp_all add: True index_at_snoc indexSection_def backend_entry_def)
    from snoc have "idx_byName ?i name = Some i \<Longrightarrow> i < length (idx_backends ?i)" for i by blast
    with snoc show ?thesis
      by (auto simp: entries names Index_backend_def backend_entry_def nth_append less_Suc_eq
          split: option.splits)
  next
    case False
    with snoc show ?thesis by (simp add: index_at_snoc indexSection_def Index_backend_def cong: option.case_cong)
  qed
qed

lemma IndexPlan_backend:
  "Index_backend (IndexPlan p) name = index_by bk_name (map (backend_entry p) (backend_sections p)) name"
  using index_at_backend [of p "plan_Sections p" name]
  by (simp add: IndexPlan_index_at [symmetric] IndexPlan_backends)

subsection \<open>A decision without a reload\<close>

lemma decide_no_reload:
  assumes "decide h v base nxt idx b0 = d" and "d_Verdict d \<noteq> VerdictReload"
  shows "\<not> b_reload b0"
proof -
  from assms(1) obtain b1 b where
    "b1 = (case unsupportedKind (c_caps b0) (orderedOps b0) of
             None \<Rightarrow> b0 | Some kind \<Rightarrow> failf (AgentDoesNotExecute kind) b0)"
    "b = (if chunkCount (length (orderedOps b0)) (length (d_InPlace d)) > MaxChunks
          then failf (OpCap (length (orderedOps b0)) MaxChunks) b1 else b1)"
    "d_Verdict d = (if b_reload b then VerdictReload
       else if orderedOps b0 \<noteq> [] then VerdictRuntime else VerdictFileOnly)"
    by (rule decide_cases)
  with assms(2) show ?thesis by (auto split: if_splits option.splits)
qed

text \<open>The context of the rules when the caller passes no prebuilt index, or the one it would build.\<close>

definition own_index :: "Index option \<Rightarrow> Plan \<Rightarrow> bool" where
  "own_index i p \<longleftrightarrow> index_or_build i p = IndexPlan p"

definition planctx :: "Plan \<Rightarrow> Plan \<Rightarrow> diffctx" where
  "planctx prev nxt =
     \<lparr>dc_next = nxt, dc_prev = prev, dc_nextIndex = IndexPlan nxt, dc_prevIndex = IndexPlan prev\<rparr>"

lemma planctx_sel [simp]:
  "dc_next (planctx prev nxt) = nxt" "dc_prev (planctx prev nxt) = prev"
  "dc_nextIndex (planctx prev nxt) = IndexPlan nxt" "dc_prevIndex (planctx prev nxt) = IndexPlan prev"
  by (simp_all add: planctx_def)

lemma runRules_usable:
  assumes "bl_Applied base = Some prev" and "plan_SchemaVersion prev = plan_SchemaVersion nxt"
    and "own_index (bl_AppliedIndex base) prev"
  shows "runRules nxt (IndexPlan nxt) base = diffAll (planctx prev nxt) (newBuilder nxt base)"
  using assms
  by (auto simp: runRules_def baselineUsable_def planctx_def own_index_def index_or_build_def
      split: option.splits)

lemma no_reload_usable:
  assumes "\<not> b_reload (runRules nxt idx base)"
  obtains prev where "bl_Applied base = Some prev" "plan_SchemaVersion prev = plan_SchemaVersion nxt"
  using assms
  by (cases "bl_Applied base") (auto simp: runRules_def baselineUsable_def split: if_splits)

text \<open>The five passes of a diff that ends without a reload, each on a builder of this diff.\<close>

lemma diffAll_no_reload:
  assumes "\<not> b_reload (diffAll dc b)"
  obtains b1 b2 b3 b4 where
    "\<not> b_reload (diffCerts dc b)" "kept (diffCerts dc b) (diffAll dc b)"
    "kept b b1" "\<not> b_reload (diffBackends dc b1)" "kept (diffBackends dc b1) (diffAll dc b)"
    "kept b b2" "\<not> b_reload (diffSections dc b2)" "kept (diffSections dc b2) (diffAll dc b)"
    "kept b b3" "\<not> b_reload (diffMaps dc b3)" "kept (diffMaps dc b3) (diffAll dc b)"
    "kept b b4" "\<not> b_reload (diffFiles dc b4)" "kept (diffFiles dc b4) (diffAll dc b)"
proof -
  define s1 where "s1 = diffCerts dc b"
  define s2 where "s2 = diffBackends dc s1"
  define s3 where "s3 = diffSections dc s2"
  define s4 where "s4 = diffMaps dc s3"
  have all: "diffAll dc b = diffFiles dc s4"
    by (simp add: diffAll_def s1_def s2_def s3_def s4_def)
  have k1: "kept b s1" and k12: "kept s1 s2" and k23: "kept s2 s3" and k34: "kept s3 s4"
    and k4: "kept s4 (diffFiles dc s4)"
    by (simp_all add: s1_def s2_def s3_def s4_def keeps.diffCerts_R keeps.diffBackends_R
        keeps.diffSections_R keeps.diffMaps_R keeps.diffFiles_R)
  note up = keeps.trans [OF k34 k4] keeps.trans [OF k23 keeps.trans [OF k34 k4]]
  note down = keeps.trans [OF k1 k12] keeps.trans [OF keeps.trans [OF k1 k12] k23]
    keeps.trans [OF keeps.trans [OF keeps.trans [OF k1 k12] k23] k34]
  note top = keeps.trans [OF k12 up(2)]
  have mono: "kept x (diffFiles dc s4) \<Longrightarrow> \<not> b_reload x" for x
    using assms by (auto simp: all kept_def)
  show thesis
    by (rule that [of s1 s2 s3 s4, folded s1_def, folded s2_def, folded s3_def, folded s4_def])
       (auto simp: all mono k1 k4 up top down keeps.refl)
qed

subsection \<open>What such a decision has explained\<close>

text \<open>The record a plan has for a backend section of the name, if it has both.\<close>

definition described :: "Plan \<Rightarrow> string \<Rightarrow> Backend option" where
  "described p name =
     (if name \<in> sec_Name ` set (backend_sections p) then go_get (plan_Backends p) name else None)"

lemma described_index:
  "(case Index_backend (IndexPlan p) name of None \<Rightarrow> None | Some e \<Rightarrow> bk_record e) = described p name"
proof (cases "index_by bk_name (map (backend_entry p) (backend_sections p)) name")
  case None
  then have "name \<notin> sec_Name ` set (backend_sections p)"
    by (simp add: index_by_None_iff image_image backend_entry_def)
  with None show ?thesis by (simp add: IndexPlan_backend described_def)
next
  case (Some e)
  then have "e \<in> set (map (backend_entry p) (backend_sections p))" and "bk_name e = name"
    by (auto dest: index_by_SomeD)
  with Some show ?thesis by (auto simp: IndexPlan_backend described_def backend_entry_def)
qed

lemma diffSections_explained:
  assumes "\<not> b_reload (diffSections (planctx prev nxt) b)"
  shows "sec \<in> set (other_sections nxt) \<Longrightarrow>
      \<exists>old\<in>set (other_sections prev). sec_key old = sec_key sec \<and> sameSectionText (Some old) (Some sec)"
    and "sec \<in> set (other_sections prev) \<Longrightarrow> sec_Kind sec \<noteq> SectionKindProfile \<Longrightarrow>
      sec_key sec \<in> sec_key ` set (other_sections nxt)"
proof -
  let ?dc = "planctx prev nxt"
  let ?mid = "foldl (diffSection ?dc) b (plan_Sections nxt)"
  have last: "\<not> b_reload (foldl (diffRemovedSection ?dc) ?mid (plan_Sections prev))"
    using assms by (simp add: diffSections_def)
  have first: "\<not> b_reload ?mid"
    using last keeps.fold_rule [of "diffRemovedSection ?dc", OF keeps.diffRemovedSection_R]
    by (auto simp: kept_def)
  show "\<exists>old\<in>set (other_sections prev). sec_key old = sec_key sec \<and> sameSectionText (Some old) (Some sec)"
    if sec: "sec \<in> set (other_sections nxt)"
  proof -
    from sec have kind: "sec \<in> set (plan_Sections nxt)" "sec_Kind sec \<noteq> SectionKindBackend"
      by (simp_all add: other_sections_def)
    obtain b' where "\<not> b_reload (diffSection ?dc b' sec)"
      by (rule foldl_no_reload [OF first kind(1) keeps.diffSection_R])
    with kind obtain old where "idx_sections (IndexPlan prev) (sec_key sec) = Some old"
      and "sameSectionText (Some old) (Some sec)"
      by (auto simp: diffSection_def sectionAdded_def sectionChanged_def split: option.splits if_splits)
    then show ?thesis by (auto simp: IndexPlan_sections dest: index_by_SomeD)
  qed
  show "sec_key sec \<in> sec_key ` set (other_sections nxt)"
    if sec: "sec \<in> set (other_sections prev)" and profile: "sec_Kind sec \<noteq> SectionKindProfile"
  proof -
    from sec have kind: "sec \<in> set (plan_Sections prev)" "sec_Kind sec \<noteq> SectionKindBackend"
      by (simp_all add: other_sections_def)
    obtain b' where "\<not> b_reload (diffRemovedSection ?dc b' sec)"
      by (rule foldl_no_reload [OF last kind(1) keeps.diffRemovedSection_R])
    with kind profile have "idx_sections (IndexPlan nxt) (sec_key sec) \<noteq> None"
      by (auto simp: diffRemovedSection_def sectionRemoved_def Let_def split: if_splits)
    then show ?thesis by (simp add: IndexPlan_sections index_by_None_iff)
  qed
qed

lemma two_folds_no_reload:
  assumes "\<not> b_reload (foldl g (foldl f b xs) ys)" and "\<And>b y. kept b (g b y)"
  shows "\<not> b_reload (foldl f b xs)" and "kept (foldl f b xs) (foldl g (foldl f b xs) ys)"
  using assms(1) keeps.fold_rule [of g, OF assms(2)] by (auto simp: kept_def)

lemma diffFiles_explained:
  assumes "\<not> b_reload (diffFiles (planctx prev nxt) b)"
  shows "f \<in> set (plan_Files nxt) \<Longrightarrow> file_ReloadOnChange f \<Longrightarrow> file_Kind f \<noteq> FileKindConfig \<Longrightarrow>
      sameFileContent (fileIndex (plan_Files prev) (file_Path f)) (Some f)"
    and "f \<in> set (plan_Files prev) \<Longrightarrow> file_Path f \<notin> file_Path ` set (plan_Files nxt) \<Longrightarrow>
      file_Kind f \<noteq> FileKindCRTList \<Longrightarrow> \<not> file_ReloadOnChange f"
proof -
  let ?dc = "planctx prev nxt"
  have last: "\<not> b_reload (foldl (diffRemovedFile ?dc) (foldl (diffFile ?dc) b (plan_Files nxt)) (plan_Files prev))"
    using assms by (simp add: diffFiles_def)
  note first = two_folds_no_reload(1) [OF last keeps.diffRemovedFile_R]
  show "sameFileContent (fileIndex (plan_Files prev) (file_Path f)) (Some f)"
    if "f \<in> set (plan_Files nxt)" "file_ReloadOnChange f" "file_Kind f \<noteq> FileKindConfig"
    by (rule foldl_no_reload [OF first that(1) keeps.diffFile_R])
       (use that in \<open>auto simp: diffFile_def split: if_splits\<close>)
  show "\<not> file_ReloadOnChange f"
    if "f \<in> set (plan_Files prev)" "file_Path f \<notin> file_Path ` set (plan_Files nxt)"
      "file_Kind f \<noteq> FileKindCRTList"
    by (rule foldl_no_reload [OF last that(1) keeps.diffRemovedFile_R])
       (use that in \<open>auto simp: diffRemovedFile_def fileIndex_def index_by_None_iff split: if_splits\<close>)
qed

lemma removedCRTList_R: "kept b (removedCRTList dc b f)"
  by (simp add: removedCRTList_def keeps.refl keeps.fail)

lemma diffCerts_explained:
  assumes "\<not> b_reload (diffCerts (planctx prev nxt) b)" and "f \<in> set (plan_Files prev)"
    and "file_Path f \<notin> file_Path ` set (plan_Files nxt)"
  shows "file_Kind f \<noteq> FileKindCRTList"
proof -
  let ?dc = "planctx prev nxt"
  have last: "\<not> b_reload (foldl (removedCRTList ?dc) (foldl (diffCertFile ?dc) b (plan_Files nxt)) (plan_Files prev))"
    using assms by (simp add: diffCerts_def)
  show ?thesis
    by (rule foldl_no_reload [OF last assms(2) removedCRTList_R])
       (use assms(3) in \<open>auto simp: removedCRTList_def fileIndex_def index_by_None_iff split: if_splits\<close>)
qed

text \<open>What a backend of the render has gone through when no reload was needed for it.\<close>

definition backend_explained :: "Caps \<Rightarrow> Plan \<Rightarrow> Plan \<Rightarrow> string \<Rightarrow> bool" where
  "backend_explained caps prev nxt name =
     (case (described prev name, described nxt name) of
        (_, None) \<Rightarrow> False
      | (None, Some be) \<Rightarrow>
          be_Shape be = ShapeDynamic \<and> DynamicBackends caps \<and> SafeToken (be_Name be) \<and>
          go_get (plan_Profiles prev) (be_Profile be) \<noteq> None
      | (Some old, Some be) \<Rightarrow>
          sameBackendBody old be \<and> (sameBackendRecord old be \<or> changedAttribute old be = ''''))"

lemma described_entry: "sec \<in> set (backend_sections p) \<Longrightarrow> described p (sec_Name sec) = bk_record (backend_entry p sec)"
  by (simp add: described_def backend_entry_def)

lemma backendAdded_no_reload:
  "\<not> b_reload (backendAdded dc be b) \<Longrightarrow>
     be_Shape be = ShapeDynamic \<and> DynamicBackends (c_caps b) \<and> SafeToken (be_Name be) \<and>
     go_get (plan_Profiles (dc_prev dc)) (be_Profile be) \<noteq> None"
  by (auto simp: backendAdded_def profileInRunningConfig_def split: if_splits)

lemma diffBackend_explained:
  assumes "\<not> b_reload (diffBackend (planctx prev nxt) b (backend_entry nxt sec))"
    and "sec \<in> set (backend_sections nxt)"
  shows "backend_explained (c_caps b) prev nxt (sec_Name sec)"
proof -
  from assms obtain be where be: "bk_record (backend_entry nxt sec) = Some be"
    by (auto simp: diffBackend_def split: option.splits)
  have name: "bk_name (backend_entry nxt sec) = sec_Name sec" by (simp add: backend_entry_def)
  show ?thesis
  proof (cases "described prev (sec_Name sec)")
    case None
    then have "diffBackend (planctx prev nxt) b (backend_entry nxt sec) =
        backendAdded (planctx prev nxt) be (b\<lparr>b_sectionChange := True\<rparr>)"
      using described_index [of prev "sec_Name sec"]
      by (simp add: diffBackend_def be name split: option.splits)
    with assms(1) backendAdded_no_reload [of "planctx prev nxt" be "b\<lparr>b_sectionChange := True\<rparr>"]
    show ?thesis by (simp add: backend_explained_def None described_entry [OF assms(2)] be)
  next
    case (Some old)
    then obtain e where "Index_backend (IndexPlan prev) (sec_Name sec) = Some e" "bk_record e = Some old"
      using described_index [of prev "sec_Name sec"] by (auto split: option.splits)
    with assms(1) show ?thesis
      by (auto simp: diffBackend_def be name backendChanged_def backend_explained_def Some
          described_entry [OF assms(2)] Let_def split: if_splits)
  qed
qed

lemma diffBackends_explained:
  assumes "\<not> b_reload (diffBackends (planctx prev nxt) b)"
  shows "sec \<in> set (backend_sections nxt) \<Longrightarrow> backend_explained (c_caps b) prev nxt (sec_Name sec)"
    and "sec \<in> set (backend_sections prev) \<Longrightarrow> described prev (sec_Name sec) = Some old \<Longrightarrow>
      described nxt (sec_Name sec) = None \<Longrightarrow> be_Shape old = ShapeDynamic \<and> DynamicBackends (c_caps b)"
proof -
  let ?dc = "planctx prev nxt"
  have last: "\<not> b_reload (foldl (diffRemovedBackend ?dc)
      (foldl (diffBackend ?dc) b (map (backend_entry nxt) (backend_sections nxt)))
      (map (backend_entry prev) (backend_sections prev)))"
    using assms by (simp add: diffBackends_def IndexPlan_backends)
  note first = two_folds_no_reload(1) [OF last keeps.diffRemovedBackend_R]
  have pre: "kept b (foldl (diffBackend ?dc) b xs)" for xs
    by (rule keeps.fold_rule) (rule keeps.diffBackend_R)
  show "backend_explained (c_caps b) prev nxt (sec_Name sec)" if sec: "sec \<in> set (backend_sections nxt)"
  proof -
    have "backend_entry nxt sec \<in> set (map (backend_entry nxt) (backend_sections nxt))" using sec by simp
    from foldl_no_reload [OF first this keeps.diffBackend_R] obtain b' where
      "kept b b'" "\<not> b_reload (diffBackend ?dc b' (backend_entry nxt sec))" by blast
    with diffBackend_explained [OF _ sec, of prev b'] show ?thesis by (simp add: kept_def)
  qed
  show "be_Shape old = ShapeDynamic \<and> DynamicBackends (c_caps b)"
    if sec: "sec \<in> set (backend_sections prev)" and old: "described prev (sec_Name sec) = Some old"
      and gone: "described nxt (sec_Name sec) = None"
  proof -
    have "backend_entry prev sec \<in> set (map (backend_entry prev) (backend_sections prev))" using sec by simp
    from foldl_no_reload [OF last this keeps.diffRemovedBackend_R] obtain b' where
      b': "kept (foldl (diffBackend ?dc) b (map (backend_entry nxt) (backend_sections nxt))) b'"
        "\<not> b_reload (diffRemovedBackend ?dc b' (backend_entry prev sec))" by blast
    moreover have "\<not> (case Index_backend (IndexPlan nxt) (sec_Name sec) of
        Some e \<Rightarrow> bk_record e \<noteq> None | None \<Rightarrow> False)"
      using gone described_index [of nxt "sec_Name sec"] by (auto split: option.splits)
    ultimately have "\<not> b_reload (backendRemoved old (b'\<lparr>b_sectionChange := True\<rparr>))"
      using old [unfolded described_entry [OF sec]]
      by (auto simp: diffRemovedBackend_def Let_def backend_entry_def split: if_splits)
    with b' pre show ?thesis
      by (auto simp: backendRemoved_def kept_def split: if_splits)
  qed
qed

subsection \<open>Properties\<close>

text \<open>
  The setting of the properties below: a decision that is not a reload, for a render and a baseline
  whose indexes, if the caller passed any, are the ones \<open>IndexPlan\<close> builds.
\<close>

lemma no_reload_setting:
  assumes "d_Verdict (DiffIndexed sum64 (Some nxt) ni (Some base)) \<noteq> VerdictReload"
    and "own_index ni nxt" and "bl_Applied base = Some prev" and "own_index (bl_AppliedIndex base) prev"
  shows "\<not> b_reload (diffAll (planctx prev nxt) (newBuilder nxt base))"
    and "plan_SchemaVersion prev = plan_SchemaVersion nxt"
    and "c_caps (newBuilder nxt base) = bl_Caps base"
proof -
  obtain verdict where d: "DiffIndexed sum64 (Some nxt) ni (Some base) =
      decide sum64 verdict base nxt (IndexPlan nxt) (runRules nxt (IndexPlan nxt) base)"
    using DiffIndexed_decide [of sum64 nxt ni "Some base"] assms(2)
    by (auto simp: baseline_or_zero_def own_index_def)
  from decide_no_reload [OF d [symmetric] assms(1)]
  have no: "\<not> b_reload (runRules nxt (IndexPlan nxt) base)" .
  then show schema: "plan_SchemaVersion prev = plan_SchemaVersion nxt"
    by (rule no_reload_usable) (use assms(3) in simp)
  show "\<not> b_reload (diffAll (planctx prev nxt) (newBuilder nxt base))"
    using no runRules_usable [OF assms(3) schema assms(4)] by simp
  show "c_caps (newBuilder nxt base) = bl_Caps base" by (simp add: newBuilder_def)
qed

lemma sample_setting:
  "d_Verdict (DiffIndexed (\<lambda>_. 0) (Some sample_next) None (Some (sample_base sample_prev))) \<noteq> VerdictReload"
  "own_index None sample_next" "bl_Applied (sample_base sample_prev) = Some sample_prev"
  "own_index (bl_AppliedIndex (sample_base sample_prev)) sample_prev"
proof -
  show "d_Verdict (DiffIndexed (\<lambda>_. 0) (Some sample_next) None (Some (sample_base sample_prev))) \<noteq> VerdictReload"
    unfolding sample_verdict by simp
qed (simp_all add: own_index_def index_or_build_def sample_base_def zeroBaseline_def)

text \<open>
  Without a usable baseline the verdict is reload: no applied plan, or one of another schema
  version, ships no operation and the complete file set.
\<close>

theorem DiffIndexed_no_baseline:
  assumes "case bl_Applied base of None \<Rightarrow> True | Some prev \<Rightarrow> plan_SchemaVersion prev \<noteq> plan_SchemaVersion nxt"
  shows "d_Verdict (DiffIndexed sum64 (Some nxt) ni (Some base)) = VerdictReload \<and>
    d_Ops (DiffIndexed sum64 (Some nxt) ni (Some base)) = [] \<and>
    d_Files (DiffIndexed sum64 (Some nxt) ni (Some base)) = Files nxt"
proof -
  obtain verdict where d: "DiffIndexed sum64 (Some nxt) ni (Some base) =
      decide sum64 verdict base nxt (index_or_build ni nxt) (runRules nxt (index_or_build ni nxt) base)"
    using DiffIndexed_decide [of sum64 nxt ni "Some base"] by (auto simp: baseline_or_zero_def)
  let ?d = "DiffIndexed sum64 (Some nxt) ni (Some base)"
  have "b_reload (runRules nxt (index_or_build ni nxt) base)"
    using assms by (auto simp: runRules_def baselineUsable_def split: option.splits)
  then have v: "d_Verdict ?d = VerdictReload" using decide_no_reload [OF d [symmetric]] by blast
  moreover have "d_Ops ?d = []" using v decide_ok(1) [OF d [symmetric] runRules_ok] by simp
  moreover have "d_Files ?d = Files nxt" by (rule decide_cases [OF d [symmetric]]) simp
  ultimately show ?thesis by simp
qed

theorem DiffIndexed_no_baseline_witness:
  "d_Verdict (DiffIndexed (\<lambda>_. 0) (Some sample_next) None (Some zeroBaseline)) = VerdictReload \<and>
   length (d_Files (DiffIndexed (\<lambda>_. 0) (Some sample_next) None (Some zeroBaseline))) = 2"
  using DiffIndexed_no_baseline [of sample_next zeroBaseline "\<lambda>_. 0" None]
  by (simp add: zeroBaseline_def Files_def sample_plan_def)

text \<open>
  A decision without a reload found every core section and profile of the render in the baseline
  with the same text, and every core section of the baseline in the render: only whole profiles can
  disappear without a reload.
\<close>

theorem no_reload_sections:
  assumes "d_Verdict (DiffIndexed sum64 (Some nxt) ni (Some base)) \<noteq> VerdictReload"
    and "own_index ni nxt" and "bl_Applied base = Some prev" and "own_index (bl_AppliedIndex base) prev"
  shows "(\<forall>sec\<in>set (other_sections nxt). \<exists>old\<in>set (other_sections prev).
      sec_key old = sec_key sec \<and> sameSectionText (Some old) (Some sec)) \<and>
    (\<forall>sec\<in>set (other_sections prev). sec_Kind sec \<noteq> SectionKindProfile \<longrightarrow>
      sec_key sec \<in> sec_key ` set (other_sections nxt))"
proof -
  from no_reload_setting(1) [OF assms] obtain b where
    "\<not> b_reload (diffSections (planctx prev nxt) b)" by (rule diffAll_no_reload)
  from diffSections_explained [OF this] show ?thesis by blast
qed

theorem no_reload_sections_witness:
  "\<exists>sec\<in>set (other_sections sample_prev). sec_Name sec = ''global'' \<and> sec_Text sec = ''global''"
  using no_reload_sections [OF sample_setting]
  by (auto simp: other_sections_def sample_plan_def sample_section_def)

text \<open>
  A decision without a reload leaves every file that is only read at a reload unchanged: a file
  marked so, other than the configuration itself, has the content of the baseline, and no file that
  disappears is marked so or is a crt-list.
\<close>

theorem no_reload_files:
  assumes "d_Verdict (DiffIndexed sum64 (Some nxt) ni (Some base)) \<noteq> VerdictReload"
    and "own_index ni nxt" and "bl_Applied base = Some prev" and "own_index (bl_AppliedIndex base) prev"
  shows "(\<forall>f\<in>set (plan_Files nxt). file_ReloadOnChange f \<and> file_Kind f \<noteq> FileKindConfig \<longrightarrow>
      sameFileContent (fileIndex (plan_Files prev) (file_Path f)) (Some f)) \<and>
    (\<forall>f\<in>set (plan_Files prev). file_Path f \<notin> file_Path ` set (plan_Files nxt) \<longrightarrow>
      file_Kind f \<noteq> FileKindCRTList \<and> \<not> file_ReloadOnChange f)"
proof -
  from no_reload_setting(1) [OF assms] obtain b where
    certs: "\<not> b_reload (diffCerts (planctx prev nxt) (newBuilder nxt base))" and
    files: "\<not> b_reload (diffFiles (planctx prev nxt) b)" by (rule diffAll_no_reload)
  from diffFiles_explained [OF files] diffCerts_explained [OF certs] show ?thesis by blast
qed

theorem no_reload_files_witness:
  "sameFileContent (fileIndex (plan_Files sample_prev) ''err.http'')
     (Some (sample_file ''err.http'' FileKindGeneral ''500''))"
  using no_reload_files [OF sample_setting] by (simp add: sample_plan_def sample_file_def)

text \<open>
  C5. A decision without a reload has a record for every backend of the render. A backend the
  baseline describes keeps its body and, unless its record is the same, the attributes no operation
  can change; a new one has the dynamic shape, a profile of the baseline and a HAProxy that can add
  it; one that goes away has the dynamic shape and a HAProxy that can delete it.
\<close>

theorem no_reload_backends:
  assumes "d_Verdict (DiffIndexed sum64 (Some nxt) ni (Some base)) \<noteq> VerdictReload"
    and "own_index ni nxt" and "bl_Applied base = Some prev" and "own_index (bl_AppliedIndex base) prev"
  shows "(\<forall>sec\<in>set (backend_sections nxt). backend_explained (bl_Caps base) prev nxt (sec_Name sec)) \<and>
    (\<forall>sec\<in>set (backend_sections prev). \<forall>old. described prev (sec_Name sec) = Some old \<longrightarrow>
      described nxt (sec_Name sec) = None \<longrightarrow> be_Shape old = ShapeDynamic \<and> DynamicBackends (bl_Caps base))"
proof -
  from no_reload_setting(1) [OF assms] obtain b where
    b: "kept (newBuilder nxt base) b" "\<not> b_reload (diffBackends (planctx prev nxt) b)"
    by (rule diffAll_no_reload)
  from b(1) have "c_caps b = bl_Caps base"
    by (simp add: kept_def no_reload_setting(3) [OF assms])
  with diffBackends_explained [OF b(2)] show ?thesis by metis
qed

theorem no_reload_backends_witness:
  "backend_explained (CapsFor ''3.4.0'' []) sample_prev sample_next ''web''"
  using no_reload_backends [OF sample_setting]
  by (simp add: backend_sections_def sample_plan_def sample_section_def sample_base_def)

subsection \<open>A render equal to the baseline\<close>

text \<open>
  A plan that identifies its own content: paths and section keys name one thing each, every content
  is known exactly or by a digest, every backend section has its record and every map its file.
\<close>

definition identified :: "Plan \<Rightarrow> bool" where
  "identified p \<longleftrightarrow>
     distinct (map file_Path (plan_Files p)) \<and>
     list_all (\<lambda>f. file_ContentKnown f \<or> file_Digest f \<noteq> '''') (plan_Files p) \<and>
     distinct (map sec_key (plan_Sections p)) \<and>
     list_all (\<lambda>s. sec_TextKnown s \<or> sec_TextDigest s \<noteq> '''') (plan_Sections p) \<and>
     list_all (\<lambda>s. case go_get (plan_Backends p) (sec_Name s) of
         None \<Rightarrow> False
       | Some be \<Rightarrow> be_ContentKnown be \<or> be_BodyDigest be \<noteq> '''' \<and> be_RecordDigest be \<noteq> '''')
       (backend_sections p) \<and>
     list_all (\<lambda>(name, _). name \<in> file_Path ` set (plan_Files p)) (plan_Maps p)"

lemma foldl_same: "(\<And>x. x \<in> set xs \<Longrightarrow> f b x = b) \<Longrightarrow> foldl f b xs = b"
  by (induction xs) auto

lemma identified_file:
  "identified p \<Longrightarrow> f \<in> set (plan_Files p) \<Longrightarrow>
     fileIndex (plan_Files p) (file_Path f) = Some f \<and> sameFileContent (Some f) (Some f)"
  by (auto simp: identified_def fileIndex_def index_by_distinct sameFileContent_def list_all_iff)

lemma identified_section:
  assumes "identified p" and "s \<in> set (plan_Sections p)"
  shows "sameSectionText (Some s) (Some s)"
    and "sec_Kind s \<noteq> SectionKindBackend \<Longrightarrow> idx_sections (IndexPlan p) (sec_key s) = Some s"
    and "sec_Kind s = SectionKindBackend \<Longrightarrow>
      Index_backend (IndexPlan p) (sec_Name s) = Some (backend_entry p s)"
proof -
  show "sameSectionText (Some s) (Some s)"
    using assms by (auto simp: identified_def sameSectionText_def list_all_iff)
  have dist: "distinct (map sec_key (plan_Sections p))" using assms by (simp add: identified_def)
  show "idx_sections (IndexPlan p) (sec_key s) = Some s" if "sec_Kind s \<noteq> SectionKindBackend"
    unfolding IndexPlan_sections
    by (rule index_by_distinct)
       (use assms that dist in \<open>auto simp: other_sections_def distinct_map_filter\<close>)
  have "distinct (map sec_key (backend_sections p))"
    using dist by (simp add: backend_sections_def distinct_map_filter)
  then have "distinct (map bk_name (map (backend_entry p) (backend_sections p)))"
    by (auto simp: distinct_map inj_on_def backend_sections_def backend_entry_def)
  then show "Index_backend (IndexPlan p) (sec_Name s) = Some (backend_entry p s)"
    if "sec_Kind s = SectionKindBackend"
    using index_by_distinct [of bk_name "map (backend_entry p) (backend_sections p)" "backend_entry p s"]
      that assms(2)
    by (simp add: IndexPlan_backend backend_sections_def backend_entry_def)
qed

lemma identified_backend:
  assumes "identified p" and "s \<in> set (backend_sections p)"
  obtains be where "bk_record (backend_entry p s) = Some be"
    and "sameBackendBody be be" and "sameBackendRecord be be"
proof -
  from assms obtain be where "go_get (plan_Backends p) (sec_Name s) = Some be"
    and "be_ContentKnown be \<or> be_BodyDigest be \<noteq> '''' \<and> be_RecordDigest be \<noteq> ''''"
    by (fastforce simp: identified_def list_all_iff split: option.splits)
  then show thesis
    by (intro that) (auto simp: backend_entry_def sameBackendBody_def sameBackendRecord_def EqualRecord_def)
qed

lemma identified_diffAll:
  assumes "identified p"
  shows "diffAll (planctx p p) b = b"
proof -
  let ?dc = "planctx p p"
  have certs: "diffCerts ?dc b = b"
    unfolding diffCerts_def using identified_file [OF assms]
    by (simp add: foldl_same diffCertFile_def removedCRTList_def Let_def)
  have upd: "diffBackend ?dc b (backend_entry p s) = b" if s: "s \<in> set (backend_sections p)" for s
  proof -
    obtain be where be: "bk_record (backend_entry p s) = Some be" "sameBackendBody be be"
      "sameBackendRecord be be" by (rule identified_backend [OF assms s])
    moreover have "sameSectionText (Some s) (Some s)" "sec_Kind s = SectionKindBackend"
      "Index_backend (IndexPlan p) (sec_Name s) = Some (backend_entry p s)"
      using identified_section [OF assms, of s] s by (auto simp: backend_sections_def)
    moreover have "bk_name (backend_entry p s) = sec_Name s" "bk_section (backend_entry p s) = s"
      by (simp_all add: backend_entry_def)
    ultimately show ?thesis
      by (simp add: diffBackend_def backendChanged_def unexplainedText_def)
  qed
  have rem: "diffRemovedBackend ?dc b (backend_entry p s) = b" if s: "s \<in> set (backend_sections p)" for s
  proof -
    obtain be where "bk_record (backend_entry p s) = Some be" by (rule identified_backend [OF assms s])
    then show ?thesis
      using identified_section(3) [OF assms, of s] s
      by (simp add: diffRemovedBackend_def backend_sections_def backend_entry_def)
  qed
  have backends: "diffBackends ?dc b = b"
  proof -
    have "foldl (diffBackend ?dc) b (map (backend_entry p) (backend_sections p)) = b"
      by (rule foldl_same) (use upd in auto)
    moreover have "foldl (diffRemovedBackend ?dc) b (map (backend_entry p) (backend_sections p)) = b"
      by (rule foldl_same) (use rem in auto)
    ultimately show ?thesis by (simp add: diffBackends_def IndexPlan_backends)
  qed
  have sections: "diffSections ?dc b = b"
    unfolding diffSections_def using identified_section [OF assms]
    by (simp add: foldl_same diffSection_def diffRemovedSection_def)
  have maps: "diffMaps ?dc b = b"
    unfolding diffMaps_def
  proof (rule foldl_same)
    fix name assume "name \<in> set (sortedMapNames (plan_Maps (dc_next ?dc)))"
    then obtain m where m: "go_get (plan_Maps p) name = Some m"
      by (auto simp: sortedMapNames_def)
    then have "name \<in> file_Path ` set (plan_Files p)"
      using assms by (auto simp: identified_def list_all_iff dest: map_of_SomeD)
    with identified_file [OF assms] m show "diffMapNamed ?dc b name = b"
      by (auto simp: diffMapNamed_def)
  qed
  have files: "diffFiles ?dc b = b"
    unfolding diffFiles_def using identified_file [OF assms]
    by (simp add: foldl_same diffFile_def diffRemovedFile_def)
  show ?thesis unfolding diffAll_def by (simp add: certs backends sections maps files)
qed

text \<open>
  A render equal to the applied plan asks for nothing: no reload, no operation and no reason,
  only the file set; and with no reload pending no in-place operation either.
\<close>

theorem Diff_unchanged:
  assumes "identified p" and "bl_Applied base = Some p" and "own_index (bl_AppliedIndex base) p"
  shows "let d = Diff sum64 (Some p) (Some base) in
    d_Verdict d = VerdictFileOnly \<and> d_Mode d = ModeAuto \<and> d_Ops d = [] \<and> d_Reasons d = [] \<and>
    d_Files d = Files p \<and> (\<not> bl_ReloadPending base \<longrightarrow> d_InPlace d = [])"
proof -
  obtain verdict where d: "Diff sum64 (Some p) (Some base) =
      decide sum64 verdict base p (IndexPlan p) (runRules p (IndexPlan p) base)"
    using DiffIndexed_decide [of sum64 p None "Some base"]
    by (auto simp: Diff_def baseline_or_zero_def index_or_build_def)
  have b: "runRules p (IndexPlan p) base = newBuilder p base"
    using runRules_usable [OF assms(2) _ assms(3)] identified_diffAll [OF assms(1)] by simp
  have ops: "orderedOps (newBuilder p base) = []" "b_reload (newBuilder p base) = False"
    "b_reasons (newBuilder p base) = []"
    by (simp_all add: orderedOps_def newBuilder_def)
  have kind: "unsupportedKind caps [] = None" for caps
    by (simp add: unsupportedKind_def split: option.splits)
  show ?thesis
    unfolding d b Let_def
    by (rule decide_cases [of sum64 verdict base p "IndexPlan p" "newBuilder p base", OF HOL.refl])
       (auto simp: ops kind chunkCount_def MaxChunks_def MaxOpBatches_def elim: inPlaceOps_cases)
qed

theorem Diff_unchanged_witness:
  "d_Verdict (Diff (\<lambda>_. 0) (Some sample_prev) (Some (sample_base sample_prev))) = VerdictFileOnly \<and>
   d_InPlace (Diff (\<lambda>_. 0) (Some sample_prev) (Some (sample_base sample_prev))) = []"
proof -
  have "identified sample_prev" by code_simp
  from Diff_unchanged [OF this sample_setting(3,4), of "\<lambda>_. 0"] show ?thesis
    by (simp add: sample_base_def zeroBaseline_def Let_def)
qed

end
