(* ===== verification/Deploy_Shipped.thy ===== *)
theory Deploy_Shipped
  imports Deploy_Explained
begin

section \<open>The operations reach the render\<close>

text \<open>
  What the composed operations do when they run: the value changes of a server replay to the server
  the render has, an added server is one HAProxy accepts, the keywords it carries are the defaults
  with the server's own on top, and a decision without a reload ships the operations of every server,
  every new or removed backend and every map that changed.
\<close>

subsection \<open>One server\<close>

abbreviation run_server :: "Op list \<Rightarrow> Server \<Rightarrow> Server" where
  "run_server ops s \<equiv> foldl (\<lambda>s x. mutate_one x s) s ops"

text \<open>
  The operations of a changed server replay to it: on the running server they set its address,
  port, weight and administrative state to those of the render and nothing else. Only the comment,
  which HAProxy does not hold, stays the old one. Every operation names the backend and the server.
\<close>

theorem updateServer_replay:
  assumes "updateServer be prev nxt = Inr ops" and "srv_Name prev = srv_Name nxt"
  shows "run_server ops prev = nxt\<lparr>srv_Comment := srv_Comment prev\<rparr> \<and>
    list_all (\<lambda>x. op_Backend x = be_Name be \<and> op_Server x = srv_Name nxt) ops"
proof -
  from assms obtain addr weight where
    same: "srv_GUID prev = srv_GUID nxt" "list_all2 sameKeyword (srv_Extra prev) (srv_Extra nxt)"
    and addr: "addrOps (be_Name be) prev nxt = Inr addr"
    and weight: "weightOps (be_Name be) prev nxt = Inr weight"
    and ops: "ops = addr @ weight @ stateOps be prev nxt"
    by (auto simp: updateServer_def split: if_splits sum.splits)
  from same(2) have extra: "srv_Extra prev = srv_Extra nxt" by (simp add: EqualKeywordArgs_def [symmetric])
  have 1: "run_server addr prev = prev\<lparr>srv_Address := srv_Address nxt, srv_Port := srv_Port nxt\<rparr> \<and>
      list_all (\<lambda>x. op_Backend x = be_Name be \<and> op_Server x = srv_Name nxt) addr"
    using addr by (auto simp: addrOps_def mutate_one_def split: if_splits option.splits)
  have 2: "run_server weight s = s\<lparr>srv_Weight := srv_Weight nxt\<rparr> \<and>
      list_all (\<lambda>x. op_Backend x = be_Name be \<and> op_Server x = srv_Name nxt) weight"
    if "srv_Weight s = srv_Weight prev" for s
    using weight that
    by (auto simp: weightOps_def mutate_one_def sameWeight_def split: if_splits option.splits)
  have 3: "run_server (stateOps be prev nxt) s = s\<lparr>srv_Disabled := srv_Disabled nxt\<rparr> \<and>
      list_all (\<lambda>x. op_Backend x = be_Name be \<and> op_Server x = srv_Name nxt) (stateOps be prev nxt)"
    if "srv_Disabled s = srv_Disabled prev" for s
    using that by (auto simp: stateOps_def mutate_one_def serverEnableOp_def stateMaint_def)
  show ?thesis
    using 1 2 3 assms(2) same(1) extra by (simp add: ops)
qed

theorem updateServer_replay_witness:
  "let prev = \<lparr>srv_Name = ''s1'', srv_Address = ''10.0.0.1'', srv_Port = 80, srv_Weight = None,
       srv_Disabled = False, srv_GUID = [], srv_Comment = ''a'', srv_Extra = []\<rparr>;
     nxt = prev\<lparr>srv_Address := ''10.0.0.2'', srv_Weight := Some 5, srv_Disabled := True, srv_Comment := ''b''\<rparr>;
     be = zeroBackend\<lparr>be_Name := ''be''\<rparr>
   in \<exists>ops. updateServer be prev nxt = Inr ops \<and> length ops = 3 \<and>
        run_server ops prev = nxt\<lparr>srv_Comment := ''a''\<rparr>"
proof -
  define prev where "prev = \<lparr>srv_Name = ''s1'', srv_Address = ''10.0.0.1'', srv_Port = 80, srv_Weight = None,
       srv_Disabled = False, srv_GUID = [], srv_Comment = ''a'', srv_Extra = []\<rparr>"
  define nxt where "nxt = prev\<lparr>srv_Address := ''10.0.0.2'', srv_Weight := Some 5, srv_Disabled := True, srv_Comment := ''b''\<rparr>"
  have "endpointReason ''10.0.0.2'' 80 = None" by code_simp
  then obtain ops where "updateServer (zeroBackend\<lparr>be_Name := ''be''\<rparr>) prev nxt = Inr ops" "length ops = 3"
    by (simp add: updateServer_def addrOps_def weightOps_def stateOps_def sameWeight_def prev_def nxt_def)
  moreover from updateServer_replay [OF this(1)] have "run_server ops prev = nxt\<lparr>srv_Comment := ''a''\<rparr>"
    by (simp add: prev_def nxt_def)
  ultimately show ?thesis by (auto simp: Let_def prev_def nxt_def)
qed

lemma find_replace_keyword:
  "find (\<lambda>k. akw_Name k = n) (replace_keyword r ms) =
     (if akw_Name r = n then Some r else find (\<lambda>k. akw_Name k = n) ms)"
  by (induction r ms rule: replace_keyword.induct) auto

definition to_api :: "KeywordArg \<Rightarrow> ApiKeywordArg" where
  "to_api k = \<lparr>akw_Name = kw_Name k, akw_Args = kw_Args k\<rparr>"

lemma find_apiKeywords:
  "find (\<lambda>k. akw_Name k = n) (apiKeywords ks) = map_option to_api (find (\<lambda>k. kw_Name k = n) ks)"
  by (induction ks) (simp_all add: apiKeywords_def to_api_def)

text \<open>
  A keyword of the merged list is the server's own if it has one, the last one if it has several,
  and the first default of the name otherwise.
\<close>

theorem mergeKeywords_lookup:
  "find (\<lambda>k. akw_Name k = n) (mergeKeywords defaults extra) =
     map_option to_api
       (case find (\<lambda>k. kw_Name k = n) (rev extra) of
          Some k \<Rightarrow> Some k | None \<Rightarrow> find (\<lambda>k. kw_Name k = n) defaults)"
proof (induction extra rule: rev_induct)
  case (snoc k ks)
  then show ?case by (simp add: mergeKeywords_def find_replace_keyword to_api_def)
qed (simp add: mergeKeywords_def find_apiKeywords)

subsection \<open>Adding a server\<close>

text \<open>What \<open>add server\<close> takes from one keyword of a pod's view.\<close>

definition keyword_accepted :: "'a composer_scheme \<Rightarrow> ApiKeywordArg \<Rightarrow> bool" where
  "keyword_accepted c kw \<longleftrightarrow> akw_Name kw \<in> set addServerKeywords \<and>
     (akw_Name kw = keywordInitState \<longrightarrow> ServerInitState (c_caps c)) \<and>
     allSafeTokens (akw_Args kw) \<and> filesLoaded c kw"

lemma ineligible_none:
  "ineligibleKeyword c kws = '''' \<Longrightarrow> \<forall>k\<in>set kws. akw_Name k \<noteq> '''' \<Longrightarrow> k \<in> set kws \<Longrightarrow>
     keyword_accepted c k"
  by (induction kws) (auto simp: keyword_refused_def keyword_accepted_def split: if_splits)

lemma set_replace_keyword: "set (replace_keyword r ms) \<subseteq> insert r (set ms)"
  by (induction r ms rule: replace_keyword.induct) auto

lemma set_mergeKeywords: "set (mergeKeywords defaults extra) \<subseteq> to_api ` (set defaults \<union> set extra)"
proof (induction extra rule: rev_induct)
  case (snoc k ks)
  then show ?case
    using set_replace_keyword [of "to_api k" "mergeKeywords defaults ks"]
    by (auto simp: mergeKeywords_def to_api_def)
qed (auto simp: mergeKeywords_def apiKeywords_def to_api_def)

lemma withRuntimeKeywords_set:
  "set (withRuntimeKeywords c kws srv) \<subseteq> set kws \<union>
     {\<lparr>akw_Name = keywordWeight, akw_Args = [Itoa w]\<rparr> | w. srv_Weight srv = Some w} \<union>
     {\<lparr>akw_Name = keywordGUID, akw_Args = [srv_GUID srv]\<rparr> | _::unit. srv_GUID srv \<noteq> ''''} \<union>
     {\<lparr>akw_Name = keywordInitState, akw_Args = [''up'']\<rparr> | _::unit. ServerInitState (c_caps c)}"
  by (auto simp: withRuntimeKeywords_def Let_def split: option.splits if_splits)

text \<open>
  A server is added only when HAProxy takes it: the worker has dynamic servers and a balance that
  accepts them, the name is a safe token, the address is an IP and the port a port, and every keyword
  of the record is one of \<open>add server\<close> with safe arguments whose file the worker holds. The keywords
  added beside the record are the weight, the GUID and, where HAProxy has it, the initial state. The
  record's keywords must have names: one without a name ends the check early.
\<close>

theorem addServer_accepted:
  assumes "addServer c be srv = Inr ops"
    and "\<forall>k\<in>set (be_DefaultServer be) \<union> set (srv_Extra srv). kw_Name k \<noteq> ''''"
  shows "DynamicServers (c_caps c) \<and> dynamicBalance (be_Balance be) (be_HashType be) \<and>
    SafeToken (srv_Name srv) \<and> ParseIP_ok (srv_Address srv) \<and> 1 \<le> srv_Port srv \<and> srv_Port srv \<le> 65535 \<and>
    (\<exists>kws. hd ops = serverAddOp be srv kws \<and>
      (\<forall>k\<in>set kws. keyword_accepted c k \<or>
         k = \<lparr>akw_Name = keywordGUID, akw_Args = [srv_GUID srv]\<rparr> \<or>
         (\<exists>w. srv_Weight srv = Some w \<and> k = \<lparr>akw_Name = keywordWeight, akw_Args = [Itoa w]\<rparr>))) \<and>
    length ops = (if srv_Disabled srv then 1 else 2)"
proof -
  let ?merged = "mergeKeywords (be_DefaultServer be) (srv_Extra srv)"
  let ?kws = "withRuntimeKeywords c ?merged srv"
  from assms(1) have guards: "DynamicServers (c_caps c)" "dynamicBalance (be_Balance be) (be_HashType be)"
    "SafeToken (srv_Name srv)" "endpointReason (srv_Address srv) (srv_Port srv) = None"
    and bad: "ineligibleKeyword c ?merged = ''''"
    and ops: "hd ops = serverAddOp be srv ?kws" "length ops = (if srv_Disabled srv then 1 else 2)"
    by (auto simp: addServer_def Let_def split: if_splits option.splits)
  have "\<forall>k\<in>set ?merged. akw_Name k \<noteq> ''''"
    using set_mergeKeywords [of "be_DefaultServer be" "srv_Extra srv"] assms(2)
    by (auto simp: to_api_def)
  from ineligible_none [OF bad this] have merged: "\<forall>k\<in>set ?merged. keyword_accepted c k" by blast
  have init: "keyword_accepted c \<lparr>akw_Name = keywordInitState, akw_Args = [''up'']\<rparr>"
    if "ServerInitState (c_caps c)"
    using that
    by (simp add: keyword_accepted_def addServerKeywords_def go_simps filesLoaded_def allSafeTokens_def
        SafeToken_def unsafeRunes_def)
  have "\<forall>k\<in>set ?kws. keyword_accepted c k \<or>
      k = \<lparr>akw_Name = keywordGUID, akw_Args = [srv_GUID srv]\<rparr> \<or>
      (\<exists>w. srv_Weight srv = Some w \<and> k = \<lparr>akw_Name = keywordWeight, akw_Args = [Itoa w]\<rparr>)"
    using withRuntimeKeywords_set [of c ?merged srv] merged init by blast
  with guards ops show ?thesis
    by (auto simp: endpointReason_def split: if_splits)
qed

definition sample_composer :: composer where
  "sample_composer = \<lparr>c_caps = CapsFor ''3.4.0'' [], c_inventory = emptyInventory, c_created = [],
     c_certDir = [], c_pendingServerDeletes = 0, c_pendingBackendDeletes = 0\<rparr>"

theorem addServer_accepted_witness:
  "\<exists>ops. addServer sample_composer zeroBackend (sample_server ''s1'') = Inr ops \<and> length ops = 2"
proof -
  have "(case addServer sample_composer zeroBackend (sample_server ''s1'') of Inr _ \<Rightarrow> True | Inl _ \<Rightarrow> False)"
    by code_simp
  then obtain ops where ops: "addServer sample_composer zeroBackend (sample_server ''s1'') = Inr ops"
    by (cases "addServer sample_composer zeroBackend (sample_server ''s1'')") auto
  have "\<forall>k\<in>set (be_DefaultServer zeroBackend) \<union> set (srv_Extra (sample_server ''s1'')). kw_Name k \<noteq> ''''"
    by (simp add: zeroBackend_def sample_server_def)
  from addServer_accepted [OF ops this] have "length ops = 2" by (simp add: sample_server_def)
  with ops show ?thesis by blast
qed


subsection \<open>Nothing that changed is left out\<close>

lemma set_orderedOps: "set (orderedOps b) = (\<Union>g. set (b_groups b g))"
proof -
  have "set opGroups = UNIV"
  proof (rule set_eqI)
    show "g \<in> set opGroups \<longleftrightarrow> g \<in> UNIV" for g by (cases g) (simp_all add: opGroups_def)
  qed
  then show ?thesis by (simp add: orderedOps_def)
qed

lemma kept_ships: "kept a b \<Longrightarrow> set (b_groups a g) \<subseteq> set (orderedOps b)"
  by (auto simp: kept_def set_orderedOps)

text \<open>The operations of a decision without a reload are all those the rules pushed.\<close>

lemma no_reload_ops:
  assumes "d_Verdict (DiffIndexed sum64 (Some nxt) ni (Some base)) \<noteq> VerdictReload"
    and "own_index ni nxt" and "bl_Applied base = Some prev" and "own_index (bl_AppliedIndex base) prev"
  shows "d_Ops (DiffIndexed sum64 (Some nxt) ni (Some base)) =
    orderedOps (diffAll (planctx prev nxt) (newBuilder nxt base))"
proof -
  let ?d = "DiffIndexed sum64 (Some nxt) ni (Some base)"
  obtain verdict where d: "?d =
      decide sum64 verdict base nxt (IndexPlan nxt) (runRules nxt (IndexPlan nxt) base)"
    using DiffIndexed_decide [of sum64 nxt ni "Some base"] assms(2)
    by (auto simp: baseline_or_zero_def own_index_def)
  have run: "runRules nxt (IndexPlan nxt) base = diffAll (planctx prev nxt) (newBuilder nxt base)"
    by (rule runRules_usable [OF assms(3) no_reload_setting(2) [OF assms] assms(4)])
  from assms(1) show ?thesis
    by (rule contrapos_np) (rule decide_cases [OF d [symmetric]], simp add: run split: if_splits)
qed

lemma pushServer_ships:
  assumes "\<not> b_reload (pushServer g backend server res b)" and "kept (pushServer g backend server res b) b'"
  obtains ops where "res = Inr ops" and "set ops \<subseteq> set (orderedOps b')"
proof (cases res)
  case (Inr ops)
  with assms(2) have "kept (push g ops b) b'" by (simp add: pushServer_def)
  from kept_ships [OF this, of g] have "set ops \<subseteq> set (orderedOps b')" by (auto simp: push_def)
  with Inr show thesis by (rule that)
qed (use assms(1) in \<open>simp add: pushServer_def\<close>)

lemma diffServers_ships:
  assumes "\<not> b_reload (diffServers old be b)" and "kept (diffServers old be b) b'"
  shows "srv \<in> set (be_Servers be) \<Longrightarrow> \<exists>c ops. c_caps c = c_caps b \<and> c_inventory c = c_inventory b \<and>
      (case serverIndex (be_Servers old) (srv_Name srv) of
         Some o' \<Rightarrow> updateServer be o' srv | None \<Rightarrow> addServer (c :: builder) be srv) = Inr ops \<and>
      set ops \<subseteq> set (orderedOps b')"
    and "srv \<in> set (be_Servers old) \<Longrightarrow> serverIndex (be_Servers be) (srv_Name srv) = None \<Longrightarrow>
      set (drainOps (be_Name old) (srv_Name srv)) \<subseteq> set (orderedOps b')"
proof -
  let ?upd = "diffServer be (serverIndex (be_Servers old))"
  let ?rem = "diffRemovedServer old (serverIndex (be_Servers be))"
  have last: "\<not> b_reload (foldl ?rem (foldl ?upd b (be_Servers be)) (be_Servers old))"
    and all: "kept (foldl ?rem (foldl ?upd b (be_Servers be)) (be_Servers old)) b'"
    using assms by (simp_all add: diffServers_def)
  note first = two_folds_no_reload [OF last keeps.diffRemovedServer_R]
  show "\<exists>c ops. c_caps c = c_caps b \<and> c_inventory c = c_inventory b \<and>
      (case serverIndex (be_Servers old) (srv_Name srv) of
         Some o' \<Rightarrow> updateServer be o' srv | None \<Rightarrow> addServer (c :: builder) be srv) = Inr ops \<and>
      set ops \<subseteq> set (orderedOps b')" if srv: "srv \<in> set (be_Servers be)"
  proof -
    from foldl_no_reload [OF first(1) srv keeps.diffServer_R] obtain c where
      c: "kept b c" "\<not> b_reload (?upd c srv)" "kept (?upd c srv) (foldl ?upd b (be_Servers be))" by blast
    have k: "kept (?upd c srv) b'" by (rule keeps.trans [OF c(3) keeps.trans [OF first(2) all]])
    obtain ops where "(case serverIndex (be_Servers old) (srv_Name srv) of
         Some o' \<Rightarrow> updateServer be o' srv | None \<Rightarrow> addServer c be srv) = Inr ops"
      and "set ops \<subseteq> set (orderedOps b')"
      by (rule pushServer_ships [OF c(2) [unfolded diffServer_def] k [unfolded diffServer_def]])
    with c(1) show ?thesis by (auto simp: kept_def)
  qed
  show "set (drainOps (be_Name old) (srv_Name srv)) \<subseteq> set (orderedOps b')"
    if srv: "srv \<in> set (be_Servers old)" and gone: "serverIndex (be_Servers be) (srv_Name srv) = None"
  proof -
    from foldl_no_reload [OF last srv keeps.diffRemovedServer_R] obtain c where
      c: "\<not> b_reload (?rem c srv)" "kept (?rem c srv) b'"
      using all keeps.trans by metis
    obtain c' res where rem: "removeServer c (be_Name old) srv = (c', res)" by fastforce
    with c gone have "\<not> b_reload (pushServer groupServerDel (be_Name old) (srv_Name srv) res c')"
      and "kept (pushServer groupServerDel (be_Name old) (srv_Name srv) res c') b'"
      by (simp_all add: diffRemovedServer_def)
    then obtain ops where "res = Inr ops" "set ops \<subseteq> set (orderedOps b')" by (rule pushServer_ships)
    with rem show ?thesis by (auto simp: removeServer_def split: if_splits)
  qed
qed

lemma diffBackend_ships:
  assumes "\<not> b_reload (diffBackend (planctx prev nxt) b (backend_entry nxt sec))"
    and "sec \<in> set (backend_sections nxt)"
    and "described prev (sec_Name sec) = Some old" and "described nxt (sec_Name sec) = Some be"
    and "\<not> sameBackendRecord old be"
  obtains c where "diffBackend (planctx prev nxt) b (backend_entry nxt sec) = diffServers old be c"
    and "kept b c"
proof -
  have be: "bk_record (backend_entry nxt sec) = Some be" "bk_name (backend_entry nxt sec) = sec_Name sec"
    using assms(2,4) by (simp_all add: described_entry backend_entry_def)
  obtain e where "Index_backend (IndexPlan prev) (sec_Name sec) = Some e" "bk_record e = Some old"
    using described_index [of prev "sec_Name sec"] assms(3) by (auto split: option.splits)
  then have "diffBackend (planctx prev nxt) b (backend_entry nxt sec) =
      backendChanged old be (sameSectionText (Some (bk_section e)) (Some (bk_section (backend_entry nxt sec))))
        (b\<lparr>b_sectionChange := b_sectionChange b \<or>
           \<not> sameSectionText (Some (bk_section e)) (Some (bk_section (backend_entry nxt sec)))\<rparr>)"
    by (simp add: diffBackend_def be Let_def)
  with assms(1,5) show thesis
    by (intro that [OF _ keeps.sect]) (auto simp: backendChanged_def split: if_splits)
qed

text \<open>
  C6. A decision without a reload leaves out no server change: for a backend whose record changed it
  ships the value changes of every server both plans have, the \<open>add server\<close> of every new one and the
  disable, wait and delete of every one that goes away.
\<close>

theorem no_reload_ships_servers:
  assumes "d_Verdict (DiffIndexed sum64 (Some nxt) ni (Some base)) \<noteq> VerdictReload"
    and "own_index ni nxt" and "bl_Applied base = Some prev" and "own_index (bl_AppliedIndex base) prev"
    and "sec \<in> set (backend_sections nxt)"
    and "described prev (sec_Name sec) = Some old" and "described nxt (sec_Name sec) = Some be"
    and "\<not> sameBackendRecord old be"
  shows "(\<forall>srv\<in>set (be_Servers be). \<exists>c ops. c_caps c = bl_Caps base \<and> c_inventory c = bl_Inventory base \<and>
      (case serverIndex (be_Servers old) (srv_Name srv) of
         Some o' \<Rightarrow> updateServer be o' srv | None \<Rightarrow> addServer (c :: builder) be srv) = Inr ops \<and>
      set ops \<subseteq> set (d_Ops (DiffIndexed sum64 (Some nxt) ni (Some base)))) \<and>
    (\<forall>srv\<in>set (be_Servers old). serverIndex (be_Servers be) (srv_Name srv) = None \<longrightarrow>
      set (drainOps (be_Name old) (srv_Name srv)) \<subseteq> set (d_Ops (DiffIndexed sum64 (Some nxt) ni (Some base))))"
proof -
  let ?dc = "planctx prev nxt" and ?b = "newBuilder nxt base"
  let ?ns = "map (backend_entry nxt) (backend_sections nxt)" and ?ps = "map (backend_entry prev) (backend_sections prev)"
  from no_reload_setting(1) [OF assms(1-4)] obtain b where
    b: "kept ?b b" "\<not> b_reload (diffBackends ?dc b)" "kept (diffBackends ?dc b) (diffAll ?dc ?b)"
    by (rule diffAll_no_reload)
  have last: "\<not> b_reload (foldl (diffRemovedBackend ?dc) (foldl (diffBackend ?dc) b ?ns) ?ps)"
    and all: "kept (foldl (diffRemovedBackend ?dc) (foldl (diffBackend ?dc) b ?ns) ?ps) (diffAll ?dc ?b)"
    using b(2,3) by (simp_all add: diffBackends_def IndexPlan_backends)
  note first = two_folds_no_reload [OF last keeps.diffRemovedBackend_R]
  have "backend_entry nxt sec \<in> set ?ns" using assms(5) by simp
  from foldl_no_reload [OF first(1) this keeps.diffBackend_R] obtain c where
    c: "kept b c" "\<not> b_reload (diffBackend ?dc c (backend_entry nxt sec))"
      "kept (diffBackend ?dc c (backend_entry nxt sec)) (foldl (diffBackend ?dc) b ?ns)" by blast
  obtain c' where c': "diffBackend ?dc c (backend_entry nxt sec) = diffServers old be c'" "kept c c'"
    by (rule diffBackend_ships [OF c(2) assms(5-8)])
  have ships: "kept (diffServers old be c') (diffAll ?dc ?b)"
    using keeps.trans [OF c(3) keeps.trans [OF first(2) all]] by (simp add: c'(1))
  have caps: "c_caps c' = bl_Caps base \<and> c_inventory c' = bl_Inventory base"
    using keeps.trans [OF b(1) keeps.trans [OF c(1) c'(2)]] by (simp add: kept_def newBuilder_def)
  from diffServers_ships [OF _ ships] c(2) show ?thesis
    unfolding no_reload_ops [OF assms(1-4)] c'(1) by (simp only: caps) blast
qed

theorem no_reload_ships_servers_witness:
  "set (drainOps ''web'' ''s1'') \<subseteq>
     set (d_Ops (DiffIndexed (\<lambda>_. 0) (Some sample_next) None (Some (sample_base sample_prev))))"
proof -
  let ?sec = "sample_section SectionKindBackend ''web'' ''b''"
  let ?be = "\<lambda>s. zeroBackend\<lparr>be_Name := ''web'', be_Servers := [sample_server s], be_ContentKnown := True,
    be_Shape := ShapeDynamic\<rparr>"
  have "?sec \<in> set (backend_sections sample_next)"
    by (simp add: backend_sections_def sample_plan_def sample_section_def)
  moreover have "described sample_prev (sec_Name ?sec) = Some (?be ''s1'')"
    and "described sample_next (sec_Name ?sec) = Some (?be ''s2'')"
    by (simp_all add: described_def backend_sections_def sample_plan_def sample_section_def)
  moreover have "\<not> sameBackendRecord (?be ''s1'') (?be ''s2'')"
    by (simp add: sameBackendRecord_def EqualRecord_def sample_server_def)
  ultimately have "\<forall>srv\<in>set (be_Servers (?be ''s1'')). serverIndex (be_Servers (?be ''s2'')) (srv_Name srv) = None \<longrightarrow>
      set (drainOps (be_Name (?be ''s1'')) (srv_Name srv)) \<subseteq>
        set (d_Ops (DiffIndexed (\<lambda>_. 0) (Some sample_next) None (Some (sample_base sample_prev))))"
    using no_reload_ships_servers [OF sample_setting] by blast
  then show ?thesis by (simp add: sample_server_def serverIndex_def index_by_def)
qed

end
