(* ===== verification/Map_Entries.thy ===== *)
theory Map_Entries
  imports Render_Plan Go_Std
begin

section \<open>Parsing map files\<close>

text \<open>
  \<open>src/pkg/dataplane/renderplan/mapentries.go\<close>: the entries of a rendered map file
  (\<open>ParseMapEntries\<close>), the same with the position of every entry (\<open>ParseMapEntriesIndexed\<close>), the
  incremental parse of the next version of the text (\<open>Reparse\<close>) and the comparison that builds no
  list (\<open>MapEntriesMatch\<close>). Positions are byte offsets, \<open>int\<close> as in the source. A loop over offsets
  into the text is a recursion on the text from the offset on. The nil slice of entries is \<open>None\<close>
  where the source tells it from an empty one.
\<close>

subsection \<open>Lines\<close>

abbreviation newline :: char where "newline \<equiv> CHR 0x0A"

fun IndexAny :: "string \<Rightarrow> string \<Rightarrow> nat option" where
  "IndexAny [] chars = None"
| "IndexAny (c # s) chars = (if c \<in> set chars then Some 0 else map_option Suc (IndexAny s chars))"

text \<open>The key and value of a trimmed line, and the offset of the value's field in it.\<close>

definition splitEntry :: "string \<Rightarrow> string \<times> string \<times> nat option" where
  "splitEntry trimmed =
     (case IndexAny trimmed [CHR '' '', CHR 0x09] of
        None \<Rightarrow> (trimmed, '''', None)
      | Some i \<Rightarrow> (take i trimmed, TrimSpace (drop (Suc i) trimmed), Some (Suc i)))"

definition skipLine :: "string \<Rightarrow> bool" where
  "skipLine trimmed \<longleftrightarrow> trimmed = '''' \<or> HasPrefix trimmed ''#''"

text \<open>\<open>strings.Split(content, "\n")\<close>.\<close>

fun SplitLines :: "string \<Rightarrow> string list" where
  "SplitLines [] = [[]]"
| "SplitLines (c # s) =
     (if c = newline then [] # SplitLines s
      else case SplitLines s of [] \<Rightarrow> [[c]] | l # ls \<Rightarrow> (c # l) # ls)"

definition parseEntries :: "string list \<Rightarrow> Entry list" where
  "parseEntries lines =
     concat (map (\<lambda>line.
       let trimmed = TrimSpace line in
       if skipLine trimmed then []
       else case splitEntry trimmed of (key, value, _) \<Rightarrow> [\<lparr>ent_Key = key, ent_Value = value\<rparr>]) lines)"

text \<open>The result is \<open>None\<close> for the nil slice the source returns when there is no entry.\<close>

definition ParseMapEntries :: "string \<Rightarrow> Entry list option" where
  "ParseMapEntries content =
     (if content = '''' then None
      else let entries = parseEntries (SplitLines content)
           in if length entries = 0 then None else Some entries)"

subsection \<open>Entries with their positions\<close>

record entrySpan =
  es_line :: int
  es_key :: int
  es_value :: int

record ParsedMapEntries =
  pm_Content :: string
  pm_Entries :: "Entry list"
  pm_spans :: "entrySpan list"

definition index_of :: "string \<Rightarrow> string \<Rightarrow> nat" where
  "index_of s sub = the (Go_Std.Index s sub)"

text \<open>One line at an offset: its entry and where the entry is, or nothing.\<close>

definition parseLine :: "int \<Rightarrow> string \<Rightarrow> (Entry \<times> entrySpan) list" where
  "parseLine at line =
     (let trimmed = TrimSpace line in
      if skipLine trimmed then []
      else let lead = index_of line trimmed in
        case splitEntry trimmed of (key, value, field) \<Rightarrow>
          [(\<lparr>ent_Key = key, ent_Value = value\<rparr>,
            \<lparr>es_line = at, es_key = at + int lead,
             es_value = at + (case field of None \<Rightarrow> 0
                | Some f \<Rightarrow> int (lead + f + index_of (drop f trimmed) value))\<rparr>)])"

function parseMapLines ::
  "string \<Rightarrow> int \<Rightarrow> Entry list \<Rightarrow> entrySpan list \<Rightarrow> Entry list \<times> entrySpan list" where
  "parseMapLines rest at entries spans =
     (let line = (case IndexByte rest newline of None \<Rightarrow> rest | Some end \<Rightarrow> take end rest);
          entries' = entries @ map fst (parseLine at line);
          spans' = spans @ map snd (parseLine at line)
      in case IndexByte rest newline of
           None \<Rightarrow> (entries', spans')
         | Some end \<Rightarrow> parseMapLines (drop (Suc end) rest) (at + int (Suc end)) entries' spans')"
  by pat_completeness auto
termination
  by (relation "measure (\<lambda>(rest, _). length rest)") (auto dest: IndexByte_SomeD)

declare parseMapLines.simps [simp del]

definition ParseMapEntriesIndexed :: "string \<Rightarrow> ParsedMapEntries" where
  "ParseMapEntriesIndexed content =
     (case parseMapLines content 0 [] [] of (entries, spans) \<Rightarrow>
        \<lparr>pm_Content = content, pm_Entries = entries, pm_spans = spans\<rparr>)"

subsection \<open>The incremental parse\<close>

fun commonPrefixLen :: "string \<Rightarrow> string \<Rightarrow> nat" where
  "commonPrefixLen (a # left) (b # right) = (if a = b then Suc (commonPrefixLen left right) else 0)"
| "commonPrefixLen left right = 0"

definition commonSuffixLen :: "string \<Rightarrow> string \<Rightarrow> nat" where
  "commonSuffixLen left right = commonPrefixLen (rev left) (rev right)"

text \<open>\<open>strings.LastIndexByte(s, c) + 1\<close>: 0 when the byte does not occur.\<close>

definition afterLast :: "string \<Rightarrow> char \<Rightarrow> nat" where
  "afterLast s c = (case IndexByte (rev s) c of None \<Rightarrow> 0 | Some i \<Rightarrow> length s - i)"

definition slice :: "string \<Rightarrow> int \<Rightarrow> nat \<Rightarrow> string" where
  "slice s at n = take n (drop (nat at) s)"

definition shiftSpan :: "int \<Rightarrow> entrySpan \<Rightarrow> entrySpan" where
  "shiftSpan delta s = \<lparr>es_line = es_line s + delta, es_key = es_key s + delta, es_value = es_value s + delta\<rparr>"

definition carryEntry :: "string \<Rightarrow> entrySpan \<Rightarrow> Entry \<Rightarrow> Entry" where
  "carryEntry content span e =
     \<lparr>ent_Key = slice content (es_key span) (length (ent_Key e)),
      ent_Value = (if ent_Value e \<noteq> '''' then slice content (es_value span) (length (ent_Value e)) else '''')\<rparr>"

definition carryMapEntries ::
  "string \<Rightarrow> Entry list \<Rightarrow> entrySpan list \<Rightarrow> int \<Rightarrow> Entry list \<Rightarrow> entrySpan list \<Rightarrow> Entry list \<times> entrySpan list"
  where
  "carryMapEntries content carried spans delta entries out =
     (entries @ map2 (carryEntry content) (map (shiftSpan delta) (take (length carried) spans)) carried,
      out @ map (shiftSpan delta) (take (length carried) spans))"

text \<open>
  The line boundaries around what changed: the end of the unchanged head, and the start of the
  unchanged tail in the old and in the new text.
\<close>

definition reparseCuts :: "string \<Rightarrow> string \<Rightarrow> nat \<times> nat \<times> nat" where
  "reparseCuts previous content =
     (let prefix = afterLast (take (commonPrefixLen previous content) previous) newline;
          suffix = commonSuffixLen (drop prefix previous) (drop prefix content);
          at = length previous - suffix;
          oldTail = (case IndexByte (drop at previous) newline of
                       None \<Rightarrow> length previous | Some n \<Rightarrow> at + n + 1);
          newTail = length content - (length previous - oldTail)
      in (prefix, oldTail, newTail))"

definition Reparse :: "ParsedMapEntries \<Rightarrow> string \<Rightarrow> ParsedMapEntries" where
  "Reparse p content =
     (if content = pm_Content p then p
      else if length (pm_Entries p) = 0 then ParseMapEntriesIndexed content
      else
        (let (prefix, oldTail, newTail) = reparseCuts (pm_Content p) content;
             head = length (takeWhile (\<lambda>s. es_line s < int prefix) (pm_spans p));
             tail = max head (length (pm_Entries p) -
                      length (takeWhile (\<lambda>s. es_line s \<ge> int oldTail) (rev (pm_spans p))));
             delta = int newTail - int oldTail;
             (e1, s1) = carryMapEntries content (take head (pm_Entries p)) (take head (pm_spans p)) 0 [] [];
             (e2, s2) = parseMapLines (take (newTail - prefix) (drop prefix content)) (int prefix) e1 s1;
             (e3, s3) = carryMapEntries content (drop tail (pm_Entries p)) (drop tail (pm_spans p)) delta e2 s2
         in \<lparr>pm_Content = content, pm_Entries = e3, pm_spans = s3\<rparr>))"

subsection \<open>Comparing without building a list\<close>

text \<open>The loop of \<open>MapEntriesMatch\<close>: \<open>None\<close> is the early \<open>return false\<close>.\<close>

function matchLines :: "string \<Rightarrow> Entry list \<Rightarrow> nat \<Rightarrow> nat option" where
  "matchLines rest entries nxt =
     (let line = (case IndexByte rest newline of None \<Rightarrow> rest | Some end \<Rightarrow> take end rest);
          trimmed = TrimSpace line;
          step = (if skipLine trimmed then Some nxt
                  else case splitEntry trimmed of (key, value, _) \<Rightarrow>
                    if nxt \<ge> length entries \<or> ent_Key (entries ! nxt) \<noteq> key \<or> ent_Value (entries ! nxt) \<noteq> value
                    then None else Some (Suc nxt))
      in case step of None \<Rightarrow> None
         | Some n \<Rightarrow>
             (case IndexByte rest newline of
                None \<Rightarrow> Some n
              | Some end \<Rightarrow> matchLines (drop (Suc end) rest) entries n))"
  by pat_completeness auto
termination
  by (relation "measure (\<lambda>(rest, _). length rest)") (auto dest: IndexByte_SomeD)

declare matchLines.simps [simp del]

definition MapEntriesMatch :: "string \<Rightarrow> Entry list option \<Rightarrow> bool" where
  "MapEntriesMatch content entries =
     (if content = '''' then entries = None
      else let es = (case entries of None \<Rightarrow> [] | Some es \<Rightarrow> es) in
        case matchLines content es 0 of
          None \<Rightarrow> False
        | Some n \<Rightarrow> n = length es \<and> (n > 0 \<or> entries = None))"

subsection \<open>Parsing is line by line\<close>

fun posed :: "string list \<Rightarrow> int \<Rightarrow> (Entry \<times> entrySpan) list" where
  "posed [] at = []"
| "posed (l # ls) at = parseLine at l @ posed ls (at + int (Suc (length l)))"

definition parse :: "string \<Rightarrow> int \<Rightarrow> (Entry \<times> entrySpan) list" where
  "parse s at = posed (SplitLines s) at"

lemma SplitLines_nonempty [simp]: "SplitLines s \<noteq> []"
  by (induction s) (auto split: list.splits)

lemma SplitLines_unfold:
  "SplitLines s = (case IndexByte s newline of
     None \<Rightarrow> [s] | Some e \<Rightarrow> take e s # SplitLines (drop (Suc e) s))"
  by (induction s) (auto split: option.splits list.splits)

lemma SplitLines_append: "SplitLines (xs @ newline # ys) = SplitLines xs @ SplitLines ys"
  by (induction xs) (auto split: list.splits)

lemma sum_SplitLines: "sum_list (map (\<lambda>l. Suc (length l)) (SplitLines s)) = Suc (length s)"
  by (induction s) (auto split: list.splits)

lemma posed_append:
  "posed (ls @ ms) at = posed ls at @ posed ms (at + int (sum_list (map (\<lambda>l. Suc (length l)) ls)))"
  by (induction ls arbitrary: at) (simp_all add: algebra_simps)

lemma parseMapLines_eq:
  "parseMapLines s at es ss = (es @ map fst (parse s at), ss @ map snd (parse s at))"
proof (induction s at es ss rule: parseMapLines.induct)
  case (1 s at es ss)
  show ?case
  proof (cases "IndexByte s newline")
    case None
    then show ?thesis by (subst parseMapLines.simps) (simp add: parse_def SplitLines_unfold [of s])
  next
    case (Some e)
    from IndexByte_SomeD [OF this] have "length (take e s) = e" by simp
    with Some 1 [OF _ _ _ Some] show ?thesis
      by (subst parseMapLines.simps) (simp add: parse_def SplitLines_unfold [of s] Let_def algebra_simps)
  qed
qed

lemma TrimSpace_Nil [simp]: "TrimSpace [] = []"
  using set_TrimSpace [of "[]"] by simp

lemma parseLine_Nil [simp]: "parseLine at [] = []"
  by (simp add: parseLine_def skipLine_def)

lemma parse_Nil [simp]: "parse [] at = []"
  by (simp add: parse_def)

text \<open>A boundary between lines: the text before it is empty or ends with a newline.\<close>

definition line_end :: "string \<Rightarrow> bool" where
  "line_end s \<longleftrightarrow> s = [] \<or> last s = newline"

lemma parse_append:
  assumes "line_end s"
  shows "parse (s @ t) at = parse s at @ parse t (at + int (length s))"
proof (cases "s = []")
  case False
  with assms have s: "s = butlast s @ [newline]" by (metis append_butlast_last_id line_end_def)
  let ?xs = "butlast s"
  have "parse (?xs @ newline # t) at = posed (SplitLines ?xs) at @ parse t (at + int (Suc (length ?xs)))"
    by (simp add: parse_def SplitLines_append posed_append sum_SplitLines)
  moreover have "parse (?xs @ [newline]) at = posed (SplitLines ?xs) at"
    by (simp add: parse_def SplitLines_append posed_append)
  moreover have "length s = Suc (length ?xs)" using False by simp
  ultimately show ?thesis by (metis s append.assoc append_Cons append_Nil)
qed simp

lemma parseLine_shift: "parseLine (at + d) l = map (map_prod id (shiftSpan d)) (parseLine at l)"
  by (simp add: parseLine_def shiftSpan_def Let_def split: prod.splits)

lemma posed_shift: "posed ls (at + d) = map (map_prod id (shiftSpan d)) (posed ls at)"
proof (induction ls arbitrary: at)
  case (Cons l ls)
  have "at + d + int (Suc (length l)) = at + int (Suc (length l)) + d" by simp
  then show ?case using Cons by (simp only: posed.simps map_append parseLine_shift)
qed simp

lemma parse_shift: "parse s (at + d) = map (map_prod id (shiftSpan d)) (parse s at)"
  unfolding parse_def by (rule posed_shift)

lemma parseLine_mem:
  assumes "(e, sp) \<in> set (parseLine at l)"
  shows "es_line sp = at" and "l \<noteq> []"
  using assms by (auto simp: parseLine_def skipLine_def Let_def split: if_splits prod.splits)

lemma posed_bounds:
  "(e, sp) \<in> set (posed ls at) \<Longrightarrow>
     at \<le> es_line sp \<and> es_line sp + 1 < at + int (sum_list (map (\<lambda>l. Suc (length l)) ls))"
proof (induction ls arbitrary: at)
  case (Cons l ls)
  show ?case
  proof (cases "(e, sp) \<in> set (parseLine at l)")
    case True
    from parseLine_mem [OF this] show ?thesis by (cases l) auto
  next
    case False
    with Cons.prems Cons.IH [of "at + int (Suc (length l))"] show ?thesis by auto
  qed
qed simp

lemma parse_bounds:
  "(e, sp) \<in> set (parse s at) \<Longrightarrow> at \<le> es_line sp \<and> es_line sp < at + int (length s)"
  using posed_bounds [of e sp "SplitLines s" at] by (simp add: parse_def sum_SplitLines)

subsection \<open>Entries are the text at their positions\<close>

definition located :: "string \<Rightarrow> Entry \<times> entrySpan \<Rightarrow> bool" where
  "located content = (\<lambda>(e, sp). carryEntry content sp e = e)"

lemma slice_append:
  assumes "take n (drop i l) = x" and "length x = n" and "i + n \<le> length l"
  shows "slice (pre @ l @ post) (int (length pre) + int i) n = x"
  using assms by (simp add: slice_def nat_add_distrib)

lemma index_of_found:
  assumes "\<exists>m n. sub = take n (drop m s)"
  shows "take (length sub) (drop (index_of s sub) s) = sub" and "index_of s sub + length sub \<le> length s"
proof -
  from assms obtain m n where sub: "sub = take n (drop m s)" by blast
  then have "take (length sub) (drop m s) = sub" by (simp add: min_def)
  from Index_finds [OF this HOL.refl] obtain i where "Go_Std.Index s sub = Some i" by blast
  with Index_SomeD [OF this] show "take (length sub) (drop (index_of s sub) s) = sub"
    and "index_of s sub + length sub \<le> length s" by (simp_all add: index_of_def)
qed

lemma sub_slice:
  assumes "take n (drop a l) = t" and "length t = n"
    and "take k (drop b t) = x" and "b + k \<le> n"
  shows "take k (drop (a + b) l) = x"
proof -
  have "drop b t = take (n - b) (drop (a + b) l)"
    using assms(1) by (metis add.commute drop_drop drop_take)
  with assms(3,4) show ?thesis by (simp add: take_take min_def split: if_splits)
qed

lemma IndexAny_less: "IndexAny s cs = Some i \<Longrightarrow> i < length s"
  by (induction s arbitrary: i) (auto split: if_splits)

lemma parseLine_located:
  assumes "x \<in> set (parseLine (int (length pre)) l)"
  shows "located (pre @ l @ post) x"
proof -
  let ?t = "TrimSpace l"
  let ?lead = "index_of l ?t"
  note lead = index_of_found [OF TrimSpace_infix [of l]]
  show ?thesis
  proof (cases "IndexAny ?t [CHR '' '', CHR 0x09]")
    case None
    with assms lead show ?thesis
      by (auto simp: parseLine_def splitEntry_def located_def carryEntry_def slice_append Let_def
          split: if_splits)
  next
    case (Some i)
    let ?f = "Suc i"
    let ?v = "TrimSpace (drop ?f ?t)"
    let ?j = "index_of (drop ?f ?t) ?v"
    note i = IndexAny_less [OF Some]
    have key: "slice (pre @ l @ post) (int (length pre) + int ?lead) i = take i ?t"
      by (rule slice_append [OF sub_slice [OF lead(1) HOL.refl, of i 0, simplified]])
         (use i lead(2) in auto)
    note v = index_of_found [OF TrimSpace_infix [of "drop ?f ?t"]]
    have "take (length ?v) (drop (?f + ?j) ?t) = ?v" using v(1) by (simp add: add.commute)
    moreover have "?f + ?j + length ?v \<le> length ?t" using v(2) i by simp
    ultimately have "slice (pre @ l @ post) (int (length pre) + int (?lead + (?f + ?j))) (length ?v) = ?v"
      using lead(2)
      by (intro slice_append [OF sub_slice [OF lead(1) HOL.refl]]) auto
    with assms Some key i show ?thesis
      by (auto simp: parseLine_def splitEntry_def located_def carryEntry_def Let_def algebra_simps
          split: if_splits)
  qed
qed

lemma parse_step:
  "IndexByte s newline = Some e \<Longrightarrow>
     parse s at = parseLine at (take e s) @ parse (drop (Suc e) s) (at + int (Suc e))"
  using IndexByte_SomeD [of s newline e] by (simp add: parse_def SplitLines_unfold [of s])

lemma parse_located:
  "x \<in> set (parse s (int (length pre))) \<Longrightarrow> located (pre @ s @ post) x"
proof (induction "length s" arbitrary: s pre rule: less_induct)
  case less
  show ?case
  proof (cases "IndexByte s newline")
    case None
    then have "parse s at = parseLine at s" for at by (simp add: parse_def SplitLines_unfold [of s])
    with less.prems show ?thesis by (simp add: parseLine_located)
  next
    case (Some e)
    note e = IndexByte_SomeD [OF Some]
    have split: "s = take e s @ newline # drop (Suc e) s" using e by (metis id_take_nth_drop)
    show ?thesis
    proof (cases "x \<in> set (parseLine (int (length pre)) (take e s))")
      case True
      from parseLine_located [OF this, of "newline # drop (Suc e) s @ post"] show ?thesis
        by (subst split) simp
    next
      case False
      let ?pre = "pre @ take e s @ [newline]"
      have "int (length ?pre) = int (length pre) + int (Suc e)" using e by simp
      with False less.prems have "x \<in> set (parse (drop (Suc e) s) (int (length ?pre)))"
        by (simp add: parse_step [OF Some] add_ac)
      moreover have "length (drop (Suc e) s) < length s" using e by auto
      ultimately have "located (?pre @ drop (Suc e) s @ post) x" using less.hyps by blast
      then show ?thesis by (subst split) simp
    qed
  qed
qed

lemma located_carry:
  assumes "\<forall>x\<in>set xs. located content x"
  shows "carryMapEntries content (map fst xs) (map snd xs) 0 es ss = (es @ map fst xs, ss @ map snd xs)"
proof -
  have "shiftSpan 0 = id" by (auto simp: shiftSpan_def)
  moreover have "map2 (carryEntry content) (map snd xs) (map fst xs) = map fst xs"
    using assms by (induction xs) (auto simp: located_def)
  ultimately show ?thesis by (simp add: carryMapEntries_def)
qed

lemma located_carry_shift:
  assumes "\<forall>x\<in>set xs. located content (map_prod id (shiftSpan d) x)"
  shows "carryMapEntries content (map fst xs) (map snd xs) d es ss =
    (es @ map fst xs, ss @ map (shiftSpan d) (map snd xs))"
proof -
  have "map2 (carryEntry content) (map (shiftSpan d) (map snd xs)) (map fst xs) = map fst xs"
    using assms by (induction xs) (auto simp: located_def)
  then show ?thesis by (simp add: carryMapEntries_def)
qed

subsection \<open>The incremental parse is the full parse\<close>

lemma commonPrefixLen_take: "take (commonPrefixLen l r) l = take (commonPrefixLen l r) r"
  by (induction l r rule: commonPrefixLen.induct) auto

lemma commonPrefixLen_le: "commonPrefixLen l r \<le> length l \<and> commonPrefixLen l r \<le> length r"
  by (induction l r rule: commonPrefixLen.induct) auto

lemma commonSuffixLen_drop:
  "drop (length l - commonSuffixLen l r) l = drop (length r - commonSuffixLen l r) r"
  using commonPrefixLen_take [of "rev l" "rev r"]
  by (simp add: commonSuffixLen_def take_rev)

lemma commonSuffixLen_le: "commonSuffixLen l r \<le> length l \<and> commonSuffixLen l r \<le> length r"
  using commonPrefixLen_le [of "rev l" "rev r"] by (simp add: commonSuffixLen_def)

lemma afterLast_line_end: "afterLast s newline \<le> length s \<and> line_end (take (afterLast s newline) s)"
proof (cases "IndexByte (rev s) newline")
  case (Some i)
  from IndexByte_SomeD [OF this] have i: "i < length s" and nl: "s ! (length s - Suc i) = newline"
    by (auto simp: rev_nth)
  have "last (take (length s - i) s) = s ! (length s - Suc i)"
    using i by (subst last_conv_nth) auto
  with i nl Some show ?thesis by (simp add: afterLast_def line_end_def)
qed (simp add: afterLast_def line_end_def)

text \<open>The two texts as the same head and tail around what differs, cut at line boundaries.\<close>

lemma reparse_split:
  assumes cuts: "reparseCuts previous content = (prefix, oldTail, newTail)"
  obtains A M N T where "previous = A @ M @ T" "content = A @ N @ T" "line_end A"
    "T = [] \<or> (line_end M \<and> line_end N)"
    "prefix = length A" "oldTail = length A + length M" "newTail = length A + length N"
proof -
  let ?c = "commonPrefixLen previous content"
  define suffix where "suffix = commonSuffixLen (drop prefix previous) (drop prefix content)"
  define at where "at = length previous - suffix"
  have prefix_def: "prefix = afterLast (take ?c previous) newline"
    and oldTail_def: "oldTail = (case IndexByte (drop at previous) newline of
      None \<Rightarrow> length previous | Some n \<Rightarrow> at + n + 1)"
    and newTail_def: "newTail = length content - (length previous - oldTail)"
    using cuts unfolding reparseCuts_def Let_def at_def suffix_def by auto
  let ?u = "drop prefix previous" and ?v = "drop prefix content"
  have "prefix \<le> length (take ?c previous) \<and> line_end (take prefix (take ?c previous))"
    unfolding prefix_def by (rule afterLast_line_end)
  then have pre: "prefix \<le> ?c" "line_end (take prefix previous)" by (auto simp: min_def split: if_splits)
  have same: "take prefix previous = take prefix content"
    using commonPrefixLen_take [of previous content] pre(1) by (metis min.absorb1 take_take)
  have le: "prefix \<le> length previous" "prefix \<le> length content"
    using pre(1) commonPrefixLen_le [of previous content] by auto
  have suf: "suffix \<le> length ?u" "suffix \<le> length ?v"
    "drop (length ?u - suffix) ?u = drop (length ?v - suffix) ?v"
    unfolding suffix_def using commonSuffixLen_le [of ?u ?v] commonSuffixLen_drop [of ?u ?v] by auto
  have tails: "drop at previous = drop (length content - suffix) content"
    using suf le by (simp add: at_def add.commute [of _ prefix])
  have at: "prefix \<le> at" "at + suffix = length previous" using suf le by (auto simp: at_def)
  define k where "k = oldTail - at"
  have k: "oldTail = at + k" "k \<le> suffix"
    and nl: "k = suffix \<or> 0 < k \<and> drop at previous ! (k - 1) = newline"
    using at IndexByte_SomeD [of "drop at previous" newline]
    by (auto simp: oldTail_def k_def split: option.splits)
  have new: "newTail = length content - suffix + k" "prefix \<le> length content - suffix"
    using k at suf le by (auto simp: newTail_def)
  define T where "T = drop oldTail previous"
  have T: "T = drop newTail content"
    using tails by (metis T_def add.commute drop_drop k(1) new(1))
  define M where "M = take (oldTail - prefix) ?u"
  define N where "N = take (newTail - prefix) ?v"
  have "drop (oldTail - prefix) ?u = T" using k at by (simp add: T_def)
  moreover have "drop (newTail - prefix) ?v = T" unfolding T using new by simp
  ultimately have u: "?u = M @ T" and v: "?v = N @ T" by (metis M_def append_take_drop_id, metis N_def append_take_drop_id)
  have lM: "length M = oldTail - prefix" and lN: "length N = newTail - prefix"
    using k at new suf le by (auto simp: M_def N_def)
  show thesis
  proof (rule that [of "take prefix previous" M T N])
    show "previous = take prefix previous @ M @ T" by (simp flip: u)
    show "content = take prefix previous @ N @ T" unfolding same by (simp flip: v)
    show "T = [] \<or> line_end M \<and> line_end N"
    proof (cases "k = suffix")
      case True
      then show ?thesis using k at by (simp add: T_def)
    next
      case False
      with nl have pos: "0 < k" and c: "drop at previous ! (k - 1) = newline" by auto
      from c tails have c': "drop (length content - suffix) content ! (k - 1) = newline" by simp
      have "last M = newline" "M \<noteq> []"
        using pos c k at lM by (auto simp: last_conv_nth M_def nth_append add.assoc)
      moreover have "N \<noteq> []" using pos new lN by auto
      moreover have "last N = newline"
      proof -
        have "last N = N ! (newTail - prefix - 1)" using \<open>N \<noteq> []\<close> lN by (simp add: last_conv_nth)
        also have "\<dots> = drop prefix content ! (newTail - prefix - 1)"
          unfolding N_def by (rule nth_take) (use pos new in simp)
        finally have "last N = content ! (newTail - 1)" using pos new le(2) by simp
        moreover have "newTail - 1 = length content - suffix + (k - 1)" using pos new by simp
        ultimately show ?thesis using c' by simp
      qed
      ultimately show ?thesis by (simp add: line_end_def)
    qed
  qed (use pre(2) le k at new lM lN in auto)
qed

lemma parse_append3:
  assumes "line_end A" and "T = [] \<or> line_end M"
  shows "parse (A @ M @ T) 0 =
    parse A 0 @ parse M (int (length A)) @ parse T (int (length A + length M))"
  using assms by (auto simp: parse_append)

lemma takeWhile_lines:
  assumes "\<forall>x\<in>set xs. es_line (snd x) < n" and "\<forall>x\<in>set ys. n \<le> es_line (snd x)"
  shows "takeWhile (\<lambda>s. es_line s < n) (map snd (xs @ ys)) = map snd xs"
    and "takeWhile (\<lambda>s. es_line s \<ge> n) (rev (map snd (xs @ ys))) = rev (map snd ys)"
proof -
  show "takeWhile (\<lambda>s. es_line s < n) (map snd (xs @ ys)) = map snd xs"
    using assms by (cases ys) (auto simp: takeWhile_append)
  have "takeWhile (\<lambda>s. es_line s \<ge> n) (rev (map snd xs)) = []"
    using assms(1) by (cases "rev (map snd xs)") (force simp: rev_eq_Cons_iff map_eq_append_conv)+
  then show "takeWhile (\<lambda>s. es_line s \<ge> n) (rev (map snd (xs @ ys))) = rev (map snd ys)"
    using assms(2) by (simp add: rev_map takeWhile_append)
qed

lemma ParseMapEntriesIndexed_parse:
  "ParseMapEntriesIndexed s = \<lparr>pm_Content = s, pm_Entries = map fst (parse s 0), pm_spans = map snd (parse s 0)\<rparr>"
  by (simp add: ParseMapEntriesIndexed_def parseMapLines_eq)

text \<open>
  Two contents that share the lines \<open>A\<close> before and \<open>T\<close> after an edit: their parses share the entries
  there, those of \<open>T\<close> moved by \<open>d\<close>, and the old positions tell the parts apart.
\<close>

lemma parsed_parts:
  assumes split: "previous = A @ M @ T" "content = A @ N @ T" "line_end A" "T = [] \<or> (line_end M \<and> line_end N)"
  defines "pa \<equiv> parse A 0" and "pm \<equiv> parse M (int (length A))" and "pt \<equiv> parse T (int (length A + length M))"
  defines "d \<equiv> int (length N) - int (length M)"
  shows "parse previous 0 = pa @ pm @ pt"
    and "parse content 0 = pa @ parse N (int (length A)) @ map (map_prod id (shiftSpan d)) pt"
    and "length (takeWhile (\<lambda>s. es_line s < int (length A)) (map snd (pa @ pm @ pt))) = length pa"
    and "length (takeWhile (\<lambda>s. es_line s \<ge> int (length A + length M)) (rev (map snd (pa @ pm @ pt)))) = length pt"
    and "\<forall>x\<in>set pa. located content x" and "\<forall>x\<in>set pt. located content (map_prod id (shiftSpan d) x)"
proof -
  show "parse previous 0 = pa @ pm @ pt"
    unfolding split(1) pa_def pm_def pt_def by (rule parse_append3) (use split in auto)
  have shift: "parse T (int (length A + length N)) = map (map_prod id (shiftSpan d)) pt"
    using parse_shift [of T "int (length A + length M)" d] by (simp add: d_def pt_def)
  show "parse content 0 = pa @ parse N (int (length A)) @ map (map_prod id (shiftSpan d)) pt"
    unfolding split(2) pa_def shift [symmetric] by (rule parse_append3) (use split in auto)
  have bounds: "\<forall>x\<in>set pa. es_line (snd x) < int (length A)"
    "\<forall>x\<in>set (pm @ pt). int (length A) \<le> es_line (snd x)"
    "\<forall>x\<in>set (pa @ pm). es_line (snd x) < int (length A + length M)"
    "\<forall>x\<in>set pt. int (length A + length M) \<le> es_line (snd x)"
    unfolding pa_def pm_def pt_def by (fastforce dest: parse_bounds)+
  show "length (takeWhile (\<lambda>s. es_line s < int (length A)) (map snd (pa @ pm @ pt))) = length pa"
    by (subst takeWhile_lines(1) [OF bounds(1,2)]) simp
  show "length (takeWhile (\<lambda>s. es_line s \<ge> int (length A + length M)) (rev (map snd (pa @ pm @ pt)))) = length pt"
    using takeWhile_lines(2) [OF bounds(3,4)] by simp
  show "\<forall>x\<in>set pa. located content x"
    using parse_located [of _ A "[]" "N @ T"] by (auto simp: pa_def split(2))
  show "\<forall>x\<in>set pt. located content (map_prod id (shiftSpan d) x)"
  proof
    fix x assume "x \<in> set pt"
    then have "map_prod id (shiftSpan d) x \<in> set (parse T (int (length (A @ N))))"
      using shift by simp
    from parse_located [OF this, of "[]"] show "located content (map_prod id (shiftSpan d) x)"
      by (simp add: split(2))
  qed
qed

text \<open>
  C24. The incremental parse of a map file is the full parse: whatever the previous text was, parsing
  the new one against it gives the same entries at the same positions as parsing it alone.
\<close>

theorem Reparse_is_parse:
  "Reparse (ParseMapEntriesIndexed previous) content = ParseMapEntriesIndexed content"
proof (cases "content = previous \<or> map fst (parse previous 0) = []")
  case True
  then show ?thesis by (auto simp: Reparse_def ParseMapEntriesIndexed_parse)
next
  case False
  let ?p = "ParseMapEntriesIndexed previous"
  obtain prefix oldTail newTail where cuts: "reparseCuts previous content = (prefix, oldTail, newTail)"
    using prod_cases3 by blast
  then obtain A M N T where split: "previous = A @ M @ T" "content = A @ N @ T" "line_end A"
    "T = [] \<or> (line_end M \<and> line_end N)"
    and pos: "prefix = length A" "oldTail = length A + length M" "newTail = length A + length N"
    by (rule reparse_split)
  define pa where "pa = parse A 0"
  define pm where "pm = parse M (int (length A))"
  define pt where "pt = parse T (int (length A + length M))"
  define d where "d = int (length N) - int (length M)"
  note parts = parsed_parts [OF split, folded pa_def pm_def pt_def d_def]
  note carry1 = located_carry [OF parts(5), of "[]" "[]"] and carry2 = located_carry_shift [OF parts(6)]
  have cut: "reparseCuts (pm_Content ?p) content = (length A, length A + length M, length A + length N)"
    using cuts pos by (simp add: ParseMapEntriesIndexed_parse)
  have mid: "take (length A + length N - length A) (drop (length A) content) = N" by (simp add: split(2))
  have spans: "pm_spans ?p = map snd (pa @ pm @ pt)" and entries: "pm_Entries ?p = map fst (pa @ pm @ pt)"
    by (simp_all only: ParseMapEntriesIndexed_parse parts(1) ParsedMapEntries.select_convs)
  have d: "int (length A + length N) - int (length A + length M) = d" by (simp add: d_def)
  have n: "max (length pa) (length (map fst (pa @ pm @ pt)) - length pt) = length pa + length pm" by simp
  have "Reparse ?p content =
      (let (e1, s1) = carryMapEntries content (map fst pa) (map snd pa) 0 [] [];
           (e2, s2) = parseMapLines N (int (length A)) e1 s1;
           (e3, s3) = carryMapEntries content (map fst pt) (map snd pt) d e2 s2
       in \<lparr>pm_Content = content, pm_Entries = e3, pm_spans = s3\<rparr>)"
    unfolding Reparse_def cut prod.case Let_def spans parts(3,4) entries mid d n
    using False by (auto simp: ParseMapEntriesIndexed_parse parts(1))
  also have "\<dots> = ParseMapEntriesIndexed content"
    by (simp add: carry1 carry2 parseMapLines_eq ParseMapEntriesIndexed_parse parts(2) comp_def)
  finally show ?thesis .
qed

subsection \<open>The other two readers agree with it\<close>

lemma parseEntries_posed: "map fst (posed ls at) = parseEntries ls"
  by (induction ls arbitrary: at)
     (auto simp: parseEntries_def parseLine_def Let_def split: prod.splits)

lemma parseEntries_parse: "parseEntries (SplitLines s) = map fst (parse s at)"
  by (simp add: parse_def parseEntries_posed)

lemma parseEntries_Cons: "parseEntries (l # ls) = parseEntries [l] @ parseEntries ls"
  by (simp add: parseEntries_def)

text \<open>One line of the comparison: the entries of the line are the next ones expected.\<close>

lemma match_line:
  "(let trimmed = TrimSpace line in
    if skipLine trimmed then Some n
    else case splitEntry trimmed of (key, value, _) \<Rightarrow>
      if n \<ge> length es \<or> ent_Key (es ! n) \<noteq> key \<or> ent_Value (es ! n) \<noteq> value
      then None else Some (Suc n)) =
   (if take (length (parseEntries [line])) (drop n es) = parseEntries [line]
    then Some (n + length (parseEntries [line])) else None)"
proof (cases "skipLine (TrimSpace line)")
  case False
  obtain k v f where s: "splitEntry (TrimSpace line) = (k, v, f)" by (cases "splitEntry (TrimSpace line)")
  have "take 1 (drop n es) = [\<lparr>ent_Key = k, ent_Value = v\<rparr>] \<longleftrightarrow>
      \<not> (n \<ge> length es \<or> ent_Key (es ! n) \<noteq> k \<or> ent_Value (es ! n) \<noteq> v)"
    by (cases "n < length es") (auto simp: take_Suc hd_drop_conv_nth)
  with False s show ?thesis by (simp add: parseEntries_def Let_def)
qed (simp add: parseEntries_def Let_def)

lemma take_append_iff:
  "take (length (xs @ ys)) (drop n es) = xs @ ys \<longleftrightarrow>
     take (length xs) (drop n es) = xs \<and> take (length ys) (drop (n + length xs) es) = ys"
proof -
  have "take (length (xs @ ys)) (drop n es) =
      take (length xs) (drop n es) @ take (length ys) (drop (n + length xs) es)"
    by (simp add: take_add add.commute)
  moreover have "take (length xs) (drop n es) = xs" if "take (length (xs @ ys)) (drop n es) = xs @ ys"
    using arg_cong [OF that, of "take (length xs)"] by (simp add: min_def)
  ultimately show ?thesis by auto
qed

lemma matchLines_eq:
  "matchLines s es n =
     (let xs = parseEntries (SplitLines s) in
      if take (length xs) (drop n es) = xs then Some (n + length xs) else None)"
proof (induction "length s" arbitrary: s n rule: less_induct)
  case less
  let ?line = "case IndexByte s newline of None \<Rightarrow> s | Some e \<Rightarrow> take e s"
  let ?l = "parseEntries [?line]"
  have step: "matchLines s es n =
      (case if take (length ?l) (drop n es) = ?l then Some (n + length ?l) else None of
         None \<Rightarrow> None
       | Some m \<Rightarrow> (case IndexByte s newline of None \<Rightarrow> Some m
           | Some e \<Rightarrow> matchLines (drop (Suc e) s) es m))"
    by (subst matchLines.simps) (simp only: Let_def match_line [unfolded Let_def])
  show ?case
  proof (cases "IndexByte s newline")
    case None
    then show ?thesis using step by (simp add: SplitLines_unfold [of s] Let_def)
  next
    case (Some e)
    let ?r = "parseEntries (SplitLines (drop (Suc e) s))"
    have short: "length (drop (Suc e) s) < length s" using IndexByte_SomeD [OF Some] by auto
    have xs: "parseEntries (SplitLines s) = ?l @ ?r"
      unfolding SplitLines_unfold [of s] Some option.case by (rule parseEntries_Cons)
    have ih: "matchLines (drop (Suc e) s) es (n + length ?l) =
        (if take (length ?r) (drop (n + length ?l) es) = ?r then Some (n + length ?l + length ?r) else None)"
      unfolding less [OF short] Let_def by (rule HOL.refl)
    have "take (length (?l @ ?r)) (drop n es) = ?l @ ?r \<longleftrightarrow>
        take (length ?l) (drop n es) = ?l \<and> take (length ?r) (drop (n + length ?l) es) = ?r"
      by (rule take_append_iff)
    then show ?thesis unfolding xs Let_def step Some using ih by (simp add: Some)
  qed
qed

text \<open>
  \<open>MapEntriesMatch\<close> answers whether the parse of the content is exactly the given entries, the nil
  result for a file without entries included; and the indexed parse has those entries.
\<close>

theorem MapEntriesMatch_iff:
  "MapEntriesMatch content entries = (ParseMapEntries content = entries) \<and>
   ParseMapEntries content =
     (if pm_Entries (ParseMapEntriesIndexed content) = [] then None
      else Some (pm_Entries (ParseMapEntriesIndexed content)))"
proof -
  let ?xs = "parseEntries (SplitLines content)"
  have idx: "pm_Entries (ParseMapEntriesIndexed content) = ?xs"
    by (simp add: ParseMapEntriesIndexed_parse parseEntries_parse [of content 0])
  have empty: "content = '''' \<Longrightarrow> ?xs = []" by (simp add: parseEntries_def skipLine_def)
  have "ParseMapEntries content = (if ?xs = [] then None else Some ?xs)"
    using empty by (auto simp: ParseMapEntries_def Let_def)
  moreover have "MapEntriesMatch content entries = ((if ?xs = [] then None else Some ?xs) = entries)"
    using empty by (cases entries) (auto simp: MapEntriesMatch_def matchLines_eq Let_def)
  ultimately show ?thesis by (simp add: idx)
qed

end
