(* ===== verification/Delta_Index.thy ===== *)
theory Delta_Index
  imports Prelude
begin

section \<open>Indexes of a delta\<close>

text \<open>
  \<open>src/pkg/persistenttree/tree.go\<close>: the \<open>deltaEntry\<close> of a key a version changed against its frozen
  base, and what a transaction relies on in the two indexes it keeps of those entries, the ordered
  one (\<open>Delta_Tree\<close>) and the hashed one (\<open>Delta_Hash\<close>). An entry whose value is \<open>None\<close> is a key the
  version removed (\<open>present\<close> is false).
\<close>

record 'v deltaEntry =
  de_key :: string
  de_value :: "'v option"

text \<open>
  An index adds an entry or replaces the one of its key, and says whether it replaced; it removes the
  entry of a key and says whether there was one. \<open>None\<close> stands for an insertion that does not return.
\<close>

locale delta_index =
  fixes add :: "'t \<Rightarrow> 'v deltaEntry \<Rightarrow> ('t \<times> bool) option"
    and remove :: "'t \<Rightarrow> string \<Rightarrow> 't \<times> bool"
    and content :: "'t \<Rightarrow> 'v deltaEntry set"
    and invar :: "'t \<Rightarrow> bool"
  assumes keyed: "invar t \<Longrightarrow> x \<in> content t \<Longrightarrow> y \<in> content t \<Longrightarrow> de_key x = de_key y \<Longrightarrow> x = y"
    and add: "invar t \<Longrightarrow> \<exists>t'. add t e = Some (t', \<exists>x\<in>content t. de_key x = de_key e) \<and> invar t' \<and>
      content t' = insert e {x \<in> content t. de_key x \<noteq> de_key e}"
    and remove: "invar t \<Longrightarrow> \<exists>t'. remove t k = (t', \<exists>x\<in>content t. de_key x = k) \<and> invar t' \<and>
      content t' = {x \<in> content t. de_key x \<noteq> k}"

text \<open>Two indexes of the same entries report the same and stay two indexes of the same entries.\<close>

locale paired_index =
  ordered: delta_index add1 remove1 content1 invar1 + hashed: delta_index add2 remove2 content2 invar2
  for add1 :: "'s \<Rightarrow> 'v deltaEntry \<Rightarrow> ('s \<times> bool) option" and remove1 content1 invar1
    and add2 :: "'t \<Rightarrow> 'v deltaEntry \<Rightarrow> ('t \<times> bool) option" and remove2 content2 invar2
begin

lemma add_together:
  assumes "invar1 s" and "invar2 t" and "content1 s = content2 t"
  shows "\<exists>s' t'. add1 s e = Some (s', \<exists>x\<in>content2 t. de_key x = de_key e) \<and>
    add2 t e = Some (t', \<exists>x\<in>content2 t. de_key x = de_key e) \<and>
    invar1 s' \<and> invar2 t' \<and> content1 s' = content2 t' \<and>
    content2 t' = insert e {x \<in> content2 t. de_key x \<noteq> de_key e}"
  using ordered.add [OF assms(1), of e] hashed.add [OF assms(2), of e] assms(3) by auto

lemma remove_together:
  assumes "invar1 s" and "invar2 t" and "content1 s = content2 t"
  shows "\<exists>s' t'. remove1 s k = (s', \<exists>x\<in>content2 t. de_key x = k) \<and>
    remove2 t k = (t', \<exists>x\<in>content2 t. de_key x = k) \<and>
    invar1 s' \<and> invar2 t' \<and> content1 s' = content2 t' \<and>
    content2 t' = {x \<in> content2 t. de_key x \<noteq> k}"
  using ordered.remove [OF assms(1), of k] hashed.remove [OF assms(2), of k] assms(3) by auto

end

end
