(* ===== verification/Delta_Tree.thy ===== *)
theory Delta_Tree
  imports Delta_Index
begin

section \<open>The ordered delta of a persistent tree\<close>

text \<open>
  \<open>src/pkg/persistenttree/tree.go\<close>, the \<open>deltaNode\<close> part: a height-balanced search tree of the
  entries a version changed against its frozen base. An entry whose value is \<open>None\<close> is a key the
  version removed (\<open>present\<close> is false). Copying a node before changing it is building a new one, so
  the functions here are the source's without the copies. A nil node has height 0, so a node of a
  positive height can be dereferenced; the equations for a rotation at a nil child are never used.
\<close>

datatype 'v deltaNode =
    DNil
  | DNode "'v deltaEntry" "'v deltaNode" "'v deltaNode" nat

fun deltaHeight :: "'v deltaNode \<Rightarrow> nat" where
  "deltaHeight DNil = 0"
| "deltaHeight (DNode _ _ _ h) = h"

definition dnode :: "'v deltaEntry \<Rightarrow> 'v deltaNode \<Rightarrow> 'v deltaNode \<Rightarrow> 'v deltaNode" where
  "dnode e l r = DNode e l r (max (deltaHeight l) (deltaHeight r) + 1)"

fun rotateDeltaLeft :: "'v deltaEntry \<Rightarrow> 'v deltaNode \<Rightarrow> 'v deltaNode \<Rightarrow> 'v deltaNode" where
  "rotateDeltaLeft e l (DNode re rl rr _) = dnode re (dnode e l rl) rr"
| "rotateDeltaLeft e l DNil = dnode e l DNil"

fun rotateDeltaRight :: "'v deltaEntry \<Rightarrow> 'v deltaNode \<Rightarrow> 'v deltaNode \<Rightarrow> 'v deltaNode" where
  "rotateDeltaRight e (DNode le ll lr _) r = dnode le ll (dnode e lr r)"
| "rotateDeltaRight e DNil r = dnode e DNil r"

definition balanceDelta :: "'v deltaEntry \<Rightarrow> 'v deltaNode \<Rightarrow> 'v deltaNode \<Rightarrow> 'v deltaNode" where
  "balanceDelta e l r =
     (let delta = int (deltaHeight l) - int (deltaHeight r) in
      if delta > 1 then
        (case l of
           DNode le ll lr _ \<Rightarrow>
             if deltaHeight ll < deltaHeight lr then rotateDeltaRight e (rotateDeltaLeft le ll lr) r
             else rotateDeltaRight e l r
         | DNil \<Rightarrow> dnode e l r)
      else if delta < - 1 then
        (case r of
           DNode re rl rr _ \<Rightarrow>
             if deltaHeight rr < deltaHeight rl then rotateDeltaLeft e l (rotateDeltaRight re rl rr)
             else rotateDeltaLeft e l r
         | DNil \<Rightarrow> dnode e l r)
      else dnode e l r)"

fun insertDelta :: "'v deltaNode \<Rightarrow> 'v deltaEntry \<Rightarrow> 'v deltaNode \<times> bool" where
  "insertDelta DNil e = (DNode e DNil DNil 1, False)"
| "insertDelta (DNode x l r h) e =
     (if de_key e < de_key x
      then (case insertDelta l e of (l', replaced) \<Rightarrow> (balanceDelta x l' r, replaced))
      else if de_key e > de_key x
      then (case insertDelta r e of (r', replaced) \<Rightarrow> (balanceDelta x l r', replaced))
      else (DNode e l r h, True))"

text \<open>The loop to the leftmost node of a subtree.\<close>

fun leftmost :: "'v deltaEntry \<Rightarrow> 'v deltaNode \<Rightarrow> 'v deltaEntry" where
  "leftmost e DNil = e"
| "leftmost e (DNode x l r h) = leftmost x l"

text \<open>
  \<open>deleteDeltaString\<close> and \<open>deleteDelta\<close> differ only in the type of the key. The successor of a node
  with two children is removed from the right one.
\<close>

fun deleteDeltaString :: "'v deltaNode \<Rightarrow> string \<Rightarrow> 'v deltaNode \<times> bool" where
  "deleteDeltaString DNil k = (DNil, False)"
| "deleteDeltaString (DNode x l r h) k =
     (if k < de_key x
      then (case deleteDeltaString l k of (l', removed) \<Rightarrow>
              if removed then (balanceDelta x l' r, True) else (DNode x l r h, False))
      else if k > de_key x
      then (case deleteDeltaString r k of (r', removed) \<Rightarrow>
              if removed then (balanceDelta x l r', True) else (DNode x l r h, False))
      else if l = DNil then (r, True)
      else if r = DNil then (l, True)
      else let s = leftmost x r
           in (balanceDelta s l (fst (deleteDeltaString r (de_key s))), True))"

abbreviation deleteDelta :: "'v deltaNode \<Rightarrow> string \<Rightarrow> 'v deltaNode \<times> bool" where
  "deleteDelta \<equiv> deleteDeltaString"

fun minimumPresentDelta :: "'v deltaNode \<Rightarrow> (string \<times> 'v) option" where
  "minimumPresentDelta DNil = None"
| "minimumPresentDelta (DNode x l r h) =
     (case minimumPresentDelta l of
        Some kv \<Rightarrow> Some kv
      | None \<Rightarrow> (case de_value x of Some v \<Rightarrow> Some (de_key x, v) | None \<Rightarrow> minimumPresentDelta r))"

fun maximumPresentDelta :: "'v deltaNode \<Rightarrow> (string \<times> 'v) option" where
  "maximumPresentDelta DNil = None"
| "maximumPresentDelta (DNode x l r h) =
     (case maximumPresentDelta r of
        Some kv \<Rightarrow> Some kv
      | None \<Rightarrow> (case de_value x of Some v \<Rightarrow> Some (de_key x, v) | None \<Rightarrow> maximumPresentDelta l))"

subsection \<open>In-order content\<close>

fun inorder :: "'v deltaNode \<Rightarrow> 'v deltaEntry list" where
  "inorder DNil = []"
| "inorder (DNode x l r h) = inorder l @ x # inorder r"

abbreviation delta_sorted :: "'v deltaNode \<Rightarrow> bool" where
  "delta_sorted t \<equiv> sorted_on de_key (inorder t)"

lemma inorder_dnode [simp]: "inorder (dnode e l r) = inorder l @ e # inorder r"
  by (simp add: dnode_def)

lemma inorder_rotate [simp]:
  "inorder (rotateDeltaLeft e l r) = inorder l @ e # inorder r"
  "inorder (rotateDeltaRight e l r) = inorder l @ e # inorder r"
  by (cases r; simp) (cases l; simp)

lemma inorder_balance [simp]: "inorder (balanceDelta e l r) = inorder l @ e # inorder r"
  by (auto simp: balanceDelta_def Let_def split: deltaNode.split)

lemma inorder_Nil_iff [simp]: "inorder t = [] \<longleftrightarrow> t = DNil"
  by (cases t) auto

lemma hd_leftmost: "t \<noteq> DNil \<Longrightarrow> hd (inorder t) = leftmost x t"
proof (induction t arbitrary: x)
  case (DNode y l r h)
  then show ?case by (cases "l = DNil") simp_all
qed simp

lemma inorder_leftmost: "t \<noteq> DNil \<Longrightarrow> inorder t = leftmost x t # tl (inorder t)"
  by (metis hd_leftmost inorder_Nil_iff list.collapse)

lemma inorder_insert:
  "delta_sorted t \<Longrightarrow> inorder (fst (insertDelta t e)) = put_on de_key e (inorder t)"
proof (induction t)
  case DNil
  then show ?case by (simp add: put_on_def)
next
  case (DNode x l r h)
  from DNode.prems have sorted: "sorted_on de_key (inorder l @ x # inorder r)" by simp
  then have "delta_sorted l" "delta_sorted r" by simp_all
  with DNode.IH put_on_at [OF sorted, of e] show ?case by (auto split: prod.splits)
qed

lemma insert_replaced:
  "delta_sorted t \<Longrightarrow> snd (insertDelta t e) = (find_on de_key (de_key e) (inorder t) \<noteq> None)"
proof (induction t)
  case (DNode x l r h)
  from DNode.prems have sorted: "sorted_on de_key (inorder l @ x # inorder r)" by simp
  then have "delta_sorted l" "delta_sorted r" by simp_all
  with DNode.IH find_on_at [OF sorted, of "de_key e"] show ?case by (auto split: prod.splits)
qed simp

lemma delete_spec:
  "delta_sorted t \<Longrightarrow>
     inorder (fst (deleteDeltaString t k)) = cut_on de_key k (inorder t) \<and>
     snd (deleteDeltaString t k) = (find_on de_key k (inorder t) \<noteq> None)"
proof (induction t k rule: deleteDeltaString.induct)
  case (1 k)
  then show ?case by (simp add: cut_on_def)
next
  case (2 x l r h k)
  from 2(4) have sorted: "sorted_on de_key (inorder l @ x # inorder r)" by simp
  then have sl: "delta_sorted l" and sr: "delta_sorted r" by simp_all
  note at = cut_on_at [OF sorted, of k] find_on_at [OF sorted, of k]
  consider (less) "k < de_key x" | (greater) "de_key x < k" | (equal) "k = de_key x"
    by (rule linorder_cases)
  then show ?case
  proof cases
    case less
    with 2(1) sl at show ?thesis
      by (cases "snd (deleteDeltaString l k)")
         (auto simp: cut_on_absent split: prod.splits)
  next
    case greater
    with 2(2) sr at show ?thesis
      by (cases "snd (deleteDeltaString r k)")
         (auto simp: cut_on_absent less_not_sym split: prod.splits)
  next
    case equal
    show ?thesis
    proof (cases "l = DNil \<or> r = DNil")
      case True
      with equal at show ?thesis by auto
    next
      case False
      let ?s = "leftmost x r"
      from False have hd: "inorder r = ?s # tl (inorder r)" by (simp add: inorder_leftmost)
      have "inorder (fst (deleteDeltaString r (de_key ?s))) = cut_on de_key (de_key ?s) (inorder r)"
        using 2(3) equal False sr by simp
      also have "\<dots> = tl (inorder r)"
      proof -
        have "sorted_on de_key (?s # tl (inorder r))" using sr hd by simp
        then show ?thesis
          by (subst (1) hd) (auto simp: cut_on_def filter_id_conv)
      qed
      finally show ?thesis using equal False at hd by (simp add: Let_def)
    qed
  qed
qed

lemma insert_spec:
  "delta_sorted t \<Longrightarrow> delta_sorted (fst (insertDelta t e))"
  by (simp add: inorder_insert)

lemma minimumPresentDelta_eq:
  "minimumPresentDelta t =
     (case filter (\<lambda>e. de_value e \<noteq> None) (inorder t) of [] \<Rightarrow> None | e # _ \<Rightarrow> Some (de_key e, the (de_value e)))"
  by (induction t) (auto split: option.splits list.splits)

lemma maximumPresentDelta_eq:
  "maximumPresentDelta t =
     (case rev (filter (\<lambda>e. de_value e \<noteq> None) (inorder t)) of
        [] \<Rightarrow> None | e # _ \<Rightarrow> Some (de_key e, the (de_value e)))"
  by (induction t) (auto split: option.splits list.splits)

subsection \<open>Height balance\<close>

fun avl :: "'v deltaNode \<Rightarrow> bool" where
  "avl DNil = True"
| "avl (DNode x l r h) \<longleftrightarrow> avl l \<and> avl r \<and> h = max (deltaHeight l) (deltaHeight r) + 1 \<and>
     deltaHeight l \<le> deltaHeight r + 1 \<and> deltaHeight r \<le> deltaHeight l + 1"

lemma deltaHeight_dnode [simp]: "deltaHeight (dnode x l r) = max (deltaHeight l) (deltaHeight r) + 1"
  by (simp add: dnode_def)

lemma avl_dnode [simp]:
  "avl (dnode x l r) \<longleftrightarrow> avl l \<and> avl r \<and> deltaHeight l \<le> deltaHeight r + 1 \<and> deltaHeight r \<le> deltaHeight l + 1"
  by (simp add: dnode_def)

lemma rotate_dnode [simp]:
  "rotateDeltaRight e (dnode a ll lr) r = dnode a ll (dnode e lr r)"
  "rotateDeltaLeft e l (dnode a rl rr) = dnode a (dnode e l rl) rr"
  by (simp_all add: dnode_def)

lemma avl_height_0: "avl t \<Longrightarrow> deltaHeight t = 0 \<longleftrightarrow> t = DNil"
  by (cases t) auto

lemma avl_balance_left:
  assumes "avl l" "avl r" "deltaHeight l = deltaHeight r + 2"
  shows "avl (balanceDelta x l r) \<and>
    (deltaHeight (balanceDelta x l r) = deltaHeight l \<or> deltaHeight (balanceDelta x l r) = deltaHeight l + 1)"
proof (cases l)
  case (DNode le ll lr h)
  show ?thesis
  proof (cases "deltaHeight ll < deltaHeight lr")
    case True
    with assms DNode show ?thesis
      by (cases lr) (auto simp: balanceDelta_def max_def split: if_splits)
  next
    case False
    with assms DNode show ?thesis by (auto simp: balanceDelta_def max_def split: if_splits)
  qed
qed (use assms in simp)

lemma avl_balance_right:
  assumes "avl l" "avl r" "deltaHeight r = deltaHeight l + 2"
  shows "avl (balanceDelta x l r) \<and>
    (deltaHeight (balanceDelta x l r) = deltaHeight r \<or> deltaHeight (balanceDelta x l r) = deltaHeight r + 1)"
proof (cases r)
  case (DNode re rl rr h)
  show ?thesis
  proof (cases "deltaHeight rr < deltaHeight rl")
    case True
    with assms DNode show ?thesis
      by (cases rl) (auto simp: balanceDelta_def max_def split: if_splits)
  next
    case False
    with assms DNode show ?thesis by (auto simp: balanceDelta_def max_def split: if_splits)
  qed
qed (use assms in simp)

lemma balanceDelta_near:
  "deltaHeight l \<le> deltaHeight r + 1 \<Longrightarrow> deltaHeight r \<le> deltaHeight l + 1 \<Longrightarrow>
     balanceDelta x l r = dnode x l r"
  by (simp add: balanceDelta_def)

lemma avl_insert:
  "avl t \<Longrightarrow> avl (fst (insertDelta t e)) \<and>
     (deltaHeight (fst (insertDelta t e)) = deltaHeight t \<or> deltaHeight (fst (insertDelta t e)) = deltaHeight t + 1)"
proof (induction t)
  case (DNode x l r h)
  define l' where "l' = fst (insertDelta l e)"
  define r' where "r' = fst (insertDelta r e)"
  have l: "avl l" "avl l'" "deltaHeight l' = deltaHeight l \<or> deltaHeight l' = deltaHeight l + 1"
    and r: "avl r" "avl r'" "deltaHeight r' = deltaHeight r \<or> deltaHeight r' = deltaHeight r + 1"
    and h: "h = max (deltaHeight l) (deltaHeight r) + 1" "deltaHeight l \<le> deltaHeight r + 1"
      "deltaHeight r \<le> deltaHeight l + 1"
    using DNode by (auto simp: l'_def r'_def)
  have "avl (balanceDelta x l' r) \<and>
      (deltaHeight (balanceDelta x l' r) = h \<or> deltaHeight (balanceDelta x l' r) = h + 1)"
  proof (cases "deltaHeight l' = deltaHeight r + 2")
    case True
    with avl_balance_left [OF l(2) r(1) this, of x] l(3) h show ?thesis by auto
  next
    case False
    then have "deltaHeight l' \<le> deltaHeight r + 1" "deltaHeight r \<le> deltaHeight l' + 1" using l(3) h by auto
    with l r h show ?thesis by (auto simp: balanceDelta_near)
  qed
  moreover have "avl (balanceDelta x l r') \<and>
      (deltaHeight (balanceDelta x l r') = h \<or> deltaHeight (balanceDelta x l r') = h + 1)"
  proof (cases "deltaHeight r' = deltaHeight l + 2")
    case True
    with avl_balance_right [OF l(1) r(2) this, of x] r(3) h show ?thesis by auto
  next
    case False
    then have "deltaHeight r' \<le> deltaHeight l + 1" "deltaHeight l \<le> deltaHeight r' + 1" using r(3) h by auto
    with l r h show ?thesis by (auto simp: balanceDelta_near)
  qed
  ultimately show ?case
    using DNode.prems by (auto simp: l'_def r'_def split: prod.splits)
qed simp

text \<open>Taking one level off one side of a balanced node.\<close>

lemma avl_shrink:
  assumes "avl l" "avl r" "deltaHeight l \<le> deltaHeight r + 1" "deltaHeight r \<le> deltaHeight l + 1"
  shows "avl l' \<Longrightarrow> deltaHeight l' = deltaHeight l \<or> deltaHeight l' + 1 = deltaHeight l \<Longrightarrow>
      avl (balanceDelta x l' r) \<and>
      (deltaHeight (balanceDelta x l' r) = max (deltaHeight l) (deltaHeight r) + 1 \<or>
       deltaHeight (balanceDelta x l' r) = max (deltaHeight l) (deltaHeight r))"
    and "avl r' \<Longrightarrow> deltaHeight r' = deltaHeight r \<or> deltaHeight r' + 1 = deltaHeight r \<Longrightarrow>
      avl (balanceDelta x l r') \<and>
      (deltaHeight (balanceDelta x l r') = max (deltaHeight l) (deltaHeight r) + 1 \<or>
       deltaHeight (balanceDelta x l r') = max (deltaHeight l) (deltaHeight r))"
proof -
  show "avl (balanceDelta x l' r) \<and>
      (deltaHeight (balanceDelta x l' r) = max (deltaHeight l) (deltaHeight r) + 1 \<or>
       deltaHeight (balanceDelta x l' r) = max (deltaHeight l) (deltaHeight r))"
    if l': "avl l'" "deltaHeight l' = deltaHeight l \<or> deltaHeight l' + 1 = deltaHeight l"
  proof (cases "deltaHeight r = deltaHeight l' + 2")
    case True
    with avl_balance_right [OF l'(1) assms(2) this, of x] l'(2) assms show ?thesis by auto
  next
    case False
    then have "deltaHeight l' \<le> deltaHeight r + 1" "deltaHeight r \<le> deltaHeight l' + 1" using l' assms by auto
    with l' assms show ?thesis by (auto simp: balanceDelta_near)
  qed
  show "avl (balanceDelta x l r') \<and>
      (deltaHeight (balanceDelta x l r') = max (deltaHeight l) (deltaHeight r) + 1 \<or>
       deltaHeight (balanceDelta x l r') = max (deltaHeight l) (deltaHeight r))"
    if r': "avl r'" "deltaHeight r' = deltaHeight r \<or> deltaHeight r' + 1 = deltaHeight r"
  proof (cases "deltaHeight l = deltaHeight r' + 2")
    case True
    with avl_balance_left [OF assms(1) r'(1) this, of x] r'(2) assms show ?thesis by auto
  next
    case False
    then have "deltaHeight r' \<le> deltaHeight l + 1" "deltaHeight l \<le> deltaHeight r' + 1" using r' assms by auto
    with r' assms show ?thesis by (auto simp: balanceDelta_near)
  qed
qed

lemma avl_delete:
  "avl t \<Longrightarrow> avl (fst (deleteDeltaString t k)) \<and>
     (deltaHeight (fst (deleteDeltaString t k)) = deltaHeight t \<or>
      deltaHeight (fst (deleteDeltaString t k)) + 1 = deltaHeight t)"
proof (induction t k rule: deleteDeltaString.induct)
  case (2 x l r h k)
  from 2(4) have n: "avl l" "avl r" "deltaHeight l \<le> deltaHeight r + 1" "deltaHeight r \<le> deltaHeight l + 1"
    and h: "h = max (deltaHeight l) (deltaHeight r) + 1" by simp_all
  note shrink = avl_shrink [OF n]
  consider (less) "k < de_key x" | (greater) "de_key x < k" | (equal) "k = de_key x"
    by (rule linorder_cases)
  then show ?case
  proof cases
    case less
    with 2(1) n(1) shrink(1) [of "fst (deleteDeltaString l k)" x] h 2(4) show ?thesis
      by (auto split: prod.splits)
  next
    case greater
    with 2(2) n(2) shrink(2) [of "fst (deleteDeltaString r k)" x] h 2(4) show ?thesis
      by (auto simp: less_not_sym split: prod.splits)
  next
    case equal
    then show ?thesis
      using 2(3) n h shrink(2) [of "fst (deleteDeltaString r (de_key (leftmost x r)))" "leftmost x r"]
        avl_height_0 [of l] avl_height_0 [of r]
      by (cases "l = DNil \<or> r = DNil") (auto simp: Let_def max_def)
  qed
qed simp

text \<open>A tree of height \<open>h\<close> has at least \<open>2 ^ (h div 2) - 1\<close> entries, so lookups are logarithmic.\<close>

lemma avl_size: "avl t \<Longrightarrow> 2 ^ (deltaHeight t div 2) \<le> length (inorder t) + 1"
proof (induction "deltaHeight t" arbitrary: t rule: less_induct)
  case less
  show ?case
  proof (cases t)
    case (DNode x l r h)
    with less.prems have n: "avl l" "avl r" "h = max (deltaHeight l) (deltaHeight r) + 1"
      "deltaHeight l \<le> deltaHeight r + 1" "deltaHeight r \<le> deltaHeight l + 1" by simp_all
    show ?thesis
    proof (cases "h < 2")
      case False
      have low: "h - 2 \<le> deltaHeight l" "h - 2 \<le> deltaHeight r" using n by auto
      have "2 ^ ((h - 2) div 2) \<le> (2 ^ (deltaHeight l div 2) :: nat)"
        and "2 ^ ((h - 2) div 2) \<le> (2 ^ (deltaHeight r div 2) :: nat)"
        by (intro power_increasing div_le_mono low; simp)+
      moreover have "2 ^ (deltaHeight l div 2) \<le> length (inorder l) + 1"
        and "2 ^ (deltaHeight r div 2) \<le> length (inorder r) + 1"
        using less.hyps [of l] less.hyps [of r] n DNode by auto
      moreover have "h div 2 = Suc ((h - 2) div 2)" using False by simp
      then have "(2 :: nat) ^ (h div 2) = 2 ^ ((h - 2) div 2) + 2 ^ ((h - 2) div 2)" by simp
      ultimately have "2 ^ (h div 2) \<le> length (inorder l) + 1 + (length (inorder r) + 1)" by linarith
      then show ?thesis using DNode by simp
    qed (use DNode in simp)
  qed simp
qed

subsection \<open>The ordered delta as an index\<close>

definition ordered_ok :: "'v deltaNode \<Rightarrow> bool" where
  "ordered_ok t \<longleftrightarrow> delta_sorted t \<and> avl t"

interpretation ordered_delta: delta_index "\<lambda>t e. Some (insertDelta t e)" deleteDeltaString
  "\<lambda>t. set (inorder t)" ordered_ok
proof
  fix t :: "'v deltaNode" and e :: "'v deltaEntry" and k
  assume ok: "ordered_ok t"
  show "x = y" if "x \<in> set (inorder t)" "y \<in> set (inorder t)" "de_key x = de_key y" for x y
    using ok that by (auto simp: ordered_ok_def dest: sorted_on_inj)
  show "\<exists>t'. Some (insertDelta t e) = Some (t', \<exists>x\<in>set (inorder t). de_key x = de_key e) \<and> ordered_ok t' \<and>
      set (inorder t') = insert e {x \<in> set (inorder t). de_key x \<noteq> de_key e}"
    using ok inorder_insert [of t e] insert_replaced [of t e] avl_insert [of t e]
    by (intro exI [of _ "fst (insertDelta t e)"]) (auto simp: ordered_ok_def prod_eq_iff find_on_None_iff)
  show "\<exists>t'. deleteDeltaString t k = (t', \<exists>x\<in>set (inorder t). de_key x = k) \<and> ordered_ok t' \<and>
      set (inorder t') = {x \<in> set (inorder t). de_key x \<noteq> k}"
    using ok delete_spec [of t k] avl_delete [of t k]
    by (intro exI [of _ "fst (deleteDeltaString t k)"]) (auto simp: ordered_ok_def prod_eq_iff find_on_None_iff)
qed

end
