(* ===== verification/Delta_Hash.thy ===== *)
theory Delta_Hash
  imports Delta_Index "HOL-Library.Word"
begin

section \<open>The hash index of the delta\<close>

text \<open>
  \<open>src/pkg/persistenttree/delta_hash.go\<close>: a hash trie with 32-bit bitmaps over 64-bit hashes, five
  bits a level, and leaves that hold every entry of one hash. A slot of the source has a child or a
  leaf, never both and, outside \<open>changes.go\<close>, never neither; here it is one of two constructors. The
  nil node is \<open>None\<close>. Words keep their width: bits beyond the 64th read as 0, as the source's shift
  gives. A slice index out of range, which panics, and the recursion of \<open>mergeDeltaHashLeaves\<close> on
  equal hashes, which would not end, are the result \<open>None\<close> of the insertion.
\<close>

unbundle bit_operations_syntax

definition deltaHashBits :: nat where "deltaHashBits = 5"

record 'v deltaHashLeaf =
  lf_hash :: "64 word"
  lf_entry :: "'v deltaEntry"
  lf_collisions :: "'v deltaEntry list"

datatype 'v deltaHashNode = HNode "32 word" "'v deltaHashSlot list"
and 'v deltaHashSlot = Child "'v deltaHashNode" | Leaf "'v deltaHashLeaf"

definition chunk :: "64 word \<Rightarrow> nat \<Rightarrow> nat" where
  "chunk hash shift = unat (drop_bit shift hash AND (push_bit deltaHashBits 1 - 1))"

definition deltaHashBit :: "64 word \<Rightarrow> nat \<Rightarrow> 32 word" where
  "deltaHashBit hash shift = push_bit (chunk hash shift) 1"

definition OnesCount32 :: "32 word \<Rightarrow> nat" where
  "OnesCount32 w = length (filter (bit w) [0..<32])"

definition deltaHashSlotIndex :: "32 word \<Rightarrow> 32 word \<Rightarrow> nat" where
  "deltaHashSlotIndex bm b = OnesCount32 (bm AND (b - 1))"

text \<open>\<open>node.slots[index]\<close>; an index out of range is \<open>None\<close>.\<close>

definition slotAt :: "'a list \<Rightarrow> nat \<Rightarrow> 'a option" where
  "slotAt xs i = (if i < length xs then Some (xs ! i) else None)"

lemma slotAt_child_size [termination_simp]:
  assumes "slotAt xs i = Some (Child c)"
  shows "size c < Suc (size_list size xs)"
proof -
  have "i < length xs" "xs ! i = Child c" using assms by (auto simp: slotAt_def split: if_splits)
  then have "Child c \<in> set xs" by (metis nth_mem)
  then have "size (Child c) \<le> size_list size xs" by (rule size_list_estimation') simp
  then show ?thesis by simp
qed

definition findInLeaf :: "'v deltaHashLeaf \<Rightarrow> string \<Rightarrow> 'v deltaEntry option" where
  "findInLeaf l k =
     (if de_key (lf_entry l) = k then Some (lf_entry l)
      else find (\<lambda>e. de_key e = k) (lf_collisions l))"

text \<open>\<open>getDeltaHash\<close> and \<open>getDeltaHashString\<close>, which differ only in the type of the key.\<close>

fun getDeltaHashAt :: "'v deltaHashNode \<Rightarrow> string \<Rightarrow> 64 word \<Rightarrow> nat \<Rightarrow> 'v deltaEntry option" where
  "getDeltaHashAt (HNode bm ss) k hash shift =
     (if bm AND deltaHashBit hash shift = 0 then None
      else case slotAt ss (deltaHashSlotIndex bm (deltaHashBit hash shift)) of
        None \<Rightarrow> None
      | Some (Child c) \<Rightarrow> getDeltaHashAt c k hash (shift + deltaHashBits)
      | Some (Leaf l) \<Rightarrow> if lf_hash l \<noteq> hash then None else findInLeaf l k)"

definition getDeltaHash :: "'v deltaHashNode option \<Rightarrow> string \<Rightarrow> 64 word \<Rightarrow> 'v deltaEntry option" where
  "getDeltaHash node k hash = (case node of None \<Rightarrow> None | Some n \<Rightarrow> getDeltaHashAt n k hash 0)"

definition newDeltaHashLeaf :: "64 word \<Rightarrow> 'v deltaEntry \<Rightarrow> 'v deltaHashLeaf" where
  "newDeltaHashLeaf hash e = \<lparr>lf_hash = hash, lf_entry = e, lf_collisions = []\<rparr>"

text \<open>The loop over the collisions: replace the entry of the key, or \<open>None\<close> when there is none.\<close>

fun replaceEntry :: "'v deltaEntry list \<Rightarrow> 'v deltaEntry \<Rightarrow> ('v deltaEntry list \<times> 'v deltaEntry) option" where
  "replaceEntry [] e = None"
| "replaceEntry (c # cs) e =
     (if de_key c \<noteq> de_key e then map_option (\<lambda>(cs', old). (c # cs', old)) (replaceEntry cs e)
      else Some (e # cs, c))"

definition insertDeltaHashLeaf ::
  "'v deltaHashLeaf \<Rightarrow> 'v deltaEntry \<Rightarrow> 'v deltaHashLeaf \<times> 'v deltaEntry option \<times> bool" where
  "insertDeltaHashLeaf l e =
     (if de_key (lf_entry l) = de_key e then (l\<lparr>lf_entry := e\<rparr>, Some (lf_entry l), True)
      else case replaceEntry (lf_collisions l) e of
        Some (cs, old) \<Rightarrow> (l\<lparr>lf_collisions := cs\<rparr>, Some old, True)
      | None \<Rightarrow> (l\<lparr>lf_collisions := lf_collisions l @ [e]\<rparr>, None, False))"

partial_function (option) mergeDeltaHashLeaves ::
  "'v deltaHashLeaf \<Rightarrow> 'v deltaHashLeaf \<Rightarrow> nat \<Rightarrow> 'v deltaHashNode option" where
  "mergeDeltaHashLeaves left right shift =
     (let leftBit = deltaHashBit (lf_hash left) shift; rightBit = deltaHashBit (lf_hash right) shift in
      if leftBit = rightBit
      then Option.bind (mergeDeltaHashLeaves left right (shift + deltaHashBits))
             (\<lambda>c. Some (HNode leftBit [Child c]))
      else if leftBit < rightBit then Some (HNode (leftBit OR rightBit) [Leaf left, Leaf right])
      else Some (HNode (leftBit OR rightBit) [Leaf right, Leaf left]))"

fun insertDeltaHashAt ::
  "'v deltaHashNode \<Rightarrow> 64 word \<Rightarrow> 'v deltaEntry \<Rightarrow> nat
     \<Rightarrow> ('v deltaHashNode \<times> 'v deltaEntry option \<times> bool) option" where
  "insertDeltaHashAt (HNode bm ss) hash e shift =
     (let b = deltaHashBit hash shift; index = deltaHashSlotIndex bm b in
      if bm AND b = 0
      then Some (HNode (bm OR b) (take index ss @ Leaf (newDeltaHashLeaf hash e) # drop index ss), None, False)
      else case slotAt ss index of
        None \<Rightarrow> None
      | Some (Child c) \<Rightarrow>
          (case insertDeltaHashAt c hash e (shift + deltaHashBits) of
             None \<Rightarrow> None
           | Some (c', previous, replaced) \<Rightarrow> Some (HNode bm (ss[index := Child c']), previous, replaced))
      | Some (Leaf l) \<Rightarrow>
          if lf_hash l = hash
          then (case insertDeltaHashLeaf l e of (l', previous, replaced) \<Rightarrow>
                  Some (HNode bm (ss[index := Leaf l']), previous, replaced))
          else (case mergeDeltaHashLeaves l (newDeltaHashLeaf hash e) (shift + deltaHashBits) of
                  None \<Rightarrow> None
                | Some c \<Rightarrow> Some (HNode bm (ss[index := Child c]), None, False)))"

definition insertDeltaHash ::
  "'v deltaHashNode option \<Rightarrow> 64 word \<Rightarrow> 'v deltaEntry
     \<Rightarrow> ('v deltaHashNode \<times> 'v deltaEntry option \<times> bool) option" where
  "insertDeltaHash node hash e =
     (case node of
        None \<Rightarrow> Some (HNode (deltaHashBit hash 0) [Leaf (newDeltaHashLeaf hash e)], None, False)
      | Some n \<Rightarrow> insertDeltaHashAt n hash e 0)"

fun removeEntry :: "'v deltaEntry list \<Rightarrow> string \<Rightarrow> ('v deltaEntry list \<times> 'v deltaEntry) option" where
  "removeEntry [] k = None"
| "removeEntry (c # cs) k =
     (if de_key c \<noteq> k then map_option (\<lambda>(cs', old). (c # cs', old)) (removeEntry cs k)
      else Some (cs, c))"

text \<open>The first component is the leaf that remains, \<open>None\<close> when it is gone.\<close>

definition deleteDeltaHashLeaf ::
  "'v deltaHashLeaf \<Rightarrow> string \<Rightarrow> 'v deltaHashLeaf option \<times> 'v deltaEntry option \<times> bool" where
  "deleteDeltaHashLeaf l k =
     (if de_key (lf_entry l) = k
      then (case lf_collisions l of
              [] \<Rightarrow> (None, Some (lf_entry l), True)
            | c # cs \<Rightarrow> (Some (l\<lparr>lf_entry := c, lf_collisions := cs\<rparr>), Some (lf_entry l), True))
      else case removeEntry (lf_collisions l) k of
        Some (cs, old) \<Rightarrow> (Some (l\<lparr>lf_collisions := cs\<rparr>), Some old, True)
      | None \<Rightarrow> (Some l, None, False))"

definition removeDeltaHashSlot :: "'v deltaHashNode \<Rightarrow> 32 word \<Rightarrow> nat \<Rightarrow> 'v deltaHashNode option" where
  "removeDeltaHashSlot node b index =
     (case node of HNode bm ss \<Rightarrow>
        if length ss = 1 then None
        else Some (HNode (bm AND NOT b) (take index ss @ drop (Suc index) ss)))"

fun singleDeltaHashLeaf :: "'v deltaHashNode \<Rightarrow> 'v deltaHashLeaf option" where
  "singleDeltaHashLeaf (HNode bm [Leaf l]) = Some l"
| "singleDeltaHashLeaf (HNode bm [Child c]) = singleDeltaHashLeaf c"
| "singleDeltaHashLeaf (HNode bm _) = None"

fun deleteDeltaHashAt ::
  "'v deltaHashNode \<Rightarrow> string \<Rightarrow> 64 word \<Rightarrow> nat
     \<Rightarrow> 'v deltaHashNode option \<times> 'v deltaEntry option \<times> bool" where
  "deleteDeltaHashAt (HNode bm ss) k hash shift =
     (let b = deltaHashBit hash shift; index = deltaHashSlotIndex bm b; node = HNode bm ss in
      if bm AND b = 0 then (Some node, None, False)
      else case slotAt ss index of
        None \<Rightarrow> (Some node, None, False)
      | Some (Child c) \<Rightarrow>
          (case deleteDeltaHashAt c k hash (shift + deltaHashBits) of (child, previous, removed) \<Rightarrow>
             if \<not> removed then (Some node, None, False)
             else case child of
               None \<Rightarrow> (removeDeltaHashSlot node b index, previous, True)
             | Some c' \<Rightarrow>
                 (Some (HNode bm (ss[index :=
                    (case singleDeltaHashLeaf c' of Some l \<Rightarrow> Leaf l | None \<Rightarrow> Child c')])), previous, True))
      | Some (Leaf l) \<Rightarrow>
          if lf_hash l \<noteq> hash then (Some node, None, False)
          else case deleteDeltaHashLeaf l k of (leaf, previous, removed) \<Rightarrow>
            if \<not> removed then (Some node, None, False)
            else case leaf of
              None \<Rightarrow> (removeDeltaHashSlot node b index, previous, True)
            | Some l' \<Rightarrow> (Some (HNode bm (ss[index := Leaf l'])), previous, True))"

definition deleteDeltaHash ::
  "'v deltaHashNode option \<Rightarrow> string \<Rightarrow> 64 word
     \<Rightarrow> 'v deltaHashNode option \<times> 'v deltaEntry option \<times> bool" where
  "deleteDeltaHash node k hash =
     (case node of None \<Rightarrow> (None, None, False) | Some n \<Rightarrow> deleteDeltaHashAt n k hash 0)"

subsection \<open>Bitmaps and slot positions\<close>

definition rank :: "(nat \<Rightarrow> bool) \<Rightarrow> nat \<Rightarrow> nat" where
  "rank P n = length (filter P [0..<n])"

lemma rank_0 [simp]: "rank P 0 = 0"
  by (simp add: rank_def)

lemma rank_Suc [simp]: "rank P (Suc n) = rank P n + (if P n then 1 else 0)"
  by (simp add: rank_def)

lemma rank_mono: "m \<le> n \<Longrightarrow> rank P m \<le> rank P n"
  by (induction n) (auto simp: le_Suc_eq)

lemma rank_strict: "P m \<Longrightarrow> m < n \<Longrightarrow> rank P m < rank P n"
  using rank_mono [of "Suc m" n P] by simp

lemma rank_inj: "P m \<Longrightarrow> P n \<Longrightarrow> rank P m = rank P n \<Longrightarrow> m = n"
  by (metis nat_neq_iff rank_strict)

lemma rank_cong: "(\<And>i. i < n \<Longrightarrow> P i = Q i) \<Longrightarrow> rank P n = rank Q n"
  by (induction n) auto

lemma rank_add:
  "\<not> P p \<Longrightarrow> rank (\<lambda>i. P i \<or> i = p) n = rank P n + (if p < n then 1 else 0)"
  by (induction n) (auto simp: less_Suc_eq)

lemma rank_remove:
  "P p \<Longrightarrow> rank (\<lambda>i. P i \<and> i \<noteq> p) n = rank P n - (if p < n then 1 else 0)"
proof -
  assume "P p"
  then have "(\<lambda>i. P i \<and> i \<noteq> p \<or> i = p) = P" by auto
  with rank_add [of "\<lambda>i. P i \<and> i \<noteq> p" p n] show ?thesis by simp
qed

lemma rank_surj: "i < rank P n \<Longrightarrow> \<exists>p<n. P p \<and> rank P p = i"
proof (induction n)
  case (Suc n)
  then show ?case by (cases "i < rank P n") (auto simp: less_Suc_eq split: if_splits)
qed simp

definition slotOf :: "(nat \<Rightarrow> bool) \<Rightarrow> 'a list \<Rightarrow> nat \<Rightarrow> 'a option" where
  "slotOf P ss p = (if P p then slotAt ss (rank P p) else None)"

text \<open>A slot list with one slot for every set position below 32.\<close>

definition covers :: "(nat \<Rightarrow> bool) \<Rightarrow> 'a list \<Rightarrow> bool" where
  "covers P ss \<longleftrightarrow> length ss = rank P 32 \<and> (\<forall>p. P p \<longrightarrow> p < 32)"

lemma covers_rank: "covers P ss \<Longrightarrow> P p \<Longrightarrow> rank P p < length ss"
  by (auto simp: covers_def rank_strict)

lemma slotOf_covers: "covers P ss \<Longrightarrow> slotOf P ss p = (if P p then Some (ss ! rank P p) else None)"
  by (auto simp: slotOf_def slotAt_def covers_rank)

lemma set_slots: "covers P ss \<Longrightarrow> set ss = {x. \<exists>p. slotOf P ss p = Some x}"
proof (intro set_eqI iffI)
  assume c: "covers P ss"
  fix x assume "x \<in> set ss"
  then obtain i where "i < length ss" "ss ! i = x" by (auto simp: in_set_conv_nth)
  with c rank_surj [of i P 32] obtain p where "P p" "rank P p = i" by (auto simp: covers_def)
  with c \<open>ss ! i = x\<close> show "x \<in> {x. \<exists>p. slotOf P ss p = Some x}" by (auto simp: slotOf_covers)
next
  assume c: "covers P ss"
  fix x assume "x \<in> {x. \<exists>p. slotOf P ss p = Some x}"
  then obtain p where "P p" "ss ! rank P p = x" by (auto simp: slotOf_covers [OF c] split: if_splits)
  with covers_rank [OF c] show "x \<in> set ss" by (metis nth_mem)
qed

lemma slots_insert:
  fixes x
  assumes c: "covers P ss" and p: "\<not> P p" "p < 32"
  defines "ss' \<equiv> take (rank P p) ss @ x # drop (rank P p) ss"
  defines "P' \<equiv> (\<lambda>i. P i \<or> i = p)"
  shows "covers P' ss'" and "slotOf P' ss' q = (if q = p then Some x else slotOf P ss q)"
proof -
  have le: "rank P p \<le> length ss" using c p rank_mono [of p 32 P] by (auto simp: covers_def)
  show c': "covers P' ss'"
    using c p le by (auto simp: covers_def P'_def ss'_def rank_add)
  show "slotOf P' ss' q = (if q = p then Some x else slotOf P ss q)"
  proof (cases "P' q \<and> q \<noteq> p")
    case True
    then have q: "P q" "q \<noteq> p" by (auto simp: P'_def)
    have r: "rank P' q = rank P q + (if p < q then 1 else 0)" using p by (simp add: P'_def rank_add)
    show ?thesis
    proof (cases "p < q")
      case True
      then have "rank P p \<le> rank P q" by (simp add: rank_mono)
      with True \<open>P' q \<and> q \<noteq> p\<close> q r le covers_rank [OF c q(1)] show ?thesis
        by (simp add: slotOf_covers [OF c] slotOf_covers [OF c' [unfolded ss'_def]] ss'_def nth_append)
    next
      case False
      with q have "rank P q < rank P p" by (auto intro: rank_strict)
      with False \<open>P' q \<and> q \<noteq> p\<close> q r le show ?thesis
        by (simp add: slotOf_covers [OF c] slotOf_covers [OF c' [unfolded ss'_def]] ss'_def nth_append)
    qed
  next
    case False
    have r: "rank P' p = rank P p" and here: "P' p" using p by (simp_all add: P'_def rank_add)
    have "ss' ! rank P p = x" using le by (simp add: ss'_def nth_append)
    then have at: "slotOf P' ss' p = Some x" by (simp add: slotOf_covers [OF c'] here r)
    have other: "slotOf P' ss' q = None" "slotOf P ss q = None" if "\<not> P' q"
      using that unfolding slotOf_def P'_def by simp_all
    show ?thesis
    proof (cases "q = p")
      case True
      then show ?thesis using at by simp
    next
      case neq: False
      with False have "\<not> P' q" by blast
      from other [OF this] neq show ?thesis by simp
    qed
  qed
qed

lemma slots_update:
  assumes c: "covers P ss" and p: "P p"
  shows "covers P (ss[rank P p := x])"
    and "slotOf P (ss[rank P p := x]) q = (if q = p then Some x else slotOf P ss q)"
proof -
  show c': "covers P (ss[rank P p := x])" using c by (simp add: covers_def)
  show "slotOf P (ss[rank P p := x]) q = (if q = p then Some x else slotOf P ss q)"
    using p covers_rank [OF c] rank_inj [of P p q]
    by (auto simp: slotOf_covers [OF c] slotOf_covers [OF c'] nth_list_update)
qed

lemma slots_remove:
  assumes c: "covers P ss" and p: "P p"
  defines "ss' \<equiv> take (rank P p) ss @ drop (Suc (rank P p)) ss"
  defines "P' \<equiv> (\<lambda>i. P i \<and> i \<noteq> p)"
  shows "covers P' ss'" and "slotOf P' ss' q = (if q = p then None else slotOf P ss q)"
proof -
  have lt: "rank P p < length ss" by (rule covers_rank [OF c p])
  show c': "covers P' ss'"
    using c p lt by (auto simp: covers_def P'_def ss'_def rank_remove)
  show "slotOf P' ss' q = (if q = p then None else slotOf P ss q)"
  proof (cases "P' q")
    case True
    then have q: "P q" "q \<noteq> p" by (auto simp: P'_def)
    have r: "rank P' q = rank P q - (if p < q then 1 else 0)" using p by (simp add: P'_def rank_remove)
    show ?thesis
    proof (cases "p < q")
      case pq: True
      with p have "rank P p < rank P q" by (rule rank_strict)
      with pq q r True lt covers_rank [OF c q(1)] show ?thesis
        by (auto simp: slotOf_covers [OF c] slotOf_covers [OF c' [unfolded ss'_def]] ss'_def nth_append)
    next
      case False
      with q have "rank P q < rank P p" by (auto intro: rank_strict)
      with False q r True lt show ?thesis
        by (simp add: slotOf_covers [OF c] slotOf_covers [OF c' [unfolded ss'_def]] ss'_def nth_append)
    qed
  next
    case False
    then show ?thesis
      by (auto simp: slotOf_covers [OF c] slotOf_covers [OF c']) (auto simp: P'_def)
  qed
qed

subsection \<open>Hash chunks\<close>

lemma chunk_eq: "chunk hash shift = take_bit 5 (unat (drop_bit shift hash))"
  by (simp add: chunk_def deltaHashBits_def take_bit_eq_mask mask_eq_exp_minus_1 unsigned_and_eq push_bit_eq_mult)

lemma chunk_less: "chunk hash shift < 32"
  unfolding chunk_eq using take_bit_nat_less_exp [of 5] by simp

lemma bit_deltaHashBit: "bit (deltaHashBit hash shift) i \<longleftrightarrow> i = chunk hash shift"
  using chunk_less [of hash shift]
  by (auto simp: deltaHashBit_def bit_exp_iff)

lemma and_bit_zero: "bm AND deltaHashBit hash shift = 0 \<longleftrightarrow> \<not> bit bm (chunk hash shift)"
  using chunk_less [of hash shift]
  by (auto simp: bit_eq_iff [of "_ AND _"] bit_and_iff bit_deltaHashBit)

lemma slotIndex_rank: "deltaHashSlotIndex bm (deltaHashBit hash shift) = rank (bit bm) (chunk hash shift)"
proof -
  let ?p = "chunk hash shift"
  have "deltaHashBit hash shift - 1 = mask ?p"
    by (simp add: deltaHashBit_def mask_eq_exp_minus_1 push_bit_eq_mult)
  then have "OnesCount32 (bm AND (deltaHashBit hash shift - 1)) = rank (\<lambda>i. bit bm i \<and> i < ?p) 32"
    unfolding OnesCount32_def rank_def
    by (auto simp: bit_and_iff bit_mask_iff intro!: arg_cong [where f=length] filter_cong)
  also have "rank (\<lambda>i. bit bm i \<and> i < ?p) n = rank (bit bm) (min n ?p)" for n
    by (induction n) (auto simp: min_def not_le less_Suc_eq)
  then have "rank (\<lambda>i. bit bm i \<and> i < ?p) 32 = rank (bit bm) ?p"
    using chunk_less [of hash shift] by (simp add: min_def)
  finally show ?thesis by (simp add: deltaHashSlotIndex_def)
qed

lemma bitmap_or: "bit (bm OR deltaHashBit hash shift) = (\<lambda>i. bit bm i \<or> i = chunk hash shift)"
  by (auto simp: fun_eq_iff bit_or_iff bit_deltaHashBit)

lemma bitmap_clear: "bit (bm AND NOT (deltaHashBit hash shift)) = (\<lambda>i. bit bm i \<and> i \<noteq> chunk hash shift)"
  by (auto simp: fun_eq_iff bit_and_iff bit_not_iff bit_deltaHashBit dest: bit_imp_le_length)

subsection \<open>Leaves\<close>

definition leafEntries :: "'v deltaHashLeaf \<Rightarrow> 'v deltaEntry list" where
  "leafEntries l = lf_entry l # lf_collisions l"

definition leaf_ok :: "(string \<Rightarrow> 64 word) \<Rightarrow> 'v deltaHashLeaf \<Rightarrow> bool" where
  "leaf_ok h l \<longleftrightarrow> distinct (map de_key (leafEntries l)) \<and>
     (\<forall>e\<in>set (leafEntries l). h (de_key e) = lf_hash l)"

lemma findInLeaf_iff:
  "leaf_ok h l \<Longrightarrow> findInLeaf l k = Some e \<longleftrightarrow> e \<in> set (leafEntries l) \<and> de_key e = k"
proof -
  assume ok: "leaf_ok h l"
  have "findInLeaf l k = find (\<lambda>e. de_key e = k) (leafEntries l)"
    by (simp add: findInLeaf_def leafEntries_def)
  moreover have "distinct (map de_key xs) \<Longrightarrow>
      find (\<lambda>e. de_key e = k) xs = Some e \<longleftrightarrow> e \<in> set xs \<and> de_key e = k" for xs
    by (induction xs) force+
  ultimately show ?thesis using ok by (simp add: leaf_ok_def)
qed

lemma replaceEntry_None: "replaceEntry cs e = None \<longleftrightarrow> (\<forall>c\<in>set cs. de_key c \<noteq> de_key e)"
  by (induction cs) auto

lemma replaceEntry_Some:
  "replaceEntry cs e = Some (cs', old) \<Longrightarrow> distinct (map de_key cs) \<Longrightarrow>
     map de_key cs' = map de_key cs \<and> set cs' = insert e {x \<in> set cs. de_key x \<noteq> de_key e} \<and>
     de_key e \<in> de_key ` set cs"
proof (induction cs arbitrary: cs')
  case (Cons c cs)
  show ?case
  proof (cases "de_key c = de_key e")
    case True
    with Cons.prems have "\<forall>x\<in>set cs. de_key x \<noteq> de_key e" by (metis image_eqI distinct.simps(2) list.simps(9) set_map)
    with Cons.prems True show ?thesis by auto
  next
    case False
    with Cons.prems obtain ds where "replaceEntry cs e = Some (ds, old)" "cs' = c # ds" by auto
    with Cons.IH [of ds] Cons.prems False show ?thesis by auto
  qed
qed simp

lemma removeEntry_None: "removeEntry cs k = None \<longleftrightarrow> (\<forall>c\<in>set cs. de_key c \<noteq> k)"
  by (induction cs) auto

lemma removeEntry_Some:
  "removeEntry cs k = Some (cs', old) \<Longrightarrow> distinct (map de_key cs) \<Longrightarrow>
     distinct (map de_key cs') \<and> set cs' = {x \<in> set cs. de_key x \<noteq> k} \<and> k \<in> de_key ` set cs"
proof (induction cs arbitrary: cs')
  case (Cons c cs)
  show ?case
  proof (cases "de_key c = k")
    case True
    with Cons.prems have "\<forall>x\<in>set cs. de_key x \<noteq> k" by (metis image_eqI distinct.simps(2) list.simps(9) set_map)
    with Cons.prems True show ?thesis by auto
  next
    case False
    with Cons.prems obtain ds where "removeEntry cs k = Some (ds, old)" "cs' = c # ds" by auto
    with Cons.IH [of ds] Cons.prems False show ?thesis by auto
  qed
qed simp

lemma insertLeaf_spec:
  assumes "insertDeltaHashLeaf l e = (l', previous, replaced)"
    and "leaf_ok h l" and "h (de_key e) = lf_hash l"
  shows "leaf_ok h l' \<and> lf_hash l' = lf_hash l \<and>
    set (leafEntries l') = insert e {x \<in> set (leafEntries l). de_key x \<noteq> de_key e} \<and>
    replaced = (\<exists>x\<in>set (leafEntries l). de_key x = de_key e)"
proof (cases "de_key (lf_entry l) = de_key e")
  case True
  with assms have "\<forall>x\<in>set (lf_collisions l). de_key x \<noteq> de_key e"
    by (simp add: leaf_ok_def leafEntries_def) (metis image_eqI)
  with True assms show ?thesis
    by (auto simp: insertDeltaHashLeaf_def leaf_ok_def leafEntries_def)
next
  case False
  show ?thesis
  proof (cases "replaceEntry (lf_collisions l) e")
    case None
    with False assms show ?thesis
      by (auto simp: insertDeltaHashLeaf_def leaf_ok_def leafEntries_def replaceEntry_None) metis
  next
    case (Some r)
    then obtain cs old where r: "replaceEntry (lf_collisions l) e = Some (cs, old)" by (cases r) simp
    moreover have "distinct (map de_key (lf_collisions l))" using assms by (simp add: leaf_ok_def leafEntries_def)
    ultimately have cs: "map de_key cs = map de_key (lf_collisions l)"
      "set cs = insert e {x \<in> set (lf_collisions l). de_key x \<noteq> de_key e}"
      "de_key e \<in> de_key ` set (lf_collisions l)" using replaceEntry_Some by blast+
    from cs(1) have "de_key ` set cs = de_key ` set (lf_collisions l)" by (metis set_map)
    with False assms r cs show ?thesis
      by (auto simp: insertDeltaHashLeaf_def leaf_ok_def leafEntries_def)
  qed
qed

lemma deleteLeaf_spec:
  assumes "deleteDeltaHashLeaf l k = (l', previous, removed)" and "leaf_ok h l"
  shows "removed = (\<exists>x\<in>set (leafEntries l). de_key x = k) \<and>
    (removed \<longrightarrow> (case l' of
       None \<Rightarrow> {x \<in> set (leafEntries l). de_key x \<noteq> k} = {}
     | Some m \<Rightarrow> leaf_ok h m \<and> lf_hash m = lf_hash l \<and> set (leafEntries m) = {x \<in> set (leafEntries l). de_key x \<noteq> k}))"
proof (cases "de_key (lf_entry l) = k")
  case True
  with assms have "\<forall>x\<in>set (lf_collisions l). de_key x \<noteq> k"
    by (simp add: leaf_ok_def leafEntries_def) (metis image_eqI)
  with True assms show ?thesis
    by (auto simp: deleteDeltaHashLeaf_def leaf_ok_def leafEntries_def split: list.splits)
next
  case False
  show ?thesis
  proof (cases "removeEntry (lf_collisions l) k")
    case None
    with False assms show ?thesis
      by (auto simp: deleteDeltaHashLeaf_def leafEntries_def removeEntry_None)
  next
    case (Some r)
    then obtain cs old where r: "removeEntry (lf_collisions l) k = Some (cs, old)" by (cases r) simp
    moreover have "distinct (map de_key (lf_collisions l))" using assms by (simp add: leaf_ok_def leafEntries_def)
    ultimately have "distinct (map de_key cs) \<and> set cs = {x \<in> set (lf_collisions l). de_key x \<noteq> k} \<and>
      k \<in> de_key ` set (lf_collisions l)" by (rule removeEntry_Some)
    with False assms r show ?thesis
      by (auto simp: deleteDeltaHashLeaf_def leaf_ok_def leafEntries_def)
  qed
qed

subsection \<open>The invariant of the trie\<close>

primrec hleaves :: "'v deltaHashNode \<Rightarrow> 'v deltaHashLeaf set"
  and sleaves :: "'v deltaHashSlot \<Rightarrow> 'v deltaHashLeaf set" where
  "hleaves (HNode bm ss) = \<Union> (set (map sleaves ss))"
| "sleaves (Child c) = hleaves c"
| "sleaves (Leaf l) = {l}"

definition entriesOf :: "'v deltaHashLeaf set \<Rightarrow> 'v deltaEntry set" where
  "entriesOf ls = (\<Union>l\<in>ls. set (leafEntries l))"

text \<open>
  The bitmap says which slots there are, a leaf under the slot of a position has that chunk in its
  hash, leaves are well formed and no node is empty.
\<close>

inductive hwf :: "(string \<Rightarrow> 64 word) \<Rightarrow> nat \<Rightarrow> 'v deltaHashNode \<Rightarrow> bool" for h where
  "covers (bit bm) ss \<Longrightarrow> ss \<noteq> [] \<Longrightarrow>
   (\<And>p sl. slotOf (bit bm) ss p = Some sl \<Longrightarrow>
      \<forall>l\<in>sleaves sl. leaf_ok h l \<and> chunk (lf_hash l) shift = p) \<Longrightarrow>
   (\<And>p c. slotOf (bit bm) ss p = Some (Child c) \<Longrightarrow> hwf h (shift + deltaHashBits) c) \<Longrightarrow>
   hwf h shift (HNode bm ss)"

inductive_cases hwf_NodeE: "hwf h shift (HNode bm ss)"

lemma hleaves_slots:
  assumes "covers (bit bm) ss"
  shows "hleaves (HNode bm ss) = (\<Union>sl\<in>{x. \<exists>p. slotOf (bit bm) ss p = Some x}. sleaves sl)"
  by (simp add: set_slots [OF assms])

lemma hleaves_nonempty: "hwf h shift n \<Longrightarrow> hleaves n \<noteq> {}"
proof (induction rule: hwf.induct)
  case (1 bm ss shift)
  then obtain sl where "sl \<in> set ss" by (meson last_in_set)
  then obtain p where p: "slotOf (bit bm) ss p = Some sl" using set_slots [OF 1(1)] by auto
  have "sleaves sl \<noteq> {}" using p 1(5) by (cases sl) auto
  with \<open>sl \<in> set ss\<close> show ?case by auto
qed

lemma hwf_leaf_ok: "hwf h shift n \<Longrightarrow> l \<in> hleaves n \<Longrightarrow> leaf_ok h l"
  by (erule hwf.cases) (auto simp: set_slots)

lemma get_spec:
  assumes "hwf h shift n"
  shows "getDeltaHashAt n k (h k) shift = Some e \<longleftrightarrow> e \<in> entriesOf (hleaves n) \<and> de_key e = k"
  using assms
proof (induction arbitrary: rule: hwf.induct)
  case (1 bm ss shift)
  let ?p = "chunk (h k) shift"
  have only: "e \<in> entriesOf (hleaves (HNode bm ss)) \<and> de_key e = k \<longleftrightarrow>
      (\<exists>sl. slotOf (bit bm) ss ?p = Some sl \<and> e \<in> entriesOf (sleaves sl) \<and> de_key e = k)"
  proof
    assume e: "e \<in> entriesOf (hleaves (HNode bm ss)) \<and> de_key e = k"
    then obtain p sl l where sl: "slotOf (bit bm) ss p = Some sl" "l \<in> sleaves sl" "e \<in> set (leafEntries l)"
      unfolding hleaves_slots [OF 1(1)] entriesOf_def by blast
    from 1(3) [OF sl(1)] sl(2,3) e have "p = ?p" by (auto simp: leaf_ok_def)
    with sl e show "\<exists>sl. slotOf (bit bm) ss ?p = Some sl \<and> e \<in> entriesOf (sleaves sl) \<and> de_key e = k"
      by (auto simp: entriesOf_def)
  next
    assume "\<exists>sl. slotOf (bit bm) ss ?p = Some sl \<and> e \<in> entriesOf (sleaves sl) \<and> de_key e = k"
    then show "e \<in> entriesOf (hleaves (HNode bm ss)) \<and> de_key e = k"
      unfolding hleaves_slots [OF 1(1)] entriesOf_def by blast
  qed
  show ?case
  proof (cases "slotOf (bit bm) ss ?p")
    case None
    then show ?thesis
      unfolding only by (auto simp: and_bit_zero slotIndex_rank slotOf_def split: if_splits)
  next
    case (Some sl)
    then have at: "bit bm ?p" "slotAt ss (rank (bit bm) ?p) = Some sl"
      by (auto simp: slotOf_def split: if_splits)
    show ?thesis
    proof (cases sl)
      case (Child c)
      with 1(5) [of ?p c] Some at only show ?thesis by (simp add: and_bit_zero slotIndex_rank)
    next
      case (Leaf l)
      with 1(3) [OF Some] have ok: "leaf_ok h l" by simp
      have "lf_hash l = h k" if "e \<in> set (leafEntries l)" "de_key e = k"
        using ok that by (auto simp: leaf_ok_def)
      with Leaf Some at only findInLeaf_iff [OF ok] show ?thesis
        by (auto simp: and_bit_zero slotIndex_rank entriesOf_def)
    qed
  qed
qed

subsection \<open>Replacing one slot\<close>

definition othersOf :: "(nat \<Rightarrow> bool) \<Rightarrow> 'v deltaHashSlot list \<Rightarrow> nat \<Rightarrow> 'v deltaHashLeaf set" where
  "othersOf P ss p = \<Union> {sleaves sl | sl q. q \<noteq> p \<and> slotOf P ss q = Some sl}"

lemma hleaves_split:
  assumes "covers (bit bm) ss"
  shows "hleaves (HNode bm ss) =
    (case slotOf (bit bm) ss p of None \<Rightarrow> {} | Some sl \<Rightarrow> sleaves sl) \<union> othersOf (bit bm) ss p"
proof (rule set_eqI)
  fix l
  have "l \<in> hleaves (HNode bm ss) \<longleftrightarrow> (\<exists>q sl. slotOf (bit bm) ss q = Some sl \<and> l \<in> sleaves sl)"
    unfolding hleaves_slots [OF assms] by blast
  also have "\<dots> \<longleftrightarrow> (\<exists>sl. slotOf (bit bm) ss p = Some sl \<and> l \<in> sleaves sl) \<or>
      (\<exists>q sl. q \<noteq> p \<and> slotOf (bit bm) ss q = Some sl \<and> l \<in> sleaves sl)"
    by metis
  also have "(\<exists>q sl. q \<noteq> p \<and> slotOf (bit bm) ss q = Some sl \<and> l \<in> sleaves sl) \<longleftrightarrow> l \<in> othersOf (bit bm) ss p"
    by (auto simp: othersOf_def)
  finally show "l \<in> hleaves (HNode bm ss) \<longleftrightarrow> l \<in> (case slotOf (bit bm) ss p of None \<Rightarrow> {} | Some sl \<Rightarrow> sleaves sl)
      \<union> othersOf (bit bm) ss p" by (auto split: option.splits)
qed

lemma othersOf_cong:
  "(\<And>q. q \<noteq> p \<Longrightarrow> slotOf P ss q = slotOf Q ts q) \<Longrightarrow> othersOf P ss p = othersOf Q ts p"
  unfolding othersOf_def by metis

text \<open>The entries of the other slots have other keys than one whose hash leads to this slot.\<close>

lemma others_keys:
  assumes "hwf h shift (HNode bm ss)" and "x \<in> entriesOf (othersOf (bit bm) ss (chunk (h k) shift))"
  shows "de_key x \<noteq> k"
proof
  assume "de_key x = k"
  from assms(2) obtain sl q l where "q \<noteq> chunk (h k) shift" "slotOf (bit bm) ss q = Some sl"
    "l \<in> sleaves sl" "x \<in> set (leafEntries l)" unfolding entriesOf_def othersOf_def by blast
  with assms(1) \<open>de_key x = k\<close> show False by (elim hwf_NodeE) (fastforce simp: leaf_ok_def)
qed

text \<open>What a slot must satisfy to stand at a position.\<close>

definition slot_ok :: "(string \<Rightarrow> 64 word) \<Rightarrow> nat \<Rightarrow> nat \<Rightarrow> 'v deltaHashSlot \<Rightarrow> bool" where
  "slot_ok h shift p sl \<longleftrightarrow>
     (\<forall>l\<in>sleaves sl. leaf_ok h l \<and> chunk (lf_hash l) shift = p) \<and>
     (\<forall>c. sl = Child c \<longrightarrow> hwf h (shift + deltaHashBits) c)"

lemma hwf_iff_slots:
  "hwf h shift (HNode bm ss) \<longleftrightarrow> covers (bit bm) ss \<and> ss \<noteq> [] \<and>
     (\<forall>p sl. slotOf (bit bm) ss p = Some sl \<longrightarrow> slot_ok h shift p sl)"
  by (subst hwf.simps) (auto simp: slot_ok_def)

lemma hwf_update:
  assumes "hwf h shift (HNode bm ss)" and "bit bm p" and "slot_ok h shift p sl"
  shows "hwf h shift (HNode bm (ss[rank (bit bm) p := sl]))"
    and "hleaves (HNode bm (ss[rank (bit bm) p := sl])) = sleaves sl \<union> othersOf (bit bm) ss p"
proof -
  have c: "covers (bit bm) ss" using assms(1) by (simp add: hwf_iff_slots)
  note up = slots_update [OF c assms(2), of sl]
  show "hwf h shift (HNode bm (ss[rank (bit bm) p := sl]))"
    using assms up by (auto simp: hwf_iff_slots)
  show "hleaves (HNode bm (ss[rank (bit bm) p := sl])) = sleaves sl \<union> othersOf (bit bm) ss p"
    using hleaves_split [OF up(1), of p] up(2) othersOf_cong [of p "bit bm" "ss[rank (bit bm) p := sl]" "bit bm" ss]
    by simp
qed

lemma hwf_insert_slot:
  assumes "hwf h shift (HNode bm ss)" and p: "p = chunk hash shift" "\<not> bit bm p" and "slot_ok h shift p sl"
  defines "n' \<equiv> HNode (bm OR deltaHashBit hash shift)
      (take (rank (bit bm) p) ss @ sl # drop (rank (bit bm) p) ss)"
  shows "hwf h shift n'" and "hleaves n' = sleaves sl \<union> hleaves (HNode bm ss)"
proof -
  let ?ss = "take (rank (bit bm) p) ss @ sl # drop (rank (bit bm) p) ss"
  have c: "covers (bit bm) ss" using assms(1) by (simp add: hwf_iff_slots)
  have bits: "bit (bm OR deltaHashBit hash shift) = (\<lambda>i. bit bm i \<or> i = p)" by (simp add: bitmap_or p(1))
  have "p < 32" by (simp add: p(1) chunk_less)
  note ins = slots_insert [OF c p(2) this, of sl, folded bits]
  show "hwf h shift n'" using assms ins by (auto simp: hwf_iff_slots n'_def)
  have none: "slotOf (bit bm) ss p = None" using p(2) by (simp add: slotOf_def)
  have "hleaves n' = sleaves sl \<union> othersOf (bit (bm OR deltaHashBit hash shift)) ?ss p"
    using hleaves_split [OF ins(1), of p] ins(2) [of p] by (simp add: n'_def)
  also have "othersOf (bit (bm OR deltaHashBit hash shift)) ?ss p = othersOf (bit bm) ss p"
    by (rule othersOf_cong) (simp add: ins(2))
  also have "\<dots> = hleaves (HNode bm ss)" using hleaves_split [OF c, of p] none by simp
  finally show "hleaves n' = sleaves sl \<union> hleaves (HNode bm ss)" .
qed

lemma hwf_remove_slot:
  assumes "hwf h shift (HNode bm ss)" and p: "p = chunk hash shift" "bit bm p"
  shows "case removeDeltaHashSlot (HNode bm ss) (deltaHashBit hash shift) (rank (bit bm) p) of
      None \<Rightarrow> othersOf (bit bm) ss p = {}
    | Some n' \<Rightarrow> hwf h shift n' \<and> hleaves n' = othersOf (bit bm) ss p"
proof -
  let ?ss = "take (rank (bit bm) p) ss @ drop (Suc (rank (bit bm) p)) ss"
  have c: "covers (bit bm) ss" and ne: "ss \<noteq> []" using assms(1) by (simp_all add: hwf_iff_slots)
  note lt = covers_rank [OF c p(2)]
  show ?thesis
  proof (cases "length ss = 1")
    case True
    have "slotOf (bit bm) ss q = None" if "q \<noteq> p" for q
    proof (rule ccontr)
      assume "slotOf (bit bm) ss q \<noteq> None"
      then have "bit bm q" by (auto simp: slotOf_def split: if_splits)
      with covers_rank [OF c this] lt True rank_inj [of "bit bm" p q] p(2) that show False by simp
    qed
    then have "othersOf (bit bm) ss p = {}" by (auto simp: othersOf_def)
    with True show ?thesis by (simp add: removeDeltaHashSlot_def)
  next
    case False
    have bits: "bit (bm AND NOT (deltaHashBit hash shift)) = (\<lambda>i. bit bm i \<and> i \<noteq> p)"
      by (simp add: bitmap_clear p(1))
    note rem = slots_remove [OF c p(2), folded bits]
    have "length ?ss = length ss - 1" using lt by simp
    moreover have "length ss \<noteq> 0" using ne by simp
    ultimately have "length ?ss \<noteq> 0" using False by linarith
    then have "?ss \<noteq> []" by (metis list.size(3))
    then have wf: "hwf h shift (HNode (bm AND NOT (deltaHashBit hash shift)) ?ss)"
      using assms(1) rem by (auto simp: hwf_iff_slots split: if_splits)
    have "hleaves (HNode (bm AND NOT (deltaHashBit hash shift)) ?ss) =
        othersOf (bit (bm AND NOT (deltaHashBit hash shift))) ?ss p"
      using hleaves_split [OF rem(1), of p] rem(2) [of p] by simp
    also have "\<dots> = othersOf (bit bm) ss p" by (rule othersOf_cong) (simp add: rem(2))
    finally show ?thesis using False wf by (simp add: removeDeltaHashSlot_def)
  qed
qed

subsection \<open>Merging two leaves\<close>

lemma agree_step:
  assumes "take_bit s a = take_bit s b" and "chunk a s = chunk b s"
  shows "take_bit (s + deltaHashBits) a = take_bit (s + deltaHashBits) (b :: 64 word)"
proof (rule bit_word_eqI)
  fix n
  assume "n < LENGTH(64)"
  have low: "n < s \<Longrightarrow> bit a n = bit b n"
    using assms(1) by (metis bit_take_bit_iff)
  have high: "bit a n = bit b n" if "s \<le> n" "n < s + 5"
  proof -
    have "bit (chunk w s) (n - s) = bit w n" for w :: "64 word"
    proof -
      have "n - s < 5" using that by linarith
      with that \<open>n < LENGTH(64)\<close> show ?thesis
        by (simp add: chunk_eq bit_take_bit_iff bit_unsigned_iff bit_drop_bit_eq)
    qed
    with assms(2) show ?thesis by metis
  qed
  show "bit (take_bit (s + deltaHashBits) a) n = bit (take_bit (s + deltaHashBits) b) n"
    using low high by (cases "n < s") (auto simp: bit_take_bit_iff deltaHashBits_def)
qed

lemma deltaHashBit_less: "deltaHashBit a s < deltaHashBit b s \<longleftrightarrow> chunk a s < chunk b s"
proof -
  have "unat (deltaHashBit w s) = 2 ^ chunk w s" for w
  proof -
    have "(2::nat) ^ chunk w s < 2 ^ 32" using chunk_less [of w s] by (intro power_strict_increasing) auto
    then have "unat (of_nat (2 ^ chunk w s) :: 32 word) = 2 ^ chunk w s"
      by (simp only: unat_of_nat) simp
    then show ?thesis by (simp add: deltaHashBit_def push_bit_eq_mult)
  qed
  then show ?thesis by (simp add: word_less_nat_alt)
qed

lemma deltaHashBit_eq: "deltaHashBit a s = deltaHashBit b s \<longleftrightarrow> chunk a s = chunk b s"
  by (metis bit_deltaHashBit deltaHashBit_def)

lemma hwf_single:
  assumes "slot_ok h shift (chunk hash shift) sl"
  shows "hwf h shift (HNode (deltaHashBit hash shift) [sl])"
    and "hleaves (HNode (deltaHashBit hash shift) [sl]) = sleaves sl"
proof -
  let ?p = "chunk hash shift"
  have bits: "bit (deltaHashBit hash shift) = (\<lambda>i. i = ?p)" by (simp add: fun_eq_iff bit_deltaHashBit)
  have "rank (\<lambda>i. i = ?p) n = (if ?p < n then 1 else 0)" for n
    by (induction n) auto
  then have "covers (\<lambda>i. i = ?p) [sl]" and "slotOf (\<lambda>i. i = ?p) [sl] p = (if p = ?p then Some sl else None)" for p
    using chunk_less [of hash shift] by (auto simp: covers_def slotOf_def slotAt_def)
  then show "hwf h shift (HNode (deltaHashBit hash shift) [sl])"
    using assms by (simp add: hwf_iff_slots bits)
qed simp

lemma merge_spec:
  assumes "lf_hash l \<noteq> lf_hash r" and "leaf_ok h l" and "leaf_ok h r"
    and "take_bit shift (lf_hash l) = take_bit shift (lf_hash r)"
  shows "\<exists>c. mergeDeltaHashLeaves l r shift = Some c \<and> hwf h shift c \<and> hleaves c = {l, r}"
  using assms(4)
proof (induction "64 - shift" arbitrary: shift rule: less_induct)
  case less
  let ?L = "chunk (lf_hash l) shift" and ?R = "chunk (lf_hash r) shift"
  have short: "shift < 64"
  proof (rule ccontr)
    assume "\<not> shift < 64"
    with less.prems assms(1) show False by (simp add: take_bit_word_eq_self)
  qed
  note merge = mergeDeltaHashLeaves.simps [of l r shift]
  show ?case
  proof (cases "?L = ?R")
    case True
    have "take_bit (shift + deltaHashBits) (lf_hash l) = take_bit (shift + deltaHashBits) (lf_hash r)"
      by (rule agree_step [OF less.prems True])
    moreover have "64 - (shift + deltaHashBits) < 64 - shift" using short by (simp add: deltaHashBits_def)
    ultimately obtain c where
      c: "mergeDeltaHashLeaves l r (shift + deltaHashBits) = Some c" "hwf h (shift + deltaHashBits) c"
      "hleaves c = {l, r}" using less.hyps by blast
    have "slot_ok h shift ?L (Child c)" using c assms True by (auto simp: slot_ok_def)
    from hwf_single [OF this] c merge True show ?thesis by (simp add: deltaHashBit_eq Let_def)
  next
    case False
    have okL: "slot_ok h shift ?L (Leaf l)" and okR: "slot_ok h shift ?R (Leaf r)"
      using assms by (simp_all add: slot_ok_def)
    have bits: "bit (deltaHashBit (lf_hash l) shift) = (\<lambda>i. i = ?L)" by (simp add: fun_eq_iff bit_deltaHashBit)
    have rank: "rank (\<lambda>i. i = ?L) ?R = (if ?L < ?R then 1 else 0)"
      using rank_add [of "\<lambda>_. False" ?L ?R] by (simp add: rank_def)
    have "\<not> bit (deltaHashBit (lf_hash l) shift) ?R" using False by (simp add: bits)
    from hwf_insert_slot [OF hwf_single(1) [OF okL] HOL.refl this okR] False merge show ?thesis
      by (auto simp: deltaHashBit_eq deltaHashBit_less bits rank Let_def or.commute split: if_splits)
  qed
qed

subsection \<open>Inserting and deleting\<close>

text \<open>The leaves under a node at depth \<open>shift\<close> share the hash bits that lead to it.\<close>

definition agree_with :: "64 word \<Rightarrow> nat \<Rightarrow> 'v deltaHashLeaf set \<Rightarrow> bool" where
  "agree_with hash shift ls \<longleftrightarrow> (\<forall>l\<in>ls. take_bit shift (lf_hash l) = take_bit shift hash)"

lemma agree_with_slot:
  assumes "hwf h shift (HNode bm ss)" and "agree_with hash shift (hleaves (HNode bm ss))"
    and sl: "slotOf (bit bm) ss (chunk hash shift) = Some sl"
  shows "agree_with hash (shift + deltaHashBits) (sleaves sl)"
  unfolding agree_with_def
proof
  fix l assume l: "l \<in> sleaves sl"
  from assms(1) have c: "covers (bit bm) ss" and ok: "slot_ok h shift (chunk hash shift) sl"
    using sl by (auto simp: hwf_iff_slots)
  have "l \<in> hleaves (HNode bm ss)" using l hleaves_split [OF c, of "chunk hash shift"] sl by simp
  then have "take_bit shift (lf_hash l) = take_bit shift hash" using assms(2) unfolding agree_with_def by blast
  moreover have "chunk (lf_hash l) shift = chunk hash shift" using ok l by (simp add: slot_ok_def)
  ultimately show "take_bit (shift + deltaHashBits) (lf_hash l) = take_bit (shift + deltaHashBits) hash"
    by (rule agree_step)
qed

lemma entriesOf_union: "entriesOf (A \<union> B) = entriesOf A \<union> entriesOf B"
  by (auto simp: entriesOf_def)

lemma entriesOf_empty [simp]: "entriesOf {} = {}"
  by (simp add: entriesOf_def)

lemma entriesOf_insert [simp]: "entriesOf (insert l A) = set (leafEntries l) \<union> entriesOf A"
  by (auto simp: entriesOf_def)

lemma newLeaf [simp]:
  "leafEntries (newDeltaHashLeaf hash e) = [e]" "lf_hash (newDeltaHashLeaf hash e) = hash"
  "leaf_ok h (newDeltaHashLeaf (h (de_key e)) e)"
  by (simp_all add: newDeltaHashLeaf_def leafEntries_def leaf_ok_def)

text \<open>What an insertion must deliver, about the leaves before and after.\<close>

definition inserted :: "'v deltaEntry \<Rightarrow> 'v deltaHashLeaf set \<Rightarrow> 'v deltaHashLeaf set \<Rightarrow> bool \<Rightarrow> bool" where
  "inserted e ls ls' replaced \<longleftrightarrow>
     entriesOf ls' = insert e {x \<in> entriesOf ls. de_key x \<noteq> de_key e} \<and>
     replaced = (\<exists>x\<in>entriesOf ls. de_key x = de_key e)"

definition removed_from :: "string \<Rightarrow> 'v deltaHashLeaf set \<Rightarrow> 'v deltaHashLeaf set \<Rightarrow> bool" where
  "removed_from k ls ls' \<longleftrightarrow> entriesOf ls' = {x \<in> entriesOf ls. de_key x \<noteq> k}"

text \<open>An operation on the slot of a key is one on the node: the other slots hold other keys.\<close>

lemma inserted_slot:
  assumes "hwf h shift (HNode bm ss)" and "slotOf (bit bm) ss (chunk (h (de_key e)) shift) = Some sl"
    and "inserted e (sleaves sl) ls' replaced"
  shows "inserted e (hleaves (HNode bm ss)) (ls' \<union> othersOf (bit bm) ss (chunk (h (de_key e)) shift)) replaced"
proof -
  let ?p = "chunk (h (de_key e)) shift"
  have "covers (bit bm) ss" using assms(1) by (simp add: hwf_iff_slots)
  from hleaves_split [OF this, of ?p] assms(2)
  have split: "hleaves (HNode bm ss) = sleaves sl \<union> othersOf (bit bm) ss ?p" by simp
  from others_keys [OF assms(1), of _ "de_key e"] assms(3) show ?thesis unfolding split
    unfolding inserted_def entriesOf_union by fastforce
qed

lemma removed_slot:
  assumes "hwf h shift (HNode bm ss)" and "slotOf (bit bm) ss (chunk (h k) shift) = Some sl"
    and "removed_from k (sleaves sl) ls'"
  shows "removed_from k (hleaves (HNode bm ss)) (ls' \<union> othersOf (bit bm) ss (chunk (h k) shift))"
proof -
  let ?p = "chunk (h k) shift"
  have "covers (bit bm) ss" using assms(1) by (simp add: hwf_iff_slots)
  from hleaves_split [OF this, of ?p] assms(2)
  have split: "hleaves (HNode bm ss) = sleaves sl \<union> othersOf (bit bm) ss ?p" by simp
  from others_keys [OF assms(1), of _ "k"] assms(3) show ?thesis unfolding split
    unfolding removed_from_def entriesOf_union by fastforce
qed

theorem insert_at_spec:
  assumes "hwf h shift n" and "agree_with (h (de_key e)) shift (hleaves n)"
  shows "\<exists>n' previous replaced. insertDeltaHashAt n (h (de_key e)) e shift = Some (n', previous, replaced) \<and>
    hwf h shift n' \<and> inserted e (hleaves n) (hleaves n') replaced \<and>
    lf_hash ` hleaves n' \<subseteq> insert (h (de_key e)) (lf_hash ` hleaves n)"
  using assms
proof (induction arbitrary: rule: hwf.induct)
  case (1 bm ss shift)
  let ?hash = "h (de_key e)" and ?n = "HNode bm ss"
  let ?p = "chunk ?hash shift"
  have wf: "hwf h shift ?n" by (rule hwf.intros [OF 1(1-4)])
  show ?case
  proof (cases "slotOf (bit bm) ss ?p")
    case None
    then have free: "\<not> bit bm ?p" using slotOf_covers [OF 1(1)] by (auto split: if_splits)
    let ?l = "newDeltaHashLeaf ?hash e"
    have ok: "slot_ok h shift ?p (Leaf ?l)" by (simp add: slot_ok_def)
    note new = hwf_insert_slot [OF wf HOL.refl free ok]
    have "othersOf (bit bm) ss ?p = hleaves ?n" using hleaves_split [OF 1(1), of ?p] None by simp
    with others_keys [OF wf, of _ "de_key e"] have "inserted e (hleaves ?n) ({?l} \<union> hleaves ?n) False"
      unfolding inserted_def entriesOf_union by fastforce
    with free new show ?thesis
      by (fastforce simp: and_bit_zero slotIndex_rank Let_def simp del: hleaves.simps)
  next
    case (Some sl)
    then have at: "bit bm ?p" "slotAt ss (rank (bit bm) ?p) = Some sl"
      by (auto simp: slotOf_def split: if_splits)
    have ok: "slot_ok h shift ?p sl" using wf Some by (simp add: hwf_iff_slots)
    note agree = agree_with_slot [OF wf 1(6) Some]
    note split = hleaves_split [OF 1(1), of ?p, unfolded Some, simplified option.case]
    have put: ?thesis if "insertDeltaHashAt ?n ?hash e shift =
          Some (HNode bm (ss[rank (bit bm) ?p := sl']), previous, replaced)"
        and "slot_ok h shift ?p sl'" and "inserted e (sleaves sl) (sleaves sl') replaced"
        and "lf_hash ` sleaves sl' \<subseteq> insert ?hash (lf_hash ` sleaves sl)" for sl' previous replaced
      using that hwf_update [OF wf at(1) that(2)] inserted_slot [OF wf Some that(3)] unfolding split by fastforce
    show ?thesis
    proof (cases sl)
      case (Child c)
      with 1(5) [of ?p c] Some agree obtain c' previous replaced where
        c': "insertDeltaHashAt c ?hash e (shift + deltaHashBits) = Some (c', previous, replaced)"
        "hwf h (shift + deltaHashBits) c'" "inserted e (hleaves c) (hleaves c') replaced"
        "lf_hash ` hleaves c' \<subseteq> insert ?hash (lf_hash ` hleaves c)" by auto
      have "slot_ok h shift ?p (Child c')"
        using c'(2,4) ok Child hwf_leaf_ok [OF c'(2)] by (fastforce simp: slot_ok_def)
      with c' Child at show ?thesis
        by (intro put [of "Child c'" previous replaced]) (simp_all add: and_bit_zero slotIndex_rank)
    next
      case (Leaf l)
      have lok: "leaf_ok h l" "chunk (lf_hash l) shift = ?p" using ok Leaf by (simp_all add: slot_ok_def)
      show ?thesis
      proof (cases "lf_hash l = ?hash")
        case True
        obtain l' previous replaced where ins: "insertDeltaHashLeaf l e = (l', previous, replaced)"
          by (cases "insertDeltaHashLeaf l e") auto
        from insertLeaf_spec [OF ins lok(1)] True at Leaf lok show ?thesis
          by (intro put [of "Leaf l'" previous replaced])
             (auto simp: ins and_bit_zero slotIndex_rank slot_ok_def inserted_def)
      next
        case False
        let ?l = "newDeltaHashLeaf ?hash e"
        have "take_bit (shift + deltaHashBits) (lf_hash l) = take_bit (shift + deltaHashBits) ?hash"
          using agree Leaf by (simp add: agree_with_def)
        with merge_spec [of l ?l h "shift + deltaHashBits"] False lok obtain c where
          c: "mergeDeltaHashLeaves l ?l (shift + deltaHashBits) = Some c" "hwf h (shift + deltaHashBits) c"
          "hleaves c = {l, ?l}" by auto
        have "de_key x \<noteq> de_key e" if "x \<in> set (leafEntries l)" for x
          using lok False that by (auto simp: leaf_ok_def)
        with c False at Leaf lok show ?thesis
          by (intro put [of "Child c" None False])
             (auto simp: and_bit_zero slotIndex_rank slot_ok_def inserted_def)
      qed
    qed
  qed
qed

lemma singleLeaf_leaves: "singleDeltaHashLeaf c = Some l \<Longrightarrow> hleaves c = {l}"
  by (induction c rule: singleDeltaHashLeaf.induct) auto

text \<open>What a deletion must deliver: \<open>None\<close> is the node that is gone.\<close>

definition deleted ::
  "(string \<Rightarrow> 64 word) \<Rightarrow> nat \<Rightarrow> string \<Rightarrow> 'v deltaHashNode
     \<Rightarrow> 'v deltaHashNode option \<times> 'v deltaEntry option \<times> bool \<Rightarrow> bool" where
  "deleted h shift k n r \<longleftrightarrow>
     (case r of (n', previous, removed) \<Rightarrow>
        removed = (\<exists>x\<in>entriesOf (hleaves n). de_key x = k) \<and>
        (if \<not> removed then n' = Some n
         else case n' of
           None \<Rightarrow> removed_from k (hleaves n) {}
         | Some m \<Rightarrow> hwf h shift m \<and> removed_from k (hleaves n) (hleaves m) \<and>
             lf_hash ` hleaves m \<subseteq> lf_hash ` hleaves n))"

lemma deleted_absent:
  "\<forall>x\<in>entriesOf (hleaves n). de_key x \<noteq> k \<Longrightarrow> deleted h shift k n (Some n, previous, False)"
  by (auto simp: deleted_def)

text \<open>The entries of a key are those of the slot its hash leads to.\<close>

lemma key_in_slot:
  assumes "hwf h shift (HNode bm ss)"
  shows "(\<exists>x\<in>entriesOf (hleaves (HNode bm ss)). de_key x = k) \<longleftrightarrow>
    (\<exists>sl. slotOf (bit bm) ss (chunk (h k) shift) = Some sl \<and> (\<exists>x\<in>entriesOf (sleaves sl). de_key x = k))"
proof -
  have "covers (bit bm) ss" using assms by (simp add: hwf_iff_slots)
  from hleaves_split [OF this, of "chunk (h k) shift"] others_keys [OF assms, of _ k] show ?thesis
    by (auto simp: entriesOf_union simp del: hleaves.simps split: option.splits)
qed

lemma deleted_removeSlot:
  assumes wf: "hwf h shift (HNode bm ss)" and sl: "slotOf (bit bm) ss (chunk (h k) shift) = Some sl"
    and "removed_from k (sleaves sl) {}" and "\<exists>x\<in>entriesOf (sleaves sl). de_key x = k"
  shows "deleted h shift k (HNode bm ss)
    (removeDeltaHashSlot (HNode bm ss) (deltaHashBit (h k) shift) (rank (bit bm) (chunk (h k) shift)), previous, True)"
proof -
  let ?p = "chunk (h k) shift"
  have c: "covers (bit bm) ss" using wf by (simp add: hwf_iff_slots)
  have "bit bm ?p" using sl slotOf_covers [OF c] by (auto split: if_splits)
  note gone = hwf_remove_slot [OF wf HOL.refl this]
  have rem: "removed_from k (hleaves (HNode bm ss)) (othersOf (bit bm) ss ?p)"
    using removed_slot [OF wf sl assms(3)] by simp
  have sub: "othersOf (bit bm) ss ?p \<subseteq> hleaves (HNode bm ss)" using hleaves_split [OF c, of ?p] by blast
  have "\<exists>x\<in>entriesOf (hleaves (HNode bm ss)). de_key x = k" using assms(4) sl key_in_slot [OF wf] by blast
  with gone rem sub show ?thesis
    unfolding deleted_def by (auto simp del: hleaves.simps split: option.splits)
qed

lemma deleted_updateSlot:
  assumes wf: "hwf h shift (HNode bm ss)" and sl: "slotOf (bit bm) ss (chunk (h k) shift) = Some sl"
    and "slot_ok h shift (chunk (h k) shift) sl'" and "removed_from k (sleaves sl) (sleaves sl')"
    and "lf_hash ` sleaves sl' \<subseteq> lf_hash ` sleaves sl" and "\<exists>x\<in>entriesOf (sleaves sl). de_key x = k"
  shows "deleted h shift k (HNode bm ss)
    (Some (HNode bm (ss[rank (bit bm) (chunk (h k) shift) := sl'])), previous, True)"
proof -
  let ?p = "chunk (h k) shift"
  have c: "covers (bit bm) ss" using wf by (simp add: hwf_iff_slots)
  have "bit bm ?p" using sl slotOf_covers [OF c] by (auto split: if_splits)
  note up = hwf_update [OF wf this assms(3)]
  note split = hleaves_split [OF c, of ?p, unfolded sl, simplified option.case]
  have "lf_hash ` (sleaves sl' \<union> othersOf (bit bm) ss ?p) \<subseteq> lf_hash ` hleaves (HNode bm ss)"
    unfolding split using assms(5) by blast
  moreover have "\<exists>x\<in>entriesOf (hleaves (HNode bm ss)). de_key x = k" using assms(6) sl key_in_slot [OF wf] by blast
  moreover note removed_slot [OF wf sl assms(4)]
  ultimately show ?thesis using up unfolding deleted_def by (simp del: hleaves.simps)
qed

text \<open>The step of the deletion at a slot that is a child, and at one that is a leaf.\<close>

lemma delete_child:
  assumes wf: "hwf h shift (HNode bm ss)" and sl: "slotOf (bit bm) ss (chunk (h k) shift) = Some (Child c)"
    and IH: "deleted h (shift + deltaHashBits) k c (deleteDeltaHashAt c k (h k) (shift + deltaHashBits))"
  shows "deleted h shift k (HNode bm ss) (deleteDeltaHashAt (HNode bm ss) k (h k) shift)"
proof -
  let ?n = "HNode bm ss" and ?p = "chunk (h k) shift"
  obtain child previous removed where
    del: "deleteDeltaHashAt c k (h k) (shift + deltaHashBits) = (child, previous, removed)"
    by (cases "deleteDeltaHashAt c k (h k) (shift + deltaHashBits)") auto
  note c = IH [unfolded del deleted_def prod.case]
  from sl have at: "bit bm ?p" "slotAt ss (rank (bit bm) ?p) = Some (Child c)"
    by (auto simp: slotOf_def split: if_splits)
  note step = at and_bit_zero slotIndex_rank del Let_def
  consider "\<not> removed" | "removed" "child = None" | c' where "removed" "child = Some c'" by (cases child) auto
  then show ?thesis
  proof cases
    case 1
    with c key_in_slot [OF wf, of k] sl have "deleted h shift k ?n (Some ?n, None, False)"
      by (intro deleted_absent) auto
    with 1 show ?thesis by (simp add: step)
  next
    case 2
    with c have "deleted h shift k ?n
        (removeDeltaHashSlot ?n (deltaHashBit (h k) shift) (rank (bit bm) ?p), previous, True)"
      by (intro deleted_removeSlot [OF wf sl]) auto
    with 2 show ?thesis by (simp add: step)
  next
    case 3
    let ?sl = "case singleDeltaHashLeaf c' of Some l \<Rightarrow> Leaf l | None \<Rightarrow> Child c'"
    have leaves: "sleaves ?sl = hleaves c'" by (auto dest: singleLeaf_leaves split: option.splits)
    from c [THEN conjunct2] 3 have c': "hwf h (shift + deltaHashBits) c'" "lf_hash ` hleaves c' \<subseteq> lf_hash ` hleaves c" by simp_all
    have "slot_ok h shift ?p (Child c)" using wf sl by (simp add: hwf_iff_slots)
    with c'(2) have "\<forall>l\<in>hleaves c'. chunk (lf_hash l) shift = ?p" by (fastforce simp: slot_ok_def)
    with c'(1) have "slot_ok h shift ?p ?sl" unfolding slot_ok_def leaves
      by (simp add: hwf_leaf_ok split: option.splits)
    moreover have "removed_from k (hleaves c) (hleaves c')" "\<exists>x\<in>entriesOf (hleaves c). de_key x = k"
      using 3 c [THEN conjunct2] c [THEN conjunct1] by simp_all
    ultimately have "deleted h shift k ?n (Some (HNode bm (ss[rank (bit bm) ?p := ?sl])), previous, True)"
      using c'(2) unfolding leaves [symmetric] by (intro deleted_updateSlot [OF wf sl]) simp_all
    with 3 show ?thesis by (simp add: step)
  qed
qed

lemma delete_leaf:
  assumes wf: "hwf h shift (HNode bm ss)" and sl: "slotOf (bit bm) ss (chunk (h k) shift) = Some (Leaf l)"
  shows "deleted h shift k (HNode bm ss) (deleteDeltaHashAt (HNode bm ss) k (h k) shift)"
proof -
  let ?n = "HNode bm ss" and ?p = "chunk (h k) shift"
  obtain leaf previous removed where del: "deleteDeltaHashLeaf l k = (leaf, previous, removed)"
    by (cases "deleteDeltaHashLeaf l k") auto
  from sl have at: "bit bm ?p" "slotAt ss (rank (bit bm) ?p) = Some (Leaf l)"
    by (auto simp: slotOf_def split: if_splits)
  have "slot_ok h shift ?p (Leaf l)" using wf sl by (simp add: hwf_iff_slots)
  then have lok: "leaf_ok h l" "chunk (lf_hash l) shift = ?p" by (simp_all add: slot_ok_def)
  note spec = deleteLeaf_spec [OF del lok(1)]
  note step = at and_bit_zero slotIndex_rank del Let_def
  have absent: "deleted h shift k ?n (Some ?n, None, False)" if "\<forall>x\<in>set (leafEntries l). de_key x \<noteq> k"
    using that key_in_slot [OF wf, of k] sl by (intro deleted_absent) auto
  consider "lf_hash l \<noteq> h k \<or> \<not> removed" | "lf_hash l = h k" "removed" "leaf = None"
    | m where "lf_hash l = h k" "removed" "leaf = Some m" by (cases leaf) auto
  then show ?thesis
  proof cases
    case 1
    with lok spec have "\<forall>x\<in>set (leafEntries l). de_key x \<noteq> k" by (auto simp: leaf_ok_def)
    with 1 absent show ?thesis by (auto simp: step)
  next
    case 2
    with spec have "deleted h shift k ?n
        (removeDeltaHashSlot ?n (deltaHashBit (h k) shift) (rank (bit bm) ?p), previous, True)"
      by (intro deleted_removeSlot [OF wf sl]) (auto simp: removed_from_def)
    with 2 show ?thesis by (simp add: step)
  next
    case 3
    with spec lok have "deleted h shift k ?n (Some (HNode bm (ss[rank (bit bm) ?p := Leaf m])), previous, True)"
      by (intro deleted_updateSlot [OF wf sl]) (auto simp: removed_from_def slot_ok_def)
    with 3 show ?thesis by (simp add: step)
  qed
qed

theorem delete_at_spec:
  "hwf h shift n \<Longrightarrow> deleted h shift k n (deleteDeltaHashAt n k (h k) shift)"
proof (induction rule: hwf.induct)
  case (1 bm ss shift)
  let ?n = "HNode bm ss" and ?p = "chunk (h k) shift"
  have wf: "hwf h shift ?n" by (rule hwf.intros [OF 1(1-4)])
  show ?case
  proof (cases "slotOf (bit bm) ss ?p")
    case None
    then have "\<not> bit bm ?p" using slotOf_covers [OF 1(1)] by (auto split: if_splits)
    moreover have "\<forall>x\<in>entriesOf (hleaves ?n). de_key x \<noteq> k" using key_in_slot [OF wf, of k] None by auto
    ultimately show ?thesis
      using deleted_absent by (auto simp: and_bit_zero Let_def simp del: hleaves.simps)
  next
    case (Some sl)
    then show ?thesis using delete_child [OF wf _ 1(5)] delete_leaf [OF wf] by (cases sl) blast+
  qed
qed

subsection \<open>The hash trie as an index\<close>

definition hashed_ok :: "(string \<Rightarrow> 64 word) \<Rightarrow> 'v deltaHashNode option \<Rightarrow> bool" where
  "hashed_ok h t \<longleftrightarrow> (case t of None \<Rightarrow> True | Some n \<Rightarrow> hwf h 0 n)"

definition hcontent :: "'v deltaHashNode option \<Rightarrow> 'v deltaEntry set" where
  "hcontent t = (case t of None \<Rightarrow> {} | Some n \<Rightarrow> entriesOf (hleaves n))"

lemma getDeltaHash_spec:
  "hashed_ok h t \<Longrightarrow> getDeltaHash t k (h k) = Some e \<longleftrightarrow> e \<in> hcontent t \<and> de_key e = k"
  by (simp add: getDeltaHash_def hashed_ok_def hcontent_def get_spec split: option.splits)

lemma insertDeltaHash_spec:
  assumes "hashed_ok h t"
  shows "\<exists>n' previous. insertDeltaHash t (h (de_key e)) e =
      Some (n', previous, \<exists>x\<in>hcontent t. de_key x = de_key e) \<and> hashed_ok h (Some n') \<and>
    hcontent (Some n') = insert e {x \<in> hcontent t. de_key x \<noteq> de_key e}"
proof (cases t)
  case None
  have "slot_ok h 0 (chunk (h (de_key e)) 0) (Leaf (newDeltaHashLeaf (h (de_key e)) e))"
    by (simp add: slot_ok_def)
  from hwf_single [OF this] None show ?thesis
    by (simp add: insertDeltaHash_def hashed_ok_def hcontent_def)
next
  case (Some n)
  with assms insert_at_spec [of h 0 n e] show ?thesis
    by (auto simp: insertDeltaHash_def hashed_ok_def hcontent_def agree_with_def inserted_def)
qed

lemma deleteDeltaHash_spec:
  assumes "hashed_ok h t"
  shows "\<exists>t' previous. deleteDeltaHash t k (h k) = (t', previous, \<exists>x\<in>hcontent t. de_key x = k) \<and>
    hashed_ok h t' \<and> hcontent t' = {x \<in> hcontent t. de_key x \<noteq> k}"
proof (cases t)
  case None
  then show ?thesis by (simp add: deleteDeltaHash_def hashed_ok_def hcontent_def)
next
  case (Some n)
  with assms delete_at_spec [of h 0 n k] show ?thesis
    unfolding deleteDeltaHash_def hashed_ok_def hcontent_def deleted_def removed_from_def
    by (cases "deleteDeltaHashAt n k (h k) 0") (auto split: if_splits option.splits)
qed

interpretation hashed_delta: delta_index
  "\<lambda>t e. map_option (\<lambda>(n, previous, replaced). (Some n, replaced)) (insertDeltaHash t (h (de_key e)) e)"
  "\<lambda>t k. case deleteDeltaHash t k (h k) of (t', previous, removed) \<Rightarrow> (t', removed)"
  hcontent "hashed_ok h" for h
proof
  fix t :: "'v deltaHashNode option" and e :: "'v deltaEntry" and k
  assume ok: "hashed_ok h t"
  show "x = y" if "x \<in> hcontent t" "y \<in> hcontent t" "de_key x = de_key y" for x y
    using getDeltaHash_spec [OF ok, of "de_key y"] that by (metis option.inject)
  show "\<exists>t'. map_option (\<lambda>(n, previous, replaced). (Some n, replaced)) (insertDeltaHash t (h (de_key e)) e) =
      Some (t', \<exists>x\<in>hcontent t. de_key x = de_key e) \<and> hashed_ok h t' \<and>
      hcontent t' = insert e {x \<in> hcontent t. de_key x \<noteq> de_key e}"
    using insertDeltaHash_spec [OF ok, of e] by auto
  show "\<exists>t'. (case deleteDeltaHash t k (h k) of (t', previous, removed) \<Rightarrow> (t', removed)) =
      (t', \<exists>x\<in>hcontent t. de_key x = k) \<and> hashed_ok h t' \<and> hcontent t' = {x \<in> hcontent t. de_key x \<noteq> k}"
    using deleteDeltaHash_spec [OF ok, of k] by auto
qed

end
