(* ===== verification/Frozen_Base.thy ===== *)
theory Frozen_Base
  imports Prelude "HOL-Library.Word"
begin

section \<open>The frozen base of a persistent tree\<close>

text \<open>
  \<open>src/pkg/persistenttree/tree.go\<close>, the part every version of a tree shares: the sorted entries, the
  binary search over them, and the open-addressing table that replaces it when there are at least
  \<open>frozenLookupThreshold\<close> entries. The table's cells are 32-bit words and its slot arithmetic is on
  64-bit words, as in the source. The hash of a key under the process's random seed is the parameter
  \<open>h\<close>; a lookup keeps no seed here because every table is built with that one. The two probing loops
  may run forever on a full table and panic on an index out of range: both are \<open>None\<close>.
\<close>

unbundle bit_operations_syntax

definition frozenLookupThreshold :: nat where "frozenLookupThreshold = 32"

record 'v frozenEntry =
  fe_key :: string
  fe_value :: 'v

record frozenLookup =
  fl_slots :: "32 word list"

text \<open>\<open>xs[i]\<close>; an index out of range is \<open>None\<close>.\<close>

definition at :: "'a list \<Rightarrow> nat \<Rightarrow> 'a option" where
  "at xs i = (if i < length xs then Some (xs ! i) else None)"

subsection \<open>Comparisons and binary search\<close>

text \<open>The loop of \<open>compareBytesString\<close> over the common length, and its result.\<close>

fun compareBytes :: "string \<Rightarrow> string \<Rightarrow> int" where
  "compareBytes (a # as) (b # bs) =
     (if a < b then - 1 else if a > b then 1 else compareBytes as bs)"
| "compareBytes as bs = 0"

definition compareBytesString :: "string \<Rightarrow> string \<Rightarrow> int" where
  "compareBytesString left right =
     (let c = compareBytes left right in
      if c \<noteq> 0 then c else int (length left) - int (length right))"

definition compareStringBytes :: "string \<Rightarrow> string \<Rightarrow> int" where
  "compareStringBytes left right = - compareBytesString right left"

function lowerBoundBytesFrom :: "'v frozenEntry list \<Rightarrow> string \<Rightarrow> nat \<Rightarrow> nat \<Rightarrow> nat" where
  "lowerBoundBytesFrom base k left right =
     (if left < right then
        let middle = (left + right) div 2 in
        if compareStringBytes (fe_key (base ! middle)) k < 0 then lowerBoundBytesFrom base k (middle + 1) right
        else lowerBoundBytesFrom base k left middle
      else left)"
  by auto
termination by (relation "measure (\<lambda>(base, k, left, right). right - left)") auto

definition lowerBoundBytes :: "'v frozenEntry list \<Rightarrow> string \<Rightarrow> nat" where
  "lowerBoundBytes base k = lowerBoundBytesFrom base k 0 (length base)"

function lowerBoundStringFrom :: "'v frozenEntry list \<Rightarrow> string \<Rightarrow> nat \<Rightarrow> nat \<Rightarrow> nat" where
  "lowerBoundStringFrom base k left right =
     (if left < right then
        let middle = (left + right) div 2 in
        if fe_key (base ! middle) < k then lowerBoundStringFrom base k (middle + 1) right
        else lowerBoundStringFrom base k left middle
      else left)"
  by auto
termination by (relation "measure (\<lambda>(base, k, left, right). right - left)") auto

definition lowerBoundString :: "'v frozenEntry list \<Rightarrow> string \<Rightarrow> nat" where
  "lowerBoundString base k = lowerBoundStringFrom base k 0 (length base)"

declare lowerBoundBytesFrom.simps [simp del] lowerBoundStringFrom.simps [simp del]

subsection \<open>The lookup table\<close>

text \<open>The doubling loop; it starts at 1, and at 0 it would not end.\<close>

function growCapacity :: "nat \<Rightarrow> nat \<Rightarrow> nat" where
  "growCapacity capacity target =
     (if 0 < capacity \<and> capacity < target then growCapacity (capacity * 2) target else capacity)"
  by auto
termination by (relation "measure (\<lambda>(capacity, target). target - capacity)") auto

declare growCapacity.simps [simp del]

definition tableMask :: "32 word list \<Rightarrow> 64 word" where
  "tableMask slots = of_nat (length slots) - 1"

partial_function (option) freeSlot :: "32 word list \<Rightarrow> 64 word \<Rightarrow> 64 word option" where
  "freeSlot slots slot =
     (case at slots (unat slot) of
        None \<Rightarrow> None
      | Some stored \<Rightarrow> if stored \<noteq> 0 then freeSlot slots ((slot + 1) AND tableMask slots) else Some slot)"

text \<open>One turn of the loop over the base: \<open>index\<close> is the position of the key.\<close>

definition placeEntry :: "(string \<Rightarrow> 64 word) \<Rightarrow> nat \<times> string \<Rightarrow> 32 word list \<Rightarrow> 32 word list option" where
  "placeEntry h = (\<lambda>(index, k) slots.
     case freeSlot slots (h k AND tableMask slots) of
       None \<Rightarrow> None
     | Some slot \<Rightarrow> Some (slots[unat slot := of_nat (index + 1)]))"

fun placeEntries :: "(string \<Rightarrow> 64 word) \<Rightarrow> (nat \<times> string) list \<Rightarrow> 32 word list \<Rightarrow> 32 word list option" where
  "placeEntries h [] slots = Some slots"
| "placeEntries h (e # es) slots = Option.bind (placeEntry h e slots) (placeEntries h es)"

definition buildFrozenLookup :: "(string \<Rightarrow> 64 word) \<Rightarrow> 'v frozenEntry list \<Rightarrow> frozenLookup option" where
  "buildFrozenLookup h base =
     (if length base < frozenLookupThreshold then Some \<lparr>fl_slots = []\<rparr>
      else map_option (\<lambda>slots. \<lparr>fl_slots = slots\<rparr>)
        (placeEntries h (enumerate 0 (map fe_key base))
           (replicate (growCapacity 1 (length base * 4 div 3)) 0)))"

partial_function (option) probeTable ::
  "32 word list \<Rightarrow> 'v frozenEntry list \<Rightarrow> string \<Rightarrow> 64 word \<Rightarrow> nat option option" where
  "probeTable slots base k slot =
     (case at slots (unat slot) of
        None \<Rightarrow> None
      | Some stored \<Rightarrow>
          if stored = 0 then Some None
          else case at base (unat (stored - 1)) of
            None \<Rightarrow> None
          | Some e \<Rightarrow>
              if compareBytesString k (fe_key e) = 0 then Some (Some (unat (stored - 1)))
              else probeTable slots base k ((slot + 1) AND tableMask slots))"

text \<open>The index of the key's entry, or \<open>Some None\<close> when there is none.\<close>

definition getFrozenLookupHashed ::
  "frozenLookup \<Rightarrow> 'v frozenEntry list \<Rightarrow> string \<Rightarrow> 64 word \<Rightarrow> nat option option" where
  "getFrozenLookupHashed l base k hash =
     probeTable (fl_slots l) base k (hash AND tableMask (fl_slots l))"

definition getFrozenLookup ::
  "(string \<Rightarrow> 64 word) \<Rightarrow> frozenLookup \<Rightarrow> 'v frozenEntry list \<Rightarrow> string \<Rightarrow> nat option option" where
  "getFrozenLookup h l base k = getFrozenLookupHashed l base k (h k)"

definition getBaseIndexHashed ::
  "'v frozenEntry list \<Rightarrow> frozenLookup \<Rightarrow> string \<Rightarrow> 64 word \<Rightarrow> nat option option" where
  "getBaseIndexHashed base lookup k hash =
     (if fl_slots lookup \<noteq> [] then getFrozenLookupHashed lookup base k hash
      else let index = lowerBoundBytes base k in
        Some (if index < length base \<and> compareBytesString k (fe_key (base ! index)) = 0
              then Some index else None))"

definition getBaseHashed :: "'v frozenEntry list \<Rightarrow> frozenLookup \<Rightarrow> string \<Rightarrow> 64 word \<Rightarrow> 'v option option" where
  "getBaseHashed base lookup k hash =
     map_option (map_option (\<lambda>index. fe_value (base ! index))) (getBaseIndexHashed base lookup k hash)"

definition getBase ::
  "(string \<Rightarrow> 64 word) \<Rightarrow> 'v frozenEntry list \<Rightarrow> frozenLookup \<Rightarrow> string \<Rightarrow> 'v option option" where
  "getBase h base lookup k =
     getBaseHashed base lookup k (if fl_slots lookup \<noteq> [] then h k else 0)"

subsection \<open>The order of keys and the binary search\<close>

lemma Nil_less_iff: "[] < bs \<longleftrightarrow> bs \<noteq> ([] :: string)"
  by (cases bs) auto

lemma compareBytesString_sign:
  "(compareBytesString a b < 0 \<longleftrightarrow> a < b) \<and> (compareBytesString a b = 0 \<longleftrightarrow> a = b)"
proof (induction a b rule: compareBytes.induct)
  case (1 a as b bs)
  then show ?case by (auto simp: compareBytesString_def Let_def split: if_splits)
qed (auto simp: compareBytesString_def Nil_less_iff)

lemma compareBytesString_less [simp]: "compareBytesString a b < 0 \<longleftrightarrow> a < b"
  and compareBytesString_eq [simp]: "compareBytesString a b = 0 \<longleftrightarrow> a = b"
  by (simp_all add: compareBytesString_sign)

lemma compareStringBytes_less [simp]: "compareStringBytes a b < 0 \<longleftrightarrow> a < b"
proof -
  have "compareStringBytes a b < 0 \<longleftrightarrow> \<not> compareBytesString b a < 0 \<and> compareBytesString b a \<noteq> 0"
    unfolding compareStringBytes_def by linarith
  also have "\<dots> \<longleftrightarrow> a < b" by (auto simp: not_less)
  finally show ?thesis .
qed

abbreviation base_sorted :: "'v frozenEntry list \<Rightarrow> bool" where
  "base_sorted base \<equiv> sorted_on fe_key base"

lemma base_sorted_nth:
  "base_sorted base \<Longrightarrow> i < j \<Longrightarrow> j < length base \<Longrightarrow> fe_key (base ! i) < fe_key (base ! j)"
  by (simp add: sorted_on_def sorted_wrt_iff_nth_less)

lemma lowerBoundFrom_eq: "lowerBoundBytesFrom base k left right = lowerBoundStringFrom base k left right"
  by (induction base k left right rule: lowerBoundStringFrom.induct)
     (subst lowerBoundBytesFrom.simps, subst lowerBoundStringFrom.simps, auto simp: Let_def)

lemma lowerBound_eq: "lowerBoundBytes base k = lowerBoundString base k"
  by (simp add: lowerBoundBytes_def lowerBoundString_def lowerBoundFrom_eq)

lemma lowerBoundFrom_spec:
  assumes "base_sorted base" and "right \<le> length base" and "left \<le> right"
    and "\<forall>i<left. fe_key (base ! i) < k" and "\<forall>i<length base. right \<le> i \<longrightarrow> k \<le> fe_key (base ! i)"
  shows "lowerBoundStringFrom base k left right \<le> length base \<and>
    (\<forall>i<lowerBoundStringFrom base k left right. fe_key (base ! i) < k) \<and>
    (\<forall>i<length base. lowerBoundStringFrom base k left right \<le> i \<longrightarrow> k \<le> fe_key (base ! i))"
  using assms
proof (induction base k left right rule: lowerBoundStringFrom.induct)
  case (1 base k left right)
  let ?m = "(left + right) div 2"
  note unfold = lowerBoundStringFrom.simps [of base k left right]
  show ?case
  proof (cases "left < right")
    case True
    then have m: "left \<le> ?m" "?m < right" "?m < length base" using 1(4) by auto
    have le: "fe_key (base ! i) \<le> fe_key (base ! j)" if "i \<le> j" "j < length base" for i j
      using base_sorted_nth [OF 1(3), of i j] that by (cases "i = j") auto
    show ?thesis
    proof (cases "fe_key (base ! ?m) < k")
      case less: True
      have "fe_key (base ! i) < k" if "i < ?m + 1" for i
        using le [of i ?m] that m(3) less by (simp add: less_Suc_eq_le)
      with 1(1) [OF True HOL.refl less] 1(3,4,7) m True less show ?thesis by (simp add: unfold Let_def)
    next
      case False
      have "\<forall>i<length base. ?m \<le> i \<longrightarrow> k \<le> fe_key (base ! i)"
        using le [of ?m] False by (auto simp: not_less intro: order_trans)
      with 1(2) [OF True HOL.refl False] 1(3,6) m True False show ?thesis by (simp add: unfold Let_def)
    qed
  next
    case False
    then have "lowerBoundStringFrom base k left right = left" by (simp add: unfold)
    with False 1(4-7) show ?thesis by simp
  qed
qed

lemma lowerBound_spec:
  assumes "base_sorted base"
  shows "lowerBoundString base k \<le> length base"
    and "i < lowerBoundString base k \<Longrightarrow> fe_key (base ! i) < k"
    and "lowerBoundString base k \<le> i \<Longrightarrow> i < length base \<Longrightarrow> k \<le> fe_key (base ! i)"
  using lowerBoundFrom_spec [of base "length base" 0 k] assms by (auto simp: lowerBoundString_def)

text \<open>The search splits the base at the key.\<close>

lemma lowerBound_take:
  assumes "base_sorted base"
  shows "take (lowerBoundString base k) base = filter (\<lambda>e. fe_key e < k) base"
    and "drop (lowerBoundString base k) base = filter (\<lambda>e. k \<le> fe_key e) base"
proof -
  let ?n = "lowerBoundString base k"
  have lo: "\<forall>e\<in>set (take ?n base). fe_key e < k"
    using lowerBound_spec(2) [OF assms, of _ k] by (auto simp: in_set_conv_nth)
  have hi: "\<forall>e\<in>set (drop ?n base). k \<le> fe_key e"
    using lowerBound_spec(3) [OF assms, of k] by (auto simp: in_set_conv_nth)
  have split: "filter P base = filter P (take ?n base) @ filter P (drop ?n base)" for P
    by (metis append_take_drop_id filter_append)
  show "take ?n base = filter (\<lambda>e. fe_key e < k) base"
    unfolding split using lo hi by (simp add: filter_empty_conv not_less filter_id_conv)
  show "drop ?n base = filter (\<lambda>e. k \<le> fe_key e) base"
    unfolding split using lo hi by (simp add: filter_empty_conv not_le filter_id_conv)
qed

subsection \<open>Probing\<close>

text \<open>Tables have a power of two of slots; the masks keep a slot number below it.\<close>

definition table_size :: "32 word list \<Rightarrow> bool" where
  "table_size slots \<longleftrightarrow> (\<exists>j<64. length slots = 2 ^ j)"

lemma unat_and_mask:
  assumes "table_size slots"
  shows "unat (w AND tableMask slots) = unat w mod length slots"
proof -
  from assms obtain j where j: "j < 64" "length slots = 2 ^ j" by (auto simp: table_size_def)
  have "tableMask slots = mask j" by (simp add: tableMask_def j mask_eq_exp_minus_1)
  then have "w AND tableMask slots = take_bit j w" by (simp add: take_bit_eq_mask)
  moreover have "unat (take_bit j w) = take_bit j (unat w)" by (rule unsigned_take_bit_eq)
  ultimately show ?thesis by (simp only: take_bit_eq_mod j)
qed

text \<open>The \<open>d\<close>-th slot that a probe starting at \<open>s\<close> visits.\<close>

definition probe :: "32 word list \<Rightarrow> nat \<Rightarrow> nat \<Rightarrow> nat" where
  "probe slots s d = (s + d) mod length slots"

lemma probe_less: "table_size slots \<Longrightarrow> probe slots s d < length slots"
  by (auto simp: probe_def table_size_def)

lemma probe_step:
  assumes "table_size slots" and "unat slot < length slots"
  shows "unat ((slot + 1) AND tableMask slots) = probe slots (unat slot) 1"
    and "probe slots (unat ((slot + 1) AND tableMask slots)) d = probe slots (unat slot) (Suc d)"
proof -
  from assms obtain j where j: "j < 64" "length slots = 2 ^ j" by (auto simp: table_size_def)
  have "unat (slot + 1) mod length slots = (unat slot + 1) mod length slots"
  proof (cases "unat slot + 1 < 2 ^ 64")
    case True
    then show ?thesis by (simp add: unat_word_ariths)
  next
    case False
    have "(2::nat) ^ j < 2 ^ 64" using j(1) by (rule power_strict_increasing) simp
    with False assms(2) j(2) show ?thesis by linarith
  qed
  then show first: "unat ((slot + 1) AND tableMask slots) = probe slots (unat slot) 1"
    by (simp add: unat_and_mask [OF assms(1)] probe_def)
  show "probe slots (unat ((slot + 1) AND tableMask slots)) d = probe slots (unat slot) (Suc d)"
    unfolding first by (simp add: probe_def mod_simps)
qed

lemma probe_start: "table_size slots \<Longrightarrow> unat slot < length slots \<Longrightarrow> probe slots (unat slot) 0 = unat slot"
  by (simp add: probe_def)

lemma probe_covers:
  assumes "table_size slots" and "p < length slots"
  shows "\<exists>d<length slots. probe slots s d = p"
proof -
  let ?m = "length slots"
  have pos: "0 < ?m" using assms(2) by linarith
  let ?d = "(p + (?m - s mod ?m)) mod ?m"
  have "(s + ?d) mod ?m = (s mod ?m + (p + (?m - s mod ?m))) mod ?m" by (simp add: mod_simps)
  also have "s mod ?m + (p + (?m - s mod ?m)) = p + ?m" using mod_less_divisor [OF pos, of s] by linarith
  finally show ?thesis using assms(2) pos by (intro exI [of _ ?d]) (auto simp: probe_def)
qed

text \<open>Both loops stop at the first slot of the probe sequence that stops them.\<close>

lemma freeSlot_first:
  assumes "table_size slots" and "unat slot < length slots"
    and "slots ! probe slots (unat slot) d = 0" and "\<forall>d'<d. slots ! probe slots (unat slot) d' \<noteq> 0"
  shows "\<exists>w. freeSlot slots slot = Some w \<and> unat w = probe slots (unat slot) d"
  using assms(2-4)
proof (induction d arbitrary: slot)
  case 0
  then show ?case using probe_start [OF assms(1), of slot]
    by (subst freeSlot.simps) (simp add: at_def)
next
  case (Suc d)
  let ?next = "(slot + 1) AND tableMask slots"
  note step = probe_step [OF assms(1) Suc.prems(1)]
  have "unat ?next < length slots" unfolding step(1) by (rule probe_less [OF assms(1)])
  moreover have "slots ! probe slots (unat ?next) d = 0" using Suc.prems(2) by (simp add: step(2))
  moreover have "\<forall>d'<d. slots ! probe slots (unat ?next) d' \<noteq> 0"
    using Suc.prems(3) by (simp add: step(2))
  ultimately have "\<exists>w. freeSlot slots ?next = Some w \<and> unat w = probe slots (unat ?next) d" by (rule Suc.IH)
  moreover have "slots ! unat slot \<noteq> 0"
    using Suc.prems(1,3) probe_start [OF assms(1) Suc.prems(1)] by (metis zero_less_Suc)
  then have "freeSlot slots slot = freeSlot slots ?next"
    using Suc.prems(1) by (subst freeSlot.simps) (simp add: at_def)
  ultimately show ?case by (simp add: step(2))
qed

lemma least_probe:
  assumes "P (d :: nat)"
  obtains d0 where "P d0" "\<forall>d'<d0. \<not> P d'" "d0 \<le> d"
  using assms LeastI [of P d] not_less_Least [of _ P] Least_le [of P d] by metis

lemma probeTable_first:
  fixes base :: "'v frozenEntry list"
  defines "stops \<equiv> \<lambda>slots k p. slots ! p = 0 \<or> fe_key (base ! unat (slots ! p - 1)) = k"
  assumes "table_size slots" and "unat slot < length slots"
    and "\<forall>p<length slots. slots ! p \<noteq> 0 \<longrightarrow> unat (slots ! p - 1) < length base"
    and "stops slots k (probe slots (unat slot) d)" and "\<forall>d'<d. \<not> stops slots k (probe slots (unat slot) d')"
  shows "probeTable slots base k slot = Some (let stored = slots ! probe slots (unat slot) d in
    if stored = 0 then None else Some (unat (stored - 1)))"
  using assms(3,5,6)
proof (induction d arbitrary: slot)
  case 0
  then show ?case using probe_start [OF assms(2), of slot] assms(4)
    by (subst probeTable.simps) (auto simp: at_def stops_def Let_def)
next
  case (Suc d)
  let ?next = "(slot + 1) AND tableMask slots"
  note step = probe_step [OF assms(2) Suc.prems(1)]
  have "unat ?next < length slots" unfolding step(1) by (rule probe_less [OF assms(2)])
  moreover have "stops slots k (probe slots (unat ?next) d)" using Suc.prems(2) by (simp add: step(2))
  moreover have "\<forall>d'<d. \<not> stops slots k (probe slots (unat ?next) d')"
    using Suc.prems(3) by (simp add: step(2))
  ultimately have IH: "probeTable slots base k ?next = Some (let stored = slots ! probe slots (unat ?next) d in
    if stored = 0 then None else Some (unat (stored - 1)))" by (rule Suc.IH)
  have "\<not> stops slots k (unat slot)"
    using Suc.prems(1,3) probe_start [OF assms(2) Suc.prems(1)] by (metis zero_less_Suc)
  then have "probeTable slots base k slot = probeTable slots base k ?next"
    using Suc.prems(1) assms(4) by (subst probeTable.simps) (auto simp: at_def stops_def)
  with IH show ?case by (simp add: step(2))
qed

subsection \<open>The table of a base\<close>

text \<open>
  The state of the table after the first \<open>n\<close> keys: as many used slots, every used one names one of
  those keys, and every key is found by its probe sequence before an empty slot.
\<close>

definition key_start :: "(string \<Rightarrow> 64 word) \<Rightarrow> 32 word list \<Rightarrow> string \<Rightarrow> nat" where
  "key_start h slots k = unat (h k AND tableMask slots)"

definition table_ok :: "(string \<Rightarrow> 64 word) \<Rightarrow> string list \<Rightarrow> nat \<Rightarrow> 32 word list \<Rightarrow> bool" where
  "table_ok h keys n slots \<longleftrightarrow> table_size slots \<and>
     card {p. p < length slots \<and> slots ! p \<noteq> 0} = n \<and>
     (\<forall>p<length slots. slots ! p \<noteq> 0 \<longrightarrow> unat (slots ! p - 1) < n) \<and>
     (\<forall>i<n. \<exists>d. slots ! probe slots (key_start h slots (keys ! i)) d = of_nat (Suc i) \<and>
        (\<forall>d'\<le>d. slots ! probe slots (key_start h slots (keys ! i)) d' \<noteq> 0))"

lemma table_ok_found:
  assumes "table_ok h keys n slots" and "i < n"
  shows "\<exists>d. slots ! probe slots (key_start h slots (keys ! i)) d = of_nat (Suc i) \<and>
    (\<forall>d'\<le>d. slots ! probe slots (key_start h slots (keys ! i)) d' \<noteq> 0)"
  using assms unfolding table_ok_def by blast

lemma key_start_less: "table_size slots \<Longrightarrow> key_start h slots k < length slots"
  by (auto simp: key_start_def unat_and_mask table_size_def)

lemma table_same_length [simp]:
  "probe (slots[p := v]) = probe slots" "key_start h (slots[p := v]) = key_start h slots"
  "table_size (slots[p := v]) = table_size slots"
  by (auto simp: fun_eq_iff probe_def key_start_def tableMask_def table_size_def)

lemma free_slot_exists:
  assumes "table_ok h keys n slots" and "n < length slots"
  shows "\<exists>d. slots ! probe slots s d = 0"
proof -
  have "{p. p < length slots \<and> slots ! p \<noteq> 0} \<noteq> {..<length slots}"
    using assms by (metis (no_types, lifting) card_lessThan less_irrefl table_ok_def)
  then obtain p where "p < length slots" "slots ! p = 0" by auto
  with probe_covers [of slots p s] assms(1) show ?thesis by (auto simp: table_ok_def)
qed

lemma unat_of_Suc: "Suc n < 2 ^ 32 \<Longrightarrow> unat (of_nat (Suc n) :: 32 word) = Suc n"
  by (simp only: unat_of_nat) simp

lemma of_Suc_word:
  assumes "Suc n < 2 ^ 32"
  shows "(of_nat (Suc n) :: 32 word) \<noteq> 0" and "unat ((of_nat (Suc n) :: 32 word) - 1) = n"
proof -
  show "(of_nat (Suc n) :: 32 word) \<noteq> 0" using unat_of_Suc [OF assms] by (metis unat_0 nat.distinct(1))
  have "unat (of_nat n :: 32 word) = n" using assms by (simp only: unat_of_nat) simp
  then show "unat ((of_nat (Suc n) :: 32 word) - 1) = n" by simp
qed

lemma placeEntry_ok:
  assumes ok: "table_ok h keys n slots" and "n < length slots" and "Suc n < 2 ^ 32"
  shows "\<exists>slots'. placeEntry h (n, keys ! n) slots = Some slots' \<and> length slots' = length slots \<and>
    table_ok h keys (Suc n) slots'"
proof -
  let ?w = "h (keys ! n) AND tableMask slots" and ?v = "of_nat (Suc n) :: 32 word"
  have size: "table_size slots" using ok by (simp add: table_ok_def)
  have "\<exists>d. slots ! probe slots (unat ?w) d = 0" by (rule free_slot_exists [OF ok assms(2)])
  then obtain d where d: "slots ! probe slots (unat ?w) d = 0" "\<forall>d'<d. slots ! probe slots (unat ?w) d' \<noteq> 0"
    by (auto elim: least_probe [of "\<lambda>d. slots ! probe slots (unat ?w) d = 0"])
  define p where "p = probe slots (unat ?w) d"
  have p: "p < length slots" "slots ! p = 0" using d(1) probe_less [OF size] by (simp_all add: p_def)
  have "unat ?w < length slots" using key_start_less [OF size] by (simp add: key_start_def)
  from freeSlot_first [OF size this d] have place: "placeEntry h (n, keys ! n) slots = Some (slots[p := ?v])"
    by (auto simp: placeEntry_def p_def)
  note v = of_Suc_word [OF assms(3)]
  have used: "{q. q < length slots \<and> slots[p := ?v] ! q \<noteq> 0} = insert p {q. q < length slots \<and> slots ! q \<noteq> 0}"
    using p v by (auto simp: nth_list_update)
  have same: "slots[p := ?v] ! q = slots ! q" if "slots ! q \<noteq> 0" for q
    using that p by (auto simp: nth_list_update)
  have here: "slots[p := ?v] ! p = ?v" using p by simp
  have "\<exists>d. slots[p := ?v] ! probe slots (key_start h slots (keys ! i)) d = of_nat (Suc i) \<and>
      (\<forall>d'\<le>d. slots[p := ?v] ! probe slots (key_start h slots (keys ! i)) d' \<noteq> 0)" if i: "i < Suc n" for i
  proof (cases "i = n")
    case True
    have "slots[p := ?v] ! probe slots (unat ?w) d' \<noteq> 0" if "d' \<le> d" for d'
      using that d(2) same here v by (cases "d' = d") (auto simp: p_def)
    with True here show ?thesis by (intro exI [of _ d]) (auto simp: p_def key_start_def)
  next
    case False
    with i have "i < n" by simp
    from table_ok_found [OF ok this] obtain d
      where "slots ! probe slots (key_start h slots (keys ! i)) d = of_nat (Suc i)"
      "\<forall>d'\<le>d. slots ! probe slots (key_start h slots (keys ! i)) d' \<noteq> 0" by blast
    with same show ?thesis by (intro exI [of _ d]) (metis order_refl)
  qed
  moreover have "unat (slots[p := ?v] ! q - 1) < Suc n" if "q < length slots" "slots[p := ?v] ! q \<noteq> 0" for q
    using that ok v same here by (cases "q = p") (auto simp: table_ok_def less_Suc_eq)
  moreover have "card (insert p {q. q < length slots \<and> slots ! q \<noteq> 0}) = Suc n"
    using ok p by (subst card_insert_disjoint) (auto simp: table_ok_def)
  ultimately have "table_ok h keys (Suc n) (slots[p := ?v])"
    using size by (simp add: table_ok_def used del: of_nat_Suc)
  with place show ?thesis by auto
qed

lemma placeEntries_ok:
  assumes "table_ok h keys n slots" and "length keys < length slots" and "length keys < 2 ^ 32" and "n \<le> length keys"
  shows "\<exists>slots'. placeEntries h (enumerate n (drop n keys)) slots = Some slots' \<and> length slots' = length slots \<and>
    table_ok h keys (length keys) slots'"
  using assms
proof (induction "length keys - n" arbitrary: n slots)
  case 0
  then show ?case by simp
next
  case (Suc j)
  then have n: "n < length keys" by linarith
  then have "enumerate n (drop n keys) = (n, keys ! n) # enumerate (Suc n) (drop (Suc n) keys)"
    by (simp add: Cons_nth_drop_Suc [symmetric])
  moreover obtain slots1 where s1: "placeEntry h (n, keys ! n) slots = Some slots1"
    "length slots1 = length slots" "table_ok h keys (Suc n) slots1"
    using placeEntry_ok [OF Suc.prems(1), of] n Suc.prems(2,3) by auto
  ultimately show ?case using Suc.hyps(1) [of "Suc n" slots1] Suc.hyps(2) Suc.prems(2-4) n by auto
qed

lemma growCapacity_power: "\<exists>i. growCapacity (2 ^ j) target = 2 ^ i \<and> target \<le> 2 ^ i"
proof (induction "target - 2 ^ j" arbitrary: j rule: less_induct)
  case less
  show ?case
  proof (cases "2 ^ j < target")
    case True
    then have "growCapacity (2 ^ j) target = growCapacity (2 ^ Suc j) target"
      by (subst growCapacity.simps) (simp add: mult.commute)
    moreover have "(0::nat) < 2 ^ j" by simp
    with True have "target - 2 ^ Suc j < target - 2 ^ j" unfolding power_Suc by linarith
    ultimately show ?thesis using less [of "Suc j"] by simp
  next
    case False
    then show ?thesis by (subst growCapacity.simps) auto
  qed
qed

lemma growCapacity_least: "1 < target \<Longrightarrow> growCapacity 1 target < 2 * target"
proof -
  have "0 < c \<Longrightarrow> c < target \<Longrightarrow> growCapacity c target < 2 * target" for c
  proof (induction c target rule: growCapacity.induct)
    case (1 c target)
    then show ?case by (cases "c * 2 < target") (subst growCapacity.simps, simp add: growCapacity.simps [of "c * 2"])+
  qed
  then show "1 < target \<Longrightarrow> growCapacity 1 target < 2 * target" by simp
qed

text \<open>A table as \<open>buildFrozenLookup\<close> leaves it.\<close>

definition lookup_ok :: "(string \<Rightarrow> 64 word) \<Rightarrow> 'v frozenEntry list \<Rightarrow> frozenLookup \<Rightarrow> bool" where
  "lookup_ok h base l \<longleftrightarrow>
     fl_slots l = [] \<or>
     table_ok h (map fe_key base) (length base) (fl_slots l) \<and> length base < length (fl_slots l)"

lemma table_ok_empty:
  assumes "2 ^ i < (2::nat) ^ 64"
  shows "table_ok h keys 0 (replicate (2 ^ i) 0)"
proof -
  have "i < 64" using assms power_less_imp_less_exp [of "2::nat" i 64] by simp
  then show ?thesis by (auto simp: table_ok_def table_size_def)
qed

text \<open>Building the table ends, whatever the hash function, and leaves free slots.\<close>

lemma buildFrozenLookup_ok:
  assumes "length base < 2 ^ 32"
  shows "\<exists>l. buildFrozenLookup h base = Some l \<and> lookup_ok h base l"
proof (cases "length base < frozenLookupThreshold")
  case True
  then show ?thesis by (simp add: buildFrozenLookup_def lookup_ok_def)
next
  case False
  let ?target = "length base * 4 div 3"
  have big: "length base < ?target" "1 < ?target" using False by (simp_all add: frozenLookupThreshold_def)
  obtain i where i: "growCapacity 1 ?target = 2 ^ i" "?target \<le> 2 ^ i"
    using growCapacity_power [of 0 ?target] by auto
  have "2 ^ i < 2 * ?target" using growCapacity_least [OF big(2)] i(1) by simp
  also have "\<dots> < 2 ^ 64" using assms by simp
  finally have "table_ok h (map fe_key base) 0 (replicate (2 ^ i) 0)" by (rule table_ok_empty)
  from placeEntries_ok [OF this] obtain slots where
    "placeEntries h (enumerate 0 (map fe_key base)) (replicate (2 ^ i) 0) = Some slots"
    "length slots = 2 ^ i" "table_ok h (map fe_key base) (length base) slots" using i(2) big(1) assms by auto
  then show ?thesis using False i big(1) by (simp add: buildFrozenLookup_def lookup_ok_def)
qed

text \<open>A probe ends and finds the entry of the key, or that there is none.\<close>

lemma getFrozenLookup_spec:
  assumes ok: "table_ok h (map fe_key base) (length base) (fl_slots l)" and free: "length base < length (fl_slots l)"
    and small: "length base < 2 ^ 32"
  shows "\<exists>r. getFrozenLookupHashed l base k (h k) = Some r \<and>
    (case r of None \<Rightarrow> k \<notin> fe_key ` set base | Some i \<Rightarrow> i < length base \<and> fe_key (base ! i) = k)"
proof -
  let ?ss = "fl_slots l" and ?w = "h k AND tableMask (fl_slots l)"
  define stops where "stops p \<longleftrightarrow> ?ss ! p = 0 \<or> fe_key (base ! unat (?ss ! p - 1)) = k" for p
  have size: "table_size ?ss" using ok by (simp add: table_ok_def)
  have start: "unat ?w < length ?ss" using key_start_less [OF size] by (simp add: key_start_def)
  have idx: "\<forall>p<length ?ss. ?ss ! p \<noteq> 0 \<longrightarrow> unat (?ss ! p - 1) < length base" using ok by (simp add: table_ok_def)
  obtain d where "?ss ! probe ?ss (unat ?w) d = 0" using free_slot_exists [OF ok free] by blast
  then have "stops (probe ?ss (unat ?w) d)" by (simp add: stops_def)
  then obtain d0 where d0: "stops (probe ?ss (unat ?w) d0)" "\<forall>d'<d0. \<not> stops (probe ?ss (unat ?w) d')"
    by (rule least_probe)
  let ?stored = "?ss ! probe ?ss (unat ?w) d0"
  have run: "getFrozenLookupHashed l base k (h k) = Some (if ?stored = 0 then None else Some (unat (?stored - 1)))"
    using probeTable_first [OF size start idx, where k=k and d=d0] d0
    by (simp add: getFrozenLookupHashed_def stops_def Let_def)
  have "k \<notin> fe_key ` set base" if "?stored = 0"
  proof
    assume "k \<in> fe_key ` set base"
    then obtain i where i: "i < length base" "fe_key (base ! i) = k" by (auto simp: in_set_conv_nth)
    have at: "key_start h ?ss (map fe_key base ! i) = unat ?w" using i by (simp add: key_start_def)
    obtain e where e: "?ss ! probe ?ss (unat ?w) e = of_nat (Suc i)"
      "\<forall>d'\<le>e. ?ss ! probe ?ss (unat ?w) d' \<noteq> 0"
      using table_ok_found [OF ok i(1)] unfolding at by blast
    have "Suc i < 2 ^ 32" using i(1) small by linarith
    from e(1) of_Suc_word [OF this] i have "stops (probe ?ss (unat ?w) e)" by (simp add: stops_def del: of_nat_Suc)
    with d0(2) have "d0 \<le> e" by (meson not_less)
    with e(2) that show False by blast
  qed
  with run d0(1) idx probe_less [OF size] show ?thesis by (auto simp: stops_def)
qed

theorem getBaseIndexHashed_spec:
  assumes "base_sorted base" and "lookup_ok h base l" and "length base < 2 ^ 32"
  shows "\<exists>r. getBaseIndexHashed base l k (if fl_slots l \<noteq> [] then h k else hash) = Some r \<and>
    (case r of None \<Rightarrow> k \<notin> fe_key ` set base | Some i \<Rightarrow> i < length base \<and> fe_key (base ! i) = k)"
proof (cases "fl_slots l = []")
  case False
  with assms getFrozenLookup_spec [of h base l k] show ?thesis
    by (simp add: getBaseIndexHashed_def lookup_ok_def)
next
  case True
  let ?n = "lowerBoundString base k"
  note lb = lowerBound_spec [OF assms(1), where k=k]
  have "k \<noteq> fe_key (base ! i)" if "i < length base" "\<not> (?n < length base \<and> k = fe_key (base ! ?n))" for i
  proof (cases "i < ?n")
    case True
    then show ?thesis using lb(2) by auto
  next
    case False
    then have "?n < length base" using that by simp
    with that lb(3) [of ?n] have "k < fe_key (base ! ?n)" by auto
    also have "\<dots> \<le> fe_key (base ! i)"
      using base_sorted_nth [OF assms(1), of ?n i] that False by (cases "i = ?n") auto
    finally show ?thesis by auto
  qed
  then have "k \<notin> fe_key ` set base" if "\<not> (?n < length base \<and> k = fe_key (base ! ?n))"
    using that by (fastforce simp: in_set_conv_nth)
  with True show ?thesis by (simp add: getBaseIndexHashed_def lowerBound_eq Let_def)
qed

end
