(* ===== verification/Persistent_Tree.thy ===== *)
theory Persistent_Tree
  imports Delta_Tree Delta_Hash Frozen_Base
begin

section \<open>Persistent trees and their transactions\<close>

text \<open>
  \<open>src/pkg/persistenttree/tree.go\<close>: a version of a tree is a frozen base that all versions of it
  share and a delta of the keys it changed, kept in an ordered and in a hashed index. \<open>h\<close> is the hash
  of a key under the process's seed. A nil tree or node is \<open>None\<close>. A result pair \<open>(V, bool)\<close> is an
  option, and an operation that panics or does not return has the result \<open>None\<close>. Identity of nodes is
  not part of the model: \<open>matchesOriginal\<close> compares contents, and where it holds the tree it returns
  has the contents of the one \<open>Commit\<close> would build.
\<close>

record 'v TreeEntry =
  Key :: string
  Val :: 'v

record 'v Node =
  nd_base :: "'v frozenEntry list"
  nd_lookup :: frozenLookup
  nd_delta :: "'v deltaNode"
  nd_deltaHash :: "'v deltaHashNode option"
  nd_deltaSize :: int
  nd_size :: int

record 'v Tree =
  root :: "'v Node option"

record 'v Txn =
  tx_base :: "'v frozenEntry list"
  tx_lookup :: frozenLookup
  tx_delta :: "'v deltaNode"
  tx_deltaHash :: "'v deltaHashNode option"
  tx_deltaSize :: int
  tx_size :: int
  original :: "'v Tree option"
  snapshot :: "'v Node option"

definition New :: "'v Tree" where
  "New = \<lparr>root = None\<rparr>"

definition emptyLookup :: frozenLookup where
  "emptyLookup = \<lparr>fl_slots = []\<rparr>"

datatype treeError = NotStrictlyOrdered

fun strictlyOrdered :: "'v TreeEntry list \<Rightarrow> bool" where
  "strictlyOrdered (a # b # es) \<longleftrightarrow> \<not> (Key a \<ge> Key b) \<and> strictlyOrdered (b # es)"
| "strictlyOrdered _ \<longleftrightarrow> True"

text \<open>
  The keys are copied into one string and cut from it again: \<open>ownKeys\<close> is the loop that cuts, with
  the offset it has reached.
\<close>

fun ownKeys :: "string \<Rightarrow> nat \<Rightarrow> 'v TreeEntry list \<Rightarrow> 'v frozenEntry list" where
  "ownKeys owned off [] = []"
| "ownKeys owned off (e # es) =
     (let keyEnd = off + length (Key e) in
      \<lparr>fe_key = take (keyEnd - off) (drop off owned), fe_value = Val e\<rparr> # ownKeys owned keyEnd es)"

text \<open>The outer \<open>None\<close>: building the lookup does not return.\<close>

definition NewFromSorted :: "(string \<Rightarrow> 64 word) \<Rightarrow> 'v TreeEntry list \<Rightarrow> (treeError + 'v Tree) option" where
  "NewFromSorted h entries =
     (if \<not> strictlyOrdered entries then Some (Inl NotStrictlyOrdered)
      else if entries = [] then Some (Inr New)
      else let base = ownKeys (concat (map Key entries)) 0 entries in
        map_option (\<lambda>lookup. Inr \<lparr>root = Some \<lparr>nd_base = base, nd_lookup = lookup, nd_delta = DNil,
            nd_deltaHash = None, nd_deltaSize = 0, nd_size = int (length base)\<rparr>\<rparr>)
          (buildFrozenLookup h base))"

text \<open>
  The source's sort is not stable; where that could show, two keys are equal and the result is the
  error.
\<close>

definition NewFrom :: "(string \<Rightarrow> 64 word) \<Rightarrow> 'v TreeEntry list \<Rightarrow> (treeError + 'v Tree) option" where
  "NewFrom h entries = NewFromSorted h (sort_key Key entries)"

definition Len :: "'v Tree option \<Rightarrow> int" where
  "Len t = (case t of None \<Rightarrow> 0 | Some tr \<Rightarrow> (case root tr of None \<Rightarrow> 0 | Some n \<Rightarrow> nd_size n))"

definition Root :: "'v Tree option \<Rightarrow> 'v Node option" where
  "Root t = (case t of None \<Rightarrow> None | Some tr \<Rightarrow> root tr)"

definition startTxn :: "'v Tree option \<Rightarrow> 'v Txn" where
  "startTxn t =
     (case Root t of
        None \<Rightarrow> \<lparr>tx_base = [], tx_lookup = emptyLookup, tx_delta = DNil, tx_deltaHash = None,
          tx_deltaSize = 0, tx_size = 0, original = t, snapshot = None\<rparr>
      | Some n \<Rightarrow> \<lparr>tx_base = nd_base n, tx_lookup = nd_lookup n, tx_delta = nd_delta n,
          tx_deltaHash = nd_deltaHash n, tx_deltaSize = nd_deltaSize n, tx_size = nd_size n,
          original = t, snapshot = None\<rparr>)"

subsection \<open>Reading\<close>

definition get ::
  "(string \<Rightarrow> 64 word) \<Rightarrow> 'v frozenEntry list \<Rightarrow> frozenLookup \<Rightarrow> 'v deltaHashNode option \<Rightarrow> string
     \<Rightarrow> 'v option option" where
  "get h base lookup deltaHash k =
     (if deltaHash = None then getBase h base lookup k
      else case getDeltaHash deltaHash k (h k) of
        Some e \<Rightarrow> Some (de_value e)
      | None \<Rightarrow> getBaseHashed base lookup k (h k))"

definition TxnGet :: "(string \<Rightarrow> 64 word) \<Rightarrow> 'v Txn \<Rightarrow> string \<Rightarrow> 'v option option" where
  "TxnGet h t k = get h (tx_base t) (tx_lookup t) (tx_deltaHash t) k"

definition NodeGet :: "(string \<Rightarrow> 64 word) \<Rightarrow> 'v Node option \<Rightarrow> string \<Rightarrow> 'v option option" where
  "NodeGet h n k =
     (case n of None \<Rightarrow> Some None | Some m \<Rightarrow> get h (nd_base m) (nd_lookup m) (nd_deltaHash m) k)"

subsection \<open>Updating\<close>

text \<open>
  Both indexes take the entry; their reports must agree with what the hashed one held, else the
  source panics (\<open>persistent tree delta indexes diverged\<close>).
\<close>

definition indexEntry :: "(string \<Rightarrow> 64 word) \<Rightarrow> 'v Txn \<Rightarrow> string \<Rightarrow> 'v deltaEntry \<Rightarrow> bool \<Rightarrow> 'v Txn option" where
  "indexEntry h t k e indexedExists =
     (case insertDelta (tx_delta t) e of (delta, orderedReplaced) \<Rightarrow>
        case insertDeltaHash (tx_deltaHash t) (h k) e of
          None \<Rightarrow> None
        | Some (deltaHash, _, hashReplaced) \<Rightarrow>
            if orderedReplaced \<noteq> hashReplaced \<or> hashReplaced \<noteq> indexedExists then None
            else Some (t\<lparr>tx_delta := delta, tx_deltaHash := Some deltaHash,
              tx_deltaSize := (if indexedExists then tx_deltaSize t else tx_deltaSize t + 1)\<rparr>))"

definition TxnInsert :: "(string \<Rightarrow> 64 word) \<Rightarrow> 'v Txn \<Rightarrow> string \<Rightarrow> 'v \<Rightarrow> ('v Txn \<times> 'v option) option" where
  "TxnInsert h t k v =
     (let indexed = getDeltaHash (tx_deltaHash t) k (h k) in
      Option.bind (if indexed = None then getBaseIndexHashed (tx_base t) (tx_lookup t) k (h k) else Some None)
        (\<lambda>baseIndex.
           let previous = (case indexed of
                 Some e \<Rightarrow> de_value e
               | None \<Rightarrow> map_option (\<lambda>i. fe_value (tx_base t ! i)) baseIndex);
               ownedKey = (case indexed of
                 Some e \<Rightarrow> de_key e
               | None \<Rightarrow> (case baseIndex of Some i \<Rightarrow> fe_key (tx_base t ! i) | None \<Rightarrow> k))
           in map_option (\<lambda>t'. (t'\<lparr>tx_size := (if previous = None then tx_size t' + 1 else tx_size t'),
                snapshot := None\<rparr>, previous))
              (indexEntry h t k \<lparr>de_key = ownedKey, de_value = Some v\<rparr> (indexed \<noteq> None))))"

definition TxnDelete :: "(string \<Rightarrow> 64 word) \<Rightarrow> 'v Txn \<Rightarrow> string \<Rightarrow> ('v Txn \<times> 'v option) option" where
  "TxnDelete h t k =
     (let indexed = getDeltaHash (tx_deltaHash t) k (h k) in
      Option.bind (getBaseIndexHashed (tx_base t) (tx_lookup t) k (h k)) (\<lambda>baseIndex.
        let previous = (case indexed of
              Some e \<Rightarrow> de_value e
            | None \<Rightarrow> map_option (\<lambda>i. fe_value (tx_base t ! i)) baseIndex)
        in if previous = None then Some (t, None)
           else map_option (\<lambda>t'. (t'\<lparr>tx_size := tx_size t' - 1, snapshot := None\<rparr>, previous))
             (case baseIndex of
                Some i \<Rightarrow>
                  let ownedKey = (case indexed of Some e \<Rightarrow> de_key e | None \<Rightarrow> fe_key (tx_base t ! i))
                  in indexEntry h t k \<lparr>de_key = ownedKey, de_value = None\<rparr> (indexed \<noteq> None)
              | None \<Rightarrow>
                  (case deleteDelta (tx_delta t) k of (delta, orderedRemoved) \<Rightarrow>
                   case deleteDeltaHash (tx_deltaHash t) k (h k) of (deltaHash, _, hashRemoved) \<Rightarrow>
                     if \<not> orderedRemoved \<or> \<not> hashRemoved then None
                     else Some (t\<lparr>tx_delta := delta, tx_deltaHash := deltaHash,
                       tx_deltaSize := tx_deltaSize t - 1\<rparr>)))))"

subsection \<open>Publishing\<close>

definition matchesOriginal :: "'v Txn \<Rightarrow> bool" where
  "matchesOriginal t =
     (case original t of
        None \<Rightarrow> False
      | Some tr \<Rightarrow>
          (case root tr of
             None \<Rightarrow> tx_size t = 0 \<and> tx_delta t = DNil \<and> tx_deltaHash t = None
           | Some n \<Rightarrow> tx_size t = nd_size n \<and> tx_deltaSize t = nd_deltaSize n \<and>
               tx_delta t = nd_delta n \<and> tx_deltaHash t = nd_deltaHash n))"

definition TxnRoot :: "'v Txn \<Rightarrow> 'v Txn \<times> 'v Node option" where
  "TxnRoot t =
     (if matchesOriginal t then (t, Root (original t))
      else if snapshot t \<noteq> None then (t, snapshot t)
      else if tx_size t = 0 \<and> tx_base t = [] \<and> tx_delta t = DNil then (t, None)
      else let n = \<lparr>nd_base = tx_base t, nd_lookup = tx_lookup t, nd_delta = tx_delta t,
             nd_deltaHash = tx_deltaHash t, nd_deltaSize = tx_deltaSize t, nd_size = tx_size t\<rparr>
           in (t\<lparr>snapshot := Some n\<rparr>, Some n))"

definition Commit :: "'v Txn \<Rightarrow> 'v Tree" where
  "Commit t =
     (case original t of
        Some tr \<Rightarrow> if matchesOriginal t then tr else \<lparr>root = snd (TxnRoot t)\<rparr>
      | None \<Rightarrow> \<lparr>root = snd (TxnRoot t)\<rparr>)"

definition TreeInsert :: "(string \<Rightarrow> 64 word) \<Rightarrow> 'v Tree option \<Rightarrow> string \<Rightarrow> 'v \<Rightarrow> ('v Tree \<times> 'v option) option" where
  "TreeInsert h t k v = map_option (\<lambda>(txn, previous). (Commit txn, previous)) (TxnInsert h (startTxn t) k v)"

definition TreeDelete :: "(string \<Rightarrow> 64 word) \<Rightarrow> 'v Tree option \<Rightarrow> string \<Rightarrow> ('v Tree \<times> 'v option) option" where
  "TreeDelete h t k = map_option (\<lambda>(txn, previous).
     (case t of
        Some tr \<Rightarrow> if previous = None then (tr, None) else (Commit txn, previous)
      | None \<Rightarrow> (Commit txn, previous))) (TxnDelete h (startTxn t) k)"

subsection \<open>The map a version stands for\<close>

interpretation deltas: paired_index "\<lambda>t e. Some (insertDelta t e)" deleteDeltaString "\<lambda>t. set (inorder t)" ordered_ok
  "\<lambda>t e. map_option (\<lambda>(n, previous, replaced). (Some n, replaced)) (insertDeltaHash t (h (de_key e)) e)"
  "\<lambda>t k. case deleteDeltaHash t k (h k) of (t', previous, removed) \<Rightarrow> (t', removed)"
  hcontent "hashed_ok h" for h
  by unfold_locales

text \<open>The delta shadows the base.\<close>

definition contents :: "'v frozenEntry list \<Rightarrow> 'v deltaNode \<Rightarrow> string \<Rightarrow> 'v option" where
  "contents base delta k =
     (case find_on de_key k (inorder delta) of
        Some e \<Rightarrow> de_value e
      | None \<Rightarrow> map_option fe_value (find_on fe_key k base))"

definition base_ok :: "(string \<Rightarrow> 64 word) \<Rightarrow> 'v frozenEntry list \<Rightarrow> frozenLookup \<Rightarrow> bool" where
  "base_ok h base lookup \<longleftrightarrow> base_sorted base \<and> length base < 2 ^ 32 \<and> lookup_ok h base lookup"

text \<open>The two indexes hold the same entries, and a removed key is one of the base.\<close>

definition delta_ok ::
  "(string \<Rightarrow> 64 word) \<Rightarrow> 'v frozenEntry list \<Rightarrow> 'v deltaNode \<Rightarrow> 'v deltaHashNode option \<Rightarrow> bool" where
  "delta_ok h base delta deltaHash \<longleftrightarrow>
     ordered_ok delta \<and> hashed_ok h deltaHash \<and> set (inorder delta) = hcontent deltaHash \<and>
     (\<forall>e\<in>set (inorder delta). de_value e = None \<longrightarrow> de_key e \<in> fe_key ` set base)"

definition version_ok ::
  "(string \<Rightarrow> 64 word) \<Rightarrow> 'v frozenEntry list \<Rightarrow> frozenLookup \<Rightarrow> 'v deltaNode \<Rightarrow> 'v deltaHashNode option
     \<Rightarrow> int \<Rightarrow> int \<Rightarrow> bool" where
  "version_ok h base lookup delta deltaHash deltaSize vsize \<longleftrightarrow>
     base_ok h base lookup \<and> delta_ok h base delta deltaHash \<and>
     deltaSize = int (card (set (inorder delta))) \<and> vsize = int (card (dom (contents base delta)))"

definition node_ok :: "(string \<Rightarrow> 64 word) \<Rightarrow> 'v Node \<Rightarrow> bool" where
  "node_ok h n \<longleftrightarrow>
     version_ok h (nd_base n) (nd_lookup n) (nd_delta n) (nd_deltaHash n) (nd_deltaSize n) (nd_size n)"

definition tree_ok :: "(string \<Rightarrow> 64 word) \<Rightarrow> 'v Tree option \<Rightarrow> bool" where
  "tree_ok h t \<longleftrightarrow> (case Root t of None \<Rightarrow> True | Some n \<Rightarrow> node_ok h n)"

definition node_map :: "'v Node option \<Rightarrow> string \<Rightarrow> 'v option" where
  "node_map n = (case n of None \<Rightarrow> Map.empty | Some m \<Rightarrow> contents (nd_base m) (nd_delta m))"

definition tree_map :: "'v Tree option \<Rightarrow> string \<Rightarrow> 'v option" where
  "tree_map t = node_map (Root t)"

definition txn_map :: "'v Txn \<Rightarrow> string \<Rightarrow> 'v option" where
  "txn_map t = contents (tx_base t) (tx_delta t)"

definition txn_node :: "'v Txn \<Rightarrow> 'v Node" where
  "txn_node t = \<lparr>nd_base = tx_base t, nd_lookup = tx_lookup t, nd_delta = tx_delta t,
     nd_deltaHash = tx_deltaHash t, nd_deltaSize = tx_deltaSize t, nd_size = tx_size t\<rparr>"

text \<open>A transaction keeps the base of the tree it started from, and its snapshot is never stale.\<close>

definition same_origin :: "'v Txn \<Rightarrow> bool" where
  "same_origin t \<longleftrightarrow>
     tx_base t = (case Root (original t) of None \<Rightarrow> [] | Some n \<Rightarrow> nd_base n) \<and>
     tx_lookup t = (case Root (original t) of None \<Rightarrow> emptyLookup | Some n \<Rightarrow> nd_lookup n)"

definition txn_ok :: "(string \<Rightarrow> 64 word) \<Rightarrow> 'v Txn \<Rightarrow> bool" where
  "txn_ok h t \<longleftrightarrow> node_ok h (txn_node t) \<and> tree_ok h (original t) \<and> same_origin t \<and>
     (snapshot t = None \<or> snapshot t = Some (txn_node t))"

lemma dom_contents:
  "dom (contents base delta) \<subseteq> de_key ` set (inorder delta) \<union> fe_key ` set base"
proof
  fix k assume "k \<in> dom (contents base delta)"
  then have "find_on de_key k (inorder delta) \<noteq> None \<or> find_on fe_key k base \<noteq> None"
    by (auto simp: contents_def split: option.splits)
  then show "k \<in> de_key ` set (inorder delta) \<union> fe_key ` set base"
    unfolding find_on_None_iff by blast
qed

lemma finite_contents [simp]: "finite (dom (contents base delta))"
  by (rule finite_subset [OF dom_contents]) simp

lemma option_Some_eqI: "(\<And>x. a = Some x \<longleftrightarrow> b = Some x) \<Longrightarrow> a = b"
  by (cases a; cases b) auto

lemma contents_put:
  assumes "delta_sorted d" and "delta_sorted d'"
    and "set (inorder d') = insert e {x \<in> set (inorder d). de_key x \<noteq> de_key e}"
  shows "contents base d' = (contents base d)(de_key e := de_value e)"
proof -
  have "find_on de_key k (inorder d') = (if k = de_key e then Some e else find_on de_key k (inorder d))" for k
    by (rule option_Some_eqI) (auto simp: find_on_sorted assms)
  then show ?thesis by (auto simp: contents_def fun_eq_iff)
qed

lemma contents_cut:
  assumes "delta_sorted d" and "delta_sorted d'"
    and "set (inorder d') = {x \<in> set (inorder d). de_key x \<noteq> k}" and "k \<notin> fe_key ` set base"
  shows "contents base d' = (contents base d)(k := None)"
proof -
  have "find_on de_key i (inorder d') = (if i = k then None else find_on de_key i (inorder d))" for i
    by (rule option_Some_eqI) (auto simp: find_on_sorted assms)
  moreover have "find_on fe_key k base = None" using assms(4) by (auto simp: find_on_None_iff)
  ultimately show ?thesis by (auto simp: contents_def fun_eq_iff)
qed

lemma card_keyed_put:
  assumes "finite C" and "\<And>x y. x \<in> C \<Longrightarrow> y \<in> C \<Longrightarrow> de_key x = de_key y \<Longrightarrow> x = y"
  shows "card (insert e {x \<in> C. de_key x \<noteq> de_key e}) =
    (if \<exists>x\<in>C. de_key x = de_key e then card C else Suc (card C))"
    and "card {x \<in> C. de_key x \<noteq> k} = (if \<exists>x\<in>C. de_key x = k then card C - 1 else card C)"
proof -
  have inj: "inj_on de_key S" if "S \<subseteq> C" for S using assms(2) that by (auto simp: inj_on_def)
  have size: "card S = card (de_key ` S)" if "S \<subseteq> C" for S using card_image [OF inj [OF that]] by simp
  have cut: "de_key ` {x \<in> C. de_key x \<noteq> k} = de_key ` C - {k}" for k by auto
  have mem: "(\<exists>x\<in>C. de_key x = k) \<longleftrightarrow> k \<in> de_key ` C" for k by auto
  show "card {x \<in> C. de_key x \<noteq> k} = (if \<exists>x\<in>C. de_key x = k then card C - 1 else card C)"
    using size [of C] size [of "{x \<in> C. de_key x \<noteq> k}"] unfolding cut mem
    by (auto simp: card_Diff_singleton_if)
  have "e \<notin> {x \<in> C. de_key x \<noteq> de_key e}" by simp
  then have "card (insert e {x \<in> C. de_key x \<noteq> de_key e}) = Suc (card {x \<in> C. de_key x \<noteq> de_key e})"
    using assms(1) by simp
  also have "\<dots> = card (insert (de_key e) (de_key ` C))"
    using size [of "{x \<in> C. de_key x \<noteq> de_key e}"] assms(1) unfolding cut by (simp add: card.insert_remove)
  finally show "card (insert e {x \<in> C. de_key x \<noteq> de_key e}) =
      (if \<exists>x\<in>C. de_key x = de_key e then card C else Suc (card C))"
    using size [of C] assms(1) unfolding mem by (simp add: card_insert_if insert_absorb)
qed

subsection \<open>The operations on the map\<close>

lemma base_index:
  assumes "base_ok h base lookup"
  shows "\<exists>r. getBaseIndexHashed base lookup k (h k) = Some r \<and> getBaseHashed base lookup k (h k) = Some (map_option fe_value (find_on fe_key k base)) \<and>
    getBase h base lookup k = Some (map_option fe_value (find_on fe_key k base)) \<and>
    (case r of None \<Rightarrow> k \<notin> fe_key ` set base \<and> find_on fe_key k base = None
     | Some i \<Rightarrow> k \<in> fe_key ` set base \<and> fe_key (base ! i) = k \<and> find_on fe_key k base = Some (base ! i))"
proof -
  from assms have ok: "base_sorted base" "length base < 2 ^ 32" "lookup_ok h base lookup"
    by (simp_all add: base_ok_def)
  have found: "find_on fe_key k base = Some (base ! i)" if "i < length base" "fe_key (base ! i) = k" for i
    using that find_on_sorted [OF ok(1)] by simp
  from getBaseIndexHashed_spec [OF ok(1,3,2), of k "h k"] obtain r where
    r: "getBaseIndexHashed base lookup k (h k) = Some r"
    "case r of None \<Rightarrow> k \<notin> fe_key ` set base | Some i \<Rightarrow> i < length base \<and> fe_key (base ! i) = k" by auto
  have "getBaseIndexHashed base lookup k 0 = getBaseIndexHashed base lookup k (h k)" if "fl_slots lookup = []"
    using that by (simp add: getBaseIndexHashed_def)
  then have same: "getBase h base lookup k = getBaseHashed base lookup k (h k)"
    by (auto simp: getBase_def getBaseHashed_def)
  from r(2) have find: "case r of None \<Rightarrow> k \<notin> fe_key ` set base \<and> find_on fe_key k base = None
     | Some i \<Rightarrow> k \<in> fe_key ` set base \<and> fe_key (base ! i) = k \<and> find_on fe_key k base = Some (base ! i)"
  proof (cases r)
    case None
    with r(2) have "k \<notin> fe_key ` set base" by simp
    then have "find_on fe_key k base = None" unfolding find_on_None_iff by auto
    with None r(2) show ?thesis by simp
  next
    case (Some i)
    with r(2) found [of i] nth_mem [of i base] show ?thesis by auto
  qed
  then show ?thesis
    using r(1) unfolding same by (auto simp: getBaseHashed_def split: option.splits)
qed

lemma getDeltaHash_find:
  assumes "delta_ok h base delta deltaHash"
  shows "getDeltaHash deltaHash k (h k) = find_on de_key k (inorder delta)"
  using assms getDeltaHash_spec [of h deltaHash k] find_on_sorted [of de_key "inorder delta" k]
  by (intro option_Some_eqI) (auto simp: delta_ok_def ordered_ok_def)

lemma get_contents:
  assumes "base_ok h base lookup" and "delta_ok h base delta deltaHash"
  shows "get h base lookup deltaHash k = Some (contents base delta k)"
proof (cases "deltaHash = None")
  case True
  with assms(2) have "set (inorder delta) = {}" by (simp add: delta_ok_def hcontent_def)
  with True base_index [OF assms(1), of k] show ?thesis by (auto simp: get_def contents_def)
next
  case False
  with base_index [OF assms(1), of k] getDeltaHash_find [OF assms(2), of k] show ?thesis
    by (auto simp: get_def contents_def split: option.splits)
qed

lemma indexEntry_ok:
  assumes ok: "node_ok h (txn_node t)" and k: "de_key e = k"
    and removed: "de_value e = None \<Longrightarrow> k \<in> fe_key ` set (tx_base t)"
    and exists: "indexedExists = (find_on de_key k (inorder (tx_delta t)) \<noteq> None)"
  shows "\<exists>delta deltaHash. indexEntry h t k e indexedExists =
      Some (t\<lparr>tx_delta := delta, tx_deltaHash := Some deltaHash, tx_deltaSize := int (card (set (inorder delta)))\<rparr>) \<and>
    delta_ok h (tx_base t) delta (Some deltaHash) \<and>
    contents (tx_base t) delta = (txn_map t)(k := de_value e)"
proof -
  from ok have d: "delta_ok h (tx_base t) (tx_delta t) (tx_deltaHash t)"
    "tx_deltaSize t = int (card (set (inorder (tx_delta t))))"
    by (auto simp: node_ok_def txn_node_def version_ok_def)
  then have idx: "ordered_ok (tx_delta t)" "hashed_ok h (tx_deltaHash t)"
    "set (inorder (tx_delta t)) = hcontent (tx_deltaHash t)" by (simp_all add: delta_ok_def)
  have flag: "indexedExists = (\<exists>x\<in>hcontent (tx_deltaHash t). de_key x = de_key e)"
    using exists k unfolding find_on_None_iff idx(3) by auto
  from deltas.add_together [OF idx, of e] obtain s' n' previous where
    ins: "insertDelta (tx_delta t) e = (s', indexedExists)"
    "insertDeltaHash (tx_deltaHash t) (h k) e = Some (n', previous, indexedExists)"
    and new: "ordered_ok s'" "hashed_ok h (Some n')" "set (inorder s') = hcontent (Some n')"
    "set (inorder s') = insert e {x \<in> set (inorder (tx_delta t)). de_key x \<noteq> de_key e}"
    unfolding flag k idx(3) by auto
  have sorted: "delta_sorted (tx_delta t)" "delta_sorted s'" using idx(1) new(1) by (simp_all add: ordered_ok_def)
  have "card (set (inorder s')) = (if indexedExists then card (set (inorder (tx_delta t))) else Suc (card (set (inorder (tx_delta t)))))"
    unfolding new(4) flag idx(3) [symmetric] using ordered_delta.keyed [OF idx(1)]
    by (intro card_keyed_put) auto
  with ins d(2) have "indexEntry h t k e indexedExists =
      Some (t\<lparr>tx_delta := s', tx_deltaHash := Some n', tx_deltaSize := int (card (set (inorder s')))\<rparr>)"
    by (simp add: indexEntry_def)
  moreover have "delta_ok h (tx_base t) s' (Some n')"
    unfolding delta_ok_def new(4)
  proof (intro conjI ballI impI)
    fix x assume x: "x \<in> insert e {x \<in> set (inorder (tx_delta t)). de_key x \<noteq> de_key e}" "de_value x = None"
    then show "de_key x \<in> fe_key ` set (tx_base t)" using d(1) removed k by (auto simp: delta_ok_def)
  qed (use new in auto)
  moreover have "contents (tx_base t) s' = (txn_map t)(k := de_value e)"
    using contents_put [OF sorted new(4), of "tx_base t"] k by (simp add: txn_map_def)
  ultimately show ?thesis by blast
qed

text \<open>A transaction whose version fields were replaced by sound ones.\<close>

lemma txn_okI:
  assumes "txn_ok h t" and "delta_ok h (tx_base t) delta deltaHash"
    and "vsize = int (card (dom (contents (tx_base t) delta)))"
  shows "txn_ok h (t\<lparr>tx_delta := delta, tx_deltaHash := deltaHash,
    tx_deltaSize := int (card (set (inorder delta))), tx_size := vsize, snapshot := None\<rparr>)"
  using assms by (simp add: txn_ok_def node_ok_def txn_node_def version_ok_def same_origin_def [symmetric])
     (simp add: same_origin_def)

lemma txn_okD:
  assumes "txn_ok h t"
  shows "base_ok h (tx_base t) (tx_lookup t)" and "delta_ok h (tx_base t) (tx_delta t) (tx_deltaHash t)"
    and "node_ok h (txn_node t)" and "tx_size t = int (card (dom (txn_map t)))" and "finite (dom (txn_map t))"
    and "tx_deltaSize t = int (card (set (inorder (tx_delta t))))"
  using assms by (auto simp: txn_ok_def node_ok_def txn_node_def version_ok_def txn_map_def)

lemma TxnGet_map: "txn_ok h t \<Longrightarrow> TxnGet h t k = Some (txn_map t k)"
  by (simp add: TxnGet_def txn_map_def get_contents txn_okD)

text \<open>What the two lookups at the start of an update find, and what the map holds then.\<close>

lemma txn_read:
  assumes ok: "txn_ok h t"
  obtains r where "getBaseIndexHashed (tx_base t) (tx_lookup t) k (h k) = Some r"
    and "r = None \<longleftrightarrow> k \<notin> fe_key ` set (tx_base t)" and "\<forall>i. r = Some i \<longrightarrow> fe_key (tx_base t ! i) = k"
    and "txn_map t k = (case find_on de_key k (inorder (tx_delta t)) of
      Some e \<Rightarrow> de_value e | None \<Rightarrow> map_option (\<lambda>i. fe_value (tx_base t ! i)) r)"
proof -
  from base_index [OF txn_okD(1) [OF ok], of k] obtain r where
    r: "getBaseIndexHashed (tx_base t) (tx_lookup t) k (h k) = Some r"
    "case r of None \<Rightarrow> k \<notin> fe_key ` set (tx_base t) \<and> find_on fe_key k (tx_base t) = None
     | Some i \<Rightarrow> k \<in> fe_key ` set (tx_base t) \<and> fe_key (tx_base t ! i) = k \<and>
        find_on fe_key k (tx_base t) = Some (tx_base t ! i)" by blast
  from r(2) have "find_on fe_key k (tx_base t) = map_option (\<lambda>i. tx_base t ! i) r" by (cases r) auto
  then have "txn_map t k = (case find_on de_key k (inorder (tx_delta t)) of
      Some e \<Rightarrow> de_value e | None \<Rightarrow> map_option (\<lambda>i. fe_value (tx_base t ! i)) r)"
    by (simp add: txn_map_def contents_def option.map_comp o_def split: option.splits)
  with r that show ?thesis by (cases r) auto
qed

lemma owned_key:
  assumes "\<forall>i. r = Some i \<longrightarrow> fe_key (tx_base t ! i) = k"
  shows "(case find_on de_key k (inorder (tx_delta t)) of Some e \<Rightarrow> de_key e
      | None \<Rightarrow> (case r of Some i \<Rightarrow> fe_key (tx_base t ! i) | None \<Rightarrow> k)) = k"
  using assms by (auto split: option.splits dest: find_on_SomeD)

lemma TxnInsert_map:
  assumes ok: "txn_ok h t"
  shows "\<exists>t'. TxnInsert h t k v = Some (t', txn_map t k) \<and> txn_ok h t' \<and> txn_map t' = (txn_map t)(k \<mapsto> v)"
proof -
  note t = txn_okD [OF ok]
  let ?indexed = "find_on de_key k (inorder (tx_delta t))" and ?e = "\<lparr>de_key = k, de_value = Some v\<rparr>"
  obtain r where r: "getBaseIndexHashed (tx_base t) (tx_lookup t) k (h k) = Some r"
    "\<forall>i. r = Some i \<longrightarrow> fe_key (tx_base t ! i) = k"
    "txn_map t k = (case ?indexed of Some e \<Rightarrow> de_value e | None \<Rightarrow> map_option (\<lambda>i. fe_value (tx_base t ! i)) r)"
    by (rule txn_read [OF ok, of k]) blast
  obtain delta deltaHash where
    put: "indexEntry h t k ?e (?indexed \<noteq> None) = Some (t\<lparr>tx_delta := delta, tx_deltaHash := Some deltaHash,
      tx_deltaSize := int (card (set (inorder delta)))\<rparr>)"
    "delta_ok h (tx_base t) delta (Some deltaHash)" "contents (tx_base t) delta = (txn_map t)(k \<mapsto> v)"
    using indexEntry_ok [OF t(3), of ?e k "?indexed \<noteq> None"] by auto
  let ?t = "t\<lparr>tx_delta := delta, tx_deltaHash := Some deltaHash, tx_deltaSize := int (card (set (inorder delta))),
    tx_size := (if txn_map t k = None then tx_size t + 1 else tx_size t), snapshot := None\<rparr>"
  have "TxnInsert h t k v = Some (?t, txn_map t k)"
    using r(1,3) owned_key [OF r(2)] put(1)
    by (cases ?indexed) (simp_all add: TxnInsert_def getDeltaHash_find [OF t(2)] Let_def)
  moreover have "txn_ok h ?t"
    using t(4,5) put(3) by (intro txn_okI [OF ok put(2)]) (auto simp: card_insert_if domIff)
  moreover have "txn_map ?t = (txn_map t)(k \<mapsto> v)" using put(3) by (simp add: txn_map_def)
  ultimately show ?thesis by blast
qed

text \<open>A key that is only in the delta leaves both indexes.\<close>

lemma unindex_ok:
  assumes "delta_ok h base (tx_delta t) (tx_deltaHash t)" and "find_on de_key k (inorder (tx_delta t)) \<noteq> None"
    and "k \<notin> fe_key ` set base"
  obtains delta deltaHash previous where "deleteDelta (tx_delta t) k = (delta, True)"
    and "deleteDeltaHash (tx_deltaHash t) k (h k) = (deltaHash, previous, True)"
    and "delta_ok h base delta deltaHash"
    and "int (card (set (inorder delta))) = int (card (set (inorder (tx_delta t)))) - 1"
    and "contents base delta = (contents base (tx_delta t))(k := None)"
proof -
  from assms(1) have idx: "ordered_ok (tx_delta t)" "hashed_ok h (tx_deltaHash t)"
    "set (inorder (tx_delta t)) = hcontent (tx_deltaHash t)" by (simp_all add: delta_ok_def)
  have there: "\<exists>x\<in>hcontent (tx_deltaHash t). de_key x = k" using assms(2) unfolding find_on_None_iff idx(3) by auto
  from deltas.remove_together [OF idx, of k] there obtain s' t' previous where
    del: "deleteDelta (tx_delta t) k = (s', True)" "deleteDeltaHash (tx_deltaHash t) k (h k) = (t', previous, True)"
    and new: "ordered_ok s'" "hashed_ok h t'" "set (inorder s') = hcontent t'"
    "set (inorder s') = {x \<in> set (inorder (tx_delta t)). de_key x \<noteq> k}"
    unfolding idx(3) by (auto split: prod.splits)
  have "card (set (inorder s')) = card (set (inorder (tx_delta t))) - 1"
    unfolding new(4) using there [folded idx(3)] ordered_delta.keyed [OF idx(1)]
    by (subst card_keyed_put(2)) auto
  moreover have "0 < card (set (inorder (tx_delta t)))" using there by (auto simp: card_gt_0_iff idx(3) [symmetric])
  moreover have "\<forall>e\<in>set (inorder s'). de_value e = None \<longrightarrow> de_key e \<in> fe_key ` set base"
    unfolding new(4) using assms(1) unfolding delta_ok_def by blast
  then have "delta_ok h base s' t'" using new(1-3) unfolding delta_ok_def by blast
  moreover have "contents base s' = (contents base (tx_delta t))(k := None)"
    using contents_cut [OF _ _ new(4) assms(3)] idx(1) new(1) by (simp add: ordered_ok_def)
  ultimately show ?thesis using that del by fastforce
qed

lemma TxnDelete_map:
  assumes ok: "txn_ok h t"
  shows "\<exists>t'. TxnDelete h t k = Some (t', txn_map t k) \<and> txn_ok h t' \<and> txn_map t' = (txn_map t)(k := None) \<and>
    (txn_map t k = None \<longrightarrow> t' = t)"
proof -
  note t = txn_okD [OF ok]
  let ?indexed = "find_on de_key k (inorder (tx_delta t))" and ?e = "\<lparr>de_key = k, de_value = None\<rparr>"
  obtain r where r: "getBaseIndexHashed (tx_base t) (tx_lookup t) k (h k) = Some r"
    "r = None \<longleftrightarrow> k \<notin> fe_key ` set (tx_base t)" "\<forall>i. r = Some i \<longrightarrow> fe_key (tx_base t ! i) = k"
    "txn_map t k = (case ?indexed of Some e \<Rightarrow> de_value e | None \<Rightarrow> map_option (\<lambda>i. fe_value (tx_base t ! i)) r)"
    by (rule txn_read [OF ok, of k]) blast
  note run = TxnDelete_def [of h t k] getDeltaHash_find [OF t(2)] Let_def r(1)
  show ?thesis
  proof (cases "txn_map t k")
    case None
    then have "TxnDelete h t k = Some (t, None)" using r(4) by (simp add: run)
    with None ok show ?thesis by auto
  next
    case (Some v)
    have finish: ?thesis if "TxnDelete h t k = Some (t\<lparr>tx_delta := delta, tx_deltaHash := deltaHash,
        tx_deltaSize := int (card (set (inorder delta))), tx_size := tx_size t - 1, snapshot := None\<rparr>, Some v)"
      "delta_ok h (tx_base t) delta deltaHash" "contents (tx_base t) delta = (txn_map t)(k := None)" for delta deltaHash
    proof -
      have "k \<in> dom (txn_map t)" using Some by auto
      then have "0 < card (dom (txn_map t))" using t(5) by (auto simp: card_gt_0_iff)
      with that(3) t(4,5) \<open>k \<in> dom (txn_map t)\<close>
      have "tx_size t - 1 = int (card (dom (contents (tx_base t) delta)))" by (simp add: of_nat_diff)
      from txn_okI [OF ok that(2) this] that Some show ?thesis by (auto simp: txn_map_def)
    qed
    show ?thesis
    proof (cases r)
      case (Some i)
      then have "k \<in> fe_key ` set (tx_base t)" using r(2) by auto
      with indexEntry_ok [OF t(3), of ?e k "?indexed \<noteq> None"] obtain delta deltaHash where
        put: "indexEntry h t k ?e (?indexed \<noteq> None) = Some (t\<lparr>tx_delta := delta, tx_deltaHash := Some deltaHash,
          tx_deltaSize := int (card (set (inorder delta)))\<rparr>)"
        "delta_ok h (tx_base t) delta (Some deltaHash)" "contents (tx_base t) delta = (txn_map t)(k := None)" by auto
      show ?thesis
        using r(4) \<open>txn_map t k = Some v\<close> owned_key [OF r(3)] Some put
        by (intro finish [of delta "Some deltaHash"]) (auto simp: run split: option.splits)
    next
      case None
      with r(2,4) \<open>txn_map t k = Some v\<close> have there: "?indexed \<noteq> None" "k \<notin> fe_key ` set (tx_base t)" by auto
      obtain delta deltaHash previous where
        "deleteDelta (tx_delta t) k = (delta, True)" "deleteDeltaHash (tx_deltaHash t) k (h k) = (deltaHash, previous, True)"
        "delta_ok h (tx_base t) delta deltaHash"
        "int (card (set (inorder delta))) = int (card (set (inorder (tx_delta t)))) - 1"
        "contents (tx_base t) delta = (contents (tx_base t) (tx_delta t))(k := None)"
        by (rule unindex_ok [OF t(2) there])
      then show ?thesis using None r(4) \<open>txn_map t k = Some v\<close> there(1) t(6)
        by (intro finish [of delta deltaHash]) (auto simp: run txn_map_def)
    qed
  qed
qed

subsection \<open>Trees and transactions\<close>

lemma version_ok_empty: "version_ok h [] emptyLookup DNil None 0 0"
  by (simp add: version_ok_def base_ok_def delta_ok_def lookup_ok_def emptyLookup_def ordered_ok_def
      hashed_ok_def hcontent_def contents_def dom_def)

lemma startTxn_map:
  assumes "tree_ok h t"
  shows "txn_ok h (startTxn t)" and "txn_map (startTxn t) = tree_map t"
proof -
  show "txn_ok h (startTxn t)"
    using assms version_ok_empty
    by (auto simp: startTxn_def txn_ok_def node_ok_def txn_node_def tree_ok_def same_origin_def split: option.splits)
  show "txn_map (startTxn t) = tree_map t"
    by (auto simp: startTxn_def txn_map_def tree_map_def node_map_def contents_def fun_eq_iff split: option.splits)
qed

lemma matches_node:
  assumes "txn_ok h t" and "matchesOriginal t"
  shows "(case Root (original t) of
      None \<Rightarrow> tx_base t = [] \<and> tx_delta t = DNil
    | Some n \<Rightarrow> node_ok h n \<and> nd_base n = tx_base t \<and> nd_delta n = tx_delta t)"
  using assms
  by (auto simp: txn_ok_def same_origin_def matchesOriginal_def tree_ok_def Root_def split: option.splits)

lemma contents_Nil [simp]: "contents [] DNil = Map.empty"
  by (simp add: contents_def fun_eq_iff)

lemma TxnRoot_map:
  assumes "txn_ok h t"
  shows "txn_ok h (fst (TxnRoot t)) \<and> txn_map (fst (TxnRoot t)) = txn_map t \<and>
    node_map (snd (TxnRoot t)) = txn_map t \<and> (\<forall>n. snd (TxnRoot t) = Some n \<longrightarrow> node_ok h n)"
proof (cases "matchesOriginal t")
  case True
  with matches_node [OF assms True] assms show ?thesis
    by (auto simp: TxnRoot_def node_map_def txn_map_def split: option.splits)
next
  case False
  then show ?thesis using assms
    by (auto simp: TxnRoot_def node_map_def txn_map_def Let_def txn_ok_def same_origin_def)
       (auto simp: txn_node_def)
qed

lemma Commit_root: "Root (Some (Commit t)) = snd (TxnRoot t)"
  by (auto simp: Commit_def Root_def TxnRoot_def split: option.splits)

lemma Commit_map:
  assumes "txn_ok h t"
  shows "tree_ok h (Some (Commit t))" and "tree_map (Some (Commit t)) = txn_map t"
  using TxnRoot_map [OF assms] by (auto simp: tree_ok_def tree_map_def Commit_root split: option.splits)

lemma Len_map: "tree_ok h t \<Longrightarrow> Len t = int (card (dom (tree_map t)))"
  by (auto simp: Len_def tree_ok_def tree_map_def node_map_def Root_def node_ok_def version_ok_def split: option.splits)

text \<open>The operations of a transaction as data, and a run of them; \<open>None\<close> is a panic.\<close>

datatype 'v txnOp = InsertOp string 'v | DeleteOp string | RootOp

fun applyOp :: "(string \<Rightarrow> 64 word) \<Rightarrow> 'v txnOp \<Rightarrow> 'v Txn \<Rightarrow> 'v Txn option" where
  "applyOp h (InsertOp k v) t = map_option fst (TxnInsert h t k v)"
| "applyOp h (DeleteOp k) t = map_option fst (TxnDelete h t k)"
| "applyOp h RootOp t = Some (fst (TxnRoot t))"

fun applyOps :: "(string \<Rightarrow> 64 word) \<Rightarrow> 'v txnOp list \<Rightarrow> 'v Txn \<Rightarrow> 'v Txn option" where
  "applyOps h [] t = Some t"
| "applyOps h (x # xs) t = Option.bind (applyOp h x t) (applyOps h xs)"

fun updateMap :: "(string \<Rightarrow> 'v option) \<Rightarrow> 'v txnOp \<Rightarrow> string \<Rightarrow> 'v option" where
  "updateMap m (InsertOp k v) = m(k \<mapsto> v)"
| "updateMap m (DeleteOp k) = m(k := None)"
| "updateMap m RootOp = m"

lemma applyOp_map:
  assumes "txn_ok h t"
  shows "\<exists>t'. applyOp h x t = Some t' \<and> txn_ok h t' \<and> txn_map t' = updateMap (txn_map t) x"
proof (cases x)
  case (InsertOp k v)
  with TxnInsert_map [OF assms, of k v] show ?thesis by auto
next
  case (DeleteOp k)
  with TxnDelete_map [OF assms, of k] show ?thesis by auto
next
  case RootOp
  with TxnRoot_map [OF assms] show ?thesis by auto
qed

lemma applyOps_map:
  "txn_ok h t \<Longrightarrow> \<exists>t'. applyOps h xs t = Some t' \<and> txn_ok h t' \<and> txn_map t' = foldl updateMap (txn_map t) xs"
proof (induction xs arbitrary: t)
  case (Cons x xs)
  from applyOp_map [OF Cons.prems, of x] Cons.IH show ?case by fastforce
qed simp

text \<open>
  C12. A transaction on a well-formed tree never panics and never hangs, whatever the hash function and
  the sequence of insertions, deletions and snapshots: its two indexes never diverge, and the tree it
  commits is well formed (balanced ordered delta, hash trie, agreeing indexes, correct sizes), holds
  the source tree's map with the operations applied in order, and has as its length the number of
  keys of that map.
\<close>

theorem txn_refines_map:
  assumes "tree_ok h t"
  shows "\<exists>t'. applyOps h ops (startTxn t) = Some t' \<and> tree_ok h (Some (Commit t')) \<and>
    tree_map (Some (Commit t')) = foldl updateMap (tree_map t) ops \<and>
    Len (Some (Commit t')) = int (card (dom (foldl updateMap (tree_map t) ops)))"
proof -
  from applyOps_map [OF startTxn_map(1) [OF assms], of ops] obtain t' where
    t': "applyOps h ops (startTxn t) = Some t'" "txn_ok h t'" "txn_map t' = foldl updateMap (tree_map t) ops"
    by (auto simp: startTxn_map(2) [OF assms])
  with Commit_map [OF t'(2)] Len_map [of h "Some (Commit t')"] show ?thesis by auto
qed

theorem txn_refines_map_witness:
  "\<exists>t'. applyOps (\<lambda>_. 7) [InsertOp ''b'' (1 :: int), InsertOp ''a'' 2, RootOp, DeleteOp ''b'', InsertOp ''c'' 3]
        (startTxn (Some New)) = Some t' \<and>
      tree_ok (\<lambda>_. 7) (Some (Commit t')) \<and> tree_map (Some (Commit t')) = [''a'' \<mapsto> 2, ''c'' \<mapsto> 3] \<and>
      Len (Some (Commit t')) = 2"
proof -
  have "tree_ok (\<lambda>_. 7) (Some (New :: int Tree))" by (simp add: tree_ok_def Root_def New_def)
  from txn_refines_map [OF this, of "[InsertOp ''b'' 1, InsertOp ''a'' 2, RootOp, DeleteOp ''b'', InsertOp ''c'' 3]"]
  show ?thesis by (auto simp: tree_map_def node_map_def Root_def New_def fun_upd_twist)
qed

lemma TreeInsert_map:
  assumes "tree_ok h t"
  shows "\<exists>t'. TreeInsert h t k v = Some (t', tree_map t k) \<and> tree_ok h (Some t') \<and>
    tree_map (Some t') = (tree_map t)(k \<mapsto> v)"
proof -
  from TxnInsert_map [OF startTxn_map(1) [OF assms], of k v] obtain t' where
    "TxnInsert h (startTxn t) k v = Some (t', tree_map t k)" "txn_ok h t'" "txn_map t' = (tree_map t)(k \<mapsto> v)"
    by (auto simp: startTxn_map(2) [OF assms])
  with Commit_map [of h t'] show ?thesis by (simp add: TreeInsert_def)
qed

lemma TreeDelete_map:
  assumes "tree_ok h t"
  shows "\<exists>t'. TreeDelete h t k = Some (t', tree_map t k) \<and> tree_ok h (Some t') \<and>
    tree_map (Some t') = (tree_map t)(k := None)"
proof -
  from TxnDelete_map [OF startTxn_map(1) [OF assms], of k] obtain t' where
    t': "TxnDelete h (startTxn t) k = Some (t', tree_map t k)" "txn_ok h t'" "txn_map t' = (tree_map t)(k := None)"
    by (auto simp: startTxn_map(2) [OF assms])
  show ?thesis
  proof (cases "t \<noteq> None \<and> tree_map t k = None")
    case True
    then have "(tree_map t)(k := None) = tree_map t" by auto
    with True t'(1) assms show ?thesis by (auto simp: TreeDelete_def)
  next
    case False
    with t' Commit_map [of h t'] show ?thesis by (cases t) (auto simp: TreeDelete_def)
  qed
qed

subsection \<open>Bulk construction\<close>

lemma ownKeys_cut:
  "ownKeys (pre @ concat (map Key es)) (length pre) es = map (\<lambda>e. \<lparr>fe_key = Key e, fe_value = Val e\<rparr>) es"
proof (induction es arbitrary: pre)
  case (Cons e es)
  from Cons [of "pre @ Key e"] show ?case by (simp add: Let_def)
qed simp

lemma strictlyOrdered_sorted: "strictlyOrdered es \<longleftrightarrow> sorted_on Key es"
  by (induction es rule: strictlyOrdered.induct) (auto simp: not_le intro: less_trans)

lemma sorted_on_sort_key: "sorted_on key (sort_key key xs) \<longleftrightarrow> distinct (map key xs)"
  unfolding sorted_on_def strict_sorted_iff
  by (simp add: distinct_map)

lemma NewFromSorted_spec:
  assumes "length es < 2 ^ 32"
  shows "if sorted_on Key es
    then \<exists>t. NewFromSorted h es = Some (Inr t) \<and> tree_ok h (Some t) \<and>
      tree_map (Some t) = map_of (map (\<lambda>e. (Key e, Val e)) es)
    else NewFromSorted h es = Some (Inl NotStrictlyOrdered)"
proof (cases "sorted_on Key es \<and> es \<noteq> []")
  case False
  then show ?thesis
    by (auto simp: NewFromSorted_def strictlyOrdered_sorted tree_ok_def tree_map_def node_map_def Root_def New_def)
next
  case True
  let ?base = "map (\<lambda>e. \<lparr>fe_key = Key e, fe_value = Val e\<rparr>) es"
  from ownKeys_cut [of "[]" es] have own: "ownKeys (concat (map Key es)) 0 es = ?base" by simp
  obtain l where l: "buildFrozenLookup h ?base = Some l" "lookup_ok h ?base l"
    using buildFrozenLookup_ok [of ?base h] assms by auto
  have sorted: "base_sorted ?base" using True by (simp add: sorted_on_def comp_def)
  have at: "contents ?base DNil = map_of (map (\<lambda>e. (Key e, Val e)) es)"
  proof
    fix k show "contents ?base DNil k = map_of (map (\<lambda>e. (Key e, Val e)) es) k"
      by (induction es) (auto simp: contents_def)
  qed
  have "distinct (map Key es)" using True by (simp add: sorted_on_distinct)
  then have "card (dom (contents ?base DNil)) = length es"
    unfolding at dom_map_of_conv_image_fst using distinct_card by (fastforce simp: image_image)
  then have "version_ok h ?base l DNil None 0 (int (length es))"
    using sorted l(2) assms
    by (simp add: version_ok_def base_ok_def delta_ok_def ordered_ok_def hashed_ok_def hcontent_def)
  with True own l(1) at show ?thesis
    by (auto simp: NewFromSorted_def strictlyOrdered_sorted tree_ok_def tree_map_def node_map_def Root_def node_ok_def)
qed

text \<open>
  C25. Building a tree from a list of fewer than $2^{32}$ entries ends, whatever the hash function:
  with distinct keys it gives a well-formed tree that maps exactly those keys to their values, and
  with a repeated key it gives the ordering error.
\<close>

theorem NewFrom_builds_map:
  assumes "length es < 2 ^ 32"
  shows "if distinct (map Key es)
    then \<exists>t. NewFrom h es = Some (Inr t) \<and> tree_ok h (Some t) \<and>
      tree_map (Some t) = map_of (map (\<lambda>e. (Key e, Val e)) es)
    else NewFrom h es = Some (Inl NotStrictlyOrdered)"
proof -
  have "map_of (map (\<lambda>e. (Key e, Val e)) (sort_key Key es)) = map_of (map (\<lambda>e. (Key e, Val e)) es)"
    if "distinct (map Key es)"
    using that sorted_on_distinct [of Key "sort_key Key es"]
    by (subst map_of_inject_set) (simp_all add: comp_def sorted_on_sort_key)
  with NewFromSorted_spec [of "sort_key Key es" h] assms show ?thesis
    by (cases "distinct (map Key es)") (simp_all add: NewFrom_def sorted_on_sort_key)
qed

theorem NewFrom_builds_map_witness:
  "\<exists>t. NewFrom (\<lambda>k. of_nat (length k)) [\<lparr>Key = ''b'', Val = True\<rparr>, \<lparr>Key = ''a'', Val = False\<rparr>] = Some (Inr t) \<and>
    tree_map (Some t) = [''a'' \<mapsto> False, ''b'' \<mapsto> True]"
  using NewFrom_builds_map [of "[\<lparr>Key = ''b'', Val = True\<rparr>, \<lparr>Key = ''a'', Val = False\<rparr>]" "\<lambda>k. of_nat (length k)"]
  by (auto simp: fun_upd_twist)

end
