(* ===== verification/Persistent_Walk.thy ===== *)
theory Persistent_Walk
  imports Persistent_Tree
begin

section \<open>Reading a persistent tree in order\<close>

text \<open>
  \<open>src/pkg/persistenttree/tree.go\<close>: \<open>Minimum\<close>, \<open>Maximum\<close>, \<open>Walk\<close>, \<open>WalkPrefix\<close> and the merged walk over
  the base and the ordered delta. A visitor is a function that also updates a state, so that what a
  walk calls and in which order is visible: \<open>visit k v s\<close> is the new state and whether to stop.
\<close>

type_synonym ('v, 's) visitor = "string \<Rightarrow> 'v \<Rightarrow> 's \<Rightarrow> 's \<times> bool"

subsection \<open>The ends\<close>

text \<open>The loops that skip the base entries the delta shadows, from the front and from the back.\<close>

function skipShadowed :: "(string \<Rightarrow> 64 word) \<Rightarrow> 'v Node \<Rightarrow> nat \<Rightarrow> nat" where
  "skipShadowed h n baseIndex =
     (if baseIndex < length (nd_base n) then
        let k = fe_key (nd_base n ! baseIndex) in
        if getDeltaHash (nd_deltaHash n) k (h k) = None then baseIndex else skipShadowed h n (baseIndex + 1)
      else baseIndex)"
  by auto
termination by (relation "measure (\<lambda>(h, n, i). length (nd_base n) - i)") auto

text \<open>The index counts from 1 here, so 0 is the source's $-1$.\<close>

fun skipShadowedBack :: "(string \<Rightarrow> 64 word) \<Rightarrow> 'v Node \<Rightarrow> nat \<Rightarrow> nat" where
  "skipShadowedBack h n 0 = 0"
| "skipShadowedBack h n (Suc i) =
     (let k = fe_key (nd_base n ! i) in
      if getDeltaHash (nd_deltaHash n) k (h k) = None then Suc i else skipShadowedBack h n i)"

definition Minimum :: "(string \<Rightarrow> 64 word) \<Rightarrow> 'v Node option \<Rightarrow> (string \<times> 'v) option" where
  "Minimum h node =
     (case node of
        None \<Rightarrow> None
      | Some n \<Rightarrow>
          if nd_size n = 0 then None
          else let baseIndex = skipShadowed h n 0; e = nd_base n ! baseIndex in
            if baseIndex \<ge> length (nd_base n) then minimumPresentDelta (nd_delta n)
            else case minimumPresentDelta (nd_delta n) of
              None \<Rightarrow> Some (fe_key e, fe_value e)
            | Some (deltaKey, deltaValue) \<Rightarrow>
                if fe_key e < deltaKey then Some (fe_key e, fe_value e) else Some (deltaKey, deltaValue))"

definition Maximum :: "(string \<Rightarrow> 64 word) \<Rightarrow> 'v Node option \<Rightarrow> (string \<times> 'v) option" where
  "Maximum h node =
     (case node of
        None \<Rightarrow> None
      | Some n \<Rightarrow>
          if nd_size n = 0 then None
          else let i = skipShadowedBack h n (length (nd_base n)); e = nd_base n ! (i - 1) in
            if i = 0 then maximumPresentDelta (nd_delta n)
            else case maximumPresentDelta (nd_delta n) of
              None \<Rightarrow> Some (fe_key e, fe_value e)
            | Some (deltaKey, deltaValue) \<Rightarrow>
                if fe_key e > deltaKey then Some (fe_key e, fe_value e) else Some (deltaKey, deltaValue))"

subsection \<open>The merged walk\<close>

record ('v, 's) mergedWalk =
  mw_base :: "'v frozenEntry list"
  mw_next :: nat
  mw_end :: nat
  mw_stopped :: bool
  mw_state :: 's

text \<open>The loop of \<open>flushBaseBefore\<close>; the second component is whether it returned from inside.\<close>

function flushLoop ::
  "('v, 's) visitor \<Rightarrow> string \<Rightarrow> bool \<Rightarrow> ('v, 's) mergedWalk \<Rightarrow> ('v, 's) mergedWalk \<times> bool" where
  "flushLoop visit k bounded w =
     (if mw_next w < mw_end w \<and> (\<not> bounded \<or> fe_key (mw_base w ! mw_next w) < k) then
        let e = mw_base w ! mw_next w in
        case visit (fe_key e) (fe_value e) (mw_state w) of (s, stop) \<Rightarrow>
          let w' = w\<lparr>mw_next := mw_next w + 1, mw_stopped := stop, mw_state := s\<rparr> in
          if stop then (w', True) else flushLoop visit k bounded w'
      else (w, False))"
  by auto
termination by (relation "measure (\<lambda>(visit, k, bounded, w). mw_end w - mw_next w)") auto

declare flushLoop.simps [simp del] skipShadowed.simps [simp del]

definition flushBaseBefore ::
  "('v, 's) visitor \<Rightarrow> string \<Rightarrow> bool \<Rightarrow> ('v, 's) mergedWalk \<Rightarrow> ('v, 's) mergedWalk" where
  "flushBaseBefore visit k bounded w =
     (case flushLoop visit k bounded w of (w', returned) \<Rightarrow>
        if returned then w'
        else if bounded \<and> mw_next w' < mw_end w' \<and> fe_key (mw_base w' ! mw_next w') = k
        then w'\<lparr>mw_next := mw_next w' + 1\<rparr> else w')"

fun walkDelta ::
  "('v, 's) visitor \<Rightarrow> 'v deltaNode \<Rightarrow> string \<Rightarrow> string \<Rightarrow> bool \<Rightarrow> ('v, 's) mergedWalk \<Rightarrow> ('v, 's) mergedWalk" where
  "walkDelta visit DNil lower upper bounded w = w"
| "walkDelta visit (DNode e l r _) lower upper bounded w =
     (if mw_stopped w then w
      else
        let atLeast = compareStringBytes (de_key e) lower \<ge> 0;
            below = (\<not> bounded \<or> de_key e < upper);
            w1 = (if atLeast then walkDelta visit l lower upper bounded w else w)
        in if mw_stopped w1 then w1
           else
             let w2 = (if atLeast \<and> below then
                   (let w' = flushBaseBefore visit (de_key e) True w1 in
                    if mw_stopped w' then w'
                    else case de_value e of
                      None \<Rightarrow> w'
                    | Some v \<Rightarrow> (case visit (de_key e) v (mw_state w') of (s, stop) \<Rightarrow>
                        w'\<lparr>mw_stopped := stop, mw_state := s\<rparr>))
                 else w1)
             in if \<not> mw_stopped w2 \<and> below then walkDelta visit r lower upper bounded w2 else w2)"

definition Walk :: "'v Node option \<Rightarrow> ('v, 's) visitor \<Rightarrow> 's \<Rightarrow> 's \<times> bool" where
  "Walk node visit s =
     (case node of
        None \<Rightarrow> (s, False)
      | Some n \<Rightarrow>
          if nd_size n = 0 then (s, False)
          else
            let w = \<lparr>mw_base = nd_base n, mw_next = 0, mw_end = length (nd_base n), mw_stopped = False, mw_state = s\<rparr>;
                w1 = walkDelta visit (nd_delta n) [] [] False w;
                w2 = (if \<not> mw_stopped w1 then flushBaseBefore visit [] False w1 else w1)
            in (mw_state w2, mw_stopped w2))"

text \<open>
  The loop of \<open>prefixUpperBound\<close> from the last byte to the first: the argument is the prefix reversed.
  \<open>None\<close> is the result that has no bound.
\<close>

fun upperBoundRev :: "string \<Rightarrow> string option" where
  "upperBoundRev [] = None"
| "upperBoundRev (c # cs) =
     (if of_char c \<noteq> (0xff :: nat) then Some (rev (char_of (of_char c + 1 :: nat) # cs)) else upperBoundRev cs)"

definition prefixUpperBound :: "string \<Rightarrow> string option" where
  "prefixUpperBound p = upperBoundRev (rev p)"

definition WalkPrefix :: "'v Node option \<Rightarrow> string \<Rightarrow> ('v, 's) visitor \<Rightarrow> 's \<Rightarrow> 's \<times> bool" where
  "WalkPrefix node p visit s =
     (case node of
        None \<Rightarrow> (s, False)
      | Some n \<Rightarrow>
          if nd_size n = 0 then (s, False)
          else
            let upper = prefixUpperBound p;
                up = (case upper of None \<Rightarrow> [] | Some u \<Rightarrow> u);
                w = \<lparr>mw_base = nd_base n, mw_next = lowerBoundBytes (nd_base n) p,
                  mw_end = (case upper of None \<Rightarrow> length (nd_base n) | Some u \<Rightarrow> lowerBoundString (nd_base n) u),
                  mw_stopped = False, mw_state = s\<rparr>;
                w1 = walkDelta visit (nd_delta n) p up (upper \<noteq> None) w;
                w2 = (if \<not> mw_stopped w1 then flushBaseBefore visit [] False w1 else w1)
            in (mw_state w2, mw_stopped w2))"

subsection \<open>Visiting a list\<close>

fun foldVisit :: "('v, 's) visitor \<Rightarrow> (string \<times> 'v) list \<Rightarrow> 's \<Rightarrow> 's \<times> bool" where
  "foldVisit visit [] s = (s, False)"
| "foldVisit visit ((k, v) # xs) s =
     (case visit k v s of (s', stop) \<Rightarrow> if stop then (s', True) else foldVisit visit xs s')"

lemma foldVisit_append:
  "foldVisit visit (xs @ ys) s =
     (case foldVisit visit xs s of (s', stop) \<Rightarrow> if stop then (s', True) else foldVisit visit ys s')"
  by (induction xs arbitrary: s) (auto split: prod.splits)

definition kv :: "'v frozenEntry \<Rightarrow> string \<times> 'v" where
  "kv e = (fe_key e, fe_value e)"

lemma fst_kv [simp]: "fst (kv e) = fe_key e"
  by (simp add: kv_def)

lemma foldVisit_kv [simp]:
  "foldVisit visit (kv e # xs) s =
     (case visit (fe_key e) (fe_value e) s of (s', stop) \<Rightarrow> if stop then (s', True) else foldVisit visit xs s')"
  by (simp add: kv_def)

definition presentKv :: "'v deltaEntry \<Rightarrow> (string \<times> 'v) list" where
  "presentKv e = (case de_value e of None \<Rightarrow> [] | Some v \<Rightarrow> [(de_key e, v)])"

text \<open>The base entries a walk has still before it.\<close>

definition pending :: "('v, 's) mergedWalk \<Rightarrow> 'v frozenEntry list" where
  "pending w = drop (mw_next w) (take (mw_end w) (mw_base w))"

text \<open>
  The walk went from \<open>w\<close> to \<open>w'\<close> by visiting \<open>out\<close> until the visitor stopped it; if it did not, \<open>rest\<close>
  is what it has still before it.
\<close>

definition walked ::
  "('v, 's) visitor \<Rightarrow> ('v, 's) mergedWalk \<Rightarrow> (string \<times> 'v) list \<Rightarrow> 'v frozenEntry list \<Rightarrow> ('v, 's) mergedWalk \<Rightarrow> bool" where
  "walked visit w out rest w' \<longleftrightarrow>
     (mw_state w', mw_stopped w') = foldVisit visit out (mw_state w) \<and>
     (\<not> mw_stopped w' \<longrightarrow> pending w' = rest \<and> mw_end w' \<le> length (mw_base w'))"

lemma walked_then:
  assumes "walked visit w out rest w1"
    and "\<not> mw_stopped w1 \<Longrightarrow> pending w1 = rest \<Longrightarrow> mw_end w1 \<le> length (mw_base w1) \<Longrightarrow> walked visit w1 out' rest' (f w1)"
  shows "walked visit w (out @ out') rest' (if mw_stopped w1 then w1 else f w1)"
proof -
  from assms(1) have out: "foldVisit visit out (mw_state w) = (mw_state w1, mw_stopped w1)"
    by (simp add: walked_def)
  with assms show ?thesis by (cases "mw_stopped w1") (simp_all add: walked_def foldVisit_append)
qed

lemma walked_refl:
  "\<not> mw_stopped w \<Longrightarrow> mw_end w \<le> length (mw_base w) \<Longrightarrow> walked visit w [] (pending w) w"
  by (simp add: walked_def)

lemma pending_Cons:
  assumes "mw_next w < mw_end w" and "mw_end w \<le> length (mw_base w)"
  shows "pending w = mw_base w ! mw_next w # pending (w\<lparr>mw_next := mw_next w + 1, mw_stopped := b, mw_state := s\<rparr>)"
    and "pending w = mw_base w ! mw_next w # pending (w\<lparr>mw_next := mw_next w + 1\<rparr>)"
  using assms by (simp_all add: pending_def Cons_nth_drop_Suc [symmetric])

lemma pending_Nil: "\<not> mw_next w < mw_end w \<Longrightarrow> pending w = []"
  by (simp add: pending_def)

lemma flushLoop_walked:
  assumes "\<not> mw_stopped w" and "mw_end w \<le> length (mw_base w)"
  shows "walked visit w (map kv (takeWhile (\<lambda>e. \<not> bounded \<or> fe_key e < k) (pending w)))
      (dropWhile (\<lambda>e. \<not> bounded \<or> fe_key e < k) (pending w)) (fst (flushLoop visit k bounded w)) \<and>
    snd (flushLoop visit k bounded w) = mw_stopped (fst (flushLoop visit k bounded w))"
  using assms
proof (induction visit k bounded w rule: flushLoop.induct)
  case (1 visit k bounded w)
  let ?before = "\<lambda>e. \<not> bounded \<or> fe_key e < k"
  let ?e = "mw_base w ! mw_next w"
  show ?case
  proof (cases "mw_next w < mw_end w \<and> ?before ?e")
    case False
    then have "flushLoop visit k bounded w = (w, False)" by (subst flushLoop.simps) auto
    moreover have "takeWhile ?before (pending w) = []" and "dropWhile ?before (pending w) = pending w"
      using False pending_Cons(2) [of w] pending_Nil [of w] 1(3) by (cases "mw_next w < mw_end w"; simp)+
    ultimately show ?thesis using 1(2,3) walked_refl by auto
  next
    case True
    obtain s stop where v: "visit (fe_key ?e) (fe_value ?e) (mw_state w) = (s, stop)" by fastforce
    let ?w = "w\<lparr>mw_next := mw_next w + 1, mw_stopped := stop, mw_state := s\<rparr>"
    have run: "flushLoop visit k bounded w = (if stop then (?w, True) else flushLoop visit k bounded ?w)"
      using True by (subst flushLoop.simps) (simp add: v Let_def)
    have p: "pending w = ?e # pending ?w" by (rule pending_Cons(1)) (use True 1(3) in auto)
    show ?thesis
    proof (cases stop)
      case True
      then show ?thesis using run v p \<open>mw_next w < mw_end w \<and> ?before ?e\<close>
        by (simp add: walked_def)
    next
      case False
      from 1(1) [OF True HOL.refl v [symmetric] HOL.refl False] 1(3) False
      have "walked visit ?w (map kv (takeWhile ?before (pending ?w))) (dropWhile ?before (pending ?w))
          (fst (flushLoop visit k bounded ?w)) \<and>
        snd (flushLoop visit k bounded ?w) = mw_stopped (fst (flushLoop visit k bounded ?w))"
        by simp
      with run v p True False show ?thesis by (simp add: walked_def)
    qed
  qed
qed

lemma sorted_split:
  fixes key :: "'a \<Rightarrow> 'k::linorder"
  assumes "sorted_on key xs"
  shows "takeWhile (\<lambda>x. key x < k) xs = filter (\<lambda>x. key x < k) xs \<and>
    dropWhile (\<lambda>x. key x < k) xs = filter (\<lambda>x. k \<le> key x) xs"
  using assms
proof (induction xs)
  case (Cons a xs)
  have all: "k \<le> key x" if "x \<in> set xs" "k \<le> key a" for x using Cons.prems that by force
  with Cons show ?case by (auto simp: filter_empty_conv filter_id_conv not_less not_le)
qed simp

lemma flush_all:
  assumes "\<not> mw_stopped w" and "mw_end w \<le> length (mw_base w)"
  shows "walked visit w (map kv (pending w)) [] (flushBaseBefore visit k False w)"
proof -
  have "takeWhile (\<lambda>_. True) (pending w) = pending w" "dropWhile (\<lambda>_. True) (pending w) = []"
    by (simp_all add: takeWhile_eq_all_conv dropWhile_eq_Nil_conv)
  with flushLoop_walked [OF assms, of visit False k] show ?thesis
    by (auto simp: flushBaseBefore_def split: prod.splits)
qed

lemma flush_before:
  assumes "\<not> mw_stopped w" and "mw_end w \<le> length (mw_base w)" and sorted: "base_sorted (pending w)"
  shows "walked visit w (map kv (filter (\<lambda>e. fe_key e < k) (pending w))) (filter (\<lambda>e. k < fe_key e) (pending w))
    (flushBaseBefore visit k True w)"
proof -
  obtain w' returned where loop: "flushLoop visit k True w = (w', returned)" by fastforce
  from flushLoop_walked [OF assms(1,2), of visit True k]
  have run: "walked visit w (map kv (filter (\<lambda>e. fe_key e < k) (pending w))) (filter (\<lambda>e. k \<le> fe_key e) (pending w)) w'"
    "returned = mw_stopped w'" by (simp_all add: loop sorted_split [OF sorted])
  show ?thesis
  proof (cases "mw_stopped w'")
    case True
    with run loop show ?thesis by (simp add: flushBaseBefore_def walked_def)
  next
    case False
    with run(1) have w': "pending w' = filter (\<lambda>e. k \<le> fe_key e) (pending w)" "mw_end w' \<le> length (mw_base w')"
      by (simp_all add: walked_def)
    let ?skip = "mw_next w' < mw_end w' \<and> fe_key (mw_base w' ! mw_next w') = k"
    have sorted': "base_sorted (pending w')" using sorted by (simp add: w'(1))
    have drop: "filter (\<lambda>e. k < fe_key e) (pending w) = filter (\<lambda>e. k < fe_key e) (pending w')"
      by (simp add: w'(1)) (meson less_imp_le)
    have "pending (if ?skip then w'\<lparr>mw_next := mw_next w' + 1\<rparr> else w') = filter (\<lambda>e. k < fe_key e) (pending w)"
    proof (cases "mw_next w' < mw_end w'")
      case lt: True
      let ?e = "mw_base w' ! mw_next w'"
      from pending_Cons(2) [OF lt w'(2)] have p: "pending w' = ?e # pending (w'\<lparr>mw_next := mw_next w' + 1\<rparr>)" .
      have tail: "\<forall>x\<in>set (pending (w'\<lparr>mw_next := mw_next w' + 1\<rparr>)). fe_key ?e < fe_key x"
        using sorted' by (subst (asm) p) simp
      have "?e \<in> set (pending w')" by (subst p) simp
      then have ge: "k \<le> fe_key ?e" by (simp add: w'(1))
      have "filter (\<lambda>e. k < fe_key e) (pending (w'\<lparr>mw_next := mw_next w' + 1\<rparr>)) = pending (w'\<lparr>mw_next := mw_next w' + 1\<rparr>)"
        using tail ge by (auto simp: filter_id_conv intro: le_less_trans)
      then have "filter (\<lambda>e. k < fe_key e) (pending w') =
          (if fe_key ?e = k then pending (w'\<lparr>mw_next := mw_next w' + 1\<rparr>) else pending w')"
        using ge by (simp add: p)
      with lt show ?thesis unfolding drop by simp
    next
      case nlt: False
      then show ?thesis unfolding drop by (simp add: pending_Nil)
    qed
    with False run loop w'(2) show ?thesis by (auto simp: flushBaseBefore_def walked_def)
  qed
qed

text \<open>What the walk over a list of delta entries visits, and what it leaves of the base.\<close>

fun emitted :: "'v frozenEntry list \<Rightarrow> 'v deltaEntry list \<Rightarrow> (string \<times> 'v) list" where
  "emitted B [] = []"
| "emitted B (e # es) =
     map kv (filter (\<lambda>b. fe_key b < de_key e) B) @ presentKv e @ emitted (filter (\<lambda>b. de_key e < fe_key b) B) es"

definition remaining :: "'v frozenEntry list \<Rightarrow> 'v deltaEntry list \<Rightarrow> 'v frozenEntry list" where
  "remaining B es = filter (\<lambda>b. \<forall>e\<in>set es. de_key e < fe_key b) B"

lemma remaining_Nil [simp]: "remaining B [] = B"
  by (simp add: remaining_def)

lemma emitted_append: "emitted B (xs @ ys) = emitted B xs @ emitted (remaining B xs) ys"
proof (induction xs arbitrary: B)
  case (Cons e es)
  have "filter (\<lambda>b. \<forall>x\<in>set es. de_key x < fe_key b) (filter (\<lambda>b. de_key e < fe_key b) B) =
      filter (\<lambda>b. \<forall>x\<in>set (e # es). de_key x < fe_key b) B" by (simp add: conj_commute)
  with Cons show ?case by (simp add: remaining_def)
qed (simp add: remaining_def)

lemma remaining_append: "remaining B (xs @ ys) = remaining (remaining B xs) ys"
  by (simp add: remaining_def ball_Un conj_commute)

definition inRange :: "string \<Rightarrow> string \<Rightarrow> bool \<Rightarrow> string \<Rightarrow> bool" where
  "inRange lower upper bounded k \<longleftrightarrow> lower \<le> k \<and> (\<not> bounded \<or> k < upper)"

lemma compareStringBytes_ge [simp]: "0 \<le> compareStringBytes a b \<longleftrightarrow> b \<le> a"
  using compareStringBytes_less [of a b] by (metis linorder_not_less)

text \<open>The step of the walk at one delta entry.\<close>

definition atEntry :: "('v, 's) visitor \<Rightarrow> 'v deltaEntry \<Rightarrow> ('v, 's) mergedWalk \<Rightarrow> ('v, 's) mergedWalk" where
  "atEntry visit e w1 =
     (let w' = flushBaseBefore visit (de_key e) True w1 in
      if mw_stopped w' then w'
      else case de_value e of
        None \<Rightarrow> w'
      | Some v \<Rightarrow> (case visit (de_key e) v (mw_state w') of (s, stop) \<Rightarrow> w'\<lparr>mw_stopped := stop, mw_state := s\<rparr>))"

lemma atEntry_walked:
  assumes "\<not> mw_stopped w" and "mw_end w \<le> length (mw_base w)" and "base_sorted (pending w)"
  shows "walked visit w (emitted (pending w) [e]) (remaining (pending w) [e]) (atEntry visit e w)"
proof -
  let ?w = "flushBaseBefore visit (de_key e) True w"
  let ?f = "\<lambda>w'. case de_value e of None \<Rightarrow> w'
    | Some v \<Rightarrow> (case visit (de_key e) v (mw_state w') of (s, stop) \<Rightarrow> w'\<lparr>mw_stopped := stop, mw_state := s\<rparr>)"
  have "walked visit w (map kv (filter (\<lambda>b. fe_key b < de_key e) (pending w)) @ presentKv e)
      (filter (\<lambda>b. de_key e < fe_key b) (pending w)) (if mw_stopped ?w then ?w else ?f ?w)"
    by (rule walked_then [OF flush_before [OF assms]])
       (auto simp: walked_def presentKv_def pending_def split: option.splits prod.splits)
  then show ?thesis by (simp add: atEntry_def Let_def remaining_def)
qed

lemma walkDelta_walked:
  fixes lower upper :: string and bounded :: bool
  assumes "delta_sorted t" and "\<not> mw_stopped w" and "mw_end w \<le> length (mw_base w)" and "base_sorted (pending w)"
  defines "es \<equiv> filter (\<lambda>e. inRange lower upper bounded (de_key e)) (inorder t)"
  shows "walked visit w (emitted (pending w) es) (remaining (pending w) es) (walkDelta visit t lower upper bounded w)"
  using assms(1-4) unfolding es_def
proof (induction t arbitrary: w)
  case DNil
  then show ?case using walked_refl by (simp add: remaining_def)
next
  case (DNode e l r ht)
  let ?in = "\<lambda>t. filter (\<lambda>e. inRange lower upper bounded (de_key e)) (inorder t)"
  let ?here = "if inRange lower upper bounded (de_key e) then [e] else []"
  let ?below = "\<not> bounded \<or> de_key e < upper"
  from DNode.prems(1) have sl: "delta_sorted l" "delta_sorted r" "\<forall>x\<in>set (inorder l). de_key x < de_key e"
    "\<forall>x\<in>set (inorder r). de_key e < de_key x" by auto
  have noL: "?in l = []" if "\<not> lower \<le> de_key e"
    using that sl(3) by (force simp: filter_empty_conv inRange_def)
  have noR: "?in r = []" if "\<not> ?below"
    using that sl(4) by (force simp: filter_empty_conv inRange_def)
  define w1 where "w1 = (if lower \<le> de_key e then walkDelta visit l lower upper bounded w else w)"
  have 1: "walked visit w (emitted (pending w) (?in l)) (remaining (pending w) (?in l)) w1"
    using DNode.IH(1) [OF sl(1) DNode.prems(2-4)] noL walked_refl [OF DNode.prems(2,3)]
    by (cases "lower \<le> de_key e") (simp_all add: w1_def)
  define f where "f w1 = (if inRange lower upper bounded (de_key e) then atEntry visit e w1 else w1)" for w1
  have sorted: "base_sorted (remaining (pending w) xs)" for xs using DNode.prems(4) by (simp add: remaining_def)
  have 2: "walked visit w (emitted (pending w) (?in l @ ?here)) (remaining (pending w) (?in l @ ?here))
      (if mw_stopped w1 then w1 else f w1)"
    unfolding emitted_append remaining_append
  proof (rule walked_then [OF 1])
    assume w1: "\<not> mw_stopped w1" "pending w1 = remaining (pending w) (?in l)" "mw_end w1 \<le> length (mw_base w1)"
    have "base_sorted (pending w1)" unfolding w1(2) by (rule sorted)
    from atEntry_walked [OF w1(1,3) this, of visit e] walked_refl [OF w1(1,3), of visit]
    show "walked visit w1 (emitted (remaining (pending w) (?in l)) ?here) (remaining (remaining (pending w) (?in l)) ?here) (f w1)"
      unfolding w1(2) f_def by simp
  qed
  define w2 where "w2 = (if mw_stopped w1 then w1 else f w1)"
  have 3: "walked visit w (emitted (pending w) ((?in l @ ?here) @ ?in r)) (remaining (pending w) ((?in l @ ?here) @ ?in r))
      (if mw_stopped w2 then w2 else if ?below then walkDelta visit r lower upper bounded w2 else w2)"
    unfolding emitted_append [of _ "_ @ _"] remaining_append [of _ "_ @ _"]
  proof (rule walked_then [OF 2 [folded w2_def]])
    assume w2: "\<not> mw_stopped w2" "pending w2 = remaining (pending w) (?in l @ ?here)" "mw_end w2 \<le> length (mw_base w2)"
    have "base_sorted (pending w2)" unfolding w2(2) by (rule sorted)
    from DNode.IH(2) [OF sl(2) w2(1,3) this] noR walked_refl [OF w2(1,3), of visit]
    show "walked visit w2 (emitted (remaining (pending w) (?in l @ ?here)) (?in r))
        (remaining (remaining (pending w) (?in l @ ?here)) (?in r))
        (if ?below then walkDelta visit r lower upper bounded w2 else w2)"
      unfolding w2(2) by (cases ?below) simp_all
  qed
  have "walkDelta visit (DNode e l r ht) lower upper bounded w =
      (if mw_stopped w2 then w2 else if ?below then walkDelta visit r lower upper bounded w2 else w2)"
    using DNode.prems(2)
    by (auto simp: w2_def w1_def f_def atEntry_def inRange_def Let_def)
  moreover have "?in (DNode e l r ht) = (?in l @ ?here) @ ?in r" by simp
  ultimately show ?case using 3 by presburger
qed

subsection \<open>The listing of a version\<close>

definition listing :: "'v frozenEntry list \<Rightarrow> 'v deltaEntry list \<Rightarrow> (string \<times> 'v) list" where
  "listing B es = emitted B es @ map kv (remaining B es)"

lemma listing_Nil: "listing B [] = map kv B"
  by (simp add: listing_def)

lemma listing_Cons:
  "listing B (e # es) = map kv (filter (\<lambda>b. fe_key b < de_key e) B) @ presentKv e @
     listing (filter (\<lambda>b. de_key e < fe_key b) B) es"
  by (simp add: listing_def remaining_append [of B "[e]" es, simplified]) (simp add: remaining_def)

definition shadowed :: "'v deltaEntry list \<Rightarrow> 'v frozenEntry \<Rightarrow> bool" where
  "shadowed es b \<longleftrightarrow> fe_key b \<in> de_key ` set es"

lemma set_presentKv: "set (presentKv e) = {(de_key e, v) | v. de_value e = Some v}"
  by (auto simp: presentKv_def split: option.splits)

lemma set_listing:
  "sorted_on de_key es \<Longrightarrow> set (listing B es) =
     {(de_key e, v) | e v. e \<in> set es \<and> de_value e = Some v} \<union> kv ` {b \<in> set B. \<not> shadowed es b}"
proof (induction es arbitrary: B)
  case Nil
  then show ?case by (simp add: listing_Nil shadowed_def)
next
  case (Cons e es)
  have late: "\<not> shadowed es b" if "fe_key b < de_key e" for b
    using Cons.prems that by (auto simp: shadowed_def)
  have "{b \<in> set B. \<not> shadowed (e # es) b} =
      {b \<in> set B. fe_key b < de_key e} \<union> {b \<in> set (filter (\<lambda>b. de_key e < fe_key b) B). \<not> shadowed es b}"
    using late by (auto simp: shadowed_def)
  then show ?case
    using Cons by (auto simp: listing_Cons set_presentKv)
qed

lemma sorted_listing:
  "sorted_on de_key es \<Longrightarrow> base_sorted B \<Longrightarrow> sorted_on fst (listing B es)"
proof (induction es arbitrary: B)
  case Nil
  then show ?case by (simp add: listing_Nil sorted_on_def comp_def)
next
  case (Cons e es)
  let ?C = "filter (\<lambda>b. de_key e < fe_key b) B"
  have after: "de_key e < fst x" if "x \<in> set (listing ?C es)" for x
    using that Cons.prems(1) set_listing [of es ?C] by auto
  have early: "sorted_on fst (map kv (filter (\<lambda>b. fe_key b < de_key e) B))"
    using Cons.prems(2) by (simp add: sorted_on_def comp_def sorted_wrt_map sorted_wrt_filter)
  have here: "sorted_on fst (presentKv e)" "\<forall>x\<in>set (presentKv e). fst x = de_key e"
    by (auto simp: presentKv_def split: option.splits)
  have "fst x < fst y" if "x \<in> set (map kv (filter (\<lambda>b. fe_key b < de_key e) B))"
      "y \<in> set (presentKv e @ listing ?C es)" for x y
  proof -
    have "fst x < de_key e" using that(1) by auto
    moreover have "de_key e \<le> fst y" 
      using that(2) here(2) after [of y] by (auto simp only: set_append Un_iff intro: less_imp_le)
    ultimately show ?thesis by (rule less_le_trans)
  qed
  moreover have "sorted_on fst (presentKv e @ listing ?C es)" using here after Cons by simp
  ultimately show ?case using early unfolding listing_Cons sorted_on_append by blast
qed

lemma sorted_on_unique:
  fixes key :: "'a \<Rightarrow> 'k::linorder"
  shows "sorted_on key xs \<Longrightarrow> sorted_on key ys \<Longrightarrow> set xs = set ys \<Longrightarrow> xs = ys"
proof (induction xs arbitrary: ys)
  case (Cons x xs)
  then obtain y zs where ys: "ys = y # zs" by (cases ys) auto
  have "x = y"
  proof (rule ccontr)
    assume "x \<noteq> y"
    with Cons.prems(3) ys have "x \<in> set zs" "y \<in> set xs" by auto
    with Cons.prems ys show False by (meson less_asym sorted_on_Cons)
  qed
  moreover from this have "set xs = set zs"
    using Cons.prems ys by (auto dest: less_imp_neq)
  ultimately show ?case using Cons ys by auto
qed simp

lemma map_of_listing:
  assumes "delta_sorted d" and "base_sorted B"
  shows "map_of (listing B (inorder d)) = contents B d"
proof
  fix k
  have dist: "distinct (map fst (listing B (inorder d)))"
    by (rule sorted_on_distinct [OF sorted_listing [OF assms]])
  have none: "find_on de_key k (inorder d) = None \<longleftrightarrow> k \<notin> de_key ` set (inorder d)"
    unfolding find_on_None_iff by auto
  have "map_of (listing B (inorder d)) k = Some v \<longleftrightarrow> contents B d k = Some v" for v
  proof -
    have "map_of (listing B (inorder d)) k = Some v \<longleftrightarrow> (k, v) \<in> set (listing B (inorder d))"
      by (rule map_of_eq_Some_iff [OF dist])
    also have "\<dots> \<longleftrightarrow> (\<exists>e\<in>set (inorder d). de_key e = k \<and> de_value e = Some v) \<or>
        k \<notin> de_key ` set (inorder d) \<and> (\<exists>b\<in>set B. fe_key b = k \<and> fe_value b = v)"
      unfolding set_listing [OF assms(1)] shadowed_def kv_def by auto
    also have "\<dots> \<longleftrightarrow> contents B d k = Some v"
    proof (cases "find_on de_key k (inorder d)")
      case None
      with none have "k \<notin> de_key ` set (inorder d)" by simp
      then show ?thesis using None find_on_sorted [OF assms(2), of k] by (auto simp: contents_def)
    next
      case (Some e)
      then have "e \<in> set (inorder d) \<and> de_key e = k" by (simp add: find_on_sorted [OF assms(1)])
      with Some sorted_on_inj [OF assms(1)] show ?thesis by (auto simp: contents_def)
    qed
    finally show ?thesis .
  qed
  then show "map_of (listing B (inorder d)) k = contents B d k" by (rule option_Some_eqI)
qed

lemma walk_listing:
  fixes lower upper :: string and bounded :: bool and visit :: "('v, 's) visitor"
  assumes "delta_sorted t" and "\<not> mw_stopped w" and "mw_end w \<le> length (mw_base w)" and "base_sorted (pending w)"
  defines "w1 \<equiv> walkDelta visit t lower upper bounded w"
  defines "w2 \<equiv> (if \<not> mw_stopped w1 then flushBaseBefore visit [] False w1 else w1)"
  shows "(mw_state w2, mw_stopped w2) =
    foldVisit visit (listing (pending w) (filter (\<lambda>e. inRange lower upper bounded (de_key e)) (inorder t))) (mw_state w)"
proof -
  let ?es = "filter (\<lambda>e. inRange lower upper bounded (de_key e)) (inorder t)"
  have "walked visit w (emitted (pending w) ?es @ map kv (remaining (pending w) ?es)) []
      (if mw_stopped w1 then w1 else flushBaseBefore visit [] False w1)"
    unfolding w1_def by (rule walked_then [OF walkDelta_walked [OF assms(1-4)]]) (metis flush_all)
  then show ?thesis unfolding w2_def walked_def listing_def by (auto split: if_splits)
qed

subsection \<open>Prefixes\<close>

lemma upperBoundRev_snoc:
  "upperBoundRev (cs @ [a]) =
     (case upperBoundRev cs of
        Some u \<Rightarrow> Some (a # u)
      | None \<Rightarrow> if of_char a \<noteq> (0xff :: nat) then Some [char_of (of_char a + 1 :: nat)] else None)"
  by (induction cs) auto

lemma less_next_char:
  assumes "of_char a \<noteq> (0xff :: nat)"
  shows "b < char_of (of_char a + 1 :: nat) \<longleftrightarrow> b \<le> a" and "char_of (of_char a + 1 :: nat) \<noteq> a"
proof -
  have "of_char a < (256 :: nat)" by (rule nat_of_char_less_256)
  with assms have "of_char a + 1 < (256 :: nat)" by linarith
  then have "of_char (char_of (of_char a + 1 :: nat)) = (of_char a + 1 :: nat)" by simp
  then show "b < char_of (of_char a + 1 :: nat) \<longleftrightarrow> b \<le> a" and "char_of (of_char a + 1 :: nat) \<noteq> a"
    unfolding less_char_def less_eq_char_def by (linarith, metis Suc_eq_plus1 n_not_Suc_n)
qed

lemma char_max: "of_char a = (0xff :: nat) \<Longrightarrow> b \<le> a"
  unfolding less_eq_char_def using nat_of_char_less_256 [of b] by linarith

text \<open>The keys from the prefix up to its bound are the keys with the prefix.\<close>

lemma prefix_range:
  "p \<le> k \<and> (case prefixUpperBound p of None \<Rightarrow> True | Some u \<Rightarrow> k < u) \<longleftrightarrow> take (length p) k = p"
proof (induction p arbitrary: k)
  case Nil
  then show ?case by (simp add: prefixUpperBound_def)
next
  case (Cons a p)
  have rec: "prefixUpperBound (a # p) = (case prefixUpperBound p of
      Some u \<Rightarrow> Some (a # u)
    | None \<Rightarrow> if of_char a \<noteq> (0xff :: nat) then Some [char_of (of_char a + 1 :: nat)] else None)"
    by (simp add: prefixUpperBound_def upperBoundRev_snoc)
  show ?case
  proof (cases k)
    case Nil
    then show ?thesis by simp
  next
    case k: (Cons b k')
    show ?thesis
    proof (cases "prefixUpperBound p")
      case None
      with Cons.IH [of k'] k show ?thesis
        using less_next_char(1) [of a b] less_next_char(2) [of a] char_max [of a b] by (cases "of_char a = (0xff :: nat)") (auto simp: rec)
    next
      case (Some u)
      with Cons.IH [of k'] k show ?thesis by (auto simp: rec)
    qed
  qed
qed

lemma inRange_prefix:
  "inRange p (case prefixUpperBound p of None \<Rightarrow> [] | Some u \<Rightarrow> u) (prefixUpperBound p \<noteq> None) k \<longleftrightarrow> take (length p) k = p"
  unfolding prefix_range [symmetric] by (auto simp: inRange_def split: option.splits)

lemma pending_range:
  assumes sorted: "base_sorted base" and w: "mw_base w = base" "mw_next w = lowerBoundBytes base p"
    "mw_end w = (case u of None \<Rightarrow> length base | Some x \<Rightarrow> lowerBoundString base x)"
  shows "pending w = filter (\<lambda>e. p \<le> fe_key e \<and> (case u of None \<Rightarrow> True | Some x \<Rightarrow> fe_key e < x)) base"
    and "mw_end w \<le> length (mw_base w)"
proof -
  let ?i = "lowerBoundString base p"
  let ?A = "take (mw_end w) base"
  have A: "?A = filter (\<lambda>e. case u of None \<Rightarrow> True | Some x \<Rightarrow> fe_key e < x) base"
    using lowerBound_take(1) [OF sorted] by (simp add: w(3) split: option.splits)
  have "set (take ?i ?A) \<subseteq> set (take ?i base)" by (simp add: set_take_subset_set_take)
  then have lo: "\<forall>e\<in>set (take ?i ?A). fe_key e < p"
    unfolding lowerBound_take(1) [OF sorted, of p] by auto
  have "set (drop ?i ?A) \<subseteq> set (drop ?i base)" by (simp add: drop_take set_take_subset)
  then have hi: "\<forall>e\<in>set (drop ?i ?A). p \<le> fe_key e"
    unfolding lowerBound_take(2) [OF sorted, of p] by auto
  have "filter (\<lambda>e. p \<le> fe_key e) ?A = filter (\<lambda>e. p \<le> fe_key e) (take ?i ?A) @ filter (\<lambda>e. p \<le> fe_key e) (drop ?i ?A)"
    by (metis append_take_drop_id filter_append)
  also have "\<dots> = drop ?i ?A" using lo hi by (simp add: filter_empty_conv filter_id_conv not_le)
  finally have "drop ?i ?A = filter (\<lambda>e. p \<le> fe_key e) ?A" by simp
  then show "pending w = filter (\<lambda>e. p \<le> fe_key e \<and> (case u of None \<Rightarrow> True | Some x \<Rightarrow> fe_key e < x)) base"
    unfolding pending_def w(1,2) lowerBound_eq by (simp add: A conj_commute)
  show "mw_end w \<le> length (mw_base w)"
    using lowerBound_spec(1) [OF sorted] by (auto simp: w split: option.splits)
qed

subsection \<open>What the reads return\<close>

definition node_list :: "'v Node option \<Rightarrow> (string \<times> 'v) list" where
  "node_list n = (case n of None \<Rightarrow> [] | Some m \<Rightarrow> listing (nd_base m) (inorder (nd_delta m)))"

definition nodes_ok :: "(string \<Rightarrow> 64 word) \<Rightarrow> 'v Node option \<Rightarrow> bool" where
  "nodes_ok h n \<longleftrightarrow> (case n of None \<Rightarrow> True | Some m \<Rightarrow> node_ok h m)"

lemma node_okD:
  assumes "node_ok h n"
  shows "base_sorted (nd_base n)" and "delta_sorted (nd_delta n)" and "base_ok h (nd_base n) (nd_lookup n)"
    and "delta_ok h (nd_base n) (nd_delta n) (nd_deltaHash n)"
    and "nd_size n = int (card (dom (contents (nd_base n) (nd_delta n))))"
  using assms by (auto simp: node_ok_def version_ok_def base_ok_def delta_ok_def ordered_ok_def)

lemma node_list_spec:
  assumes "nodes_ok h n"
  shows "sorted_on fst (node_list n)" and "map_of (node_list n) = node_map n"
  using assms by (auto simp: node_list_def node_map_def nodes_ok_def node_okD sorted_listing map_of_listing split: option.splits)

lemma empty_listing:
  assumes "node_ok h n" and "nd_size n = 0"
  shows "listing (nd_base n) (inorder (nd_delta n)) = []"
proof -
  have "contents (nd_base n) (nd_delta n) = Map.empty" using node_okD(5) [OF assms(1)] assms(2) by simp
  then show ?thesis using map_of_listing [OF node_okD(2,1) [OF assms(1)]] by (simp add: map_of_eq_empty_iff)
qed

lemma Walk_node:
  assumes "nodes_ok h n"
  shows "Walk n visit s = foldVisit visit (node_list n) s"
proof (cases n)
  case (Some m)
  with assms have ok: "node_ok h m" by (simp add: nodes_ok_def)
  let ?w = "\<lparr>mw_base = nd_base m, mw_next = 0, mw_end = length (nd_base m), mw_stopped = False, mw_state = s\<rparr>"
  have "inRange [] [] False k" for k by (simp add: inRange_def)
  with walk_listing [of "nd_delta m" ?w visit "[]" "[]" False] node_okD [OF ok] Some empty_listing [OF ok] show ?thesis
    by (simp add: Walk_def node_list_def pending_def Let_def)
qed (simp add: Walk_def node_list_def)

text \<open>Restricting the base and the delta to a range restricts the listing to it.\<close>

lemma listing_range:
  assumes "sorted_on de_key es" and "base_sorted B"
  shows "listing (filter (\<lambda>b. R (fe_key b)) B) (filter (\<lambda>e. R (de_key e)) es) = filter (\<lambda>(k, v). R k) (listing B es)"
proof (rule sorted_on_unique [where key = fst])
  show "sorted_on fst (listing (filter (\<lambda>b. R (fe_key b)) B) (filter (\<lambda>e. R (de_key e)) es))"
    using assms by (intro sorted_listing) simp_all
  show "sorted_on fst (filter (\<lambda>(k, v). R k) (listing B es))" using sorted_listing [OF assms] by simp
  have "sorted_on de_key (filter (\<lambda>e. R (de_key e)) es)" using assms(1) by simp
  from set_listing [OF this] set_listing [OF assms(1)]
  show "set (listing (filter (\<lambda>b. R (fe_key b)) B) (filter (\<lambda>e. R (de_key e)) es)) =
      set (filter (\<lambda>(k, v). R k) (listing B es))"
    by (auto simp: shadowed_def kv_def)
qed

lemma WalkPrefix_node:
  assumes "nodes_ok h n"
  shows "WalkPrefix n p visit s = foldVisit visit (filter (\<lambda>(k, v). take (length p) k = p) (node_list n)) s"
proof (cases n)
  case (Some m)
  with assms have ok: "node_ok h m" by (simp add: nodes_ok_def)
  note sorted = node_okD(1,2) [OF ok]
  let ?u = "prefixUpperBound p"
  let ?up = "case ?u of None \<Rightarrow> [] | Some u \<Rightarrow> u"
  let ?w = "\<lparr>mw_base = nd_base m, mw_next = lowerBoundBytes (nd_base m) p,
    mw_end = (case ?u of None \<Rightarrow> length (nd_base m) | Some u \<Rightarrow> lowerBoundString (nd_base m) u),
    mw_stopped = False, mw_state = s\<rparr>"
  have pend: "pending ?w = filter (\<lambda>e. take (length p) (fe_key e) = p) (nd_base m)"
    and bound: "mw_end ?w \<le> length (mw_base ?w)"
    using pending_range [OF sorted(1), of ?w p ?u] by (simp_all add: prefix_range)
  have ps: "base_sorted (pending ?w)" and ns: "\<not> mw_stopped ?w" unfolding pend using sorted(1) by simp_all
  define w1 where "w1 = walkDelta visit (nd_delta m) p ?up (?u \<noteq> None) ?w"
  define w2 where "w2 = (if \<not> mw_stopped w1 then flushBaseBefore visit [] False w1 else w1)"
  note walk = walk_listing [OF sorted(2) ns bound ps, of visit p ?up "?u \<noteq> None", folded w1_def, folded w2_def]
  have "(mw_state w2, mw_stopped w2) =
      foldVisit visit (filter (\<lambda>(k, v). take (length p) k = p) (listing (nd_base m) (inorder (nd_delta m)))) (mw_state ?w)"
    using walk unfolding inRange_prefix pend listing_range [OF sorted(2,1), of "\<lambda>k. take (length p) k = p"] .
  moreover have "WalkPrefix n p visit s = (if nd_size m = 0 then (s, False) else (mw_state w2, mw_stopped w2))"
    unfolding WalkPrefix_def Some Let_def w1_def w2_def by simp
  ultimately show ?thesis using empty_listing [OF ok] Some by (simp add: node_list_def)
qed (simp add: WalkPrefix_def node_list_def)

subsection \<open>The first and the last entry\<close>

definition visible_base :: "'v Node \<Rightarrow> 'v frozenEntry list" where
  "visible_base n = filter (\<lambda>b. \<not> shadowed (inorder (nd_delta n)) b) (nd_base n)"

definition present_delta :: "'v Node \<Rightarrow> 'v deltaEntry list" where
  "present_delta n = filter (\<lambda>e. de_value e \<noteq> None) (inorder (nd_delta n))"

lemma set_node_list:
  "node_ok h n \<Longrightarrow> set (node_list (Some n)) =
     kv ` set (visible_base n) \<union> (\<lambda>e. (de_key e, the (de_value e))) ` set (present_delta n)"
  using set_listing [OF node_okD(2), of h n "nd_base n"]
  by (auto simp: node_list_def visible_base_def present_delta_def image_iff)

lemma shadow_test:
  assumes "node_ok h n"
  shows "getDeltaHash (nd_deltaHash n) (fe_key b) (h (fe_key b)) = None \<longleftrightarrow> \<not> shadowed (inorder (nd_delta n)) b"
  using getDeltaHash_find [OF node_okD(4) [OF assms], of "fe_key b"]
  by (auto simp: find_on_None_iff shadowed_def dest: sym)

lemma skipShadowed_eq:
  assumes "node_ok h n"
  shows "i \<le> length (nd_base n) \<Longrightarrow>
    skipShadowed h n i = i + length (takeWhile (shadowed (inorder (nd_delta n))) (drop i (nd_base n)))"
  using assms
proof (induction h n i rule: skipShadowed.induct)
  case (1 h n i)
  show ?case
  proof (cases "i < length (nd_base n)")
    case True
    then have "drop i (nd_base n) = nd_base n ! i # drop (Suc i) (nd_base n)" by (simp add: Cons_nth_drop_Suc)
    with 1 True shadow_test [OF 1(3), of "nd_base n ! i"] show ?thesis
      by (subst skipShadowed.simps) (auto simp: Let_def)
  next
    case False
    with 1 show ?thesis by (subst skipShadowed.simps) simp
  qed
qed

lemma skipShadowedBack_eq:
  assumes "node_ok h n"
  shows "i \<le> length (nd_base n) \<Longrightarrow>
    skipShadowedBack h n i = i - length (takeWhile (shadowed (inorder (nd_delta n))) (rev (take i (nd_base n))))"
proof (induction i)
  case (Suc i)
  then have "rev (take (Suc i) (nd_base n)) = nd_base n ! i # rev (take i (nd_base n))" by (simp add: take_Suc_conv_app_nth)
  with Suc shadow_test [OF assms, of "nd_base n ! i"] show ?case by (simp add: Let_def)
qed simp

lemma first_not:
  "length (takeWhile P xs) < length xs \<Longrightarrow> filter (\<lambda>x. \<not> P x) xs \<noteq> [] \<and> xs ! length (takeWhile P xs) = hd (filter (\<lambda>x. \<not> P x) xs)"
  "\<not> length (takeWhile P xs) < length xs \<Longrightarrow> filter (\<lambda>x. \<not> P x) xs = []"
  by (induction xs) (auto split: if_splits)

lemma sorted_hd:
  fixes key :: "'a \<Rightarrow> 'k::linorder"
  assumes "sorted_on key xs" and "xs \<noteq> []"
  shows "hd xs \<in> set xs" and "\<forall>y\<in>set xs. key (hd xs) \<le> key y"
    and "last xs \<in> set xs" and "\<forall>y\<in>set xs. key y \<le> key (last xs)"
proof -
  show "hd xs \<in> set xs" "last xs \<in> set xs" using assms(2) by simp_all
  show "\<forall>y\<in>set xs. key (hd xs) \<le> key y" using assms by (cases xs) auto
  show "\<forall>y\<in>set xs. key y \<le> key (last xs)"
    using assms(1) by (cases xs rule: rev_cases) (auto intro: less_imp_le)
qed

lemma least_is_hd:
  fixes key :: "'a \<Rightarrow> 'k::linorder"
  assumes "sorted_on key xs" and "x \<in> set xs"
  shows "\<forall>y\<in>set xs. key x \<le> key y \<Longrightarrow> xs \<noteq> [] \<and> hd xs = x"
    and "\<forall>y\<in>set xs. key y \<le> key x \<Longrightarrow> xs \<noteq> [] \<and> last xs = x"
proof -
  have ne: "xs \<noteq> []" using assms(2) by auto
  note ends = sorted_hd [OF assms(1) ne]
  show "xs \<noteq> [] \<and> hd xs = x" if "\<forall>y\<in>set xs. key x \<le> key y"
    using ne ends(1,2) that assms sorted_on_inj [OF assms(1)] by (meson antisym)
  show "xs \<noteq> [] \<and> last xs = x" if "\<forall>y\<in>set xs. key y \<le> key x"
    using ne ends(3,4) that assms sorted_on_inj [OF assms(1)] by (meson antisym)
qed

lemma sorted_parts:
  assumes "node_ok h n"
  shows "base_sorted (visible_base n)" and "sorted_on de_key (present_delta n)" and "sorted_on fst (node_list (Some n))"
  using assms node_okD [OF assms] node_list_spec(1) [of h "Some n"]
  by (simp_all add: visible_base_def present_delta_def nodes_ok_def)

lemma size_zero_list: "node_ok h n \<Longrightarrow> nd_size n = 0 \<Longrightarrow> node_list (Some n) = []"
  by (simp add: node_list_def empty_listing)

abbreviation pkv :: "'v deltaEntry \<Rightarrow> string \<times> 'v" where
  "pkv e \<equiv> (de_key e, the (de_value e))"

text \<open>The better of two optional candidates, each the best of its part, is the best of the whole.\<close>

definition best :: "('a \<Rightarrow> 'a \<Rightarrow> bool) \<Rightarrow> 'a set \<Rightarrow> 'a option \<Rightarrow> bool" where
  "best R A c \<longleftrightarrow> (case c of None \<Rightarrow> A = {} | Some x \<Rightarrow> x \<in> A \<and> (\<forall>y\<in>A. R x y))"

definition better :: "('a \<Rightarrow> 'a \<Rightarrow> bool) \<Rightarrow> 'a option \<Rightarrow> 'a option \<Rightarrow> 'a option" where
  "better S a b =
     (case a of None \<Rightarrow> b | Some x \<Rightarrow> (case b of None \<Rightarrow> Some x | Some y \<Rightarrow> if S x y then Some x else Some y))"

lemma best_union:
  assumes "best R A a" and "best R B b" and "transp R" and "\<And>x y. S x y \<Longrightarrow> R x y" and "\<And>x y. \<not> S x y \<Longrightarrow> R y x"
  shows "best R (A \<union> B) (better S a b)"
proof -
  have all: "\<forall>z\<in>C. R x z" if "R x y" "\<forall>z\<in>C. R y z" for x y C using that assms(3) by (meson transpD)
  show ?thesis
  proof (cases "a = None \<or> b = None")
    case True
    with assms(1,2) show ?thesis by (auto simp: best_def better_def split: option.splits)
  next
    case False
    then obtain x y where xy: "a = Some x" "b = Some y" by auto
    show ?thesis
    proof (cases "S x y")
      case True
      with all [of x y B] assms(1,2,4) xy show ?thesis by (simp add: best_def better_def ball_Un)
    next
      case False
      with all [of y x A] assms(1,2,5) xy show ?thesis by (simp add: best_def better_def ball_Un)
    qed
  qed
qed

lemma best_ends:
  fixes key :: "'a \<Rightarrow> 'k::linorder"
  assumes "sorted_on key xs"
  shows "best (\<lambda>x y. key x \<le> key y) (set xs) c \<longleftrightarrow> c = (case xs of [] \<Rightarrow> None | x # _ \<Rightarrow> Some x)"
    and "best (\<lambda>x y. key y \<le> key x) (set xs) c \<longleftrightarrow> c = (if xs = [] then None else Some (last xs))"
proof -
  show "best (\<lambda>x y. key x \<le> key y) (set xs) c \<longleftrightarrow> c = (case xs of [] \<Rightarrow> None | x # _ \<Rightarrow> Some x)"
    using sorted_hd(1,2) [OF assms] least_is_hd(1) [OF assms]
    by (cases xs; cases c) (auto simp: best_def)
  show "best (\<lambda>x y. key y \<le> key x) (set xs) c \<longleftrightarrow> c = (if xs = [] then None else Some (last xs))"
    using sorted_hd(3,4) [OF assms] least_is_hd(2) [OF assms]
    by (cases "xs = []"; cases c) (auto simp: best_def)
qed

text \<open>The ends of the listing from the ends of the visible base and of the present delta.\<close>

lemma node_list_ends:
  assumes "node_ok h n"
  defines "U \<equiv> map kv (visible_base n)" and "P \<equiv> map pkv (present_delta n)"
  shows "(case node_list (Some n) of [] \<Rightarrow> None | x # _ \<Rightarrow> Some x) =
      better (\<lambda>x y. fst x < fst y) (case U of [] \<Rightarrow> None | x # _ \<Rightarrow> Some x) (case P of [] \<Rightarrow> None | x # _ \<Rightarrow> Some x)"
    and "(if node_list (Some n) = [] then None else Some (last (node_list (Some n)))) =
      better (\<lambda>x y. fst x > fst y) (if U = [] then None else Some (last U)) (if P = [] then None else Some (last P))"
proof -
  have sorted: "sorted_on fst U" "sorted_on fst P"
    using sorted_parts(1,2) [OF assms(1)] by (simp_all add: U_def P_def sorted_on_def comp_def)
  have elems: "set (node_list (Some n)) = set U \<union> set P"
    using set_node_list [OF assms(1)] by (simp add: U_def P_def)
  note ends = best_ends [OF sorted_parts(3) [OF assms(1)], unfolded elems]
  show "(case node_list (Some n) of [] \<Rightarrow> None | x # _ \<Rightarrow> Some x) =
      better (\<lambda>x y. fst x < fst y) (case U of [] \<Rightarrow> None | x # _ \<Rightarrow> Some x) (case P of [] \<Rightarrow> None | x # _ \<Rightarrow> Some x)"
    by (rule sym, rule ends(1) [THEN iffD1], rule best_union)
       (auto simp: best_ends [OF sorted(1)] best_ends [OF sorted(2)] transp_def intro: order_trans less_imp_le)
  show "(if node_list (Some n) = [] then None else Some (last (node_list (Some n)))) =
      better (\<lambda>x y. fst x > fst y) (if U = [] then None else Some (last U)) (if P = [] then None else Some (last P))"
    by (rule sym, rule ends(2) [THEN iffD1], rule best_union)
       (auto simp: best_ends [OF sorted(1)] best_ends [OF sorted(2)] transp_def intro: order_trans less_imp_le)
qed

lemma takeWhile_less: "length (takeWhile P xs) < length xs \<longleftrightarrow> filter (\<lambda>x. \<not> P x) xs \<noteq> []"
  using first_not [of P xs] by blast

lemma Minimum_node:
  assumes "nodes_ok h n"
  shows "Minimum h n = (case node_list n of [] \<Rightarrow> None | x # _ \<Rightarrow> Some x)"
proof (cases n)
  case (Some m)
  with assms have ok: "node_ok h m" by (simp add: nodes_ok_def)
  let ?U = "visible_base m" and ?P = "present_delta m" and ?i = "skipShadowed h m 0"
  let ?sh = "shadowed (inorder (nd_delta m))"
  have i: "?i = length (takeWhile ?sh (nd_base m))" using skipShadowed_eq [OF ok, of 0] by simp
  have base: "(if ?i \<ge> length (nd_base m) then None else Some (kv (nd_base m ! ?i))) =
      (case map kv ?U of [] \<Rightarrow> None | x # _ \<Rightarrow> Some x)"
    using first_not(1) [of ?sh "nd_base m"] takeWhile_less [of ?sh "nd_base m"]
    unfolding i visible_base_def by (cases "filter (\<lambda>b. \<not> ?sh b) (nd_base m)") auto
  have delta: "minimumPresentDelta (nd_delta m) = (case map pkv ?P of [] \<Rightarrow> None | x # _ \<Rightarrow> Some x)"
    by (simp add: minimumPresentDelta_eq present_delta_def split: list.splits)
  have "Minimum h n = (if nd_size m = 0 then None else better (\<lambda>x y. fst x < fst y)
      (if ?i \<ge> length (nd_base m) then None else Some (kv (nd_base m ! ?i))) (minimumPresentDelta (nd_delta m)))"
    using Some by (auto simp: Minimum_def Let_def better_def kv_def split: option.splits)
  then show ?thesis
    unfolding base delta node_list_ends(1) [OF ok, symmetric] using Some size_zero_list [OF ok] by simp
qed (simp add: Minimum_def node_list_def)

lemma Maximum_node:
  assumes "nodes_ok h n"
  shows "Maximum h n = (if node_list n = [] then None else Some (last (node_list n)))"
proof (cases n)
  case (Some m)
  with assms have ok: "node_ok h m" by (simp add: nodes_ok_def)
  let ?U = "visible_base m" and ?P = "present_delta m" and ?i = "skipShadowedBack h m (length (nd_base m))"
  let ?sh = "shadowed (inorder (nd_delta m))"
  have i: "?i = length (nd_base m) - length (takeWhile ?sh (rev (nd_base m)))" using skipShadowedBack_eq [OF ok, of "length (nd_base m)"] by simp
  have base: "(if ?i = 0 then None else Some (kv (nd_base m ! (?i - 1)))) =
      (if map kv ?U = [] then None else Some (last (map kv ?U)))"
  proof (cases "length (takeWhile ?sh (rev (nd_base m))) < length (rev (nd_base m))")
    case True
    with first_not(1) [OF True] have "?U \<noteq> []" "rev (nd_base m) ! length (takeWhile ?sh (rev (nd_base m))) = last ?U"
      by (simp_all add: visible_base_def rev_filter [symmetric] hd_rev)
    with True show ?thesis unfolding i by (simp add: rev_nth last_map)
  next
    case False
    with first_not(2) [OF False] show ?thesis unfolding i by (simp add: visible_base_def rev_filter [symmetric])
  qed
  have delta: "maximumPresentDelta (nd_delta m) = (if map pkv ?P = [] then None else Some (last (map pkv ?P)))"
    unfolding maximumPresentDelta_eq present_delta_def
    by (simp add: last_map split: list.splits)
  have "Maximum h n = (if nd_size m = 0 then None else better (\<lambda>x y. fst x > fst y)
      (if ?i = 0 then None else Some (kv (nd_base m ! (?i - 1)))) (maximumPresentDelta (nd_delta m)))"
    using Some by (auto simp: Maximum_def Let_def better_def kv_def split: option.splits)
  then show ?thesis
    unfolding base delta node_list_ends(2) [OF ok, symmetric] using Some size_zero_list [OF ok] by simp
qed (simp add: Maximum_def node_list_def)

subsection \<open>A small version\<close>

text \<open>Two entries of the base are hidden by the delta and one is added; hashes are lengths, so they collide.\<close>

definition sampleHash :: "string \<Rightarrow> 64 word" where
  "sampleHash k = of_nat (length k)"

definition sampleEntries :: "int TreeEntry list" where
  "sampleEntries = [\<lparr>Key = ''aa'', Val = 1\<rparr>, \<lparr>Key = ''ab'', Val = 2\<rparr>, \<lparr>Key = ''b'', Val = 3\<rparr>]"

definition sampleTree :: "int Tree" where
  "sampleTree = (case NewFromSorted sampleHash sampleEntries of Some (Inr t) \<Rightarrow> t | _ \<Rightarrow> New)"

definition sampleOps :: "int txnOp list" where
  "sampleOps = [DeleteOp ''aa'', InsertOp ''ac'' 4, InsertOp ''b'' 5]"

definition sampleVersion :: "int Node option" where
  "sampleVersion =
     (case applyOps sampleHash sampleOps (startTxn (Some sampleTree)) of
        Some t \<Rightarrow> Root (Some (Commit t)) | None \<Rightarrow> None)"

lemma sampleTree_ok:
  "tree_ok sampleHash (Some sampleTree)" "tree_map (Some sampleTree) = [''aa'' \<mapsto> 1, ''ab'' \<mapsto> 2, ''b'' \<mapsto> 3]"
proof -
  have "sorted_on Key sampleEntries" by (simp add: sampleEntries_def)
  then obtain t where t: "NewFromSorted sampleHash sampleEntries = Some (Inr t)" "tree_ok sampleHash (Some t)"
    "tree_map (Some t) = map_of (map (\<lambda>e. (Key e, Val e)) sampleEntries)"
    using NewFromSorted_spec [of sampleEntries sampleHash] by (auto simp: sampleEntries_def)
  then show "tree_ok sampleHash (Some sampleTree)"
    "tree_map (Some sampleTree) = [''aa'' \<mapsto> 1, ''ab'' \<mapsto> 2, ''b'' \<mapsto> 3]"
    by (auto simp: sampleTree_def sampleEntries_def fun_eq_iff)
qed

lemma sampleVersion_ok:
  "nodes_ok sampleHash sampleVersion" "node_map sampleVersion = [''ab'' \<mapsto> 2, ''ac'' \<mapsto> 4, ''b'' \<mapsto> 5]"
proof -
  note start = startTxn_map [OF sampleTree_ok(1)]
  from applyOps_map [OF start(1), of sampleOps] obtain t where
    t: "applyOps sampleHash sampleOps (startTxn (Some sampleTree)) = Some t" "txn_ok sampleHash t"
    "txn_map t = foldl updateMap (tree_map (Some sampleTree)) sampleOps" by (auto simp: start(2))
  have version: "sampleVersion = Root (Some (Commit t))" using t(1) by (simp add: sampleVersion_def)
  show "nodes_ok sampleHash sampleVersion"
    using Commit_map(1) [OF t(2)] by (simp add: version nodes_ok_def tree_ok_def)
  have "node_map sampleVersion = txn_map t" using Commit_map(2) [OF t(2)] by (simp add: version tree_map_def)
  then show "node_map sampleVersion = [''ab'' \<mapsto> 2, ''ac'' \<mapsto> 4, ''b'' \<mapsto> 5]"
    unfolding t(3) sampleTree_ok(2) by (simp add: sampleOps_def fun_eq_iff)
qed

lemma sampleVersion_list: "node_list sampleVersion = [(''ab'', 2), (''ac'', 4), (''b'', 5)]"
  by code_simp

text \<open>
  A walk over a well-formed version visits its entries in strictly increasing key order, every
  entry of its map and nothing else, until the visitor stops it: it is the visit of a sorted list whose
  map is the version's, with the frozen base and the delta merged and removed keys left out.
\<close>

theorem Walk_in_order:
  assumes "nodes_ok h n"
  shows "\<exists>xs. sorted_on fst xs \<and> map_of xs = node_map n \<and> (\<forall>visit s. Walk n visit s = foldVisit visit xs s)"
  using node_list_spec [OF assms] Walk_node [OF assms] by blast

theorem Walk_in_order_witness:
  "node_map sampleVersion ''ac'' = Some 4 \<and>
   (\<exists>xs. sorted_on fst xs \<and> map_of xs = node_map sampleVersion \<and> (\<forall>visit s. Walk sampleVersion visit s = foldVisit visit xs s))"
  using Walk_in_order [OF sampleVersion_ok(1)] by (simp add: sampleVersion_ok(2))

text \<open>
  A walk over the entries with a prefix visits exactly the entries of the full walk whose key
  starts with it, in the same order: the byte string that \<open>prefixUpperBound\<close> computes bounds them, a
  prefix that ends in \<open>0xff\<close> bytes or consists of them included.
\<close>

theorem WalkPrefix_selects:
  assumes "nodes_ok h n"
  shows "\<exists>xs. sorted_on fst xs \<and> map_of xs = node_map n \<and>
    (\<forall>p visit s. WalkPrefix n p visit s = foldVisit visit (filter (\<lambda>(k, v). take (length p) k = p) xs) s)"
  using node_list_spec [OF assms] WalkPrefix_node [OF assms] by blast

theorem WalkPrefix_selects_witness:
  "WalkPrefix sampleVersion ''a'' (\<lambda>k v s. (s @ [(k, v)], False)) [] = ([(''ab'', 2), (''ac'', 4)], False)"
proof -
  from WalkPrefix_selects [OF sampleVersion_ok(1)] obtain xs where
    xs: "sorted_on fst xs" "map_of xs = node_map sampleVersion"
    "\<forall>p visit s. WalkPrefix sampleVersion p visit s =
      foldVisit visit (filter (\<lambda>(k, v). take (length p) k = p) xs) (s :: (string \<times> int) list)" by blast
  have "set xs = set (node_list sampleVersion)"
    using xs(1,2) node_list_spec [OF sampleVersion_ok(1)] by (metis map_of_inject_set sorted_on_distinct)
  then have "xs = node_list sampleVersion"
    by (rule sorted_on_unique [OF xs(1) node_list_spec(1) [OF sampleVersion_ok(1)]])
  then show ?thesis using xs(3) by (simp add: sampleVersion_list)
qed

text \<open>
  The minimum and the maximum of a well-formed version are the first and the last entry of its
  map in key order, found without a walk, and there are none exactly when the map is empty.
\<close>

theorem Minimum_Maximum_ends:
  assumes "nodes_ok h n"
  shows "\<exists>xs. sorted_on fst xs \<and> map_of xs = node_map n \<and>
    Minimum h n = (case xs of [] \<Rightarrow> None | x # _ \<Rightarrow> Some x) \<and> Maximum h n = (if xs = [] then None else Some (last xs))"
  using node_list_spec [OF assms] Minimum_node [OF assms] Maximum_node [OF assms] by blast

theorem Minimum_Maximum_ends_witness:
  "\<exists>xs. sorted_on fst xs \<and> map_of xs = [''ab'' \<mapsto> 2, ''ac'' \<mapsto> 4, ''b'' \<mapsto> 5] \<and>
    Minimum sampleHash sampleVersion = (case xs of [] \<Rightarrow> None | x # _ \<Rightarrow> Some x) \<and>
    Maximum sampleHash sampleVersion = (if xs = [] then None else Some (last xs))"
  using Minimum_Maximum_ends [OF sampleVersion_ok(1)] by (simp add: sampleVersion_ok(2))

end
