(* ===== verification/Persistent_Changes.thy ===== *)
theory Persistent_Changes
  imports Persistent_Walk
begin

section \<open>The difference of two versions\<close>

text \<open>
  \<open>src/pkg/persistenttree/changes.go\<close>: \<open>WalkChanges\<close> visits the keys whose presence or value differs
  between two versions. Where they share a frozen base it descends the two hash tries together and
  skips what they share. That is a matter of pointer identity, which values do not have; the four
  comparisons of pointers are a parameter, of which the code relies on one thing: identical pointers
  point to equal contents. A visitor also updates a state; the state \<open>None\<close> is a walk that did not
  return from a lookup.
\<close>

record 'v identity =
  same_node :: "'v Node option \<Rightarrow> 'v Node option \<Rightarrow> bool"
  same_array :: "'v frozenEntry list \<Rightarrow> 'v frozenEntry list \<Rightarrow> bool"
  same_slot :: "'v deltaHashSlot option \<Rightarrow> 'v deltaHashSlot option \<Rightarrow> bool"
  same_entry :: "'v deltaEntry \<Rightarrow> 'v deltaEntry \<Rightarrow> bool"

record 'v Change =
  ch_key :: string
  Before :: "'v option"
  After :: "'v option"

text \<open>Visiting the elements of a list in order until one stops the walk.\<close>

fun foldStop :: "('a \<Rightarrow> 's \<Rightarrow> 's \<times> bool) \<Rightarrow> 'a list \<Rightarrow> 's \<Rightarrow> 's \<times> bool" where
  "foldStop f [] s = (s, False)"
| "foldStop f (x # xs) s = (case f x s of (s', stop) \<Rightarrow> if stop then (s', True) else foldStop f xs s')"

lemma foldStop_cong [fundef_cong]:
  "xs = ys \<Longrightarrow> s = t \<Longrightarrow> (\<And>x u. x \<in> set ys \<Longrightarrow> f x u = g x u) \<Longrightarrow> foldStop f xs s = foldStop g ys t"
  by (induction ys arbitrary: xs s t) (auto split: prod.splits)

subsection \<open>Leaves\<close>

definition hashLeafEntry :: "'v deltaHashLeaf option \<Rightarrow> string \<Rightarrow> 'v deltaEntry option" where
  "hashLeafEntry leaf k = (case leaf of None \<Rightarrow> None | Some l \<Rightarrow> findInLeaf l k)"

definition visitHashLeaf ::
  "'v deltaHashLeaf option \<Rightarrow> ('v deltaEntry \<Rightarrow> 's \<Rightarrow> 's \<times> bool) \<Rightarrow> 's \<Rightarrow> 's \<times> bool" where
  "visitHashLeaf leaf visit s =
     (case leaf of
        None \<Rightarrow> (s, False)
      | Some l \<Rightarrow>
          (case visit (lf_entry l) s of (s', stop) \<Rightarrow>
             if stop then (s', True) else foldStop visit (lf_collisions l) s'))"

definition walkChangedHashLeaves ::
  "'v identity \<Rightarrow> 'v deltaHashLeaf option \<Rightarrow> 'v deltaHashLeaf option \<Rightarrow> (string \<Rightarrow> 's \<Rightarrow> 's \<times> bool) \<Rightarrow> 's \<Rightarrow> 's \<times> bool" where
  "walkChangedHashLeaves I left right visit s =
     (case visitHashLeaf left (\<lambda>e s.
          if (case hashLeafEntry right (de_key e) of None \<Rightarrow> False | Some e' \<Rightarrow> same_entry I e e')
          then (s, False) else visit (de_key e) s) s of
        (s', stop) \<Rightarrow>
          if stop then (s', True)
          else visitHashLeaf right (\<lambda>e s.
            if hashLeafEntry left (de_key e) = None then visit (de_key e) s else (s, False)) s')"

subsection \<open>Slots\<close>

text \<open>The nil slot, with neither child nor leaf, is \<open>None\<close>.\<close>

fun hashSlotBitmap :: "'v deltaHashSlot option \<Rightarrow> nat \<Rightarrow> 32 word" where
  "hashSlotBitmap (Some (Child (HNode bm ss))) shift = bm"
| "hashSlotBitmap (Some (Leaf l)) shift = deltaHashBit (lf_hash l) shift"
| "hashSlotBitmap None shift = 0"

fun hashSlotAt :: "'v deltaHashSlot option \<Rightarrow> 32 word \<Rightarrow> nat \<Rightarrow> 'v deltaHashSlot option" where
  "hashSlotAt (Some (Child (HNode bm ss))) b shift =
     (if bm AND b \<noteq> 0 then slotAt ss (deltaHashSlotIndex bm b) else None)"
| "hashSlotAt (Some (Leaf l)) b shift = (if deltaHashBit (lf_hash l) shift = b then Some (Leaf l) else None)"
| "hashSlotAt None b shift = None"

fun isChild :: "'v deltaHashSlot option \<Rightarrow> bool" where
  "isChild (Some (Child c)) = True"
| "isChild _ = False"

fun leafOf :: "'v deltaHashSlot option \<Rightarrow> 'v deltaHashLeaf option" where
  "leafOf (Some (Leaf l)) = Some l"
| "leafOf _ = None"

text \<open>The positions of the set bits, which the loop takes from the lowest to the highest.\<close>

definition setBits :: "32 word \<Rightarrow> nat list" where
  "setBits w = filter (bit w) [0..<32]"

fun childSize :: "'v deltaHashSlot option \<Rightarrow> nat" where
  "childSize (Some (Child c)) = size c"
| "childSize _ = 0"

lemma childSize_at: "isChild l \<Longrightarrow> childSize (hashSlotAt l b shift) < childSize l"
proof (induction l b shift rule: hashSlotAt.induct)
  case (1 bm ss b shift)
  show ?case
  proof (cases "hashSlotAt (Some (Child (HNode bm ss))) b shift")
    case (Some sl)
    then have at: "slotAt ss (deltaHashSlotIndex bm b) = Some sl" by (auto split: if_splits)
    show ?thesis
    proof (cases sl)
      case (Child c)
      with slotAt_child_size [of ss "deltaHashSlotIndex bm b" c] at Some show ?thesis by auto
    qed (use Some in auto)
  qed simp
qed auto

lemma childSize_at_le: "childSize (hashSlotAt l b shift) \<le> childSize l"
  using childSize_at [of l b shift] by (cases l rule: isChild.cases) (auto split: if_splits)

function walkChangedHashSlots ::
  "'v identity \<Rightarrow> 'v deltaHashSlot option \<Rightarrow> 'v deltaHashSlot option \<Rightarrow> nat \<Rightarrow> (string \<Rightarrow> 's \<Rightarrow> 's \<times> bool) \<Rightarrow> 's \<Rightarrow> 's \<times> bool" where
  "walkChangedHashSlots I left right shift visit s =
     (if same_slot I left right then (s, False)
      else if \<not> isChild left \<and> \<not> isChild right
      then walkChangedHashLeaves I (leafOf left) (leafOf right) visit s
      else foldStop (\<lambda>p. walkChangedHashSlots I (hashSlotAt left (push_bit p 1) shift)
               (hashSlotAt right (push_bit p 1) shift) (shift + deltaHashBits) visit)
             (setBits (hashSlotBitmap left shift OR hashSlotBitmap right shift)) s)"
  by pat_completeness auto
termination
proof (relation "measure (\<lambda>(I, left, right, shift, visit, s). childSize left + childSize right)", goal_cases)
  case (2 I left right shift visit s p t)
  then have "isChild left \<or> isChild right" by blast
  then show ?case
    using childSize_at [of left "push_bit p 1" shift] childSize_at [of right "push_bit p 1" shift]
      childSize_at_le [of left "push_bit p 1" shift] childSize_at_le [of right "push_bit p 1" shift] by auto
qed simp

declare walkChangedHashSlots.simps [simp del]

subsection \<open>Two versions\<close>

definition node_base :: "'v Node option \<Rightarrow> 'v frozenEntry list" where
  "node_base n = (case n of None \<Rightarrow> [] | Some m \<Rightarrow> nd_base m)"

definition node_deltaHash :: "'v Node option \<Rightarrow> 'v deltaHashNode option" where
  "node_deltaHash n = (case n of None \<Rightarrow> None | Some m \<Rightarrow> nd_deltaHash m)"

definition sameFrozenBase :: "'v identity \<Rightarrow> 'v Node option \<Rightarrow> 'v Node option \<Rightarrow> bool" where
  "sameFrozenBase I left right \<longleftrightarrow>
     length (node_base left) = length (node_base right) \<and>
     (length (node_base left) = 0 \<or> same_array I (node_base left) (node_base right))"

definition emit ::
  "(string \<Rightarrow> 64 word) \<Rightarrow> 'v Node option \<Rightarrow> 'v Node option \<Rightarrow> ('v \<Rightarrow> 'v \<Rightarrow> bool) \<Rightarrow> ('v Change \<Rightarrow> 's \<Rightarrow> 's \<times> bool)
     \<Rightarrow> string \<Rightarrow> 's option \<Rightarrow> 's option \<times> bool" where
  "emit h n previous eq visit k state =
     (case (state, NodeGet h previous k, NodeGet h n k) of
        (Some s, Some before, Some after) \<Rightarrow>
          if (case (before, after) of (None, None) \<Rightarrow> True | (Some b, Some a) \<Rightarrow> eq b a | _ \<Rightarrow> False)
          then (Some s, False)
          else (case visit \<lparr>ch_key = k, Before = before, After = after\<rparr> s of (s', stop) \<Rightarrow> (Some s', stop))
      | _ \<Rightarrow> (None, True))"

definition WalkChanges ::
  "'v identity \<Rightarrow> (string \<Rightarrow> 64 word) \<Rightarrow> 'v Node option \<Rightarrow> 'v Node option \<Rightarrow> ('v \<Rightarrow> 'v \<Rightarrow> bool)
     \<Rightarrow> ('v Change \<Rightarrow> 's \<Rightarrow> 's \<times> bool) \<Rightarrow> 's \<Rightarrow> 's option \<times> bool" where
  "WalkChanges I h n previous eq visit s =
     (if same_node I n previous then (Some s, False)
      else if sameFrozenBase I n previous
      then walkChangedHashSlots I (map_option Child (node_deltaHash n)) (map_option Child (node_deltaHash previous)) 0
             (emit h n previous eq visit) (Some s)
      else case Walk n (\<lambda>k v. emit h n previous eq visit k) (Some s) of (s', stop) \<Rightarrow>
        if stop then (s', True)
        else Walk previous (\<lambda>k v state.
          case NodeGet h n k of
            None \<Rightarrow> (None, True)
          | Some present \<Rightarrow> if present \<noteq> None then (state, False) else emit h n previous eq visit k state) s')"

subsection \<open>The keys the tries differ at\<close>

definition identity_ok :: "'v identity \<Rightarrow> bool" where
  "identity_ok I \<longleftrightarrow>
     (\<forall>a b. same_node I a b \<longrightarrow> a = b) \<and> (\<forall>a b. same_array I a b \<longrightarrow> a = b) \<and>
     (\<forall>a b. same_slot I a b \<longrightarrow> a = b) \<and> (\<forall>a b. same_entry I a b \<longrightarrow> a = b)"

definition slot_wf :: "(string \<Rightarrow> 64 word) \<Rightarrow> nat \<Rightarrow> 'v deltaHashSlot option \<Rightarrow> bool" where
  "slot_wf h shift sl \<longleftrightarrow>
     (case sl of None \<Rightarrow> True | Some (Child c) \<Rightarrow> hwf h shift c | Some (Leaf l) \<Rightarrow> leaf_ok h l)"

definition slotEntries :: "'v deltaHashSlot option \<Rightarrow> 'v deltaEntry set" where
  "slotEntries sl = (case sl of None \<Rightarrow> {} | Some x \<Rightarrow> entriesOf (sleaves x))"

definition differ_at :: "'v deltaEntry set \<Rightarrow> 'v deltaEntry set \<Rightarrow> string \<Rightarrow> bool" where
  "differ_at A B k \<longleftrightarrow> {e \<in> A. de_key e = k} \<noteq> {e \<in> B. de_key e = k}"

lemma foldStop_append:
  "foldStop f (xs @ ys) s =
     (case foldStop f xs s of (s', stop) \<Rightarrow> if stop then (s', True) else foldStop f ys s')"
  by (induction xs arbitrary: s) (auto split: prod.splits)

lemma foldStop_concat:
  "(\<And>x s. x \<in> set xs \<Longrightarrow> f x s = foldStop g (K x) s) \<Longrightarrow> foldStop f xs s = foldStop g (concat (map K xs)) s"
proof (induction xs arbitrary: s)
  case (Cons x xs)
  then show ?case by (simp add: foldStop_append split: prod.splits)
qed simp

lemma foldStop_filter:
  "foldStop (\<lambda>x s. if P x then (s, False) else visit (key x) s) xs s = foldStop visit (map key (filter (\<lambda>x. \<not> P x) xs)) s"
  by (induction xs arbitrary: s) (auto split: prod.splits)

lemma bit_of_position: "p < 32 \<Longrightarrow> push_bit p 1 = deltaHashBit (of_nat p) 0"
  by (simp add: deltaHashBit_def chunk_eq unat_of_nat take_bit_nat_eq_self take_bit_eq_mod)

lemma chunk_of_position: "p < 32 \<Longrightarrow> chunk (of_nat p) 0 = p"
  by (simp add: chunk_eq unat_of_nat take_bit_eq_mod)

lemma hashSlotAt_child:
  assumes "p < 32"
  shows "hashSlotAt (Some (Child (HNode bm ss))) (push_bit p 1) shift = slotOf (bit bm) ss p"
  unfolding bit_of_position [OF assms]
  by (simp add: and_bit_zero slotIndex_rank chunk_of_position [OF assms] slotOf_def)

lemma leaf_entry_hash: "leaf_ok h l \<Longrightarrow> e \<in> set (leafEntries l) \<Longrightarrow> h (de_key e) = lf_hash l"
  by (simp add: leaf_ok_def)

lemma slot_at_spec:
  assumes "slot_wf h shift sl" and "p < 32"
  shows "slot_wf h (shift + deltaHashBits) (hashSlotAt sl (push_bit p 1) shift)"
    and "slotEntries (hashSlotAt sl (push_bit p 1) shift) = {e \<in> slotEntries sl. chunk (h (de_key e)) shift = p}"
proof -
  consider (none) "sl = None" | (leaf) l where "sl = Some (Leaf l)" | (child) bm ss where "sl = Some (Child (HNode bm ss))"
    by (metis deltaHashNode.exhaust deltaHashSlot.exhaust option.exhaust)
  then have "slot_wf h (shift + deltaHashBits) (hashSlotAt sl (push_bit p 1) shift) \<and>
    slotEntries (hashSlotAt sl (push_bit p 1) shift) = {e \<in> slotEntries sl. chunk (h (de_key e)) shift = p}"
  proof cases
    case none
    then show ?thesis by (simp add: slot_wf_def slotEntries_def)
  next
    case leaf
    with assms have ok: "leaf_ok h l" by (simp add: slot_wf_def)
    have "deltaHashBit (lf_hash l) shift = push_bit p 1 \<longleftrightarrow> chunk (lf_hash l) shift = p"
      unfolding bit_of_position [OF assms(2)]
      by (metis bit_deltaHashBit chunk_of_position [OF assms(2)] deltaHashBit_def)
    with leaf ok leaf_entry_hash [OF ok] show ?thesis by (auto simp: slot_wf_def slotEntries_def entriesOf_def)
  next
    case child
    with assms have wf: "hwf h shift (HNode bm ss)" by (simp add: slot_wf_def)
    then have c: "covers (bit bm) ss" by (simp add: hwf_iff_slots)
    have at: "slot_ok h shift q x" if "slotOf (bit bm) ss q = Some x" for q x
      using wf that by (simp add: hwf_iff_slots)
    have "slot_wf h (shift + deltaHashBits) (slotOf (bit bm) ss p)"
      using at [of p] by (auto simp: slot_wf_def slot_ok_def split: option.splits deltaHashSlot.splits)
    moreover have "slotEntries (slotOf (bit bm) ss p) = {e \<in> entriesOf (hleaves (HNode bm ss)). chunk (h (de_key e)) shift = p}"
    proof (rule set_eqI)
      fix e
      have "e \<in> entriesOf (hleaves (HNode bm ss)) \<longleftrightarrow>
          (\<exists>q x l. slotOf (bit bm) ss q = Some x \<and> l \<in> sleaves x \<and> e \<in> set (leafEntries l))"
        unfolding hleaves_slots [OF c] entriesOf_def by blast
      moreover have "chunk (h (de_key e)) shift = q"
        if "slotOf (bit bm) ss q = Some x" "l \<in> sleaves x" "e \<in> set (leafEntries l)" for q x l
        using at [OF that(1)] that(2,3) leaf_entry_hash by (fastforce simp: slot_ok_def)
      ultimately show "e \<in> slotEntries (slotOf (bit bm) ss p) \<longleftrightarrow>
          e \<in> {e \<in> entriesOf (hleaves (HNode bm ss)). chunk (h (de_key e)) shift = p}"
        unfolding slotEntries_def entriesOf_def by (auto split: option.splits)
    qed
    ultimately show ?thesis
      using child hashSlotAt_child [OF assms(2), of bm ss shift] by (simp add: slotEntries_def del: hashSlotAt.simps hleaves.simps)
  qed
  then show "slot_wf h (shift + deltaHashBits) (hashSlotAt sl (push_bit p 1) shift)"
    and "slotEntries (hashSlotAt sl (push_bit p 1) shift) = {e \<in> slotEntries sl. chunk (h (de_key e)) shift = p}" by blast+
qed

lemma slot_bitmap:
  assumes "slot_wf h shift sl" and "e \<in> slotEntries sl"
  shows "bit (hashSlotBitmap sl shift) (chunk (h (de_key e)) shift)"
proof -
  let ?p = "chunk (h (de_key e)) shift"
  have "e \<in> slotEntries (hashSlotAt sl (push_bit ?p 1) shift)"
    using slot_at_spec(2) [OF assms(1) chunk_less] assms(2) by blast
  then have some: "hashSlotAt sl (push_bit ?p 1) shift \<noteq> None" by (auto simp: slotEntries_def split: option.splits)
  show ?thesis
  proof (cases rule: hashSlotBitmap.cases [of "(sl, shift)"])
    case (1 bm ss)
    with some hashSlotAt_child [OF chunk_less [of "h (de_key e)" shift], of bm ss shift] show ?thesis
      by (auto simp: slotOf_def simp del: hashSlotAt.simps split: if_splits)
  next
    case (2 l)
    with some have "deltaHashBit (lf_hash l) shift = deltaHashBit (h (de_key e)) shift"
      by (auto simp: deltaHashBit_def split: if_splits)
    with 2 show ?thesis by (simp add: bit_deltaHashBit)
  qed (use some in simp)
qed

lemma slot_keyed:
  assumes "slot_wf h shift sl" and "x \<in> slotEntries sl" and "y \<in> slotEntries sl" and "de_key x = de_key y"
  shows "x = y"
proof (cases sl)
  case (Some s)
  show ?thesis
  proof (cases s)
    case (Child c)
    with assms Some have "hwf h shift c" by (simp add: slot_wf_def)
    from get_spec [OF this, of "de_key y"] assms(2-4) Some Child show ?thesis
      by (simp add: slotEntries_def) (metis option.inject)
  next
    case (Leaf l)
    with assms Some have "leaf_ok h l" by (simp add: slot_wf_def)
    from findInLeaf_iff [OF this, of "de_key y"] assms(2-4) Some Leaf show ?thesis
      by (simp add: slotEntries_def) (metis option.inject)
  qed
qed (use assms in \<open>simp add: slotEntries_def\<close>)

subsection \<open>What the walk visits\<close>

definition leafList :: "'v deltaHashLeaf option \<Rightarrow> 'v deltaEntry list" where
  "leafList leaf = (case leaf of None \<Rightarrow> [] | Some l \<Rightarrow> leafEntries l)"

lemma visitHashLeaf_list: "visitHashLeaf leaf visit s = foldStop visit (leafList leaf) s"
  by (auto simp: visitHashLeaf_def leafList_def leafEntries_def split: option.splits)

text \<open>
  The walk from a pair of slots visits a list of distinct keys of theirs that has every key at which
  they differ, in the order of the list, until the visitor stops it.
\<close>

definition walks_keys ::
  "'v deltaEntry set \<Rightarrow> 'v deltaEntry set \<Rightarrow> string list \<Rightarrow> bool" where
  "walks_keys A B ks \<longleftrightarrow>
     distinct ks \<and> set ks \<subseteq> de_key ` (A \<union> B) \<and> (\<forall>k. differ_at A B k \<longrightarrow> k \<in> set ks)"

lemma hashLeafEntry_list:
  assumes "\<And>l. leaf = Some l \<Longrightarrow> leaf_ok h l"
  shows "hashLeafEntry leaf k = Some e \<longleftrightarrow> e \<in> set (leafList leaf) \<and> de_key e = k"
  using assms by (cases leaf) (auto simp: hashLeafEntry_def leafList_def findInLeaf_iff)

text \<open>The keys of a pair of leaves: of the left one those without the same entry at the right, then the new ones.\<close>

definition leafKeys :: "'v identity \<Rightarrow> 'v deltaHashLeaf option \<Rightarrow> 'v deltaHashLeaf option \<Rightarrow> string list" where
  "leafKeys I left right =
     map de_key (filter (\<lambda>e. \<not> (case hashLeafEntry right (de_key e) of None \<Rightarrow> False | Some e' \<Rightarrow> same_entry I e e')) (leafList left)) @
     map de_key (filter (\<lambda>e. \<not> hashLeafEntry left (de_key e) \<noteq> None) (leafList right))"

lemma walkLeaves_keys: "walkChangedHashLeaves I left right visit s = foldStop visit (leafKeys I left right) s"
proof -
  have swap: "(\<lambda>e s. if hashLeafEntry left (de_key e) = None then visit (de_key e) s else (s, False)) =
      (\<lambda>e s. if hashLeafEntry left (de_key e) \<noteq> None then (s, False) else visit (de_key e) s)" by (auto simp: fun_eq_iff)
  show ?thesis
    unfolding walkChangedHashLeaves_def visitHashLeaf_list leafKeys_def foldStop_append foldStop_filter [symmetric] swap ..
qed

lemma leafKeys_differ:
  assumes I: "identity_ok I" and L: "\<And>l. left = Some l \<Longrightarrow> leaf_ok h l" and R: "\<And>l. right = Some l \<Longrightarrow> leaf_ok h l"
    and "differ_at (set (leafList left)) (set (leafList right)) k"
  shows "k \<in> set (leafKeys I left right)"
proof (cases "\<exists>e\<in>set (leafList left). de_key e = k")
  case True
  then obtain f where f: "f \<in> set (leafList left)" "de_key f = k" by blast
  have only: "x = f" if "x \<in> set (leafList left)" "de_key x = k" for x
    using that f hashLeafEntry_list [of left h, OF L, of k] by (metis option.inject)
  have "\<not> same_entry I f e" if "hashLeafEntry right k = Some e" for e
  proof
    assume "same_entry I f e"
    with I have "f = e" by (simp add: identity_ok_def)
    moreover have "x \<in> set (leafList right) \<and> de_key x = k \<longleftrightarrow> hashLeafEntry right k = Some x" for x
      using hashLeafEntry_list [of right h, OF R, of k x] by blast
    then have "x \<in> set (leafList right) \<and> de_key x = k \<longleftrightarrow> x = e" for x unfolding that by auto
    then have "{x \<in> set (leafList right). de_key x = k} = {e}" by auto
    moreover have "{x \<in> set (leafList left). de_key x = k} = {f}" using f only by blast
    ultimately show False using assms(4) by (simp add: differ_at_def)
  qed
  then have "f \<in> {e \<in> set (leafList left). \<not> (case hashLeafEntry right (de_key e) of None \<Rightarrow> False | Some e' \<Rightarrow> same_entry I e e')}"
    using f by (auto split: option.splits)
  with f(2) show ?thesis by (force simp: leafKeys_def)
next
  case False
  then obtain e where e: "e \<in> set (leafList right)" "de_key e = k" using assms(4) by (auto simp: differ_at_def)
  have "hashLeafEntry left k = None"
    using False hashLeafEntry_list [of left h, OF L, of k] by (cases "hashLeafEntry left k") auto
  with e show ?thesis by (force simp: leafKeys_def)
qed

lemma walk_leaves:
  assumes "identity_ok I" and L: "\<And>l. left = Some l \<Longrightarrow> leaf_ok h l" and R: "\<And>l. right = Some l \<Longrightarrow> leaf_ok h l"
  shows "walks_keys (set (leafList left)) (set (leafList right)) (leafKeys I left right)"
proof -
  have dist: "distinct (map de_key (leafList left))" "distinct (map de_key (leafList right))"
    using L R by (auto simp: leafList_def leaf_ok_def split: option.splits)
  have found: "hashLeafEntry left (de_key e) \<noteq> None" if "e \<in> set (leafList left)" for e
    using that hashLeafEntry_list [of left h, OF L, of "de_key e" e] by auto
  have "distinct (leafKeys I left right)"
    using dist found unfolding leafKeys_def distinct_append by (auto simp: distinct_map_filter) (metis option.distinct(1))
  moreover have "set (leafKeys I left right) \<subseteq> de_key ` (set (leafList left) \<union> set (leafList right))"
    by (auto simp: leafKeys_def)
  ultimately show ?thesis unfolding walks_keys_def using leafKeys_differ [OF assms] by blast
qed

lemma slot_leaf:
  "\<not> isChild sl \<Longrightarrow> slotEntries sl = set (leafList (leafOf sl))"
  "\<not> isChild sl \<Longrightarrow> slot_wf h shift sl \<Longrightarrow> leafOf sl = Some l \<Longrightarrow> leaf_ok h l"
  by (cases sl rule: isChild.cases; simp add: slotEntries_def leafList_def entriesOf_def slot_wf_def)+

lemma set_setBits: "set (setBits w) = {p. p < 32 \<and> bit w p}" and distinct_setBits: "distinct (setBits w)"
  by (auto simp: setBits_def)

text \<open>Gluing the key lists of the positions of two slots.\<close>

lemma walks_keys_concat:
  assumes "distinct ps" and wf: "slot_wf h shift left" "slot_wf h shift (right :: 'a deltaHashSlot option)"
    and each: "\<And>p. p \<in> set ps \<Longrightarrow> walks_keys {e \<in> slotEntries left. chunk (h (de_key e)) shift = p}
      {e \<in> slotEntries right. chunk (h (de_key e)) shift = p} (K p)"
    and cover: "\<And>e. e \<in> slotEntries left \<union> slotEntries right \<Longrightarrow> chunk (h (de_key e)) shift \<in> set ps"
  shows "walks_keys (slotEntries left) (slotEntries right) (concat (map K ps))"
proof -
  have in_p: "chunk (h k) shift = p" if "p \<in> set ps" "k \<in> set (K p)" for p k
    using each [OF that(1)] that(2) unfolding walks_keys_def by auto
  have "distinct (concat (map K qs))" if "distinct qs" "set qs \<subseteq> set ps" for qs
    using that
  proof (induction qs)
    case (Cons q qs)
    then have "distinct (K q)" using each by (simp add: walks_keys_def)
    moreover have "set (K q) \<inter> set (concat (map K qs)) = {}"
    proof (rule equals0I)
      fix k assume k: "k \<in> set (K q) \<inter> set (concat (map K qs))"
      then obtain q' where "q' \<in> set qs" "k \<in> set (K q')" by auto
      with k in_p [of q k] in_p [of q' k] Cons.prems show False by auto
    qed
    ultimately show ?case using Cons by simp
  qed simp
  with assms(1) have "distinct (concat (map K ps))" by simp
  moreover have "set (concat (map K ps)) \<subseteq> de_key ` (slotEntries left \<union> slotEntries right)"
    using each unfolding walks_keys_def by fastforce
  moreover have "k \<in> set (concat (map K ps))" if differ: "differ_at (slotEntries left) (slotEntries right) k" for k
  proof -
    let ?p = "chunk (h k) shift"
    have "?p \<in> set ps" using differ cover unfolding differ_at_def by blast
    moreover have part: "{e \<in> {e \<in> S. chunk (h (de_key e)) shift = ?p}. de_key e = k} = {e \<in> S. de_key e = k}"
      for S :: "'a deltaEntry set" by auto
    from differ have "differ_at {e \<in> slotEntries left. chunk (h (de_key e)) shift = ?p}
        {e \<in> slotEntries right. chunk (h (de_key e)) shift = ?p} k"
      unfolding differ_at_def part .
    ultimately have "k \<in> set (K ?p)" using each [of ?p] unfolding walks_keys_def by blast
    with \<open>?p \<in> set ps\<close> show ?thesis by auto
  qed
  ultimately show ?thesis unfolding walks_keys_def by blast
qed

lemma walk_slots:
  fixes left right :: "'v deltaHashSlot option"
  assumes I: "identity_ok I"
  shows "slot_wf h shift left \<Longrightarrow> slot_wf h shift right \<Longrightarrow>
    \<exists>ks. walks_keys (slotEntries left) (slotEntries right) ks \<and>
      (\<forall>(visit :: string \<Rightarrow> 's \<Rightarrow> 's \<times> bool) s. walkChangedHashSlots I left right shift visit s = foldStop visit ks s)"
proof (induction "childSize left + childSize right" arbitrary: left right shift rule: less_induct)
  case less
  have run: "walkChangedHashSlots I left right shift visit s =
     (if same_slot I left right then (s, False)
      else if \<not> isChild left \<and> \<not> isChild right then walkChangedHashLeaves I (leafOf left) (leafOf right) visit s
      else foldStop (\<lambda>p. walkChangedHashSlots I (hashSlotAt left (push_bit p 1) shift)
               (hashSlotAt right (push_bit p 1) shift) (shift + deltaHashBits) visit)
             (setBits (hashSlotBitmap left shift OR hashSlotBitmap right shift)) s)"
    for visit :: "string \<Rightarrow> 's \<Rightarrow> 's \<times> bool" and s by (rule walkChangedHashSlots.simps)
  show ?case
  proof (cases "same_slot I left right")
    case True
    with I have "left = right" by (simp add: identity_ok_def)
    then have "walks_keys (slotEntries left) (slotEntries right) []" by (simp add: walks_keys_def differ_at_def)
    with True run show ?thesis by (intro exI [of _ "[]"]) simp
  next
    case other: False
    show ?thesis
    proof (cases "isChild left \<or> isChild right")
      case False
      then have "walks_keys (slotEntries left) (slotEntries right) (leafKeys I (leafOf left) (leafOf right))"
        using walk_leaves [OF I, of "leafOf left" h "leafOf right"] slot_leaf less.prems by metis
      with False other run show ?thesis by (intro exI [of _ "leafKeys I (leafOf left) (leafOf right)"]) (simp add: walkLeaves_keys)
    next
      case True
      let ?at = "\<lambda>sl p. hashSlotAt sl (push_bit p 1) shift"
      let ?ps = "setBits (hashSlotBitmap left shift OR hashSlotBitmap right shift)"
      have "\<exists>ks. walks_keys (slotEntries (?at left p)) (slotEntries (?at right p)) ks \<and>
          (\<forall>(visit :: string \<Rightarrow> 's \<Rightarrow> 's \<times> bool) s.
            walkChangedHashSlots I (?at left p) (?at right p) (shift + deltaHashBits) visit s = foldStop visit ks s)"
        if "p < 32" for p
      proof (rule less.hyps)
        show "childSize (?at left p) + childSize (?at right p) < childSize left + childSize right"
          using True childSize_at [of left "push_bit p 1" shift] childSize_at [of right "push_bit p 1" shift]
            childSize_at_le [of left "push_bit p 1" shift] childSize_at_le [of right "push_bit p 1" shift] by auto
      qed (use slot_at_spec(1) less.prems that in blast)+
      then obtain K where K: "\<And>p. p < 32 \<Longrightarrow> walks_keys (slotEntries (?at left p)) (slotEntries (?at right p)) (K p)"
        "\<And>p (visit :: string \<Rightarrow> 's \<Rightarrow> 's \<times> bool) s. p < 32 \<Longrightarrow>
          walkChangedHashSlots I (?at left p) (?at right p) (shift + deltaHashBits) visit s = foldStop visit (K p) s"
        by metis
      have "walks_keys (slotEntries left) (slotEntries right) (concat (map K ?ps))"
      proof (rule walks_keys_concat [OF distinct_setBits less.prems])
        fix p assume "p \<in> set ?ps"
        then have "p < 32" by (simp add: set_setBits)
        from K(1) [OF this] show "walks_keys {e \<in> slotEntries left. chunk (h (de_key e)) shift = p}
            {e \<in> slotEntries right. chunk (h (de_key e)) shift = p} (K p)"
          by (simp only: slot_at_spec(2) [OF less.prems(1) \<open>p < 32\<close>] slot_at_spec(2) [OF less.prems(2) \<open>p < 32\<close>])
      next
        fix e assume "e \<in> slotEntries left \<union> slotEntries right"
        then show "chunk (h (de_key e)) shift \<in> set ?ps"
          using slot_bitmap less.prems by (auto simp: set_setBits chunk_less bit_or_iff)
      qed
      moreover have "walkChangedHashSlots I left right shift visit s = foldStop visit (concat (map K ?ps)) s"
        for visit :: "string \<Rightarrow> 's \<Rightarrow> 's \<times> bool" and s
      proof -
        have "foldStop (\<lambda>p. walkChangedHashSlots I (?at left p) (?at right p) (shift + deltaHashBits) visit) ?ps s =
            foldStop visit (concat (map K ?ps)) s"
          by (intro foldStop_concat K(2)) (simp add: set_setBits)
        with True other show ?thesis by (subst run) auto
      qed
      ultimately show ?thesis by blast
    qed
  qed
qed

subsection \<open>The changes of two versions\<close>

definition unchanged :: "('v \<Rightarrow> 'v \<Rightarrow> bool) \<Rightarrow> 'v option \<Rightarrow> 'v option \<Rightarrow> bool" where
  "unchanged eq before after =
     (case (before, after) of (None, None) \<Rightarrow> True | (Some b, Some a) \<Rightarrow> eq b a | _ \<Rightarrow> False)"

definition changeAt :: "(string \<Rightarrow> 'v option) \<Rightarrow> (string \<Rightarrow> 'v option) \<Rightarrow> string \<Rightarrow> 'v Change" where
  "changeAt m m' k = \<lparr>ch_key = k, Before = m k, After = m' k\<rparr>"

text \<open>The changes from one map to another.\<close>

definition changes :: "('v \<Rightarrow> 'v \<Rightarrow> bool) \<Rightarrow> (string \<Rightarrow> 'v option) \<Rightarrow> (string \<Rightarrow> 'v option) \<Rightarrow> 'v Change set" where
  "changes eq m m' = {changeAt m m' k | k. \<not> unchanged eq (m k) (m' k)}"

lemma NodeGet_map: "nodes_ok h n \<Longrightarrow> NodeGet h n k = Some (node_map n k)"
  by (auto simp: NodeGet_def node_map_def nodes_ok_def get_contents [OF node_okD(3,4)] split: option.splits)

lemma emit_eq:
  assumes "nodes_ok h n" and "nodes_ok h previous"
  shows "emit h n previous eq visit k (Some s) =
    (if unchanged eq (node_map previous k) (node_map n k) then (Some s, False)
     else case visit (changeAt (node_map previous) (node_map n) k) s of (s', stop) \<Rightarrow> (Some s', stop))"
  by (simp add: emit_def NodeGet_map assms unchanged_def changeAt_def)

lemma foldStop_emit:
  assumes "nodes_ok h n" and "nodes_ok h previous"
  shows "foldStop (emit h n previous eq visit) ks (Some s) = map_prod Some id
    (foldStop visit (map (changeAt (node_map previous) (node_map n))
       (filter (\<lambda>k. \<not> unchanged eq (node_map previous k) (node_map n k)) ks)) s)"
  by (induction ks arbitrary: s) (auto simp: emit_eq [OF assms] split: prod.splits)

lemma foldVisit_keys: "foldVisit (\<lambda>k v. f k) xs s = foldStop f (map fst xs) s"
  by (induction xs arbitrary: s) (auto split: prod.splits)

text \<open>Any list of distinct keys that has every changed key gives the changes.\<close>

lemma changes_list:
  assumes "distinct ks" and "\<And>k. \<not> unchanged eq (m k) (m' k) \<Longrightarrow> k \<in> set ks"
  defines "cs \<equiv> map (changeAt m m') (filter (\<lambda>k. \<not> unchanged eq (m k) (m' k)) ks)"
  shows "distinct (map ch_key cs)" and "set cs = changes eq m m'"
  using assms by (auto simp: cs_def changes_def changeAt_def comp_def)

lemma node_content:
  assumes "nodes_ok h n"
  shows "slot_wf h 0 (map_option Child (node_deltaHash n))"
    and "\<not> differ_at (slotEntries (map_option Child (node_deltaHash n))) (slotEntries (map_option Child (node_deltaHash p))) k
      \<Longrightarrow> nodes_ok h p \<Longrightarrow> node_base n = node_base p \<Longrightarrow> node_map n k = node_map p k"
proof -
  show "slot_wf h 0 (map_option Child (node_deltaHash n))"
  proof (cases n)
    case (Some m)
    with assms have "delta_ok h (nd_base m) (nd_delta m) (nd_deltaHash m)" by (simp add: nodes_ok_def node_okD)
    with Some show ?thesis by (auto simp: slot_wf_def node_deltaHash_def delta_ok_def hashed_ok_def split: option.splits)
  qed (simp add: slot_wf_def node_deltaHash_def)
  have map: "node_map m k = (case find_on de_key k xs of Some e \<Rightarrow> de_value e | None \<Rightarrow> map_option fe_value (find_on fe_key k (node_base m)))
      \<and> sorted_on de_key xs \<and> set xs = slotEntries (map_option Child (node_deltaHash m))"
    if "nodes_ok h m" "xs = (case m of None \<Rightarrow> [] | Some y \<Rightarrow> inorder (nd_delta y))" for m xs
  proof (cases m)
    case None
    with that show ?thesis by (simp add: node_map_def node_base_def node_deltaHash_def slotEntries_def)
  next
    case (Some y)
    with that have "delta_ok h (nd_base y) (nd_delta y) (nd_deltaHash y)" "delta_sorted (nd_delta y)"
      by (simp_all add: nodes_ok_def node_okD)
    moreover have "slotEntries (map_option Child (nd_deltaHash y)) = hcontent (nd_deltaHash y)"
      by (simp add: slotEntries_def hcontent_def split: option.splits)
    ultimately show ?thesis using Some that(2)
      by (simp add: node_map_def node_base_def node_deltaHash_def contents_def delta_ok_def split: option.splits)
  qed
  assume same: "\<not> differ_at (slotEntries (map_option Child (node_deltaHash n))) (slotEntries (map_option Child (node_deltaHash p))) k"
    and p: "nodes_ok h p" "node_base n = node_base p"
  define xs where "xs = (case n of None \<Rightarrow> [] | Some y \<Rightarrow> inorder (nd_delta y))"
  define ys where "ys = (case p of None \<Rightarrow> [] | Some y \<Rightarrow> inorder (nd_delta y))"
  note x = map [OF assms xs_def] and y = map [OF p(1) ys_def]
  have "find_on de_key k xs = Some e \<longleftrightarrow> find_on de_key k ys = Some e" for e
    using same x y unfolding differ_at_def by (auto simp: find_on_sorted)
  then have find: "find_on de_key k xs = find_on de_key k ys" by (rule option_Some_eqI)
  show "node_map n k = node_map p k" unfolding x [THEN conjunct1] y [THEN conjunct1] p(2) find ..
qed

text \<open>The walk where the two versions have different bases.\<close>

lemma fullWalk_keys:
  assumes n: "nodes_ok h n" and p: "nodes_ok h previous"
  defines "ks \<equiv> map fst (node_list n) @ filter (\<lambda>k. node_map n k = None) (map fst (node_list previous))"
  shows "(case Walk n (\<lambda>k v. emit h n previous eq visit k) (Some s) of (s', stop) \<Rightarrow>
      if stop then (s', True)
      else Walk previous (\<lambda>k v state.
        case NodeGet h n k of
          None \<Rightarrow> (None, True)
        | Some present \<Rightarrow> if present \<noteq> None then (state, False) else emit h n previous eq visit k state) s') =
    foldStop (emit h n previous eq visit) ks (Some s)"
proof -
  let ?second = "\<lambda>k state. case NodeGet h n k of
      None \<Rightarrow> (None, True)
    | Some present \<Rightarrow> if present \<noteq> None then (state, False) else emit h n previous eq visit k state"
  have second: "?second = (\<lambda>k state. if node_map n k \<noteq> None then (state, False) else emit h n previous eq visit k state)"
    by (simp add: NodeGet_map [OF n] fun_eq_iff)
  have skip: "foldStop (\<lambda>k state. if node_map n k \<noteq> None then (state, False) else emit h n previous eq visit k state) xs t =
      foldStop (emit h n previous eq visit) (filter (\<lambda>k. node_map n k = None) xs) t" for xs t
    using foldStop_filter [of "\<lambda>k. node_map n k \<noteq> None" "emit h n previous eq visit" "\<lambda>k. k" xs t] by simp
  have walk2: "Walk previous (\<lambda>k v. ?second k) t =
      foldStop (emit h n previous eq visit) (filter (\<lambda>k. node_map n k = None) (map fst (node_list previous))) t" for t
  proof -
    have "Walk previous (\<lambda>k v. ?second k) t = foldVisit (\<lambda>k v. ?second k) (node_list previous) t"
      by (rule Walk_node [OF p])
    also have "\<dots> = foldStop ?second (map fst (node_list previous)) t" by (rule foldVisit_keys)
    finally show ?thesis by (simp only: second skip)
  qed
  show ?thesis
    unfolding ks_def foldStop_append Walk_node [OF n, of "\<lambda>k v. emit h n previous eq visit k"] foldVisit_keys walk2 ..
qed

lemma fullWalk_covers:
  assumes n: "nodes_ok h n" and p: "nodes_ok h previous"
  defines "ks \<equiv> map fst (node_list n) @ filter (\<lambda>k. node_map n k = None) (map fst (node_list previous))"
  shows "distinct ks" and "\<not> unchanged eq (node_map previous k) (node_map n k) \<Longrightarrow> k \<in> set ks"
proof -
  have dom: "dom (node_map m) = set (map fst (node_list m))" if "nodes_ok h m" for m
    using node_list_spec(2) [OF that] by (metis dom_map_of_conv_image_fst set_map)
  have dist: "distinct (map fst (node_list m))" if "nodes_ok h m" for m
    using sorted_on_distinct [OF node_list_spec(1) [OF that]] .
  have out: "k \<notin> set (map fst (node_list n))" if "node_map n k = None" for k
    using that dom [OF n] by (auto simp: domIff)
  show "distinct ks" unfolding ks_def distinct_append using dist [OF n] dist [OF p] out by (auto simp only: distinct_filter set_filter)
  show "k \<in> set ks" if "\<not> unchanged eq (node_map previous k) (node_map n k)"
  proof -
    have "k \<in> dom (node_map n) \<or> node_map n k = None \<and> k \<in> dom (node_map previous)"
      using that by (auto simp: unchanged_def split: option.splits)
    then show ?thesis unfolding ks_def dom [OF n] dom [OF p] by auto
  qed
qed

text \<open>The keys a walk emits.\<close>

lemma WalkChanges_keys:
  fixes n previous :: "'v Node option"
  assumes I: "identity_ok I" and n: "nodes_ok h n" and p: "nodes_ok h previous" and refl: "\<And>x. unchanged eq x x"
  shows "\<exists>ks. distinct ks \<and> (\<forall>k. \<not> unchanged eq (node_map previous k) (node_map n k) \<longrightarrow> k \<in> set ks) \<and>
      (\<forall>(visit :: 'v Change \<Rightarrow> 's \<Rightarrow> 's \<times> bool) s.
        WalkChanges I h n previous eq visit s = foldStop (emit h n previous eq visit) ks (Some s))"
proof (cases "same_node I n previous")
  case True
  with I have "n = previous" by (simp add: identity_ok_def)
  with True refl show ?thesis by (intro exI [of _ "[]"]) (simp add: WalkChanges_def)
next
  case other: False
  show ?thesis
  proof (cases "sameFrozenBase I n previous")
    case True
    with I have base: "node_base n = node_base previous" by (auto simp: sameFrozenBase_def identity_ok_def)
    from walk_slots [OF I node_content(1) [OF n] node_content(1) [OF p]] obtain ks where
      ks: "walks_keys (slotEntries (map_option Child (node_deltaHash n))) (slotEntries (map_option Child (node_deltaHash previous))) ks"
      "\<forall>(visit :: string \<Rightarrow> 's option \<Rightarrow> 's option \<times> bool) s. walkChangedHashSlots I (map_option Child (node_deltaHash n))
        (map_option Child (node_deltaHash previous)) 0 visit s = foldStop visit ks s" by blast
    have "k \<in> set ks" if "\<not> unchanged eq (node_map previous k) (node_map n k)" for k
    proof (rule ccontr)
      assume "k \<notin> set ks"
      with ks(1) have "\<not> differ_at (slotEntries (map_option Child (node_deltaHash n)))
        (slotEntries (map_option Child (node_deltaHash previous))) k" unfolding walks_keys_def by blast
      from node_content(2) [OF n this p base] that refl show False by simp
    qed
    moreover have "distinct ks" using ks(1) by (simp add: walks_keys_def)
    moreover have "WalkChanges I h n previous eq visit s = foldStop (emit h n previous eq visit) ks (Some s)"
      for visit :: "'v Change \<Rightarrow> 's \<Rightarrow> 's \<times> bool" and s
      using other True ks(2) by (simp add: WalkChanges_def)
    ultimately show ?thesis by blast
  next
    case False
    let ?ks = "map fst (node_list n) @ filter (\<lambda>k. node_map n k = None) (map fst (node_list previous))"
    from False other have "WalkChanges I h n previous eq visit s = foldStop (emit h n previous eq visit) ?ks (Some s)"
      for visit :: "'v Change \<Rightarrow> 's \<Rightarrow> 's \<times> bool" and s
      unfolding WalkChanges_def fullWalk_keys [OF n p, symmetric] by simp
    with fullWalk_covers [OF n p] show ?thesis by blast
  qed
qed

text \<open>
  C23. The walk over the changes between two well-formed versions of trees ends and reports exactly the
  keys whose presence or value differs, each once, with its value before and after, and in an order
  that does not depend on the visitor, which it calls until it asks to stop. This holds whether the
  versions share a frozen base (the tries are descended together and what they share is skipped) or
  not (both are walked), for every comparison of values that finds a value equal to itself.
\<close>

theorem WalkChanges_exact:
  fixes n previous :: "'v Node option"
  assumes I: "identity_ok I" and n: "nodes_ok h n" and p: "nodes_ok h previous" and eq: "\<forall>v. eq v v"
  shows "\<exists>cs. distinct (map ch_key cs) \<and> set cs = changes eq (node_map previous) (node_map n) \<and>
    (\<forall>(visit :: 'v Change \<Rightarrow> 's \<Rightarrow> 's \<times> bool) s.
      WalkChanges I h n previous eq visit s = map_prod Some id (foldStop visit cs s))"
proof -
  have refl: "unchanged eq x x" for x using eq by (simp add: unchanged_def split: option.splits)
  from WalkChanges_keys [OF I n p refl] obtain ks where ks: "distinct ks" "\<And>k. \<not> unchanged eq (node_map previous k) (node_map n k) \<Longrightarrow> k \<in> set ks"
    "\<And>(visit :: 'v Change \<Rightarrow> 's \<Rightarrow> 's \<times> bool) s.
      WalkChanges I h n previous eq visit s = foldStop (emit h n previous eq visit) ks (Some s)" by blast
  let ?cs = "map (changeAt (node_map previous) (node_map n))
    (filter (\<lambda>k. \<not> unchanged eq (node_map previous k) (node_map n k)) ks)"
  have "distinct (map ch_key ?cs)" and "set ?cs = changes eq (node_map previous) (node_map n)"
    using changes_list [of ks eq "node_map previous" "node_map n"] ks(1,2) by blast+
  moreover have "WalkChanges I h n previous eq visit s = map_prod Some id (foldStop visit ?cs s)"
    for visit :: "'v Change \<Rightarrow> 's \<Rightarrow> 's \<times> bool" and s by (simp only: ks(3) foldStop_emit [OF n p])
  ultimately show ?thesis by blast
qed

definition structural :: "'v identity" where
  "structural = \<lparr>same_node = (=), same_array = (=), same_slot = (=), same_entry = (=)\<rparr>"

theorem WalkChanges_exact_witness:
  "\<exists>cs. distinct (map ch_key cs) \<and>
    set cs = changes (=) [''aa'' \<mapsto> 1, ''ab'' \<mapsto> 2, ''b'' \<mapsto> 3] [''ab'' \<mapsto> 2, ''ac'' \<mapsto> 4, ''b'' \<mapsto> 5] \<and>
    (\<forall>(visit :: int Change \<Rightarrow> int list \<Rightarrow> int list \<times> bool) s.
      WalkChanges structural sampleHash sampleVersion (Root (Some sampleTree)) (=) visit s = map_prod Some id (foldStop visit cs s))"
proof -
  have "identity_ok structural" by (simp add: identity_ok_def structural_def)
  moreover have "nodes_ok sampleHash (Root (Some sampleTree))"
    using sampleTree_ok(1) by (simp add: tree_ok_def nodes_ok_def)
  moreover have "node_map (Root (Some sampleTree)) = [''aa'' \<mapsto> 1, ''ab'' \<mapsto> 2, ''b'' \<mapsto> 3]"
    using sampleTree_ok(2) by (simp add: tree_map_def)
  ultimately show ?thesis
    using WalkChanges_exact [of structural sampleHash sampleVersion "Root (Some sampleTree)" "(=)"] sampleVersion_ok
    by simp
qed

end
