(* ===== verification/Ordered_Set.thy ===== *)
theory Ordered_Set
  imports Prelude "HOL-Library.Word"
begin

section \<open>Authenticated ordered sets\<close>

text \<open>
  \<open>src/pkg/incremental/internal/orderedset/set.go\<close> and \<open>update.go\<close>: immutable sets of strings that
  belong to one authority and one scope, kept as a height-balanced tree or, when built packed, as a
  sorted slice. Every operation first checks whose set it was given and validates the nodes it visits,
  so a foreign or damaged set is an error, not a wrong answer.

  A pointer to an authority or to a root state is the number it was allocated at (\<open>None\<close> is nil); an
  operation that allocates a root state takes the number of the new one, \<open>fresh\<close>. A \<open>seal\<close> field is
  only ever compared with the object that holds it, so it is the truth value of that comparison. Node
  identities are compared nowhere else. Heights and sizes count nodes in memory and are not near the
  limits of a Go int, so they are integers. Dereferencing nil is the error \<open>NilDereference\<close>.
\<close>

subsection \<open>Data\<close>

datatype set_error =
    InvalidProvenance | AnotherScope | EmptyValue | NotIncreasing | NotBalanced | InvalidHeight
  | InvalidSize | NilDereference
  | ValidatingNode string string set_error
  | RebalancingLeft string set_error | RebalancingRight string set_error
  | RotatingRight string set_error | RotatingLeft string set_error

record Scope =
  sc_Domain :: "8 word"
  sc_Key :: string

datatype node =
    NilNode
  | Node (nd_authority: "nat option") (nd_key: string) (nd_left: node) (nd_right: node)
      (nd_height: int) (nd_size: int) (nd_sealed: bool)

record rootState =
  rs_ref :: nat
  rs_authority :: "nat option"
  rs_scope :: Scope
  rs_node :: node
  rs_packed :: "string list"
  rs_size :: int
  rs_sealed :: bool

type_synonym SetRoot = "rootState option"

record Authority =
  au_ref :: nat
  au_sealed :: bool
  au_empty :: "rootState option"

definition zeroScope :: Scope where
  "zeroScope = \<lparr>sc_Domain = 0, sc_Key = []\<rparr>"

definition scope_valid :: "Scope \<Rightarrow> bool" where
  "scope_valid s \<longleftrightarrow> sc_Domain s \<noteq> 0 \<and> sc_Key s \<noteq> []"

fun nodeHeight :: "node \<Rightarrow> int" where
  "nodeHeight NilNode = 0"
| "nodeHeight (Node _ _ _ _ h _ _) = h"

fun nodeSize :: "node \<Rightarrow> int" where
  "nodeSize NilNode = 0"
| "nodeSize (Node _ _ _ _ _ s _) = s"

definition newNode :: "nat option \<Rightarrow> string \<Rightarrow> node \<Rightarrow> node \<Rightarrow> node" where
  "newNode p key left right = Node p key left right
     (1 + max (nodeHeight left) (nodeHeight right)) (1 + nodeSize left + nodeSize right) True"

definition newRootState :: "nat \<Rightarrow> nat option \<Rightarrow> Scope \<Rightarrow> node \<Rightarrow> rootState" where
  "newRootState fresh p scope root = \<lparr>rs_ref = fresh, rs_authority = p, rs_scope = scope, rs_node = root,
     rs_packed = [], rs_size = nodeSize root, rs_sealed = True\<rparr>"

definition newPackedRootState :: "nat \<Rightarrow> nat option \<Rightarrow> Scope \<Rightarrow> string list \<Rightarrow> rootState" where
  "newPackedRootState fresh p scope values = \<lparr>rs_ref = fresh, rs_authority = p, rs_scope = scope,
     rs_node = NilNode, rs_packed = values, rs_size = int (length values), rs_sealed = True\<rparr>"

definition NewAuthority :: "nat \<Rightarrow> nat \<Rightarrow> Authority" where
  "NewAuthority ref fresh = \<lparr>au_ref = ref, au_sealed = True,
     au_empty = Some (newRootState fresh (Some ref) zeroScope NilNode)\<rparr>"

definition authority_valid :: "Authority option \<Rightarrow> bool" where
  "authority_valid a \<longleftrightarrow>
     (case a of None \<Rightarrow> False
      | Some x \<Rightarrow> au_sealed x \<and>
          (case au_empty x of None \<Rightarrow> False
           | Some e \<Rightarrow> rs_sealed e \<and> rs_authority e = Some (au_ref x) \<and> rs_scope e = zeroScope \<and>
               rs_node e = NilNode \<and> rs_packed e = [] \<and> rs_size e = 0))"

abbreviation pointer :: "Authority option \<Rightarrow> nat option" where
  "pointer a \<equiv> map_option au_ref a"

definition EmptySet :: "Authority option \<Rightarrow> SetRoot" where
  "EmptySet a = (if authority_valid a then Option.bind a au_empty else None)"

subsection \<open>Validation\<close>

fun validateSortedValues :: "string option \<Rightarrow> string list \<Rightarrow> set_error option" where
  "validateSortedValues _ [] = None"
| "validateSortedValues previous (value # rest) =
     (if value = [] then Some EmptyValue
      else if (case previous of None \<Rightarrow> False | Some p \<Rightarrow> p \<ge> value) then Some NotIncreasing
      else validateSortedValues (Some value) rest)"

definition validateSortedBuild :: "Authority option \<Rightarrow> Scope \<Rightarrow> string list \<Rightarrow> set_error option" where
  "validateSortedBuild a scope values =
     (if \<not> authority_valid a then Some InvalidProvenance
      else if \<not> scope_valid scope then Some AnotherScope
      else validateSortedValues None values)"

fun foreign :: "nat option \<Rightarrow> node \<Rightarrow> bool" where
  "foreign p NilNode = False"
| "foreign p (Node q _ _ _ _ _ sealed) = (\<not> sealed \<or> q \<noteq> p)"

fun validateNodeShape :: "nat option \<Rightarrow> node \<Rightarrow> set_error option" where
  "validateNodeShape p NilNode = None"
| "validateNodeShape p (Node q key left right h s sealed) =
     (if foreign p (Node q key left right h s sealed) then Some InvalidProvenance
      else if h \<noteq> 1 + max (nodeHeight left) (nodeHeight right) then Some InvalidHeight
      else if s \<noteq> 1 + nodeSize left + nodeSize right then Some InvalidSize
      else if foreign p left then Some InvalidProvenance
      else if foreign p right then Some InvalidProvenance
      else None)"

text \<open>\<open>balanceFactor\<close> is only called on nodes that are not nil, or ends the program.\<close>

definition balanceFactor :: "node \<Rightarrow> int" where
  "balanceFactor n = nodeHeight (nd_left n) - nodeHeight (nd_right n)"

definition validateNode :: "nat option \<Rightarrow> node \<Rightarrow> set_error option" where
  "validateNode p n =
     (case validateNodeShape p n of
        Some e \<Rightarrow> Some e
      | None \<Rightarrow> if n \<noteq> NilNode \<and> (balanceFactor n < -1 \<or> balanceFactor n > 1) then Some NotBalanced else None)"

definition authenticState :: "Authority option \<Rightarrow> SetRoot \<Rightarrow> bool" where
  "authenticState a r \<longleftrightarrow> authority_valid a \<and>
     (case r of None \<Rightarrow> False
      | Some st \<Rightarrow> rs_sealed st \<and> rs_authority st = pointer a \<and> rs_size st \<ge> 0 \<and>
          (rs_node st = NilNode \<or> rs_packed st = []))"

definition emptyStateAuthentic :: "Authority option \<Rightarrow> rootState \<Rightarrow> bool" where
  "emptyStateAuthentic a st \<longleftrightarrow>
     Some (rs_ref st) = map_option rs_ref (Option.bind a au_empty) \<and> rs_scope st = zeroScope \<and>
     rs_node st = NilNode \<and> rs_packed st = []"

definition populatedStateAuthentic :: "rootState \<Rightarrow> bool" where
  "populatedStateAuthentic st \<longleftrightarrow> scope_valid (rs_scope st) \<and>
     (if rs_node st = NilNode then int (length (rs_packed st)) = rs_size st \<and> rs_packed st \<noteq> []
      else rs_size st = nodeSize (rs_node st))"

text \<open>A successful check returns the state the root points to.\<close>

definition ValidateAuthentication :: "Authority option \<Rightarrow> SetRoot \<Rightarrow> set_error + rootState" where
  "ValidateAuthentication a r =
     (if \<not> authenticState a r then Inl InvalidProvenance
      else case r of None \<Rightarrow> Inl InvalidProvenance
        | Some st \<Rightarrow>
            if rs_size st = 0 then (if emptyStateAuthentic a st then Inr st else Inl InvalidProvenance)
            else if \<not> populatedStateAuthentic st then Inl InvalidProvenance
            else (case validateNode (pointer a) (rs_node st) of Some e \<Rightarrow> Inl e | None \<Rightarrow> Inr st))"

definition ValidateOwnership :: "Authority option \<Rightarrow> Scope \<Rightarrow> SetRoot \<Rightarrow> set_error + rootState" where
  "ValidateOwnership a scope r =
     (case ValidateAuthentication a r of
        Inl e \<Rightarrow> Inl e
      | Inr st \<Rightarrow> if \<not> scope_valid scope \<or> rs_size st \<noteq> 0 \<and> rs_scope st \<noteq> scope then Inl AnotherScope
                 else Inr st)"

subsection \<open>Building\<close>

function buildSortedNode :: "nat option \<Rightarrow> string list \<Rightarrow> node" where
  "buildSortedNode p values =
     (if values = [] then NilNode
      else let middle = length values div 2 in
        newNode p (values ! middle) (buildSortedNode p (take middle values))
          (buildSortedNode p (drop (middle + 1) values)))"
  by auto
termination by (relation "measure (\<lambda>(p, values). length values)") auto

declare buildSortedNode.simps [simp del]

definition BuildSorted :: "nat \<Rightarrow> Authority option \<Rightarrow> Scope \<Rightarrow> string list \<Rightarrow> set_error + SetRoot" where
  "BuildSorted fresh a scope values =
     (case validateSortedBuild a scope values of
        Some e \<Rightarrow> Inl e
      | None \<Rightarrow> if values = [] then Inr (EmptySet a)
                else Inr (Some (newRootState fresh (pointer a) scope (buildSortedNode (pointer a) values))))"

definition BuildPackedSorted :: "nat \<Rightarrow> Authority option \<Rightarrow> Scope \<Rightarrow> string list \<Rightarrow> set_error + SetRoot" where
  "BuildPackedSorted fresh a scope values =
     (case validateSortedBuild a scope values of
        Some e \<Rightarrow> Inl e
      | None \<Rightarrow> if values = [] then Inr (EmptySet a)
                else Inr (Some (newPackedRootState fresh (pointer a) scope values)))"

subsection \<open>The tree\<close>

fun rotateLeft :: "nat option \<Rightarrow> node \<Rightarrow> set_error + node" where
  "rotateLeft p current =
     (case validateNodeShape p (nd_right current) of
        Some e \<Rightarrow> Inl e
      | None \<Rightarrow>
          (case nd_right current of
             NilNode \<Rightarrow> Inl NilDereference
           | Node _ key rl rr _ _ _ \<Rightarrow> Inr (newNode p key (newNode p (nd_key current) (nd_left current) rl) rr)))"

fun rotateRight :: "nat option \<Rightarrow> node \<Rightarrow> set_error + node" where
  "rotateRight p current =
     (case validateNodeShape p (nd_left current) of
        Some e \<Rightarrow> Inl e
      | None \<Rightarrow>
          (case nd_left current of
             NilNode \<Rightarrow> Inl NilDereference
           | Node _ key ll lr _ _ _ \<Rightarrow> Inr (newNode p key ll (newNode p (nd_key current) lr (nd_right current)))))"

declare rotateLeft.simps [simp del] rotateRight.simps [simp del]

definition rebalanceRightHeavy :: "nat option \<Rightarrow> node \<Rightarrow> set_error + node" where
  "rebalanceRightHeavy p current =
     (let right = nd_right current in
      case validateNode p right of
        Some e \<Rightarrow> Inl (RebalancingRight (nd_key right) e)
      | None \<Rightarrow>
          if right = NilNode then Inl NilDereference
          else case (if balanceFactor right > 0
                     then map_sum id (\<lambda>rotated. newNode p (nd_key current) (nd_left current) rotated) (rotateRight p right)
                     else Inr current) of
            Inl e \<Rightarrow> Inl e
          | Inr current' \<Rightarrow> map_sum (RotatingLeft (nd_key current')) id (rotateLeft p current'))"

definition rebalanceLeftHeavy :: "nat option \<Rightarrow> node \<Rightarrow> set_error + node" where
  "rebalanceLeftHeavy p current =
     (let left = nd_left current in
      case validateNode p left of
        Some e \<Rightarrow> Inl (RebalancingLeft (nd_key left) e)
      | None \<Rightarrow>
          if left = NilNode then Inl NilDereference
          else case (if balanceFactor left < 0
                     then map_sum id (\<lambda>rotated. newNode p (nd_key current) rotated (nd_right current)) (rotateLeft p left)
                     else Inr current) of
            Inl e \<Rightarrow> Inl e
          | Inr current' \<Rightarrow> map_sum (RotatingRight (nd_key current')) id (rotateRight p current'))"

text \<open>\<open>rebalance\<close> reports a change whenever it succeeds.\<close>

definition rebalance :: "nat option \<Rightarrow> node \<Rightarrow> set_error + node \<times> bool" where
  "rebalance p current =
     map_sum id (\<lambda>n. (n, True))
       (if balanceFactor current = 2 then rebalanceLeftHeavy p current
        else if balanceFactor current = -2 then rebalanceRightHeavy p current
        else Inr current)"

fun addNode :: "nat option \<Rightarrow> node \<Rightarrow> string \<Rightarrow> set_error + node \<times> bool" where
  "addNode p NilNode value = Inr (newNode p value NilNode NilNode, True)"
| "addNode p (Node q key left right h s sealed) value =
     (case validateNode p (Node q key left right h s sealed) of
        Some e \<Rightarrow> Inl (ValidatingNode key value e)
      | None \<Rightarrow>
          if value < key then
            (case addNode p left value of
               Inl e \<Rightarrow> Inl e
             | Inr (left', changed) \<Rightarrow>
                 if \<not> changed then Inr (Node q key left right h s sealed, False)
                 else rebalance p (newNode p key left' right))
          else if value > key then
            (case addNode p right value of
               Inl e \<Rightarrow> Inl e
             | Inr (right', changed) \<Rightarrow>
                 if \<not> changed then Inr (Node q key left right h s sealed, False)
                 else rebalance p (newNode p key left right'))
          else Inr (Node q key left right h s sealed, False))"

fun minimumNode :: "nat option \<Rightarrow> node \<Rightarrow> set_error + node" where
  "minimumNode p NilNode = Inl NilDereference"
| "minimumNode p (Node q key left right h s sealed) =
     (case validateNode p (Node q key left right h s sealed) of
        Some e \<Rightarrow> Inl e
      | None \<Rightarrow> if left = NilNode then Inr (Node q key left right h s sealed) else minimumNode p left)"

fun deleteNode :: "nat option \<Rightarrow> node \<Rightarrow> string \<Rightarrow> set_error + node \<times> bool" where
  "deleteNode p NilNode value = Inr (NilNode, False)"
| "deleteNode p (Node q key left right h s sealed) value =
     (case validateNode p (Node q key left right h s sealed) of
        Some e \<Rightarrow> Inl e
      | None \<Rightarrow>
          if value < key then
            (case deleteNode p left value of
               Inl e \<Rightarrow> Inl e
             | Inr (left', changed) \<Rightarrow>
                 if \<not> changed then Inr (Node q key left right h s sealed, False)
                 else rebalance p (newNode p key left' right))
          else if value > key then
            (case deleteNode p right value of
               Inl e \<Rightarrow> Inl e
             | Inr (right', changed) \<Rightarrow>
                 if \<not> changed then Inr (Node q key left right h s sealed, False)
                 else rebalance p (newNode p key left right'))
          else if left = NilNode then Inr (right, True)
          else if right = NilNode then Inr (left, True)
          else (case minimumNode p right of
                  Inl e \<Rightarrow> Inl e
                | Inr successor \<Rightarrow>
                    (case deleteNode p right (nd_key successor) of
                       Inl e \<Rightarrow> Inl e
                     | Inr (right', _) \<Rightarrow> rebalance p (newNode p (nd_key successor) left right'))))"

text \<open>
  A visitor updates a state and says whether to go on; the bounds are the keys of the ancestors the
  subtree lies between.
\<close>

type_synonym 's setVisitor = "string \<Rightarrow> 's \<Rightarrow> 's \<times> bool"

fun rangeNode :: "nat option \<Rightarrow> node \<Rightarrow> string option \<Rightarrow> string option \<Rightarrow> 's setVisitor \<Rightarrow> 's \<Rightarrow>
    's \<times> (set_error + bool)" where
  "rangeNode p NilNode minimum maximum visit st = (st, Inr True)"
| "rangeNode p (Node q key left right h s sealed) minimum maximum visit st =
     (case validateNode p (Node q key left right h s sealed) of
        Some e \<Rightarrow> (st, Inl e)
      | None \<Rightarrow>
          if (case minimum of None \<Rightarrow> False | Some m \<Rightarrow> key \<le> m) \<or> (case maximum of None \<Rightarrow> False | Some m \<Rightarrow> key \<ge> m)
          then (st, Inl InvalidProvenance)
          else (case rangeNode p left minimum (Some key) visit st of
                  (st1, Inl e) \<Rightarrow> (st1, Inl e)
                | (st1, Inr proceed) \<Rightarrow>
                    if \<not> proceed then (st1, Inr False)
                    else (case visit key st1 of (st2, continue) \<Rightarrow>
                      if \<not> continue then (st2, Inr False)
                      else rangeNode p right (Some key) maximum visit st2)))"

subsection \<open>The packed slice\<close>

text \<open>\<open>slices.BinarySearch\<close>: the position of the first value not below the target, and whether it is it.\<close>

function searchFrom :: "string list \<Rightarrow> string \<Rightarrow> nat \<Rightarrow> nat \<Rightarrow> nat" where
  "searchFrom values target i j =
     (if i < j then
        let h = (i + j) div 2 in
        if values ! h < target then searchFrom values target (h + 1) j else searchFrom values target i h
      else i)"
  by auto
termination by (relation "measure (\<lambda>(values, target, i, j). j - i)") auto

declare searchFrom.simps [simp del]

definition BinarySearch :: "string list \<Rightarrow> string \<Rightarrow> nat \<times> bool" where
  "BinarySearch values target =
     (let i = searchFrom values target 0 (length values) in (i, i < length values \<and> values ! i = target))"

fun rangePacked :: "string list \<Rightarrow> 's setVisitor \<Rightarrow> 's \<Rightarrow> 's" where
  "rangePacked [] visit st = st"
| "rangePacked (value # rest) visit st =
     (case visit value st of (st', continue) \<Rightarrow> if \<not> continue then st' else rangePacked rest visit st')"

subsection \<open>Roots\<close>

definition SetLen :: "Authority option \<Rightarrow> Scope \<Rightarrow> SetRoot \<Rightarrow> set_error + int" where
  "SetLen a scope r = map_sum id rs_size (ValidateOwnership a scope r)"

fun containsNode :: "nat option \<Rightarrow> node \<Rightarrow> string \<Rightarrow> set_error + bool" where
  "containsNode p NilNode value = Inr False"
| "containsNode p (Node q key left right h s sealed) value =
     (case validateNode p (Node q key left right h s sealed) of
        Some e \<Rightarrow> Inl e
      | None \<Rightarrow> if value < key then containsNode p left value
                else if value > key then containsNode p right value
                else Inr True)"

definition Contains :: "Authority option \<Rightarrow> Scope \<Rightarrow> SetRoot \<Rightarrow> string \<Rightarrow> set_error + bool" where
  "Contains a scope r value =
     (case ValidateOwnership a scope r of
        Inl e \<Rightarrow> Inl e
      | Inr st \<Rightarrow> if rs_packed st \<noteq> [] then Inr (snd (BinarySearch (rs_packed st) value))
                 else containsNode (pointer a) (rs_node st) value)"

definition Add :: "nat \<Rightarrow> Authority option \<Rightarrow> Scope \<Rightarrow> SetRoot \<Rightarrow> string \<Rightarrow> set_error + SetRoot \<times> bool" where
  "Add fresh a scope r value =
     (case ValidateOwnership a scope r of
        Inl e \<Rightarrow> Inl e
      | Inr st \<Rightarrow>
          if value = [] then Inl EmptyValue
          else if rs_packed st \<noteq> [] then
            (case BinarySearch (rs_packed st) value of (index, found) \<Rightarrow>
               if found then Inr (r, False)
               else Inr (Some (newPackedRootState fresh (pointer a) scope
                      (take index (rs_packed st) @ value # drop index (rs_packed st))), True))
          else (case addNode (pointer a) (rs_node st) value of
                  Inl e \<Rightarrow> Inl e
                | Inr (nxt, changed) \<Rightarrow>
                    if \<not> changed then Inr (r, False)
                    else Inr (Some (newRootState fresh (pointer a) scope nxt), True)))"

definition Delete :: "nat \<Rightarrow> Authority option \<Rightarrow> Scope \<Rightarrow> SetRoot \<Rightarrow> string \<Rightarrow> set_error + SetRoot \<times> bool" where
  "Delete fresh a scope r value =
     (case ValidateOwnership a scope r of
        Inl e \<Rightarrow> Inl e
      | Inr st \<Rightarrow>
          if rs_packed st \<noteq> [] then
            (case BinarySearch (rs_packed st) value of (index, found) \<Rightarrow>
               if \<not> found then Inr (r, False)
               else if length (rs_packed st) = 1 then Inr (EmptySet a, True)
               else Inr (Some (newPackedRootState fresh (pointer a) scope
                      (take index (rs_packed st) @ drop (index + 1) (rs_packed st))), True))
          else (case deleteNode (pointer a) (rs_node st) value of
                  Inl e \<Rightarrow> Inl e
                | Inr (nxt, changed) \<Rightarrow>
                    if \<not> changed then Inr (r, False)
                    else if nxt = NilNode then Inr (EmptySet a, True)
                    else Inr (Some (newRootState fresh (pointer a) scope nxt), True)))"

definition Range :: "Authority option \<Rightarrow> Scope \<Rightarrow> SetRoot \<Rightarrow> 's setVisitor \<Rightarrow> 's \<Rightarrow> 's \<times> set_error option" where
  "Range a scope r visit s =
     (case ValidateOwnership a scope r of
        Inl e \<Rightarrow> (s, Some e)
      | Inr st \<Rightarrow>
          if rs_packed st \<noteq> [] then (rangePacked (rs_packed st) visit s, None)
          else (case rangeNode (pointer a) (rs_node st) None None visit s of
                  (s', Inl e) \<Rightarrow> (s', Some e)
                | (s', Inr _) \<Rightarrow> (s', None)))"

definition Values :: "Authority option \<Rightarrow> Scope \<Rightarrow> SetRoot \<Rightarrow> set_error + string list" where
  "Values a scope r =
     (case SetLen a scope r of
        Inl e \<Rightarrow> Inl e
      | Inr _ \<Rightarrow>
          (case Range a scope r (\<lambda>value values. (values @ [value], True)) [] of
             (_, Some e) \<Rightarrow> Inl e
           | (values, None) \<Rightarrow> Inr values))"

definition SameRoot :: "Authority option \<Rightarrow> Scope \<Rightarrow> SetRoot \<Rightarrow> SetRoot \<Rightarrow> set_error + bool" where
  "SameRoot a scope r other =
     (case ValidateOwnership a scope r of
        Inl e \<Rightarrow> Inl e
      | Inr st \<Rightarrow> map_sum id (\<lambda>st'. rs_ref st = rs_ref st') (ValidateOwnership a scope other))"

subsection \<open>Updates of many members (\<open>update.go\<close>)\<close>

fun packedChanges :: "string list \<Rightarrow> bool gomap \<Rightarrow> string list \<Rightarrow> int \<times> bool \<Rightarrow> int \<times> bool" where
  "packedChanges packed membership [] (count, changed) = (count, changed)"
| "packedChanges packed membership (key # keys) (count, changed) =
     (let present = snd (BinarySearch packed key) in
      if present = (map_of membership key = Some True) then packedChanges packed membership keys (count, changed)
      else packedChanges packed membership keys (if present then count - 1 else count + 1, True))"

fun packedMerge :: "bool gomap \<Rightarrow> string list \<Rightarrow> string list \<Rightarrow> string list \<Rightarrow> string list" where
  "packedMerge membership [] previous values = values @ previous"
| "packedMerge membership (key # keys) previous values =
     (case BinarySearch previous key of (index, present) \<Rightarrow>
        packedMerge membership keys (drop (if present then index + 1 else index) previous)
          (values @ take index previous @ (if map_of membership key = Some True then [key] else [])))"

definition updatePacked :: "nat \<Rightarrow> Authority option \<Rightarrow> Scope \<Rightarrow> rootState \<Rightarrow> string list \<Rightarrow> bool gomap \<Rightarrow> SetRoot" where
  "updatePacked fresh a scope st keys membership =
     (case packedChanges (rs_packed st) membership keys (int (length (rs_packed st)), False) of (count, changed) \<Rightarrow>
        if \<not> changed then Some st
        else if count = 0 then EmptySet a
        else Some (newPackedRootState fresh (pointer a) scope (packedMerge membership keys (rs_packed st) [])))"

fun updateMembers ::
  "nat \<Rightarrow> Authority option \<Rightarrow> Scope \<Rightarrow> bool gomap \<Rightarrow> string list \<Rightarrow> SetRoot \<Rightarrow> set_error + SetRoot" where
  "updateMembers fresh a scope membership [] r = Inr r"
| "updateMembers fresh a scope membership (key # keys) r =
     (case (if map_of membership key = Some True then Add fresh a scope r key else Delete fresh a scope r key) of
        Inl e \<Rightarrow> Inl e
      | Inr (r', _) \<Rightarrow> updateMembers (fresh + 1) a scope membership keys r')"

definition Update :: "nat \<Rightarrow> Authority option \<Rightarrow> Scope \<Rightarrow> SetRoot \<Rightarrow> bool gomap \<Rightarrow> set_error + SetRoot" where
  "Update fresh a scope r membership =
     (case ValidateOwnership a scope r of
        Inl e \<Rightarrow> Inl e
      | Inr st \<Rightarrow>
          if map_of membership [] \<noteq> None then Inl EmptyValue
          else if membership = [] then Inr r
          else let keys = sorted_keys membership in
            if rs_packed st \<noteq> [] then Inr (updatePacked fresh a scope st keys membership)
            else updateMembers fresh a scope membership keys r)"

end
