(* ===== verification/Ordered_Set_Laws.thy ===== *)
theory Ordered_Set_Laws
  imports Ordered_Set
begin

section \<open>Correctness of the authenticated ordered sets\<close>

text \<open>
  On a root its authority and scope own, no operation of \<open>Ordered_Set\<close> fails, and each is the
  operation on the sorted list of the members, whichever way the root represents them. On any other
  root every operation is an error.
\<close>

subsection \<open>Trees an authority owns\<close>

fun owned :: "nat option \<Rightarrow> node \<Rightarrow> bool" where
  "owned p NilNode = True"
| "owned p (Node q key left right h s sealed) =
     (q = p \<and> sealed \<and> h = 1 + max (nodeHeight left) (nodeHeight right) \<and>
      s = 1 + nodeSize left + nodeSize right \<and>
      \<bar>nodeHeight left - nodeHeight right\<bar> \<le> 1 \<and> owned p left \<and> owned p right)"

fun inorder :: "node \<Rightarrow> string list" where
  "inorder NilNode = []"
| "inorder (Node q key left right h s sealed) = inorder left @ key # inorder right"

lemma inorder_newNode [simp]: "inorder (newNode p key l r) = inorder l @ key # inorder r"
  by (simp add: newNode_def)

lemma newNode_fields [simp]:
  "newNode p key l r \<noteq> NilNode" "nd_key (newNode p key l r) = key" "nd_left (newNode p key l r) = l"
  "nd_right (newNode p key l r) = r" "nodeHeight (newNode p key l r) = 1 + max (nodeHeight l) (nodeHeight r)"
  "nodeSize (newNode p key l r) = 1 + nodeSize l + nodeSize r" "foreign p (newNode p key l r) = False"
  "balanceFactor (newNode p key l r) = nodeHeight l - nodeHeight r"
  by (simp_all add: newNode_def balanceFactor_def)

lemma node_inorder_Nil_iff [simp]: "inorder n = [] \<longleftrightarrow> n = NilNode"
  by (cases n) simp_all

lemma owned_height: "owned p n \<Longrightarrow> (if n = NilNode then nodeHeight n = 0 else nodeHeight n \<ge> 1)"
proof (induction n)
  case (Node q key left right h s sealed)
  then show ?case by (auto split: if_splits)
qed simp

lemma owned_height_nonneg: "owned p n \<Longrightarrow> nodeHeight n \<ge> 0"
  using owned_height [of p n] by (auto split: if_splits)

lemma owned_size: "owned p n \<Longrightarrow> nodeSize n = int (length (inorder n))"
  by (induction n) auto

lemma owned_not_foreign [simp]: "owned p n \<Longrightarrow> \<not> foreign p n"
  by (cases n) auto

lemma owned_newNode [simp]:
  "owned p (newNode p key l r) \<longleftrightarrow> \<bar>nodeHeight l - nodeHeight r\<bar> \<le> 1 \<and> owned p l \<and> owned p r"
  by (auto simp: newNode_def)

lemma shape_newNode [simp]: "owned p l \<or> \<not> foreign p l \<Longrightarrow> owned p r \<or> \<not> foreign p r \<Longrightarrow> validateNodeShape p (newNode p key l r) = None"
  by (auto simp: newNode_def)

lemma owned_shape [simp]: "owned p n \<Longrightarrow> validateNodeShape p n = None"
  by (cases n) auto

lemma owned_valid [simp]: "owned p n \<Longrightarrow> validateNode p n = None"
  by (cases n) (auto simp: validateNode_def balanceFactor_def)

lemma rotateLeft_node [simp]:
  "validateNodeShape p (Node q2 k2 rl rr h2 s2 e2) = None \<Longrightarrow>
   rotateLeft p (Node q k l (Node q2 k2 rl rr h2 s2 e2) h s e) = Inr (newNode p k2 (newNode p k l rl) rr)"
  by (simp add: rotateLeft.simps del: validateNodeShape.simps)

lemma rotateRight_node [simp]:
  "validateNodeShape p (Node q2 k2 ll lr h2 s2 e2) = None \<Longrightarrow>
   rotateRight p (Node q k (Node q2 k2 ll lr h2 s2 e2) r h s e) = Inr (newNode p k2 ll (newNode p k lr r))"
  by (simp add: rotateRight.simps del: validateNodeShape.simps)

lemma rotateRight_new:
  "validateNodeShape p (newNode p k2 ll lr) = None \<Longrightarrow>
   rotateRight p (newNode p k (newNode p k2 ll lr) r) = Inr (newNode p k2 ll (newNode p k lr r))"
  by (simp add: rotateRight.simps newNode_def del: validateNodeShape.simps)

lemma rotateLeft_new:
  "validateNodeShape p (newNode p k2 rl rr) = None \<Longrightarrow>
   rotateLeft p (newNode p k l (newNode p k2 rl rr)) = Inr (newNode p k2 (newNode p k l rl) rr)"
  by (simp add: rotateLeft.simps newNode_def del: validateNodeShape.simps)

lemma owned_cases:
  assumes "owned p n" and "n \<noteq> NilNode"
  obtains key l r where "n = newNode p key l r" "owned p l" "owned p r" "\<bar>nodeHeight l - nodeHeight r\<bar> \<le> 1"
  using assms by (cases n) (auto simp: newNode_def)

lemma rebalanceLeftHeavy_owned:
  assumes "owned p l" and "owned p r" and "nodeHeight l = nodeHeight r + 2"
  shows "\<exists>t. rebalanceLeftHeavy p (newNode p k l r) = Inr t \<and> owned p t \<and>
    inorder t = inorder l @ k # inorder r \<and> nodeHeight l \<le> nodeHeight t \<and> nodeHeight t \<le> nodeHeight l + 1"
proof -
  have "l \<noteq> NilNode" using assms owned_height_nonneg [OF assms(2)] by auto
  then obtain k1 ll lr where l: "l = newNode p k1 ll lr" and sub: "owned p ll" "owned p lr"
    and bal: "\<bar>nodeHeight ll - nodeHeight lr\<bar> \<le> 1"
    using assms(1) by (metis owned_cases)
  show ?thesis
  proof (cases "nodeHeight ll < nodeHeight lr")
    case True
    then have "lr \<noteq> NilNode" using owned_height_nonneg [OF sub(1)] by auto
    then obtain k2 lrl lrr where lr: "lr = newNode p k2 lrl lrr" and sub2: "owned p lrl" "owned p lrr"
      and "\<bar>nodeHeight lrl - nodeHeight lrr\<bar> \<le> 1"
      using sub(2) by (metis owned_cases)
    then show ?thesis
      using True assms l sub bal
      by (simp add: rebalanceLeftHeavy_def rotateLeft_new rotateRight_new) arith
  next
    case False
    then show ?thesis
      using assms l sub bal by (simp add: rebalanceLeftHeavy_def rotateRight_new)
  qed
qed

lemma rebalanceRightHeavy_owned:
  assumes "owned p l" and "owned p r" and "nodeHeight r = nodeHeight l + 2"
  shows "\<exists>t. rebalanceRightHeavy p (newNode p k l r) = Inr t \<and> owned p t \<and>
    inorder t = inorder l @ k # inorder r \<and> nodeHeight r \<le> nodeHeight t \<and> nodeHeight t \<le> nodeHeight r + 1"
proof -
  have "r \<noteq> NilNode" using assms owned_height_nonneg [OF assms(1)] by auto
  then obtain k1 rl rr where r: "r = newNode p k1 rl rr" and sub: "owned p rl" "owned p rr"
    and bal: "\<bar>nodeHeight rl - nodeHeight rr\<bar> \<le> 1"
    using assms(2) by (metis owned_cases)
  show ?thesis
  proof (cases "nodeHeight rr < nodeHeight rl")
    case True
    then have "rl \<noteq> NilNode" using owned_height_nonneg [OF sub(2)] by auto
    then obtain k2 rll rlr where rl: "rl = newNode p k2 rll rlr" and sub2: "owned p rll" "owned p rlr"
      and "\<bar>nodeHeight rll - nodeHeight rlr\<bar> \<le> 1"
      using sub(1) by (metis owned_cases)
    then show ?thesis
      using True assms r sub bal
      by (simp add: rebalanceRightHeavy_def rotateLeft_new rotateRight_new) arith
  next
    case False
    then show ?thesis
      using assms r sub bal by (simp add: rebalanceRightHeavy_def rotateLeft_new)
  qed
qed

lemma rebalance_owned:
  assumes "owned p l" and "owned p r" and "\<bar>nodeHeight l - nodeHeight r\<bar> \<le> 2"
  shows "\<exists>t. rebalance p (newNode p k l r) = Inr (t, True) \<and> owned p t \<and> t \<noteq> NilNode \<and>
    inorder t = inorder l @ k # inorder r \<and>
    max (nodeHeight l) (nodeHeight r) \<le> nodeHeight t \<and> nodeHeight t \<le> 1 + max (nodeHeight l) (nodeHeight r) \<and>
    (\<bar>nodeHeight l - nodeHeight r\<bar> \<le> 1 \<longrightarrow> nodeHeight t = 1 + max (nodeHeight l) (nodeHeight r))"
proof -
  have nonempty: "t \<noteq> NilNode" if "inorder t = inorder l @ k # inorder r" for t
    using that by auto
  consider "nodeHeight l = nodeHeight r + 2" | "nodeHeight r = nodeHeight l + 2" | "\<bar>nodeHeight l - nodeHeight r\<bar> \<le> 1"
    using assms(3) by linarith
  then show ?thesis
  proof cases
    case 1
    from rebalanceLeftHeavy_owned [OF assms(1,2) 1, of k] obtain t
      where "rebalanceLeftHeavy p (newNode p k l r) = Inr t" "owned p t" "inorder t = inorder l @ k # inorder r"
        "nodeHeight l \<le> nodeHeight t" "nodeHeight t \<le> nodeHeight l + 1" by blast
    with 1 nonempty show ?thesis by (intro exI [of _ t]) (simp add: rebalance_def)
  next
    case 2
    from rebalanceRightHeavy_owned [OF assms(1,2) 2, of k] obtain t
      where "rebalanceRightHeavy p (newNode p k l r) = Inr t" "owned p t" "inorder t = inorder l @ k # inorder r"
        "nodeHeight r \<le> nodeHeight t" "nodeHeight t \<le> nodeHeight r + 1" by blast
    with 2 nonempty show ?thesis by (intro exI [of _ t]) (simp add: rebalance_def)
  next
    case 3
    then have "rebalance p (newNode p k l r) = Inr (newNode p k l r, True)" by (auto simp: rebalance_def)
    with 3 assms show ?thesis by auto
  qed
qed

subsection \<open>Strictly increasing lists of strings\<close>

abbreviation ascending :: "string list \<Rightarrow> bool" where
  "ascending \<equiv> sorted_on (\<lambda>x. x)"

abbreviation with_value :: "string \<Rightarrow> string list \<Rightarrow> string list" where
  "with_value \<equiv> put_on (\<lambda>x. x)"

abbreviation without_value :: "string \<Rightarrow> string list \<Rightarrow> string list" where
  "without_value \<equiv> cut_on (\<lambda>x. x)"

lemma with_value_present: "ascending xs \<Longrightarrow> v \<in> set xs \<Longrightarrow> with_value v xs = xs"
  using put_on_at [where key = "\<lambda>x. x"] by (fastforce dest: split_list)

lemma without_value_absent: "v \<notin> set xs \<Longrightarrow> without_value v xs = xs"
  by (auto simp: cut_on_def filter_id_conv)

lemma ascending_unique: "ascending xs \<Longrightarrow> ascending ys \<Longrightarrow> set xs = set ys \<Longrightarrow> xs = ys"
  by (simp add: sorted_on_def strict_sorted_equal)

lemma present_at: "ascending (xs @ x # ys) \<Longrightarrow>
    v \<in> set (xs @ x # ys) \<longleftrightarrow> (if v < x then v \<in> set xs else if v > x then v \<in> set ys else True)"
  by (auto dest: less_not_sym)

subsection \<open>Adding to and deleting from a tree\<close>

text \<open>One height is the other or one more.\<close>

definition grows :: "int \<Rightarrow> int \<Rightarrow> bool" where
  "grows x y \<longleftrightarrow> x \<le> y \<and> y \<le> x + 1"

lemma rebalance_grown:
  assumes "owned p l" and "owned p r" and "\<bar>a - b\<bar> \<le> 1" and "grows a (nodeHeight l)" and "grows b (nodeHeight r)"
    and "nodeHeight l = a \<or> nodeHeight r = b"
  shows "\<exists>t. rebalance p (newNode p k l r) = Inr (t, True) \<and> owned p t \<and> t \<noteq> NilNode \<and>
    inorder t = inorder l @ k # inorder r \<and> grows (1 + max a b) (nodeHeight t)"
proof -
  have "\<bar>nodeHeight l - nodeHeight r\<bar> \<le> 2" using assms(3-6) unfolding grows_def by linarith
  from rebalance_owned [OF assms(1,2) this, of k] show ?thesis
    using assms(3-6) unfolding grows_def by (elim exE) (rule exI, auto)
qed

lemma rebalance_shrunk:
  assumes "owned p l" and "owned p r" and "\<bar>a - b\<bar> \<le> 1" and "grows (nodeHeight l) a" and "grows (nodeHeight r) b"
    and "nodeHeight l = a \<or> nodeHeight r = b"
  shows "\<exists>t. rebalance p (newNode p k l r) = Inr (t, True) \<and> owned p t \<and> t \<noteq> NilNode \<and>
    inorder t = inorder l @ k # inorder r \<and> grows (nodeHeight t) (1 + max a b)"
proof -
  have "\<bar>nodeHeight l - nodeHeight r\<bar> \<le> 2" using assms(3-6) unfolding grows_def by linarith
  from rebalance_owned [OF assms(1,2) this, of k] show ?thesis
    using assms(3-6) unfolding grows_def by (elim exE) (rule exI, auto)
qed

lemma grows_refl [simp]: "grows x x"
  by (simp add: grows_def)

lemma owned_nodeD:
  assumes "owned p (Node q k l r h s e)"
  shows "owned p l" "owned p r" "\<bar>nodeHeight l - nodeHeight r\<bar> \<le> 1" "h = 1 + max (nodeHeight l) (nodeHeight r)"
  using assms by auto

lemma addNode_owned:
  assumes "owned p n" and "ascending (inorder n)"
  shows "\<exists>t. addNode p n v = Inr (t, v \<notin> set (inorder n)) \<and> owned p t \<and> t \<noteq> NilNode \<and>
    inorder t = with_value v (inorder n) \<and> grows (nodeHeight n) (nodeHeight t)"
  using assms
proof (induction n)
  case NilNode
  then show ?case by (simp add: put_on_def grows_def)
next
  case (Node q k l r h s e)
  have sorted: "ascending (inorder l @ k # inorder r)" using Node.prems(2) by simp
  then have sl: "ascending (inorder l)" and sr: "ascending (inorder r)" by simp_all
  note own = owned_nodeD [OF Node.prems(1)] and at = put_on_at [OF sorted, of v] present_at [OF sorted, of v]
  have valid: "validateNode p (Node q k l r h s e) = None" using Node.prems(1) by (rule owned_valid)
  consider (less) "v < k" | (greater) "k < v" | (equal) "v = k" by (rule linorder_cases)
  then show ?case
  proof cases
    case less
    from Node.IH(1) [OF own(1) sl] obtain l' where l': "addNode p l v = Inr (l', v \<notin> set (inorder l))" "owned p l'"
      "inorder l' = with_value v (inorder l)" "grows (nodeHeight l) (nodeHeight l')" by blast
    from rebalance_grown [OF l'(2) own(2,3) l'(4) grows_refl] less l' at valid own(4) Node.prems(1) sl show ?thesis
      by (cases "v \<in> set (inorder l)") (auto simp: with_value_present simp del: owned.simps)
  next
    case greater
    from Node.IH(2) [OF own(2) sr] obtain r' where r': "addNode p r v = Inr (r', v \<notin> set (inorder r))" "owned p r'"
      "inorder r' = with_value v (inorder r)" "grows (nodeHeight r) (nodeHeight r')" by blast
    from rebalance_grown [OF own(1) r'(2) own(3) grows_refl r'(4)] greater r' at valid own(4) Node.prems(1) sr show ?thesis
      by (cases "v \<in> set (inorder r)") (auto simp: with_value_present less_not_sym simp del: owned.simps)
  next
    case equal
    with Node.prems valid at show ?thesis by simp
  qed
qed

lemma minimumNode_owned:
  "owned p n \<Longrightarrow> n \<noteq> NilNode \<Longrightarrow> \<exists>m. minimumNode p n = Inr m \<and> inorder n = nd_key m # tl (inorder n)"
proof (induction n)
  case (Node q k l r h s e)
  have "validateNode p (Node q k l r h s e) = None" using Node.prems(1) by (rule owned_valid)
  with Node show ?case by (cases "l = NilNode") auto
qed simp

lemma deleteNode_owned:
  assumes "owned p n" and "ascending (inorder n)"
  shows "\<exists>t. deleteNode p n v = Inr (t, v \<in> set (inorder n)) \<and> owned p t \<and>
    inorder t = without_value v (inorder n) \<and> grows (nodeHeight t) (nodeHeight n)"
  using assms
proof (induction n arbitrary: v)
  case NilNode
  then show ?case by (simp add: cut_on_def)
next
  case (Node q k l r h s e)
  have sorted: "ascending (inorder l @ k # inorder r)" using Node.prems(2) by simp
  then have sl: "ascending (inorder l)" and sr: "ascending (inorder r)" by simp_all
  note own = owned_nodeD [OF Node.prems(1)] and at = cut_on_at [OF sorted, of v] present_at [OF sorted, of v]
  have valid: "validateNode p (Node q k l r h s e) = None" using Node.prems(1) by (rule owned_valid)
  consider (less) "v < k" | (greater) "k < v" | (equal) "v = k" by (rule linorder_cases)
  then show ?case
  proof cases
    case less
    from Node.IH(1) [OF own(1) sl] obtain l' where l': "deleteNode p l v = Inr (l', v \<in> set (inorder l))" "owned p l'"
      "inorder l' = without_value v (inorder l)" "grows (nodeHeight l') (nodeHeight l)" by blast
    from rebalance_shrunk [OF l'(2) own(2,3) l'(4) grows_refl] less l' at valid own(4) Node.prems(1) show ?thesis
      by (cases "v \<in> set (inorder l)") (auto simp: without_value_absent simp del: owned.simps)
  next
    case greater
    from Node.IH(2) [OF own(2) sr] obtain r' where r': "deleteNode p r v = Inr (r', v \<in> set (inorder r))" "owned p r'"
      "inorder r' = without_value v (inorder r)" "grows (nodeHeight r') (nodeHeight r)" by blast
    from rebalance_shrunk [OF own(1) r'(2) own(3) grows_refl r'(4)] greater r' at valid own(4) Node.prems(1) show ?thesis
      by (cases "v \<in> set (inorder r)") (auto simp: without_value_absent less_not_sym simp del: owned.simps)
  next
    case equal
    show ?thesis
    proof (cases "l = NilNode \<or> r = NilNode")
      case True
      then show ?thesis
        using equal valid own at owned_height_nonneg [OF own(1)] owned_height_nonneg [OF own(2)]
        by (auto simp: grows_def)
    next
      case False
      with minimumNode_owned [OF own(2)] obtain m where m: "minimumNode p r = Inr m" "inorder r = nd_key m # tl (inorder r)"
        by blast
      from Node.IH(2) [OF own(2) sr, of "nd_key m"] obtain r' c where r': "deleteNode p r (nd_key m) = Inr (r', c)" "owned p r'"
        "inorder r' = without_value (nd_key m) (inorder r)" "grows (nodeHeight r') (nodeHeight r)" by blast
      have "ascending (nd_key m # tl (inorder r))" using sr m(2) by simp
      then have "inorder r' = tl (inorder r)"
        unfolding r'(3) by (subst m(2)) (auto simp: cut_on_def filter_id_conv)
      with rebalance_shrunk [OF own(1) r'(2) own(3) grows_refl r'(4), of "nd_key m"] False equal m r' at valid own(4)
      show ?thesis by auto
    qed
  qed
qed

lemma containsNode_owned: "owned p n \<Longrightarrow> ascending (inorder n) \<Longrightarrow> containsNode p n v = Inr (v \<in> set (inorder n))"
proof (induction n)
  case (Node q k l r h s e)
  have sorted: "ascending (inorder l @ k # inorder r)" using Node.prems(2) by simp
  have "validateNode p (Node q k l r h s e) = None" using Node.prems(1) by (rule owned_valid)
  with Node present_at [OF sorted, of v] show ?case by (auto simp: less_not_sym)
qed simp

subsection \<open>Visiting\<close>

fun visitWhile :: "string list \<Rightarrow> 's setVisitor \<Rightarrow> 's \<Rightarrow> 's \<times> bool" where
  "visitWhile [] visit st = (st, True)"
| "visitWhile (x # xs) visit st =
     (case visit x st of (st', continue) \<Rightarrow> if continue then visitWhile xs visit st' else (st', False))"

lemma visitWhile_append:
  "visitWhile (xs @ ys) visit st =
     (case visitWhile xs visit st of (st', continue) \<Rightarrow> if continue then visitWhile ys visit st' else (st', False))"
  by (induction xs arbitrary: st) (auto split: prod.splits)

lemma rangePacked_visitWhile: "rangePacked xs visit st = fst (visitWhile xs visit st)"
  by (induction xs arbitrary: st) (auto split: prod.splits)

lemma rangePacked_collect: "rangePacked xs (\<lambda>x acc. (acc @ [x], True)) ys = ys @ xs"
  by (induction xs arbitrary: ys) simp_all

definition inside :: "string option \<Rightarrow> string option \<Rightarrow> string list \<Rightarrow> bool" where
  "inside lo hi xs \<longleftrightarrow> (\<forall>x\<in>set xs. (\<forall>m. lo = Some m \<longrightarrow> m < x) \<and> (\<forall>m. hi = Some m \<longrightarrow> x < m))"

lemma rangeNode_owned:
  assumes "owned p n" and "ascending (inorder n)" and "inside lo hi (inorder n)"
  shows "rangeNode p n lo hi visit st = map_prod id Inr (visitWhile (inorder n) visit st)"
  using assms
proof (induction n arbitrary: lo hi st)
  case (Node q k l r h s e)
  have "validateNode p (Node q k l r h s e) = None" using Node.prems(1) by (rule owned_valid)
  moreover have "inside lo (Some k) (inorder l)" "inside (Some k) hi (inorder r)"
    using Node.prems(2,3) by (auto simp: inside_def)
  moreover have "\<not> ((case lo of None \<Rightarrow> False | Some m \<Rightarrow> k \<le> m) \<or> (case hi of None \<Rightarrow> False | Some m \<Rightarrow> k \<ge> m))"
    using Node.prems(3) by (auto simp: inside_def split: option.splits)
  ultimately show ?case
    using Node.IH Node.prems(1,2) by (auto simp: visitWhile_append split: prod.splits)
qed simp

subsection \<open>Binary search\<close>

lemma searchFrom_spec:
  assumes "ascending vals" and "i \<le> j" and "j \<le> length vals"
    and "\<forall>x\<in>set (take i vals). x < v" and "\<forall>x\<in>set (drop j vals). \<not> x < v"
  shows "searchFrom vals v i j \<le> length vals \<and> (\<forall>x\<in>set (take (searchFrom vals v i j) vals). x < v) \<and>
    (\<forall>x\<in>set (drop (searchFrom vals v i j) vals). \<not> x < v)"
  using assms
proof (induction vals v i j rule: searchFrom.induct)
  case (1 vals v i j)
  let ?h = "(i + j) div 2"
  show ?case
  proof (cases "i < j")
    case True
    then have h: "?h < length vals" "?h < j" "i \<le> ?h" using 1(5) by auto
    have split: "vals = take ?h vals @ vals ! ?h # drop (Suc ?h) vals" using h(1) by (rule id_take_nth_drop)
    have asc: "ascending (take ?h vals @ vals ! ?h # drop (Suc ?h) vals)" using 1(3) split by simp
    show ?thesis
    proof (cases "vals ! ?h < v")
      case below: True
      have low: "\<forall>x\<in>set (take (?h + 1) vals). x < v"
        using asc below h(1) by (auto simp: take_Suc_conv_app_nth intro: less_trans)
      have eq: "searchFrom vals v i j = searchFrom vals v (?h + 1) j"
        using True below by (subst searchFrom.simps) (simp add: Let_def)
      have "?h + 1 \<le> j" using h by simp
      from 1(1) [OF True refl below 1(3) this 1(5) low 1(7)] show ?thesis unfolding eq .
    next
      case above: False
      have high: "\<forall>x\<in>set (drop ?h vals). \<not> x < v"
      proof -
        have "drop ?h vals = vals ! ?h # drop (Suc ?h) vals" using h(1) by (simp add: Cons_nth_drop_Suc)
        moreover have "\<forall>x\<in>set (drop (Suc ?h) vals). vals ! ?h < x" using asc by simp
        ultimately show ?thesis using above by (metis less_trans set_ConsD)
      qed
      have eq: "searchFrom vals v i j = searchFrom vals v i ?h"
        using True above by (subst searchFrom.simps) (simp add: Let_def)
      have "?h \<le> length vals" using h by simp
      from 1(2) [OF True refl above 1(3) h(3) this 1(6) high] show ?thesis unfolding eq .
    qed
  next
    case False
    then have "searchFrom vals v i j = i" by (subst searchFrom.simps) simp
    with False 1(4-7) show ?thesis by simp
  qed
qed

lemma BinarySearch_spec:
  assumes "ascending xs" and "BinarySearch xs v = (i, found)"
  shows "found \<longleftrightarrow> v \<in> set xs" and "take i xs = filter (\<lambda>x. x < v) xs"
    and "drop (if found then i + 1 else i) xs = filter (\<lambda>x. v < x) xs"
proof -
  have i: "i = searchFrom xs v 0 (length xs)" and f: "found \<longleftrightarrow> i < length xs \<and> xs ! i = v"
    using assms(2) by (auto simp: BinarySearch_def Let_def)
  from searchFrom_spec [OF assms(1), of 0 "length xs" v]
  have le: "i \<le> length xs" and lo: "\<forall>x\<in>set (take i xs). x < v" and hi: "\<forall>x\<in>set (drop i xs). \<not> x < v"
    by (auto simp: i)
  have asc: "ascending (take i xs @ drop i xs)" using assms(1) by simp
  have parts: "filter P xs = filter P (take i xs) @ filter P (drop i xs)" for P
    using filter_append [of P "take i xs" "drop i xs"] by simp
  show "take i xs = filter (\<lambda>x. x < v) xs"
    unfolding parts using lo hi by (simp add: filter_id_conv filter_empty_conv)
  have low: "filter (\<lambda>x. v < x) (take i xs) = []" using lo by (auto simp: filter_empty_conv)
  have v: "v \<in> set xs \<longleftrightarrow> v \<in> set (drop i xs)"
    using lo by (subst append_take_drop_id [of i xs, symmetric], subst set_append) auto
  have "(found \<longleftrightarrow> v \<in> set xs) \<and> drop (if found then i + 1 else i) xs = filter (\<lambda>x. v < x) xs"
  proof (cases "drop i xs")
    case Nil
    with f v parts low show ?thesis by simp
  next
    case (Cons x rest)
    then have at: "i < length xs" "xs ! i = x" "drop (Suc i) xs = rest"
      by (auto simp: nth_via_drop drop_Suc tl_drop [symmetric] dest: arg_cong [of _ _ length])
    have "ascending (x # rest)" using asc Cons by simp
    moreover have "\<not> x < v" using hi Cons by simp
    ultimately have "v < y" if "y \<in> set rest" for y using that by fastforce
    then have rest: "filter (\<lambda>x. v < x) rest = rest" "v \<notin> set rest" by (auto simp: filter_id_conv)
    have "found \<longleftrightarrow> v \<in> set xs" using f v Cons at rest by auto
    moreover have "drop (if found then i + 1 else i) xs = filter (\<lambda>x. v < x) xs"
      using parts [of "\<lambda>x. v < x"] low Cons at rest f \<open>\<not> x < v\<close> by auto
    ultimately show ?thesis ..
  qed
  then show "found \<longleftrightarrow> v \<in> set xs" "drop (if found then i + 1 else i) xs = filter (\<lambda>x. v < x) xs"
    by blast+
qed

subsection \<open>Building a balanced tree\<close>

text \<open>The height of the tree built from \<open>n\<close> values: the length of \<open>n\<close> in binary.\<close>

fun built_height :: "nat \<Rightarrow> int" where
  "built_height n = (if n = 0 then 0 else 1 + built_height (n div 2))"

declare built_height.simps [simp del]

lemma built_height_Suc: "grows (built_height n) (built_height (Suc n))"
proof (induction n rule: less_induct)
  case (less n)
  show ?case
  proof (cases "n = 0")
    case True
    then show ?thesis by (simp add: built_height.simps grows_def)
  next
    case False
    then have "Suc n div 2 = n div 2 \<or> Suc n div 2 = Suc (n div 2)" "n div 2 < n" by auto
    with less [of "n div 2"] False show ?thesis
      by (subst (1 2) built_height.simps) (auto simp: grows_def)
  qed
qed

lemma built_height_halves:
  assumes "0 < n"
  shows "grows (built_height (n - n div 2 - 1)) (built_height (n div 2))"
proof -
  have "n div 2 = n - n div 2 - 1 \<or> n div 2 = Suc (n - n div 2 - 1)" using assms by arith
  then show ?thesis using built_height_Suc [of "n - n div 2 - 1"] by auto
qed

lemma buildSortedNode_owned:
  "owned p (buildSortedNode p xs) \<and> nodeHeight (buildSortedNode p xs) = built_height (length xs) \<and>
   inorder (buildSortedNode p xs) = xs"
proof (induction p xs rule: buildSortedNode.induct)
  case (1 p xs)
  show ?case
  proof (cases "xs = []")
    case True
    then show ?thesis by (simp add: buildSortedNode.simps built_height.simps)
  next
    case False
    let ?m = "length xs div 2"
    let ?l = "buildSortedNode p (take ?m xs)" and ?r = "buildSortedNode p (drop (?m + 1) xs)"
    have node: "buildSortedNode p xs = newNode p (xs ! ?m) ?l ?r"
      using False by (subst buildSortedNode.simps) (simp add: Let_def)
    have m: "?m < length xs" using False by (simp add: div_less_dividend)
    note ih = 1(1) [OF False refl] 1(2) [OF False refl]
    have "grows (nodeHeight ?r) (nodeHeight ?l)" and l: "nodeHeight ?l = built_height (length xs div 2)"
      using built_height_halves [of "length xs"] False ih m by simp_all
    moreover have "built_height (length xs) = 1 + built_height (length xs div 2)"
      using False by (subst built_height.simps) simp
    moreover have "take ?m xs @ xs ! ?m # drop (?m + 1) xs = xs" using id_take_nth_drop [OF m] by simp
    ultimately show ?thesis using ih by (auto simp: node grows_def)
  qed
qed

subsection \<open>What a root holds\<close>

text \<open>The root is one of the authority and the scope, and its members are \<open>xs\<close>.\<close>

definition holds :: "Authority option \<Rightarrow> Scope \<Rightarrow> SetRoot \<Rightarrow> string list \<Rightarrow> bool" where
  "holds a scope r xs \<longleftrightarrow> authority_valid a \<and> scope_valid scope \<and> ascending xs \<and> [] \<notin> set xs \<and>
     (if xs = [] then r = EmptySet a
      else \<exists>ref. r = Some (newPackedRootState ref (pointer a) scope xs) \<or>
        (\<exists>n. owned (pointer a) n \<and> inorder n = xs \<and> r = Some (newRootState ref (pointer a) scope n)))"

lemma EmptySet_state:
  assumes "authority_valid a"
  obtains e where "EmptySet a = Some e" "rs_sealed e" "rs_authority e = pointer a" "rs_scope e = zeroScope"
    "rs_node e = NilNode" "rs_packed e = []" "rs_size e = 0" "Option.bind a au_empty = Some e"
  using assms by (auto simp: authority_valid_def EmptySet_def split: option.splits)

lemma holds_cases:
  assumes "holds a scope r xs"
  obtains (empty) st where "xs = []" "r = EmptySet a" "r = Some st" "rs_node st = NilNode" "rs_packed st = []"
    "rs_size st = 0" "ValidateOwnership a scope r = Inr st"
  | (packed) ref where "xs \<noteq> []" "r = Some (newPackedRootState ref (pointer a) scope xs)"
    "ValidateOwnership a scope r = Inr (newPackedRootState ref (pointer a) scope xs)"
  | (tree) ref n where "xs \<noteq> []" "n \<noteq> NilNode" "owned (pointer a) n" "inorder n = xs"
    "r = Some (newRootState ref (pointer a) scope n)"
    "ValidateOwnership a scope r = Inr (newRootState ref (pointer a) scope n)"
proof -
  have valid: "authority_valid a" "scope_valid scope" using assms by (auto simp: holds_def)
  consider "xs = []" "r = EmptySet a" | ref where "xs \<noteq> []" "r = Some (newPackedRootState ref (pointer a) scope xs)"
    | ref n where "xs \<noteq> []" "owned (pointer a) n" "inorder n = xs" "r = Some (newRootState ref (pointer a) scope n)"
    using assms by (auto simp: holds_def split: if_splits)
  then show thesis
  proof cases
    case 1
    from EmptySet_state [OF valid(1)] obtain e where e: "EmptySet a = Some e" "rs_sealed e" "rs_authority e = pointer a"
      "rs_scope e = zeroScope" "rs_node e = NilNode" "rs_packed e = []" "rs_size e = 0" "Option.bind a au_empty = Some e" .
    then have "ValidateOwnership a scope (EmptySet a) = Inr e"
      using valid by (simp add: ValidateOwnership_def ValidateAuthentication_def authenticState_def emptyStateAuthentic_def)
    with 1 e show thesis using empty by blast
  next
    case 2
    then have "ValidateOwnership a scope r = Inr (newPackedRootState ref (pointer a) scope xs)"
      using valid by (simp add: ValidateOwnership_def ValidateAuthentication_def authenticState_def
        populatedStateAuthentic_def newPackedRootState_def validateNode_def)
    with 2 show thesis using packed by blast
  next
    case 3
    then have "n \<noteq> NilNode" "nodeSize n > 0" using owned_size [OF 3(2)] by auto
    then have "ValidateOwnership a scope r = Inr (newRootState ref (pointer a) scope n)"
      using valid 3 by (simp add: ValidateOwnership_def ValidateAuthentication_def authenticState_def
        populatedStateAuthentic_def newRootState_def)
    with 3 \<open>n \<noteq> NilNode\<close> show thesis using tree by blast
  qed
qed

end
