(* ===== verification/Ordered_Set_Roots.thy ===== *)
theory Ordered_Set_Roots
  imports Ordered_Set_Laws
begin

section \<open>Roots of ordered sets implement sorted sets of strings\<close>

text \<open>
  The interface of a set of strings as a locale, its interpretation on the trees and on the roots of
  \<open>Ordered_Set\<close>, and the properties of the operations on roots.
\<close>

subsection \<open>The interface\<close>

text \<open>
  A script of edits: \<open>(True, v)\<close> adds \<open>v\<close>, \<open>(False, v)\<close> deletes it. The number is the address of the
  next object an operation allocates; the answers are whether each edit changed the set.
\<close>

type_synonym edits = "(bool \<times> string) list"

fun runEdits :: "(nat \<Rightarrow> 't \<Rightarrow> string \<Rightarrow> 'e + 't \<times> bool) \<Rightarrow> (nat \<Rightarrow> 't \<Rightarrow> string \<Rightarrow> 'e + 't \<times> bool) \<Rightarrow>
    nat \<Rightarrow> edits \<Rightarrow> 't \<Rightarrow> 'e + 't \<times> bool list" where
  "runEdits add remove fresh [] t = Inr (t, [])"
| "runEdits add remove fresh ((adds, v) # edits) t =
     (case (if adds then add fresh t v else remove fresh t v) of
        Inl e \<Rightarrow> Inl e
      | Inr (t', changed) \<Rightarrow> map_sum id (apsnd (Cons changed)) (runEdits add remove (fresh + 1) edits t'))"

fun editList :: "edits \<Rightarrow> string list \<Rightarrow> string list \<times> bool list" where
  "editList [] xs = (xs, [])"
| "editList ((adds, v) # edits) xs =
     apsnd (Cons (adds = (v \<notin> set xs))) (editList edits (if adds then with_value v xs else without_value v xs))"

locale string_set =
  fixes rep :: "'t \<Rightarrow> string list \<Rightarrow> bool"
    and add :: "nat \<Rightarrow> 't \<Rightarrow> string \<Rightarrow> 'e + 't \<times> bool"
    and remove :: "nat \<Rightarrow> 't \<Rightarrow> string \<Rightarrow> 'e + 't \<times> bool"
  assumes add: "rep t xs \<Longrightarrow> v \<noteq> [] \<Longrightarrow> \<exists>t'. add n t v = Inr (t', v \<notin> set xs) \<and> rep t' (with_value v xs)"
    and remove: "rep t xs \<Longrightarrow> \<exists>t'. remove n t v = Inr (t', v \<in> set xs) \<and> rep t' (without_value v xs)"
begin

lemma run_edits:
  assumes "rep t xs" and "\<forall>(adds, v)\<in>set edits. adds \<longrightarrow> v \<noteq> []"
  shows "\<exists>t'. runEdits add remove fresh edits t = Inr (t', snd (editList edits xs)) \<and> rep t' (fst (editList edits xs))"
  using assms
proof (induction edits arbitrary: fresh t xs)
  case (Cons x edits)
  obtain adds v where x: "x = (adds, v)" by (cases x)
  obtain t1 where t1: "(if adds then add fresh t v else remove fresh t v) = Inr (t1, adds = (v \<notin> set xs))"
    "rep t1 (if adds then with_value v xs else without_value v xs)"
    using add [OF Cons.prems(1), of v fresh] remove [OF Cons.prems(1), of fresh v] Cons.prems(2) x by (cases adds) auto
  from Cons.IH [OF t1(2), of "fresh + 1"] Cons.prems(2) t1(1) show ?case by (auto simp: x)
qed simp

end

interpretation nodes: string_set "\<lambda>n xs. owned p n \<and> ascending xs \<and> inorder n = xs"
    "\<lambda>_. addNode p" "\<lambda>_. deleteNode p" for p
proof unfold_locales
  fix n :: node and xs v
  assume "owned p n \<and> ascending xs \<and> inorder n = xs"
  then show "\<exists>t'. addNode p n v = Inr (t', v \<notin> set xs) \<and> owned p t' \<and> ascending (with_value v xs) \<and>
      inorder t' = with_value v xs" if "v \<noteq> []"
    using addNode_owned [of p n v] by auto
  from \<open>owned p n \<and> ascending xs \<and> inorder n = xs\<close>
  show "\<exists>t'. deleteNode p n v = Inr (t', v \<in> set xs) \<and> owned p t' \<and> ascending (without_value v xs) \<and>
      inorder t' = without_value v xs"
    using deleteNode_owned [of p n v] by auto
qed

subsection \<open>Operations on a root\<close>

lemma holdsD:
  assumes "holds a scope r xs"
  shows "authority_valid a" "scope_valid scope" "ascending xs" "[] \<notin> set xs"
  using assms by (auto simp: holds_def)

lemma holds_empty: "authority_valid a \<Longrightarrow> scope_valid scope \<Longrightarrow> holds a scope (EmptySet a) []"
  by (simp add: holds_def)

lemma holds_packed:
  assumes "authority_valid a" and "scope_valid scope" and "ascending xs" and "[] \<notin> set xs" and "xs \<noteq> []"
  shows "holds a scope (Some (newPackedRootState ref (pointer a) scope xs)) xs"
  using assms by (auto simp: holds_def)

lemma holds_tree:
  assumes "authority_valid a" and "scope_valid scope" and "owned (pointer a) n" and "ascending (inorder n)"
    and "[] \<notin> set (inorder n)" and "n \<noteq> NilNode"
  shows "holds a scope (Some (newRootState ref (pointer a) scope n)) (inorder n)"
  using assms by (auto simp: holds_def)

lemma take_put: "ascending xs \<Longrightarrow> BinarySearch xs v = (i, False) \<Longrightarrow> take i xs @ v # drop i xs = with_value v xs"
  using BinarySearch_spec [of xs v i False] by (simp add: put_on_def)

lemma without_value_sides: "ascending xs \<Longrightarrow> filter (\<lambda>x. x < v) xs @ filter (\<lambda>x. v < x) xs = without_value v xs"
  by (rule ascending_unique) (auto intro: less_trans)

lemma take_cut: "ascending xs \<Longrightarrow> BinarySearch xs v = (i, True) \<Longrightarrow> take i xs @ drop (i + 1) xs = without_value v xs"
  using BinarySearch_spec [of xs v i True] by (simp add: without_value_sides)

lemma Add_holds:
  assumes "holds a scope r xs" and "v \<noteq> []"
  shows "\<exists>r'. Add fresh a scope r v = Inr (r', v \<notin> set xs) \<and> holds a scope r' (with_value v xs)"
proof -
  note facts = holdsD [OF assms(1)]
  have put: "ascending (with_value v xs)" "[] \<notin> set (with_value v xs)" "with_value v xs \<noteq> []"
    using facts assms(2) by (auto simp: put_on_def)
  from assms(1) show ?thesis
  proof (cases rule: holds_cases)
    case (empty st)
    then show ?thesis
      using assms(2) put holds_tree [OF facts(1,2), of "newNode (pointer a) v NilNode NilNode" fresh]
      by (simp add: Add_def put_on_def)
  next
    case (packed ref)
    obtain i found where search: "BinarySearch xs v = (i, found)" by fastforce
    show ?thesis
      using packed assms facts put search BinarySearch_spec(1) [OF facts(3) search] holds_packed [OF facts(1,2) put]
      by (cases found) (auto simp: Add_def newPackedRootState_def take_put with_value_present)
  next
    case (tree ref n)
    from addNode_owned [OF tree(3), of v] tree(4) facts(3) obtain t
      where t: "addNode (pointer a) n v = Inr (t, v \<notin> set xs)" "owned (pointer a) t" "t \<noteq> NilNode"
        "inorder t = with_value v xs" by auto
    with holds_tree [OF facts(1,2) t(2)] put tree assms facts show ?thesis
      by (cases "v \<in> set xs") (auto simp: Add_def newRootState_def with_value_present)
  qed
qed

lemma Delete_holds:
  assumes "holds a scope r xs"
  shows "\<exists>r'. Delete fresh a scope r v = Inr (r', v \<in> set xs) \<and> holds a scope r' (without_value v xs)"
proof -
  note facts = holdsD [OF assms(1)]
  have cut: "ascending (without_value v xs)" "[] \<notin> set (without_value v xs)" using facts by auto
  from assms(1) show ?thesis
  proof (cases rule: holds_cases)
    case (empty st)
    then show ?thesis using assms by (simp add: Delete_def cut_on_def)
  next
    case (packed ref)
    obtain i found where search: "BinarySearch xs v = (i, found)" by fastforce
    note spec = BinarySearch_spec(1) [OF facts(3) search]
    have one: "length xs = 1 \<longleftrightarrow> without_value v xs = []" if found
    proof -
      have "find_on (\<lambda>x. x) v xs \<noteq> None" using that spec by (auto simp: find_on_None_iff)
      with length_cut_on [OF facts(3), of v] have "length (without_value v xs) = length xs - 1" by simp
      moreover have "0 < length xs" using packed(1) by simp
      ultimately show ?thesis by (simp only: length_0_conv [symmetric]) arith
    qed
    show ?thesis
      using packed assms facts cut search spec one holds_packed [OF facts(1,2) cut] holds_empty [OF facts(1,2)]
        take_cut [OF facts(3), of v i]
      by (cases found) (auto simp: Delete_def newPackedRootState_def without_value_absent)
  next
    case (tree ref n)
    from deleteNode_owned [OF tree(3), of v] tree(4) facts(3) obtain t
      where t: "deleteNode (pointer a) n v = Inr (t, v \<in> set xs)" "owned (pointer a) t"
        "inorder t = without_value v xs" by auto
    with holds_tree [OF facts(1,2) t(2)] cut tree assms facts holds_empty [OF facts(1,2)] show ?thesis
      by (cases "v \<in> set xs"; cases "t = NilNode") (auto simp: Delete_def newRootState_def without_value_absent)
  qed
qed

interpretation roots: string_set "holds a scope" "\<lambda>fresh. Add fresh a scope" "\<lambda>fresh. Delete fresh a scope" for a scope
  by unfold_locales (rule Add_holds Delete_holds, assumption+)+

lemma Contains_holds:
  assumes "holds a scope r xs"
  shows "Contains a scope r v = Inr (v \<in> set xs)"
  using assms
proof (cases rule: holds_cases)
  case (packed ref)
  obtain i found where search: "BinarySearch xs v = (i, found)" by fastforce
  with packed BinarySearch_spec(1) [OF holdsD(3) [OF assms] search] show ?thesis
    by (simp add: Contains_def newPackedRootState_def)
next
  case (tree ref n)
  with containsNode_owned [OF tree(3)] holdsD(3) [OF assms] show ?thesis
    by (simp add: Contains_def newRootState_def)
qed (simp add: Contains_def)

lemma SetLen_holds: "holds a scope r xs \<Longrightarrow> SetLen a scope r = Inr (int (length xs))"
  by (erule holds_cases) (auto simp: SetLen_def newPackedRootState_def newRootState_def owned_size)

lemma Range_holds:
  assumes "holds a scope r xs"
  shows "Range a scope r visit s = (rangePacked xs visit s, None)"
  using assms
proof (cases rule: holds_cases)
  case (tree ref n)
  have "inside None None (inorder n)" by (simp add: inside_def)
  with rangeNode_owned [OF tree(3) _ this, of visit s] tree holdsD(3) [OF assms] show ?thesis
    by (cases "visitWhile xs visit s") (simp add: Range_def newRootState_def rangePacked_visitWhile)
qed (simp_all add: Range_def newPackedRootState_def)

lemma Values_holds: "holds a scope r xs \<Longrightarrow> Values a scope r = Inr xs"
  by (simp add: Values_def SetLen_holds Range_holds rangePacked_collect)

subsection \<open>Scripts of edits on sorted lists\<close>

lemma editList_append:
  assumes "\<forall>(adds, v)\<in>set edits. \<forall>x\<in>set xs. x < v"
  shows "editList edits (xs @ ys) = apfst ((@) xs) (editList edits ys)"
  using assms
proof (induction edits arbitrary: ys)
  case (Cons e edits)
  obtain adds v where e: "e = (adds, v)" by (cases e)
  have less: "\<forall>x\<in>set xs. x < v" using Cons.prems e by auto
  then have "with_value v (xs @ ys) = xs @ with_value v ys" "without_value v (xs @ ys) = xs @ without_value v ys"
    "v \<notin> set xs"
    by (auto simp: put_on_def cut_on_def filter_key_sides filter_id_conv)
  moreover have "apsnd f (apfst g p) = apfst g (apsnd f p)" for f g and p :: "string list \<times> bool list"
    by (cases p) simp
  ultimately show ?case using Cons by (simp add: e)
qed simp

lemma ascending_editList: "ascending xs \<Longrightarrow> ascending (fst (editList edits xs))"
  by (induction edits xs rule: editList.induct) auto

lemma editList_unchanged:
  "ascending xs \<Longrightarrow> True \<notin> set (snd (editList edits xs)) \<Longrightarrow> fst (editList edits xs) = xs"
proof (induction edits xs rule: editList.induct)
  case (2 adds v edits xs)
  then show ?case by (cases adds) (auto simp: with_value_present without_value_absent)
qed simp

text \<open>The script of an update, and what it does to the members.\<close>

definition assignments :: "bool gomap \<Rightarrow> string list \<Rightarrow> edits" where
  "assignments membership keys = map (\<lambda>k. (map_of membership k = Some True, k)) keys"

lemma assignments_simps [simp]:
  "assignments m [] = []" "assignments m (k # ks) = (map_of m k = Some True, k) # assignments m ks"
  "set (assignments m ks) = (\<lambda>k. (map_of m k = Some True, k)) ` set ks"
  by (simp_all add: assignments_def)

lemma set_assignments:
  "distinct keys \<Longrightarrow> set (fst (editList (assignments m keys) xs)) =
     {x. if x \<in> set keys then map_of m x = Some True else x \<in> set xs}"
  by (induction keys arbitrary: xs) auto

lemma updateMembers_runEdits:
  "updateMembers fresh a scope m keys r =
     map_sum id fst (runEdits (\<lambda>f. Add f a scope) (\<lambda>f. Delete f a scope) fresh (assignments m keys) r)"
  by (induction keys arbitrary: fresh r) (auto split: sum.split simp: sum.map_comp o_def id_def)

lemma packedChanges_spec:
  assumes "ascending packed" and "distinct keys" and "ascending xs" and "\<forall>k\<in>set keys. k \<in> set packed \<longleftrightarrow> k \<in> set xs"
  shows "packedChanges packed m keys (count, changed) =
    (count + int (length (fst (editList (assignments m keys) xs))) - int (length xs),
     changed \<or> True \<in> set (snd (editList (assignments m keys) xs)))"
  using assms(2-)
proof (induction keys arbitrary: xs count changed)
  case (Cons k keys)
  let ?adds = "map_of m k = Some True"
  let ?ys = "if ?adds then with_value k xs else without_value k xs"
  have present: "snd (BinarySearch packed k) \<longleftrightarrow> k \<in> set xs"
    using BinarySearch_spec(1) [OF assms(1)] Cons.prems(3) by (metis list.set_intros(1) prod.collapse)
  have ys: "ascending ?ys" "\<forall>j\<in>set keys. j \<in> set packed \<longleftrightarrow> j \<in> set ?ys"
    using Cons.prems by auto
  have "find_on (\<lambda>x. x) k xs = None \<longleftrightarrow> k \<notin> set xs" by (auto simp: find_on_None_iff)
  moreover have "k \<in> set xs \<Longrightarrow> int (length xs - Suc 0) = int (length xs) - 1" by (cases xs) auto
  ultimately have length: "int (length ?ys) = (if (k \<in> set xs) = ?adds then int (length xs)
      else if k \<in> set xs then int (length xs) - 1 else int (length xs) + 1)"
    using length_put_on [OF Cons.prems(2), of k] length_cut_on [OF Cons.prems(2), of k] by auto
  show ?case
    using Cons.IH [OF _ ys] Cons.prems(1) present length by (auto simp: Let_def)
qed simp

lemma packedMerge_spec:
  assumes "ascending keys" and "ascending previous"
  shows "packedMerge m keys previous vals = vals @ fst (editList (assignments m keys) previous)"
  using assms
proof (induction keys arbitrary: previous vals)
  case (Cons k keys)
  obtain i found where search: "BinarySearch previous k = (i, found)" by fastforce
  let ?lo = "filter (\<lambda>x. x < k) previous" and ?hi = "filter (\<lambda>x. k < x) previous"
  let ?mid = "?lo @ (if map_of m k = Some True then [k] else [])"
  note spec = BinarySearch_spec [OF Cons.prems(2) search]
  have "(if map_of m k = Some True then with_value k previous else without_value k previous) = ?mid @ ?hi"
    using without_value_sides [OF Cons.prems(2), of k] by (simp add: put_on_def)
  moreover have "\<forall>(adds, v)\<in>set (assignments m keys). \<forall>x\<in>set ?mid. x < v"
    using Cons.prems(1) by (auto intro: less_trans)
  ultimately have "editList (assignments m (k # keys)) previous =
      apsnd (Cons ((map_of m k = Some True) = (k \<notin> set previous))) (apfst ((@) ?mid) (editList (assignments m keys) ?hi))"
    by (simp only: assignments_simps editList.simps editList_append)
  moreover have "packedMerge m (k # keys) previous vals = packedMerge m keys ?hi (vals @ ?mid)"
    using search spec(2,3) by simp
  ultimately show ?case using Cons by simp
qed simp

subsection \<open>Updating and building roots\<close>

lemma sorted_keys_ascending: "ascending (sorted_keys m)"
  by (simp add: sorted_on_def strict_sorted_iff)

lemma updatePacked_holds:
  assumes "holds a scope (Some st) xs" and "rs_packed st = xs" and "[] \<notin> set (fst (editList (assignments m (sorted_keys m)) xs))"
  shows "holds a scope (updatePacked fresh a scope st (sorted_keys m) m) (fst (editList (assignments m (sorted_keys m)) xs))"
proof -
  note facts = holdsD [OF assms(1)]
  let ?ys = "fst (editList (assignments m (sorted_keys m)) xs)"
  have ys: "ascending ?ys" using facts(3) by (rule ascending_editList)
  have "packedChanges xs m (sorted_keys m) (int (length xs), False) =
      (int (length ?ys), True \<in> set (snd (editList (assignments m (sorted_keys m)) xs)))"
    using packedChanges_spec [OF facts(3) distinct_sorted_keys [of m] facts(3), where m = m and changed = False and count = "int (length xs)"]
    by simp
  moreover have "packedMerge m (sorted_keys m) xs [] = ?ys"
    using packedMerge_spec [OF sorted_keys_ascending [of m] facts(3), where m = m and vals = "[]"] by simp
  ultimately show ?thesis
    using assms facts ys editList_unchanged [OF facts(3)] holds_empty [OF facts(1,2)] holds_packed [OF facts(1,2) ys assms(3)]
    by (auto simp: updatePacked_def)
qed

lemma Update_holds:
  assumes "holds a scope r xs" and "map_of m [] = None"
  shows "\<exists>r'. Update fresh a scope r m = Inr r' \<and> holds a scope r' (fst (editList (assignments m (sorted_keys m)) xs))"
proof -
  have blank: "[] \<notin> set (sorted_keys m)" using assms(2) by (simp add: domIff)
  have set: "set (fst (editList (assignments m (sorted_keys m)) xs)) =
      {x. if x \<in> dom (map_of m) then map_of m x = Some True else x \<in> set xs}"
    using set_assignments [OF distinct_sorted_keys [of m], where m = m and xs = xs] by simp
  have nonblank: "[] \<notin> set (fst (editList (assignments m (sorted_keys m)) xs))"
    unfolding set using assms(2) holdsD(4) [OF assms(1)] by (simp add: domIff)
  have "\<forall>(adds, v)\<in>set (assignments m (sorted_keys m)). adds \<longrightarrow> v \<noteq> []" using blank by auto
  note script = roots.run_edits [OF assms(1) this, of fresh]
  have empty: "m = [] \<Longrightarrow> fst (editList (assignments m (sorted_keys m)) xs) = xs" by (simp add: sorted_keys_def)
  show ?thesis
    using assms(1)
  proof (cases rule: holds_cases)
    case (empty st)
    with script assms \<open>m = [] \<Longrightarrow> _\<close> show ?thesis
      by (auto simp: Update_def updateMembers_runEdits Let_def)
  next
    case (packed ref)
    with updatePacked_holds [of a scope "newPackedRootState ref (pointer a) scope xs" xs m fresh] assms nonblank
      \<open>m = [] \<Longrightarrow> _\<close> show ?thesis
      by (auto simp: Update_def Let_def newPackedRootState_def)
  next
    case (tree ref n)
    with script assms \<open>m = [] \<Longrightarrow> _\<close> show ?thesis
      by (auto simp: Update_def updateMembers_runEdits Let_def newRootState_def)
  qed
qed

lemma validateSortedValues_iff:
  "validateSortedValues prev xs = None \<longleftrightarrow>
     [] \<notin> set xs \<and> ascending xs \<and> (\<forall>p. prev = Some p \<longrightarrow> (\<forall>x\<in>set xs. p < x))"
proof (induction prev xs rule: validateSortedValues.induct)
  case (2 prev x xs)
  then show ?case by (auto split: option.splits intro: less_trans)
qed simp

lemma validateSortedBuild_iff:
  "validateSortedBuild a scope xs = None \<longleftrightarrow> authority_valid a \<and> scope_valid scope \<and> [] \<notin> set xs \<and> ascending xs"
  by (auto simp: validateSortedBuild_def validateSortedValues_iff)

lemma BuildSorted_holds:
  assumes "authority_valid a" and "scope_valid scope" and "[] \<notin> set xs" and "ascending xs"
  shows "\<exists>r. BuildSorted fresh a scope xs = Inr r \<and> holds a scope r xs"
proof -
  have "validateSortedBuild a scope xs = None" using assms by (simp add: validateSortedBuild_iff)
  moreover have "buildSortedNode (pointer a) xs \<noteq> NilNode" if "xs \<noteq> []"
    using that buildSortedNode_owned [of "pointer a" xs] by (metis inorder.simps(1))
  ultimately show ?thesis
    using assms buildSortedNode_owned [of "pointer a" xs]
      holds_tree [OF assms(1,2), of "buildSortedNode (pointer a) xs" fresh] holds_empty [OF assms(1,2)]
    by (auto simp: BuildSorted_def)
qed

lemma BuildPackedSorted_holds:
  assumes "authority_valid a" and "scope_valid scope" and "[] \<notin> set xs" and "ascending xs"
  shows "\<exists>r. BuildPackedSorted fresh a scope xs = Inr r \<and> holds a scope r xs"
proof -
  have "validateSortedBuild a scope xs = None" using assms by (simp add: validateSortedBuild_iff)
  then show ?thesis
    using assms holds_packed [OF assms(1,2,4,3)] holds_empty [OF assms(1,2)] by (auto simp: BuildPackedSorted_def)
qed

subsection \<open>Properties\<close>

definition sampleAuthority :: "nat \<Rightarrow> Authority option" where
  "sampleAuthority ref = Some (NewAuthority ref (ref + 1))"

definition sampleScope :: Scope where
  "sampleScope = \<lparr>sc_Domain = 1, sc_Key = ''pods''\<rparr>"

lemma sample_valid [simp]: "authority_valid (sampleAuthority ref)" "scope_valid sampleScope"
  by (simp_all add: sampleAuthority_def sampleScope_def authority_valid_def NewAuthority_def newRootState_def scope_valid_def)



text \<open>
  An update assigns membership to many values at once: on an owned root, whether it is packed or a
  tree, it succeeds, and the members afterwards are the values assigned true and the old members with
  no assignment.
\<close>

theorem Update_assigns:
  assumes "holds a scope r xs" and "map_of m [] = None"
  shows "\<exists>r' ys. Update fresh a scope r m = Inr r' \<and> holds a scope r' ys \<and> Values a scope r' = Inr ys \<and>
    set ys = {x. case map_of m x of Some b \<Rightarrow> b | None \<Rightarrow> x \<in> set xs}"
proof -
  let ?ys = "fst (editList (assignments m (sorted_keys m)) xs)"
  from Update_holds [OF assms, of fresh] obtain r' where "Update fresh a scope r m = Inr r'" "holds a scope r' ?ys" by blast
  moreover have "set ?ys = {x. case map_of m x of Some b \<Rightarrow> b | None \<Rightarrow> x \<in> set xs}"
    using set_assignments [OF distinct_sorted_keys [of m], where m = m and xs = xs]
    by (auto simp: dom_def split: option.splits if_splits)
  ultimately show ?thesis by (auto simp: Values_holds)
qed

theorem Update_assigns_witness:
  "\<exists>r r' ys. BuildPackedSorted 2 (sampleAuthority 0) sampleScope [''a'', ''b''] = Inr r \<and>
     Update 3 (sampleAuthority 0) sampleScope r [(''c'', True), (''a'', False)] = Inr r' \<and>
     Values (sampleAuthority 0) sampleScope r' = Inr ys \<and>
     set ys = {x. case map_of [(''c'', True), (''a'', False)] x of Some b \<Rightarrow> b | None \<Rightarrow> x \<in> set [''a'', ''b'']}"
proof -
  have "\<exists>r. BuildPackedSorted 2 (sampleAuthority 0) sampleScope [''a'', ''b''] = Inr r \<and>
      holds (sampleAuthority 0) sampleScope r [''a'', ''b'']"
    by (rule BuildPackedSorted_holds) simp_all
  then obtain r where r: "BuildPackedSorted 2 (sampleAuthority 0) sampleScope [''a'', ''b''] = Inr r"
    "holds (sampleAuthority 0) sampleScope r [''a'', ''b'']" by blast
  have "map_of [(''c'', True), (''a'', False)] [] = None" by simp
  from Update_assigns [OF r(2) this, of 3] r(1) show ?thesis by blast
qed

text \<open>
  Both ways of building a root from a list are inverted by reading its values back, exactly when
  the list is strictly increasing and without the empty string; any other list is refused.
\<close>

theorem Build_Values_roundtrip:
  assumes "authority_valid a" and "scope_valid scope"
  shows "(if ascending xs \<and> [] \<notin> set xs
          then \<exists>r r'. BuildSorted fresh a scope xs = Inr r \<and> Values a scope r = Inr xs \<and>
            BuildPackedSorted fresh a scope xs = Inr r' \<and> Values a scope r' = Inr xs
          else \<exists>e. BuildSorted fresh a scope xs = Inl e \<and> BuildPackedSorted fresh a scope xs = Inl e \<and>
            e \<in> {EmptyValue, NotIncreasing})"
proof (cases "ascending xs \<and> [] \<notin> set xs")
  case True
  with BuildSorted_holds [OF assms, of xs fresh] BuildPackedSorted_holds [OF assms, of xs fresh] show ?thesis
    by (auto simp: Values_holds)
next
  case False
  have "e \<in> {EmptyValue, NotIncreasing}" if "validateSortedValues prev ys = Some e" for prev ys e
    using that by (induction prev ys rule: validateSortedValues.induct) (auto split: if_splits)
  moreover have "validateSortedBuild a scope xs = validateSortedValues None xs"
    using assms by (simp add: validateSortedBuild_def)
  moreover have "validateSortedBuild a scope xs \<noteq> None"
    using False by (auto simp: validateSortedBuild_iff)
  ultimately show ?thesis using False by (auto simp: BuildSorted_def BuildPackedSorted_def)
qed

theorem Build_Values_roundtrip_witness:
  "\<exists>r. BuildSorted 2 (sampleAuthority 0) sampleScope [''a'', ''b'', ''c''] = Inr r \<and>
     Values (sampleAuthority 0) sampleScope r = Inr [''a'', ''b'', ''c'']"
proof -
  have "authority_valid (sampleAuthority 0)" "scope_valid sampleScope" by simp_all
  from Build_Values_roundtrip [OF this, of "[''a'', ''b'', ''c'']" 2] show ?thesis by auto
qed

text \<open>
  No operation answers for a root of another owner: given another valid authority every operation
  on the root is an error of provenance, and given another scope every operation on a root with
  members is an error of scope.
\<close>

theorem foreign_root_refused:
  assumes "holds a scope r xs" and "authority_valid b" and "pointer b \<noteq> pointer a \<and> e = InvalidProvenance \<or>
      b = a \<and> scope' \<noteq> scope \<and> xs \<noteq> [] \<and> e = AnotherScope"
  shows "SetLen b scope' r = Inl e \<and> Contains b scope' r v = Inl e \<and> Add fresh b scope' r v = Inl e \<and>
    Delete fresh b scope' r v = Inl e \<and> Range b scope' r visit s = (s, Some e) \<and> Values b scope' r = Inl e \<and>
    SameRoot b scope' r other = Inl e \<and> Update fresh b scope' r m = Inl e"
proof -
  obtain st where st: "r = Some st" "rs_authority st = pointer a" "xs \<noteq> [] \<Longrightarrow> rs_size st \<noteq> 0 \<and> rs_scope st = scope"
    and own: "ValidateOwnership a scope r = Inr st"
    using assms(1)
  proof (cases rule: holds_cases)
    case (empty st)
    with EmptySet_state [OF holdsD(1) [OF assms(1)]] that show thesis by (metis option.inject)
  next
    case (packed ref)
    with that [of "newPackedRootState ref (pointer a) scope xs"] show thesis by (simp add: newPackedRootState_def)
  next
    case (tree ref n)
    with that [of "newRootState ref (pointer a) scope n"] show thesis by (auto simp: newRootState_def owned_size)
  qed
  then have "ValidateOwnership b scope' r = Inl e"
    using assms(2,3) by (auto simp: ValidateOwnership_def ValidateAuthentication_def authenticState_def split: sum.splits if_splits)
  then show ?thesis
    by (simp add: SetLen_def Contains_def Add_def Delete_def Range_def Values_def SameRoot_def Update_def)
qed

theorem foreign_root_refused_witness:
  "Add 9 (sampleAuthority 5) sampleScope (EmptySet (sampleAuthority 0)) ''x'' = Inl InvalidProvenance"
proof -
  have holds: "holds (sampleAuthority 0) sampleScope (EmptySet (sampleAuthority 0)) []" by (rule holds_empty) simp_all
  have "pointer (sampleAuthority 5) \<noteq> pointer (sampleAuthority 0)" by (simp add: sampleAuthority_def NewAuthority_def)
  then show ?thesis
    using foreign_root_refused [OF holds sample_valid(1) [of 5], of InvalidProvenance sampleScope "''x''" 9
      "\<lambda>v s. (s, True)" "()" "EmptySet (sampleAuthority 0)" "[]"] by simp
qed

end
