(* ===== verification/Scheduler.thy ===== *)
theory Scheduler
  imports Go_Std "HOL-Library.Word"
begin

section \<open>The deployment scheduler\<close>

text \<open>
  \<open>src/pkg/controller/deployer/scheduler.go\<close>, \<open>scheduler_handlers.go\<close>, \<open>scheduler_logic.go\<close>,
  \<open>scheduler_drain.go\<close>, and what they use of \<open>output_identity.go\<close>, \<open>retained.go\<close> and
  \<open>fleet_capabilities.go\<close>: which render is deployed next, and when. Every function here is one
  function of the source, on the fields of the scheduler that its two mutexes guard. A function that
  takes a lock more than once is composed of its locked sections; \<open>Scheduler_Steps\<close> interleaves them.

  A published event is appended to \<open>ds_bus\<close>. The buffered channels of capacity one are the truth value
  of their buffer being full. The context of a term is the field \<open>ds_cancelled\<close>. The counters
  \<open>workRevision\<close> and \<open>retryGeneration\<close> count work items of one process and are far from the end of
  64 bits, so they are naturals. Logging, metrics and health tracking are left out.
\<close>

subsection \<open>Render occurrences (\<open>output_identity.go\<close>)\<close>

text \<open>
  An occurrence is known by its address; \<open>oc_authentic\<close> is the answer of \<open>ValidateAuthentication\<close> and
  \<open>oc_readable\<close> that its snapshots can be read and agree on the plan.
\<close>

record Occurrence =
  oc_ref :: nat
  oc_authentic :: bool
  oc_readable :: bool
  oc_planID :: string
  oc_checksum :: string
  oc_output :: nat

definition authentic :: "Occurrence option \<Rightarrow> bool" where
  "authentic oc \<longleftrightarrow> (case oc of None \<Rightarrow> False | Some x \<Rightarrow> oc_authentic x)"

definition inspectOccurrence :: "Occurrence option \<Rightarrow> Occurrence option" where
  "inspectOccurrence oc =
     (case oc of None \<Rightarrow> None | Some x \<Rightarrow> if oc_authentic x \<and> oc_readable x then Some x else None)"

definition sameOccurrence :: "Occurrence option \<Rightarrow> Occurrence option \<Rightarrow> bool" where
  "sameOccurrence left right \<longleftrightarrow>
     authentic left \<and> authentic right \<and> map_option oc_ref left = map_option oc_ref right"

definition samePlan :: "Occurrence option \<Rightarrow> Occurrence option \<Rightarrow> bool" where
  "samePlan left right \<longleftrightarrow>
     (case (inspectOccurrence left, inspectOccurrence right) of
        (Some l, Some r) \<Rightarrow> oc_planID l = oc_planID r \<and> oc_checksum l = oc_checksum r
      | _ \<Rightarrow> False)"

definition sameOccurrenceOutput :: "Occurrence option \<Rightarrow> Occurrence option \<Rightarrow> bool" where
  "sameOccurrenceOutput left right \<longleftrightarrow>
     (case (inspectOccurrence left, inspectOccurrence right) of
        (Some l, Some r) \<Rightarrow> oc_output l = oc_output r
      | _ \<Rightarrow> False)"

subsection \<open>The fleet (\<open>scheduler.go\<close>, \<open>fleet_capabilities.go\<close>)\<close>

record Endpoint =
  ep_URL :: string
  ep_Username :: string
  ep_Password :: string
  ep_PodName :: string
  ep_PodNamespace :: string
  ep_PodUID :: string
  ep_PodRuntimeID :: string
  ep_DetectedMajorVersion :: int
  ep_DetectedMinorVersion :: int
  ep_DetectedFullVersion :: string

text \<open>
  What the scheduler is configured with, and the code it calls: the keyed and the plain SHA-256 of a
  byte string, \<open>dataplane.MinimumVersion\<close>, and \<open>configpublisher.GenerateRuntimeConfigName\<close>. A
  duration is a signed 64-bit number of nanoseconds.
\<close>

record sched_env =
  env_hmac :: "string \<Rightarrow> string"
  env_sha :: "string \<Rightarrow> string"
  env_minimumVersion :: "string list \<Rightarrow> string option"
  env_runtimeConfigName :: "string \<Rightarrow> string"
  env_minDeploymentInterval :: "64 word"
  env_deploymentTimeout :: int
  env_capabilities :: bool
  env_retained :: bool

text \<open>The eight bytes of \<open>binary.BigEndian.PutUint64\<close>, and \<open>fmt.Sprintf\<close> with \<open>%x\<close>.\<close>

definition bigEndian64 :: "nat \<Rightarrow> string" where
  "bigEndian64 n = map (\<lambda>i. char_of (n div 256 ^ i mod 256)) (rev [0..<8])"

definition hexDigit :: "nat \<Rightarrow> char" where
  "hexDigit d = char_of (if d < 10 then 48 + d else 87 + d)"

definition hexBytes :: "string \<Rightarrow> string" where
  "hexBytes bytes = concat (map (\<lambda>b. [hexDigit (of_char b div 16), hexDigit (of_char b mod 16)]) bytes)"

definition hashEndpointAuthority :: "sched_env \<Rightarrow> Endpoint \<Rightarrow> string" where
  "hashEndpointAuthority env ep =
     env_hmac env (concat (map (\<lambda>value. bigEndian64 (length value) @ value)
       [ep_URL ep, ep_Username ep, ep_Password ep, ep_PodName ep, ep_PodNamespace ep, ep_PodUID ep,
        ep_PodRuntimeID ep, Itoa (ep_DetectedMajorVersion ep), Itoa (ep_DetectedMinorVersion ep),
        ep_DetectedFullVersion ep]))"

definition computePodSetHash :: "sched_env \<Rightarrow> Endpoint list \<Rightarrow> string" where
  "computePodSetHash env endpoints =
     hexBytes (env_sha env (concat (sort (map (hashEndpointAuthority env) endpoints))))"

definition fleetVersions :: "Endpoint list \<Rightarrow> string list" where
  "fleetVersions endpoints = filter (\<lambda>v. v \<noteq> []) (map ep_DetectedFullVersion endpoints)"

subsection \<open>State (\<open>scheduler.go\<close>)\<close>

record scheduledDeployment =
  sd_workRevision :: nat
  sd_retryGeneration :: nat
  sd_occurrence :: "Occurrence option"
  sd_endpoints :: "Endpoint list"
  sd_reason :: string
  sd_correlationID :: string
  sd_coalescible :: bool

record acceptedRender =
  ar_occurrence :: "Occurrence option"
  ar_correlationID :: string

text \<open>The armed retry timer: what its callback is called with, and the wait.\<close>

record retryTimer =
  rt_generation :: nat
  rt_workRevision :: nat
  rt_reason :: string
  rt_wait :: int

datatype bus_event =
    DeploymentScheduled string scheduledDeployment string string
  | DeploymentSkipped Occurrence nat string string
  | DeploymentCancelRequest string string string
  | ReconciliationTriggered string
  | FleetCapabilities string
  | RetainedConfig string string
  | RecoverRetained nat "Endpoint list"
  | ValidatedOccurrence Occurrence

record sched =
  ds_deployInFlight :: bool
  ds_deploymentTimedOut :: bool
  ds_activeDeploymentID :: string
  ds_activeCorrelationID :: string
  ds_activeOccurrence :: "Occurrence option"
  ds_deploymentStartTime :: "int option"
  ds_lastScheduled :: "Occurrence option"
  ds_pending :: "scheduledDeployment option"
  ds_workRevision :: nat
  ds_retryTimer :: "retryTimer option"
  ds_retryGeneration :: nat
  ds_retryStopped :: bool
  ds_deployFailureRetries :: nat
  ds_lastFailedRetry :: "Occurrence option"
  ds_lastPodSetHash :: string
  ds_draining :: bool
  ds_drainOccurrence :: "Occurrence option"
  ds_dispatching :: bool
  ds_followUpArmed :: bool
  ds_lastRendered :: "Occurrence option"
  ds_lastValidated :: "Occurrence option"
  ds_lastCorrelationID :: string
  ds_lastCoalescible :: bool
  ds_currentEndpoints :: "Endpoint list"
  ds_runtimeConfigName :: string
  ds_runtimeConfigNamespace :: string
  ds_templateConfigName :: string
  ds_templateConfigNamespace :: string
  ds_gatePinned :: bool
  ds_acceptedRender :: "acceptedRender option"
  ds_lastDeployed :: "Occurrence option"
  ds_lastDeployedPodSetHash :: string
  ds_lastDeployedTime :: "int option"
  ds_lastDispatched :: "Occurrence option"
  ds_lastFleetVersion :: string
  ds_retainedEpoch :: nat
  ds_retainedRecovering :: bool
  ds_retainedRetryAt :: "int option"
  ds_retainedRenderError :: string
  ds_retainedNotice :: string
  ds_pendingSignal :: bool
  ds_completed :: bool
  ds_drainProgress :: bool
  ds_cancelled :: bool
  ds_bus :: "bus_event list"

definition publish :: "bus_event \<Rightarrow> sched \<Rightarrow> sched" where
  "publish e s = s\<lparr>ds_bus := ds_bus s @ [e]\<rparr>"

subsection \<open>The pending slot and the deploy loop (\<open>scheduler_logic.go\<close>, \<open>scheduler_drain.go\<close>)\<close>

definition drainAdmits :: "sched \<Rightarrow> Occurrence option \<Rightarrow> bool" where
  "drainAdmits s oc \<longleftrightarrow> \<not> ds_draining s \<or> samePlan oc (ds_drainOccurrence s)"

definition pendingRevisionCurrent :: "sched \<Rightarrow> scheduledDeployment \<Rightarrow> bool" where
  "pendingRevisionCurrent s dep \<longleftrightarrow>
     \<not> ds_cancelled s \<and> sd_workRevision dep = ds_workRevision s \<and>
     (sd_retryGeneration dep = 0 \<or> \<not> ds_retryStopped s \<and> sd_retryGeneration dep = ds_retryGeneration s)"

definition signalLoop :: "sched \<Rightarrow> sched" where
  "signalLoop s = s\<lparr>ds_pendingSignal := True\<rparr>"

definition signalCompleted :: "sched \<Rightarrow> sched" where
  "signalCompleted s = s\<lparr>ds_completed := True\<rparr>"

definition signalDrainProgress :: "sched \<Rightarrow> sched" where
  "signalDrainProgress s = s\<lparr>ds_drainProgress := True\<rparr>"

definition installPending :: "scheduledDeployment \<Rightarrow> sched \<Rightarrow> sched" where
  "installPending dep s =
     (if \<not> pendingRevisionCurrent s dep \<or> \<not> drainAdmits s (sd_occurrence dep) then s
      else signalLoop (s\<lparr>ds_pending := Some dep\<rparr>))"

text \<open>The first section of \<open>scheduleOrQueueOccurrence\<close>, and the deployment it goes on to install.\<close>

definition admitWork ::
  "Occurrence option \<Rightarrow> Endpoint list \<Rightarrow> string \<Rightarrow> string \<Rightarrow> bool \<Rightarrow> sched \<Rightarrow> sched \<times> scheduledDeployment option" where
  "admitWork oc endpoints reason correlationID coalescible s =
     (case inspectOccurrence oc of
        None \<Rightarrow> (s, None)
      | Some identity \<Rightarrow>
          if ds_cancelled s \<or> \<not> drainAdmits s (Some identity) then (s, None)
          else let s' = s\<lparr>ds_workRevision := ds_workRevision s + 1\<rparr> in
            (s', Some \<lparr>sd_workRevision = ds_workRevision s', sd_retryGeneration = 0, sd_occurrence = Some identity,
               sd_endpoints = endpoints, sd_reason = reason, sd_correlationID = correlationID,
               sd_coalescible = coalescible\<rparr>))"

definition scheduleOrQueueOccurrence ::
  "Occurrence option \<Rightarrow> Endpoint list \<Rightarrow> string \<Rightarrow> string \<Rightarrow> bool \<Rightarrow> sched \<Rightarrow> sched" where
  "scheduleOrQueueOccurrence oc endpoints reason correlationID coalescible s =
     (case admitWork oc endpoints reason correlationID coalescible s of
        (s', None) \<Rightarrow> s'
      | (s', Some dep) \<Rightarrow> installPending dep s')"

text \<open>The sections of \<open>runDeployLoop\<close>: taking the pending deployment, the end of a dispatch, the exit.\<close>

definition takePending :: "sched \<Rightarrow> sched \<times> scheduledDeployment option" where
  "takePending s = (s\<lparr>ds_pending := None, ds_dispatching := ds_pending s \<noteq> None\<rparr>, ds_pending s)"

definition finishDispatch :: "sched \<Rightarrow> sched" where
  "finishDispatch s = signalDrainProgress (s\<lparr>ds_dispatching := False\<rparr>)"

definition exitLoop :: "sched \<Rightarrow> sched" where
  "exitLoop s = s\<lparr>ds_workRevision := ds_workRevision s + 1, ds_pending := None\<rparr>"

definition resolveRuntimeConfigName :: "sched_env \<Rightarrow> sched \<Rightarrow> string \<times> string" where
  "resolveRuntimeConfigName env s =
     (if ds_runtimeConfigName s = [] \<and> ds_templateConfigName s \<noteq> []
      then (env_runtimeConfigName env (ds_templateConfigName s), ds_templateConfigNamespace s)
      else (ds_runtimeConfigName s, ds_runtimeConfigNamespace s))"

text \<open>The event is made with the identifier the event library gives it; none without an exact render.\<close>

definition newScheduledEvent :: "sched_env \<Rightarrow> string \<Rightarrow> scheduledDeployment \<Rightarrow> sched \<Rightarrow> bus_event option" where
  "newScheduledEvent env eventID dep s =
     (case inspectOccurrence (sd_occurrence dep) of
        None \<Rightarrow> None
      | Some _ \<Rightarrow> (case resolveRuntimeConfigName env s of (name, ns) \<Rightarrow> Some (DeploymentScheduled eventID dep name ns)))"

text \<open>The locked section of \<open>dispatchPending\<close>, and whether it took the slot.\<close>

definition commitDispatch :: "sched_env \<Rightarrow> int \<Rightarrow> string \<Rightarrow> scheduledDeployment \<Rightarrow> sched \<Rightarrow> sched \<times> bool" where
  "commitDispatch env now eventID dep s =
     (if \<not> pendingRevisionCurrent s dep then (s, False)
      else (s\<lparr>ds_deployInFlight := True, ds_deploymentTimedOut := False, ds_deploymentStartTime := Some now,
              ds_activeDeploymentID := eventID, ds_activeCorrelationID := sd_correlationID dep,
              ds_activeOccurrence := sd_occurrence dep, ds_lastScheduled := sd_occurrence dep,
              ds_lastPodSetHash := computePodSetHash env (sd_endpoints dep)\<rparr>, True))"

definition clearActive :: "sched \<Rightarrow> sched" where
  "clearActive s = s\<lparr>ds_deployInFlight := False, ds_deploymentTimedOut := False, ds_deploymentStartTime := None,
     ds_activeDeploymentID := [], ds_activeCorrelationID := [], ds_activeOccurrence := None\<rparr>"

definition clearDispatchedPending :: "string \<Rightarrow> sched \<Rightarrow> sched" where
  "clearDispatchedPending deploymentID s =
     (if ds_activeDeploymentID s \<noteq> deploymentID then s else clearActive s)"

definition checkDeploymentTimeout :: "sched_env \<Rightarrow> int \<Rightarrow> sched \<Rightarrow> sched" where
  "checkDeploymentTimeout env now s =
     (if \<not> ds_deployInFlight s then s
      else case ds_deploymentStartTime s of
        None \<Rightarrow> s
      | Some start \<Rightarrow>
          if now - start \<le> env_deploymentTimeout env then s
          else let firstTimeout = (\<not> ds_deploymentTimedOut s);
                   s1 = s\<lparr>ds_deploymentTimedOut := True\<rparr>;
                   s2 = (if ds_activeDeploymentID s \<noteq> []
                         then publish (DeploymentCancelRequest (ds_activeDeploymentID s) ''deployment_timeout''
                                (ds_activeCorrelationID s)) s1 else s1)
               in if firstTimeout then publish (ReconciliationTriggered ''deployment_timeout_recovery'') s2 else s2)"

text \<open>\<open>Drain\<close>: its first section, and the condition it then waits for.\<close>

definition beginDrain :: "sched \<Rightarrow> sched" where
  "beginDrain s =
     (if ds_cancelled s then s
      else let s1 = s\<lparr>ds_draining := True, ds_drainOccurrence := ds_lastScheduled s\<rparr> in
        case ds_pending s1 of
          None \<Rightarrow> s1
        | Some dep \<Rightarrow> if drainAdmits s1 (sd_occurrence dep) then s1 else s1\<lparr>ds_pending := None\<rparr>)"

definition settled :: "sched \<Rightarrow> bool" where
  "settled s \<longleftrightarrow> \<not> ds_dispatching s \<and> ds_pending s = None \<and> \<not> ds_followUpArmed s"

subsection \<open>Retries (\<open>scheduler_handlers.go\<close>)\<close>

definition maxDeployFailureRetries :: nat where "maxDeployFailureRetries = 5"
definition maxFailureRetryBackoff :: "64 word" where "maxFailureRetryBackoff = 60000000000"
definition pendingReloadFollowUpMargin :: int where "pendingReloadFollowUpMargin = 250000000"

definition failureRetryBackoff :: "sched_env \<Rightarrow> nat \<Rightarrow> 64 word" where
  "failureRetryBackoff env attempt =
     (let base = (if sint (env_minDeploymentInterval env) \<le> 0 then 2000000000 else env_minDeploymentInterval env);
          backoff = push_bit (attempt - 1) base
      in if sint backoff \<le> 0 \<or> sint backoff > sint maxFailureRetryBackoff then maxFailureRetryBackoff else backoff)"

definition stopRetryTimer :: "sched \<Rightarrow> sched" where
  "stopRetryTimer s = s\<lparr>ds_followUpArmed := False, ds_retryGeneration := ds_retryGeneration s + 1, ds_retryTimer := None\<rparr>"

text \<open>Arming the single timer again: the former one is stopped and a new generation begins.\<close>

definition armRetryTimer :: "string \<Rightarrow> int \<Rightarrow> sched \<Rightarrow> sched" where
  "armRetryTimer reason wait s =
     (let s1 = stopRetryTimer s; generation = ds_retryGeneration s1 + 1 in
      s1\<lparr>ds_retryGeneration := generation,
         ds_retryTimer := Some \<lparr>rt_generation = generation, rt_workRevision = ds_workRevision s1,
           rt_reason = reason, rt_wait = wait\<rparr>\<rparr>)"

definition schedulePendingReloadFollowUp :: "int \<Rightarrow> int option \<Rightarrow> sched \<Rightarrow> sched" where
  "schedulePendingReloadFollowUp now pendingReloadUntil s =
     (if ds_retryStopped s then s
      else let wait0 = (case pendingReloadUntil of None \<Rightarrow> pendingReloadFollowUpMargin
                        | Some until \<Rightarrow> until - now + pendingReloadFollowUpMargin);
               wait = min (max wait0 pendingReloadFollowUpMargin) (sint maxFailureRetryBackoff)
           in (armRetryTimer ''pending_reload_follow_up'' wait s)\<lparr>ds_followUpArmed := True\<rparr>)"

definition scheduleFailureRetry :: "sched_env \<Rightarrow> Occurrence option \<Rightarrow> sched \<Rightarrow> sched" where
  "scheduleFailureRetry env oc s =
     (if ds_retryStopped s then s
      else if \<not> authentic oc \<or> inspectOccurrence oc = None then s
      else let s1 = (if sameOccurrence oc (ds_lastFailedRetry s) then s
                     else s\<lparr>ds_lastFailedRetry := oc, ds_deployFailureRetries := 0\<rparr>)
           in if ds_deployFailureRetries s1 \<ge> maxDeployFailureRetries then s1
              else let s2 = s1\<lparr>ds_deployFailureRetries := ds_deployFailureRetries s1 + 1\<rparr>
                   in armRetryTimer ''deploy_failure_retry''
                        (sint (failureRetryBackoff env (ds_deployFailureRetries s2))) s2)"

text \<open>The last section of every retry callback.\<close>

definition settleFollowUp :: "sched \<Rightarrow> sched" where
  "settleFollowUp s =
     signalDrainProgress (if ds_retryTimer s = None then s\<lparr>ds_followUpArmed := False\<rparr> else s)"

text \<open>The first section of \<open>runRetry\<close>, and whether the callback goes on.\<close>

definition beginRetry :: "nat \<Rightarrow> nat \<Rightarrow> sched \<Rightarrow> sched \<times> bool" where
  "beginRetry generation workRevision s =
     (if generation \<noteq> ds_retryGeneration s then (s, False)
      else (s\<lparr>ds_retryTimer := None\<rparr>, \<not> ds_retryStopped s \<and> workRevision = ds_workRevision s))"

text \<open>What \<open>rescheduleLastValidated\<close> reads, and the deployment it goes on to install.\<close>

definition retryDeployment :: "nat \<Rightarrow> nat \<Rightarrow> string \<Rightarrow> sched \<Rightarrow> scheduledDeployment option" where
  "retryDeployment generation workRevision reason s =
     (let newerPending = (case ds_pending s of None \<Rightarrow> False | Some dep \<Rightarrow> sd_retryGeneration dep = 0);
          oc = (if ds_draining s then ds_drainOccurrence s else ds_lastValidated s)
      in if newerPending \<or> ds_cancelled s \<or> ds_currentEndpoints s = [] \<or> \<not> authentic oc then None
         else Some \<lparr>sd_workRevision = workRevision, sd_retryGeneration = generation, sd_occurrence = oc,
                sd_endpoints = ds_currentEndpoints s, sd_reason = reason,
                sd_correlationID = ds_lastCorrelationID s, sd_coalescible = False\<rparr>)"

definition runRetry :: "nat \<Rightarrow> nat \<Rightarrow> string \<Rightarrow> sched \<Rightarrow> sched" where
  "runRetry generation workRevision reason s =
     (case beginRetry generation workRevision s of
        (s1, False) \<Rightarrow> settleFollowUp s1
      | (s1, True) \<Rightarrow>
          (case retryDeployment generation workRevision reason s1 of
             None \<Rightarrow> settleFollowUp s1
           | Some dep \<Rightarrow> settleFollowUp (installPending dep s1)))"

definition dropPendingRetry :: "sched \<Rightarrow> sched" where
  "dropPendingRetry s =
     (case ds_pending s of
        None \<Rightarrow> s | Some dep \<Rightarrow> if sd_retryGeneration dep \<noteq> 0 then s\<lparr>ds_pending := None\<rparr> else s)"

definition cancelFailureRetry :: "sched \<Rightarrow> sched" where
  "cancelFailureRetry s =
     (dropPendingRetry (stopRetryTimer s))\<lparr>ds_deployFailureRetries := 0, ds_lastFailedRetry := None\<rparr>"

definition stopFailureRetries :: "sched \<Rightarrow> sched" where
  "stopFailureRetries s =
     (dropPendingRetry (stopRetryTimer (s\<lparr>ds_retryStopped := True\<rparr>)))
       \<lparr>ds_deployFailureRetries := 0, ds_lastFailedRetry := None\<rparr>"

subsection \<open>Retained configurations (\<open>retained.go\<close>)\<close>

definition awaitingFirstAcceptedRender :: "sched_env \<Rightarrow> sched \<Rightarrow> bool" where
  "awaitingFirstAcceptedRender env s \<longleftrightarrow> env_retained env \<and> ds_acceptedRender s = None"

definition cancelRetainedRecovery :: "sched \<Rightarrow> sched" where
  "cancelRetainedRecovery s = s\<lparr>ds_retainedEpoch := ds_retainedEpoch s + 1\<rparr>"

text \<open>Starting a recovery is an event that carries the epoch and the fleet it was started for.\<close>

definition maybeRecoverRetained :: "sched_env \<Rightarrow> int \<Rightarrow> sched \<Rightarrow> sched" where
  "maybeRecoverRetained env now s =
     (if \<not> env_retained env \<or> ds_retainedRecovering s \<or> ds_retainedRenderError s = [] \<or>
         (case ds_retainedRetryAt s of None \<Rightarrow> False | Some at \<Rightarrow> now < at) then s
      else if ds_lastValidated s \<noteq> None \<or> ds_currentEndpoints s = [] then s
      else publish (RecoverRetained (ds_retainedEpoch s) (ds_currentEndpoints s)) (s\<lparr>ds_retainedRecovering := True\<rparr>))"

definition renderFailedForRetention :: "sched_env \<Rightarrow> int \<Rightarrow> string \<Rightarrow> sched \<Rightarrow> sched" where
  "renderFailedForRetention env now message s =
     maybeRecoverRetained env now (s\<lparr>ds_retainedRenderError := message\<rparr>)"

definition reportRetained :: "sched_env \<Rightarrow> string \<Rightarrow> string \<Rightarrow> sched \<Rightarrow> sched" where
  "reportRetained env reason message s =
     (if \<not> env_retained env \<or> ds_retainedNotice s = reason @ message then s
      else publish (RetainedConfig reason message) (s\<lparr>ds_retainedNotice := reason @ message\<rparr>))"

record retainedResult =
  rr_epoch :: nat
  rr_podSet :: string
  rr_occurrence :: "Occurrence option"
  rr_checksum :: string
  rr_err :: "string option"

definition retainedUnavailable :: "string \<Rightarrow> string" where
  "retainedUnavailable err = ''Retained configuration cannot start new HAProxy pods: '' @ err @
     ''. Repair the render inputs or restore the published checkpoint.''"

definition retainedActive :: "string \<Rightarrow> string \<Rightarrow> string" where
  "retainedActive checksum renderError = ''New HAProxy pods use retained configuration '' @ checksum @
     '' because rendering failed: '' @ renderError @ ''. Repair the render inputs to resume updates.''"

definition handleRetainedResult ::
  "sched_env \<Rightarrow> int \<Rightarrow> retainedResult \<Rightarrow> sched \<Rightarrow> sched \<times> scheduledDeployment option" where
  "handleRetainedResult env now result s0 =
     (let s = s0\<lparr>ds_retainedRecovering := False, ds_retainedRetryAt := Some (now + 5000000000)\<rparr> in
      if rr_epoch result \<noteq> ds_retainedEpoch s \<or> ds_retainedRenderError s = [] then (s, None)
      else if ds_lastValidated s \<noteq> None \<or> computePodSetHash env (ds_currentEndpoints s) \<noteq> rr_podSet result then (s, None)
      else case rr_err result of
        Some err \<Rightarrow> (reportRetained env ''RetainedConfigUnavailable'' (retainedUnavailable err) s, None)
      | None \<Rightarrow>
          (case rr_occurrence result of
             None \<Rightarrow> (s, None)
           | Some oc \<Rightarrow>
               admitWork (Some oc) (ds_currentEndpoints s) ''retained_configuration'' ''retained-configuration'' False
                 (reportRetained env ''RetainedConfigActive''
                   (retainedActive (rr_checksum result) (ds_retainedRenderError s))
                   (publish (ValidatedOccurrence oc) s))))"

subsection \<open>Renders and verdicts (\<open>scheduler_handlers.go\<close>)\<close>

text \<open>
  A handler returns the deployment it goes on to install, if it reached \<open>scheduleOrQueueOccurrence\<close>.
  That call is the last thing each handler does, but for the acceptance after a released render, which
  touches no field that installing reads or writes.
\<close>

definition promoteRendered :: "string \<Rightarrow> bool \<Rightarrow> sched \<Rightarrow> sched \<times> Occurrence option" where
  "promoteRendered correlationID coalescible s =
     (case inspectOccurrence (ds_lastRendered s) of
        None \<Rightarrow> (s, None)
      | Some identity \<Rightarrow>
          (s\<lparr>ds_lastValidated := ds_lastRendered s, ds_lastCorrelationID := correlationID,
             ds_lastCoalescible := coalescible\<rparr>, Some identity))"

definition renderAlreadyDeployed :: "Occurrence option \<Rightarrow> string \<Rightarrow> string \<Rightarrow> sched \<Rightarrow> bool" where
  "renderAlreadyDeployed oc podSetHash reason s \<longleftrightarrow>
     reason \<noteq> ''drift_prevention'' \<and> sameOccurrenceOutput oc (ds_lastDeployed s) \<and>
     sameOccurrenceOutput (ds_lastDispatched s) (ds_lastDeployed s) \<and>
     podSetHash = ds_lastDeployedPodSetHash s \<and> ds_lastDeployedTime s \<noteq> None"

definition dispatchRender ::
  "sched_env \<Rightarrow> string \<Rightarrow> bool \<Rightarrow> string \<Rightarrow> sched \<Rightarrow> sched \<times> scheduledDeployment option" where
  "dispatchRender env correlationID coalescible reason s =
     (case promoteRendered correlationID coalescible s of
        (s1, None) \<Rightarrow> (s1, None)
      | (s1, Some oc) \<Rightarrow>
          let endpoints = ds_currentEndpoints s1; podSetHash = computePodSetHash env endpoints in
          if endpoints = [] then (s1, None)
          else if renderAlreadyDeployed (Some oc) podSetHash reason s1
          then (publish (DeploymentSkipped oc (length endpoints) podSetHash correlationID) s1, None)
          else admitWork (Some oc) endpoints reason correlationID coalescible s1)"

definition deployReason :: "string \<Rightarrow> string" where
  "deployReason triggerReason =
     (if triggerReason = ''drift_prevention'' then ''drift_prevention'' else ''config_validation'')"

definition handleTemplateRendered ::
  "sched_env \<Rightarrow> Occurrence option \<Rightarrow> string \<Rightarrow> bool \<Rightarrow> string \<Rightarrow> sched \<Rightarrow> sched \<times> scheduledDeployment option" where
  "handleTemplateRendered env oc correlationID coalescible triggerReason s =
     (if inspectOccurrence oc = None then (s, None)
      else let s1 = (cancelRetainedRecovery s)\<lparr>ds_retainedRenderError := [], ds_lastRendered := oc\<rparr>;
               pinned = (ds_gatePinned s1 \<or> awaitingFirstAcceptedRender env s1)
           in if pinned then (s1, None)
              else dispatchRender env correlationID coalescible (deployReason triggerReason) s1)"

definition acceptRender :: "sched \<Rightarrow> sched" where
  "acceptRender s = s\<lparr>ds_acceptedRender :=
     Some \<lparr>ar_occurrence = ds_lastValidated s, ar_correlationID = ds_lastCorrelationID s\<rparr>\<rparr>"

definition rollBackToAcceptedRender :: "Occurrence option \<Rightarrow> sched \<Rightarrow> sched" where
  "rollBackToAcceptedRender refused s =
     (case ds_acceptedRender s of
        None \<Rightarrow> s
      | Some accepted \<Rightarrow>
          if \<not> samePlan (ds_lastValidated s) refused then s
          else if samePlan (ar_occurrence accepted) refused then s
          else s\<lparr>ds_lastValidated := ar_occurrence accepted, ds_lastCorrelationID := ar_correlationID accepted,
                 ds_lastCoalescible := False\<rparr>)"

definition dropPendingRender :: "Occurrence option \<Rightarrow> sched \<Rightarrow> sched" where
  "dropPendingRender oc s =
     (case (oc, ds_pending s) of
        (Some _, Some dep) \<Rightarrow>
          if samePlan (sd_occurrence dep) oc then s\<lparr>ds_workRevision := ds_workRevision s + 1, ds_pending := None\<rparr> else s
      | _ \<Rightarrow> s)"

record verdict =
  vd_occurrence :: "Occurrence option"
  vd_Newest :: bool
  vd_OK :: bool
  vd_Refused :: bool
  vd_Message :: string
  vd_correlationID :: string

definition holdAfterRefusal :: "verdict \<Rightarrow> sched \<Rightarrow> sched" where
  "holdAfterRefusal v s =
     (let oc = vd_occurrence v in
      if \<not> (samePlan (ds_lastRendered s) oc \<or> samePlan (ds_lastValidated s) oc) then s
      else dropPendingRender oc
        (if vd_Refused v then rollBackToAcceptedRender oc (s\<lparr>ds_gatePinned := True\<rparr>)
         else s\<lparr>ds_gatePinned := True\<rparr>))"

definition handleRenderGateCompleted ::
  "sched_env \<Rightarrow> int \<Rightarrow> verdict \<Rightarrow> sched \<Rightarrow> sched \<times> scheduledDeployment option" where
  "handleRenderGateCompleted env now v s =
     (let oc = vd_occurrence v in
      if inspectOccurrence oc = None then (s, None)
      else if \<not> vd_Newest v then (s, None)
      else let wasPinned = (ds_gatePinned s \<or> awaitingFirstAcceptedRender env s);
               namesHeldRender = samePlan (ds_lastRendered s) oc;
               alreadyDispatched = samePlan (ds_lastValidated s) oc
           in if \<not> namesHeldRender \<and> \<not> alreadyDispatched then (s, None)
              else if \<not> vd_OK v
              then (renderFailedForRetention env now (vd_Message v) (holdAfterRefusal v s), None)
              else if ds_retainedRenderError s \<noteq> [] \<and> \<not> alreadyDispatched then (s, None)
              else let s1 = (if alreadyDispatched then acceptRender s else s);
                       s2 = (if \<not> wasPinned \<or> namesHeldRender then s1\<lparr>ds_gatePinned := False\<rparr> else s1)
                   in if \<not> wasPinned \<or> \<not> namesHeldRender \<or> alreadyDispatched then (s2, None)
                      else case dispatchRender env (vd_correlationID v) False ''rendergate_release'' s2 of
                        (s3, dep) \<Rightarrow> (acceptRender s3, dep))"

definition handleValidationFailed :: "string \<Rightarrow> sched \<Rightarrow> sched \<times> scheduledDeployment option" where
  "handleValidationFailed correlationID s =
     (if ds_lastValidated s = None then (s, None)
      else if ds_currentEndpoints s = [] then (s, None)
      else admitWork (ds_lastValidated s) (ds_currentEndpoints s) ''validation_fallback'' correlationID False s)"

definition handleConfigValidated :: "(string \<times> string) option \<Rightarrow> sched \<Rightarrow> sched" where
  "handleConfigValidated templateConfig s =
     (case templateConfig of
        None \<Rightarrow> s
      | Some (name, ns) \<Rightarrow> s\<lparr>ds_templateConfigName := name, ds_templateConfigNamespace := ns\<rparr>)"

definition handleConfigPublished :: "string \<Rightarrow> string \<Rightarrow> sched \<Rightarrow> sched" where
  "handleConfigPublished name ns s = s\<lparr>ds_runtimeConfigName := name, ds_runtimeConfigNamespace := ns\<rparr>"

subsection \<open>Pods (\<open>scheduler_handlers.go\<close>, \<open>fleet_capabilities.go\<close>)\<close>

definition publishFleetCapabilities :: "sched_env \<Rightarrow> Endpoint list \<Rightarrow> sched \<Rightarrow> sched" where
  "publishFleetCapabilities env endpoints s =
     (if \<not> env_capabilities env then s
      else case env_minimumVersion env (fleetVersions endpoints) of
        None \<Rightarrow> s
      | Some version \<Rightarrow>
          let s1 = s\<lparr>ds_lastFleetVersion := version\<rparr> in
          if ds_lastFleetVersion s = version then s1
          else publish (ReconciliationTriggered ''fleet_capabilities_changed'') (publish (FleetCapabilities version) s1))"

text \<open>The part of \<open>performPodsDiscovered\<close> up to the fleet being the new one.\<close>

definition noteFleet :: "sched_env \<Rightarrow> Endpoint list \<Rightarrow> sched \<Rightarrow> sched" where
  "noteFleet env endpoints s =
     (let podSetHash = computePodSetHash env endpoints;
          moved = (ds_lastPodSetHash s \<noteq> [] \<and> ds_lastPodSetHash s \<noteq> podSetHash);
          cancelledID = (if moved \<and> ds_deployInFlight s then ds_activeDeploymentID s else []);
          s1 = (if moved then s\<lparr>ds_workRevision := ds_workRevision s + 1, ds_pending := None\<rparr> else s);
          s2 = publishFleetCapabilities env endpoints s1;
          s3 = (if cancelledID \<noteq> []
                then publish (DeploymentCancelRequest cancelledID ''endpoint_authority_changed'' (ds_activeCorrelationID s)) s2
                else s2)
      in s3\<lparr>ds_currentEndpoints := endpoints\<rparr>)"

definition performPodsDiscovered ::
  "sched_env \<Rightarrow> int \<Rightarrow> Endpoint list \<Rightarrow> sched \<Rightarrow> sched \<times> scheduledDeployment option" where
  "performPodsDiscovered env now endpoints s0 =
     (let s = noteFleet env endpoints s0 in
      if ds_lastValidated s = None
      then (maybeRecoverRetained env now (s\<lparr>ds_retainedRetryAt := None\<rparr>), None)
      else if endpoints = [] then (s, None)
      else admitWork (ds_lastValidated s) endpoints ''pod_discovery'' (ds_lastCorrelationID s) (ds_lastCoalescible s) s)"

subsection \<open>Completions (\<open>scheduler_handlers.go\<close>)\<close>

record completion =
  cp_DeploymentID :: string
  cp_occurrence :: "Occurrence option"
  cp_PodSetHash :: string
  cp_Total :: nat
  cp_Failed :: nat
  cp_PendingReloads :: nat
  cp_PendingReloadUntil :: "int option"

definition matchesActive :: "completion \<Rightarrow> sched \<Rightarrow> bool" where
  "matchesActive e s \<longleftrightarrow> ds_deployInFlight s \<and> cp_DeploymentID e \<noteq> [] \<and>
     cp_DeploymentID e = ds_activeDeploymentID s \<and> sameOccurrence (ds_activeOccurrence s) (cp_occurrence e)"

definition cacheDeploymentCompletion :: "int \<Rightarrow> completion \<Rightarrow> Occurrence option \<Rightarrow> sched \<Rightarrow> sched" where
  "cacheDeploymentCompletion now e oc s =
     (if cp_PodSetHash e = [] \<or> \<not> authentic oc then s
      else let s1 = s\<lparr>ds_lastDispatched := oc\<rparr>
           in if cp_Failed e = 0 \<and> cp_PendingReloads e = 0
              then s1\<lparr>ds_lastDeployed := oc, ds_lastDeployedPodSetHash := cp_PodSetHash e, ds_lastDeployedTime := Some now\<rparr>
              else s1)"

definition followCompletion :: "sched_env \<Rightarrow> int \<Rightarrow> completion \<Rightarrow> sched \<Rightarrow> sched" where
  "followCompletion env now e s =
     (if cp_Total e > 0 \<and> cp_Failed e > 0 then scheduleFailureRetry env (cp_occurrence e) s
      else if cp_Total e > 0 \<and> cp_PendingReloads e > 0 then schedulePendingReloadFollowUp now (cp_PendingReloadUntil e) s
      else if cp_Total e > 0 \<and> cp_Failed e = 0 then cancelFailureRetry s
      else s)"

definition handleDeploymentCompleted :: "sched_env \<Rightarrow> int \<Rightarrow> completion option \<Rightarrow> sched \<Rightarrow> sched" where
  "handleDeploymentCompleted env now event s =
     (case event of
        None \<Rightarrow> s
      | Some e \<Rightarrow>
          if inspectOccurrence (cp_occurrence e) = None then s
          else if \<not> matchesActive e s then s
          else let retired = ds_activeOccurrence s; s1 = clearActive s in
            if ds_deploymentTimedOut s then signalCompleted s1
            else signalCompleted (followCompletion env now e (cacheDeploymentCompletion now e retired s1)))"

subsection \<open>Terms (\<open>scheduler.go\<close>, \<open>scheduler_handlers.go\<close>, \<open>retained.go\<close>)\<close>

definition resetDeploymentTerm :: "sched \<Rightarrow> sched" where
  "resetDeploymentTerm s =
     (let s1 = stopRetryTimer ((clearActive s)\<lparr>ds_workRevision := ds_workRevision s + 1, ds_lastScheduled := None,
                 ds_pending := None, ds_retryStopped := True\<rparr>)
      in s1\<lparr>ds_deployFailureRetries := 0, ds_lastFailedRetry := None, ds_lastPodSetHash := [],
            ds_lastRendered := None, ds_lastValidated := None, ds_lastCorrelationID := [], ds_lastCoalescible := False,
            ds_currentEndpoints := [], ds_lastDeployed := None, ds_lastDispatched := None,
            ds_lastDeployedPodSetHash := [], ds_lastDeployedTime := None, ds_gatePinned := False,
            ds_acceptedRender := None\<rparr>)"

definition beginRetainedTerm :: "sched \<Rightarrow> sched" where
  "beginRetainedTerm s =
     (resetDeploymentTerm s)\<lparr>ds_retainedEpoch := ds_retainedEpoch s + 1, ds_retainedRecovering := False,
       ds_retainedRetryAt := None, ds_retainedRenderError := [], ds_retainedNotice := []\<rparr>"

text \<open>\<open>Start\<close> up to its event loop.\<close>

definition startTerm :: "sched \<Rightarrow> sched" where
  "startTerm s =
     (let s1 = beginRetainedTerm s in
      s1\<lparr>ds_retryStopped := False, ds_retryGeneration := ds_retryGeneration s1 + 1, ds_draining := False,
         ds_drainOccurrence := None, ds_dispatching := False, ds_followUpArmed := False, ds_lastScheduled := None,
         ds_pendingSignal := False, ds_completed := False, ds_cancelled := False\<rparr>)"

datatype sched_event =
    TemplateRendered "Occurrence option" string bool string
  | ConfigValidated "(string \<times> string) option"
  | RenderGateCompleted verdict
  | ValidationFailed string
  | ReconciliationFailed string
  | PodsDiscovered "Endpoint list"
  | DeploymentCompleted "completion option"
  | ConfigPublished string string
  | LostLeadership

fun handleEvent :: "sched_env \<Rightarrow> int \<Rightarrow> sched_event \<Rightarrow> sched \<Rightarrow> sched \<times> scheduledDeployment option" where
  "handleEvent env now (TemplateRendered oc correlationID coalescible trigger) s =
     handleTemplateRendered env oc correlationID coalescible trigger s"
| "handleEvent env now (ConfigValidated templateConfig) s = (handleConfigValidated templateConfig s, None)"
| "handleEvent env now (RenderGateCompleted v) s = handleRenderGateCompleted env now v s"
| "handleEvent env now (ValidationFailed correlationID) s = handleValidationFailed correlationID s"
| "handleEvent env now (ReconciliationFailed message) s = (renderFailedForRetention env now message s, None)"
| "handleEvent env now (PodsDiscovered endpoints) s = performPodsDiscovered env now endpoints s"
| "handleEvent env now (DeploymentCompleted e) s = (handleDeploymentCompleted env now e s, None)"
| "handleEvent env now (ConfigPublished name ns) s = (handleConfigPublished name ns s, None)"
| "handleEvent env now LostLeadership s = (resetDeploymentTerm s, None)"

end
