(* ===== verification/Monitored_Runs.thy ===== *)
theory Monitored_Runs
  imports Main
begin

section \<open>Runs that keep an invariant\<close>

text \<open>
  What a component with labelled steps promises while only some of its steps are taken: an invariant
  holds throughout, and the state only changes in a way that composes. The scheduler and the debouncer
  provide it for their step relations, and their properties over whole runs follow from one step.
\<close>

definition run_of :: "('l \<Rightarrow> 's \<Rightarrow> 's \<Rightarrow> bool) \<Rightarrow> ('l \<Rightarrow> bool) \<Rightarrow> 's \<Rightarrow> 's \<Rightarrow> bool" where
  "run_of step allowed = (\<lambda>c c'. \<exists>l. allowed l \<and> step l c c')\<^sup>*\<^sup>*"

lemma run_of_refl [simp]: "run_of step allowed c c"
  by (simp add: run_of_def)

lemma run_of_step: "run_of step allowed c c' \<Longrightarrow> allowed l \<Longrightarrow> step l c' c'' \<Longrightarrow> run_of step allowed c c''"
  unfolding run_of_def by (rule rtranclp.rtrancl_into_rtrancl) blast+

locale monitored_run =
  fixes step :: "'l \<Rightarrow> 's \<Rightarrow> 's \<Rightarrow> bool" and allowed :: "'l \<Rightarrow> bool" and inv :: "'s \<Rightarrow> bool"
    and evolves :: "'s \<Rightarrow> 's \<Rightarrow> bool"
  assumes evolves_refl: "evolves c c"
    and evolves_trans: "evolves c c' \<Longrightarrow> evolves c' c'' \<Longrightarrow> evolves c c''"
    and one_step: "step l c c' \<Longrightarrow> allowed l \<Longrightarrow> inv c \<Longrightarrow> evolves c c' \<and> inv c'"
begin

lemma run: "run_of step allowed c c' \<Longrightarrow> inv c \<Longrightarrow> evolves c c' \<and> inv c'"
  unfolding run_of_def
  by (induction rule: rtranclp_induct) (auto intro: evolves_refl dest: one_step evolves_trans)

end

end
