(* ===== verification/Scheduler_Steps.thy ===== *)
theory Scheduler_Steps
  imports Scheduler Monitored_Runs
begin

section \<open>The scheduler as interleaved goroutines\<close>

text \<open>
  The event loop of \<open>Start\<close>, the deploy loop \<open>runDeployLoop\<close>, the callbacks of the retry timer and a
  caller of \<open>Drain\<close> run concurrently and meet in the fields the scheduler's mutexes guard. A step is
  one locked section of one of them. Fields under \<open>mu\<close> are written by the event loop only, so a
  section of the event loop under \<open>mu\<close> is one step with the section under \<open>schedulerMutex\<close> that
  follows it; what a handler goes on to install is a step of its own.
\<close>

datatype loop_pc =
    AtTop | Waiting
  | Holding scheduledDeployment
  | Committed string bus_event
  | Awaiting
  | Finishing bool
  | Exited

datatype retry_pc =
    Fired nat nat string
  | Rescheduling nat nat string
  | RetryInstalling scheduledDeployment
  | RetrySettling

record config =
  cf_sched :: sched
  cf_loop :: loop_pc
  cf_install :: "scheduledDeployment option"
  cf_retries :: "retry_pc list"

datatype step_label =
    Handles sched_event | Installs | Ticks | Recovers | Loops | Retries | Drains | Cancels | ShutsDown | Restarts

text \<open>The steps of the deploy loop.\<close>

inductive loop_step :: "sched_env \<Rightarrow> sched \<times> loop_pc \<Rightarrow> sched \<times> loop_pc \<Rightarrow> bool" for env where
  take: "\<not> ds_cancelled s \<Longrightarrow> takePending s = (s', dep) \<Longrightarrow>
    loop_step env (s, AtTop) (s', case dep of None \<Rightarrow> Waiting | Some d \<Rightarrow> Holding d)"
| top_cancelled: "ds_cancelled s \<Longrightarrow> loop_step env (s, AtTop) (exitLoop s, Exited)"
| wake: "ds_pendingSignal s \<Longrightarrow> loop_step env (s, Waiting) (s\<lparr>ds_pendingSignal := False\<rparr>, AtTop)"
| wait_cancelled: "ds_cancelled s \<Longrightarrow> loop_step env (s, Waiting) (exitLoop s, Exited)"
| dispatch_cancelled: "ds_cancelled s \<Longrightarrow> loop_step env (s, Holding dep) (s, Finishing False)"
| unauthenticated: "\<not> ds_cancelled s \<Longrightarrow> newScheduledEvent env eventID dep s = None \<Longrightarrow>
    loop_step env (s, Holding dep) (s, Finishing True)"
| stale: "\<not> ds_cancelled s \<Longrightarrow> newScheduledEvent env eventID dep s = Some e \<Longrightarrow>
    commitDispatch env now eventID dep s = (s', False) \<Longrightarrow> loop_step env (s, Holding dep) (s', Finishing True)"
| commit: "\<not> ds_cancelled s \<Longrightarrow> newScheduledEvent env eventID dep s = Some e \<Longrightarrow> eventID \<noteq> [] \<Longrightarrow>
    commitDispatch env now eventID dep s = (s', True) \<Longrightarrow> loop_step env (s, Holding dep) (s', Committed eventID e)"
| committed_cancelled: "ds_cancelled s \<Longrightarrow>
    loop_step env (s, Committed eventID e) (clearDispatchedPending eventID s, Finishing False)"
| published: "\<not> ds_cancelled s \<Longrightarrow> loop_step env (s, Committed eventID e) (publish e s, Awaiting)"
| completed: "ds_completed s \<Longrightarrow> loop_step env (s, Awaiting) (s\<lparr>ds_completed := False\<rparr>, Finishing True)"
| await_cancelled: "ds_cancelled s \<Longrightarrow> loop_step env (s, Awaiting) (s, Finishing False)"
| finish: "loop_step env (s, Finishing True) (finishDispatch s, AtTop)"
| leave: "loop_step env (s, Finishing False) (exitLoop (finishDispatch s), Exited)"

text \<open>The steps of one callback of the retry timer; \<open>None\<close> is its end.\<close>

inductive retry_step :: "sched \<times> retry_pc \<Rightarrow> sched \<times> retry_pc option \<Rightarrow> bool" where
  begin_on: "beginRetry g w s = (s', True) \<Longrightarrow> retry_step (s, Fired g w reason) (s', Some (Rescheduling g w reason))"
| begin_off: "beginRetry g w s = (s', False) \<Longrightarrow> retry_step (s, Fired g w reason) (s', Some RetrySettling)"
| nothing: "retryDeployment g w reason s = None \<Longrightarrow> retry_step (s, Rescheduling g w reason) (s, Some RetrySettling)"
| something: "retryDeployment g w reason s = Some dep \<Longrightarrow>
    retry_step (s, Rescheduling g w reason) (s, Some (RetryInstalling dep))"
| install: "retry_step (s, RetryInstalling dep) (installPending dep s, Some RetrySettling)"
| settle: "retry_step (s, RetrySettling) (settleFollowUp s, None)"

inductive sched_step :: "sched_env \<Rightarrow> step_label \<Rightarrow> config \<Rightarrow> config \<Rightarrow> bool" for env where
  handle: "cf_install c = None \<Longrightarrow> handleEvent env now ev (cf_sched c) = (s', dep) \<Longrightarrow>
    sched_step env (Handles ev) c (c\<lparr>cf_sched := s', cf_install := dep\<rparr>)"
| install: "cf_install c = Some dep \<Longrightarrow>
    sched_step env Installs c (c\<lparr>cf_sched := installPending dep (cf_sched c), cf_install := None\<rparr>)"
| tick: "cf_install c = None \<Longrightarrow>
    sched_step env Ticks c (c\<lparr>cf_sched := maybeRecoverRetained env now (checkDeploymentTimeout env now (cf_sched c))\<rparr>)"
| recover: "cf_install c = None \<Longrightarrow> handleRetainedResult env now result (cf_sched c) = (s', dep) \<Longrightarrow>
    sched_step env Recovers c (c\<lparr>cf_sched := s', cf_install := dep\<rparr>)"
| loop: "loop_step env (cf_sched c, cf_loop c) (s', pc') \<Longrightarrow> sched_step env Loops c (c\<lparr>cf_sched := s', cf_loop := pc'\<rparr>)"
| fire: "ds_retryTimer (cf_sched c) = Some t \<Longrightarrow>
    Fired (rt_generation t) (rt_workRevision t) (rt_reason t) \<notin> set (cf_retries c) \<Longrightarrow>
    sched_step env Retries c (c\<lparr>cf_retries := Fired (rt_generation t) (rt_workRevision t) (rt_reason t) # cf_retries c\<rparr>)"
| retry: "cf_retries c = before @ pc # after \<Longrightarrow> retry_step (cf_sched c, pc) (s', pc') \<Longrightarrow>
    sched_step env Retries c (c\<lparr>cf_sched := s',
      cf_retries := before @ (case pc' of None \<Rightarrow> [] | Some q \<Rightarrow> [q]) @ after\<rparr>)"
| drain: "sched_step env Drains c (c\<lparr>cf_sched := beginDrain (cf_sched c)\<rparr>)"
| cancel: "sched_step env Cancels c (c\<lparr>cf_sched := (cf_sched c)\<lparr>ds_cancelled := True\<rparr>\<rparr>)"
| shut_down: "cf_install c = None \<Longrightarrow> ds_cancelled (cf_sched c) \<Longrightarrow>
    sched_step env ShutsDown c (c\<lparr>cf_sched := stopFailureRetries (cf_sched c)\<rparr>)"
| restart: "cf_install c = None \<Longrightarrow> cf_loop c = Exited \<Longrightarrow> cf_retries c = [] \<Longrightarrow>
    sched_step env Restarts c (c\<lparr>cf_sched := startTerm (cf_sched c), cf_loop := AtTop\<rparr>)"

inductive_cases loop_stepE: "loop_step env (s, pc) (s', pc')"
inductive_cases retry_stepE: "retry_step (s, pc) (s', pc')"

text \<open>A new scheduler, in the term it is started for.\<close>

definition newDeploymentScheduler :: sched where
  "newDeploymentScheduler = \<lparr>ds_deployInFlight = False, ds_deploymentTimedOut = False, ds_activeDeploymentID = [],
     ds_activeCorrelationID = [], ds_activeOccurrence = None, ds_deploymentStartTime = None, ds_lastScheduled = None,
     ds_pending = None, ds_workRevision = 0, ds_retryTimer = None, ds_retryGeneration = 0, ds_retryStopped = False,
     ds_deployFailureRetries = 0, ds_lastFailedRetry = None, ds_lastPodSetHash = [], ds_draining = False,
     ds_drainOccurrence = None, ds_dispatching = False, ds_followUpArmed = False, ds_lastRendered = None,
     ds_lastValidated = None, ds_lastCorrelationID = [], ds_lastCoalescible = False, ds_currentEndpoints = [],
     ds_runtimeConfigName = [], ds_runtimeConfigNamespace = [], ds_templateConfigName = [],
     ds_templateConfigNamespace = [], ds_gatePinned = False, ds_acceptedRender = None, ds_lastDeployed = None,
     ds_lastDeployedPodSetHash = [], ds_lastDeployedTime = None, ds_lastDispatched = None, ds_lastFleetVersion = [],
     ds_retainedEpoch = 0, ds_retainedRecovering = False, ds_retainedRetryAt = None, ds_retainedRenderError = [],
     ds_retainedNotice = [], ds_pendingSignal = False, ds_completed = False, ds_drainProgress = False,
     ds_cancelled = False, ds_bus = []\<rparr>"

definition startConfig :: config where
  "startConfig = \<lparr>cf_sched = startTerm newDeploymentScheduler, cf_loop = AtTop, cf_install = None, cf_retries = []\<rparr>"

inductive reachable :: "sched_env \<Rightarrow> config \<Rightarrow> bool" for env where
  start: "reachable env startConfig"
| step: "reachable env c \<Longrightarrow> sched_step env l c c' \<Longrightarrow> reachable env c'"

subsection \<open>What the sections leave alone\<close>

lemma publish_frame [simp]:
  "ds_deployInFlight (publish e s) = ds_deployInFlight s" "ds_completed (publish e s) = ds_completed s"
  "ds_pending (publish e s) = ds_pending s" "ds_pendingSignal (publish e s) = ds_pendingSignal s"
  "ds_workRevision (publish e s) = ds_workRevision s" "ds_draining (publish e s) = ds_draining s"
  "ds_drainOccurrence (publish e s) = ds_drainOccurrence s" "ds_lastScheduled (publish e s) = ds_lastScheduled s"
  "ds_lastValidated (publish e s) = ds_lastValidated s" "ds_gatePinned (publish e s) = ds_gatePinned s"
  "ds_acceptedRender (publish e s) = ds_acceptedRender s" "ds_cancelled (publish e s) = ds_cancelled s"
  "ds_retryTimer (publish e s) = ds_retryTimer s" "ds_deployFailureRetries (publish e s) = ds_deployFailureRetries s"
  "ds_currentEndpoints (publish e s) = ds_currentEndpoints s" "ds_bus (publish e s) = ds_bus s @ [e]"
  "ds_activeDeploymentID (publish e s) = ds_activeDeploymentID s" "ds_activeOccurrence (publish e s) = ds_activeOccurrence s"
  by (simp_all add: publish_def)

lemma installPending_frame [simp]:
  "ds_deployInFlight (installPending d s) = ds_deployInFlight s" "ds_completed (installPending d s) = ds_completed s"
  "ds_workRevision (installPending d s) = ds_workRevision s" "ds_draining (installPending d s) = ds_draining s"
  "ds_drainOccurrence (installPending d s) = ds_drainOccurrence s" "ds_lastScheduled (installPending d s) = ds_lastScheduled s"
  "ds_lastValidated (installPending d s) = ds_lastValidated s" "ds_gatePinned (installPending d s) = ds_gatePinned s"
  "ds_acceptedRender (installPending d s) = ds_acceptedRender s" "ds_cancelled (installPending d s) = ds_cancelled s"
  "ds_retryTimer (installPending d s) = ds_retryTimer s" "ds_bus (installPending d s) = ds_bus s"
  "ds_deployFailureRetries (installPending d s) = ds_deployFailureRetries s"
  "ds_activeDeploymentID (installPending d s) = ds_activeDeploymentID s"
  "ds_activeOccurrence (installPending d s) = ds_activeOccurrence s"
  by (simp_all add: installPending_def signalLoop_def)

text \<open>Two states that agree on the deploy loop's fields, but for pending work having been dropped.\<close>

definition same_slot :: "sched \<Rightarrow> sched \<Rightarrow> bool" where
  "same_slot s s' \<longleftrightarrow> ds_deployInFlight s' = ds_deployInFlight s \<and> ds_completed s' = ds_completed s \<and>
     ds_pendingSignal s' = ds_pendingSignal s \<and> (ds_pending s' = ds_pending s \<or> ds_pending s' = None) \<and>
     ds_draining s' = ds_draining s \<and> ds_drainOccurrence s' = ds_drainOccurrence s \<and>
     ds_lastScheduled s' = ds_lastScheduled s \<and> ds_cancelled s' = ds_cancelled s \<and>
     ds_activeDeploymentID s' = ds_activeDeploymentID s \<and> ds_activeOccurrence s' = ds_activeOccurrence s"

lemma same_slot_refl [simp]: "same_slot s s"
  by (simp add: same_slot_def)

lemma same_slot_trans [trans]: "same_slot s t \<Longrightarrow> same_slot t u \<Longrightarrow> same_slot s u"
  by (auto simp: same_slot_def)

lemma same_slot_publish [simp]: "same_slot s (publish e t) = same_slot s t"
  by (simp add: same_slot_def)

lemma admitWork_slot: "admitWork oc endpoints reason cid co s = (s', dep) \<Longrightarrow> same_slot s s'"
  by (auto simp: admitWork_def Let_def same_slot_def split: option.splits if_splits)

lemma maybeRecoverRetained_slot: "same_slot s (maybeRecoverRetained env now s)"
  by (simp add: maybeRecoverRetained_def same_slot_def)

lemma stopRetryTimer_slot: "same_slot s (stopRetryTimer s)" "same_slot s (armRetryTimer reason wait s)"
  by (simp_all add: stopRetryTimer_def armRetryTimer_def Let_def same_slot_def)

lemma cancelFailureRetry_slot: "same_slot s (cancelFailureRetry s)" "same_slot s (stopFailureRetries s)"
  by (auto simp: cancelFailureRetry_def stopFailureRetries_def dropPendingRetry_def stopRetryTimer_def same_slot_def
      split: option.splits)

lemma scheduleFailureRetry_slot: "same_slot s (scheduleFailureRetry env oc s)"
  by (simp add: scheduleFailureRetry_def armRetryTimer_def stopRetryTimer_def Let_def same_slot_def)

lemma schedulePendingReloadFollowUp_slot: "same_slot s (schedulePendingReloadFollowUp now until s)"
  by (simp add: schedulePendingReloadFollowUp_def armRetryTimer_def stopRetryTimer_def Let_def same_slot_def)

lemma followCompletion_slot: "same_slot s (followCompletion env now e s)"
  by (simp add: followCompletion_def scheduleFailureRetry_slot schedulePendingReloadFollowUp_slot cancelFailureRetry_slot)

lemma cacheDeploymentCompletion_slot: "same_slot s (cacheDeploymentCompletion now e oc s)"
  by (simp add: cacheDeploymentCompletion_def Let_def same_slot_def)

lemma promoteRendered_slot: "promoteRendered cid co s = (s', oc) \<Longrightarrow> same_slot s s'"
  by (auto simp: promoteRendered_def same_slot_def split: option.splits)

lemma dispatchRender_slot:
  assumes "dispatchRender env cid co reason s = (s', dep)"
  shows "same_slot s s'"
proof -
  obtain s1 oc where s1: "promoteRendered cid co s = (s1, oc)" by fastforce
  have "same_slot s1 s'"
    using assms s1 by (auto simp: dispatchRender_def Let_def split: option.splits if_splits intro: admitWork_slot)
  with promoteRendered_slot [OF s1] show ?thesis by (rule same_slot_trans)
qed

lemma handleTemplateRendered_slot:
  assumes "handleTemplateRendered env oc cid co trigger s = (s', dep)"
  shows "same_slot s s'"
proof -
  let ?s = "(cancelRetainedRecovery s)\<lparr>ds_retainedRenderError := [], ds_lastRendered := oc\<rparr>"
  have "same_slot s ?s" by (simp add: cancelRetainedRecovery_def same_slot_def)
  moreover have "s' = s \<or> same_slot ?s s'"
    using assms by (auto simp: handleTemplateRendered_def Let_def split: if_splits intro: dispatchRender_slot)
  ultimately show ?thesis by (auto intro: same_slot_trans)
qed

lemma holdAfterRefusal_slot: "same_slot s (holdAfterRefusal v s)"
  by (auto simp: holdAfterRefusal_def dropPendingRender_def rollBackToAcceptedRender_def Let_def same_slot_def
      split: option.splits)

lemma handleRenderGateCompleted_slot:
  assumes "handleRenderGateCompleted env now v s = (s', dep)"
  shows "same_slot s s'"
proof -
  let ?r = "renderFailedForRetention env now (vd_Message v) (holdAfterRefusal v s)"
  have refused: "same_slot s ?r"
  proof -
    have "same_slot (holdAfterRefusal v s) ((holdAfterRefusal v s)\<lparr>ds_retainedRenderError := vd_Message v\<rparr>)"
      by (simp add: same_slot_def)
    then have "same_slot (holdAfterRefusal v s) ?r"
      unfolding renderFailedForRetention_def by (rule same_slot_trans) (rule maybeRecoverRetained_slot)
    with holdAfterRefusal_slot show ?thesis by (rule same_slot_trans)
  qed
  have accept: "same_slot s t \<Longrightarrow> same_slot s (acceptRender t)" for t by (simp add: acceptRender_def same_slot_def)
  have pin: "same_slot s t \<Longrightarrow> same_slot s (t\<lparr>ds_gatePinned := b\<rparr>)" for t b by (simp add: same_slot_def)
  have released: "same_slot s s3" if "dispatchRender env cid co reason (s\<lparr>ds_gatePinned := b\<rparr>) = (s3, d)" for cid co reason b s3 d
    using dispatchRender_slot [OF that] pin [OF same_slot_refl] by (rule same_slot_trans [rotated])
  show ?thesis
    using assms refused
    by (auto simp: handleRenderGateCompleted_def Let_def split: if_splits prod.splits
        intro!: accept pin intro: released)
qed

lemma handleValidationFailed_slot: "handleValidationFailed cid s = (s', dep) \<Longrightarrow> same_slot s s'"
  by (auto simp: handleValidationFailed_def split: if_splits intro: admitWork_slot)

lemma publishFleetCapabilities_slot: "same_slot s (publishFleetCapabilities env endpoints s)"
  by (auto simp: publishFleetCapabilities_def Let_def same_slot_def split: option.splits)

lemma noteFleet_slot: "same_slot s (noteFleet env endpoints s)"
proof -
  have set: "same_slot s (t\<lparr>ds_currentEndpoints := endpoints\<rparr>) = same_slot s t" for t by (simp add: same_slot_def)
  have drop: "same_slot s (s\<lparr>ds_workRevision := ds_workRevision s + 1, ds_pending := None\<rparr>)" by (simp add: same_slot_def)
  show ?thesis
    by (auto simp: noteFleet_def Let_def set publishFleetCapabilities_slot
        intro: same_slot_trans [OF drop publishFleetCapabilities_slot, simplified])
qed

lemma performPodsDiscovered_slot:
  assumes "performPodsDiscovered env now endpoints s = (s', dep)"
  shows "same_slot s s'"
proof -
  let ?s = "noteFleet env endpoints s"
  have retry: "same_slot ?s (maybeRecoverRetained env now (?s\<lparr>ds_retainedRetryAt := None\<rparr>))"
    by (rule same_slot_trans [OF _ maybeRecoverRetained_slot]) (simp add: same_slot_def)
  have "same_slot ?s s'"
    using assms retry by (auto simp: performPodsDiscovered_def Let_def split: if_splits intro: admitWork_slot)
  with noteFleet_slot show ?thesis by (rule same_slot_trans)
qed

text \<open>
  What an event can do to the slot: nothing but drop pending work, or end the deployment in flight,
  in which case a completion may have been signalled.
\<close>

definition slot_move :: "sched \<Rightarrow> sched \<Rightarrow> bool" where
  "slot_move s s' \<longleftrightarrow> (ds_pending s' = ds_pending s \<or> ds_pending s' = None) \<and> ds_pendingSignal s' = ds_pendingSignal s \<and>
     ds_draining s' = ds_draining s \<and> ds_drainOccurrence s' = ds_drainOccurrence s \<and> ds_cancelled s' = ds_cancelled s \<and>
     (ds_deployInFlight s' = ds_deployInFlight s \<and> ds_completed s' = ds_completed s \<and>
      ds_activeDeploymentID s' = ds_activeDeploymentID s \<and> ds_activeOccurrence s' = ds_activeOccurrence s \<or>
      \<not> ds_deployInFlight s' \<and> (ds_completed s' = ds_completed s \<or> ds_deployInFlight s))"

lemma same_slot_move: "same_slot s s' \<Longrightarrow> slot_move s s'"
  by (auto simp: same_slot_def slot_move_def)

lemma handleDeploymentCompleted_move: "slot_move s (handleDeploymentCompleted env now event s)"
proof -
  have move: "slot_move s (signalCompleted t)" if "same_slot (clearActive s) t" "ds_deployInFlight s" for t
    using that by (auto simp: same_slot_def slot_move_def clearActive_def signalCompleted_def)
  have "same_slot (clearActive s) (followCompletion env now e (cacheDeploymentCompletion now e oc (clearActive s)))" for e oc
    by (rule same_slot_trans [OF cacheDeploymentCompletion_slot followCompletion_slot])
  then show ?thesis
    by (auto simp: handleDeploymentCompleted_def matchesActive_def Let_def same_slot_move split: option.splits intro!: move)
qed

lemma resetDeploymentTerm_move: "slot_move s (resetDeploymentTerm s)"
  by (simp add: resetDeploymentTerm_def stopRetryTimer_def clearActive_def Let_def slot_move_def)

lemma renderFailedForRetention_slot: "same_slot s (renderFailedForRetention env now message s)"
  unfolding renderFailedForRetention_def
  by (rule same_slot_trans [OF _ maybeRecoverRetained_slot]) (simp add: same_slot_def)

lemma handleConfig_slot: "same_slot s (handleConfigValidated tc s)" "same_slot s (handleConfigPublished name ns s)"
  by (simp_all add: handleConfigValidated_def handleConfigPublished_def same_slot_def split: option.split)

lemma handleEvent_move:
  assumes "handleEvent env now ev s = (s', dep)"
  shows "slot_move s s'"
  using assms
  by (cases ev)
     (auto intro: same_slot_move handleTemplateRendered_slot handleRenderGateCompleted_slot handleValidationFailed_slot
        performPodsDiscovered_slot renderFailedForRetention_slot handleDeploymentCompleted_move resetDeploymentTerm_move
        handleConfig_slot)

lemma handleRetainedResult_slot:
  assumes "handleRetainedResult env now result s = (s', dep)"
  shows "same_slot s s'"
proof -
  let ?s = "s\<lparr>ds_retainedRecovering := False, ds_retainedRetryAt := Some (now + 5000000000)\<rparr>"
  have report: "same_slot s t \<Longrightarrow> same_slot s (reportRetained env reason message t)" for reason message t
    by (simp add: reportRetained_def same_slot_def)
  have s: "same_slot s ?s" by (simp add: same_slot_def)
  then have active: "same_slot s (reportRetained env reason message (publish e ?s))" for reason message e
    by (intro report) simp
  have admitted: "same_slot s s'" if "admitWork oc endpoints why cid co (reportRetained env reason message (publish e ?s)) = (s', dep)"
    for oc endpoints why cid co reason message e
    using active admitWork_slot [OF that] by (rule same_slot_trans)
  from assms show ?thesis
    unfolding handleRetainedResult_def Let_def
    by (auto simp: s report split: if_splits option.splits intro: admitted)
qed

lemma checkDeploymentTimeout_slot: "same_slot s (checkDeploymentTimeout env now s)"
  by (auto simp: checkDeploymentTimeout_def Let_def same_slot_def split: option.splits)

lemma tick_slot: "same_slot s (maybeRecoverRetained env now (checkDeploymentTimeout env now s))"
  using checkDeploymentTimeout_slot maybeRecoverRetained_slot by (rule same_slot_trans)

lemma settleFollowUp_slot: "same_slot s (settleFollowUp s)"
  by (simp add: settleFollowUp_def signalDrainProgress_def same_slot_def)

lemma beginRetry_slot: "beginRetry g w s = (s', b) \<Longrightarrow> same_slot s s'"
  by (auto simp: beginRetry_def same_slot_def split: if_splits)

subsection \<open>One deployment in flight, and no lost wake-up\<close>

text \<open>The loop owns a deployment: it has committed one and not yet heard of its end, or it has left.\<close>

fun owns_slot :: "loop_pc \<Rightarrow> bool" where
  "owns_slot (Committed _ _) = True"
| "owns_slot Awaiting = True"
| "owns_slot (Finishing again) = (\<not> again)"
| "owns_slot Exited = True"
| "owns_slot _ = False"

definition slot_ok :: "sched \<Rightarrow> loop_pc \<Rightarrow> bool" where
  "slot_ok s pc \<longleftrightarrow> (ds_deployInFlight s \<longrightarrow> owns_slot pc) \<and>
     (ds_completed s \<longrightarrow> \<not> ds_deployInFlight s \<and> owns_slot pc) \<and>
     (ds_pending s \<noteq> None \<longrightarrow> pc = Waiting \<longrightarrow> ds_pendingSignal s)"

lemma slot_ok_move: "slot_ok s pc \<Longrightarrow> slot_move s s' \<Longrightarrow> slot_ok s' pc"
  by (auto simp: slot_ok_def slot_move_def)

lemmas slot_ok_same = slot_ok_move [OF _ same_slot_move]

lemma slot_ok_install: "slot_ok s pc \<Longrightarrow> slot_ok (installPending dep s) pc"
  by (auto simp: slot_ok_def installPending_def signalLoop_def)

lemma slot_ok_loop:
  assumes "loop_step env (s, pc) (s', pc')" and "slot_ok s pc"
  shows "slot_ok s' pc'"
  using assms
  by (cases rule: loop_stepE)
     (auto simp: slot_ok_def takePending_def exitLoop_def commitDispatch_def clearDispatchedPending_def clearActive_def
        finishDispatch_def signalDrainProgress_def split: option.splits if_splits)

lemma slot_ok_retry:
  assumes "retry_step (s, pc) (s', pc')" and "slot_ok s loop"
  shows "slot_ok s' loop"
  using assms
  by (cases rule: retry_stepE)
     (auto intro: slot_ok_same beginRetry_slot settleFollowUp_slot slot_ok_install)

lemma slot_ok_drain: "slot_ok s pc \<Longrightarrow> slot_ok (beginDrain s) pc"
  by (auto simp: slot_ok_def beginDrain_def Let_def split: option.splits)

lemma slot_ok_start: "slot_ok (startTerm s) AtTop"
  by (simp add: slot_ok_def startTerm_def beginRetainedTerm_def resetDeploymentTerm_def stopRetryTimer_def clearActive_def Let_def)

lemma slot_ok_step:
  assumes "sched_step env l c c'" and "slot_ok (cf_sched c) (cf_loop c)"
  shows "slot_ok (cf_sched c') (cf_loop c')"
  using assms
proof (cases rule: sched_step.cases)
  case (tick now)
  with assms(2) show ?thesis by (auto intro: slot_ok_same tick_slot)
qed (auto intro: slot_ok_move handleEvent_move slot_ok_install slot_ok_same handleRetainedResult_slot slot_ok_loop slot_ok_retry
    slot_ok_drain cancelFailureRetry_slot slot_ok_start simp: slot_ok_def [of "ds_cancelled_update _ _"], simp_all add: slot_ok_def)

lemma reachable_slot_ok: "reachable env c \<Longrightarrow> slot_ok (cf_sched c) (cf_loop c)"
  by (induction rule: reachable.induct) (auto simp: startConfig_def slot_ok_start intro: slot_ok_step)

end
