(* ===== verification/Scheduler_Safety.thy ===== *)
theory Scheduler_Safety
  imports Scheduler_Steps
begin

section \<open>What the scheduler guarantees\<close>

text \<open>
  Properties of every interleaving of \<open>Scheduler_Steps\<close>: one deployment in flight, progress of the
  deploy loop, a refused plan stays held back, what a drain admits, and the bounds of the retries.
\<close>

subsection \<open>One deployment at a time\<close>

lemma step_keeps_active:
  assumes "sched_step env l c c'" and "slot_ok (cf_sched c) (cf_loop c)"
    and "ds_deployInFlight (cf_sched c)" and "ds_deployInFlight (cf_sched c')"
  shows "ds_activeDeploymentID (cf_sched c') = ds_activeDeploymentID (cf_sched c) \<and>
    ds_activeOccurrence (cf_sched c') = ds_activeOccurrence (cf_sched c)"
  using assms(1)
proof (cases rule: sched_step.cases)
  case (handle now ev s' dep)
  with handleEvent_move [OF handle(4)] assms(3,4) show ?thesis by (auto simp: slot_move_def)
next
  case (tick now)
  with tick_slot [of "cf_sched c" env now] show ?thesis by (simp add: same_slot_def)
next
  case (recover now result s' dep)
  with handleRetainedResult_slot [OF recover(4)] show ?thesis by (simp add: same_slot_def)
next
  case (loop s' pc')
  with assms(2-4) show ?thesis
    by (elim loop_stepE)
       (auto simp: slot_ok_def takePending_def exitLoop_def commitDispatch_def clearDispatchedPending_def clearActive_def
          finishDispatch_def signalDrainProgress_def split: if_splits)
next
  case (retry before pc after s' pc')
  from retry(4) have "same_slot (cf_sched c) s' \<or> (\<exists>dep. s' = installPending dep (cf_sched c))"
    by (cases rule: retry_stepE) (auto intro: beginRetry_slot settleFollowUp_slot)
  with retry show ?thesis by (auto simp: same_slot_def)
next
  case drain
  then show ?thesis by (auto simp: beginDrain_def Let_def split: option.splits)
next
  case shut_down
  with cancelFailureRetry_slot(2) [of "cf_sched c"] show ?thesis by (simp add: same_slot_def)
next
  case restart
  with assms(4) show ?thesis
    by (simp add: startTerm_def beginRetainedTerm_def resetDeploymentTerm_def stopRetryTimer_def clearActive_def Let_def)
qed simp_all

text \<open>
  C13. In every interleaving of the event loop, the deploy loop, the retry callbacks and a drain, a
  deployment in flight is never replaced by another: while one is in flight, each step leaves it the
  active one or ends it, and the deploy loop can only take the slot when none is in flight.
\<close>

theorem single_deployment_in_flight:
  assumes "reachable env c" and "sched_step env l c c'" and "ds_deployInFlight (cf_sched c)"
  shows "(ds_deployInFlight (cf_sched c') \<longrightarrow>
      ds_activeDeploymentID (cf_sched c') = ds_activeDeploymentID (cf_sched c) \<and>
      ds_activeOccurrence (cf_sched c') = ds_activeOccurrence (cf_sched c)) \<and>
    cf_loop c \<notin> {AtTop, Waiting} \<union> range Holding \<union> {Finishing True}"
  using step_keeps_active [OF assms(2) reachable_slot_ok [OF assms(1)] assms(3)] reachable_slot_ok [OF assms(1)] assms(3)
  by (auto simp: slot_ok_def)

subsection \<open>Progress\<close>

lemma loop_sched_step:
  "loop_step env (cf_sched c, cf_loop c) (s', pc') \<Longrightarrow> sched_step env Loops c (c\<lparr>cf_sched := s', cf_loop := pc'\<rparr>)"
  by (rule sched_step.loop)

lemma dispatch_from_top:
  assumes "cf_loop c = AtTop" and "\<not> ds_cancelled (cf_sched c)" and "ds_pending (cf_sched c) = Some dep"
    and "pendingRevisionCurrent (cf_sched c) dep" and "inspectOccurrence (sd_occurrence dep) = Some oc" and "eventID \<noteq> []"
  shows "\<exists>c' name ns. (sched_step env Loops)\<^sup>*\<^sup>* c c' \<and> cf_loop c' = Awaiting \<and> ds_deployInFlight (cf_sched c') \<and>
    ds_activeDeploymentID (cf_sched c') = eventID \<and> ds_bus (cf_sched c') = ds_bus (cf_sched c) @ [DeploymentScheduled eventID dep name ns]"
proof -
  let ?s = "cf_sched c"
  define s1 where "s1 = ?s\<lparr>ds_pending := None, ds_dispatching := True\<rparr>"
  define c1 where "c1 = c\<lparr>cf_sched := s1, cf_loop := Holding dep\<rparr>"
  have take: "loop_step env (cf_sched c, cf_loop c) (s1, Holding dep)"
    using loop_step.take [of ?s s1 "Some dep" env] assms(1-3) by (simp add: takePending_def s1_def)
  obtain name ns where names: "resolveRuntimeConfigName env s1 = (name, ns)" by fastforce
  let ?e = "DeploymentScheduled eventID dep name ns"
  have event: "newScheduledEvent env eventID dep s1 = Some ?e" using assms(5) names by (simp add: newScheduledEvent_def)
  define s2 where "s2 = fst (commitDispatch env 0 eventID dep s1)"
  have "pendingRevisionCurrent s1 dep" using assms(4) by (simp add: pendingRevisionCurrent_def s1_def)
  then have commit: "commitDispatch env 0 eventID dep s1 = (s2, True)"
    and s2: "ds_bus s2 = ds_bus ?s" "ds_deployInFlight s2" "ds_activeDeploymentID s2 = eventID" "\<not> ds_cancelled s2"
    using assms(2) by (simp_all add: s2_def commitDispatch_def s1_def)
  define c2 where "c2 = c1\<lparr>cf_sched := s2, cf_loop := Committed eventID ?e\<rparr>"
  define c3 where "c3 = c2\<lparr>cf_sched := publish ?e s2, cf_loop := Awaiting\<rparr>"
  have "sched_step env Loops c c1" unfolding c1_def using take by (rule loop_sched_step)
  moreover have "sched_step env Loops c1 c2"
    unfolding c2_def
    by (rule loop_sched_step, simp add: c1_def, rule loop_step.commit [OF _ event assms(6) commit]) (simp add: s1_def assms(2))
  moreover have "sched_step env Loops c2 c3"
    unfolding c3_def
    by (rule loop_sched_step, simp add: c2_def, rule loop_step.published) (rule s2(4))
  ultimately have "(sched_step env Loops)\<^sup>*\<^sup>* c c3" by (meson converse_rtranclp_into_rtranclp rtranclp.rtrancl_refl)
  moreover have "cf_loop c3 = Awaiting" "cf_sched c3 = publish ?e s2" by (simp_all add: c3_def)
  ultimately show ?thesis using s2 by (intro exI [of _ c3] exI [of _ name] exI [of _ ns]) simp
qed

text \<open>
  C27. A pending deployment that is still current does not wait for another event: in every reachable
  state in which the deploy loop is not busy with a deployment, steps of the loop alone announce the
  pending deployment, whatever identifier its event is given.
\<close>

theorem pending_is_dispatched:
  assumes "reachable env c" and "\<not> ds_cancelled (cf_sched c)" and "cf_loop c \<in> {AtTop, Waiting, Finishing True}"
    and "ds_pending (cf_sched c) = Some dep" and "pendingRevisionCurrent (cf_sched c) dep"
    and "inspectOccurrence (sd_occurrence dep) \<noteq> None" and "eventID \<noteq> []"
  shows "\<exists>c' name ns. (sched_step env Loops)\<^sup>*\<^sup>* c c' \<and> cf_loop c' = Awaiting \<and> ds_deployInFlight (cf_sched c') \<and>
    ds_activeDeploymentID (cf_sched c') = eventID \<and> ds_bus (cf_sched c') = ds_bus (cf_sched c) @ [DeploymentScheduled eventID dep name ns]"
proof -
  obtain oc where oc: "inspectOccurrence (sd_occurrence dep) = Some oc" using assms(6) by blast
  let ?s = "cf_sched c"
  have top: "\<exists>s'. (sched_step env Loops)\<^sup>*\<^sup>* c (c\<lparr>cf_sched := s', cf_loop := AtTop\<rparr>) \<and> \<not> ds_cancelled s' \<and>
      ds_pending s' = Some dep \<and> pendingRevisionCurrent s' dep \<and> ds_bus s' = ds_bus ?s"
  proof (cases "cf_loop c")
    case AtTop
    then have "c = c\<lparr>cf_sched := ?s, cf_loop := AtTop\<rparr>" by simp
    with assms show ?thesis by (metis rtranclp.rtrancl_refl)
  next
    case Waiting
    with reachable_slot_ok [OF assms(1)] assms(4) have "ds_pendingSignal ?s" by (simp add: slot_ok_def)
    then have "sched_step env Loops c (c\<lparr>cf_sched := ?s\<lparr>ds_pendingSignal := False\<rparr>, cf_loop := AtTop\<rparr>)"
      by (intro loop_sched_step) (simp add: Waiting loop_step.wake)
    with assms(2,4,5) show ?thesis
      by (intro exI [of _ "?s\<lparr>ds_pendingSignal := False\<rparr>"]) (auto simp: pendingRevisionCurrent_def)
  next
    case (Finishing b)
    then have "sched_step env Loops c (c\<lparr>cf_sched := finishDispatch ?s, cf_loop := AtTop\<rparr>)"
      using assms(3) by (intro loop_sched_step) (simp add: loop_step.finish)
    with assms(2,4,5) show ?thesis
      by (intro exI [of _ "finishDispatch ?s"]) (auto simp: pendingRevisionCurrent_def finishDispatch_def signalDrainProgress_def)
  qed (use assms(3) in auto)
  then obtain s' where s': "(sched_step env Loops)\<^sup>*\<^sup>* c (c\<lparr>cf_sched := s', cf_loop := AtTop\<rparr>)" "\<not> ds_cancelled s'"
    "ds_pending s' = Some dep" "pendingRevisionCurrent s' dep" "ds_bus s' = ds_bus ?s" by blast
  from dispatch_from_top [of "c\<lparr>cf_sched := s', cf_loop := AtTop\<rparr>" dep oc eventID env] s' oc assms(7) show ?thesis
    by (auto intro: rtranclp_trans)
qed

subsection \<open>A sample term\<close>

definition sampleEnv :: sched_env where
  "sampleEnv = \<lparr>env_hmac = id, env_sha = id, env_minimumVersion = (\<lambda>_. None), env_runtimeConfigName = id,
     env_minDeploymentInterval = 2000000000, env_deploymentTimeout = 30000000000, env_capabilities = False, env_retained = False\<rparr>"

definition sampleEndpoint :: Endpoint where
  "sampleEndpoint = \<lparr>ep_URL = ''http://10.0.0.1:5555'', ep_Username = ''admin'', ep_Password = ''pw'', ep_PodName = ''haproxy-0'',
     ep_PodNamespace = ''haproxy'', ep_PodUID = ''u0'', ep_PodRuntimeID = ''r0'', ep_DetectedMajorVersion = 3,
     ep_DetectedMinorVersion = 2, ep_DetectedFullVersion = ''3.2.1''\<rparr>"

definition sampleOccurrence :: "nat \<Rightarrow> string \<Rightarrow> Occurrence" where
  "sampleOccurrence n plan = \<lparr>oc_ref = n, oc_authentic = True, oc_readable = True, oc_planID = plan, oc_checksum = plan, oc_output = n\<rparr>"

definition sampleDeployment :: scheduledDeployment where
  "sampleDeployment = \<lparr>sd_workRevision = 2, sd_retryGeneration = 0, sd_occurrence = Some (sampleOccurrence 1 ''p1''),
     sd_endpoints = [sampleEndpoint], sd_reason = ''config_validation'', sd_correlationID = ''c1'', sd_coalescible = True\<rparr>"

text \<open>The pods have been discovered and the first render has been queued.\<close>

definition sampleQueued :: config where
  "sampleQueued =
     (let s1 = fst (handleEvent sampleEnv 0 (PodsDiscovered [sampleEndpoint]) (cf_sched startConfig));
          (s2, dep) = handleEvent sampleEnv 0 (TemplateRendered (Some (sampleOccurrence 1 ''p1'')) ''c1'' True ''change'') s1
      in startConfig\<lparr>cf_sched := installPending (the dep) s2\<rparr>)"

lemmas sample_sched_defs = sampleEnv_def sampleEndpoint_def sampleOccurrence_def sampleDeployment_def startConfig_def startTerm_def
  newDeploymentScheduler_def beginRetainedTerm_def resetDeploymentTerm_def stopRetryTimer_def clearActive_def Let_def
  performPodsDiscovered_def noteFleet_def publishFleetCapabilities_def maybeRecoverRetained_def handleTemplateRendered_def
  inspectOccurrence_def cancelRetainedRecovery_def awaitingFirstAcceptedRender_def dispatchRender_def promoteRendered_def
  renderAlreadyDeployed_def sameOccurrenceOutput_def admitWork_def drainAdmits_def deployReason_def installPending_def
  pendingRevisionCurrent_def signalLoop_def

lemma sample_queued:
  "reachable sampleEnv sampleQueued" "cf_loop sampleQueued = AtTop" "cf_install sampleQueued = None" "cf_retries sampleQueued = []"
  "ds_pending (cf_sched sampleQueued) = Some sampleDeployment" "\<not> ds_cancelled (cf_sched sampleQueued)"
  "pendingRevisionCurrent (cf_sched sampleQueued) sampleDeployment" "ds_lastScheduled (cf_sched sampleQueued) = None"
  "inspectOccurrence (sd_occurrence sampleDeployment) = Some (sampleOccurrence 1 ''p1'')"
proof -
  let ?pods = "PodsDiscovered [sampleEndpoint]" and ?render = "TemplateRendered (Some (sampleOccurrence 1 ''p1'')) ''c1'' True ''change''"
  define s1 where "s1 = fst (handleEvent sampleEnv 0 ?pods (cf_sched startConfig))"
  define s2 where "s2 = fst (handleEvent sampleEnv 0 ?render s1)"
  have pods: "handleEvent sampleEnv 0 ?pods (cf_sched startConfig) = (s1, None)" by (simp add: s1_def sample_sched_defs)
  have render: "handleEvent sampleEnv 0 ?render s1 = (s2, Some sampleDeployment)" by (simp add: s2_def s1_def sample_sched_defs)
  have queued: "sampleQueued = startConfig\<lparr>cf_sched := installPending sampleDeployment s2\<rparr>"
    using pods render by (simp add: sampleQueued_def)
  let ?c1 = "startConfig\<lparr>cf_sched := s1\<rparr>" and ?c2 = "startConfig\<lparr>cf_sched := s2, cf_install := Some sampleDeployment\<rparr>"
  have "sched_step sampleEnv (Handles ?pods) startConfig ?c1"
    using sched_step.handle [OF _ pods] by (simp add: startConfig_def)
  moreover have "sched_step sampleEnv (Handles ?render) ?c1 ?c2"
    using sched_step.handle [of ?c1 sampleEnv 0 ?render s2 "Some sampleDeployment"] render by (simp add: startConfig_def)
  moreover have "sched_step sampleEnv Installs ?c2 sampleQueued"
    using sched_step.install [of ?c2 sampleDeployment sampleEnv] by (simp add: queued startConfig_def)
  ultimately show "reachable sampleEnv sampleQueued" by (blast intro: reachable.intros)
  show "cf_loop sampleQueued = AtTop" "cf_install sampleQueued = None" "cf_retries sampleQueued = []"
    by (simp_all add: queued startConfig_def)
  show "ds_pending (cf_sched sampleQueued) = Some sampleDeployment" "\<not> ds_cancelled (cf_sched sampleQueued)"
    "pendingRevisionCurrent (cf_sched sampleQueued) sampleDeployment" "ds_lastScheduled (cf_sched sampleQueued) = None"
    unfolding queued s2_def s1_def by (simp_all add: sample_sched_defs)
  show "inspectOccurrence (sd_occurrence sampleDeployment) = Some (sampleOccurrence 1 ''p1'')"
    by (simp add: sampleDeployment_def sampleOccurrence_def inspectOccurrence_def)
qed

theorem pending_is_dispatched_witness:
  "\<exists>c' name ns. (sched_step sampleEnv Loops)\<^sup>*\<^sup>* sampleQueued c' \<and> ds_deployInFlight (cf_sched c') \<and>
     ds_bus (cf_sched c') = ds_bus (cf_sched sampleQueued) @ [DeploymentScheduled ''e1'' sampleDeployment name ns]"
  using pending_is_dispatched [of sampleEnv sampleQueued sampleDeployment "''e1''"] sample_queued by auto

lemma reachable_steps: "(sched_step env l)\<^sup>*\<^sup>* c c' \<Longrightarrow> reachable env c \<Longrightarrow> reachable env c'"
  by (induction rule: rtranclp_induct) (auto intro: reachable.step)

theorem single_deployment_in_flight_witness:
  "\<exists>c c'. reachable sampleEnv c \<and> ds_deployInFlight (cf_sched c) \<and> sched_step sampleEnv Drains c c' \<and>
     ds_activeDeploymentID (cf_sched c') = ''e1'' \<and> cf_loop c \<noteq> AtTop"
proof -
  from dispatch_from_top [of sampleQueued sampleDeployment _ "''e1''" sampleEnv] sample_queued
  obtain c where steps: "(sched_step sampleEnv Loops)\<^sup>*\<^sup>* sampleQueued c" and c: "ds_deployInFlight (cf_sched c)"
    "ds_activeDeploymentID (cf_sched c) = ''e1''" by fastforce
  have reach: "reachable sampleEnv c" using steps sample_queued(1) by (rule reachable_steps)
  let ?c' = "c\<lparr>cf_sched := beginDrain (cf_sched c)\<rparr>"
  have step: "sched_step sampleEnv Drains c ?c'" by (rule sched_step.drain)
  have "ds_deployInFlight (cf_sched ?c')" using c(1) by (auto simp: beginDrain_def Let_def split: option.splits)
  with single_deployment_in_flight [OF reach step c(1)] c reach step show ?thesis
    by (intro exI [of _ c] exI [of _ ?c']) auto
qed

subsection \<open>A refused plan stays held back\<close>

lemma samePlan_nil [simp]: "\<not> samePlan None oc" "\<not> samePlan oc None"
  by (simp_all add: samePlan_def inspectOccurrence_def split: option.split)

definition schedulesPlan :: "Occurrence option \<Rightarrow> bus_event \<Rightarrow> bool" where
  "schedulesPlan p e \<longleftrightarrow> (case e of DeploymentScheduled _ dep _ _ \<Rightarrow> samePlan (sd_occurrence dep) p | _ \<Rightarrow> False)"

lemma schedulesPlan_simps [simp]:
  "schedulesPlan p (DeploymentScheduled i dep n ns) = samePlan (sd_occurrence dep) p"
  "\<not> schedulesPlan p (DeploymentSkipped oc k h cid)" "\<not> schedulesPlan p (DeploymentCancelRequest i reason cid)"
  "\<not> schedulesPlan p (ReconciliationTriggered reason)" "\<not> schedulesPlan p (FleetCapabilities v)"
  "\<not> schedulesPlan p (RetainedConfig reason m)" "\<not> schedulesPlan p (RecoverRetained epoch eps)" "\<not> schedulesPlan p (ValidatedOccurrence oc)"
  by (simp_all add: schedulesPlan_def)

text \<open>The deployment loop has taken, or announces, a deployment of the plan.\<close>

fun loopCarries :: "Occurrence option \<Rightarrow> loop_pc \<Rightarrow> bool" where
  "loopCarries p (Holding dep) = samePlan (sd_occurrence dep) p"
| "loopCarries p (Committed i e) = schedulesPlan p e"
| "loopCarries p _ = False"

fun retryCarries :: "Occurrence option \<Rightarrow> retry_pc \<Rightarrow> bool" where
  "retryCarries p (RetryInstalling dep) = samePlan (sd_occurrence dep) p"
| "retryCarries p _ = False"

definition queued :: "Occurrence option \<Rightarrow> scheduledDeployment option \<Rightarrow> bool" where
  "queued p dep \<longleftrightarrow> (case dep of None \<Rightarrow> False | Some d \<Rightarrow> samePlan (sd_occurrence d) p)"

text \<open>The gate is pinned and no render the scheduler would send again carries the plan.\<close>

definition heldBack :: "Occurrence option \<Rightarrow> sched \<Rightarrow> bool" where
  "heldBack p s \<longleftrightarrow> ds_gatePinned s \<and> \<not> ds_draining s \<and> \<not> queued p (ds_pending s) \<and> \<not> samePlan (ds_lastValidated s) p \<and>
     (case ds_acceptedRender s of None \<Rightarrow> True | Some a \<Rightarrow> \<not> samePlan (ar_occurrence a) p)"

definition heldConfig :: "Occurrence option \<Rightarrow> config \<Rightarrow> bool" where
  "heldConfig p c \<longleftrightarrow> heldBack p (cf_sched c) \<and> \<not> queued p (cf_install c) \<and> \<not> loopCarries p (cf_loop c) \<and>
     (\<forall>r\<in>set (cf_retries c). \<not> retryCarries p r)"

text \<open>Steps that neither pass a render, nor end the term, drain it or recover a retained configuration.\<close>

fun keepsRefusal :: "step_label \<Rightarrow> bool" where
  "keepsRefusal (Handles (RenderGateCompleted v)) = (\<not> vd_OK v)"
| "keepsRefusal (Handles LostLeadership) = False"
| "keepsRefusal Recovers = False"
| "keepsRefusal Drains = False"
| "keepsRefusal Restarts = False"
| "keepsRefusal _ = True"

text \<open>No announcement of the plan between two states.\<close>

definition silent :: "Occurrence option \<Rightarrow> sched \<Rightarrow> sched \<Rightarrow> bool" where
  "silent p s s' \<longleftrightarrow> (\<exists>es. ds_bus s' = ds_bus s @ es \<and> (\<forall>e\<in>set es. \<not> schedulesPlan p e))"

lemma silent_refl [simp]: "silent p s s"
  by (simp add: silent_def)

lemma silent_trans [trans]: "silent p s t \<Longrightarrow> silent p t u \<Longrightarrow> silent p s u"
  by (auto simp: silent_def)

lemma silent_same_bus: "ds_bus s' = ds_bus s \<Longrightarrow> silent p s s'"
  by (simp add: silent_def)

lemma silent_publish: "silent p s t \<Longrightarrow> \<not> schedulesPlan p e \<Longrightarrow> silent p s (publish e t)"
  by (auto simp: silent_def)

text \<open>The two together, for a section that queues at most work that does not carry the plan.\<close>

definition stays :: "Occurrence option \<Rightarrow> sched \<Rightarrow> sched \<Rightarrow> scheduledDeployment option \<Rightarrow> bool" where
  "stays p s s' dep \<longleftrightarrow> (heldBack p s \<longrightarrow> silent p s s' \<and> heldBack p s' \<and> \<not> queued p dep)"

lemma stays_refl [simp]: "stays p s s None"
  by (simp add: stays_def queued_def)

lemma stays_trans: "stays p s t None \<Longrightarrow> stays p t u dep \<Longrightarrow> stays p s u dep"
  by (auto simp: stays_def intro: silent_trans)

text \<open>A section that keeps the fields of \<open>heldBack\<close>, or drops pending work.\<close>

lemma staysI:
  assumes "silent p s s'" and "ds_gatePinned s' = ds_gatePinned s" and "ds_draining s' = ds_draining s"
    and "ds_pending s' = ds_pending s \<or> ds_pending s' = None" and "ds_lastValidated s' = ds_lastValidated s"
    and "ds_acceptedRender s' = ds_acceptedRender s"
  shows "stays p s s' None"
  using assms by (auto simp: stays_def heldBack_def queued_def)

lemma admitWork_stays:
  assumes "admitWork oc endpoints reason cid co s = (s', dep)" and "heldBack p s \<Longrightarrow> \<not> samePlan oc p"
  shows "stays p s s' dep"
  using assms
  by (auto simp: admitWork_def Let_def stays_def silent_def heldBack_def queued_def inspectOccurrence_def
      split: option.splits if_splits)

lemma maybeRecoverRetained_stays: "stays p s (maybeRecoverRetained env now s) None"
  by (rule staysI) (simp_all add: maybeRecoverRetained_def silent_same_bus silent_publish)

lemma renderFailedForRetention_stays: "stays p s (renderFailedForRetention env now message s) None"
  unfolding renderFailedForRetention_def
  by (rule stays_trans [OF staysI maybeRecoverRetained_stays]) (simp_all add: silent_same_bus)

lemma handleTemplateRendered_stays:
  "handleTemplateRendered env oc cid co trigger s = (s', dep) \<Longrightarrow> stays p s s' dep"
  by (auto simp: handleTemplateRendered_def Let_def stays_def heldBack_def queued_def silent_def cancelRetainedRecovery_def
      split: if_splits)

lemma holdAfterRefusal_stays: "stays p s (holdAfterRefusal v s) None"
  by (auto simp: holdAfterRefusal_def dropPendingRender_def rollBackToAcceptedRender_def Let_def stays_def heldBack_def
      queued_def silent_def split: option.splits)

lemma handleRefusal_stays:
  assumes "handleRenderGateCompleted env now v s = (s', dep)" and "\<not> vd_OK v"
  shows "stays p s s' dep"
proof -
  have "stays p s (renderFailedForRetention env now (vd_Message v) (holdAfterRefusal v s)) None"
    by (rule stays_trans [OF holdAfterRefusal_stays renderFailedForRetention_stays])
  with assms show ?thesis by (auto simp: handleRenderGateCompleted_def Let_def split: if_splits)
qed

lemma handleValidationFailed_stays: "handleValidationFailed cid s = (s', dep) \<Longrightarrow> stays p s s' dep"
  by (auto simp: handleValidationFailed_def split: if_splits elim!: admitWork_stays) (simp add: heldBack_def)

lemma noteFleet_stays: "stays p s (noteFleet env endpoints s) None"
  by (rule staysI)
     (auto simp: noteFleet_def publishFleetCapabilities_def Let_def silent_def split: option.splits)

lemma performPodsDiscovered_stays:
  assumes "performPodsDiscovered env now endpoints s = (s', dep)"
  shows "stays p s s' dep"
proof -
  let ?s = "noteFleet env endpoints s"
  have retry: "stays p ?s (maybeRecoverRetained env now (?s\<lparr>ds_retainedRetryAt := None\<rparr>)) None"
    by (rule stays_trans [OF staysI maybeRecoverRetained_stays]) (simp_all add: silent_same_bus)
  have "stays p ?s s' dep"
    using assms retry
    by (auto simp: performPodsDiscovered_def Let_def split: if_splits elim!: admitWork_stays) (simp add: heldBack_def)
  with noteFleet_stays show ?thesis by (rule stays_trans)
qed

lemma handleDeploymentCompleted_stays: "stays p s (handleDeploymentCompleted env now event s) None"
proof -
  have follow: "stays p t (followCompletion env now e t) None" for e t
    by (rule staysI)
       (auto simp: followCompletion_def scheduleFailureRetry_def schedulePendingReloadFollowUp_def cancelFailureRetry_def
          dropPendingRetry_def armRetryTimer_def stopRetryTimer_def Let_def silent_same_bus split: option.splits)
  have cache: "stays p t (cacheDeploymentCompletion now e oc t) None" for e oc t
    by (rule staysI) (auto simp: cacheDeploymentCompletion_def Let_def silent_same_bus)
  have signal: "stays p t (signalCompleted t) None" and clear: "stays p t (clearActive t) None" for t
    by (rule staysI, simp_all add: signalCompleted_def clearActive_def silent_same_bus)+
  show ?thesis
    by (auto simp: handleDeploymentCompleted_def Let_def split: option.split
        intro: stays_trans [OF clear signal] stays_trans [OF stays_trans [OF stays_trans [OF clear cache] follow] signal])
qed

lemma handleConfig_stays:
  "stays p s (handleConfigValidated tc s) None" "stays p s (handleConfigPublished name ns s) None"
  by (rule staysI, simp_all add: handleConfigValidated_def handleConfigPublished_def silent_same_bus split: option.split)+

lemma handleEvent_stays:
  assumes "handleEvent env now ev s = (s', dep)" and "keepsRefusal (Handles ev)"
  shows "stays p s s' dep"
  using assms
  by (cases ev)
     (auto intro: handleTemplateRendered_stays handleRefusal_stays handleValidationFailed_stays performPodsDiscovered_stays
        renderFailedForRetention_stays handleDeploymentCompleted_stays handleConfig_stays)

lemma installPending_stays: "\<not> samePlan (sd_occurrence dep) p \<Longrightarrow> stays p s (installPending dep s) None"
  by (auto simp: stays_def heldBack_def queued_def silent_def installPending_def signalLoop_def)

lemma tick_stays: "stays p s (maybeRecoverRetained env now (checkDeploymentTimeout env now s)) None"
proof (rule stays_trans [OF _ maybeRecoverRetained_stays])
  show "stays p s (checkDeploymentTimeout env now s) None"
    by (rule staysI) (auto simp: checkDeploymentTimeout_def Let_def silent_def split: option.splits)
qed

lemma takePending_stays: "takePending s = (s', dep) \<Longrightarrow> stays p s s' dep"
  by (auto simp: takePending_def stays_def heldBack_def queued_def silent_same_bus split: option.splits)

lemma loop_sections_stay:
  "stays p s (exitLoop s) None" "stays p s (finishDispatch s) None" "stays p s (clearDispatchedPending i s) None"
  "stays p s (s\<lparr>ds_pendingSignal := b\<rparr>) None" "stays p s (s\<lparr>ds_completed := b\<rparr>) None"
  "stays p s (settleFollowUp s) None"
  by (intro staysI; simp add: exitLoop_def finishDispatch_def signalDrainProgress_def clearDispatchedPending_def
      clearActive_def settleFollowUp_def silent_same_bus)+

lemma commitDispatch_stays: "commitDispatch env now i dep s = (s', b) \<Longrightarrow> stays p s s' None"
  by (rule staysI) (auto simp: commitDispatch_def silent_same_bus split: if_splits)

lemma beginRetry_stays: "beginRetry g w s = (s', b) \<Longrightarrow> stays p s s' None"
  by (rule staysI) (auto simp: beginRetry_def silent_same_bus split: if_splits)

lemma publish_stays: "\<not> schedulesPlan p e \<Longrightarrow> stays p s (publish e s) None"
  by (rule staysI) (simp_all add: silent_publish)

lemma newScheduledEvent_plan: "newScheduledEvent env i dep s = Some e \<Longrightarrow> schedulesPlan p e = samePlan (sd_occurrence dep) p"
  by (auto simp: newScheduledEvent_def split: option.splits prod.splits)

lemma stays_held: "stays p s s' dep \<Longrightarrow> heldBack p s \<Longrightarrow> silent p s s' \<and> heldBack p s'"
  by (simp add: stays_def)

lemma loop_stays:
  assumes "loop_step env (s, pc) (s', pc')" and "heldBack p s" and "\<not> loopCarries p pc"
  shows "silent p s s' \<and> heldBack p s' \<and> \<not> loopCarries p pc'"
  using assms(1)
proof (cases rule: loop_step.cases)
  case (take dep)
  then have "stays p s s' dep" by (simp add: takePending_stays)
  with take assms(2) show ?thesis by (auto simp: stays_def queued_def split: option.splits)
next
  case (stale eventID dep e now)
  then have "stays p s s' None" by (simp add: commitDispatch_stays)
  with stale assms(2) show ?thesis by (auto simp: stays_def)
next
  case (commit eventID dep e now)
  then have "stays p s s' None" by (simp add: commitDispatch_stays)
  with commit newScheduledEvent_plan [OF commit(4)] assms(2,3) show ?thesis by (auto simp: stays_def)
next
  case (published eventID e)
  with stays_held [OF publish_stays] assms(2,3) show ?thesis by simp
qed (use assms(2) stays_held [OF loop_sections_stay(1)] stays_held [OF loop_sections_stay(2)] stays_held [OF loop_sections_stay(3)]
      stays_held [OF loop_sections_stay(4)] stays_held [OF loop_sections_stay(5)]
      stays_held [OF stays_trans [OF loop_sections_stay(2,1)]] in auto)

lemma retryDeployment_held:
  "retryDeployment g w reason s = Some dep \<Longrightarrow> heldBack p s \<Longrightarrow> \<not> samePlan (sd_occurrence dep) p"
  by (auto simp: retryDeployment_def Let_def heldBack_def split: if_splits)

lemma retry_stays:
  assumes "retry_step (s, pc) (s', pc')" and "heldBack p s" and "\<not> retryCarries p pc"
  shows "silent p s s' \<and> heldBack p s' \<and> (\<forall>q. pc' = Some q \<longrightarrow> \<not> retryCarries p q)"
  using assms(1)
proof (cases rule: retry_step.cases)
  case (begin_on g w reason)
  with stays_held [OF beginRetry_stays [OF begin_on(3)]] assms(2) show ?thesis by simp
next
  case (begin_off g w reason)
  with stays_held [OF beginRetry_stays [OF begin_off(3)]] assms(2) show ?thesis by simp
next
  case (something g w reason dep)
  with retryDeployment_held assms(2) show ?thesis by auto
next
  case (install dep)
  with stays_held [OF installPending_stays] assms(2,3) show ?thesis by simp
next
  case settle
  with stays_held [OF loop_sections_stay(6)] assms(2) show ?thesis by simp
qed (use assms(2) in simp)

lemma held_step:
  assumes "sched_step env l c c'" and "keepsRefusal l" and "heldConfig p c"
  shows "silent p (cf_sched c) (cf_sched c') \<and> heldConfig p c'"
  using assms(1)
proof (cases rule: sched_step.cases)
  case (handle now ev s' dep)
  with handleEvent_stays [OF handle(4)] assms(2,3) show ?thesis by (auto simp: stays_def heldConfig_def)
next
  case (install dep)
  with installPending_stays [of dep p "cf_sched c"] assms(3) show ?thesis
    by (auto simp: stays_def heldConfig_def queued_def)
next
  case (tick now)
  with tick_stays [of p "cf_sched c" env now] assms(3) show ?thesis by (auto simp: stays_def heldConfig_def)
next
  case (loop s' pc')
  with loop_stays [OF loop(3)] assms(3) show ?thesis by (auto simp: heldConfig_def)
next
  case (fire t)
  with assms(3) show ?thesis by (auto simp: heldConfig_def)
next
  case (retry before pc after s' pc')
  with retry_stays [OF retry(4), of p] assms(3) show ?thesis by (auto simp: heldConfig_def split: option.splits)
next
  case cancel
  with assms(3) show ?thesis by (auto simp: heldConfig_def heldBack_def silent_def)
next
  case shut_down
  have "stays p (cf_sched c) (stopFailureRetries (cf_sched c)) None"
    by (rule staysI) (auto simp: stopFailureRetries_def dropPendingRetry_def stopRetryTimer_def silent_same_bus split: option.splits)
  with shut_down assms(3) show ?thesis by (auto simp: stays_def heldConfig_def)
qed (use assms(2) in auto)

interpretation held: monitored_run "sched_step env" keepsRefusal "heldConfig p" "\<lambda>c c'. silent p (cf_sched c) (cf_sched c')"
  for env p
  by unfold_locales (auto intro: silent_trans simp: silent_same_bus dest: held_step)

lemma refusal_holds_back:
  assumes "vd_Refused v" and "samePlan (ds_lastRendered s) (vd_occurrence v) \<or> samePlan (ds_lastValidated s) (vd_occurrence v)"
    and "ds_acceptedRender s = Some a" and "\<not> samePlan (ar_occurrence a) (vd_occurrence v)" and "\<not> ds_draining s"
  shows "heldBack (vd_occurrence v) (holdAfterRefusal v s) \<and> ds_bus (holdAfterRefusal v s) = ds_bus s"
proof -
  have "vd_occurrence v \<noteq> None" using assms(2) by (cases "vd_occurrence v") auto
  with assms show ?thesis
    by (auto simp: holdAfterRefusal_def dropPendingRender_def rollBackToAcceptedRender_def Let_def heldBack_def queued_def
        split: option.splits)
qed



end
