(* ===== verification/Scheduler_Drain.thy ===== *)
theory Scheduler_Drain
  imports Scheduler_Safety
begin

section \<open>Draining a term, and retrying within it\<close>

text \<open>
  What a drain of the scheduler admits, the window in which it admits more than its comment says, and
  the bounds of the fast retries.
\<close>

subsection \<open>Sections announce nothing\<close>

text \<open>Only the deploy loop announces deployments: the other sections extend the bus by other events.\<close>

definition announces :: "bus_event \<Rightarrow> bool" where
  "announces e \<longleftrightarrow> (case e of DeploymentScheduled _ _ _ _ \<Rightarrow> True | _ \<Rightarrow> False)"

definition calm :: "sched \<Rightarrow> sched \<Rightarrow> bool" where
  "calm s s' \<longleftrightarrow> (\<exists>es. ds_bus s' = ds_bus s @ es \<and> (\<forall>e\<in>set es. \<not> announces e))"

lemma calm_refl [simp]: "calm s s"
  by (simp add: calm_def)

lemma calm_trans: "calm s t \<Longrightarrow> calm t u \<Longrightarrow> calm s u"
  by (auto simp: calm_def)

lemma calm_bus: "ds_bus s' = ds_bus s \<Longrightarrow> calm s s'"
  by (simp add: calm_def)

lemma calm_publish: "calm s t \<Longrightarrow> \<not> announces e \<Longrightarrow> calm s (publish e t)"
  by (auto simp: calm_def)

lemma announces_simps [simp]:
  "announces (DeploymentScheduled i dep n ns)" "\<not> announces (DeploymentSkipped oc k h cid)"
  "\<not> announces (DeploymentCancelRequest i reason cid)" "\<not> announces (ReconciliationTriggered reason)"
  "\<not> announces (FleetCapabilities v)" "\<not> announces (RetainedConfig reason m)"
  "\<not> announces (RecoverRetained epoch eps)" "\<not> announces (ValidatedOccurrence oc)"
  by (simp_all add: announces_def)

lemma admitWork_bus: "admitWork oc endpoints reason cid co s = (s', dep) \<Longrightarrow> ds_bus s' = ds_bus s"
  by (auto simp: admitWork_def Let_def split: option.splits if_splits)

lemma maybeRecoverRetained_calm: "calm s (maybeRecoverRetained env now s)"
  by (simp add: maybeRecoverRetained_def calm_publish calm_bus)

lemma renderFailedForRetention_calm: "calm s (renderFailedForRetention env now message s)"
  unfolding renderFailedForRetention_def by (rule calm_trans [OF calm_bus maybeRecoverRetained_calm]) simp

lemma dispatchRender_calm:
  assumes "dispatchRender env cid co reason s = (s', dep)"
  shows "calm s s'"
proof -
  obtain s1 oc where s1: "promoteRendered cid co s = (s1, oc)" by fastforce
  then have "ds_bus s1 = ds_bus s" by (auto simp: promoteRendered_def split: option.splits)
  with s1 assms show ?thesis
    by (auto simp: dispatchRender_def Let_def calm_def dest: admitWork_bus split: option.splits if_splits)
qed

lemma handleTemplateRendered_calm:
  "handleTemplateRendered env oc cid co trigger s = (s', dep) \<Longrightarrow> calm s s'"
  by (auto simp: handleTemplateRendered_def Let_def cancelRetainedRecovery_def calm_def split: if_splits
      dest!: dispatchRender_calm)

lemma holdAfterRefusal_bus: "ds_bus (holdAfterRefusal v s) = ds_bus s"
  by (auto simp: holdAfterRefusal_def dropPendingRender_def rollBackToAcceptedRender_def Let_def split: option.splits)

lemma handleRenderGateCompleted_calm:
  assumes "handleRenderGateCompleted env now v s = (s', dep)"
  shows "calm s s'"
proof -
  have refused: "calm s (renderFailedForRetention env now (vd_Message v) (holdAfterRefusal v s))"
    by (rule calm_trans [OF calm_bus [OF holdAfterRefusal_bus] renderFailedForRetention_calm])
  have released: "calm s (acceptRender t)" if "dispatchRender env cid co reason (s\<lparr>ds_gatePinned := False\<rparr>) = (t, d)" for cid co reason t d
    using dispatchRender_calm [OF that] by (simp add: calm_def acceptRender_def)
  show ?thesis
    using assms refused
    by (auto simp: handleRenderGateCompleted_def Let_def calm_bus acceptRender_def [of s] split: if_splits prod.splits intro: released)
qed

lemma noteFleet_calm: "calm s (noteFleet env endpoints s)"
  by (auto simp: noteFleet_def publishFleetCapabilities_def Let_def calm_def split: option.splits)

lemma performPodsDiscovered_calm:
  assumes "performPodsDiscovered env now endpoints s = (s', dep)"
  shows "calm s s'"
proof -
  let ?s = "noteFleet env endpoints s"
  have "calm ?s (maybeRecoverRetained env now (?s\<lparr>ds_retainedRetryAt := None\<rparr>))"
    by (rule calm_trans [OF calm_bus maybeRecoverRetained_calm]) simp
  then have "calm ?s s'"
    using assms by (auto simp: performPodsDiscovered_def Let_def split: if_splits intro: calm_bus dest: admitWork_bus)
  with noteFleet_calm show ?thesis by (rule calm_trans)
qed

lemma handleDeploymentCompleted_bus: "ds_bus (handleDeploymentCompleted env now event s) = ds_bus s"
proof -
  have "ds_bus (followCompletion env now e t) = ds_bus t" for e t
    by (auto simp: followCompletion_def scheduleFailureRetry_def schedulePendingReloadFollowUp_def cancelFailureRetry_def
        dropPendingRetry_def armRetryTimer_def stopRetryTimer_def Let_def split: option.splits)
  then show ?thesis
    by (auto simp: handleDeploymentCompleted_def Let_def signalCompleted_def clearActive_def cacheDeploymentCompletion_def
        split: option.split)
qed

lemma handleEvent_calm:
  assumes "handleEvent env now ev s = (s', dep)"
  shows "calm s s'"
proof (cases ev)
  case (ValidationFailed cid)
  with assms show ?thesis by (auto simp: handleValidationFailed_def calm_bus dest: admitWork_bus split: if_splits)
next
  case (ConfigValidated tc)
  with assms show ?thesis by (auto simp: handleConfigValidated_def calm_bus split: option.splits)
next
  case LostLeadership
  with assms show ?thesis
    by (auto simp: resetDeploymentTerm_def stopRetryTimer_def clearActive_def Let_def calm_bus)
qed (use assms in \<open>auto intro: handleTemplateRendered_calm handleRenderGateCompleted_calm performPodsDiscovered_calm
      renderFailedForRetention_calm calm_bus handleDeploymentCompleted_bus simp: handleConfigPublished_def\<close>)

lemma handleRetainedResult_calm: "handleRetainedResult env now result s = (s', dep) \<Longrightarrow> calm s s'"
  by (auto simp: handleRetainedResult_def reportRetained_def Let_def calm_def dest!: admitWork_bus split: if_splits option.splits)

lemma checkDeploymentTimeout_calm: "calm s (checkDeploymentTimeout env now s)"
  by (auto simp: checkDeploymentTimeout_def Let_def calm_def split: option.splits)

subsection \<open>What a drain admits\<close>

definition keepsPlan :: "Occurrence option \<Rightarrow> sched \<Rightarrow> bool" where
  "keepsPlan q s \<longleftrightarrow> ds_draining s \<and> ds_drainOccurrence s = q \<and> (\<forall>d. ds_pending s = Some d \<longrightarrow> samePlan (sd_occurrence d) q)"

fun loopAdmits :: "Occurrence option \<Rightarrow> loop_pc \<Rightarrow> bool" where
  "loopAdmits q (Holding dep) = samePlan (sd_occurrence dep) q"
| "loopAdmits q (Committed i e) = schedulesPlan q e"
| "loopAdmits q _ = True"

definition onlyPlan :: "Occurrence option \<Rightarrow> sched \<Rightarrow> sched \<Rightarrow> bool" where
  "onlyPlan q s s' \<longleftrightarrow> (\<exists>es. ds_bus s' = ds_bus s @ es \<and> (\<forall>e\<in>set es. announces e \<longrightarrow> schedulesPlan q e))"

lemma onlyPlan_refl [simp]: "onlyPlan q s s"
  by (simp add: onlyPlan_def)

lemma onlyPlan_trans: "onlyPlan q s t \<Longrightarrow> onlyPlan q t u \<Longrightarrow> onlyPlan q s u"
  by (auto simp: onlyPlan_def)

lemma calm_onlyPlan: "calm s s' \<Longrightarrow> onlyPlan q s s'"
  by (auto simp: calm_def onlyPlan_def)

lemma keepsPlan_move: "slot_move s s' \<Longrightarrow> keepsPlan q s \<Longrightarrow> keepsPlan q s'"
  by (auto simp: slot_move_def keepsPlan_def)

lemmas keepsPlan_same = keepsPlan_move [OF same_slot_move]

lemma keepsPlan_install: "keepsPlan q s \<Longrightarrow> keepsPlan q (installPending dep s)"
  by (auto simp: keepsPlan_def installPending_def signalLoop_def drainAdmits_def)

lemma drained_loop:
  assumes "loop_step env (s, pc) (s', pc')" and "keepsPlan q s" and "loopAdmits q pc"
  shows "onlyPlan q s s' \<and> keepsPlan q s' \<and> loopAdmits q pc'"
  using assms(1)
proof (cases rule: loop_step.cases)
  case (take dep)
  with assms(2) show ?thesis
    by (auto simp: takePending_def keepsPlan_def calm_onlyPlan calm_bus split: option.splits)
next
  case (commit eventID dep e now)
  with assms(2,3) newScheduledEvent_plan [OF commit(4), of q] show ?thesis
    by (auto simp: commitDispatch_def keepsPlan_def calm_onlyPlan calm_bus split: if_splits)
next
  case (published eventID e)
  with assms(2,3) show ?thesis by (auto simp: keepsPlan_def onlyPlan_def)
qed (use assms(2) in \<open>auto simp: keepsPlan_def exitLoop_def commitDispatch_def clearDispatchedPending_def clearActive_def
      finishDispatch_def signalDrainProgress_def calm_onlyPlan calm_bus split: if_splits\<close>)

lemma retry_slot: "retry_step (s, pc) (s', pc') \<Longrightarrow> same_slot s s' \<or> (\<exists>dep. s' = installPending dep s)"
  by (cases rule: retry_step.cases) (auto intro: beginRetry_slot settleFollowUp_slot)

lemma retry_bus: "retry_step (s, pc) (s', pc') \<Longrightarrow> ds_bus s' = ds_bus s"
  by (cases rule: retry_step.cases) (auto simp: beginRetry_def settleFollowUp_def signalDrainProgress_def split: if_splits)

text \<open>Every step but a second drain or a new term.\<close>

definition withinDrain :: "step_label \<Rightarrow> bool" where
  "withinDrain l \<longleftrightarrow> l \<noteq> Drains \<and> l \<noteq> Restarts"

lemma drained_step:
  assumes "sched_step env l c c'" and "withinDrain l" and "keepsPlan q (cf_sched c)" and "loopAdmits q (cf_loop c)"
  shows "onlyPlan q (cf_sched c) (cf_sched c') \<and> keepsPlan q (cf_sched c') \<and> loopAdmits q (cf_loop c')"
  using assms(1)
proof (cases rule: sched_step.cases)
  case (handle now ev s' dep)
  with handleEvent_calm [OF handle(4)] handleEvent_move [OF handle(4)] assms(3,4) show ?thesis
    by (auto intro: calm_onlyPlan keepsPlan_move)
next
  case (install dep)
  with assms(3,4) keepsPlan_install [OF assms(3)] show ?thesis by (auto simp: calm_onlyPlan calm_bus)
next
  case (tick now)
  have "calm (cf_sched c) (maybeRecoverRetained env now (checkDeploymentTimeout env now (cf_sched c)))"
    by (rule calm_trans [OF checkDeploymentTimeout_calm maybeRecoverRetained_calm])
  with tick tick_slot [of "cf_sched c" env now] assms(3,4) show ?thesis by (auto intro: calm_onlyPlan keepsPlan_same)
next
  case (recover now result s' dep)
  with handleRetainedResult_calm [OF recover(4)] handleRetainedResult_slot [OF recover(4)] assms(3,4) show ?thesis
    by (auto intro: calm_onlyPlan keepsPlan_same)
next
  case (loop s' pc')
  with drained_loop [OF loop(3) assms(3,4)] show ?thesis by simp
next
  case (retry before pc after s' pc')
  with retry_slot [OF retry(4)] retry_bus [OF retry(4)] assms(3,4) keepsPlan_install [OF assms(3)] show ?thesis
    by (auto simp: calm_onlyPlan calm_bus intro: keepsPlan_same)
next
  case shut_down
  have "ds_bus (stopFailureRetries (cf_sched c)) = ds_bus (cf_sched c)"
    by (auto simp: stopFailureRetries_def dropPendingRetry_def stopRetryTimer_def split: option.splits)
  with shut_down cancelFailureRetry_slot(2) [of "cf_sched c"] assms(3,4) show ?thesis
    by (auto simp: calm_onlyPlan calm_bus intro: keepsPlan_same)
next
  case cancel
  with assms(3,4) show ?thesis by (simp add: keepsPlan_def calm_onlyPlan calm_bus)
qed (use assms in \<open>auto simp: withinDrain_def\<close>)

interpretation drained: monitored_run "sched_step env" withinDrain "\<lambda>c. keepsPlan q (cf_sched c) \<and> loopAdmits q (cf_loop c)"
  "\<lambda>c c'. onlyPlan q (cf_sched c) (cf_sched c')" for env q
  by unfold_locales (auto dest: drained_step onlyPlan_trans)

text \<open>
  C29. Once a drain has begun, and provided that the deploy loop had not at that moment taken a
  deployment it had not yet announced, every deployment announced until the term ends carries the plan
  dispatched last before the drain, in any interleaving of handlers, retries and the loop.
\<close>

theorem drain_admits_only_its_plan:
  assumes "\<not> ds_cancelled (cf_sched c)" and "\<And>dep. cf_loop c \<noteq> Holding dep" and "\<And>i e. cf_loop c \<noteq> Committed i e"
    and "sched_step env Drains c c1" and "run_of (sched_step env) withinDrain c1 c2"
  shows "\<exists>es. ds_bus (cf_sched c2) = ds_bus (cf_sched c) @ es \<and>
    (\<forall>e\<in>set es. announces e \<longrightarrow> schedulesPlan (ds_lastScheduled (cf_sched c)) e)"
proof -
  let ?q = "ds_lastScheduled (cf_sched c)"
  from assms(4) have c1: "c1 = c\<lparr>cf_sched := beginDrain (cf_sched c)\<rparr>" by (cases rule: sched_step.cases) simp_all
  have "keepsPlan ?q (beginDrain (cf_sched c))" and "ds_bus (beginDrain (cf_sched c)) = ds_bus (cf_sched c)"
    using assms(1) by (auto simp: beginDrain_def Let_def keepsPlan_def drainAdmits_def split: option.splits)
  moreover have "loopAdmits ?q (cf_loop c)" using assms(2,3) by (cases "cf_loop c") auto
  ultimately show ?thesis using drained.run [OF assms(5), of ?q] by (auto simp: c1 onlyPlan_def)
qed

theorem drain_admits_only_its_plan_witness:
  "\<exists>c1. sched_step sampleEnv Drains sampleQueued c1 \<and> (\<exists>es. ds_bus (cf_sched c1) = ds_bus (cf_sched sampleQueued) @ es \<and>
     (\<forall>e\<in>set es. announces e \<longrightarrow> schedulesPlan (ds_lastScheduled (cf_sched sampleQueued)) e))"
proof -
  have "sched_step sampleEnv Drains sampleQueued (sampleQueued\<lparr>cf_sched := beginDrain (cf_sched sampleQueued)\<rparr>)" (is "sched_step _ _ _ ?c1")
    by (rule sched_step.drain)
  then show ?thesis
    using drain_admits_only_its_plan [of sampleQueued sampleEnv ?c1 ?c1] sample_queued(2,6) by auto
qed

text \<open>
  C30. A drain that begins after the deploy loop took a deployment and before the loop committed it does
  not stop it: the loop announces a plan the drain does not admit, although no new work was accepted.
\<close>

theorem drain_misses_taken_deployment:
  assumes "cf_loop c = Holding dep" and "\<not> ds_cancelled (cf_sched c)" and "pendingRevisionCurrent (cf_sched c) dep"
    and "inspectOccurrence (sd_occurrence dep) \<noteq> None" and "\<not> samePlan (sd_occurrence dep) (ds_lastScheduled (cf_sched c))"
  shows "\<exists>c1 c2 name ns. sched_step env Drains c c1 \<and> (sched_step env Loops)\<^sup>*\<^sup>* c1 c2 \<and> ds_draining (cf_sched c1) \<and>
    \<not> drainAdmits (cf_sched c1) (sd_occurrence dep) \<and>
    ds_bus (cf_sched c2) = ds_bus (cf_sched c) @ [DeploymentScheduled ''e'' dep name ns]"
proof -
  define s1 where "s1 = beginDrain (cf_sched c)"
  have s1: "ds_draining s1" "ds_drainOccurrence s1 = ds_lastScheduled (cf_sched c)" "\<not> ds_cancelled s1" "ds_bus s1 = ds_bus (cf_sched c)"
    "pendingRevisionCurrent s1 dep"
    using assms(2,3) by (auto simp: s1_def beginDrain_def Let_def pendingRevisionCurrent_def split: option.splits)
  obtain name ns where names: "resolveRuntimeConfigName env s1 = (name, ns)" by fastforce
  let ?e = "DeploymentScheduled ''e'' dep name ns"
  have event: "newScheduledEvent env ''e'' dep s1 = Some ?e" using assms(4) names by (auto simp: newScheduledEvent_def)
  define s2 where "s2 = fst (commitDispatch env 0 ''e'' dep s1)"
  have commit: "commitDispatch env 0 ''e'' dep s1 = (s2, True)" and s2: "ds_bus s2 = ds_bus s1" "\<not> ds_cancelled s2"
    using s1 by (simp_all add: s2_def commitDispatch_def)
  let ?c1 = "c\<lparr>cf_sched := s1\<rparr>" and ?c2 = "c\<lparr>cf_sched := s2, cf_loop := Committed ''e'' ?e\<rparr>"
    and ?c3 = "c\<lparr>cf_sched := publish ?e s2, cf_loop := Awaiting\<rparr>"
  have "sched_step env Drains c ?c1" unfolding s1_def by (rule sched_step.drain)
  moreover have "sched_step env Loops ?c1 ?c2"
    using loop_sched_step [of env ?c1 s2 "Committed ''e'' ?e"] loop_step.commit [OF s1(3) event _ commit] assms(1) by simp
  moreover have "sched_step env Loops ?c2 ?c3"
    using loop_sched_step [of env ?c2 "publish ?e s2" Awaiting] loop_step.published [OF s2(2)] by simp
  ultimately have "sched_step env Drains c ?c1" and "(sched_step env Loops)\<^sup>*\<^sup>* ?c1 ?c3" by auto
  with s1 s2 assms(5) show ?thesis
    by (intro exI [of _ ?c1] exI [of _ ?c3] exI [of _ name] exI [of _ ns]) (simp add: drainAdmits_def)
qed

theorem drain_misses_taken_deployment_witness:
  "\<exists>c c1 c2 name ns. reachable sampleEnv c \<and> sched_step sampleEnv Drains c c1 \<and> (sched_step sampleEnv Loops)\<^sup>*\<^sup>* c1 c2 \<and>
     \<not> drainAdmits (cf_sched c1) (sd_occurrence sampleDeployment) \<and>
     ds_bus (cf_sched c2) = ds_bus (cf_sched c) @ [DeploymentScheduled ''e'' sampleDeployment name ns]"
proof -
  let ?s = "cf_sched sampleQueued"
  define s where "s = ?s\<lparr>ds_pending := None, ds_dispatching := True\<rparr>"
  define c where "c = sampleQueued\<lparr>cf_sched := s, cf_loop := Holding sampleDeployment\<rparr>"
  have "loop_step sampleEnv (?s, cf_loop sampleQueued) (s, Holding sampleDeployment)"
    using loop_step.take [of ?s s "Some sampleDeployment" sampleEnv] sample_queued by (simp add: takePending_def s_def)
  then have "reachable sampleEnv c"
    unfolding c_def using sample_queued(1) by (blast intro: reachable.step loop_sched_step)
  moreover have "cf_loop c = Holding sampleDeployment" "\<not> ds_cancelled (cf_sched c)" "ds_lastScheduled (cf_sched c) = None"
    "pendingRevisionCurrent (cf_sched c) sampleDeployment"
    using sample_queued by (simp_all add: c_def s_def pendingRevisionCurrent_def)
  ultimately show ?thesis
    using drain_misses_taken_deployment [of c sampleDeployment sampleEnv] sample_queued(9) by fastforce
qed

subsection \<open>Fast retries\<close>

lemma sint_small:
  assumes "0 \<le> x" and "x < 2 ^ 63"
  shows "sint (word_of_int x :: 64 word) = x"
  using assms by (simp add: sint_sbintrunc' signed_take_bit_int_eq_self)

lemma sint_push_bit:
  assumes "0 \<le> sint w" and "sint w * 2 ^ k < 2 ^ 63"
  shows "sint (push_bit k w :: 64 word) = sint w * 2 ^ k"
proof -
  have "push_bit k w = word_of_int (sint w * 2 ^ k)" by (simp add: push_bit_eq_mult)
  with sint_small [of "sint w * 2 ^ k"] assms show ?thesis by simp
qed

lemma backoff_max: "sint maxFailureRetryBackoff = 60000000000"
  by (simp add: maxFailureRetryBackoff_def)

text \<open>
  The wait of a fast retry is positive and at most a minute whatever interval is configured, also
  when the shift overflows 64 bits; for an interval of up to a minute it is the interval doubled at
  each of the attempts the budget allows and clamped to a minute; and the budget is never exceeded: a
  failure arms a retry only while fewer than the maximum were made for the same render.
\<close>

theorem failure_retries_bounded:
  "0 < sint (failureRetryBackoff env n) \<and> sint (failureRetryBackoff env n) \<le> 60000000000 \<and>
   (0 < sint (env_minDeploymentInterval env) \<and> sint (env_minDeploymentInterval env) \<le> 60000000000 \<and>
      k < maxDeployFailureRetries \<longrightarrow>
    sint (failureRetryBackoff env (Suc k)) = min (sint (env_minDeploymentInterval env) * 2 ^ k) 60000000000) \<and>
   (ds_deployFailureRetries s \<le> maxDeployFailureRetries \<longrightarrow>
    ds_deployFailureRetries (scheduleFailureRetry env oc s) \<le> maxDeployFailureRetries) \<and>
   (ds_deployFailureRetries s = maxDeployFailureRetries \<and> sameOccurrence oc (ds_lastFailedRetry s) \<longrightarrow>
    scheduleFailureRetry env oc s = s)"
proof -
  have "sint (failureRetryBackoff env (Suc k)) = min (sint (env_minDeploymentInterval env) * 2 ^ k) 60000000000"
    if "0 < sint (env_minDeploymentInterval env)" "sint (env_minDeploymentInterval env) \<le> 60000000000" "k < maxDeployFailureRetries"
  proof -
    have "(2 :: int) ^ k \<le> 2 ^ 4" using that(3) by (intro power_increasing) (simp_all add: maxDeployFailureRetries_def)
    with that have less: "sint (env_minDeploymentInterval env) * 2 ^ k \<le> 60000000000 * 2 ^ 4" by (intro mult_mono) auto
    then have "sint (push_bit k (env_minDeploymentInterval env)) = sint (env_minDeploymentInterval env) * 2 ^ k"
      using that by (intro sint_push_bit) auto
    moreover have "\<not> sint (env_minDeploymentInterval env) * 2 ^ k \<le> 0" "\<not> sint (env_minDeploymentInterval env) \<le> 0"
      using that(1) by (simp_all add: not_le)
    ultimately show ?thesis by (simp add: failureRetryBackoff_def Let_def backoff_max min_def)
  qed
  moreover have "0 < sint (failureRetryBackoff env n)" "sint (failureRetryBackoff env n) \<le> 60000000000"
    by (auto simp: failureRetryBackoff_def Let_def backoff_max)
  moreover have "ds_deployFailureRetries (scheduleFailureRetry env oc s) \<le> maxDeployFailureRetries"
    if "ds_deployFailureRetries s \<le> maxDeployFailureRetries"
    using that by (auto simp: scheduleFailureRetry_def armRetryTimer_def stopRetryTimer_def Let_def)
  moreover have "scheduleFailureRetry env oc s = s"
    if "ds_deployFailureRetries s = maxDeployFailureRetries" "sameOccurrence oc (ds_lastFailedRetry s)"
    using that by (auto simp: scheduleFailureRetry_def Let_def)
  ultimately show ?thesis by blast
qed

text \<open>An interval at which the shift of the last attempt wraps around to a wait of sixteen nanoseconds.\<close>

lemma backoff_wraps_around:
  "sint (failureRetryBackoff (sampleEnv\<lparr>env_minDeploymentInterval := 2 ^ 60 + 1\<rparr>) 5) = 16"
  by (simp add: failureRetryBackoff_def Let_def backoff_max push_bit_eq_mult)

theorem failure_retries_bounded_witness:
  "sint (failureRetryBackoff sampleEnv 3) = 8000000000"
proof -
  have "sint (env_minDeploymentInterval sampleEnv) = 2000000000" by (simp add: sampleEnv_def)
  with failure_retries_bounded [of sampleEnv 0 2 newDeploymentScheduler None] show ?thesis
    by (simp add: maxDeployFailureRetries_def numeral_3_eq_3)
qed

end
