(* ===== verification/Coalesce.thy ===== *)
theory Coalesce
  imports Prelude
begin

section \<open>Coalescing queued events\<close>

text \<open>
  \<open>src/pkg/controller/coalesce/coalesce.go\<close>: draining an event channel so that uninterrupted runs of
  coalescible events of one type collapse to their latest. The channel is the list of events received
  until it is momentarily empty, which includes events that arrive while earlier ones are handled. An
  event that does not implement \<open>CoalescibleEvent\<close> has no answer to \<open>Coalescible\<close>. The handlers update a
  state.
\<close>

record ('e, 's) drain_handlers =
  dh_match :: "'e \<Rightarrow> bool"
  dh_coalescible :: "'e \<Rightarrow> bool option"
  dh_handleOther :: "'e \<Rightarrow> 's \<Rightarrow> 's"
  dh_flush :: "'e \<Rightarrow> nat \<Rightarrow> 's \<Rightarrow> 's"

definition joinsRun :: "('e, 's) drain_handlers \<Rightarrow> 'e \<Rightarrow> bool" where
  "joinsRun h e \<longleftrightarrow> dh_match h e \<and> dh_coalescible h e = Some True"

text \<open>The closure \<open>emit\<close>; the loop goes on with no latest event and none superseded.\<close>

definition emitLatest :: "('e, 's) drain_handlers \<Rightarrow> 'e option \<Rightarrow> nat \<Rightarrow> 's \<Rightarrow> 's" where
  "emitLatest h latest superseded s = (case latest of None \<Rightarrow> s | Some e \<Rightarrow> dh_flush h e superseded s)"

fun drainLoop :: "('e, 's) drain_handlers \<Rightarrow> 'e option \<Rightarrow> nat \<Rightarrow> 'e list \<Rightarrow> 's \<Rightarrow> 's" where
  "drainLoop h latest superseded [] s = emitLatest h latest superseded s"
| "drainLoop h latest superseded (event # events) s =
     (if joinsRun h event
      then drainLoop h (Some event) (if latest \<noteq> None then superseded + 1 else superseded) events s
      else drainLoop h None 0 events (dh_handleOther h event (emitLatest h latest superseded s)))"

definition drainLatest :: "('e, 's) drain_handlers \<Rightarrow> 'e list \<Rightarrow> 's \<Rightarrow> 's" where
  "drainLatest h events s = drainLoop h None 0 events s"

subsection \<open>The calls a list of events stands for\<close>

datatype 'e drain_call = HandleOther 'e | FlushLatest 'e nat

fun perform :: "('e, 's) drain_handlers \<Rightarrow> 's \<Rightarrow> 'e drain_call \<Rightarrow> 's" where
  "perform h s (HandleOther e) = dh_handleOther h e s"
| "perform h s (FlushLatest e n) = dh_flush h e n s"

text \<open>Each maximal run of events that join becomes one flush of its last event.\<close>

function coalesced :: "('e \<Rightarrow> bool) \<Rightarrow> 'e list \<Rightarrow> 'e drain_call list" where
  "coalesced joins [] = []"
| "coalesced joins (e # events) =
     (if joins e
      then FlushLatest (last (e # takeWhile joins events)) (length (takeWhile joins events)) #
        coalesced joins (dropWhile joins events)
      else HandleOther e # coalesced joins events)"
  by pat_completeness auto
termination by (relation "measure (\<lambda>(joins, events). length events)") (auto simp: le_imp_less_Suc length_dropWhile_le)

lemma coalesced_head:
  "coalesced joins (dropWhile joins events) = [] \<or> (\<exists>e cs. coalesced joins (dropWhile joins events) = HandleOther e # cs)"
proof (cases "dropWhile joins events")
  case Nil
  then show ?thesis by (simp only: coalesced.simps simp_thms)
next
  case (Cons e es)
  then have "\<not> joins e" by (metis dropWhile_eq_Cons_conv)
  with Cons show ?thesis by simp
qed

lemma drainLoop_run:
  "drainLoop h (Some e) n events s =
     foldl (perform h) (dh_flush h (last (e # takeWhile (joinsRun h) events)) (n + length (takeWhile (joinsRun h) events)) s)
       (coalesced (joinsRun h) (dropWhile (joinsRun h) events))"
  "drainLoop h None 0 events s = foldl (perform h) s (coalesced (joinsRun h) events)"
proof (induction events arbitrary: e n s)
  case Nil
  {
    case 1
    then show ?case by (simp add: emitLatest_def)
  next
    case 2
    then show ?case by (simp add: emitLatest_def)
  }
next
  case (Cons x events)
  {
    case 1
    with Cons show ?case by (simp add: emitLatest_def)
  next
    case 2
    with Cons show ?case by (simp add: emitLatest_def)
  }
qed

text \<open>What was received, given what was superseded: the events of each call in order.\<close>

fun accounts :: "('e \<Rightarrow> bool) \<Rightarrow> 'e drain_call list \<Rightarrow> 'e list \<Rightarrow> bool" where
  "accounts joins [] events \<longleftrightarrow> events = []"
| "accounts joins (HandleOther e # calls) events \<longleftrightarrow>
     events \<noteq> [] \<and> hd events = e \<and> \<not> joins e \<and> accounts joins calls (tl events)"
| "accounts joins (FlushLatest e n # calls) events \<longleftrightarrow>
     n < length events \<and> events ! n = e \<and> (\<forall>x\<in>set (take (Suc n) events). joins x) \<and>
     (\<forall>x n cs. calls \<noteq> FlushLatest x n # cs) \<and> accounts joins calls (drop (Suc n) events)"

lemma coalesced_accounts: "accounts joins (coalesced joins events) events"
proof (induction joins events rule: coalesced.induct)
  case (2 joins e events)
  show ?case
  proof (cases "joins e")
    case True
    let ?run = "takeWhile joins events"
    have "(e # events) ! length ?run = last (e # ?run)"
    proof (cases "?run = []")
      case False
      then show ?thesis by (simp add: last_conv_nth nth_Cons' takeWhile_nth)
    qed simp
    moreover have "take (Suc (length ?run)) (e # events) = e # ?run" by (simp add: takeWhile_eq_take [symmetric])
    moreover have "drop (Suc (length ?run)) (e # events) = dropWhile joins events" by (simp add: dropWhile_eq_drop)
    ultimately show ?thesis
      using True 2(1) coalesced_head [of joins events] length_takeWhile_le [of joins events]
      by (auto dest: set_takeWhileD simp del: drop_Suc_Cons take_Suc_Cons nth_Cons_Suc)
  next
    case False
    with 2(2) show ?thesis by simp
  qed
qed simp

text \<open>
  C31. Draining performs, in arrival order, one call for each maximal run of coalescible events, with the
  latest of the run and the number of events it superseded, and one for each other event; the calls
  account for every event received, so none is lost, none is handled twice and no run is held back
  behind a later event.
\<close>

theorem drainLatest_in_order:
  "\<exists>calls. drainLatest h events s = foldl (perform h) s calls \<and> accounts (joinsRun h) calls events"
  using drainLoop_run(2) [of h events s] coalesced_accounts [of "joinsRun h" events] by (auto simp: drainLatest_def)

end
