(* ===== verification/Debouncer.thy ===== *)
theory Debouncer
  imports Prelude Monitored_Runs
begin

section \<open>The debouncer of a resource watcher\<close>

text \<open>
  \<open>src/pkg/k8s/watcher/debouncer.go\<close> and \<open>ChangeStats\<close> of \<open>src/pkg/k8s/types/types.go\<close>: changes are
  counted and delivered in batches, at the leading edge and then at most once per interval. Each
  function is one section under the mutex; a section that starts a goroutine or arms a timer, or that
  calls \<open>Flush\<close> afterwards, returns the task it leaves behind. Stopping a timer that has already fired
  does not take its callback back, so a task is never removed: a callback of an old generation does
  nothing. The callback is called after its section, with the mutex released; the wait group that \<open>Stop\<close>
  waits on is left out. The zero time is \<open>None\<close>, at least any interval ago. A call of the callback is an entry of
  \<open>db_log\<close>; \<open>db_recorded\<close> counts what was recorded, for the statements below. The generation counts
  scheduled callbacks and is far from the end of 64 bits, so it is a natural.
\<close>

record ChangeStats =
  cs_Created :: nat
  cs_Modified :: nat
  cs_Deleted :: nat
  cs_IsInitialSync :: bool

definition zeroStats :: ChangeStats where
  "zeroStats = \<lparr>cs_Created = 0, cs_Modified = 0, cs_Deleted = 0, cs_IsInitialSync = False\<rparr>"

definition Total :: "ChangeStats \<Rightarrow> nat" where
  "Total c = cs_Created c + cs_Modified c + cs_Deleted c"

definition IsEmpty :: "ChangeStats \<Rightarrow> bool" where
  "IsEmpty c \<longleftrightarrow> Total c = 0"

datatype delivery_kind = ByTimer | ByFlush

record delivery =
  dl_kind :: delivery_kind
  dl_time :: int
  dl_stats :: ChangeStats

record Debouncer =
  db_interval :: int
  db_timer :: "nat option"
  db_stats :: ChangeStats
  db_callback :: bool
  db_pending :: bool
  db_generation :: nat
  db_lastFired :: "int option"
  db_syncMode :: bool
  db_suppressDuringSync :: bool
  db_stopped :: bool
  db_log :: "delivery list"
  db_recorded :: ChangeStats

text \<open>A callback of a generation, not before a time; a call of \<open>Flush\<close> still to be made.\<close>

datatype task = RunCallback nat int | OwedFlush

definition NewDebouncer :: "int \<Rightarrow> bool \<Rightarrow> bool \<Rightarrow> Debouncer" where
  "NewDebouncer interval callback suppressDuringSync =
     \<lparr>db_interval = interval, db_timer = None, db_stats = zeroStats, db_callback = callback, db_pending = False,
      db_generation = 0, db_lastFired = None, db_syncMode = True, db_suppressDuringSync = suppressDuringSync,
      db_stopped = False, db_log = [], db_recorded = zeroStats\<rparr>"

definition scheduleCallback :: "int \<Rightarrow> Debouncer \<Rightarrow> Debouncer \<times> task list" where
  "scheduleCallback now d =
     (if db_pending d then (d, [])
      else let generation = db_generation d + 1;
               d1 = d\<lparr>db_pending := True, db_generation := generation\<rparr>
           in case db_lastFired d of
                None \<Rightarrow> (d1, [RunCallback generation now])
              | Some fired \<Rightarrow>
                  if now - fired \<ge> db_interval d then (d1, [RunCallback generation now])
                  else (d1\<lparr>db_timer := Some generation\<rparr>, [RunCallback generation (now + (db_interval d - (now - fired)))]))"

text \<open>What a change counts as.\<close>

type_synonym change = "ChangeStats \<Rightarrow> ChangeStats"

definition recordChange :: "change \<Rightarrow> int \<Rightarrow> Debouncer \<Rightarrow> Debouncer \<times> task list" where
  "recordChange count now d =
     (if db_stopped d then (d, [])
      else scheduleCallback now (d\<lparr>db_stats := count (db_stats d), db_recorded := count (db_recorded d)\<rparr>))"

definition countCreate :: change where "countCreate c = c\<lparr>cs_Created := cs_Created c + 1\<rparr>"
definition countUpdate :: change where "countUpdate c = c\<lparr>cs_Modified := cs_Modified c + 1\<rparr>"
definition countDelete :: change where "countDelete c = c\<lparr>cs_Deleted := cs_Deleted c + 1\<rparr>"

definition RecordCreate :: "int \<Rightarrow> Debouncer \<Rightarrow> Debouncer \<times> task list" where
  "RecordCreate = recordChange countCreate"

definition RecordUpdate :: "int \<Rightarrow> Debouncer \<Rightarrow> Debouncer \<times> task list" where
  "RecordUpdate = recordChange countUpdate"

definition RecordDelete :: "int \<Rightarrow> Debouncer \<Rightarrow> Debouncer \<times> task list" where
  "RecordDelete = recordChange countDelete"

text \<open>The statistics are handed over, reset, and given to the callback unless they are empty.\<close>

definition deliver :: "delivery_kind \<Rightarrow> int \<Rightarrow> Debouncer \<Rightarrow> Debouncer" where
  "deliver kind now d =
     (let stats = (db_stats d)\<lparr>cs_IsInitialSync := db_syncMode d\<rparr>;
          d1 = d\<lparr>db_stats := zeroStats, db_pending := False, db_lastFired := Some now\<rparr>
      in if db_callback d \<and> \<not> IsEmpty stats
         then d1\<lparr>db_log := db_log d @ [\<lparr>dl_kind = kind, dl_time = now, dl_stats = stats\<rparr>]\<rparr> else d1)"

definition fireCallback :: "nat \<Rightarrow> int \<Rightarrow> Debouncer \<Rightarrow> Debouncer" where
  "fireCallback generation now d =
     (if db_stopped d \<or> generation \<noteq> db_generation d then d
      else let d1 = d\<lparr>db_timer := None\<rparr> in
        if db_syncMode d1 \<and> db_suppressDuringSync d1 then d1\<lparr>db_pending := False\<rparr>
        else deliver ByTimer now d1)"

definition Flush :: "int \<Rightarrow> Debouncer \<Rightarrow> Debouncer" where
  "Flush now d =
     (if db_stopped d then d
      else deliver ByFlush now (d\<lparr>db_timer := None, db_generation := db_generation d + 1\<rparr>))"

definition Stop :: "Debouncer \<Rightarrow> Debouncer" where
  "Stop d =
     (if db_stopped d then d
      else d\<lparr>db_stopped := True, db_generation := db_generation d + 1, db_timer := None, db_stats := zeroStats,
             db_pending := False\<rparr>)"

definition SetSyncMode :: "bool \<Rightarrow> Debouncer \<Rightarrow> Debouncer \<times> task list" where
  "SetSyncMode enabled d =
     (if db_stopped d then (d, [])
      else (d\<lparr>db_syncMode := enabled\<rparr>,
            if db_syncMode d \<and> \<not> enabled \<and> \<not> IsEmpty (db_stats d) then [OwedFlush] else []))"

definition GetInitialCount :: "Debouncer \<Rightarrow> nat" where
  "GetInitialCount d = cs_Created (db_stats d)"

subsection \<open>Concurrent use\<close>

record deb_config =
  dc_deb :: Debouncer
  dc_tasks :: "task list"
  dc_clock :: int

text \<open>Callers and the tasks left behind take the mutex in any order; the clock does not run backwards.\<close>

inductive deb_step :: "deb_config \<Rightarrow> deb_config \<Rightarrow> bool" where
  create: "dc_clock c \<le> now \<Longrightarrow> RecordCreate now (dc_deb c) = (d, ts) \<Longrightarrow>
    deb_step c (c\<lparr>dc_deb := d, dc_tasks := ts @ dc_tasks c, dc_clock := now\<rparr>)"
| update: "dc_clock c \<le> now \<Longrightarrow> RecordUpdate now (dc_deb c) = (d, ts) \<Longrightarrow>
    deb_step c (c\<lparr>dc_deb := d, dc_tasks := ts @ dc_tasks c, dc_clock := now\<rparr>)"
| delete: "dc_clock c \<le> now \<Longrightarrow> RecordDelete now (dc_deb c) = (d, ts) \<Longrightarrow>
    deb_step c (c\<lparr>dc_deb := d, dc_tasks := ts @ dc_tasks c, dc_clock := now\<rparr>)"
| run: "dc_clock c \<le> now \<Longrightarrow> dc_tasks c = before @ RunCallback g t # after \<Longrightarrow> t \<le> now \<Longrightarrow>
    deb_step c (c\<lparr>dc_deb := fireCallback g now (dc_deb c), dc_tasks := before @ after, dc_clock := now\<rparr>)"
| owed: "dc_clock c \<le> now \<Longrightarrow> dc_tasks c = before @ OwedFlush # after \<Longrightarrow>
    deb_step c (c\<lparr>dc_deb := Flush now (dc_deb c), dc_tasks := before @ after, dc_clock := now\<rparr>)"
| flush: "dc_clock c \<le> now \<Longrightarrow> deb_step c (c\<lparr>dc_deb := Flush now (dc_deb c), dc_clock := now\<rparr>)"
| sync: "SetSyncMode enabled (dc_deb c) = (d, ts) \<Longrightarrow> deb_step c (c\<lparr>dc_deb := d, dc_tasks := ts @ dc_tasks c\<rparr>)"
| stop: "deb_step c (c\<lparr>dc_deb := Stop (dc_deb c)\<rparr>)"

definition deb_reachable :: "Debouncer \<Rightarrow> deb_config \<Rightarrow> bool" where
  "deb_reachable d = run_of (\<lambda>_::unit. deb_step) (\<lambda>_. True) \<lparr>dc_deb = d, dc_tasks = [], dc_clock = 0\<rparr>"

lemma deb_reachable_step: "deb_reachable d c \<Longrightarrow> deb_step c c' \<Longrightarrow> deb_reachable d c'"
  unfolding deb_reachable_def by (rule run_of_step) simp_all

subsection \<open>The invariant\<close>

text \<open>The callbacks of the current generation among the tasks.\<close>

definition current :: "Debouncer \<Rightarrow> task list \<Rightarrow> task list" where
  "current d ts = filter (\<lambda>t. case t of RunCallback g _ \<Rightarrow> g = db_generation d | OwedFlush \<Rightarrow> False) ts"

definition delivered :: "(ChangeStats \<Rightarrow> nat) \<Rightarrow> Debouncer \<Rightarrow> nat" where
  "delivered f d = sum_list (map (f \<circ> dl_stats) (db_log d))"

definition conserved :: "Debouncer \<Rightarrow> bool" where
  "conserved d \<longleftrightarrow> (\<forall>f\<in>{cs_Created, cs_Modified, cs_Deleted}. f (db_recorded d) = delivered f d + f (db_stats d))"

text \<open>A pending batch has exactly one callback; changes with none wait for the end of the sync.\<close>

definition scheduled :: "Debouncer \<Rightarrow> task list \<Rightarrow> bool" where
  "scheduled d ts \<longleftrightarrow> length (current d ts) = (if db_pending d then 1 else 0) \<and>
     (\<forall>g t. RunCallback g t \<in> set ts \<longrightarrow> g \<le> db_generation d)"

definition attended :: "Debouncer \<Rightarrow> task list \<Rightarrow> bool" where
  "attended d ts \<longleftrightarrow> db_pending d \<or> IsEmpty (db_stats d) \<or> db_syncMode d \<and> db_suppressDuringSync d \<or> OwedFlush \<in> set ts"

text \<open>A delivery by a timer comes an interval after the one before it.\<close>

definition spaced :: "int \<Rightarrow> delivery list \<Rightarrow> bool" where
  "spaced interval log \<longleftrightarrow> (\<forall>i. Suc i < length log \<and> dl_kind (log ! Suc i) = ByTimer \<longrightarrow>
     dl_time (log ! i) + interval \<le> dl_time (log ! Suc i))"

definition paced :: "Debouncer \<Rightarrow> task list \<Rightarrow> int \<Rightarrow> bool" where
  "paced d ts clock \<longleftrightarrow>
     (case db_lastFired d of
        None \<Rightarrow> db_log d = []
      | Some fired \<Rightarrow> fired \<le> clock \<and> (db_log d \<noteq> [] \<longrightarrow> dl_time (last (db_log d)) \<le> fired) \<and>
          (\<forall>t. RunCallback (db_generation d) t \<in> set ts \<longrightarrow> fired + db_interval d \<le> t))"

definition running_ok :: "Debouncer \<Rightarrow> task list \<Rightarrow> int \<Rightarrow> bool" where
  "running_ok d ts clock \<longleftrightarrow> conserved d \<and> scheduled d ts \<and> paced d ts clock"

definition deb_ok :: "Debouncer \<Rightarrow> task list \<Rightarrow> int \<Rightarrow> bool" where
  "deb_ok d ts clock \<longleftrightarrow> db_callback d \<and> spaced (db_interval d) (db_log d) \<and>
     (\<not> db_stopped d \<longrightarrow> running_ok d ts clock \<and> attended d ts)"

lemma spaced_snoc:
  "spaced interval (log @ [x]) \<longleftrightarrow> spaced interval log \<and>
     (log \<noteq> [] \<and> dl_kind x = ByTimer \<longrightarrow> dl_time (last log) + interval \<le> dl_time x)"
  (is "?L \<longleftrightarrow> ?R")
proof
  assume L: ?L
  have "dl_time (last log) + interval \<le> dl_time x" if "log \<noteq> []" "dl_kind x = ByTimer"
    using L that unfolding spaced_def
    by (elim allE [of _ "length log - 1"]) (simp add: nth_append last_conv_nth Suc_le_eq)
  moreover have "spaced interval log"
    unfolding spaced_def
  proof (intro allI impI)
    fix i assume "Suc i < length log \<and> dl_kind (log ! Suc i) = ByTimer"
    with L show "dl_time (log ! i) + interval \<le> dl_time (log ! Suc i)"
      unfolding spaced_def by (elim allE [of _ i]) (simp add: nth_append)
  qed
  ultimately show ?R by blast
next
  assume R: ?R
  show ?L
    unfolding spaced_def
  proof (intro allI impI)
    fix i assume i: "Suc i < length (log @ [x]) \<and> dl_kind ((log @ [x]) ! Suc i) = ByTimer"
    show "dl_time ((log @ [x]) ! i) + interval \<le> dl_time ((log @ [x]) ! Suc i)"
    proof (cases "Suc i < length log")
      case True
      with R i show ?thesis by (auto simp: spaced_def nth_append)
    next
      case False
      then have "Suc i = length log" using i by simp
      then have "i = length log - 1" "log \<noteq> []" by auto
      then have "log ! i = last log" "\<not> Suc i < length log" "i < length log" by (simp_all add: last_conv_nth)
      with R i \<open>log \<noteq> []\<close> \<open>Suc i = length log\<close> show ?thesis by (simp add: nth_append)
    qed
  qed
qed

lemma current_append [simp]: "current d (ts @ us) = current d ts @ current d us"
  by (simp add: current_def)

lemma current_Cons [simp]:
  "current d (RunCallback g t # ts) = (if g = db_generation d then RunCallback g t # current d ts else current d ts)"
  "current d (OwedFlush # ts) = current d ts" "current d [] = []"
  by (simp_all add: current_def)

lemma current_older: "(\<And>g t. RunCallback g t \<in> set ts \<Longrightarrow> g < db_generation d) \<Longrightarrow> current d ts = []"
  by (fastforce simp: current_def filter_empty_conv split: task.splits)

lemma current_cong: "db_generation d' = db_generation d \<Longrightarrow> current d' ts = current d ts"
  by (simp only: current_def)

lemma current_Nil_iff: "current d ts = [] \<longleftrightarrow> (\<forall>t. RunCallback (db_generation d) t \<notin> set ts)"
proof (induction ts)
  case (Cons x ts)
  then show ?case by (cases x) auto
qed simp

lemma current_Nil: "current d ts = [] \<Longrightarrow> RunCallback (db_generation d) t \<notin> set ts"
  by (auto simp: current_def filter_empty_conv)

lemma ok_later: "deb_ok d ts clock \<Longrightarrow> clock \<le> now \<Longrightarrow> deb_ok d ts now"
  by (auto simp: deb_ok_def running_ok_def paced_def split: option.splits)

lemma IsEmpty_zero [simp]: "IsEmpty zeroStats"
  by (simp add: IsEmpty_def Total_def zeroStats_def)

text \<open>The next generation has no callback yet.\<close>

lemma fresh_generation:
  assumes "scheduled d ts" "db_generation d' = db_generation d + 1"
  shows "current d' ts = []" "RunCallback g t \<in> set ts \<Longrightarrow> g \<le> db_generation d'"
proof -
  have old: "g < db_generation d'" if "RunCallback g t \<in> set ts" for g t
    using assms that by (auto simp: scheduled_def less_Suc_eq_le)
  then show "current d' ts = []" by (rule current_older)
  show "RunCallback g t \<in> set ts \<Longrightarrow> g \<le> db_generation d'" by (rule less_imp_le [OF old])
qed

lemma scheduleCallback_ok:
  assumes ok: "running_ok d ts clock" and now: "clock \<le> now" and res: "scheduleCallback now d = (d', new)"
  shows "running_ok d' (new @ ts) now" "db_pending d'" "db_callback d' = db_callback d" "db_interval d' = db_interval d"
    "db_log d' = db_log d"
proof -
  have "running_ok d' (new @ ts) now \<and> db_pending d' \<and> db_callback d' = db_callback d \<and> db_interval d' = db_interval d \<and>
      db_log d' = db_log d"
  proof (cases "db_pending d")
    case True
    with ok now res show ?thesis by (auto simp: scheduleCallback_def running_ok_def paced_def split: option.splits)
  next
    case False
    from ok have sched: "scheduled d ts" by (simp add: running_ok_def)
    from False res obtain t where new: "new = [RunCallback (db_generation d + 1) t]"
      and d': "db_pending d'" "db_generation d' = db_generation d + 1" "db_lastFired d' = db_lastFired d"
        "db_callback d' = db_callback d" "db_interval d' = db_interval d" "db_log d' = db_log d"
        "db_stats d' = db_stats d" "db_recorded d' = db_recorded d"
      and t: "\<And>fired. db_lastFired d = Some fired \<Longrightarrow> fired + db_interval d \<le> t"
      by (auto simp: scheduleCallback_def Let_def split: option.splits if_splits)
    note fresh = fresh_generation [OF sched d'(2)]
    have "scheduled d' (new @ ts)" using d' fresh by (auto simp: scheduled_def new)
    moreover have "paced d' (new @ ts) now"
      using ok now d' t current_Nil [OF fresh(1)] by (auto simp: running_ok_def paced_def new split: option.splits)
    moreover have "conserved d'" using ok d' by (auto simp: running_ok_def conserved_def delivered_def)
    ultimately show ?thesis using d' by (simp add: running_ok_def)
  qed
  then show "running_ok d' (new @ ts) now" "db_pending d'" "db_callback d' = db_callback d"
    "db_interval d' = db_interval d" "db_log d' = db_log d" by auto
qed

lemma conserved_count:
  "conserved d \<Longrightarrow> count \<in> {countCreate, countUpdate, countDelete} \<Longrightarrow>
   conserved (d\<lparr>db_stats := count (db_stats d), db_recorded := count (db_recorded d)\<rparr>)"
  by (auto simp: conserved_def delivered_def countCreate_def countUpdate_def countDelete_def)

lemma recordChange_ok:
  assumes "deb_ok d ts clock" "clock \<le> now" "recordChange count now d = (d', new)"
    "count \<in> {countCreate, countUpdate, countDelete}"
  shows "deb_ok d' (new @ ts) now"
proof (cases "db_stopped d")
  case True
  with assms show ?thesis by (auto simp: recordChange_def deb_ok_def)
next
  case False
  let ?d = "d\<lparr>db_stats := count (db_stats d), db_recorded := count (db_recorded d)\<rparr>"
  have "running_ok ?d ts clock"
    using assms(1,4) False conserved_count [of d count]
    by (auto simp: deb_ok_def running_ok_def scheduled_def paced_def current_cong [of ?d d] cong: option.case_cong)
  from scheduleCallback_ok [OF this assms(2), of d' new] assms(1,3) False show ?thesis
    by (simp add: recordChange_def deb_ok_def attended_def)
qed

text \<open>A delivery with no callback of its generation left.\<close>

lemma deliver_ok:
  assumes "conserved d" "spaced (db_interval d) (db_log d)" "db_callback d"
    "kind = ByTimer \<and> db_log d \<noteq> [] \<longrightarrow> dl_time (last (db_log d)) + db_interval d \<le> now"
    "current d ts = []" "\<forall>g t. RunCallback g t \<in> set ts \<longrightarrow> g \<le> db_generation d"
    "db_log d \<noteq> [] \<longrightarrow> dl_time (last (db_log d)) \<le> now"
  shows "deb_ok (deliver kind now d) ts now"
proof -
  let ?d = "deliver kind now d"
  have d: "db_generation ?d = db_generation d" "\<not> db_pending ?d" "db_stats ?d = zeroStats"
    "db_lastFired ?d = Some now" "db_callback ?d = db_callback d" "db_interval ?d = db_interval d"
    by (simp_all add: deliver_def Let_def)
  have "scheduled ?d ts" using assms d by (simp add: scheduled_def current_cong [of ?d d])
  moreover have "db_log ?d \<noteq> [] \<longrightarrow> dl_time (last (db_log ?d)) \<le> now" using assms(7) by (simp add: deliver_def Let_def)
  then have "paced ?d ts now" using d current_Nil [OF assms(5)] by (simp add: paced_def)
  moreover have "conserved ?d"
    using assms(1,3) by (auto simp: conserved_def delivered_def deliver_def Let_def zeroStats_def IsEmpty_def Total_def)
  moreover have "spaced (db_interval ?d) (db_log ?d)"
    using assms(2,4) by (auto simp: deliver_def Let_def spaced_snoc)
  ultimately show ?thesis using assms(3) d by (simp add: deb_ok_def running_ok_def attended_def)
qed

lemma last_delivery: "paced d ts clock \<Longrightarrow> clock \<le> now \<Longrightarrow> db_log d \<noteq> [] \<Longrightarrow> dl_time (last (db_log d)) \<le> now"
  by (auto simp: paced_def split: option.splits)

lemma Flush_ok:
  assumes ok: "deb_ok d ts clock" and now: "clock \<le> now"
  shows "deb_ok (Flush now d) ts now"
proof (cases "db_stopped d")
  case True
  with ok now show ?thesis by (simp add: Flush_def ok_later)
next
  case False
  let ?d = "d\<lparr>db_timer := None, db_generation := db_generation d + 1\<rparr>"
  from ok False have r: "scheduled d ts" "paced d ts clock" "conserved d" by (simp_all add: deb_ok_def running_ok_def)
  note fresh = fresh_generation [OF r(1), of ?d]
  have "conserved ?d" using r(3) by (simp add: conserved_def delivered_def)
  then have "deb_ok (deliver ByFlush now ?d) ts now"
    using ok fresh last_delivery [OF r(2) now] by (intro deliver_ok) (simp_all add: deb_ok_def)
  with False show ?thesis by (simp add: Flush_def)
qed

text \<open>Dropping a task that is not a current callback, nor a call of \<open>Flush\<close> still owed.\<close>

lemma drop_task_ok:
  assumes "deb_ok d (before @ RunCallback g t # after) clock" "db_stopped d \<or> g \<noteq> db_generation d"
  shows "deb_ok d (before @ after) clock"
  using assms by (auto simp: deb_ok_def running_ok_def scheduled_def paced_def attended_def split: option.splits)

lemma fireCallback_ok:
  assumes ok: "deb_ok d (before @ RunCallback g t # after) clock" and now: "clock \<le> now" "t \<le> now"
  shows "deb_ok (fireCallback g now d) (before @ after) now"
proof (cases "db_stopped d \<or> g \<noteq> db_generation d")
  case True
  with drop_task_ok [OF ok] now show ?thesis by (auto simp: fireCallback_def intro: ok_later)
next
  case False
  let ?d = "d\<lparr>db_timer := None\<rparr>" and ?ts = "before @ after"
  from ok False have r: "scheduled d (before @ RunCallback g t # after)" "paced d (before @ RunCallback g t # after) clock"
      "conserved d" "spaced (db_interval d) (db_log d)" "db_callback d" by (simp_all add: deb_ok_def running_ok_def)
  from r(1) False have none: "current d ?ts = []" and old: "\<And>g t. RunCallback g t \<in> set ?ts \<Longrightarrow> g \<le> db_generation d"
    by (auto simp: scheduled_def split: if_splits)
  have cons: "conserved (d\<lparr>db_timer := None, db_pending := p\<rparr>)" "conserved ?d" for p
    using r(3) by (simp_all add: conserved_def delivered_def)
  show ?thesis
  proof (cases "db_syncMode d \<and> db_suppressDuringSync d")
    case True
    with False have eq: "fireCallback g now d = ?d\<lparr>db_pending := False\<rparr>" by (simp add: fireCallback_def)
    have "paced (?d\<lparr>db_pending := False\<rparr>) ?ts now"
      using r(2) now current_Nil [OF none] by (auto simp: paced_def split: option.splits)
    moreover have "scheduled (?d\<lparr>db_pending := False\<rparr>) ?ts"
      using none old by (simp add: scheduled_def current_cong [of "?d\<lparr>db_pending := False\<rparr>" d])
    ultimately show ?thesis using True cons r by (simp add: eq deb_ok_def running_ok_def attended_def)
  next
    case False
    have "deb_ok (deliver ByTimer now ?d) ?ts now"
    proof (rule deliver_ok)
      have "fired + db_interval d \<le> t" if "db_lastFired d = Some fired" for fired
        using r(2) that \<open>\<not> (db_stopped d \<or> g \<noteq> db_generation d)\<close> by (auto simp: paced_def)
      then show "ByTimer = ByTimer \<and> db_log ?d \<noteq> [] \<longrightarrow> dl_time (last (db_log ?d)) + db_interval ?d \<le> now"
        using r(2) now by (fastforce simp: paced_def split: option.splits)
    qed (use cons r none old last_delivery [OF r(2) now(1)] in \<open>simp_all add: current_cong [of ?d d]\<close>)
    with False \<open>\<not> (db_stopped d \<or> g \<noteq> db_generation d)\<close> show ?thesis by (auto simp: fireCallback_def Let_def)
  qed
qed

text \<open>A call of \<open>Flush\<close> that was owed leaves nothing to attend to.\<close>

lemma owed_Flush_ok:
  assumes ok: "deb_ok d (before @ OwedFlush # after) clock" and now: "clock \<le> now"
  shows "deb_ok (Flush now d) (before @ after) now"
proof -
  have "attended (Flush now d) (before @ after)" if "\<not> db_stopped (Flush now d)"
    using that by (auto simp: Flush_def attended_def deliver_def Let_def)
  with Flush_ok [OF ok now] show ?thesis
    by (auto simp: deb_ok_def running_ok_def scheduled_def paced_def split: option.splits)
qed

lemma SetSyncMode_ok:
  assumes "deb_ok d ts clock" "SetSyncMode enabled d = (d', new)"
  shows "deb_ok d' (new @ ts) clock"
proof (cases "db_stopped d")
  case True
  with assms show ?thesis by (auto simp: SetSyncMode_def)
next
  case False
  then have d': "d' = d\<lparr>db_syncMode := enabled\<rparr>"
    and new: "new = (if db_syncMode d \<and> \<not> enabled \<and> \<not> IsEmpty (db_stats d) then [OwedFlush] else [])"
    using assms(2) by (simp_all add: SetSyncMode_def)
  have "scheduled d' (new @ ts)" "paced d' (new @ ts) clock" "conserved d'"
    using assms(1) False by (auto simp: d' new deb_ok_def running_ok_def scheduled_def paced_def conserved_def delivered_def
        current_cong [of "d\<lparr>db_syncMode := enabled\<rparr>" d] split: option.splits)
  moreover have "attended d' (new @ ts)" using assms(1) False by (auto simp: d' new deb_ok_def attended_def)
  ultimately show ?thesis using assms(1) by (simp add: d' deb_ok_def running_ok_def)
qed

lemma Stop_ok: "deb_ok d ts clock \<Longrightarrow> deb_ok (Stop d) ts clock"
  by (simp add: Stop_def deb_ok_def)

lemma deb_step_ok:
  assumes "deb_step c c'" "deb_ok (dc_deb c) (dc_tasks c) (dc_clock c)"
  shows "deb_ok (dc_deb c') (dc_tasks c') (dc_clock c')"
  using assms
proof (induction rule: deb_step.induct)
  case (create c now d ts)
  then show ?case by (auto simp: RecordCreate_def intro: recordChange_ok)
next
  case (update c now d ts)
  then show ?case by (auto simp: RecordUpdate_def intro: recordChange_ok)
next
  case (delete c now d ts)
  then show ?case by (auto simp: RecordDelete_def intro: recordChange_ok)
next
  case (run c now before g t after)
  then show ?case by (auto intro: fireCallback_ok)
next
  case (owed c now before after)
  then show ?case by (auto intro: owed_Flush_ok)
next
  case (flush c now)
  then show ?case by (auto intro: Flush_ok)
next
  case (sync enabled c d ts)
  then show ?case by (auto intro: SetSyncMode_ok)
next
  case (stop c)
  then show ?case by (auto intro: Stop_ok)
qed

text \<open>What the constructor sets stays.\<close>

definition settings :: "Debouncer \<Rightarrow> int \<times> bool" where
  "settings d = (db_interval d, db_suppressDuringSync d)"

lemma recordChange_settings: "recordChange count now d = (d', ts) \<Longrightarrow> settings d' = settings d"
  by (auto simp: settings_def recordChange_def scheduleCallback_def Let_def split: option.splits if_splits)

lemma SetSyncMode_settings: "SetSyncMode enabled d = (d', ts) \<Longrightarrow> settings d' = settings d"
  by (auto simp: settings_def SetSyncMode_def split: if_splits)

lemma section_settings:
  "settings (fireCallback g now d) = settings d" "settings (Flush now d) = settings d" "settings (Stop d) = settings d"
  by (simp_all add: settings_def fireCallback_def Flush_def Stop_def deliver_def Let_def)

lemma deb_step_settings: "deb_step c c' \<Longrightarrow> settings (dc_deb c') = settings (dc_deb c)"
  by (cases rule: deb_step.cases)
    (auto simp: RecordCreate_def RecordUpdate_def RecordDelete_def section_settings
      dest: recordChange_settings SetSyncMode_settings)

interpretation debouncing: monitored_run "\<lambda>_::unit. deb_step" "\<lambda>_. True" "\<lambda>c. deb_ok (dc_deb c) (dc_tasks c) (dc_clock c)"
  "\<lambda>c c'. settings (dc_deb c') = settings (dc_deb c)"
  by unfold_locales (simp_all add: deb_step_settings deb_step_ok)

lemma NewDebouncer_ok: "deb_ok (NewDebouncer interval True suppress) [] 0"
  by (simp add: NewDebouncer_def deb_ok_def running_ok_def conserved_def delivered_def scheduled_def paced_def
      attended_def spaced_def)

text \<open>Changes that are neither suppressed nor owed to a flush have a callback that delivers them.\<close>

lemma delivers_next:
  assumes ok: "deb_ok (dc_deb c) (dc_tasks c) (dc_clock c)"
    and running: "\<not> db_stopped (dc_deb c)" "\<not> (db_syncMode (dc_deb c) \<and> db_suppressDuringSync (dc_deb c))"
    and some: "\<not> IsEmpty (db_stats (dc_deb c))"
  shows "\<exists>c'. deb_step c c' \<and> db_stats (dc_deb c') = zeroStats \<and> length (db_log (dc_deb c')) = Suc (length (db_log (dc_deb c)))"
proof -
  let ?d = "dc_deb c"
  have stats: "IsEmpty ((db_stats ?d)\<lparr>cs_IsInitialSync := b\<rparr>) = IsEmpty (db_stats ?d)" for b
    by (simp add: IsEmpty_def Total_def)
  from ok running have a: "attended ?d (dc_tasks c)" "scheduled ?d (dc_tasks c)" "db_callback ?d"
    by (simp_all add: deb_ok_def running_ok_def)
  show ?thesis
  proof (cases "db_pending ?d")
    case True
    with a(2) have "current ?d (dc_tasks c) \<noteq> []" by (auto simp: scheduled_def)
    then obtain t where "RunCallback (db_generation ?d) t \<in> set (dc_tasks c)" by (auto simp: current_Nil_iff)
    then obtain before after where ts: "dc_tasks c = before @ RunCallback (db_generation ?d) t # after"
      by (auto simp: in_set_conv_decomp)
    show ?thesis
      by (rule exI, rule conjI, rule deb_step.run [OF _ ts, of "max t (dc_clock c)"])
        (use running some a in \<open>auto simp: fireCallback_def deliver_def Let_def stats\<close>)
  next
    case False
    with a running some obtain before after where ts: "dc_tasks c = before @ OwedFlush # after"
      by (auto simp: attended_def in_set_conv_decomp)
    show ?thesis
      by (rule exI, rule conjI, rule deb_step.owed [OF order_refl ts])
        (use running some a in \<open>auto simp: Flush_def deliver_def Let_def stats\<close>)
  qed
qed


text \<open>Two changes after the initial sync: the first is delivered at once, the second waits.\<close>

definition twoChanges :: deb_config where
  "twoChanges =
     (let d0 = NewDebouncer 5 True True; d1 = fst (SetSyncMode False d0); (d2, ts2) = RecordCreate 1 d1;
          d3 = fireCallback 1 1 d2; (d4, ts4) = RecordUpdate 2 d3
      in \<lparr>dc_deb = d4, dc_tasks = ts4, dc_clock = 2\<rparr>)"


end
