(* ===== verification/Go_Path.thy ===== *)
theory Go_Path
  imports Go_Std
begin

section \<open>Slash-separated paths\<close>

text \<open>
  \<open>path/filepath\<close> on Linux: \<open>Join\<close>, \<open>Base\<close> and \<open>IsAbs\<close> next to the \<open>Clean\<close> and \<open>Dir\<close> of the planner's
  library, and how they act on paths whose elements are plain names: such a path is the list of its
  elements, so that two paths are equal exactly when their elements are.
\<close>

definition path_IsAbs :: "string \<Rightarrow> bool" where
  "path_IsAbs p \<longleftrightarrow> HasPrefix p ''/''"

definition path_Join :: "string list \<Rightarrow> string" where
  "path_Join es = (let present = filter (\<lambda>e. e \<noteq> []) es in if present = [] then [] else path_Clean (join_slash present))"

fun strip_slashes :: "string \<Rightarrow> string" where
  "strip_slashes p = (if p \<noteq> [] \<and> last p = CHR ''/'' then strip_slashes (butlast p) else p)"

declare strip_slashes.simps [simp del]

definition path_Base :: "string \<Rightarrow> string" where
  "path_Base p =
     (if p = [] then ''.''
      else let q = last (split_on (CHR ''/'') (strip_slashes p)) in if q = [] then ''/'' else q)"

subsection \<open>Elements\<close>

definition plain :: "string \<Rightarrow> bool" where
  "plain e \<longleftrightarrow> e \<noteq> [] \<and> CHR ''/'' \<notin> set e \<and> e \<noteq> ''.'' \<and> e \<noteq> ''..''"

lemma plainD: "plain e \<Longrightarrow> e \<noteq> [] \<and> CHR ''/'' \<notin> set e"
  by (simp add: plain_def)

text \<open>The absolute path with these elements.\<close>

definition rooted_at :: "string list \<Rightarrow> string" where
  "rooted_at es = ''/'' @ join_slash es"

lemma split_on_nonempty [simp]: "split_on c s \<noteq> []"
  by (induction s) (auto split: list.splits)

lemma split_on_element: "c \<notin> set e \<Longrightarrow> split_on c e = [e]"
  by (induction e) auto

lemma split_on_Cons_element: "c \<notin> set e \<Longrightarrow> split_on c (e @ c # s) = e # split_on c s"
  by (induction e) auto

lemma join_slash_Cons: "join_slash (e # es) = (if es = [] then e else e @ CHR ''/'' # join_slash es)"
  by (cases es) auto

lemma split_join: "es \<noteq> [] \<Longrightarrow> \<forall>e\<in>set es. CHR ''/'' \<notin> set e \<Longrightarrow> split_on (CHR ''/'') (join_slash es) = es"
  by (induction es) (auto simp: join_slash_Cons split_on_element split_on_Cons_element)

lemma join_split: "join_slash (split_on (CHR ''/'') s) = s"
proof (induction s)
  case (Cons x s)
  then show ?case by (cases "split_on (CHR ''/'') s") (auto simp: join_slash_Cons)
qed simp

lemma elements_no_slash: "e \<in> set (split_on c s) \<Longrightarrow> c \<notin> set e"
proof (induction s arbitrary: e)
  case (Cons x s)
  then show ?case by (cases "split_on c s") (auto split: if_splits)
qed simp

lemma join_slash_inj:
  assumes "join_slash es = join_slash fs" "es \<noteq> []" "fs \<noteq> []" "\<forall>e\<in>set es \<union> set fs. CHR ''/'' \<notin> set e"
  shows "es = fs"
  using assms split_join [of es] split_join [of fs] by (metis UnCI)

lemma rooted_at_inj:
  assumes "rooted_at es = rooted_at fs" "\<forall>e\<in>set es. plain e" "\<forall>f\<in>set fs. plain f" "es \<noteq> []" "fs \<noteq> []"
  shows "es = fs"
  using assms join_slash_inj [of es fs] plainD by (auto simp: rooted_at_def)

lemma clean_elems_plain: "\<forall>e\<in>set es. plain e \<Longrightarrow> clean_elems rooted acc es = rev acc @ es"
  by (induction es arbitrary: acc) (auto simp: plain_def)

lemma clean_elems_present:
  "\<forall>e\<in>set es. e \<noteq> ''.'' \<and> e \<noteq> ''..'' \<Longrightarrow> clean_elems rooted acc es = rev acc @ filter (\<lambda>e. e \<noteq> []) es"
  by (induction es arbitrary: acc) auto

lemma HasPrefix_slash [simp]: "HasPrefix (CHR ''/'' # s) ''/''"
  by (simp add: HasPrefix_def)

lemma path_Clean_rooted: "\<forall>e\<in>set es. plain e \<Longrightarrow> path_Clean (rooted_at es) = rooted_at es"
proof (cases "es = []")
  case False
  assume plain: "\<forall>e\<in>set es. plain e"
  have "split_on (CHR ''/'') (''/'' @ join_slash es) = [] # es"
    using False plain plainD by (simp add: split_join)
  with clean_elems_plain [OF plain, of True "[]"] show ?thesis
    by (simp add: path_Clean_def rooted_at_def)
qed (simp add: path_Clean_def rooted_at_def)

lemma join_slash_append: "es \<noteq> [] \<Longrightarrow> fs \<noteq> [] \<Longrightarrow> join_slash (es @ fs) = join_slash es @ ''/'' @ join_slash fs"
  by (induction es) (auto simp: join_slash_Cons)

text \<open>Joining names below an absolute path.\<close>

lemma path_Join_rooted:
  assumes "es \<noteq> []" "fs \<noteq> []" "\<forall>e\<in>set (es @ fs). plain e"
  shows "path_Join (rooted_at es # fs) = rooted_at (es @ fs)"
proof -
  have present: "filter (\<lambda>e. e \<noteq> []) (rooted_at es # fs) = rooted_at es # fs"
    using assms by (auto simp: rooted_at_def plain_def)
  have "join_slash (rooted_at es # fs) = rooted_at (es @ fs)"
    using assms by (simp add: join_slash_Cons rooted_at_def join_slash_append)
  with present path_Clean_rooted [OF assms(3)] show ?thesis by (simp add: path_Join_def Let_def)
qed

text \<open>A relative path that names its elements.\<close>

lemma path_Join_relative:
  assumes "es \<noteq> []" "fs \<noteq> []" "\<forall>e\<in>set (es @ fs). plain e"
  shows "path_Join [rooted_at es, join_slash fs] = rooted_at (es @ fs)"
proof -
  have "join_slash fs \<noteq> []" using assms by (cases fs) (auto simp: join_slash_Cons plain_def)
  then have "path_Join [rooted_at es, join_slash fs] = path_Clean (rooted_at (es @ fs))"
    using assms by (simp add: path_Join_def Let_def rooted_at_def join_slash_append)
  with path_Clean_rooted [OF assms(3)] show ?thesis by simp
qed

lemma split_rooted:
  "es \<noteq> [] \<Longrightarrow> \<forall>e\<in>set es. plain e \<Longrightarrow> split_on (CHR ''/'') (rooted_at es) = [] # es"
  using plainD by (simp add: rooted_at_def split_join)

lemma path_Dir_rooted:
  assumes "es \<noteq> []" "butlast es \<noteq> []" "\<forall>e\<in>set es. plain e"
  shows "path_Dir (rooted_at es) = rooted_at (butlast es)"
proof -
  have "\<forall>e\<in>set (butlast es). plain e" using assms(3) by (auto dest: in_set_butlastD)
  note plain = this
  have "split_on (CHR ''/'') (''/'' @ join_slash (butlast es) @ ''/'') = ([] # butlast es) @ [[]]"
  proof -
    have "''/'' @ join_slash (butlast es) @ ''/'' = join_slash ([] # butlast es @ [[]])"
      using assms(2) by (simp add: join_slash_Cons join_slash_append)
    then show ?thesis using plain plainD assms(2) by (subst split_join [symmetric]) auto
  qed
  moreover have "clean_elems True [] (([] # butlast es) @ [[]]) = butlast es"
    using clean_elems_present [of "butlast es @ [[]]" True "[]"] plain by (auto simp: plain_def filter_id_conv)
  ultimately have "path_Clean (''/'' @ join_slash (butlast es) @ ''/'') = rooted_at (butlast es)"
    by (simp add: path_Clean_def rooted_at_def)
  then show ?thesis
    using assms(1,2) split_rooted [OF assms(1,3)]
    by (auto simp: path_Dir_def rooted_at_def join_slash_Cons)
qed

lemma last_join_slash: "es \<noteq> [] \<Longrightarrow> \<forall>e\<in>set es. plain e \<Longrightarrow> join_slash es \<noteq> [] \<and> last (join_slash es) = last (last es)"
  by (induction es) (auto simp: join_slash_Cons plain_def)

lemma path_Base_rooted:
  assumes "es \<noteq> []" "\<forall>e\<in>set es. plain e"
  shows "path_Base (rooted_at es) = last es"
proof -
  have "last es \<noteq> []" "CHR ''/'' \<notin> set (last es)" using assms plainD last_in_set by blast+
  moreover from this have "last (last es) \<noteq> CHR ''/''" using last_in_set by fastforce
  ultimately have "strip_slashes (rooted_at es) = rooted_at es"
    using last_join_slash [OF assms] by (subst strip_slashes.simps) (simp add: rooted_at_def)
  with split_rooted [OF assms] \<open>last es \<noteq> []\<close> assms(1) show ?thesis
    by (simp add: path_Base_def Let_def) (simp add: rooted_at_def)
qed

end
