(* ===== verification/Agent_Files.thy ===== *)
theory Agent_Files
  imports Go_Path Render_Plan "HOL-Library.AList"
begin

section \<open>The file tree of an agent\<close>

text \<open>
  \<open>src/pkg/dataplane/agent/files\<close>: the manifest-managed tree of a pod (\<open>path.go\<close>, \<open>store.go\<close>), the
  verified parts, the backups and the restore (\<open>write.go\<close>), the journal (\<open>journal.go\<close>) and one apply's
  transaction (\<open>transaction.go\<close>).

  The file system is a map from absolute paths to nodes. The agent never writes into a file that has a
  name in the tree: it writes a temporary file and renames it, so a hard link is a second name with an
  equal node. Directories are not nodes of the map: creating one changes nothing a function here reads,
  and a directory at a managed path is a special node. Every system call can fail: \<open>fe_fault\<close> says which
  calls do, by their number, and a failed call changes nothing but, when it writes a temporary file, a
  part of it. A call reports that a name does not exist only when it does not. The xxhash and SHA-256 sums
  are parameters. Sizes are integers; a part is far smaller than the largest 64-bit size.
\<close>

subsection \<open>System calls\<close>

record file_meta =
  fm_Mode :: nat
  fm_UID :: nat
  fm_GID :: nat

text \<open>A node that is not a regular file reads as its target's content, if it has one.\<close>

datatype inode = Regular string file_meta | Special "string option"

record fsys =
  fs_nodes :: "inode gomap"
  fs_calls :: nat
  fs_crossDeviceCopy :: nat

record files_env =
  fe_fault :: "nat \<Rightarrow> bool"
  fe_partial :: "nat \<Rightarrow> nat"
  fe_suffix :: "nat \<Rightarrow> nat"
  fe_crossDevice :: "string \<Rightarrow> string \<Rightarrow> bool"
  fe_sum64 :: "string \<Rightarrow> 64 word"
  fe_sha256 :: "string \<Rightarrow> string"
  fe_UID :: nat
  fe_GID :: nat

datatype fs_error =
    ErrNotExist | ErrExist | ErrIO | EXDEV | ErrInvalidPath | ErrDigestMismatch | ErrPatchBaseMissing | ErrTooManyFiles

definition node_at :: "fsys \<Rightarrow> string \<Rightarrow> inode option" where
  "node_at s p = map_of (fs_nodes s) p"

definition put_node :: "string \<Rightarrow> inode \<Rightarrow> fsys \<Rightarrow> fsys" where
  "put_node p n s = s\<lparr>fs_nodes := AList.update p n (fs_nodes s)\<rparr>"

definition drop_node :: "string \<Rightarrow> fsys \<Rightarrow> fsys" where
  "drop_node p s = s\<lparr>fs_nodes := AList.delete p (fs_nodes s)\<rparr>"

definition os_call :: "files_env \<Rightarrow> fsys \<Rightarrow> fsys \<times> bool" where
  "os_call env s = (s\<lparr>fs_calls := fs_calls s + 1\<rparr>, fe_fault env (fs_calls s))"

definition os_Lstat :: "files_env \<Rightarrow> string \<Rightarrow> fsys \<Rightarrow> fsys \<times> (fs_error + inode)" where
  "os_Lstat env p s =
     (let (s1, failed) = os_call env s in
      (s1, if failed then Inl ErrIO else case node_at s p of None \<Rightarrow> Inl ErrNotExist | Some n \<Rightarrow> Inr n))"

definition os_ReadFile :: "files_env \<Rightarrow> string \<Rightarrow> fsys \<Rightarrow> fsys \<times> (fs_error + string)" where
  "os_ReadFile env p s =
     (let (s1, failed) = os_call env s in
      (s1, if failed then Inl ErrIO
           else case node_at s p of
             None \<Rightarrow> Inl ErrNotExist
           | Some (Regular content _) \<Rightarrow> Inr content
           | Some (Special (Some content)) \<Rightarrow> Inr content
           | Some (Special None) \<Rightarrow> Inl ErrIO))"

definition os_Remove :: "files_env \<Rightarrow> string \<Rightarrow> fsys \<Rightarrow> fsys \<times> fs_error option" where
  "os_Remove env p s =
     (let (s1, failed) = os_call env s in
      if failed then (s1, Some ErrIO)
      else if node_at s p = None then (s1, Some ErrNotExist) else (drop_node p s1, None))"

definition os_Link :: "files_env \<Rightarrow> string \<Rightarrow> string \<Rightarrow> fsys \<Rightarrow> fsys \<times> fs_error option" where
  "os_Link env old new s =
     (let (s1, failed) = os_call env s in
      if failed then (s1, Some ErrIO)
      else case node_at s old of
        None \<Rightarrow> (s1, Some ErrNotExist)
      | Some n \<Rightarrow> if node_at s new \<noteq> None then (s1, Some ErrExist) else (put_node new n s1, None))"

definition os_Rename :: "files_env \<Rightarrow> string \<Rightarrow> string \<Rightarrow> fsys \<Rightarrow> fsys \<times> fs_error option" where
  "os_Rename env old new s =
     (let (s1, failed) = os_call env s in
      if failed then (s1, Some ErrIO)
      else case node_at s old of
        None \<Rightarrow> (s1, Some ErrNotExist)
      | Some n \<Rightarrow> if fe_crossDevice env old new then (s1, Some EXDEV) else (put_node new n (drop_node old s1), None))"

definition os_MkdirAll :: "files_env \<Rightarrow> string \<Rightarrow> fsys \<Rightarrow> fsys \<times> fs_error option" where
  "os_MkdirAll env p s = (let (s1, failed) = os_call env s in (s1, if failed then Some ErrIO else None))"

definition os_Chmod :: "files_env \<Rightarrow> string \<Rightarrow> nat \<Rightarrow> fsys \<Rightarrow> fsys \<times> fs_error option" where
  "os_Chmod env p mode s =
     (let (s1, failed) = os_call env s in
      if failed then (s1, Some ErrIO)
      else case node_at s p of
        None \<Rightarrow> (s1, Some ErrNotExist)
      | Some (Regular content meta) \<Rightarrow> (put_node p (Regular content (meta\<lparr>fm_Mode := mode\<rparr>)) s1, None)
      | Some (Special _) \<Rightarrow> (s1, None))"

text \<open>\<open>os.CreateTemp\<close> never opens a file that exists.\<close>

definition os_CreateTemp :: "files_env \<Rightarrow> string \<Rightarrow> string \<Rightarrow> fsys \<Rightarrow> fsys \<times> (fs_error + string)" where
  "os_CreateTemp env dir prefix s =
     (let (s1, failed) = os_call env s; p = path_Join [dir, prefix @ nat_digits (fe_suffix env (fs_calls s))] in
      if failed \<or> node_at s p \<noteq> None then (s1, Inl ErrIO)
      else (put_node p (Regular [] \<lparr>fm_Mode = 0x180, fm_UID = fe_UID env, fm_GID = fe_GID env\<rparr>) s1, Inr p))"

text \<open>Writing, flushing and closing an open temporary file.\<close>

definition os_WriteTemp :: "files_env \<Rightarrow> string \<Rightarrow> string \<Rightarrow> fsys \<Rightarrow> fsys \<times> fs_error option" where
  "os_WriteTemp env p content s =
     (let (s1, failed) = os_call env s; meta = \<lparr>fm_Mode = 0x180, fm_UID = fe_UID env, fm_GID = fe_GID env\<rparr> in
      if failed then (put_node p (Regular (take (fe_partial env (fs_calls s)) content) meta) s1, Some ErrIO)
      else (put_node p (Regular content meta) s1, None))"

text \<open>\<open>os.ReadDir\<close>: the names directly below a directory, sorted.\<close>

definition dir_names :: "string \<Rightarrow> string list \<Rightarrow> string list" where
  "dir_names dir ps =
     map (drop (length dir + 1))
       (filter (\<lambda>p. HasPrefix p (dir @ ''/'') \<and> CHR ''/'' \<notin> set (drop (length dir + 1) p)) ps)"

definition os_ReadDir :: "files_env \<Rightarrow> string \<Rightarrow> fsys \<Rightarrow> fsys \<times> (fs_error + string list)" where
  "os_ReadDir env dir s =
     (let (s1, failed) = os_call env s in (s1, if failed then Inl ErrIO else Inr (dir_names dir (sorted_keys (fs_nodes s)))))"

subsection \<open>Paths (\<open>path.go\<close>) and the store (\<open>store.go\<close>)\<close>

definition MaxPathBytes :: nat where "MaxPathBytes = 255"
definition MaxFiles :: nat where "MaxFiles = 4096"

definition ValidatePath :: "string \<Rightarrow> fs_error option" where
  "ValidatePath rel =
     (if rel = [] \<or> length rel > MaxPathBytes \<or> path_IsAbs rel \<or> path_Clean rel \<noteq> rel \<or> CHR 0x00 \<in> set rel
      then Some ErrInvalidPath
      else if list_ex (\<lambda>part. HasPrefix part ''.'') (split_on (CHR ''/'') rel) then Some ErrInvalidPath
      else None)"

definition TempDirName :: string where "TempDirName = ''.haptic-tmp''"
definition LKGDirName :: string where "LKGDirName = ''.haptic-lkg''"
definition filePerm :: nat where "filePerm = 0x1A4"

record Store =
  st_baseDir :: string
  st_mounts :: "string list"
  st_reserved :: "string list"

definition Abs :: "Store \<Rightarrow> string \<Rightarrow> fs_error + string" where
  "Abs st rel =
     (case ValidatePath rel of
        Some e \<Rightarrow> Inl e
      | None \<Rightarrow> let path = path_Join [st_baseDir st, rel] in if path \<in> set (st_reserved st) then Inl ErrInvalidPath else Inr path)"

text \<open>The mounts are listed deepest root first and end with the base directory.\<close>

definition mountFor :: "Store \<Rightarrow> string \<Rightarrow> string" where
  "mountFor st path =
     (case find (\<lambda>root. path = root \<or> HasPrefix path (root @ ''/'')) (st_mounts st) of
        Some root \<Rightarrow> root | None \<Rightarrow> last (st_mounts st))"

record Fingerprint =
  fp_Sum :: string
  fp_Meta :: file_meta

record FileAt =
  fa_Digest :: string
  fa_Proof :: string
  fa_Size :: int

definition fileAt :: "files_env \<Rightarrow> string \<Rightarrow> FileAt" where
  "fileAt env content = \<lparr>fa_Digest = DigestString (fe_sum64 env) content, fa_Proof = [], fa_Size = int (length content)\<rparr>"

definition readRegular :: "files_env \<Rightarrow> Store \<Rightarrow> string \<Rightarrow> fsys \<Rightarrow> fsys \<times> (fs_error + string \<times> file_meta)" where
  "readRegular env st rel s =
     (case Abs st rel of
        Inl e \<Rightarrow> (s, Inl e)
      | Inr path \<Rightarrow>
          (case os_Lstat env path s of
             (s1, Inl e) \<Rightarrow> (s1, Inl e)
           | (s1, Inr (Special _)) \<Rightarrow> (s1, Inl ErrInvalidPath)
           | (s1, Inr (Regular _ meta)) \<Rightarrow>
               (case os_ReadFile env path s1 of
                  (s2, Inl e) \<Rightarrow> (s2, Inl e) | (s2, Inr content) \<Rightarrow> (s2, Inr (content, meta)))))"

text \<open>\<open>readTree\<close> gathers what its callers' visitors store.\<close>

fun readPaths :: "files_env \<Rightarrow> Store \<Rightarrow> string list \<Rightarrow> fsys \<Rightarrow> fsys \<times> (fs_error + (string \<times> file_meta) gomap)" where
  "readPaths env st [] s = (s, Inr [])"
| "readPaths env st (rel # rels) s =
     (case readRegular env st rel s of
        (s1, Inl e) \<Rightarrow> if e = ErrNotExist \<or> e = ErrInvalidPath then readPaths env st rels s1 else (s1, Inl e)
      | (s1, Inr file) \<Rightarrow>
          (case readPaths env st rels s1 of
             (s2, Inl e) \<Rightarrow> (s2, Inl e) | (s2, Inr files) \<Rightarrow> (s2, Inr ((rel, file) # files))))"

definition readTree :: "files_env \<Rightarrow> Store \<Rightarrow> string list \<Rightarrow> fsys \<Rightarrow> fsys \<times> (fs_error + (string \<times> file_meta) gomap)" where
  "readTree env st paths s = (if length paths > MaxFiles then (s, Inl ErrTooManyFiles) else readPaths env st paths s)"

definition HashTree :: "files_env \<Rightarrow> Store \<Rightarrow> string list \<Rightarrow> fsys \<Rightarrow> fsys \<times> (fs_error + FileAt gomap)" where
  "HashTree env st paths s =
     (case readTree env st paths s of
        (s1, Inl e) \<Rightarrow> (s1, Inl e)
      | (s1, Inr files) \<Rightarrow> (s1, Inr (map (\<lambda>(rel, content, meta). (rel, fileAt env content)) files)))"

definition Observe :: "files_env \<Rightarrow> Store \<Rightarrow> string list \<Rightarrow> fsys \<Rightarrow> fsys \<times> (fs_error + (FileAt \<times> Fingerprint) gomap)" where
  "Observe env st paths s =
     (case readTree env st paths s of
        (s1, Inl e) \<Rightarrow> (s1, Inl e)
      | (s1, Inr files) \<Rightarrow>
          (s1, Inr (map (\<lambda>(rel, content, meta). (rel, fileAt env content, \<lparr>fp_Sum = fe_sha256 env content, fp_Meta = meta\<rparr>)) files)))"

subsection \<open>Journal (\<open>journal.go\<close>)\<close>

datatype EntryKind = KindModified | KindCreated | KindDeleted

record JournalEntry =
  en_Path :: string
  en_Kind :: EntryKind
  en_Backup :: string

type_synonym Journal = "JournalEntry list"

definition Has :: "Journal \<Rightarrow> string \<Rightarrow> bool" where
  "Has j rel \<longleftrightarrow> list_ex (\<lambda>e. en_Path e = rel) j"

definition addEntry :: "JournalEntry \<Rightarrow> Journal \<Rightarrow> Journal" where
  "addEntry e j = (if Has j (en_Path e) then j else j @ [e])"

subsection \<open>Parts, backups and the restore (\<open>write.go\<close>)\<close>

record Staged =
  sg_Rel :: string
  sg_Fingerprint :: Fingerprint
  sg_tmp :: string

definition Discard :: "files_env \<Rightarrow> Staged \<Rightarrow> fsys \<Rightarrow> fsys \<times> Staged" where
  "Discard env staged s =
     (if sg_tmp staged \<noteq> [] then (fst (os_Remove env (sg_tmp staged) s), staged\<lparr>sg_tmp := []\<rparr>) else (s, staged))"

text \<open>The temporary file holds what \<open>fill\<close> produced; \<open>fill\<close> may fail on its own account.\<close>

definition stage ::
  "files_env \<Rightarrow> Store \<Rightarrow> string \<Rightarrow> string \<Rightarrow> int \<Rightarrow> fs_error + string \<Rightarrow> fsys \<Rightarrow> fsys \<times> (fs_error + Staged)" where
  "stage env st rel digest sz fill s =
     (case Abs st rel of
        Inl e \<Rightarrow> (s, Inl e)
      | Inr path \<Rightarrow>
          (case os_CreateTemp env (path_Join [mountFor st path, TempDirName]) ''part-'' s of
             (s1, Inl e) \<Rightarrow> (s1, Inl e)
           | (s1, Inr tmp) \<Rightarrow>
               (case fill of
                  Inl e \<Rightarrow> (fst (os_Remove env tmp (fst (os_WriteTemp env tmp [] s1))), Inl e)
                | Inr content \<Rightarrow>
                    (case os_WriteTemp env tmp content s1 of
                       (s2, Some e) \<Rightarrow> (fst (os_Remove env tmp s2), Inl e)
                     | (s2, None) \<Rightarrow>
                         if int (length content) \<noteq> sz then (fst (os_Remove env tmp s2), Inl ErrDigestMismatch)
                         else if DigestString (fe_sum64 env) content \<noteq> digest
                         then (fst (os_Remove env tmp s2), Inl ErrDigestMismatch)
                         else (case os_Chmod env tmp filePerm s2 of
                                 (s3, Some e) \<Rightarrow> (fst (os_Remove env tmp s3), Inl e)
                               | (s3, None) \<Rightarrow>
                                   (case os_Lstat env tmp s3 of
                                      (s4, Inr (Regular _ meta)) \<Rightarrow>
                                        (s4, Inr \<lparr>sg_Rel = rel, sg_Fingerprint = \<lparr>fp_Sum = fe_sha256 env content, fp_Meta = meta\<rparr>, sg_tmp = tmp\<rparr>)
                                    | (s4, Inr (Special _)) \<Rightarrow> (fst (os_Remove env tmp s4), Inl ErrIO)
                                    | (s4, Inl e) \<Rightarrow> (fst (os_Remove env tmp s4), Inl e)))))))"

text \<open>A part is its bytes, or the error its reader ends with.\<close>

type_synonym part = "fs_error + string"

definition limited :: "part \<Rightarrow> int \<Rightarrow> fs_error + string" where
  "limited part n = (case part of Inl e \<Rightarrow> Inl e | Inr bytes \<Rightarrow> Inr (take (nat n) bytes))"

definition Stage ::
  "files_env \<Rightarrow> Store \<Rightarrow> string \<Rightarrow> part \<Rightarrow> string \<Rightarrow> int \<Rightarrow> fsys \<Rightarrow> fsys \<times> (fs_error + Staged)" where
  "Stage env st rel part digest sz s = stage env st rel digest sz (limited part (sz + 1)) s"

record FilePatch =
  pa_BaseDigest :: string
  pa_BaseSize :: int
  pa_Offset :: int
  pa_Length :: int

definition splice :: "string \<Rightarrow> FilePatch \<Rightarrow> int \<Rightarrow> part \<Rightarrow> fs_error + string" where
  "splice base patch replaced part =
     (case limited part (replaced + 1) of
        Inl e \<Rightarrow> Inl e
      | Inr written \<Rightarrow>
          if int (length written) \<noteq> replaced then Inl ErrDigestMismatch
          else Inr (take (nat (pa_Offset patch)) base @ written @ drop (nat (pa_Offset patch + pa_Length patch)) base))"

definition StagePatch ::
  "files_env \<Rightarrow> Store \<Rightarrow> string \<Rightarrow> part \<Rightarrow> FilePatch \<Rightarrow> string \<Rightarrow> int \<Rightarrow> fsys \<Rightarrow> fsys \<times> (fs_error + Staged)" where
  "StagePatch env st rel part patch digest sz s =
     (case Abs st rel of
        Inl e \<Rightarrow> (s, Inl e)
      | Inr path \<Rightarrow>
          (case os_ReadFile env path s of
             (s1, Inl e) \<Rightarrow> (s1, Inl ErrPatchBaseMissing)
           | (s1, Inr base) \<Rightarrow>
               if int (length base) \<noteq> pa_BaseSize patch \<or> DigestString (fe_sum64 env) base \<noteq> pa_BaseDigest patch
               then (s1, Inl ErrPatchBaseMissing)
               else let replaced = sz - pa_BaseSize patch + pa_Length patch in
                 if pa_Offset patch < 0 \<or> pa_Length patch < 0 \<or> replaced < 0 \<or>
                    pa_Offset patch > int (length base) \<or> pa_Length patch > int (length base) - pa_Offset patch
                 then (s1, Inl ErrDigestMismatch)
                 else stage env st rel digest sz (splice base patch replaced part) s1))"

definition refuseNonRegular :: "files_env \<Rightarrow> string \<Rightarrow> fsys \<Rightarrow> fsys \<times> fs_error option" where
  "refuseNonRegular env path s =
     (case os_Lstat env path s of
        (s1, Inl e) \<Rightarrow> (s1, if e = ErrNotExist then None else Some e)
      | (s1, Inr (Regular _ _)) \<Rightarrow> (s1, None)
      | (s1, Inr (Special _)) \<Rightarrow> (s1, Some ErrInvalidPath))"

definition copyOnto :: "files_env \<Rightarrow> string \<Rightarrow> string \<Rightarrow> fsys \<Rightarrow> fsys \<times> fs_error option" where
  "copyOnto env src dst s =
     (case os_ReadFile env src s of
        (s1, Inl e) \<Rightarrow> (s1, Some e)
      | (s1, Inr content) \<Rightarrow>
          (case os_CreateTemp env (path_Dir dst) ''.copy-'' s1 of
             (s2, Inl e) \<Rightarrow> (s2, Some e)
           | (s2, Inr tmp) \<Rightarrow>
               let (s3, writeErr) = os_WriteTemp env tmp content s2; (s4, chmodErr) = os_Chmod env tmp filePerm s3 in
               if writeErr \<noteq> None then (fst (os_Remove env tmp s4), writeErr)
               else if chmodErr \<noteq> None then (fst (os_Remove env tmp s4), chmodErr)
               else (case os_Rename env tmp dst s4 of
                       (s5, Some e) \<Rightarrow> (fst (os_Remove env tmp s5), Some e)
                     | (s5, None) \<Rightarrow> os_Remove env src s5)))"

definition install :: "files_env \<Rightarrow> Store \<Rightarrow> Staged \<Rightarrow> fsys \<Rightarrow> fsys \<times> Staged \<times> fs_error option" where
  "install env st staged s =
     (case Abs st (sg_Rel staged) of
        Inl e \<Rightarrow> (s, staged, Some e)
      | Inr path \<Rightarrow>
          (case refuseNonRegular env path s of
             (s1, Some e) \<Rightarrow> (s1, staged, Some e)
           | (s1, None) \<Rightarrow>
               (case os_MkdirAll env (path_Dir path) s1 of
                  (s2, Some e) \<Rightarrow> (s2, staged, Some e)
                | (s2, None) \<Rightarrow>
                    (case os_Rename env (sg_tmp staged) path s2 of
                       (s3, None) \<Rightarrow> (s3, staged\<lparr>sg_tmp := []\<rparr>, None)
                     | (s3, Some e) \<Rightarrow>
                         if e \<noteq> EXDEV then (s3, staged, Some e)
                         else (case copyOnto env (sg_tmp staged) path (s3\<lparr>fs_crossDeviceCopy := fs_crossDeviceCopy s3 + 1\<rparr>) of
                                 (s4, Some e) \<Rightarrow> (s4, staged, Some e)
                               | (s4, None) \<Rightarrow> (s4, staged\<lparr>sg_tmp := []\<rparr>, None))))))"

definition backupName :: "files_env \<Rightarrow> string \<Rightarrow> Journal \<Rightarrow> string" where
  "backupName env rel j = nat_digits (length j) @ ''-'' @ DigestString (fe_sum64 env) rel @ ''.bak''"

definition linkAside :: "files_env \<Rightarrow> Store \<Rightarrow> string \<Rightarrow> string \<Rightarrow> Journal \<Rightarrow> fsys \<Rightarrow> fsys \<times> (fs_error + string)" where
  "linkAside env st rel path j s =
     (let link = path_Join [mountFor st path, LKGDirName, backupName env rel j] in
      case os_Remove env link s of
        (s1, removed) \<Rightarrow>
          (case (if removed = Some ErrNotExist then None else removed) of
             Some e \<Rightarrow> (s1, Inl e)
           | None \<Rightarrow> (case os_Link env path link s1 of (s2, Some e) \<Rightarrow> (s2, Inl e) | (s2, None) \<Rightarrow> (s2, Inr link))))"

text \<open>\<open>backup\<close> and \<open>backupDeleted\<close> differ in the kind they record and in what an absent path means.\<close>

definition backup :: "files_env \<Rightarrow> Store \<Rightarrow> string \<Rightarrow> Journal \<Rightarrow> fsys \<Rightarrow> fsys \<times> Journal \<times> fs_error option" where
  "backup env st rel j s =
     (if Has j rel then (s, j, None)
      else case Abs st rel of
        Inl e \<Rightarrow> (s, j, Some e)
      | Inr path \<Rightarrow>
          (case os_Lstat env path s of
             (s1, Inl ErrNotExist) \<Rightarrow> (s1, addEntry \<lparr>en_Path = rel, en_Kind = KindCreated, en_Backup = []\<rparr> j, None)
           | (s1, Inl e) \<Rightarrow> (s1, j, Some e)
           | (s1, Inr _) \<Rightarrow>
               (case linkAside env st rel path j s1 of
                  (s2, Inl e) \<Rightarrow> (s2, j, Some e)
                | (s2, Inr link) \<Rightarrow> (s2, addEntry \<lparr>en_Path = rel, en_Kind = KindModified, en_Backup = link\<rparr> j, None))))"

definition backupDeleted :: "files_env \<Rightarrow> Store \<Rightarrow> string \<Rightarrow> Journal \<Rightarrow> fsys \<Rightarrow> fsys \<times> Journal \<times> fs_error option" where
  "backupDeleted env st rel j s =
     (if Has j rel then (s, j, None)
      else case Abs st rel of
        Inl e \<Rightarrow> (s, j, Some e)
      | Inr path \<Rightarrow>
          (case os_Lstat env path s of
             (s1, Inl ErrNotExist) \<Rightarrow> (s1, j, None)
           | (s1, Inl e) \<Rightarrow> (s1, j, Some e)
           | (s1, Inr _) \<Rightarrow>
               (case linkAside env st rel path j s1 of
                  (s2, Inl e) \<Rightarrow> (s2, j, Some e)
                | (s2, Inr link) \<Rightarrow> (s2, addEntry \<lparr>en_Path = rel, en_Kind = KindDeleted, en_Backup = link\<rparr> j, None))))"

definition unlink :: "files_env \<Rightarrow> Store \<Rightarrow> string \<Rightarrow> fsys \<Rightarrow> fsys \<times> fs_error option" where
  "unlink env st rel s =
     (case Abs st rel of
        Inl e \<Rightarrow> (s, Some e)
      | Inr path \<Rightarrow>
          (case refuseNonRegular env path s of
             (s1, Some e) \<Rightarrow> (s1, Some e)
           | (s1, None) \<Rightarrow>
               (case os_Remove env path s1 of (s2, e) \<Rightarrow> (s2, if e = Some ErrNotExist then None else e))))"

definition restoreEntry :: "files_env \<Rightarrow> Store \<Rightarrow> JournalEntry \<Rightarrow> fsys \<Rightarrow> fsys \<times> fs_error option" where
  "restoreEntry env st e s =
     (case Abs st (en_Path e) of
        Inl err \<Rightarrow> (s, Some err)
      | Inr path \<Rightarrow>
          if en_Kind e = KindCreated
          then (case os_Remove env path s of (s1, err) \<Rightarrow> (s1, if err = Some ErrNotExist then None else err))
          else (case os_MkdirAll env (path_Dir path) s of
                  (s1, Some err) \<Rightarrow> (s1, Some err)
                | (s1, None) \<Rightarrow>
                    let staging = path_Join [path_Dir path, ''.haptic-restore-'' @ path_Base path] in
                    (case os_Remove env staging s1 of
                       (s2, removed) \<Rightarrow>
                         (case (if removed = Some ErrNotExist then None else removed) of
                            Some err \<Rightarrow> (s2, Some err)
                          | None \<Rightarrow>
                              (case os_Link env (en_Backup e) staging s2 of
                                 (s3, Some err) \<Rightarrow> (s3, Some err)
                               | (s3, None) \<Rightarrow>
                                   (case os_Rename env staging path s3 of
                                      (s4, Some err) \<Rightarrow> (fst (os_Remove env staging s4), Some err)
                                    | (s4, None) \<Rightarrow> (s4, None)))))))"

text \<open>\<open>errors.Join\<close> of a list of errors is nil when there is none.\<close>

fun restoreEntries :: "files_env \<Rightarrow> Store \<Rightarrow> JournalEntry list \<Rightarrow> fsys \<Rightarrow> fsys \<times> fs_error list" where
  "restoreEntries env st [] s = (s, [])"
| "restoreEntries env st (e # es) s =
     (let (s1, err) = restoreEntry env st e s; (s2, errs) = restoreEntries env st es s1
      in (s2, (case err of None \<Rightarrow> [] | Some x \<Rightarrow> [x]) @ errs))"

text \<open>The last entry of the configuration file is deferred; a journal has at most one.\<close>

definition restoreOrder :: "string \<Rightarrow> Journal \<Rightarrow> JournalEntry list" where
  "restoreOrder configRel j =
     filter (\<lambda>e. en_Path e \<noteq> configRel) j @
     (case filter (\<lambda>e. en_Path e = configRel) j of [] \<Rightarrow> [] | es \<Rightarrow> [last es])"

definition Restore :: "files_env \<Rightarrow> Store \<Rightarrow> Journal \<Rightarrow> string \<Rightarrow> fsys \<Rightarrow> fsys \<times> fs_error list" where
  "Restore env st j configRel s = restoreEntries env st (restoreOrder configRel j) s"

fun clearBackups :: "files_env \<Rightarrow> JournalEntry list \<Rightarrow> fsys \<Rightarrow> fsys \<times> fs_error list" where
  "clearBackups env [] s = (s, [])"
| "clearBackups env (e # es) s =
     (if en_Backup e = [] then clearBackups env es s
      else let (s1, err) = os_Remove env (en_Backup e) s; (s2, errs) = clearBackups env es s1
           in (s2, (case err of None \<Rightarrow> [] | Some x \<Rightarrow> if x = ErrNotExist then [] else [x]) @ errs))"

definition ClearJournal :: "files_env \<Rightarrow> Journal \<Rightarrow> fsys \<Rightarrow> fsys \<times> Journal \<times> fs_error list" where
  "ClearJournal env j s = (let (s1, errs) = clearBackups env j s in (s1, [], errs))"

fun removeNames :: "files_env \<Rightarrow> string \<Rightarrow> string list \<Rightarrow> fsys \<Rightarrow> fsys \<times> fs_error list" where
  "removeNames env dir [] s = (s, [])"
| "removeNames env dir (name # names) s =
     (let (s1, err) = os_Remove env (path_Join [dir, name]) s; (s2, errs) = removeNames env dir names s1
      in (s2, (case err of None \<Rightarrow> [] | Some x \<Rightarrow> [x]) @ errs))"

fun sweepMounts :: "files_env \<Rightarrow> string list \<Rightarrow> fsys \<Rightarrow> fsys \<times> fs_error list" where
  "sweepMounts env [] s = (s, [])"
| "sweepMounts env (root # roots) s =
     (let dir = path_Join [root, TempDirName] in
      case os_ReadDir env dir s of
        (s1, Inl e) \<Rightarrow> (let (s2, errs) = sweepMounts env roots s1 in (s2, e # errs))
      | (s1, Inr names) \<Rightarrow>
          (let (s2, errs) = removeNames env dir (take MaxFiles names) s1; (s3, errs') = sweepMounts env roots s2
           in (s3, errs @ errs')))"

definition SweepTemp :: "files_env \<Rightarrow> Store \<Rightarrow> fsys \<Rightarrow> fsys \<times> fs_error list" where
  "SweepTemp env st s = sweepMounts env (st_mounts st) s"

subsection \<open>One apply's transaction (\<open>transaction.go\<close>)\<close>

record Transaction =
  tx_installs :: "Staged list"
  tx_deletes :: "string list"
  tx_configRel :: string

definition Begin :: "string \<Rightarrow> Transaction" where
  "Begin configRel = \<lparr>tx_installs = [], tx_deletes = [], tx_configRel = configRel\<rparr>"

definition InstallPart :: "Staged \<Rightarrow> Transaction \<Rightarrow> Transaction" where
  "InstallPart staged t = t\<lparr>tx_installs := tx_installs t @ [staged]\<rparr>"

definition DeletePath :: "string \<Rightarrow> Transaction \<Rightarrow> Transaction" where
  "DeletePath rel t = t\<lparr>tx_deletes := tx_deletes t @ [rel]\<rparr>"

definition Changes :: "Transaction \<Rightarrow> nat" where
  "Changes t = length (tx_installs t) + length (tx_deletes t)"

fun backupAll ::
  "(string \<Rightarrow> Journal \<Rightarrow> fsys \<Rightarrow> fsys \<times> Journal \<times> fs_error option) \<Rightarrow> string list \<Rightarrow> Journal \<Rightarrow> fsys \<Rightarrow>
   fsys \<times> Journal \<times> fs_error option" where
  "backupAll f [] j s = (s, j, None)"
| "backupAll f (rel # rels) j s =
     (case f rel j s of (s1, j1, Some e) \<Rightarrow> (s1, j1, Some e) | (s1, j1, None) \<Rightarrow> backupAll f rels j1 s1)"

definition Backup :: "files_env \<Rightarrow> Store \<Rightarrow> Transaction \<Rightarrow> Journal \<Rightarrow> fsys \<Rightarrow> fsys \<times> Journal \<times> fs_error option" where
  "Backup env st t j s =
     (if Changes t > MaxFiles then (s, j, Some ErrTooManyFiles)
      else case backupAll (backup env st) (map sg_Rel (tx_installs t)) j s of
        (s1, j1, Some e) \<Rightarrow> (s1, j1, Some e)
      | (s1, j1, None) \<Rightarrow> backupAll (backupDeleted env st) (tx_deletes t) j1 s1)"

text \<open>
  Parts are installed in place; the ones with a temporary name left can be discarded. The parts of a
  transaction have distinct paths, since its caller keeps them in a map.
\<close>

fun installAll :: "files_env \<Rightarrow> Store \<Rightarrow> Staged list \<Rightarrow> fsys \<Rightarrow> fsys \<times> Staged list \<times> fs_error option" where
  "installAll env st [] s = (s, [], None)"
| "installAll env st (staged # rest) s =
     (case install env st staged s of
        (s1, staged1, Some e) \<Rightarrow> (s1, staged1 # rest, Some e)
      | (s1, staged1, None) \<Rightarrow> (case installAll env st rest s1 of (s2, rest2, e) \<Rightarrow> (s2, staged1 # rest2, e)))"

fun unlinkAll :: "files_env \<Rightarrow> Store \<Rightarrow> string list \<Rightarrow> fsys \<Rightarrow> fsys \<times> fs_error list" where
  "unlinkAll env st [] s = (s, [])"
| "unlinkAll env st (rel # rels) s =
     (let (s1, err) = unlink env st rel s; (s2, errs) = unlinkAll env st rels s1
      in (s2, (case err of None \<Rightarrow> [] | Some x \<Rightarrow> [x]) @ errs))"

text \<open>The order of the installs: every part but the configuration file, then the last part for it.\<close>

definition installOrder :: "Transaction \<Rightarrow> Staged list" where
  "installOrder t =
     filter (\<lambda>p. sg_Rel p \<noteq> tx_configRel t) (tx_installs t) @
     (case filter (\<lambda>p. sg_Rel p = tx_configRel t) (tx_installs t) of [] \<Rightarrow> [] | ps \<Rightarrow> [last ps])"

definition Write :: "files_env \<Rightarrow> Store \<Rightarrow> Transaction \<Rightarrow> fsys \<Rightarrow> fsys \<times> Transaction \<times> fs_error list" where
  "Write env st t s =
     (case installAll env st (installOrder t) s of
        (s1, ps, Some e) \<Rightarrow> (s1, t\<lparr>tx_installs := ps\<rparr>, [e])
      | (s1, ps, None) \<Rightarrow> (case unlinkAll env st (tx_deletes t) s1 of (s2, errs) \<Rightarrow> (s2, t\<lparr>tx_installs := ps\<rparr>, errs)))"

definition DiscardAll :: "files_env \<Rightarrow> Transaction \<Rightarrow> fsys \<Rightarrow> fsys" where
  "DiscardAll env t s = foldl (\<lambda>s p. fst (Discard env p s)) s (tx_installs t)"

end
