(* ===== verification/Agent_Files_Laws.thy ===== *)
theory Agent_Files_Laws
  imports Agent_Files
begin

section \<open>The agent's files: what is touched, and what a backup protects\<close>

text \<open>
  Where the agent's own names lie, what each operation can change, and the invariant of the journal: the
  last known good tree is the tree with every journalled path replaced by its backup. The invariant
  survives every operation and every fault; a restore that reports no error makes the tree the last known
  good one.
\<close>

subsection \<open>Names\<close>

text \<open>The digits of a number read back as the number.\<close>

lemma nat_digits_digits: "list_all is_digit (nat_digits n) \<and> nat_digits n \<noteq> []"
proof (induction n rule: nat_digits.induct)
  case (1 n)
  have "is_digit (char_of (48 + m))" if "m < 10" for m :: nat
    using that by (simp add: is_digit_def less_eq_char_def of_char_of)
  with 1 show ?case by (subst (1 2) nat_digits.simps) (auto simp: list_all_append)
qed

lemma digits_val_append: "digits_val (xs @ [c]) = 10 * digits_val xs + digit_val c"
  by (simp add: digits_val_def)

lemma digits_val_nat_digits: "digits_val (nat_digits n) = int n"
proof (induction n rule: nat_digits.induct)
  case (1 n)
  have digit: "digit_val (char_of (48 + m)) = int m" if "m < 10" for m :: nat
  proof -
    have "(of_char (char_of (48 + m)) :: int) = int (of_char (char_of (48 + m) :: char))" by (simp only: of_nat_of_char)
    with that show ?thesis by (simp add: digit_val_def of_char_of)
  qed
  show ?case
  proof (cases "n < 10")
    case True
    with digit show ?thesis by (subst nat_digits.simps) (simp add: digits_val_def)
  next
    case False
    with 1 digit show ?thesis by (subst nat_digits.simps) (simp add: digits_val_append, presburger)
  qed
qed

lemma nat_digits_eq_iff: "nat_digits m = nat_digits n \<longleftrightarrow> m = n"
  by (metis digits_val_nat_digits of_nat_eq_iff)

lemma backup_numbers: "nat_digits m @ ''-'' @ x = nat_digits n @ ''-'' @ y \<Longrightarrow> m = n"
proof -
  assume eq: "nat_digits m @ ''-'' @ x = nat_digits n @ ''-'' @ y"
  have "takeWhile is_digit (nat_digits k @ ''-'' @ z) = nat_digits k" for k z
    using nat_digits_digits [of k] by (simp add: takeWhile_append2 list_all_iff is_digit_def less_eq_char_def)
  with eq show "m = n" by (metis nat_digits_eq_iff)
qed

definition hidden_name :: "string \<Rightarrow> bool" where
  "hidden_name e \<longleftrightarrow> HasPrefix e ''.''"

definition numbered :: "string \<Rightarrow> bool" where
  "numbered e \<longleftrightarrow> e \<noteq> [] \<and> is_digit (hd e)"

text \<open>A base directory, and mounts below it.\<close>

definition base_elements :: "Store \<Rightarrow> string list" where
  "base_elements st = tl (split_on (CHR ''/'') (st_baseDir st))"

definition store_ok :: "Store \<Rightarrow> bool" where
  "store_ok st \<longleftrightarrow> base_elements st \<noteq> [] \<and> (\<forall>e\<in>set (base_elements st). plain e) \<and>
     st_baseDir st = rooted_at (base_elements st) \<and> st_mounts st \<noteq> [] \<and>
     (\<forall>root\<in>set (st_mounts st). \<exists>ms. (\<forall>m\<in>set ms. plain m) \<and> root = rooted_at (base_elements st @ ms))"

text \<open>Names below the base directory with a hidden element: backups are numbered, all others are not.\<close>

definition agent_names :: "Store \<Rightarrow> (string \<Rightarrow> bool) \<Rightarrow> string set" where
  "agent_names st name =
     {p. \<exists>es. p = rooted_at (base_elements st @ es) \<and> es \<noteq> [] \<and> (\<forall>e\<in>set es. plain e) \<and>
        (\<exists>e\<in>set es. hidden_name e) \<and> name (last es)}"

abbreviation scratch :: "Store \<Rightarrow> string set" where
  "scratch st \<equiv> agent_names st (\<lambda>e. \<not> numbered e)"

abbreviation backups :: "Store \<Rightarrow> string set" where
  "backups st \<equiv> agent_names st numbered"

lemma ValidatePath_elements:
  assumes "ValidatePath rel = None"
  shows "\<exists>cs. cs \<noteq> [] \<and> rel = join_slash cs \<and> (\<forall>c\<in>set cs. plain c \<and> \<not> hidden_name c)"
proof -
  let ?es = "split_on (CHR ''/'') rel"
  from assms have rel: "rel \<noteq> []" "\<not> path_IsAbs rel" "path_Clean rel = rel"
    and "\<forall>e\<in>set ?es. \<not> hidden_name e"
    by (auto simp: ValidatePath_def hidden_name_def list_ex_iff split: if_splits)
  note visible = this(4)
  then have nodots: "\<forall>e\<in>set ?es. e \<noteq> ''.'' \<and> e \<noteq> ''..''" by (auto simp: hidden_name_def HasPrefix_def)
  let ?fs = "filter (\<lambda>e. e \<noteq> []) ?es"
  have out: "clean_elems False [] ?es = ?fs" using clean_elems_present [OF nodots] by simp
  have "join_slash ?fs \<noteq> []"
  proof
    assume "join_slash ?fs = []"
    with rel out have "rel = ''.''" by (auto simp: path_Clean_def path_IsAbs_def Let_def)
    with visible show False by (auto simp: hidden_name_def HasPrefix_def)
  qed
  with rel out have eq: "rel = join_slash ?fs" by (auto simp: path_Clean_def path_IsAbs_def Let_def split: if_splits)
  have "?fs \<noteq> []" using \<open>join_slash ?fs \<noteq> []\<close> by auto
  moreover have "\<forall>e\<in>set ?fs. plain e \<and> \<not> hidden_name e"
    using visible nodots elements_no_slash by (auto simp: plain_def)
  ultimately show ?thesis using eq by blast
qed

lemma Abs_elements:
  assumes "store_ok st" "Abs st rel = Inr p"
  shows "\<exists>cs. cs \<noteq> [] \<and> rel = join_slash cs \<and> (\<forall>c\<in>set cs. plain c \<and> \<not> hidden_name c) \<and>
    p = rooted_at (base_elements st @ cs)"
proof -
  from assms(2) have "ValidatePath rel = None" and p: "p = path_Join [st_baseDir st, rel]"
    by (auto simp: Abs_def Let_def split: option.splits if_splits)
  with ValidatePath_elements obtain cs
    where cs: "cs \<noteq> []" "rel = join_slash cs" "\<forall>c\<in>set cs. plain c \<and> \<not> hidden_name c" by blast
  have "p = rooted_at (base_elements st @ cs)"
    using assms(1) cs path_Join_relative [of "base_elements st" cs] by (auto simp: store_ok_def p)
  with cs show ?thesis by blast
qed

lemma rooted_below:
  assumes "store_ok st" "rooted_at (base_elements st @ es) = rooted_at (base_elements st @ fs)"
    "\<forall>e\<in>set es. plain e" "\<forall>f\<in>set fs. plain f"
  shows "es = fs"
  using assms rooted_at_inj [of "base_elements st @ es" "base_elements st @ fs"] by (auto simp: store_ok_def)

lemma Abs_inj:
  assumes "store_ok st" "Abs st rel = Inr p" "Abs st rel' = Inr p"
  shows "rel = rel'"
proof -
  from Abs_elements [OF assms(1,2)] Abs_elements [OF assms(1,3)] obtain cs ds
    where "rel = join_slash cs" "rel' = join_slash ds" "\<forall>c\<in>set cs. plain c" "\<forall>d\<in>set ds. plain d"
      "rooted_at (base_elements st @ cs) = rooted_at (base_elements st @ ds)" by metis
  with rooted_below [OF assms(1)] show ?thesis by metis
qed

lemma managed_visible: "store_ok st \<Longrightarrow> Abs st rel = Inr p \<Longrightarrow> p \<notin> agent_names st name"
  using Abs_elements rooted_below unfolding agent_names_def by (smt (verit) mem_Collect_eq)

lemma scratch_backups: "store_ok st \<Longrightarrow> p \<in> scratch st \<Longrightarrow> p \<notin> backups st"
  using rooted_below unfolding agent_names_def by (smt (verit) mem_Collect_eq)

lemma agent_namesI:
  assumes "store_ok st" "p = rooted_at (base_elements st @ ms @ [e])" "\<forall>m\<in>set ms. plain m" "plain e" "name e"
    "hidden_name e \<or> (\<exists>m\<in>set ms. hidden_name m)"
  shows "p \<in> agent_names st name"
  unfolding agent_names_def using assms by (intro CollectI exI [of _ "ms @ [e]"]) auto

lemma mountFor_root:
  assumes "store_ok st"
  shows "\<exists>ms. (\<forall>m\<in>set ms. plain m) \<and> mountFor st p = rooted_at (base_elements st @ ms)"
proof -
  have "mountFor st p \<in> set (st_mounts st)"
    using assms by (auto simp: mountFor_def store_ok_def find_Some_iff split: option.splits)
  with assms show ?thesis unfolding store_ok_def by blast
qed

lemma plain_digits: "plain (prefix @ nat_digits n)" if "prefix \<noteq> []" "CHR ''/'' \<notin> set prefix"
proof -
  have "CHR ''/'' \<notin> set (nat_digits n)" "CHR ''.'' \<notin> set (nat_digits n)"
    using nat_digits_digits [of n] by (auto simp: list_all_iff is_digit_def less_eq_char_def)
  moreover have "nat_digits n \<noteq> []" using nat_digits_digits by blast
  ultimately show ?thesis using that by (auto simp: plain_def append_eq_Cons_conv)
qed

subsection \<open>What an operation can change\<close>

definition only :: "string set \<Rightarrow> fsys \<Rightarrow> fsys \<Rightarrow> bool" where
  "only P s s' \<longleftrightarrow> (\<forall>p. p \<notin> P \<longrightarrow> node_at s' p = node_at s p)"

lemma only_refl [simp]: "only P s s"
  by (simp add: only_def)

lemma only_trans: "only P s t \<Longrightarrow> only Q t u \<Longrightarrow> only (P \<union> Q) s u"
  by (auto simp: only_def)

lemma only_then: "only P s t \<Longrightarrow> only P t u \<Longrightarrow> only P s u"
  by (auto simp: only_def)

lemma only_mono: "only P s s' \<Longrightarrow> P \<subseteq> Q \<Longrightarrow> only Q s s'"
  by (auto simp: only_def)

lemma onlyD: "only P s s' \<Longrightarrow> p \<notin> P \<Longrightarrow> node_at s' p = node_at s p"
  by (simp add: only_def)

lemma node_at_simps [simp]:
  "node_at (put_node p n s) q = (if q = p then Some n else node_at s q)"
  "node_at (drop_node p s) q = (if q = p then None else node_at s q)"
  "node_at (s\<lparr>fs_calls := c\<rparr>) q = node_at s q" "node_at (s\<lparr>fs_crossDeviceCopy := c\<rparr>) q = node_at s q"
  by (simp_all add: node_at_def put_node_def drop_node_def update_conv' delete_conv')

lemma os_call_simps [simp]: "fst (os_call env s) = s\<lparr>fs_calls := fs_calls s + 1\<rparr>" "snd (os_call env s) = fe_fault env (fs_calls s)"
  by (simp_all add: os_call_def)

lemma fs_calls_nodes [simp]: "fs_calls (put_node p n s) = fs_calls s" "fs_calls (drop_node p s) = fs_calls s"
  by (simp_all add: put_node_def drop_node_def)

lemmas os_defs = os_Lstat_def os_ReadFile_def os_Remove_def os_Link_def os_Rename_def os_MkdirAll_def os_Chmod_def
  os_CreateTemp_def os_WriteTemp_def os_ReadDir_def Let_def case_prod_beta

lemma fs_calls_os:
  "fs_calls (fst (os_Remove env p s)) = Suc (fs_calls s)" "fs_calls (fst (os_Link env p q s)) = Suc (fs_calls s)"
  "fs_calls (fst (os_Rename env p q s)) = Suc (fs_calls s)" "fs_calls (fst (os_MkdirAll env p s)) = Suc (fs_calls s)"
  by (simp_all add: os_defs split: option.split)

text \<open>No call fails from here on, and no rename leaves its mount.\<close>

definition healthy :: "files_env \<Rightarrow> fsys \<Rightarrow> bool" where
  "healthy env s \<longleftrightarrow> (\<forall>n\<ge>fs_calls s. \<not> fe_fault env n) \<and> (\<forall>p q. \<not> fe_crossDevice env p q)"

lemma reads_only:
  "os_Lstat env p s = (s', r) \<Longrightarrow> only {} s s'" "os_ReadFile env p s = (s', c) \<Longrightarrow> only {} s s'"
  "os_MkdirAll env p s = (s', e) \<Longrightarrow> only {} s s'" "os_ReadDir env p s = (s', ns) \<Longrightarrow> only {} s s'"
  by (auto simp: os_defs only_def)

lemma writes_only:
  "os_Remove env p s = (s', e) \<Longrightarrow> only {p} s s'" "os_Link env p q s = (s', e) \<Longrightarrow> only {q} s s'"
  "os_Rename env p q s = (s', e) \<Longrightarrow> only {p, q} s s'" "os_Chmod env p m s = (s', e) \<Longrightarrow> only {p} s s'"
  "os_WriteTemp env p c s = (s', e) \<Longrightarrow> only {p} s s'"
  by (auto simp: os_defs only_def split: if_splits option.splits inode.splits)

lemma CreateTemp_only:
  "os_CreateTemp env dir prefix s = (s', Inl e) \<Longrightarrow> only {} s s'"
  "os_CreateTemp env dir prefix s = (s', Inr p) \<Longrightarrow> only {p} s s' \<and> node_at s p = None \<and>
     (\<exists>n. p = path_Join [dir, prefix @ nat_digits n])"
  by (auto simp: os_defs only_def split: if_splits)

lemma Remove_only: "only {p} s (fst (os_Remove env p s))"
  using writes_only(1) [of env p s] by (cases "os_Remove env p s") auto

lemma refuseNonRegular_only: "refuseNonRegular env p s = (s', e) \<Longrightarrow> only {} s s'"
  by (auto simp: refuseNonRegular_def split: prod.splits sum.splits inode.splits dest!: reads_only(1))

text \<open>The names a restore or a copy uses beside a managed path, and the ones a mount's own directories hold.\<close>

lemma sibling_scratch:
  assumes "store_ok st" "Abs st rel = Inr p" "hidden_name e" "plain e"
  shows "path_Join [path_Dir p, e] \<in> scratch st"
proof -
  from Abs_elements [OF assms(1,2)] obtain cs where cs: "cs \<noteq> []" "\<forall>c\<in>set cs. plain c" "p = rooted_at (base_elements st @ cs)"
    by blast
  let ?es = "base_elements st @ cs"
  have "base_elements st \<noteq> []" "\<forall>e\<in>set ?es. plain e" using assms(1) cs by (auto simp: store_ok_def)
  moreover have "butlast ?es = base_elements st @ butlast cs" using cs by (simp add: butlast_append)
  moreover have "\<forall>c\<in>set (butlast cs). plain c" using cs by (auto dest: in_set_butlastD)
  ultimately have "path_Join [path_Dir p, e] = rooted_at (base_elements st @ butlast cs @ [e])"
    using cs assms(4) path_Dir_rooted [of ?es] path_Join_rooted [of "base_elements st @ butlast cs" "[e]"] by auto
  moreover have "\<not> numbered e" using assms(3) by (cases e) (auto simp: numbered_def hidden_name_def HasPrefix_def is_digit_def less_eq_char_def)
  ultimately show ?thesis using assms \<open>\<forall>c\<in>set (butlast cs). plain c\<close> by (intro agent_namesI) auto
qed

lemma own_dir_name:
  assumes "store_ok st" "plain dir" "hidden_name dir" "plain e" "name e"
  shows "path_Join [mountFor st p, dir, e] \<in> agent_names st name" "path_Join [path_Join [mountFor st p, dir], e] \<in> agent_names st name"
proof -
  from mountFor_root [OF assms(1)] obtain ms where ms: "\<forall>m\<in>set ms. plain m" "mountFor st p = rooted_at (base_elements st @ ms)" by blast
  have base: "base_elements st \<noteq> []" "\<forall>e\<in>set (base_elements st). plain e" using assms(1) by (auto simp: store_ok_def)
  have "rooted_at (base_elements st @ (ms @ [dir]) @ [e]) \<in> agent_names st name"
    using ms assms by (intro agent_namesI [of _ _ "ms @ [dir]" e]) auto
  moreover have "path_Join [mountFor st p, dir, e] = rooted_at (base_elements st @ (ms @ [dir]) @ [e])"
    using ms base assms path_Join_rooted [of "base_elements st @ ms" "[dir, e]"] by auto
  moreover have "path_Join [path_Join [mountFor st p, dir], e] = rooted_at (base_elements st @ (ms @ [dir]) @ [e])"
    using ms base assms path_Join_rooted [of "base_elements st @ ms" "[dir]"]
      path_Join_rooted [of "base_elements st @ ms @ [dir]" "[e]"] by (simp add: ball_Un)
  ultimately show "path_Join [mountFor st p, dir, e] \<in> agent_names st name"
    "path_Join [path_Join [mountFor st p, dir], e] \<in> agent_names st name" by simp_all
qed

subsection \<open>Parts\<close>

lemma temp_scratch:
  assumes "store_ok st" "p' = path_Join [path_Join [mountFor st p, TempDirName], ''part-'' @ nat_digits n]"
  shows "p' \<in> scratch st"
  unfolding assms(2)
  by (rule own_dir_name(2) [OF assms(1)])
    (auto simp: TempDirName_def plain_def hidden_name_def HasPrefix_def numbered_def is_digit_def less_eq_char_def
      intro: plain_digits [unfolded plain_def, THEN conjunct1] dest: nat_digits_digits [THEN conjunct1, unfolded list_all_iff, THEN bspec])

text \<open>The content of a regular file.\<close>

fun content_of :: "inode option \<Rightarrow> string option" where
  "content_of (Some (Regular content _)) = Some content"
| "content_of _ = None"

definition copies :: "string \<Rightarrow> fsys \<Rightarrow> string \<Rightarrow> fsys \<Rightarrow> bool" where
  "copies c s p s' \<longleftrightarrow> node_at s' p = node_at s p \<or> content_of (node_at s' p) = Some c"

lemma copyOnto_effect:
  assumes ok: "store_ok st" "Abs st rel = Inr p" and run: "copyOnto env src p s = (s', e)" and src: "src \<noteq> p"
    and c: "content_of (node_at s src) = Some c"
  shows "only ({p, src} \<union> {q \<in> scratch st. node_at s q = None}) s s' \<and> copies c s p s' \<and>
    (e = None \<longrightarrow> content_of (node_at s' p) = Some c \<and> node_at s' src = None)"
proof -
  let ?free = "{q \<in> scratch st. node_at s q = None}"
  obtain s1 r where read: "os_ReadFile env src s = (s1, r)" by fastforce
  note s1 = reads_only(2) [OF read]
  show ?thesis
  proof (cases r)
    case (Inl e1)
    with read run s1 show ?thesis by (auto simp: copyOnto_def only_def copies_def)
  next
    case (Inr content)
    with read c have content: "content = c"
      by (auto simp: os_defs split: if_splits option.splits inode.splits)
    obtain s2 t where temp: "os_CreateTemp env (path_Dir p) ''.copy-'' s1 = (s2, t)" by fastforce
    show ?thesis
    proof (cases t)
      case (Inl e2)
      with Inr read run temp s1 CreateTemp_only(1) [of env "path_Dir p" "''.copy-''" s1 s2 e2] show ?thesis
        by (auto simp: copyOnto_def only_def copies_def)
    next
      case (Inr tmp)
      from CreateTemp_only(2) [OF temp [unfolded Inr]] obtain n where s2: "only {tmp} s1 s2"
        and free: "node_at s1 tmp = None" and tmp: "tmp = path_Join [path_Dir p, ''.copy-'' @ nat_digits n]" by blast
      have "tmp \<in> scratch st"
        unfolding tmp using plain_digits [of "''.copy-''" n] by (intro sibling_scratch [OF ok]) (simp_all add: hidden_name_def HasPrefix_def)
      with free s1 have tmp_free: "tmp \<in> ?free" by (simp add: only_def)
      with managed_visible [OF ok] c have ne: "tmp \<noteq> p" "tmp \<noteq> src" by auto
      have s12: "only {tmp} s s2" using only_trans [OF s1 s2] by simp
      obtain s3 we where w: "os_WriteTemp env tmp content s2 = (s3, we)" by fastforce
      obtain s4 ce where ch: "os_Chmod env tmp filePerm s3 = (s4, ce)" by fastforce
      have s14: "only {tmp} s s4" using only_then [OF only_then [OF s12 writes_only(5) [OF w]] writes_only(4) [OF ch]] .
      have failed: ?thesis if "only {tmp} s s'" "e \<noteq> None"
        using only_mono [OF that(1)] that(2) tmp_free onlyD [OF that(1)] ne by (auto simp: copies_def)
      show ?thesis
      proof (cases "we \<noteq> None \<or> ce \<noteq> None")
        case True
        with only_then [OF s14 Remove_only [of tmp s4 env]] \<open>r = Inr content\<close> Inr read temp w ch run
        show ?thesis by (intro failed) (auto simp: copyOnto_def split: if_splits)
      next
        case False
        with w ch content have node: "content_of (node_at s4 tmp) = Some c"
          by (auto simp: os_defs split: if_splits option.splits inode.splits)
        obtain s5 re where rn: "os_Rename env tmp p s4 = (s5, re)" by fastforce
        have s15: "only {tmp, p} s s5" using only_trans [OF s14 writes_only(3) [OF rn]] by (simp add: insert_commute)
        show ?thesis
        proof (cases re)
          case (Some e3)
          with rn have "only {tmp} s s5" using s14 by (auto simp: os_defs only_def split: if_splits option.splits)
          from only_then [OF this Remove_only [of tmp s5 env]] Some False \<open>r = Inr content\<close> Inr read temp w ch rn run
          show ?thesis by (intro failed) (auto simp: copyOnto_def)
        next
          case None
          with rn node have p5: "content_of (node_at s5 p) = Some c" by (auto simp: os_defs split: if_splits option.splits)
          obtain s6 re6 where rm: "os_Remove env src s5 = (s6, re6)" by fastforce
          have "only {tmp, p, src} s s6"
            using only_trans [OF s15 writes_only(1) [OF rm]] by (simp add: insert_commute)
          moreover have "node_at s6 p = node_at s5 p" using onlyD [OF writes_only(1) [OF rm], of p] src by simp
          moreover have "re6 = None \<Longrightarrow> node_at s6 src = None" using rm by (auto simp: os_defs split: if_splits)
          moreover have "s' = s6" "e = re6" using None False \<open>r = Inr content\<close> Inr read temp w ch rn run rm by (auto simp: copyOnto_def)
          ultimately show ?thesis using p5 only_mono [of "{tmp, p, src}" s s6] tmp_free by (auto simp: copies_def)
        qed
      qed
    qed
  qed
qed

lemma install_effect:
  assumes ok: "store_ok st" "Abs st (sg_Rel staged) = Inr p" and run: "install env st staged s = (s', staged', e)"
    and tmp: "sg_tmp staged \<noteq> p" and c: "content_of (node_at s (sg_tmp staged)) = Some c"
  shows "only ({p, sg_tmp staged} \<union> {q \<in> scratch st. node_at s q = None}) s s' \<and> copies c s p s' \<and>
    (e = None \<longrightarrow> content_of (node_at s' p) = Some c)"
proof -
  let ?t = "sg_tmp staged"
  obtain s1 re where rf: "refuseNonRegular env p s = (s1, re)" by fastforce
  obtain s2 me where md: "os_MkdirAll env (path_Dir p) s1 = (s2, me)" by fastforce
  obtain s3 ne where rn: "os_Rename env ?t p s2 = (s3, ne)" by fastforce
  note s1 = refuseNonRegular_only [OF rf] and s2 = reads_only(3) [OF md]
  have s12: "only {} s s2" using only_then [OF s1 s2] .
  then have same: "node_at s2 q = node_at s q" for q by (simp add: only_def)
  consider "re \<noteq> None" | "re = None" "me \<noteq> None" | "re = None" "me = None" "ne = None"
    | "re = None" "me = None" "ne \<noteq> None" "ne \<noteq> Some EXDEV" | "re = None" "me = None" "ne = Some EXDEV" by blast
  then show ?thesis
  proof cases
    case 3
    with rn c same have "content_of (node_at s3 p) = Some c" by (auto simp: os_defs split: if_splits option.splits)
    with 3 ok(2) rf md rn run only_trans [OF s12 writes_only(3) [OF rn]] show ?thesis
      by (auto simp: install_def copies_def intro: only_mono)
  next
    case 4
    with rn have "only {} s2 s3" by (auto simp: os_defs only_def split: if_splits option.splits)
    with 4 s12 ok(2) rf md rn run show ?thesis by (auto simp: install_def copies_def only_def)
  next
    case 5
    let ?s3 = "s3\<lparr>fs_crossDeviceCopy := fs_crossDeviceCopy s3 + 1\<rparr>"
    from 5 rn have "only {} s2 ?s3" by (auto simp: os_defs only_def split: if_splits option.splits)
    then have same3: "node_at ?s3 q = node_at s q" for q using same by (simp add: only_def)
    obtain s4 ce where cp: "copyOnto env ?t p ?s3 = (s4, ce)" by fastforce
    from copyOnto_effect [OF ok cp tmp] c same3 have eff: "only ({p, ?t} \<union> {q \<in> scratch st. node_at s q = None}) ?s3 s4"
      "copies c ?s3 p s4" "ce = None \<longrightarrow> content_of (node_at s4 p) = Some c" by auto
    have "s' = s4" "e = ce" using 5 ok(2) rf md rn run cp by (auto simp: install_def split: option.splits)
    with eff same3 show ?thesis by (simp add: only_def copies_def)
  qed (use s1 s12 ok(2) rf md run in \<open>auto simp: install_def copies_def only_def\<close>)
qed

lemma install_refused: "Abs st (sg_Rel staged) = Inl e' \<Longrightarrow> install env st staged s = (s, staged, Some e')"
  by (simp add: install_def)

text \<open>A verified part: its temporary file holds the declared bytes and the tree is as before.\<close>

lemma stage_verified:
  assumes ok: "store_ok st" and run: "stage env st rel digest sz fill s = (s', r)"
  shows "only {q \<in> scratch st. node_at s q = None} s s' \<and>
    (\<forall>staged. r = Inr staged \<longrightarrow> sg_Rel staged = rel \<and> sg_tmp staged \<in> scratch st \<and> node_at s (sg_tmp staged) = None \<and>
      (\<exists>c. fill = Inr c \<and> content_of (node_at s' (sg_tmp staged)) = Some c \<and> int (length c) = sz \<and>
        DigestString (fe_sum64 env) c = digest \<and> sg_Fingerprint staged = \<lparr>fp_Sum = fe_sha256 env c,
          fp_Meta = \<lparr>fm_Mode = filePerm, fm_UID = fe_UID env, fm_GID = fe_GID env\<rparr>\<rparr>))"
proof (cases "Abs st rel")
  case (Inl e)
  with run show ?thesis by (auto simp: stage_def)
next
  case (Inr p)
  obtain s1 t where temp: "os_CreateTemp env (path_Join [mountFor st p, TempDirName]) ''part-'' s = (s1, t)" by fastforce
  show ?thesis
  proof (cases t)
    case (Inl e)
    with Inr run temp CreateTemp_only(1) [of env _ "''part-''" s s1 e] show ?thesis by (auto simp: stage_def only_def)
  next
    case t: (Inr tmp)
    from CreateTemp_only(2) [OF temp [unfolded t]] obtain n where s1: "only {tmp} s s1" and free: "node_at s tmp = None"
      and tmp: "tmp = path_Join [path_Join [mountFor st p, TempDirName], ''part-'' @ nat_digits n]" by blast
    from temp_scratch [OF ok tmp] free have tmp_free: "{tmp} \<subseteq> {q \<in> scratch st. node_at s q = None}" by blast
    have removed: "only {tmp} s u \<Longrightarrow> only {tmp} s (fst (os_Remove env tmp u))" for u
      by (rule only_then [OF _ Remove_only])
    show ?thesis
    proof (cases fill)
      case (Inl e)
      have "only {tmp} s (fst (os_WriteTemp env tmp [] s1))"
        using only_then [OF s1 writes_only(5)] by (metis prod.collapse)
      from removed [OF this] Inr t temp Inl run show ?thesis
        by (auto simp: stage_def intro: only_mono [OF _ tmp_free])
    next
      case (Inr c)
      obtain s2 we where w: "os_WriteTemp env tmp c s1 = (s2, we)" by fastforce
      obtain s3 ce where ch: "os_Chmod env tmp filePerm s2 = (s3, ce)" by fastforce
      obtain s4 lr where ls: "os_Lstat env tmp s3 = (s4, lr)" by fastforce
      have s2: "only {tmp} s s2" using only_then [OF s1 writes_only(5) [OF w]] .
      have s3: "only {tmp} s s3" using only_then [OF s2 writes_only(4) [OF ch]] .
      have s4: "only {tmp} s s4" using only_then [OF s3 only_mono [OF reads_only(1) [OF ls]]] by simp
      note removed = removed [OF s2] removed [OF s3] removed [OF s4]
      have "only {tmp} s s'" using run \<open>Abs st rel = Inr p\<close> t temp Inr w ch ls removed s4
        by (auto simp: stage_def split: if_splits option.splits sum.splits inode.splits)
      moreover have "lr = Inr (Regular c \<lparr>fm_Mode = filePerm, fm_UID = fe_UID env, fm_GID = fe_GID env\<rparr>)"
        "content_of (node_at s4 tmp) = Some c" if "we = None" "ce = None" "lr = Inr x" for x
        using w ch ls that by (auto simp: os_defs split: if_splits option.splits)
      ultimately show ?thesis
        using run \<open>Abs st rel = Inr p\<close> t temp Inr w ch ls temp_scratch [OF ok tmp] free
        by (auto simp: stage_def intro: only_mono [OF _ tmp_free] split: if_splits option.splits sum.splits inode.splits)
    qed
  qed
qed

text \<open>A part with the declared bytes is accepted when nothing fails and the temporary name is free.\<close>

definition next_temp :: "files_env \<Rightarrow> Store \<Rightarrow> string \<Rightarrow> fsys \<Rightarrow> string" where
  "next_temp env st p s = path_Join [path_Join [mountFor st p, TempDirName], ''part-'' @ nat_digits (fe_suffix env (fs_calls s))]"

lemma stage_accepts:
  assumes "Abs st rel = Inr p" "healthy env s" "node_at s (next_temp env st p s) = None"
    "int (length c) = sz" "DigestString (fe_sum64 env) c = digest"
  shows "\<exists>s' staged. stage env st rel digest sz (Inr c) s = (s', Inr staged)"
  using assms by (auto simp: stage_def healthy_def next_temp_def os_defs)

end
