(* ===== verification/Agent_Rollback.thy ===== *)
theory Agent_Rollback
  imports Agent_Files_Laws Monitored_Runs
begin

section \<open>Rolling the tree back to the last known good one\<close>

text \<open>
  The invariant of the backup journal, that every operation of the store keeps it whatever calls fail, and
  that a restore undoes everything since the journal was empty; what a write leaves behind when it succeeds
  and when it does not.
\<close>

subsection \<open>The journal invariant\<close>

definition backupPath :: "files_env \<Rightarrow> Store \<Rightarrow> string \<Rightarrow> string \<Rightarrow> nat \<Rightarrow> string" where
  "backupPath env st rel p i = path_Join [mountFor st p, LKGDirName, nat_digits i @ ''-'' @ DigestString (fe_sum64 env) rel @ ''.bak'']"

text \<open>\<open>lkg\<close> is the last known good tree, by absolute path.\<close>

definition entry_backed :: "files_env \<Rightarrow> Store \<Rightarrow> (string \<Rightarrow> inode option) \<Rightarrow> fsys \<Rightarrow> nat \<Rightarrow> JournalEntry \<Rightarrow> bool" where
  "entry_backed env st lkg s i e \<longleftrightarrow>
     (\<exists>p. Abs st (en_Path e) = Inr p \<and>
        (if en_Kind e = KindCreated then lkg p = None
         else lkg p \<noteq> None \<and> en_Backup e = backupPath env st (en_Path e) p i \<and> node_at s (en_Backup e) = lkg p))"

definition backed :: "files_env \<Rightarrow> Store \<Rightarrow> (string \<Rightarrow> inode option) \<Rightarrow> Journal \<Rightarrow> fsys \<Rightarrow> bool" where
  "backed env st lkg j s \<longleftrightarrow> distinct (map en_Path j) \<and> (\<forall>i<length j. entry_backed env st lkg s i (j ! i)) \<and>
     (\<forall>rel p. Abs st rel = Inr p \<and> \<not> Has j rel \<longrightarrow> node_at s p = lkg p)"

definition journalled :: "Store \<Rightarrow> Journal \<Rightarrow> string set" where
  "journalled st j = {p. \<exists>rel. Has j rel \<and> Abs st rel = Inr p}"

lemma Has_iff: "Has j rel \<longleftrightarrow> rel \<in> en_Path ` set j"
  by (auto simp: Has_def list_ex_iff)

lemma Has_snoc [simp]: "Has (j @ [e]) rel \<longleftrightarrow> Has j rel \<or> en_Path e = rel"
  by (auto simp: Has_iff)

lemma FormatDigest_plain: "c \<in> set (FormatDigest h) \<Longrightarrow> c \<noteq> CHR ''/'' \<and> c \<noteq> CHR ''.''"
proof -
  have "hex_digit n \<noteq> CHR ''/'' \<and> hex_digit n \<noteq> CHR ''.''" if "n < 16" for n
  proof -
    have "(48::nat) \<le> of_char (hex_digit n)" using that by (simp add: hex_digit_def of_char_of)
    then show ?thesis by auto
  qed
  moreover have "b div 16 < 16" "b mod 16 < 16" if "b < 256" for b :: nat using that by simp_all
  ultimately show "c \<in> set (FormatDigest h) \<Longrightarrow> c \<noteq> CHR ''/'' \<and> c \<noteq> CHR ''.''"
    by (auto simp: FormatDigest_def Let_def byte_at_def)
qed

lemma backup_name_plain: "plain (nat_digits i @ ''-'' @ DigestString f rel @ ''.bak'')" "numbered (nat_digits i @ ''-'' @ x)"
proof -
  have digits: "nat_digits i \<noteq> []" "list_all is_digit (nat_digits i)" using nat_digits_digits by blast+
  then show "numbered (nat_digits i @ ''-'' @ x)" by (cases "nat_digits i") (auto simp: numbered_def)
  have "CHR ''/'' \<notin> set (nat_digits i)" using digits by (auto simp: list_all_iff is_digit_def less_eq_char_def)
  with digits FormatDigest_plain show "plain (nat_digits i @ ''-'' @ DigestString f rel @ ''.bak'')"
    by (auto simp: plain_def DigestString_def append_eq_Cons_conv)
qed

lemma backupPath_backups: "store_ok st \<Longrightarrow> backupPath env st rel p i \<in> backups st"
  unfolding backupPath_def
  by (rule own_dir_name(1)) (use backup_name_plain in \<open>auto simp: LKGDirName_def plain_def hidden_name_def HasPrefix_def\<close>)

lemma backupPath_distinct:
  assumes "store_ok st" "backupPath env st rel p i = backupPath env st rel' p' k"
  shows "i = k"
proof -
  have last: "path_Base (backupPath env st rel p i) = nat_digits i @ ''-'' @ DigestString (fe_sum64 env) rel @ ''.bak''" for rel p i
  proof -
    from mountFor_root [OF assms(1)] obtain ms where ms: "\<forall>m\<in>set ms. plain m" "mountFor st p = rooted_at (base_elements st @ ms)" by blast
    let ?e = "nat_digits i @ ''-'' @ DigestString (fe_sum64 env) rel @ ''.bak''"
    have dir: "plain LKGDirName" by (simp add: LKGDirName_def plain_def)
    have "\<forall>e\<in>set (base_elements st @ ms @ [LKGDirName, ?e]). plain e"
      using assms(1) ms dir backup_name_plain(1) unfolding store_ok_def by auto
    moreover have "backupPath env st rel p i = rooted_at (base_elements st @ ms @ [LKGDirName, ?e])"
      unfolding backupPath_def ms(2) using calculation assms(1) path_Join_rooted [of "base_elements st @ ms" "[LKGDirName, ?e]"]
      by (simp add: store_ok_def)
    ultimately show ?thesis using path_Base_rooted by simp
  qed
  from arg_cong [OF assms(2), of path_Base] show ?thesis unfolding last by (rule backup_numbers)
qed

text \<open>What touches only journalled paths and the agent's own names leaves the invariant.\<close>

lemma entry_frame:
  assumes "store_ok st" "entry_backed env st lkg s i e" "only P s s'" "P \<inter> backups st = {}"
  shows "entry_backed env st lkg s' i e"
proof -
  from assms(2) obtain p where p: "Abs st (en_Path e) = Inr p"
    "if en_Kind e = KindCreated then lkg p = None
     else lkg p \<noteq> None \<and> en_Backup e = backupPath env st (en_Path e) p i \<and> node_at s (en_Backup e) = lkg p"
    unfolding entry_backed_def by blast
  have "backupPath env st (en_Path e) p i \<notin> P" using backupPath_backups [OF assms(1)] assms(4) by blast
  then have "node_at s' (backupPath env st (en_Path e) p i) = node_at s (backupPath env st (en_Path e) p i)"
    by (rule onlyD [OF assms(3)])
  with p show ?thesis unfolding entry_backed_def by (intro exI [of _ p]) (auto split: if_splits)
qed

lemma journalled_iff: "store_ok st \<Longrightarrow> Abs st rel = Inr p \<Longrightarrow> p \<in> journalled st j \<longleftrightarrow> Has j rel"
  unfolding journalled_def by (blast dest: Abs_inj)

lemma journalled_frame: "store_ok st \<Longrightarrow> (journalled st j \<union> scratch st) \<inter> backups st = {}"
  using managed_visible scratch_backups by (fastforce simp: journalled_def)

lemma backed_frame:
  assumes ok: "store_ok st" and "backed env st lkg j s" and only: "only (journalled st j \<union> scratch st) s s'"
  shows "backed env st lkg j s'"
proof -
  have "p \<notin> journalled st j \<union> scratch st" if "Abs st rel = Inr p" "\<not> Has j rel" for rel p
    using journalled_iff [OF ok that(1)] that(2) managed_visible [OF ok that(1)] by simp
  then have "node_at s' p = node_at s p" if "Abs st rel = Inr p" "\<not> Has j rel" for rel p
    using that onlyD [OF only] by blast
  moreover have "entry_backed env st lkg s' i (j ! i)" if "i < length j" for i
    using assms(2) that entry_frame [OF ok _ only journalled_frame [OF ok]] by (simp add: backed_def)
  ultimately show ?thesis using assms(2) by (auto simp: backed_def)
qed

lemma backed_entry: "backed env st lkg j s \<Longrightarrow> e \<in> set j \<Longrightarrow> \<exists>i<length j. j ! i = e \<and> entry_backed env st lkg s i e"
  unfolding backed_def by (metis in_set_conv_nth)

subsection \<open>Backing up\<close>

lemma linkAside_effect:
  assumes ok: "store_ok st" "Abs st rel = Inr p" and run: "linkAside env st rel p j s = (s', r)"
  shows "only {backupPath env st rel p (length j)} s s' \<and>
    (\<forall>link. r = Inr link \<longrightarrow> link = backupPath env st rel p (length j) \<and> node_at s' link = node_at s p \<and> node_at s p \<noteq> None)"
proof -
  let ?l = "backupPath env st rel p (length j)"
  have link: "path_Join [mountFor st p, LKGDirName, backupName env rel j] = ?l" by (simp add: backupPath_def backupName_def)
  have ne: "?l \<noteq> p" using backupPath_backups [OF ok(1)] managed_visible [OF ok] by metis
  obtain s1 re where rm: "os_Remove env ?l s = (s1, re)" by fastforce
  obtain s2 le where ln: "os_Link env p ?l s1 = (s2, le)" by fastforce
  have p1: "node_at s1 p = node_at s p" using onlyD [OF writes_only(1) [OF rm], of p] ne by simp
  have "only {?l} s s2" by (rule only_then [OF writes_only(1) [OF rm] writes_only(2) [OF ln]])
  moreover have "node_at s2 ?l = node_at s1 p \<and> node_at s1 p \<noteq> None" if "le = None"
    using ln that by (auto simp: os_defs split: if_splits option.splits)
  ultimately show ?thesis
    using run rm ln p1 writes_only(1) [OF rm] by (auto simp: linkAside_def Let_def link split: if_splits option.splits)
qed

lemma only_backup_frame:
  assumes "store_ok st" "only {backupPath env st rel p i} s s'" "Abs st rel' = Inr q"
  shows "node_at s' q = node_at s q"
  using assms onlyD [OF assms(2), of q] managed_visible [OF assms(1,3)] backupPath_backups [OF assms(1)] by (metis singletonD)

text \<open>The name of the next backup is free of the names of the ones before it.\<close>

lemma backed_aside:
  assumes ok: "store_ok st" and b: "backed env st lkg j s" and only: "only {backupPath env st rel p (length j)} s s'"
  shows "backed env st lkg j s'"
proof -
  have "entry_backed env st lkg s' i (j ! i)" if i: "i < length j" for i
  proof -
    have "backupPath env st rel p (length j) \<noteq> backupPath env st rel' p' i" for rel' p'
      using backupPath_distinct [OF ok] i by fastforce
    moreover have "entry_backed env st lkg s i (j ! i)" using b i by (simp add: backed_def)
    ultimately show ?thesis using onlyD [OF only] unfolding entry_backed_def by (metis singletonD)
  qed
  with b only_backup_frame [OF ok only] show ?thesis by (auto simp: backed_def)
qed

lemma backed_snoc:
  assumes "\<not> Has j (en_Path e)" "backed env st lkg j s" "entry_backed env st lkg s (length j) e"
  shows "backed env st lkg (j @ [e]) s"
  using assms by (auto simp: backed_def nth_append less_Suc_eq Has_iff)

text \<open>A path about to change is backed up, or it is absent and only to be deleted.\<close>

definition protects :: "Store \<Rightarrow> fsys \<Rightarrow> Journal \<Rightarrow> string \<Rightarrow> bool" where
  "protects st s j rel \<longleftrightarrow> Has j rel \<or> (\<forall>p. Abs st rel = Inr p \<longrightarrow> node_at s p = None)"

definition backs_up :: "files_env \<Rightarrow> Store \<Rightarrow> (string \<Rightarrow> inode option) \<Rightarrow> Journal \<Rightarrow> fsys \<Rightarrow> Journal \<Rightarrow> fsys \<Rightarrow> bool" where
  "backs_up env st lkg j s j' s' \<longleftrightarrow> backed env st lkg j' s' \<and> set j \<subseteq> set j' \<and> only (backups st) s s'"

lemma backs_up_refl: "backed env st lkg j s \<Longrightarrow> backs_up env st lkg j s j s"
  by (simp add: backs_up_def)

lemma backs_up_trans: "backs_up env st lkg j s k t \<Longrightarrow> backs_up env st lkg k t l u \<Longrightarrow> backs_up env st lkg j s l u"
  by (auto simp: backs_up_def only_def)

lemma backs_up_protects:
  assumes "store_ok st" "backs_up env st lkg j s j' s'" "protects st s j rel"
  shows "protects st s' j' rel"
  using assms managed_visible [OF assms(1)] by (auto simp: backs_up_def protects_def Has_iff only_def)

lemma linkAside_backed:
  assumes ok: "store_ok st" "Abs st rel = Inr p" "\<not> Has j rel" and b: "backed env st lkg j s"
    and run: "linkAside env st rel p j s = (s', r)"
  shows "backs_up env st lkg j s j s'"
    "r = Inr link \<Longrightarrow> kind \<noteq> KindCreated \<Longrightarrow> backs_up env st lkg j s (j @ [\<lparr>en_Path = rel, en_Kind = kind, en_Backup = link\<rparr>]) s'"
proof -
  note eff = linkAside_effect [OF ok(1,2) run]
  then have only: "only {backupPath env st rel p (length j)} s s'" by blast
  have lkg: "node_at s p = lkg p" using b ok by (simp add: backed_def)
  note b' = backed_aside [OF ok(1) b only]
  have o: "only (backups st) s s'" using only_mono [OF only] backupPath_backups [OF ok(1)] by simp
  with b' show "backs_up env st lkg j s j s'" by (simp add: backs_up_def)
  show "backs_up env st lkg j s (j @ [\<lparr>en_Path = rel, en_Kind = kind, en_Backup = link\<rparr>]) s'"
    if "r = Inr link" "kind \<noteq> KindCreated"
    using that eff lkg ok o backed_snoc [of j "\<lparr>en_Path = rel, en_Kind = kind, en_Backup = link\<rparr>", OF _ b']
    by (auto simp: backs_up_def entry_backed_def)
qed

lemma Lstat_same:
  assumes "os_Lstat env p s = (s', r)"
  shows "node_at s' q = node_at s q" "r = Inl ErrNotExist \<Longrightarrow> node_at s p = None" "r = Inr n \<Longrightarrow> node_at s p = Some n"
  using assms by (auto simp: os_defs split: if_splits option.splits)

lemma backs_up_same:
  assumes "backed env st lkg j s" "\<And>q. node_at s' q = node_at s q"
  shows "backs_up env st lkg j s j s'"
proof -
  have "node_at s' = node_at s" using assms(2) by blast
  then have "entry_backed env st lkg s' = entry_backed env st lkg s" by (simp add: entry_backed_def fun_eq_iff)
  with assms show ?thesis by (simp add: backs_up_def backed_def only_def)
qed

text \<open>Both functions that back up a path, with what they do when it is absent.\<close>

definition backupWith :: "EntryKind \<Rightarrow> (Journal \<Rightarrow> Journal) \<Rightarrow> files_env \<Rightarrow> Store \<Rightarrow> string \<Rightarrow> Journal \<Rightarrow> fsys \<Rightarrow> fsys \<times> Journal \<times> fs_error option" where
  "backupWith kind absent env st rel j s =
     (if Has j rel then (s, j, None)
      else case Abs st rel of
        Inl e \<Rightarrow> (s, j, Some e)
      | Inr path \<Rightarrow>
          (case os_Lstat env path s of
             (s1, Inl e) \<Rightarrow> if e = ErrNotExist then (s1, absent j, None) else (s1, j, Some e)
           | (s1, Inr _) \<Rightarrow>
               (case linkAside env st rel path j s1 of
                  (s2, Inl e) \<Rightarrow> (s2, j, Some e)
                | (s2, Inr link) \<Rightarrow> (s2, j @ [\<lparr>en_Path = rel, en_Kind = kind, en_Backup = link\<rparr>], None))))"

lemma backup_with:
  "backup env st rel = backupWith KindModified (\<lambda>j. j @ [\<lparr>en_Path = rel, en_Kind = KindCreated, en_Backup = []\<rparr>]) env st rel"
  "backupDeleted env st rel = backupWith KindDeleted (\<lambda>j. j) env st rel"
  by (auto simp: backup_def backupDeleted_def backupWith_def addEntry_def fun_eq_iff
      split: sum.splits prod.splits fs_error.splits)

lemma backupWith_effect:
  assumes ok: "store_ok st" and b: "backed env st lkg j s" and run: "backupWith kind absent env st rel j s = (s', j', e)"
    and kind: "kind \<noteq> KindCreated"
    and absent: "\<And>p. Abs st rel = Inr p \<Longrightarrow> \<not> Has j rel \<Longrightarrow> node_at s p = None \<Longrightarrow>
      absent j = j \<or> absent j = j @ [\<lparr>en_Path = rel, en_Kind = KindCreated, en_Backup = []\<rparr>]"
  shows "backs_up env st lkg j s j' s' \<and>
    (e = None \<longrightarrow> Has j' rel \<or> (\<exists>p. Abs st rel = Inr p \<and> node_at s p = None \<and> j' = absent j))"
proof (cases "Has j rel")
  case True
  with run b show ?thesis by (auto simp: backupWith_def backs_up_refl)
next
  case False
  show ?thesis
  proof (cases "Abs st rel")
    case (Inl e1)
    with False run b show ?thesis by (auto simp: backupWith_def backs_up_refl)
  next
    case (Inr p)
    obtain s1 r where ls: "os_Lstat env p s = (s1, r)" by fastforce
    note same = backs_up_same [OF b Lstat_same(1) [OF ls]]
    then have b1: "backed env st lkg j s1" by (simp add: backs_up_def)
    have lkg: "node_at s p = lkg p" using b False Inr by (simp add: backed_def)
    obtain s2 r2 where la: "linkAside env st rel p j s1 = (s2, r2)" by fastforce
    note aside = backs_up_trans [OF same linkAside_backed(1) [OF ok Inr False b1 la]]
      backs_up_trans [OF same linkAside_backed(2) [OF ok Inr False b1 la _ kind]]
    consider (gone) "r = Inl ErrNotExist" | (failed) e1 where "r = Inl e1" "e1 \<noteq> ErrNotExist" | (present) n where "r = Inr n"
      by (cases r) auto
    then show ?thesis
    proof cases
      case gone
      have "backs_up env st lkg j s (absent j) s1"
        using absent [OF Inr False Lstat_same(2) [OF ls gone]] same lkg Lstat_same(2) [OF ls gone] Inr False
          backed_snoc [of j "\<lparr>en_Path = rel, en_Kind = KindCreated, en_Backup = []\<rparr>", OF _ b1]
        by (auto simp: backs_up_def entry_backed_def)
      with gone False Inr ls run Lstat_same(2) [OF ls gone] show ?thesis by (auto simp: backupWith_def)
    next
      case failed
      with same False Inr ls run show ?thesis by (auto simp: backupWith_def)
    next
      case present
      with aside False Inr ls la run show ?thesis by (cases r2) (auto simp: backupWith_def)
    qed
  qed
qed

lemma backup_effect:
  assumes "store_ok st" "backed env st lkg j s" "backup env st rel j s = (s', j', e)"
  shows "backs_up env st lkg j s j' s' \<and> (e = None \<longrightarrow> Has j' rel)"
  using backupWith_effect [OF assms(1,2) assms(3) [unfolded backup_with]] by auto

lemma backupDeleted_effect:
  assumes "store_ok st" "backed env st lkg j s" "backupDeleted env st rel j s = (s', j', e)"
  shows "backs_up env st lkg j s j' s' \<and> (e = None \<longrightarrow> protects st s' j' rel)"
  using backupWith_effect [OF assms(1,2) assms(3) [unfolded backup_with]] managed_visible [OF assms(1)]
  by (auto simp: protects_def backs_up_def only_def)

text \<open>A loop that backs up one path after the other, where each step protects its path.\<close>

lemma backs_up_Has: "backs_up env st lkg j s j' s' \<Longrightarrow> Has j rel \<Longrightarrow> Has j' rel"
  by (auto simp: backs_up_def Has_iff)

lemma backupAll_effect:
  assumes b: "backed env st lkg j s" and run: "backupAll f rels j s = (s', j', e)"
    and f: "\<And>rel j s s' j' e. backed env st lkg j s \<Longrightarrow> f rel j s = (s', j', e) \<Longrightarrow>
      backs_up env st lkg j s j' s' \<and> (e = None \<longrightarrow> safe s' j' rel)"
    and mono: "\<And>rel j s s' j'. backs_up env st lkg j s j' s' \<Longrightarrow> safe s j rel \<Longrightarrow> safe s' j' rel"
  shows "backs_up env st lkg j s j' s' \<and> (e = None \<longrightarrow> (\<forall>rel\<in>set rels. safe s' j' rel))"
  using b run
proof (induction rels arbitrary: j s)
  case Nil
  then show ?case by (auto simp: backs_up_refl)
next
  case (Cons rel rels)
  obtain s1 j1 e1 where step: "f rel j s = (s1, j1, e1)" by (cases "f rel j s") auto
  note one = f [OF Cons.prems(1) step]
  show ?case
  proof (cases e1)
    case None
    then have "backupAll f rels j1 s1 = (s', j', e)" using Cons.prems(2) step by simp
    moreover have "backed env st lkg j1 s1" using one by (simp add: backs_up_def)
    ultimately have rest: "backs_up env st lkg j1 s1 j' s'" "e = None \<Longrightarrow> \<forall>rel\<in>set rels. safe s' j' rel"
      using Cons.IH by blast+
    then show ?thesis using one None backs_up_trans mono [OF rest(1)] by auto
  next
    case (Some x)
    with Cons.prems(2) step one show ?thesis by auto
  qed
qed

lemma Backup_effect:
  assumes ok: "store_ok st" and b: "backed env st lkg j s" and run: "Backup env st t j s = (s', j', e)"
  shows "backs_up env st lkg j s j' s' \<and>
    (e = None \<longrightarrow> (\<forall>part\<in>set (tx_installs t). Has j' (sg_Rel part)) \<and> (\<forall>rel\<in>set (tx_deletes t). protects st s' j' rel))"
proof (cases "Changes t > MaxFiles")
  case True
  with run b show ?thesis by (auto simp: Backup_def backs_up_refl)
next
  case False
  obtain s1 j1 e1 where inst: "backupAll (backup env st) (map sg_Rel (tx_installs t)) j s = (s1, j1, e1)"
    by (cases "backupAll (backup env st) (map sg_Rel (tx_installs t)) j s") auto
  obtain s2 j2 e2 where del: "backupAll (backupDeleted env st) (tx_deletes t) j1 s1 = (s2, j2, e2)"
    by (cases "backupAll (backupDeleted env st) (tx_deletes t) j1 s1") auto
  have i: "backs_up env st lkg j s j1 s1" "e1 = None \<Longrightarrow> \<forall>part\<in>set (tx_installs t). Has j1 (sg_Rel part)"
    using backupAll_effect [OF b inst, of "\<lambda>s. Has"] backup_effect [OF ok] backs_up_Has by auto
  then have "backed env st lkg j1 s1" by (simp add: backs_up_def)
  from backupAll_effect [OF this del, of "protects st"] backupDeleted_effect [OF ok] backs_up_protects [OF ok]
  have d: "backs_up env st lkg j1 s1 j2 s2" "e2 = None \<Longrightarrow> \<forall>rel\<in>set (tx_deletes t). protects st s2 j2 rel" by auto
  show ?thesis
  proof (cases e1)
    case None
    then have "s' = s2" "j' = j2" "e = e2" using False run inst del by (auto simp: Backup_def)
    with None i d backs_up_trans [OF i(1) d(1)] show ?thesis by (auto intro: backs_up_Has [OF d(1)])
  next
    case (Some x)
    with False run inst i show ?thesis by (auto simp: Backup_def)
  qed
qed

subsection \<open>Writing\<close>

text \<open>The parts of a transaction have been staged: their temporary files exist, each its own.\<close>

definition parts_ok :: "Store \<Rightarrow> Staged list \<Rightarrow> fsys \<Rightarrow> bool" where
  "parts_ok st ps s \<longleftrightarrow> (\<forall>part\<in>set ps. sg_tmp part \<in> scratch st \<and> content_of (node_at s (sg_tmp part)) \<noteq> None) \<and>
     distinct (map sg_tmp ps) \<and> distinct (map sg_Rel ps)"

definition paths_of :: "Store \<Rightarrow> string set \<Rightarrow> string set" where
  "paths_of st rels = {p. \<exists>rel\<in>rels. Abs st rel = Inr p}"

definition installed :: "Store \<Rightarrow> fsys \<Rightarrow> fsys \<Rightarrow> Staged \<Rightarrow> bool" where
  "installed st s s' part \<longleftrightarrow>
     (\<exists>p. Abs st (sg_Rel part) = Inr p \<and> content_of (node_at s' p) = content_of (node_at s (sg_tmp part)))"

lemma paths_of_insert: "paths_of st (insert rel rels) = paths_of st {rel} \<union> paths_of st rels"
  by (auto simp: paths_of_def)

lemma paths_of_iff: "store_ok st \<Longrightarrow> Abs st rel = Inr p \<Longrightarrow> p \<in> paths_of st rels \<longleftrightarrow> rel \<in> rels"
  unfolding paths_of_def by (blast dest: Abs_inj)

lemma parts_ok_ConsD:
  assumes "parts_ok st (part # ps) s" "q \<in> set ps"
  shows "sg_tmp q \<in> scratch st" "node_at s (sg_tmp q) \<noteq> None" "sg_tmp q \<noteq> sg_tmp part" "sg_Rel q \<noteq> sg_Rel part"
proof -
  have "sg_tmp part \<notin> sg_tmp ` set ps" "sg_Rel part \<notin> sg_Rel ` set ps" using assms(1) by (simp_all add: parts_ok_def)
  then show "sg_tmp q \<noteq> sg_tmp part" "sg_Rel q \<noteq> sg_Rel part" using assms(2) by (metis imageI)+
  have "content_of (node_at s (sg_tmp q)) \<noteq> None" using assms by (simp add: parts_ok_def)
  then show "node_at s (sg_tmp q) \<noteq> None" by (cases "node_at s (sg_tmp q)") auto
  show "sg_tmp q \<in> scratch st" using assms by (simp add: parts_ok_def)
qed

lemma install_step:
  assumes ok: "store_ok st" and parts: "parts_ok st (part # ps) s" and run: "install env st part s = (s1, part1, e)"
  shows "only (paths_of st {sg_Rel part} \<union> scratch st) s s1" "e = None \<Longrightarrow> installed st s s1 part" "parts_ok st ps s1"
    "q \<in> set ps \<Longrightarrow> node_at s1 (sg_tmp q) = node_at s (sg_tmp q)"
proof -
  have part: "sg_tmp part \<in> scratch st" using parts by (simp add: parts_ok_def)
  from parts obtain c where c: "content_of (node_at s (sg_tmp part)) = Some c" by (auto simp: parts_ok_def)
  have "only (paths_of st {sg_Rel part} \<union> scratch st) s s1 \<and> (e = None \<longrightarrow> installed st s s1 part) \<and>
      (\<forall>q\<in>set ps. node_at s1 (sg_tmp q) = node_at s (sg_tmp q))"
  proof (cases "Abs st (sg_Rel part)")
    case (Inl e')
    with run install_refused [OF Inl] show ?thesis by auto
  next
    case (Inr p)
    have ne: "sg_tmp part \<noteq> p" using part managed_visible [OF ok Inr] by blast
    from install_effect [OF ok Inr run ne c]
    have eff: "only ({p, sg_tmp part} \<union> {q \<in> scratch st. node_at s q = None}) s s1"
      "e = None \<longrightarrow> content_of (node_at s1 p) = Some c" by auto
    have "node_at s1 (sg_tmp q) = node_at s (sg_tmp q)" if q: "q \<in> set ps" for q
    proof (rule onlyD [OF eff(1)])
      from parts_ok_ConsD [OF parts q] managed_visible [OF ok Inr] show "sg_tmp q \<notin> {p, sg_tmp part} \<union> {q \<in> scratch st. node_at s q = None}" by blast
    qed
    moreover have "only (paths_of st {sg_Rel part} \<union> scratch st) s s1"
      using only_mono [OF eff(1)] part Inr by (auto simp: paths_of_def)
    ultimately show ?thesis using eff(2) Inr c by (auto simp: installed_def)
  qed
  then show "only (paths_of st {sg_Rel part} \<union> scratch st) s s1" "e = None \<Longrightarrow> installed st s s1 part"
    "q \<in> set ps \<Longrightarrow> node_at s1 (sg_tmp q) = node_at s (sg_tmp q)" "parts_ok st ps s1"
    using parts by (auto simp: parts_ok_def)
qed

text \<open>What is written stays; nothing reaches the path of the last part before the others are in place.\<close>

lemma installAll_effect:
  assumes ok: "store_ok st" and "parts_ok st ps s" and "installAll env st ps s = (s', ps', e)"
  shows "only (paths_of st (sg_Rel ` set ps) \<union> scratch st) s s' \<and> (e = None \<longrightarrow> (\<forall>part\<in>set ps. installed st s s' part)) \<and>
    (\<forall>q. ps \<noteq> [] \<and> Abs st (sg_Rel (last ps)) = Inr q \<and> node_at s' q \<noteq> node_at s q \<longrightarrow>
       (\<forall>part\<in>set (butlast ps). installed st s s' part))"
  using assms(2,3)
proof (induction ps arbitrary: s ps')
  case Nil
  then show ?case by simp
next
  case (Cons part ps)
  obtain s1 part1 e1 where step: "install env st part s = (s1, part1, e1)" by (cases "install env st part s") auto
  note one = install_step [OF ok Cons.prems(1) step]
  have other: "p \<notin> paths_of st {sg_Rel part} \<union> scratch st" if "Abs st (sg_Rel q) = Inr p" "q \<in> set ps" for p q
    using parts_ok_ConsD(4) [OF Cons.prems(1) that(2)] paths_of_iff [OF ok that(1)] managed_visible [OF ok that(1)] by simp
  show ?case
  proof (cases e1)
    case (Some x)
    have "node_at s1 q = node_at s q" if "ps \<noteq> []" "Abs st (sg_Rel (last ps)) = Inr q" for q
      using onlyD [OF one(1) other [OF that(2)]] that(1) by simp
    moreover have "only (paths_of st (sg_Rel ` set (part # ps)) \<union> scratch st) s s1"
      by (rule only_mono [OF one(1)]) (auto simp: paths_of_def)
    ultimately show ?thesis using Some Cons.prems(2) step by auto
  next
    case None
    with Cons.prems(2) step obtain ps2 where "installAll env st ps s1 = (s', ps2, e)" by (auto split: prod.splits)
    note rest = Cons.IH [OF one(3) this]
    have keep: "installed st s s' part"
    proof -
      from one(2) [OF None] obtain p where p: "Abs st (sg_Rel part) = Inr p"
        "content_of (node_at s1 p) = content_of (node_at s (sg_tmp part))" by (auto simp: installed_def)
      have "p \<notin> paths_of st (sg_Rel ` set ps) \<union> scratch st"
        using Cons.prems(1) paths_of_iff [OF ok p(1)] managed_visible [OF ok p(1)] by (auto simp: parts_ok_def)
      with onlyD [of "paths_of st (sg_Rel ` set ps) \<union> scratch st" s1 s' p] rest p show ?thesis by (auto simp: installed_def)
    qed
    have same: "installed st s s' q = installed st s1 s' q" if "q \<in> set ps" for q
      using one(4) [OF that] by (simp add: installed_def)
    have "only (paths_of st (sg_Rel ` set (part # ps)) \<union> scratch st) s s'"
      by (rule only_mono [OF only_trans [OF one(1) rest [THEN conjunct1]]]) (auto simp: paths_of_def)
    moreover have "\<forall>q. part # ps \<noteq> [] \<and> Abs st (sg_Rel (last (part # ps))) = Inr q \<and> node_at s' q \<noteq> node_at s q \<longrightarrow>
        (\<forall>p\<in>set (butlast (part # ps)). installed st s s' p)"
    proof (intro allI impI ballI)
      fix q p
      assume a: "part # ps \<noteq> [] \<and> Abs st (sg_Rel (last (part # ps))) = Inr q \<and> node_at s' q \<noteq> node_at s q"
        and p: "p \<in> set (butlast (part # ps))"
      show "installed st s s' p"
      proof (cases "p = part")
        case False
        with p have ps: "ps \<noteq> []" "p \<in> set (butlast ps)" by (auto split: if_splits)
        with a have "node_at s1 q = node_at s q" using onlyD [OF one(1) other [of "last ps" q]] by simp
        with a ps rest have "installed st s1 s' p" by simp
        with same [of p] ps show ?thesis by (auto dest: in_set_butlastD)
      qed (simp add: keep)
    qed
    ultimately show ?thesis using rest keep same by auto
  qed
qed

lemma unlink_effect:
  assumes "unlink env st rel s = (s', e)"
  shows "(\<forall>p. node_at s' p = node_at s p \<or> p \<in> paths_of st {rel} \<and> node_at s' p = None) \<and>
    (e = None \<longrightarrow> (\<exists>p. Abs st rel = Inr p \<and> node_at s' p = None))"
proof (cases "Abs st rel")
  case (Inr p)
  obtain s1 re where rf: "refuseNonRegular env p s = (s1, re)" by fastforce
  obtain s2 de where rm: "os_Remove env p s1 = (s2, de)" by fastforce
  have same: "node_at s1 q = node_at s q" for q using refuseNonRegular_only [OF rf] by (simp add: only_def)
  have "node_at s2 q = node_at s1 q \<or> q = p \<and> node_at s2 q = None" for q
    using rm by (auto simp: os_defs split: if_splits)
  moreover have "node_at s2 p = None" if "de = None \<or> de = Some ErrNotExist"
    using rm that by (auto simp: os_defs split: if_splits)
  ultimately show ?thesis using assms Inr rf rm same
    by (cases re) (auto simp: unlink_def paths_of_def split: if_splits)
qed (use assms in \<open>auto simp: unlink_def\<close>)

lemma unlinkAll_effect:
  assumes "unlinkAll env st rels s = (s', errs)"
  shows "(\<forall>p. node_at s' p = node_at s p \<or> p \<in> paths_of st (set rels) \<and> node_at s' p = None) \<and>
    (errs = [] \<longrightarrow> (\<forall>rel\<in>set rels. \<exists>p. Abs st rel = Inr p \<and> node_at s' p = None))"
  using assms
proof (induction rels arbitrary: s errs)
  case (Cons rel rels)
  obtain s1 e where step: "unlink env st rel s = (s1, e)" by fastforce
  obtain errs2 where rest: "unlinkAll env st rels s1 = (s', errs2)" and errs: "errs = (case e of None \<Rightarrow> [] | Some x \<Rightarrow> [x]) @ errs2"
    using Cons.prems step by (auto split: prod.splits)
  note one = unlink_effect [OF step] and ih = Cons.IH [OF rest]
  have "node_at s' p = node_at s p \<or> p \<in> paths_of st (set (rel # rels)) \<and> node_at s' p = None" for p
    using one ih by (metis UnCI list.simps(15) paths_of_insert)
  moreover have "\<exists>p. Abs st rel = Inr p \<and> node_at s' p = None" if "errs = []"
    using one ih that errs by (metis append_is_Nil_conv list.distinct(1) option.case_eq_if)
  ultimately show ?case using ih errs by auto
qed simp

text \<open>The installs of a transaction, in their order.\<close>

lemma filter_key: "distinct (map f xs) \<Longrightarrow> x \<in> set xs \<Longrightarrow> filter (\<lambda>y. f y = f x) xs = [x]"
proof (induction xs)
  case (Cons y ys)
  then show ?case by (auto simp: filter_empty_conv rev_image_eqI)
qed simp

lemma installOrder_cases:
  assumes "distinct (map sg_Rel (tx_installs t))"
  shows "installOrder t = tx_installs t \<and> tx_configRel t \<notin> sg_Rel ` set (tx_installs t) \<or>
    (\<exists>part\<in>set (tx_installs t). sg_Rel part = tx_configRel t \<and>
       installOrder t = filter (\<lambda>p. sg_Rel p \<noteq> tx_configRel t) (tx_installs t) @ [part])"
proof (cases "tx_configRel t \<in> sg_Rel ` set (tx_installs t)")
  case True
  then obtain part where part: "part \<in> set (tx_installs t)" "sg_Rel part = tx_configRel t" by auto
  with filter_key [OF assms part(1)] show ?thesis by (auto simp: installOrder_def)
next
  case False
  then have "filter (\<lambda>p. sg_Rel p = tx_configRel t) (tx_installs t) = []"
    "filter (\<lambda>p. sg_Rel p \<noteq> tx_configRel t) (tx_installs t) = tx_installs t"
    by (auto simp: filter_empty_conv filter_id_conv image_iff)
  with False show ?thesis by (simp add: installOrder_def)
qed

lemma installOrder_parts:
  assumes "parts_ok st (tx_installs t) s"
  shows "set (installOrder t) = set (tx_installs t)" "parts_ok st (installOrder t) s"
proof -
  let ?ps = "tx_installs t"
  have d: "distinct (map sg_Rel ?ps)" "distinct (map sg_tmp ?ps)" using assms by (simp_all add: parts_ok_def)
  from installOrder_cases [OF d(1)] show s: "set (installOrder t) = set ?ps"
    using d(1) by (auto simp: distinct_map) (metis inj_onD)
  have "distinct (installOrder t)"
    using installOrder_cases [OF d(1)] d(1) by (auto simp: distinct_map)
  with s d assms show "parts_ok st (installOrder t) s" by (simp add: parts_ok_def distinct_map)
qed

text \<open>What a write leaves, failed or not.\<close>

lemma Write_parts:
  assumes "Write env st t s = (s', t', errs)"
  obtains s1 ps e where "installAll env st (installOrder t) s = (s1, ps, e)"
    "e \<noteq> None \<and> s' = s1 \<and> errs \<noteq> [] \<or> e = None \<and> unlinkAll env st (tx_deletes t) s1 = (s', errs)"
proof -
  obtain s1 ps e where i: "installAll env st (installOrder t) s = (s1, ps, e)"
    by (cases "installAll env st (installOrder t) s") auto
  show thesis
  proof (rule that [OF i])
    show "e \<noteq> None \<and> s' = s1 \<and> errs \<noteq> [] \<or> e = None \<and> unlinkAll env st (tx_deletes t) s1 = (s', errs)"
      using assms i by (cases e) (auto simp: Write_def split: prod.splits)
  qed
qed

lemma Write_touches:
  assumes ok: "store_ok st" and parts: "parts_ok st (tx_installs t) s" and run: "Write env st t s = (s', t', errs)"
    and p: "p \<notin> paths_of st (sg_Rel ` set (tx_installs t)) \<union> scratch st"
  shows "node_at s' p = node_at s p \<or> p \<in> paths_of st (set (tx_deletes t)) \<and> node_at s' p = None"
proof -
  from Write_parts [OF run] obtain s1 ps e where i: "installAll env st (installOrder t) s = (s1, ps, e)"
    and d: "s' = s1 \<or> unlinkAll env st (tx_deletes t) s1 = (s', errs)" by blast
  have "node_at s1 p = node_at s p"
    using installAll_effect [OF ok installOrder_parts(2) [OF parts] i] installOrder_parts(1) [OF parts] onlyD p by metis
  with d unlinkAll_effect [of env st "tx_deletes t" s1 s' errs] show ?thesis by metis
qed

lemma Write_backed:
  assumes ok: "store_ok st" and parts: "parts_ok st (tx_installs t) s" and run: "Write env st t s = (s', t', errs)"
    and b: "backed env st lkg j s" and inst: "\<forall>part\<in>set (tx_installs t). Has j (sg_Rel part)"
    and del: "\<forall>rel\<in>set (tx_deletes t). protects st s j rel"
  shows "backed env st lkg j s'"
proof (rule backed_frame [OF ok b])
  show "only (journalled st j \<union> scratch st) s s'"
    unfolding only_def
  proof (intro allI impI)
    fix p assume p: "p \<notin> journalled st j \<union> scratch st"
    then have "p \<notin> paths_of st (sg_Rel ` set (tx_installs t)) \<union> scratch st"
      using inst by (auto simp: paths_of_def journalled_def)
    note Write_touches [OF ok parts run this]
    moreover have "node_at s p = None" if "p \<in> paths_of st (set (tx_deletes t))"
      using that del p by (auto simp: paths_of_def protects_def journalled_def)
    ultimately show "node_at s' p = node_at s p" by metis
  qed
qed

subsection \<open>Restoring\<close>

lemma restore_scratch:
  assumes ok: "store_ok st" and p: "Abs st rel = Inr p"
  shows "path_Join [path_Dir p, ''.haptic-restore-'' @ path_Base p] \<in> scratch st"
proof -
  from Abs_elements [OF ok p] obtain cs where cs: "cs \<noteq> []" "\<forall>c\<in>set cs. plain c" "p = rooted_at (base_elements st @ cs)" by blast
  have "path_Base p = last cs"
    using cs ok path_Base_rooted [of "base_elements st @ cs"] by (auto simp: store_ok_def)
  moreover have "plain (last cs)" using cs by simp
  ultimately show ?thesis
    by (intro sibling_scratch [OF ok p]) (auto simp: hidden_name_def HasPrefix_def plain_def)
qed

lemma restaged:
  assumes ok: "store_ok st" "Abs st rel = Inr p" and lkg: "good \<noteq> None" "node_at s b = good" "b \<in> backups st"
    and staging: "staging \<in> scratch st"
    and rm: "os_Remove env staging s = (s2, removed)" and ln: "os_Link env b staging s2 = (s3, linked)"
    and rn: "os_Rename env staging p s3 = (s4, moved)"
  shows "only {staging} s s2 \<and> only {staging} s s3 \<and> only {p, staging} s s4" "linked = None \<Longrightarrow> moved = None \<Longrightarrow> node_at s4 p = good"
    "healthy env s \<Longrightarrow> (removed = None \<or> removed = Some ErrNotExist) \<and> linked = None \<and> moved = None"
    "moved \<noteq> None \<Longrightarrow> only {staging} s s4"
proof -
  have ne: "b \<noteq> staging" "p \<noteq> staging" using lkg(3) staging scratch_backups [OF ok(1)] managed_visible [OF ok] by metis+
  have s2: "only {staging} s s2" by (rule writes_only(1) [OF rm])
  have s3: "only {staging} s s3" by (rule only_then [OF s2 writes_only(2) [OF ln]])
  show "only {staging} s s2 \<and> only {staging} s s3 \<and> only {p, staging} s s4"
    using s2 s3 only_trans [OF s3 writes_only(3) [OF rn]] by (simp add: insert_commute)
  show "node_at s4 p = good" if "linked = None" "moved = None"
    using that rm ln rn lkg ne by (auto simp: os_defs split: if_splits option.splits)
  show "(removed = None \<or> removed = Some ErrNotExist) \<and> linked = None \<and> moved = None" if "healthy env s"
    using that rm ln rn lkg ne by (auto simp: healthy_def os_defs split: if_splits option.splits)
  show "only {staging} s s4" if "moved \<noteq> None"
    using that s3 rn by (auto simp: os_defs only_def split: if_splits option.splits)
qed

lemma restoreEntry_effect:
  assumes ok: "store_ok st" and e: "entry_backed env st lkg s i e" and run: "restoreEntry env st e s = (s', err)"
  shows "only (paths_of st {en_Path e} \<union> scratch st) s s' \<and>
    (err = None \<longrightarrow> (\<exists>p. Abs st (en_Path e) = Inr p \<and> node_at s' p = lkg p)) \<and> (healthy env s \<longrightarrow> err = None)"
proof -
  from e obtain p where p: "Abs st (en_Path e) = Inr p" and kind: "en_Kind e = KindCreated \<Longrightarrow> lkg p = None"
    and entry: "en_Kind e \<noteq> KindCreated \<Longrightarrow> lkg p \<noteq> None \<and> en_Backup e \<in> backups st \<and> node_at s (en_Backup e) = lkg p"
    using backupPath_backups [OF ok] by (auto simp: entry_backed_def split: if_splits)
  have mine: "p \<in> paths_of st {en_Path e}" using p by (simp add: paths_of_def)
  show ?thesis
  proof (cases "en_Kind e = KindCreated")
    case True
    obtain s1 de where rm: "os_Remove env p s = (s1, de)" by fastforce
    have "only (paths_of st {en_Path e} \<union> scratch st) s s1" by (rule only_mono [OF writes_only(1) [OF rm]]) (simp add: mine)
    moreover have "node_at s1 p = lkg p" if "de = None \<or> de = Some ErrNotExist"
      using that rm kind [OF True] by (auto simp: os_defs split: if_splits)
    moreover have "de = None \<or> de = Some ErrNotExist" if "healthy env s"
      using that rm by (auto simp: os_defs healthy_def split: if_splits)
    ultimately show ?thesis using run True p rm by (auto simp: restoreEntry_def split: if_splits)
  next
    case False
    let ?staging = "path_Join [path_Dir p, ''.haptic-restore-'' @ path_Base p]"
    have staging: "?staging \<in> scratch st" by (rule restore_scratch [OF ok p])
    obtain s1 me where md: "os_MkdirAll env (path_Dir p) s = (s1, me)" by fastforce
    have same: "only {} s s1" by (rule reads_only(3) [OF md])
    have h: "healthy env s \<Longrightarrow> me = None \<and> healthy env s1" using md by (auto simp: os_defs healthy_def)
    obtain s2 re where rm: "os_Remove env ?staging s1 = (s2, re)" by fastforce
    obtain s3 le where ln: "os_Link env (en_Backup e) ?staging s2 = (s3, le)" by fastforce
    obtain s4 ne where rn: "os_Rename env ?staging p s3 = (s4, ne)" by fastforce
    note entry = entry [OF False]
    have kept: "node_at s1 (en_Backup e) = lkg p" using entry same by (simp add: only_def)
    note eff = restaged [OF ok p conjunct1 [OF entry] kept entry [THEN conjunct2, THEN conjunct1] staging rm ln rn]
    have frame: "only (paths_of st {en_Path e} \<union> scratch st) s u" if "only {p, ?staging} s1 u \<or> only {?staging} s1 u" for u
    proof -
      have "only {p, ?staging} s1 u" using that by (auto intro: only_mono)
      from only_mono [OF only_trans [OF same this], of "paths_of st {en_Path e} \<union> scratch st"] mine staging show ?thesis by simp
    qed
    have gone: "only {?staging} s1 (fst (os_Remove env ?staging s4))" if "ne \<noteq> None"
      by (rule only_then [OF eff(4) [OF that] Remove_only])
    consider "me \<noteq> None" | "me = None" "re \<noteq> None" "re \<noteq> Some ErrNotExist"
      | "me = None" "re = None \<or> re = Some ErrNotExist" "le \<noteq> None"
      | "me = None" "re = None \<or> re = Some ErrNotExist" "le = None" "ne \<noteq> None"
      | "me = None" "re = None \<or> re = Some ErrNotExist" "le = None" "ne = None" by (metis (full_types))
    then show ?thesis
    proof cases
      case 1
      then have "s' = s1" "err = me" using run False p md by (auto simp: restoreEntry_def)
      with 1 h only_mono [OF same, of "paths_of st {en_Path e} \<union> scratch st"] show ?thesis by auto
    next
      case 2
      then have "s' = s2" "err = re" using run False p md rm by (auto simp: restoreEntry_def Let_def)
      with 2 h eff frame show ?thesis by auto
    next
      case 3
      then have "s' = s3" "err = le" using run False p md rm ln by (auto simp: restoreEntry_def Let_def split: if_splits)
      with 3 h eff frame show ?thesis by auto
    next
      case 4
      then have "s' = fst (os_Remove env ?staging s4)" "err = ne"
        using run False p md rm ln rn by (auto simp: restoreEntry_def Let_def split: if_splits)
      with 4 h eff frame gone show ?thesis by auto
    next
      case 5
      then have "s' = s4" "err = None" using run False p md rm ln rn by (auto simp: restoreEntry_def Let_def split: if_splits)
      with 5 p eff frame show ?thesis by auto
    qed
  qed
qed

lemma healthy_restore: "healthy env s \<Longrightarrow> restoreEntry env st e s = (s', err) \<Longrightarrow> healthy env s'"
proof -
  assume h: "healthy env s" and run: "restoreEntry env st e s = (s', err)"
  have "fs_calls s \<le> fs_calls (fst (restoreEntry env st e s))"
    by (simp add: restoreEntry_def case_prod_beta Let_def fs_calls_os split: sum.split option.split)
  with h run show "healthy env s'" by (auto simp: healthy_def)
qed

lemma restoreEntries_effect:
  assumes ok: "store_ok st" and "\<forall>e\<in>set es. \<exists>i. entry_backed env st lkg s i e" and "distinct (map en_Path es)"
    and "restoreEntries env st es s = (s', errs)"
  shows "only (paths_of st (en_Path ` set es) \<union> scratch st) s s' \<and>
    (errs = [] \<longrightarrow> (\<forall>e\<in>set es. \<exists>p. Abs st (en_Path e) = Inr p \<and> node_at s' p = lkg p)) \<and> (healthy env s \<longrightarrow> errs = [])"
  using assms(2-4)
proof (induction es arbitrary: s errs)
  case Nil
  then show ?case by simp
next
  case (Cons e es)
  obtain s1 err where step: "restoreEntry env st e s = (s1, err)" by fastforce
  obtain errs2 where rest: "restoreEntries env st es s1 = (s', errs2)"
    and errs: "errs = (case err of None \<Rightarrow> [] | Some x \<Rightarrow> [x]) @ errs2"
    using Cons.prems(3) step by (auto split: prod.splits)
  from Cons.prems(1) obtain i where "entry_backed env st lkg s i e" by auto
  note one = restoreEntry_effect [OF ok this step]
  have "(paths_of st {en_Path e} \<union> scratch st) \<inter> backups st = {}"
    using managed_visible [OF ok] scratch_backups [OF ok] by (auto simp: paths_of_def)
  then have "\<forall>e\<in>set es. \<exists>i. entry_backed env st lkg s1 i e"
    using Cons.prems(1) entry_frame [OF ok _ one [THEN conjunct1]] by (metis list.set_intros(2))
  note ih = Cons.IH [OF this _ rest]
  have d: "distinct (map en_Path es)" "en_Path e \<notin> en_Path ` set es" using Cons.prems(2) by auto
  have "only (paths_of st (en_Path ` set (e # es)) \<union> scratch st) s s'"
    by (rule only_mono [OF only_trans [OF one [THEN conjunct1] ih [OF d(1), THEN conjunct1]]]) (auto simp: paths_of_def)
  moreover have "\<exists>p. Abs st (en_Path e) = Inr p \<and> node_at s' p = lkg p" if "err = None"
  proof -
    from one that obtain p where p: "Abs st (en_Path e) = Inr p" "node_at s1 p = lkg p" by blast
    have "p \<notin> paths_of st (en_Path ` set es) \<union> scratch st" using d paths_of_iff [OF ok p(1)] managed_visible [OF ok p(1)] by simp
    with onlyD [OF ih [OF d(1), THEN conjunct1]] p show ?thesis by auto
  qed
  moreover have "healthy env s \<longrightarrow> errs = []" using one ih [OF d(1)] healthy_restore [OF _ step] errs by auto
  ultimately show ?case using ih [OF d(1)] errs by (auto split: option.splits)
qed

lemma restoreOrder_set:
  assumes "distinct (map en_Path j)"
  shows "set (restoreOrder config j) = set j \<and> distinct (map en_Path (restoreOrder config j))"
proof (cases "config \<in> en_Path ` set j")
  case True
  then obtain e where e: "e \<in> set j" "en_Path e = config" by auto
  with filter_key [OF assms e(1)] have order: "restoreOrder config j = filter (\<lambda>e. en_Path e \<noteq> config) j @ [e]"
    by (simp add: restoreOrder_def)
  have "set (restoreOrder config j) = set j" using order e assms by (auto simp: distinct_map) (metis inj_onD)
  moreover have "distinct (restoreOrder config j)" using assms e by (auto simp: order distinct_map)
  ultimately show ?thesis using assms by (simp add: distinct_map)
next
  case False
  then have "filter (\<lambda>e. en_Path e = config) j = []" "filter (\<lambda>e. en_Path e \<noteq> config) j = j"
    by (auto simp: filter_empty_conv filter_id_conv image_iff)
  with assms show ?thesis by (simp add: restoreOrder_def)
qed

lemma Restore_effect:
  assumes ok: "store_ok st" and b: "backed env st lkg j s" and run: "Restore env st j config s = (s', errs)"
  shows "backed env st lkg j s'" "healthy env s \<Longrightarrow> errs = []" "errs = [] \<Longrightarrow> Abs st rel = Inr p \<Longrightarrow> node_at s' p = lkg p"
proof -
  have d: "distinct (map en_Path j)" using b by (simp add: backed_def)
  note order = restoreOrder_set [OF d, of config]
  have "\<forall>e\<in>set (restoreOrder config j). \<exists>i. entry_backed env st lkg s i e" using order backed_entry [OF b] by blast
  note eff = restoreEntries_effect [OF ok this _ run [unfolded Restore_def]]
  with order have only: "only (paths_of st (en_Path ` set j) \<union> scratch st) s s'" and healthy: "healthy env s \<Longrightarrow> errs = []"
    and kept: "errs = [] \<Longrightarrow> \<forall>e\<in>set j. \<exists>p. Abs st (en_Path e) = Inr p \<and> node_at s' p = lkg p" by auto
  have "paths_of st (en_Path ` set j) = journalled st j" by (auto simp: paths_of_def journalled_def Has_iff)
  with backed_frame [OF ok b] only show "backed env st lkg j s'" by simp
  show "healthy env s \<Longrightarrow> errs = []" by (rule healthy)
  show "node_at s' p = lkg p" if "errs = []" "Abs st rel = Inr p"
  proof (cases "Has j rel")
    case True
    with kept [OF that(1)] that(2) show ?thesis by (auto simp: Has_iff)
  next
    case False
    with \<open>backed env st lkg j s'\<close> that(2) show ?thesis by (auto simp: backed_def)
  qed
qed

end
