(* ===== verification/Agent_Tree.thy ===== *)
theory Agent_Tree
  imports Agent_Rollback
begin

section \<open>The agent's tree between two promotions of the last known good set\<close>

text \<open>
  What the apply path does to the tree since its journal was last cleared: it stages parts, backs up and
  writes transactions that may stop at any failed call, discards parts and restores, in any order. The
  journal invariant holds throughout, so a restore always leads back to the tree at the clearing.
\<close>

inductive tree_step :: "files_env \<Rightarrow> Store \<Rightarrow> fsys \<times> Journal \<Rightarrow> fsys \<times> Journal \<Rightarrow> bool" for env st where
  staged: "stage env st rel digest sz fill s = (s', r) \<Longrightarrow> tree_step env st (s, j) (s', j)"
| backed_up: "Backup env st t j s = (s', j', Some e) \<Longrightarrow> tree_step env st (s, j) (s', j')"
| written: "parts_ok st (tx_installs t) s \<Longrightarrow> Backup env st t j s = (s1, j', None) \<Longrightarrow> Write env st t s1 = (s', t', errs) \<Longrightarrow>
    tree_step env st (s, j) (s', j')"
| discarded: "sg_tmp part \<in> scratch st \<Longrightarrow> Discard env part s = (s', part') \<Longrightarrow> tree_step env st (s, j) (s', j)"
| restored: "Restore env st j config s = (s', errs) \<Longrightarrow> tree_step env st (s, j) (s', j)"

lemma parts_ok_frame:
  assumes "store_ok st" "parts_ok st ps s" "only (backups st) s s'"
  shows "parts_ok st ps s'"
proof -
  have "node_at s' (sg_tmp part) = node_at s (sg_tmp part)" if "part \<in> set ps" for part
    using that assms(2) scratch_backups [OF assms(1)] onlyD [OF assms(3)] by (auto simp: parts_ok_def)
  with assms(2) show ?thesis by (simp add: parts_ok_def)
qed

lemma tree_step_backed:
  assumes ok: "store_ok st" and "tree_step env st c c'" and "backed env st lkg (snd c) (fst c)"
  shows "backed env st lkg (snd c') (fst c')"
  using assms(2,3)
proof (cases rule: tree_step.cases)
  case (staged rel digest sz fill s s' r j)
  have "only (journalled st j \<union> scratch st) s s'"
    by (rule only_mono [OF stage_verified [OF ok staged(3), THEN conjunct1]]) blast
  with backed_frame [OF ok _ this] staged assms(3) show ?thesis by simp
next
  case (backed_up t j s s' j' e)
  with Backup_effect [OF ok _ backed_up(3)] assms(3) show ?thesis by (simp add: backs_up_def)
next
  case (written t s j s1 j' s' t' errs)
  from written(1) assms(3) have "backed env st lkg j s" by simp
  note eff = Backup_effect [OF ok this written(4)]
  then have b: "backed env st lkg j' s1" "only (backups st) s s1" by (auto simp: backs_up_def)
  from eff Write_backed [OF ok parts_ok_frame [OF ok written(3) b(2)] written(5) b(1)] show ?thesis using written(2) by simp
next
  case (discarded part s s' part' j)
  have "only (journalled st j \<union> scratch st) s s'"
    using discarded(3,4) only_mono [OF Remove_only [of "sg_tmp part" s env], of "journalled st j \<union> scratch st"]
    by (auto simp: Discard_def split: if_splits)
  with backed_frame [OF ok _ this] discarded assms(3) show ?thesis by simp
next
  case (restored j config s s' errs)
  with Restore_effect(1) [OF ok _ restored(3)] assms(3) show ?thesis by simp
qed

interpretation since_good: monitored_run "\<lambda>_::unit. tree_step env st" "\<lambda>_. True"
  "\<lambda>c. store_ok st \<and> backed env st lkg (snd c) (fst c)" "\<lambda>_ _. True" for env st lkg
  by unfold_locales (auto intro: tree_step_backed)

lemma backed_start: "backed env st (node_at s) [] s"
  by (simp add: backed_def Has_iff)

text \<open>A small tree, and an environment in which no call fails.\<close>

definition sampleStore :: Store where
  "sampleStore = \<lparr>st_baseDir = ''/b'', st_mounts = [''/b''], st_reserved = []\<rparr>"

definition sampleFiles :: "(nat \<Rightarrow> bool) \<Rightarrow> files_env" where
  "sampleFiles fault = \<lparr>fe_fault = fault, fe_partial = \<lambda>_. 0, fe_suffix = \<lambda>n. n, fe_crossDevice = \<lambda>_ _. False,
     fe_sum64 = \<lambda>_. 0, fe_sha256 = \<lambda>s. s, fe_UID = 0, fe_GID = 0\<rparr>"

definition sampleDisk :: fsys where
  "sampleDisk = \<lparr>fs_nodes = [(''/b/a'', Regular ''old'' \<lparr>fm_Mode = 0x1A4, fm_UID = 0, fm_GID = 0\<rparr>)], fs_calls = 0, fs_crossDeviceCopy = 0\<rparr>"

lemma sample_store_ok: "store_ok sampleStore"
  by (auto simp: store_ok_def base_elements_def sampleStore_def rooted_at_def plain_def intro: exI [of _ "[]"])

definition calmDisk :: files_env where "calmDisk = sampleFiles (\<lambda>_. False)"
definition sampleStaged :: "fsys \<times> (fs_error + Staged)" where
  "sampleStaged = stage calmDisk sampleStore ''a'' (FormatDigest 0) 3 (Inr ''new'') sampleDisk"
definition sampleTx :: Transaction where "sampleTx = InstallPart (projr (snd sampleStaged)) (Begin ''a'')"
definition sampleBackup :: "fsys \<times> Journal \<times> fs_error option" where
  "sampleBackup = Backup calmDisk sampleStore sampleTx [] (fst sampleStaged)"
definition sampleWrite :: "fsys \<times> Transaction \<times> fs_error list" where
  "sampleWrite = Write calmDisk sampleStore sampleTx (fst sampleBackup)"

lemma sample_parts: "parts_ok sampleStore (tx_installs sampleTx) (fst sampleStaged)"
proof -
  have "sampleStaged = (fst sampleStaged, Inr (projr (snd sampleStaged)))" by code_simp
  from stage_verified [OF sample_store_ok this [unfolded sampleStaged_def]] show ?thesis
    by (auto simp: parts_ok_def sampleTx_def InstallPart_def Begin_def sampleStaged_def)
qed

text \<open>
  C10. Whatever was staged, backed up, written, discarded and restored since the journal was last empty,
  and whichever of the system calls failed on the way, a restore that reports no error leaves every
  managed path exactly as it was then, and once no call fails any more a restore reports none.
\<close>

theorem rollback_restores_last_good:
  assumes "store_ok st" and "run_of (\<lambda>_::unit. tree_step env st) (\<lambda>_. True) (s0, []) (s, j)"
    and "Restore env st j config s = (s', errs)"
  shows "(errs = [] \<longrightarrow> (\<forall>rel p. Abs st rel = Inr p \<longrightarrow> node_at s' p = node_at s0 p)) \<and> (healthy env s \<longrightarrow> errs = [])"
proof -
  from since_good.run [OF assms(2), of "node_at s0"] assms(1) backed_start
  have "backed env st (node_at s0) j s" by simp
  from Restore_effect [OF assms(1) this assms(3)] show ?thesis by blast
qed

theorem rollback_restores_last_good_witness:
  "content_of (node_at (fst sampleWrite) ''/b/a'') = Some ''new'' \<and>
   snd (Restore calmDisk sampleStore (fst (snd sampleBackup)) ''a'' (fst sampleWrite)) = [] \<and>
   node_at (fst (Restore calmDisk sampleStore (fst (snd sampleBackup)) ''a'' (fst sampleWrite))) ''/b/a'' = node_at sampleDisk ''/b/a''"
proof -
  let ?j = "fst (snd sampleBackup)" and ?s = "fst sampleWrite"
  have "stage calmDisk sampleStore ''a'' (FormatDigest 0) 3 (Inr ''new'') sampleDisk = (fst sampleStaged, snd sampleStaged)"
    by (simp add: sampleStaged_def)
  then have "tree_step calmDisk sampleStore (sampleDisk, []) (fst sampleStaged, [])" by (rule tree_step.staged)
  moreover have "snd (snd sampleBackup) = None" by code_simp
  then have "Backup calmDisk sampleStore sampleTx [] (fst sampleStaged) = (fst sampleBackup, ?j, None)"
    by (metis prod.collapse sampleBackup_def)
  then have "tree_step calmDisk sampleStore (fst sampleStaged, []) (?s, ?j)"
    by (rule tree_step.written [OF sample_parts, of _ _ _ _ _ "fst (snd sampleWrite)" "snd (snd sampleWrite)"])
      (simp add: sampleWrite_def)
  ultimately have run: "run_of (\<lambda>_::unit. tree_step calmDisk sampleStore) (\<lambda>_. True) (sampleDisk, []) (?s, ?j)"
    by (metis run_of_refl run_of_step)
  have "Restore calmDisk sampleStore ?j ''a'' ?s = (fst (Restore calmDisk sampleStore ?j ''a'' ?s), snd (Restore calmDisk sampleStore ?j ''a'' ?s))"
    by simp
  note rollback_restores_last_good [OF sample_store_ok run this]
  moreover have "healthy calmDisk ?s" by (simp add: healthy_def calmDisk_def sampleFiles_def)
  moreover have "Abs sampleStore ''a'' = Inr ''/b/a''" by code_simp
  moreover have "content_of (node_at ?s ''/b/a'') = Some ''new''" by code_simp
  ultimately show ?thesis by blast
qed

text \<open>
  A write that reports no error installs every part with its verified bytes and drops every deleted
  path; whether it fails or not it changes no other managed path, and it never leaves a new configuration
  file before every other part is in place.
\<close>

theorem Write_installs:
  assumes ok: "store_ok st" and parts: "parts_ok st (tx_installs t) s" and run: "Write env st t s = (s', t', errs)"
    and apart: "set (tx_deletes t) \<inter> sg_Rel ` set (tx_installs t) = {}"
  shows "(errs = [] \<longrightarrow> (\<forall>part\<in>set (tx_installs t). installed st s s' part) \<and>
      (\<forall>rel\<in>set (tx_deletes t). \<exists>p. Abs st rel = Inr p \<and> node_at s' p = None)) \<and>
    (\<forall>rel p. Abs st rel = Inr p \<and> rel \<notin> set (tx_deletes t) \<union> sg_Rel ` set (tx_installs t) \<longrightarrow> node_at s' p = node_at s p) \<and>
    (\<forall>p. Abs st (tx_configRel t) = Inr p \<and> tx_configRel t \<notin> set (tx_deletes t) \<and> node_at s' p \<noteq> node_at s p \<longrightarrow>
       (\<forall>part\<in>set (tx_installs t). sg_Rel part = tx_configRel t \<or> installed st s s' part))"
proof -
  from Write_parts [OF run] obtain s1 ps e where i: "installAll env st (installOrder t) s = (s1, ps, e)"
    and d: "e \<noteq> None \<and> s' = s1 \<and> errs \<noteq> [] \<or> e = None \<and> unlinkAll env st (tx_deletes t) s1 = (s', errs)" by blast
  note order = installOrder_parts [OF parts] and eff = installAll_effect [OF ok installOrder_parts(2) [OF parts] i]
  have same: "node_at s' p = node_at s1 p" if "Abs st rel = Inr p" "rel \<notin> set (tx_deletes t)" for rel p
    using d unlinkAll_effect [of env st "tx_deletes t" s1 s' errs] paths_of_iff [OF ok that(1)] that(2) by blast
  have keep: "installed st s s1 part \<Longrightarrow> installed st s s' part" if "part \<in> set (tx_installs t)" for part
  proof -
    have "sg_Rel part \<notin> set (tx_deletes t)" using that apart by blast
    then show "installed st s s1 part \<Longrightarrow> installed st s s' part" using same [of "sg_Rel part"] by (auto simp: installed_def)
  qed
  have other: "node_at s' p = node_at s p"
    if "Abs st rel = Inr p" "rel \<notin> set (tx_deletes t) \<union> sg_Rel ` set (tx_installs t)" for rel p
    using Write_touches [OF ok parts run, of p] paths_of_iff [OF ok that(1)] managed_visible [OF ok that(1)] that(2) by auto
  have config: "\<forall>part\<in>set (tx_installs t). sg_Rel part = tx_configRel t \<or> installed st s s' part"
    if p: "Abs st (tx_configRel t) = Inr p" "tx_configRel t \<notin> set (tx_deletes t)" "node_at s' p \<noteq> node_at s p" for p
  proof -
    have "tx_configRel t \<in> sg_Rel ` set (tx_installs t)" using other [OF p(1)] p(2,3) by blast
    then obtain c where c: "sg_Rel c = tx_configRel t"
      "installOrder t = filter (\<lambda>q. sg_Rel q \<noteq> tx_configRel t) (tx_installs t) @ [c]"
      using installOrder_cases [of t] parts by (auto simp: parts_ok_def)
    have "node_at s1 p \<noteq> node_at s p" using same [OF p(1,2)] p(3) by simp
    with eff c p(1) have "\<forall>part\<in>set (butlast (installOrder t)). installed st s s1 part" by auto
    with c keep show ?thesis by auto
  qed
  have "\<forall>part\<in>set (tx_installs t). installed st s s' part" if "errs = []" using eff order d keep that by auto
  moreover have "\<forall>rel\<in>set (tx_deletes t). \<exists>p. Abs st rel = Inr p \<and> node_at s' p = None" if "errs = []"
    using d that unlinkAll_effect [of env st "tx_deletes t" s1 s' errs] by blast
  ultimately show ?thesis using other config by blast
qed

theorem Write_installs_witness:
  "snd (snd sampleWrite) = [] \<and> list_all (installed sampleStore (fst sampleBackup) (fst sampleWrite)) (tx_installs sampleTx)"
proof -
  have "Backup calmDisk sampleStore sampleTx [] (fst sampleStaged) = (fst sampleBackup, fst (snd sampleBackup), snd (snd sampleBackup))"
    by (simp add: sampleBackup_def)
  from Backup_effect [OF sample_store_ok backed_start this] have "only (backups sampleStore) (fst sampleStaged) (fst sampleBackup)"
    by (simp add: backs_up_def)
  note parts = parts_ok_frame [OF sample_store_ok sample_parts this]
  have "Write calmDisk sampleStore sampleTx (fst sampleBackup) = (fst sampleWrite, fst (snd sampleWrite), snd (snd sampleWrite))"
    by (simp add: sampleWrite_def)
  note Write_installs [OF sample_store_ok parts this]
  moreover have "snd (snd sampleWrite) = []" by code_simp
  moreover have "tx_deletes sampleTx = []" by code_simp
  ultimately show ?thesis by (simp add: list_all_iff)
qed

end
