(* ===== verification/Runtime_Program.thy ===== *)
theory Runtime_Program
  imports Agent_Api Agent_Files_Laws Map_Entries
begin

section \<open>Operations as HAProxy runtime commands\<close>

text \<open>
  \<open>src/pkg/dataplane/agent/cli/{tokens,program,program_files}.go\<close>: the agent turns every typed
  operation into a program of runtime command lines, with the payload a command carries, the answer it
  expects and the cleanup of a failure. \<open>compilers\<close> is the table of the source under the wire names of
  the kinds. An error keeps which check refused, not its message. \<open>Content\<close>, which reads a managed file,
  is an argument.
\<close>

subsection \<open>Limits and checks\<close>

definition MaxCommandLineBytes :: nat where "MaxCommandLineBytes = 12 * 1024"
definition MaxPayloadBytes :: nat where "MaxPayloadBytes = 12 * 1024"
definition MaxWaitBudgetMs :: int where "MaxWaitBudgetMs = 30000"

datatype cli_error = ErrUnknownOp | ErrUnsafeToken | LineTooLong | PayloadTooLong | ErrContent fs_error

definition validateToken :: "string \<Rightarrow> cli_error option" where
  "validateToken s = (if s = '''' then Some ErrUnsafeToken else if \<not> SafeToken s then Some ErrUnsafeToken else None)"

definition validatePayloadValue :: "string \<Rightarrow> cli_error option" where
  "validatePayloadValue s = (if \<not> SafePayloadValue s then Some ErrUnsafeToken else None)"

definition PayloadTerminator :: string where "PayloadTerminator = ''HAPTIC''"

text \<open>\<open>strings.TrimRight(line, "\r")\<close>.\<close>

definition trimCR :: "string \<Rightarrow> string" where
  "trimCR line = rev (dropWhile (\<lambda>c. c = CHR 0x0D) (rev line))"

definition validatePayloadBlock :: "string \<Rightarrow> cli_error option" where
  "validatePayloadBlock payload =
     (if list_ex (\<lambda>line. trimCR line = PayloadTerminator) (SplitLines payload) then Some ErrUnsafeToken else None)"

definition validateEnum :: "string \<Rightarrow> string list \<Rightarrow> cli_error option" where
  "validateEnum s allowed = (if list_ex (\<lambda>a. s = a) allowed then None else Some ErrUnsafeToken)"

text \<open>\<open>errors.Join\<close>: no error when every argument is nil. The joined errors here all wrap the same one.\<close>

fun errors_Join :: "'e option list \<Rightarrow> 'e option" where
  "errors_Join [] = None"
| "errors_Join (e # es) = (case e of Some x \<Rightarrow> Some x | None \<Rightarrow> errors_Join es)"

subsection \<open>Programs\<close>

definition VersionPlaceholder :: string where
  "VersionPlaceholder = [CHR 0x01] @ ''ver'' @ [CHR 0x01]"

definition expectDone :: string where "expectDone = ''Done''"

record Command =
  cm_Text :: string
  cm_Payload :: string
  cm_Expect :: string
  cm_Capture :: bool
  cm_Repeat :: bool
  cm_Optional :: bool

definition mkCommand :: "string \<Rightarrow> Command" where
  "mkCommand text = \<lparr>cm_Text = text, cm_Payload = '''', cm_Expect = '''', cm_Capture = False,
     cm_Repeat = False, cm_Optional = False\<rparr>"

record Program =
  pr_Kind :: string
  pr_Commands :: "Command list"
  pr_Abort :: "Command list"

type_synonym Content = "string \<Rightarrow> fs_error + string"
type_synonym compiler = "Op \<Rightarrow> Content \<Rightarrow> cli_error + Command list \<times> Command list"

definition guarded :: "cli_error option \<Rightarrow> (cli_error + 'a) \<Rightarrow> cli_error + 'a" where
  "guarded e r = (case e of Some x \<Rightarrow> Inl x | None \<Rightarrow> r)"

definition serverRef :: "Op \<Rightarrow> cli_error + string" where
  "serverRef op = guarded (errors_Join [validateToken (op_Backend op), validateToken (op_Server op)])
     (Inr (op_Backend op @ ''/'' @ op_Server op))"

definition waitMs :: "int \<Rightarrow> cli_error + int" where
  "waitMs ms = (if ms \<le> 0 \<or> ms > MaxWaitBudgetMs then Inl ErrUnsafeToken else Inr ms)"

definition withRef :: "Op \<Rightarrow> (string \<Rightarrow> cli_error + 'a) \<Rightarrow> cli_error + 'a" where
  "withRef op k = (case serverRef op of Inl e \<Rightarrow> Inl e | Inr ref \<Rightarrow> k ref)"

definition compileBackendAdd :: compiler where
  "compileBackendAdd op content =
     guarded (errors_Join [validateToken (op_Backend op), validateToken (op_Profile op), validateEnum (op_Mode op) [''http'', ''tcp'']])
       (let text = ''add backend '' @ op_Backend op @ '' from '' @ op_Profile op @ '' mode '' @ op_Mode op in
        if op_GUID op \<noteq> '''' then
          guarded (validateToken (op_GUID op))
            (Inr ([mkCommand (text @ '' guid '' @ op_GUID op)\<lparr>cm_Expect := ''New backend registered''\<rparr>], []))
        else Inr ([mkCommand text\<lparr>cm_Expect := ''New backend registered''\<rparr>], []))"

definition compileBackendVerb :: "string \<Rightarrow> string \<Rightarrow> compiler" where
  "compileBackendVerb verb expect op content =
     guarded (validateToken (op_Backend op)) (Inr ([mkCommand (verb @ '' '' @ op_Backend op)\<lparr>cm_Expect := expect\<rparr>], []))"

definition compileServerVerb :: "string \<Rightarrow> string \<Rightarrow> compiler" where
  "compileServerVerb verb expect op content =
     withRef op (\<lambda>ref. Inr ([mkCommand (verb @ '' '' @ ref)\<lparr>cm_Expect := expect\<rparr>], []))"

definition compileWaitBackend :: compiler where
  "compileWaitBackend op content =
     guarded (validateToken (op_Backend op))
       (case waitMs (op_TimeoutMs op) of
          Inl e \<Rightarrow> Inl e
        | Inr ms \<Rightarrow> Inr ([mkCommand (''wait '' @ Itoa ms @ '' be-removable '' @ op_Backend op)\<lparr>cm_Expect := expectDone\<rparr>], []))"

definition compileWaitServer :: compiler where
  "compileWaitServer op content =
     withRef op (\<lambda>ref. case waitMs (op_TimeoutMs op) of
          Inl e \<Rightarrow> Inl e
        | Inr ms \<Rightarrow> Inr ([mkCommand (''wait '' @ Itoa ms @ '' srv-removable '' @ ref)\<lparr>cm_Expect := expectDone\<rparr>], []))"

text \<open>\<open>writeKeyword\<close> appends to the builder, which is the accumulated text; \<open>writeArgs\<close> is its loop.\<close>

fun writeArgs :: "string list \<Rightarrow> string \<Rightarrow> cli_error + string" where
  "writeArgs [] b = Inr b"
| "writeArgs (arg # args) b = guarded (validateToken arg) (writeArgs args (b @ '' '' @ arg))"

definition writeKeyword :: "ApiKeywordArg \<Rightarrow> string \<Rightarrow> cli_error + string" where
  "writeKeyword kw b = guarded (validateToken (akw_Name kw)) (writeArgs (akw_Args kw) (b @ '' '' @ akw_Name kw))"

fun writeKeywords :: "ApiKeywordArg list \<Rightarrow> string \<Rightarrow> cli_error + string" where
  "writeKeywords [] b = Inr b"
| "writeKeywords (kw # kws) b = (case writeKeyword kw b of Inl e \<Rightarrow> Inl e | Inr b' \<Rightarrow> writeKeywords kws b')"

definition compileServerAdd :: compiler where
  "compileServerAdd op content =
     withRef op (\<lambda>ref. guarded (validateToken (op_Address op))
       (case writeKeywords (op_Keywords op)
               (''add server '' @ ref @ '' '' @ op_Address op @ (if op_Port op > 0 then '':'' @ Itoa (op_Port op) else '''')) of
          Inl e \<Rightarrow> Inl e
        | Inr text \<Rightarrow> Inr ([mkCommand text\<lparr>cm_Expect := ''New server registered''\<rparr>], [])))"

definition compileServerEnable :: compiler where
  "compileServerEnable op content =
     withRef op (\<lambda>ref. Inr ((if op_Health op then [mkCommand (''enable health '' @ ref)] else []) @
       [mkCommand (''enable server '' @ ref)], []))"

definition compileServerSetAddr :: compiler where
  "compileServerSetAddr op content =
     withRef op (\<lambda>ref. guarded (validateToken (op_Address op))
       (Inr ([mkCommand (''set server '' @ ref @ '' addr '' @ op_Address op @
          (if op_Port op > 0 then '' port '' @ Itoa (op_Port op) else ''''))\<lparr>cm_Expect := ''chang''\<rparr>], [])))"

definition compileServerSetWeight :: compiler where
  "compileServerSetWeight op content =
     withRef op (\<lambda>ref. case op_Weight op of
          None \<Rightarrow> Inl ErrUnsafeToken
        | Some w \<Rightarrow> Inr ([mkCommand (''set server '' @ ref @ '' weight '' @ Itoa w)], []))"

definition compileServerSetState :: compiler where
  "compileServerSetState op content =
     withRef op (\<lambda>ref. guarded (validateEnum (op_State op) [''ready'', ''maint'', ''drain''])
       (Inr ([mkCommand (''set server '' @ ref @ '' state '' @ op_State op)], [])))"

subsection \<open>Programs that carry files (\<open>program_files.go\<close>)\<close>

definition compileMapAdd :: compiler where
  "compileMapAdd op content =
     guarded (errors_Join [validateToken (op_Path op), validateToken (op_Key op), validatePayloadValue (op_Value op)])
       (Inr ([mkCommand (''add map '' @ op_Path op)\<lparr>cm_Payload := op_Key op @ '' '' @ op_Value op @ [newline]\<rparr>], []))"

definition compileMapSet :: compiler where
  "compileMapSet op content =
     guarded (errors_Join [validateToken (op_Path op), validateToken (op_Key op), validateToken (op_Value op)])
       (Inr ([mkCommand (''set map '' @ op_Path op @ '' '' @ op_Key op @ '' '' @ op_Value op)], []))"

definition compileMapDel :: compiler where
  "compileMapDel op content =
     guarded (errors_Join [validateToken (op_Path op), validateToken (op_Key op)])
       (Inr ([mkCommand (''del map '' @ op_Path op @ '' '' @ op_Key op)\<lparr>cm_Repeat := True\<rparr>], []))"

definition mapPayload :: "string \<Rightarrow> string" where
  "mapPayload body =
     concat (map (\<lambda>e. ent_Key e @ (if ent_Value e \<noteq> '''' then '' '' @ ent_Value e else '''') @ [newline])
       (case ParseMapEntries body of None \<Rightarrow> [] | Some entries \<Rightarrow> entries))"

text \<open>\<open>strings.SplitAfter(body, "\n")\<close>.\<close>

fun SplitAfterLines :: "string \<Rightarrow> string list" where
  "SplitAfterLines [] = [[]]"
| "SplitAfterLines (c # s) =
     (if c = newline then [c] # SplitAfterLines s
      else case SplitAfterLines s of [] \<Rightarrow> [[c]] | l # ls \<Rightarrow> (c # l) # ls)"

fun chunkLoop :: "nat \<Rightarrow> string list \<Rightarrow> string list \<Rightarrow> string \<Rightarrow> cli_error + string list" where
  "chunkLoop limit [] chunks current = Inr (if length current > 0 then chunks @ [current] else chunks)"
| "chunkLoop limit (line # rest) chunks current =
     (if line = '''' then chunkLoop limit rest chunks current
      else let line' = (if last line = newline then line else line @ [newline]) in
        if length line' > limit then Inl ErrUnsafeToken
        else if length current + length line' > limit then chunkLoop limit rest (chunks @ [current]) line'
        else chunkLoop limit rest chunks (current @ line'))"

definition chunkLines :: "string \<Rightarrow> nat \<Rightarrow> cli_error + string list" where
  "chunkLines body limit = chunkLoop limit (SplitAfterLines body) [] ''''"

definition withContent :: "Content \<Rightarrow> string \<Rightarrow> (string \<Rightarrow> cli_error + 'a) \<Rightarrow> cli_error + 'a" where
  "withContent content path k = (case content path of Inl e \<Rightarrow> Inl (ErrContent e) | Inr body \<Rightarrow> k body)"

definition compileMapReplace :: compiler where
  "compileMapReplace op content =
     guarded (validateToken (op_Path op))
       (withContent content (op_Path op) (\<lambda>body.
          case chunkLines (mapPayload body) MaxPayloadBytes of
            Inl e \<Rightarrow> Inl e
          | Inr chunks \<Rightarrow>
              Inr ([mkCommand (''prepare map '' @ op_Path op)\<lparr>cm_Expect := ''version created'', cm_Capture := True\<rparr>] @
                map (\<lambda>chunk. mkCommand (''add map @'' @ VersionPlaceholder @ '' '' @ op_Path op)\<lparr>cm_Payload := chunk\<rparr>) chunks @
                [mkCommand (''commit map @'' @ VersionPlaceholder @ '' '' @ op_Path op)], [])))"

definition compileCert :: "bool \<Rightarrow> compiler" where
  "compileCert create op content =
     guarded (validateToken (op_Path op))
       (withContent content (op_Path op) (\<lambda>pem.
          Inr ((if create then [mkCommand (''new ssl cert '' @ op_Path op)\<lparr>cm_Expect := ''New empty certificate store''\<rparr>] else []) @
            [mkCommand (''set ssl cert '' @ op_Path op)\<lparr>cm_Payload := pem, cm_Expect := ''transaction''\<rparr>,
             mkCommand (''commit ssl cert '' @ op_Path op)\<lparr>cm_Expect := ''Success!''\<rparr>],
            [mkCommand (''abort ssl cert '' @ op_Path op)])))"

definition compileCA :: "bool \<Rightarrow> compiler" where
  "compileCA create op content =
     guarded (validateToken (op_Path op))
       (withContent content (op_Path op) (\<lambda>pem.
          Inr ((if create then [mkCommand (''new ssl ca-file '' @ op_Path op)\<lparr>cm_Expect := ''New CA file created''\<rparr>] else []) @
            [mkCommand (''set ssl ca-file '' @ op_Path op)\<lparr>cm_Payload := pem, cm_Expect := ''transaction''\<rparr>,
             mkCommand (''commit ssl ca-file '' @ op_Path op)\<lparr>cm_Expect := ''Success!''\<rparr>],
            [mkCommand (''abort ssl ca-file '' @ op_Path op)])))"

text \<open>The options of a crt-list entry, separated by blanks, and its SNI filters.\<close>

fun writeOptions :: "bool \<Rightarrow> ApiKeywordArg list \<Rightarrow> string \<Rightarrow> cli_error + string" where
  "writeOptions first [] b = Inr b"
| "writeOptions first (kw # kws) b =
     guarded (validateToken (akw_Name kw))
       (case writeArgs (akw_Args kw) (b @ (if first then '''' else '' '') @ akw_Name kw) of
          Inl e \<Rightarrow> Inl e
        | Inr b' \<Rightarrow> writeOptions False kws b')"

definition crtListEntry :: "Op \<Rightarrow> cli_error + string" where
  "crtListEntry op =
     (case (if length (op_Options op) > 0
            then (case writeOptions True (op_Options op) (op_Cert op @ '' ['') of Inl e \<Rightarrow> Inl e | Inr b \<Rightarrow> Inr (b @ '']''))
            else Inr (op_Cert op)) of
        Inl e \<Rightarrow> Inl e
      | Inr b \<Rightarrow> writeArgs (op_SNIFilters op) b)"

definition compileCRTListAdd :: compiler where
  "compileCRTListAdd op content =
     guarded (errors_Join [validateToken (op_Path op), validateToken (op_Cert op)])
       (case crtListEntry op of
          Inl e \<Rightarrow> Inl e
        | Inr entry \<Rightarrow>
            Inr ([mkCommand (''add ssl crt-list '' @ op_Path op)\<lparr>cm_Payload := entry @ [newline], cm_Expect := ''Success''\<rparr>], []))"

definition compileCRTListDel :: compiler where
  "compileCRTListDel op content =
     guarded (errors_Join [validateToken (op_Path op), validateToken (op_Cert op)])
       (Inr ([mkCommand (''del ssl crt-list '' @ op_Path op @ '' '' @ op_Cert op)], []))"

subsection \<open>The table\<close>

definition compilers :: "(string \<times> compiler) list" where
  "compilers =
     [(op_wire OpBackendAdd, compileBackendAdd),
      (op_wire OpBackendPublish, compileBackendVerb ''publish backend'' ''Backend published''),
      (op_wire OpBackendUnpublish, compileBackendVerb ''unpublish backend'' ''''),
      (op_wire OpBackendDel, compileBackendVerb ''del backend'' ''Backend deleted''),
      (op_wire OpBackendWaitRemovable, compileWaitBackend),
      (op_wire OpServerAdd, compileServerAdd),
      (op_wire OpServerEnable, compileServerEnable),
      (op_wire OpServerDisable, compileServerVerb ''disable server'' ''''),
      (op_wire OpServerSetAddr, compileServerSetAddr),
      (op_wire OpServerSetWeight, compileServerSetWeight),
      (op_wire OpServerSetState, compileServerSetState),
      (op_wire OpServerWaitRemovable, compileWaitServer),
      (op_wire OpShutdownSessions, compileServerVerb ''shutdown sessions server'' ''''),
      (op_wire OpServerDel, compileServerVerb ''del server'' ''Server deleted''),
      (op_wire OpMapAdd, compileMapAdd),
      (op_wire OpMapSet, compileMapSet),
      (op_wire OpMapDel, compileMapDel),
      (op_wire OpMapReplace, compileMapReplace),
      (op_wire OpCertSet, compileCert False),
      (op_wire OpCertNew, compileCert True),
      (op_wire OpCASet, compileCA False),
      (op_wire OpCANew, compileCA True),
      (op_wire OpCRTListAdd, compileCRTListAdd),
      (op_wire OpCRTListDel, compileCRTListDel)]"

definition Kinds :: "string list" where "Kinds = map fst compilers"

fun checkCommands :: "Command list \<Rightarrow> cli_error option" where
  "checkCommands [] = None"
| "checkCommands (c # cs) =
     (if length (cm_Text c) > MaxCommandLineBytes then Some LineTooLong
      else if length (cm_Payload c) > MaxPayloadBytes then Some PayloadTooLong
      else case validatePayloadBlock (cm_Payload c) of Some e \<Rightarrow> Some e | None \<Rightarrow> checkCommands cs)"

definition Compile :: "Op \<Rightarrow> Content \<Rightarrow> cli_error + Program" where
  "Compile op content =
     (case map_of compilers (op_wire (op_Kind op)) of
        None \<Rightarrow> Inl ErrUnknownOp
      | Some build \<Rightarrow>
          (case build op content of
             Inl e \<Rightarrow> Inl e
           | Inr (cmds, abort) \<Rightarrow>
               guarded (checkCommands cmds)
                 (Inr \<lparr>pr_Kind = op_wire (op_Kind op), pr_Commands = cmds, pr_Abort = abort\<rparr>)))"

subsection \<open>Every line is a sequence of safe words\<close>

text \<open>
  A word of a compiled line is a safe token, or the map version the executor fills in. The words are
  those the worker reads: it splits a line at blanks.
\<close>

definition command_word :: "string \<Rightarrow> bool" where
  "command_word w \<longleftrightarrow> SafeToken w \<or> w = CHR ''@'' # VersionPlaceholder"

definition command_line :: "string \<Rightarrow> bool" where
  "command_line t \<longleftrightarrow> t \<noteq> [] \<and> list_all command_word (split_blank [] t)"

lemma SafeToken_no_blank: "SafeToken w \<Longrightarrow> CHR '' '' \<notin> set w"
  by (simp add: SafeToken_def)

lemma SafeToken_append: "SafeToken a \<Longrightarrow> SafeToken b \<Longrightarrow> SafeToken (a @ b)"
  by (auto simp: SafeToken_def list_ex_iff list_all_iff)

lemma SafeToken_slash: "SafeToken a \<Longrightarrow> SafeToken b \<Longrightarrow> SafeToken (a @ CHR ''/'' # b)"
  using SafeToken_append [of a "CHR ''/'' # b"] SafeToken_append [of "''/''" b]
  by (simp add: SafeToken_def unsafeRunes_def)

lemma split_blank_last: "CHR '' '' \<notin> set w \<Longrightarrow> split_blank acc w = (if acc @ w = [] then [] else [acc @ w])"
  by (induction w arbitrary: acc) auto

lemma is_digit_safe: "is_digit c \<Longrightarrow> c \<notin> set unsafeRunes \<and> c \<noteq> CHR '' '' \<and> \<not> of_char c < (0x20::nat) \<and> of_char c \<noteq> (0x7f::nat)"
  by (auto simp: is_digit_def unsafeRunes_def less_eq_char_def)

lemma SafeToken_digits: "list_all is_digit w \<Longrightarrow> w \<noteq> [] \<Longrightarrow> SafeToken w"
  using is_digit_safe unfolding SafeToken_def list_all_iff list_ex_iff by blast

lemma SafeToken_Itoa: "SafeToken (Itoa n)"
  using SafeToken_digits nat_digits_digits SafeToken_append [of "''-''"]
  by (auto simp: Itoa_def SafeToken_def unsafeRunes_def)

text \<open>The rules that read a line word by word: literals by computation, tokens whole.\<close>

lemma line_token:
  assumes "SafeToken w"
  shows "list_all command_word (split_blank acc (w @ CHR '' '' # s)) \<longleftrightarrow> command_word (acc @ w) \<and> list_all command_word (split_blank [] s)"
    "list_all command_word (split_blank acc w) \<longleftrightarrow> command_word (acc @ w)"
  using SafeToken_no_blank [OF assms] SafeToken_nonempty [OF assms] by (auto simp: split_blank_word split_blank_last)

lemma line_ref:
  assumes "SafeToken a" "SafeToken b"
  shows "list_all command_word (split_blank acc (a @ CHR ''/'' # b @ CHR '' '' # s)) \<longleftrightarrow>
      command_word (acc @ a @ CHR ''/'' # b) \<and> list_all command_word (split_blank [] s)"
    "list_all command_word (split_blank acc (a @ CHR ''/'' # b)) \<longleftrightarrow> command_word (acc @ a @ CHR ''/'' # b)"
  using line_token [OF SafeToken_slash [OF assms]] by simp_all

lemma split_blank_append: "split_blank acc (v @ CHR '' '' # s) = split_blank acc v @ split_blank [] s"
  by (induction v arbitrary: acc) auto

lemma command_word_token [simp]: "SafeToken w \<Longrightarrow> command_word w"
  by (simp add: command_word_def)

definition literal :: "string \<Rightarrow> bool" where
  "literal w \<longleftrightarrow> list_all (\<lambda>c. c \<notin> set unsafeRunes \<and> c \<noteq> CHR '' '' \<and> \<not> of_char c < (0x20::nat) \<and> of_char c \<noteq> (0x7f::nat)) w"

lemma literal_token: "literal w \<Longrightarrow> w \<noteq> [] \<Longrightarrow> SafeToken w"
  by (auto simp: literal_def SafeToken_def list_all_iff list_ex_iff)

lemma guarded_Inr [simp]: "guarded e r = Inr x \<longleftrightarrow> e = None \<and> r = Inr x"
  by (auto simp: guarded_def split: option.splits)

lemma validateToken_None [simp]: "validateToken s = None \<longleftrightarrow> SafeToken s"
  by (auto simp: validateToken_def SafeToken_def)

lemma errors_Join_None [simp]: "errors_Join es = None \<longleftrightarrow> (\<forall>e\<in>set es. e = None)"
  by (induction es) (auto split: option.splits)

declare errors_Join.simps [simp del]

lemma validateEnum_None [simp]: "validateEnum s allowed = None \<longleftrightarrow> s \<in> set allowed"
  by (auto simp: validateEnum_def list_ex_iff)

lemma withRef_Inr: "withRef op k = Inr x \<longleftrightarrow> SafeToken (op_Backend op) \<and> SafeToken (op_Server op) \<and> k (op_Backend op @ ''/'' @ op_Server op) = Inr x"
  by (auto simp: withRef_def serverRef_def guarded_def validateToken_def errors_Join.simps dest: SafeToken_nonempty split: option.splits if_splits)

lemma withContent_Inr: "withContent content path k = Inr x \<longleftrightarrow> (\<exists>body. content path = Inr body \<and> k body = Inr x)"
  by (auto simp: withContent_def split: sum.splits)

definition lines_ok :: "compiler \<Rightarrow> bool" where
  "lines_ok build \<longleftrightarrow> (\<forall>op content cmds abort. build op content = Inr (cmds, abort) \<longrightarrow> (\<forall>c\<in>set (cmds @ abort). command_line (cm_Text c)))"

lemma lines_okI:
  "(\<And>op content cmds abort. build op content = Inr (cmds, abort) \<Longrightarrow> (\<forall>c\<in>set cmds. command_line (cm_Text c)) \<and> (\<forall>c\<in>set abort. command_line (cm_Text c))) \<Longrightarrow>
   lines_ok build"
  by (force simp: lines_ok_def)

lemmas line_eval = command_line_def line_token line_ref SafeToken_slash SafeToken_Itoa SafeToken_append literal_token literal_def unsafeRunes_def

lemma lines_BackendAdd: "lines_ok compileBackendAdd"
  by (rule lines_okI) (auto simp: compileBackendAdd_def mkCommand_def line_eval Let_def split: if_splits)

lemma lines_ServerSet: "lines_ok compileServerSetAddr" "lines_ok compileServerSetWeight" "lines_ok compileServerSetState"
  by (rule lines_okI, auto simp: compileServerSetAddr_def compileServerSetWeight_def compileServerSetState_def withRef_Inr
      mkCommand_def line_eval split: if_splits option.splits)+

lemma lines_ServerEnable: "lines_ok compileServerEnable"
  by (rule lines_okI) (auto simp: compileServerEnable_def withRef_Inr mkCommand_def line_eval split: if_splits)

lemma lines_Wait: "lines_ok compileWaitBackend" "lines_ok compileWaitServer"
  by (rule lines_okI, auto simp: compileWaitBackend_def compileWaitServer_def withRef_Inr waitMs_def mkCommand_def line_eval
      split: if_splits sum.splits)+

lemma lines_Verb:
  assumes "list_all command_word (split_blank [] verb)"
  shows "lines_ok (compileBackendVerb verb e)" "lines_ok (compileServerVerb verb e)"
  using assms by (auto intro!: lines_okI simp: compileBackendVerb_def compileServerVerb_def withRef_Inr mkCommand_def command_line_def
      split_blank_append line_token line_ref SafeToken_slash)

lemma lines_Map: "lines_ok compileMapAdd" "lines_ok compileMapSet" "lines_ok compileMapDel"
  by (rule lines_okI, auto simp: compileMapAdd_def compileMapSet_def compileMapDel_def mkCommand_def line_eval)+

lemma compileMapReplace_Inr:
  assumes "compileMapReplace op content = Inr (cmds, abort)"
  shows "\<exists>body chunks. SafeToken (op_Path op) \<and> content (op_Path op) = Inr body \<and>
    chunkLines (mapPayload body) MaxPayloadBytes = Inr chunks \<and> abort = [] \<and>
    cmds = [mkCommand (''prepare map '' @ op_Path op)\<lparr>cm_Expect := ''version created'', cm_Capture := True\<rparr>] @
      map (\<lambda>chunk. mkCommand (''add map @'' @ VersionPlaceholder @ '' '' @ op_Path op)\<lparr>cm_Payload := chunk\<rparr>) chunks @
      [mkCommand (''commit map @'' @ VersionPlaceholder @ '' '' @ op_Path op)]"
  using assms
  by (cases "content (op_Path op)"; cases "chunkLines (mapPayload (projr (content (op_Path op)))) MaxPayloadBytes")
    (auto simp: compileMapReplace_def withContent_def)

lemma lines_MapReplace: "lines_ok compileMapReplace"
proof (rule lines_okI)
  fix op content cmds abort
  assume "compileMapReplace op content = Inr (cmds, abort)"
  from compileMapReplace_Inr [OF this] obtain chunks where path: "SafeToken (op_Path op)" and abort: "abort = []" and
    cmds: "cmds = [mkCommand (''prepare map '' @ op_Path op)\<lparr>cm_Expect := ''version created'', cm_Capture := True\<rparr>] @
      map (\<lambda>chunk. mkCommand (''add map @'' @ VersionPlaceholder @ '' '' @ op_Path op)\<lparr>cm_Payload := chunk\<rparr>) chunks @
      [mkCommand (''commit map @'' @ VersionPlaceholder @ '' '' @ op_Path op)]"
    by blast
  have "command_line (''prepare map '' @ op_Path op)" using path by (simp add: line_eval)
  moreover have "command_line (''add map @'' @ VersionPlaceholder @ '' '' @ op_Path op)"
    "command_line (''commit map @'' @ VersionPlaceholder @ '' '' @ op_Path op)"
    using path by (simp_all add: line_eval command_word_def VersionPlaceholder_def)
  ultimately show "(\<forall>c\<in>set cmds. command_line (cm_Text c)) \<and> (\<forall>c\<in>set abort. command_line (cm_Text c))"
    using abort by (auto simp: cmds mkCommand_def)
qed

lemma lines_Cert: "lines_ok (compileCert create)" "lines_ok (compileCA create)"
  by (rule lines_okI, auto simp: compileCert_def compileCA_def withContent_Inr mkCommand_def line_eval split: if_splits)+

lemma lines_CRTList: "lines_ok compileCRTListAdd" "lines_ok compileCRTListDel"
  by (rule lines_okI, auto simp: compileCRTListAdd_def compileCRTListDel_def mkCommand_def line_eval split: sum.splits)+

lemma writeArgs_line: "writeArgs args b = Inr t \<Longrightarrow> command_line b \<Longrightarrow> command_line t"
proof (induction args arbitrary: b)
  case (Cons a args)
  then have "command_line (b @ '' '' @ a)" by (auto simp: command_line_def split_blank_append line_token)
  with Cons show ?case by auto
qed simp

lemma writeKeywords_line: "writeKeywords kws b = Inr t \<Longrightarrow> command_line b \<Longrightarrow> command_line t"
proof (induction kws arbitrary: b)
  case (Cons kw kws)
  from Cons.prems obtain b' where kw: "writeKeyword kw b = Inr b'" "writeKeywords kws b' = Inr t" by (auto split: sum.splits)
  then have "SafeToken (akw_Name kw)" "writeArgs (akw_Args kw) (b @ '' '' @ akw_Name kw) = Inr b'" by (auto simp: writeKeyword_def)
  moreover from this(1) Cons.prems(2) have "command_line (b @ '' '' @ akw_Name kw)" by (simp add: command_line_def split_blank_append line_token)
  ultimately show ?case using writeArgs_line kw(2) Cons.IH by blast
qed simp

lemma lines_ServerAdd: "lines_ok compileServerAdd"
proof (rule lines_okI)
  fix op content cmds abort
  assume "compileServerAdd op content = Inr (cmds, abort)"
  then obtain line where safe: "SafeToken (op_Backend op)" "SafeToken (op_Server op)" "SafeToken (op_Address op)"
    and written: "writeKeywords (op_Keywords op) (''add server '' @ (op_Backend op @ ''/'' @ op_Server op) @ '' '' @ op_Address op @
        (if op_Port op > 0 then '':'' @ Itoa (op_Port op) else '''')) = Inr line"
    and cmds: "cmds = [mkCommand line\<lparr>cm_Expect := ''New server registered''\<rparr>]" "abort = []"
    by (auto simp: compileServerAdd_def withRef_Inr split: sum.splits)
  have "SafeToken (op_Address op @ (if op_Port op > 0 then '':'' @ Itoa (op_Port op) else ''''))"
    using safe(3) SafeToken_append [of "op_Address op" "'':'' @ Itoa (op_Port op)"] SafeToken_append [of "'':''" "Itoa (op_Port op)"]
    by (simp add: SafeToken_Itoa literal_token literal_def unsafeRunes_def)
  with safe(1,2) have "command_line (''add server '' @ (op_Backend op @ ''/'' @ op_Server op) @ '' '' @ op_Address op @
        (if op_Port op > 0 then '':'' @ Itoa (op_Port op) else ''''))"
    by (simp add: line_eval)
  with writeKeywords_line [OF written] cmds
  show "(\<forall>c\<in>set cmds. command_line (cm_Text c)) \<and> (\<forall>c\<in>set abort. command_line (cm_Text c))" by (simp add: mkCommand_def)
qed

lemma compilers_lines: "\<forall>build\<in>snd ` set compilers. lines_ok build"
  by (simp add: compilers_def lines_BackendAdd lines_ServerSet lines_ServerEnable lines_Wait lines_Verb lines_Map lines_MapReplace
      lines_Cert lines_CRTList lines_ServerAdd line_eval)

lemma Compile_lines:
  assumes "Compile op content = Inr prog" and "c \<in> set (pr_Commands prog @ pr_Abort prog)"
  shows "command_line (cm_Text c)"
proof -
  from assms(1) obtain build cmds abort where "map_of compilers (op_wire (op_Kind op)) = Some build" "build op content = Inr (cmds, abort)"
    "pr_Commands prog = cmds" "pr_Abort prog = abort"
    by (auto simp: Compile_def split: option.splits sum.splits prod.splits)
  moreover from this(1) have "lines_ok build" using compilers_lines map_of_SomeD by fastforce
  ultimately show ?thesis using assms(2) unfolding lines_ok_def by blast
qed

end
