(* ===== verification/Runtime_Exec.thy ===== *)
theory Runtime_Exec
  imports Runtime_Program
begin

section \<open>Executing programs on the worker socket\<close>

text \<open>
  \<open>src/pkg/dataplane/agent/cli/{response,client}.go\<close>: a batched answer is cut into segments and
  attributed to the commands of its line; the execution of an apply joins commands into lines, sends
  them, fills in the map version a command allocated and keeps a verdict per operation. The socket is an
  argument: \<open>sock n line\<close> is the answer to the \<open>n\<close>th line of the connection, or \<open>None\<close> for an error. The
  lines sent are kept in the state.
\<close>

subsection \<open>Strings\<close>

definition Contains :: "string \<Rightarrow> string \<Rightarrow> bool" where
  "Contains s sub \<longleftrightarrow> Go_Std.Index s sub \<noteq> None"

text \<open>
  \<open>strings.ToLower\<close>, as far as a search for ASCII text can see it: ASCII letters, and the two runes
  beyond ASCII whose lower case is ASCII (the Kelvin sign and the dotted capital I).
\<close>

definition lower_byte :: "char \<Rightarrow> char" where
  "lower_byte c = (if CHR ''A'' \<le> c \<and> c \<le> CHR ''Z'' then char_of (of_char c + (32::nat)) else c)"

fun ToLower :: "string \<Rightarrow> string" where
  "ToLower [] = []"
| "ToLower (c # s) =
     (if c = CHR 0xE2 \<and> take 2 s = [CHR 0x84, CHR 0xAA] then CHR ''k'' # ToLower (drop 2 s)
      else if c = CHR 0xC4 \<and> take 1 s = [CHR 0xB0] then CHR ''i'' # ToLower (drop 1 s)
      else lower_byte c # ToLower s)"

function ReplaceAll :: "string \<Rightarrow> string \<Rightarrow> string \<Rightarrow> string" where
  "ReplaceAll s old new =
     (if s = [] \<or> old = [] then s
      else if HasPrefix s old then new @ ReplaceAll (drop (length old) s) old new
      else hd s # ReplaceAll (tl s) old new)"
  by pat_completeness auto
termination by (relation "measure (\<lambda>(s, _, _). length s)") auto

declare ReplaceAll.simps [simp del]

text \<open>\<open>strings.Split(s, "\n\n")\<close>, and the two trims of \<open>splitSegments\<close>.\<close>

fun splitBlankLines :: "string \<Rightarrow> string list" where
  "splitBlankLines [] = [[]]"
| "splitBlankLines [c] = [[c]]"
| "splitBlankLines (c # d # s) =
     (if c = newline \<and> d = newline then [] # splitBlankLines s
      else case splitBlankLines (d # s) of [] \<Rightarrow> [[c]] | l # ls \<Rightarrow> (c # l) # ls)"

definition trimSegment :: "string \<Rightarrow> string" where
  "trimSegment seg = rev (dropWhile (\<lambda>c. c = CHR '' '' \<or> c = newline) (rev (dropWhile (\<lambda>c. c = newline) seg)))"

subsection \<open>Answers (\<open>response.go\<close>)\<close>

datatype response_error = ErrNameCollision | ErrWaitExpired | ErrRejected | ErrUnreadableResponse

record CommandResult =
  cr_Output :: string
  cr_Err :: "response_error option"

definition okResult :: CommandResult where "okResult = \<lparr>cr_Output = '''', cr_Err = None\<rparr>"

definition errorPhrases :: "string list" where
  "errorPhrases =
     [''unknown command'', ''no such'', ''not found'', ''doesn't exist'', ''does not exist'', ''already used by other proxy'',
      ''already exists'', ''permission denied'', ''unable to'', ''cannot'', ''can't'', ''invalid'', ''unsupported'', ''failed'',
      ''error'', ''problem converting'', ''through configuration file'']"

definition splitSegments :: "string \<Rightarrow> string list" where
  "splitSegments raw =
     filter (\<lambda>seg. seg \<noteq> '''') (map trimSegment (splitBlankLines (ReplaceAll raw [CHR 0x0D, newline] [newline])))"

text \<open>The severity \<open>[n]:\<close> in front of an answer.\<close>

fun severityPrefix :: "string \<Rightarrow> (char \<times> string) option" where
  "severityPrefix (a # d # b # c # rest) =
     (if a = CHR ''['' \<and> CHR ''0'' \<le> d \<and> d \<le> CHR ''7'' \<and> b = CHR '']'' \<and> c = CHR '':'' then Some (d, rest) else None)"
| "severityPrefix _ = None"

definition classify :: "string \<Rightarrow> response_error option" where
  "classify seg =
     (let trimmed = TrimSpace seg;
          (severity, body) = (case severityPrefix trimmed of Some (d, rest) \<Rightarrow> (Some d, TrimSpace rest) | None \<Rightarrow> (None, trimmed));
          lower = ToLower body;
          phrases = (if list_ex (Contains lower) errorPhrases then Some ErrRejected else None)
      in if Contains lower ''already used by other proxy'' then Some ErrNameCollision
         else if Contains lower ''wait delay expired'' then Some ErrWaitExpired
         else case severity of
                Some d \<Rightarrow> if d \<le> CHR ''3'' then Some ErrRejected else if d \<ge> CHR ''5'' then None else phrases
              | None \<Rightarrow> phrases)"

fun isNextAnchor :: "string \<Rightarrow> Command list \<Rightarrow> bool" where
  "isNextAnchor seg [] = False"
| "isNextAnchor seg (c # rest) =
     (if cm_Expect c = '''' then isNextAnchor seg rest else Contains (ToLower seg) (ToLower (cm_Expect c)))"

text \<open>The matchers take the segments not consumed yet and return those left.\<close>

definition matchAnchor :: "string list \<Rightarrow> string \<Rightarrow> CommandResult \<times> string list" where
  "matchAnchor segments expect =
     (case segments of
        [] \<Rightarrow> (\<lparr>cr_Output = '''', cr_Err = Some ErrUnreadableResponse\<rparr>, [])
      | out # rest \<Rightarrow>
          (case classify out of
             Some e \<Rightarrow> (\<lparr>cr_Output = out, cr_Err = Some e\<rparr>, rest)
           | None \<Rightarrow>
               if \<not> Contains (ToLower out) (ToLower expect)
               then (\<lparr>cr_Output = out, cr_Err = Some ErrUnreadableResponse\<rparr>, rest)
               else (\<lparr>cr_Output = out, cr_Err = None\<rparr>, rest)))"

definition matchOptional :: "string list \<Rightarrow> Command list \<Rightarrow> CommandResult \<times> string list" where
  "matchOptional segments after =
     (case segments of
        [] \<Rightarrow> (okResult, [])
      | out # rest \<Rightarrow>
          if classify out \<noteq> None \<or> isNextAnchor out after then (okResult, segments)
          else (\<lparr>cr_Output = out, cr_Err = None\<rparr>, rest))"

definition matchQuiet :: "string list \<Rightarrow> Command list \<Rightarrow> CommandResult \<times> string list" where
  "matchQuiet segments after =
     (case segments of
        [] \<Rightarrow> (okResult, [])
      | out # rest \<Rightarrow>
          if isNextAnchor out after then (okResult, segments)
          else (\<lparr>cr_Output = out, cr_Err = classify out\<rparr>, rest))"

definition matchOne :: "string list \<Rightarrow> Command \<Rightarrow> Command list \<Rightarrow> CommandResult \<times> string list" where
  "matchOne segments cmd after =
     (if cm_Optional cmd then matchOptional segments after
      else if cm_Expect cmd = '''' then matchQuiet segments after
      else matchAnchor segments (cm_Expect cmd))"

fun matchLoop :: "string list \<Rightarrow> Command list \<Rightarrow> CommandResult list" where
  "matchLoop segments [] = []"
| "matchLoop segments (cmd # after) =
     (case matchOne segments cmd after of
        (r, rest) \<Rightarrow>
          if cr_Err r = None then r # matchLoop rest after
          else r # map (\<lambda>_. \<lparr>cr_Output = '''', cr_Err = Some ErrUnreadableResponse\<rparr>) after)"

definition matchBatch :: "string \<Rightarrow> Command list \<Rightarrow> CommandResult list" where
  "matchBatch raw cmds = matchLoop (splitSegments raw) cmds"

subsection \<open>Execution (\<open>client.go\<close>)\<close>

definition experimentalPrefix :: string where "experimentalPrefix = ''experimental-mode on''"
definition lineReserve :: nat where "lineReserve = 64"
definition MaxMapDelRepeat :: nat where "MaxMapDelRepeat = 64"

definition mapVersion :: "string \<Rightarrow> string" where
  "mapVersion out =
     (case IndexByte out (CHR '':'') of
        None \<Rightarrow> ''''
      | Some i \<Rightarrow>
          (let after = drop (Suc i) out;
               after' = (case IndexByte after (CHR '':'') of Some j \<Rightarrow> drop (Suc j) after | None \<Rightarrow> after);
               version = TrimSpace after'
           in if version = '''' \<or> \<not> list_all is_digit version \<or> digits_val version \<ge> 2 ^ 64 then '''' else version))"

record OpResult =
  or_Kind :: string
  or_OK :: bool
  or_Output :: string

datatype exec_error = SocketError | OpFailed string response_error string | OpsOverLimit

type_synonym socket = "nat \<Rightarrow> string \<Rightarrow> string option"
type_synonym pendingCommand = "nat \<times> Command"

record execution =
  ex_results :: "OpResult list"
  ex_pending :: "pendingCommand list"
  ex_length :: nat
  ex_version :: string
  ex_failed :: "nat option"
  ex_sent :: "string list"

definition joinLine :: "pendingCommand list \<Rightarrow> string" where
  "joinLine pending =
     experimentalPrefix @ concat (map (\<lambda>p. '';'' @ cm_Text (snd p)) pending) @
     (let payload = cm_Payload (snd (last pending)) in
      if payload \<noteq> '''' then '' <<'' @ PayloadTerminator @ [newline] @ payload @
        (if last payload = newline then '''' else [newline]) @ PayloadTerminator
      else '''')"

definition ExecuteRaw :: "socket \<Rightarrow> string \<Rightarrow> execution \<Rightarrow> execution \<times> string option" where
  "ExecuteRaw sock line e = (e\<lparr>ex_sent := ex_sent e @ [line]\<rparr>, sock (length (ex_sent e)) line)"

definition prefixCommand :: Command where
  "prefixCommand = mkCommand experimentalPrefix\<lparr>cm_Optional := True\<rparr>"

definition recordResult :: "nat \<Rightarrow> CommandResult \<Rightarrow> execution \<Rightarrow> execution \<times> exec_error option" where
  "recordResult program r e =
     (case cr_Err r of
        None \<Rightarrow> (e, None)
      | Some err \<Rightarrow>
          (let kind = or_Kind (ex_results e ! program) in
           (e\<lparr>ex_failed := (if ex_failed e = None then Some program else ex_failed e),
              ex_results := (ex_results e)[program := \<lparr>or_Kind = kind, or_OK = False, or_Output = cr_Output r\<rparr>]\<rparr>,
            Some (OpFailed kind err (cr_Output r)))))"

fun recordAll :: "pendingCommand list \<Rightarrow> CommandResult list \<Rightarrow> execution \<Rightarrow> execution \<times> exec_error option" where
  "recordAll ((program, cmd) # pending) (r # results) e =
     (let e1 = (if cm_Capture cmd \<and> cr_Err r = None then e\<lparr>ex_version := mapVersion (cr_Output r)\<rparr> else e);
          (e2, err) = recordResult program r e1;
          (e3, later) = recordAll pending results e2
      in (e3, if err \<noteq> None then err else later))"
| "recordAll _ _ e = (e, None)"

definition flush :: "socket \<Rightarrow> execution \<Rightarrow> execution \<times> exec_error option" where
  "flush sock e =
     (if ex_pending e = [] then (e, None)
      else let pending = ex_pending e in
        case ExecuteRaw sock (joinLine pending) (e\<lparr>ex_pending := [], ex_length := 0\<rparr>) of
          (e1, None) \<Rightarrow> (e1, Some SocketError)
        | (e1, Some raw) \<Rightarrow> recordAll pending (tl (matchBatch raw (prefixCommand # map snd pending))) e1)"

definition addCommand :: "socket \<Rightarrow> nat \<Rightarrow> Command \<Rightarrow> execution \<Rightarrow> execution \<times> exec_error option" where
  "addCommand sock index cmd e =
     (let solo = (cm_Payload cmd \<noteq> '''' \<or> cm_Capture cmd);
          (e1, err) = (if solo \<or> ex_length e + length (cm_Text cmd) \<ge> MaxCommandLineBytes - lineReserve
                       then flush sock e else (e, None))
      in case err of
           Some x \<Rightarrow> (e1, Some x)
         | None \<Rightarrow>
             (let e2 = e1\<lparr>ex_pending := ex_pending e1 @ [(index, cmd)], ex_length := ex_length e1 + length (cm_Text cmd) + 1\<rparr>
              in if solo then flush sock e2 else (e2, None)))"

definition onceCommand :: "socket \<Rightarrow> nat \<Rightarrow> Command \<Rightarrow> execution \<Rightarrow> execution \<times> (exec_error + CommandResult)" where
  "onceCommand sock index cmd e =
     (case ExecuteRaw sock (joinLine [(index, cmd)]) e of
        (e1, None) \<Rightarrow> (e1, Inl SocketError)
      | (e1, Some raw) \<Rightarrow> (e1, Inr (matchBatch raw [prefixCommand, cmd] ! 1)))"

text \<open>The loop of \<open>repeat\<close>: how many calls are left, how many succeeded, and the refusal that ended it.\<close>

fun repeatLoop :: "socket \<Rightarrow> nat \<Rightarrow> nat \<Rightarrow> Command \<Rightarrow> nat \<Rightarrow> execution \<Rightarrow> execution \<times> (exec_error + nat \<times> CommandResult)" where
  "repeatLoop sock 0 index cmd removed e = (e, Inr (removed, okResult))"
| "repeatLoop sock (Suc n) index cmd removed e =
     (case onceCommand sock index cmd e of
        (e1, Inl err) \<Rightarrow> (e1, Inl err)
      | (e1, Inr r) \<Rightarrow>
          if cr_Err r \<noteq> None then (e1, Inr (removed, r)) else repeatLoop sock n index cmd (Suc removed) e1)"

definition repeatCommand :: "socket \<Rightarrow> nat \<Rightarrow> Command \<Rightarrow> execution \<Rightarrow> execution \<times> exec_error option" where
  "repeatCommand sock index cmd e =
     (case flush sock e of
        (e1, Some x) \<Rightarrow> (e1, Some x)
      | (e1, None) \<Rightarrow>
          (case repeatLoop sock MaxMapDelRepeat index cmd 0 e1 of
             (e2, Inl x) \<Rightarrow> (e2, Some x)
           | (e2, Inr (removed, refusal)) \<Rightarrow>
               if removed = 0 then recordResult index refusal e2
               else if removed = MaxMapDelRepeat
               then recordResult index \<lparr>cr_Output = cm_Text cmd, cr_Err = Some ErrUnreadableResponse\<rparr> e2
               else (e2, None)))"

fun runCommands :: "socket \<Rightarrow> nat \<Rightarrow> Command list \<Rightarrow> execution \<Rightarrow> execution \<times> exec_error option" where
  "runCommands sock index [] e = (e, None)"
| "runCommands sock index (c # cs) e =
     (let cmd = c\<lparr>cm_Text := ReplaceAll (cm_Text c) VersionPlaceholder (ex_version e)\<rparr> in
      case (if cm_Repeat cmd then repeatCommand sock index cmd e else addCommand sock index cmd e) of
        (e1, Some x) \<Rightarrow> (e1, Some x)
      | (e1, None) \<Rightarrow> runCommands sock index cs e1)"

fun runAll :: "socket \<Rightarrow> nat \<Rightarrow> Program list \<Rightarrow> execution \<Rightarrow> execution \<times> exec_error option" where
  "runAll sock index [] e = flush sock e"
| "runAll sock index (p # ps) e =
     (case runCommands sock index (pr_Commands p) e of
        (e1, Some x) \<Rightarrow> (e1, Some x)
      | (e1, None) \<Rightarrow> runAll sock (Suc index) ps e1)"

definition Raw :: "socket \<Rightarrow> string \<Rightarrow> execution \<Rightarrow> execution \<times> string option" where
  "Raw sock command e = ExecuteRaw sock (experimentalPrefix @ '';'' @ command) e"

definition abortProgram :: "socket \<Rightarrow> Program \<Rightarrow> execution \<Rightarrow> execution" where
  "abortProgram sock p e = foldl (\<lambda>e cmd. fst (Raw sock (cm_Text cmd) e)) e (pr_Abort p)"

definition Execute :: "socket \<Rightarrow> Program list \<Rightarrow> string list \<Rightarrow> string list \<times> OpResult list \<times> exec_error option" where
  "Execute sock programs sent =
     (if length programs > MaxOpsPerApply then (sent, [], Some OpsOverLimit)
      else
        let e0 = \<lparr>ex_results = map (\<lambda>p. \<lparr>or_Kind = pr_Kind p, or_OK = True, or_Output = ''''\<rparr>) programs,
                  ex_pending = [], ex_length = 0, ex_version = '''', ex_failed = None, ex_sent = sent\<rparr>;
            (e1, err) = runAll sock 0 programs e0;
            e2 = (case (err, ex_failed e1) of (Some _, Some i) \<Rightarrow> abortProgram sock (programs ! i) e1 | _ \<Rightarrow> e1)
        in (ex_sent e2, ex_results e1, err))"

end
