(* ===== verification/Map_Payload.thy ===== *)
theory Map_Payload
  imports Runtime_Program
begin

section \<open>A map file pushed through the socket\<close>

text \<open>
  \<open>compileMapReplace\<close> renders the entries of a map file, without its comments, and cuts the text into
  payload blocks. The blocks hold exactly the entries of the file, in order, and no block cuts a line.
\<close>

subsection \<open>Trimmed text\<close>

definition trimmed :: "string \<Rightarrow> bool" where
  "trimmed s \<longleftrightarrow> (\<forall>r\<in>set space_runes. \<not> HasPrefix s r \<and> \<not> HasPrefix (rev s) (rev r))"

lemma space_runes_nonempty: "r \<in> set space_runes \<Longrightarrow> r \<noteq> []"
  by (auto simp: space_runes_def)

lemma space_runes_blank: "r \<in> set space_runes \<Longrightarrow> CHR '' '' \<in> set r \<Longrightarrow> r = [CHR '' '']"
  by (auto simp: space_runes_def)

lemma HasPrefix_iff: "HasPrefix s r \<longleftrightarrow> (\<exists>t. s = r @ t)"
  by (metis HasPrefix_def append_eq_conv_conj append_take_drop_id)

lemma HasPrefix_append: "HasPrefix s r \<Longrightarrow> HasPrefix (s @ t) r"
  by (auto simp: HasPrefix_iff)

lemma leading_space_zero: "leading_space s = 0 \<longleftrightarrow> (\<forall>r\<in>set space_runes. \<not> HasPrefix s r)"
  by (auto simp: leading_space_def find_None_iff split: option.splits) (metis find_Some_iff length_0_conv nth_mem space_runes_nonempty)+

lemma trailing_space_zero: "trailing_space s = 0 \<longleftrightarrow> (\<forall>r\<in>set space_runes. \<not> HasPrefix (rev s) (rev r))"
  by (auto simp: trailing_space_def find_None_iff split: option.splits) (metis find_Some_iff length_0_conv nth_mem space_runes_nonempty)+

lemma trimmed_Nil [simp]: "trimmed []"
  using space_runes_nonempty by (auto simp: trimmed_def HasPrefix_def)

lemma TrimSpace_id: "trimmed s \<Longrightarrow> TrimSpace s = s"
  by (simp add: trimmed_def TrimSpace_def leading_space_zero trailing_space_zero trim_left.simps [of s] trim_right.simps [of s])

lemma trim_left_leads: "trim_left s = [] \<or> leading_space (trim_left s) = 0"
proof (induction s rule: trim_left.induct)
  case (1 s)
  show ?case
  proof (cases "leading_space s = 0 \<or> s = []")
    case True
    then have "trim_left s = s" by (simp add: trim_left.simps)
    with True show ?thesis by auto
  next
    case False
    then have "trim_left s = trim_left (drop (leading_space s) s)" by (subst trim_left.simps) simp
    with 1 [OF False] show ?thesis by simp
  qed
qed

lemma trim_right_trails: "trim_right s = [] \<or> trailing_space (trim_right s) = 0"
proof (induction s rule: trim_right.induct)
  case (1 s)
  show ?case
  proof (cases "trailing_space s = 0 \<or> s = []")
    case True
    then have "trim_right s = s" by (simp add: trim_right.simps)
    with True show ?thesis by auto
  next
    case False
    then have "trim_right s = trim_right (take (length s - trailing_space s) s)" by (subst trim_right.simps) simp
    with 1 [OF False] show ?thesis by simp
  qed
qed

lemma trimmed_TrimSpace [simp]: "trimmed (TrimSpace s)"
proof (cases "TrimSpace s = []")
  case False
  let ?l = "trim_left s"
  obtain n where n: "TrimSpace s = take n ?l" using trim_right_take TrimSpace_def by metis
  with False have "?l \<noteq> []" by auto
  with trim_left_leads have "\<forall>r\<in>set space_runes. \<not> HasPrefix ?l r" using leading_space_zero by blast
  with n have "\<forall>r\<in>set space_runes. \<not> HasPrefix (TrimSpace s) r" by (metis HasPrefix_append append_take_drop_id)
  moreover have "\<forall>r\<in>set space_runes. \<not> HasPrefix (rev (TrimSpace s)) (rev r)"
    using trim_right_trails [of ?l] False trailing_space_zero unfolding TrimSpace_def by blast
  ultimately show ?thesis by (simp add: trimmed_def)
qed simp

text \<open>What trims away to nothing is empty or ends with a space.\<close>

definition ends_spaced :: "string \<Rightarrow> bool" where
  "ends_spaced s \<longleftrightarrow> (\<exists>r\<in>set space_runes. HasPrefix (rev s) (rev r))"

lemma ends_spaced_append: "ends_spaced t \<Longrightarrow> ends_spaced (s @ t)"
  using HasPrefix_append by (fastforce simp: ends_spaced_def)

lemma trim_left_empty: "trim_left s = [] \<Longrightarrow> s = [] \<or> ends_spaced s"
proof (induction s rule: trim_left.induct)
  case (1 s)
  show ?case
  proof (cases "leading_space s = 0 \<or> s = []")
    case True
    with 1(2) show ?thesis by (simp add: trim_left.simps)
  next
    case False
    then have "trim_left (drop (leading_space s) s) = []" using 1(2) by (subst (asm) trim_left.simps) simp
    from 1(1) [OF False this] show ?thesis
    proof
      assume spent: "drop (leading_space s) s = []"
      from False obtain r where "find (HasPrefix s) space_runes = Some r" by (auto simp: leading_space_def split: option.splits)
      then have r: "r \<in> set space_runes" "HasPrefix s r" "leading_space s = length r"
        by (auto simp: leading_space_def) (auto simp: find_Some_iff)
      with spent have "s = r" by (auto simp: HasPrefix_iff)
      moreover have "HasPrefix (rev r) (rev r)" by (simp add: HasPrefix_def)
      ultimately show ?thesis using r(1) unfolding ends_spaced_def by blast
    next
      assume "ends_spaced (drop (leading_space s) s)"
      from ends_spaced_append [OF this, of "take (leading_space s) s"] show ?thesis by simp
    qed
  qed
qed

lemma TrimSpace_empty: "TrimSpace s = [] \<Longrightarrow> s = [] \<or> ends_spaced s"
proof (cases "trim_left s = []")
  case False
  assume "TrimSpace s = []"
  with False have "trailing_space (trim_left s) \<noteq> 0" by (auto simp: TrimSpace_def trim_right.simps [of "trim_left s"] split: if_splits)
  then have "ends_spaced (trim_left s)" by (simp add: trailing_space_zero ends_spaced_def)
  then show ?thesis by (metis append_take_drop_id ends_spaced_append trim_left_drop)
qed (simp add: trim_left_empty)

subsection \<open>A rendered entry reads back\<close>

definition entryLine :: "Entry \<Rightarrow> string" where
  "entryLine e = ent_Key e @ (if ent_Value e \<noteq> '''' then '' '' @ ent_Value e else '''')"

text \<open>The entries a line of a file can give.\<close>

definition entry_ok :: "Entry \<Rightarrow> bool" where
  "entry_ok e \<longleftrightarrow> trimmed (entryLine e) \<and> trimmed (ent_Value e) \<and> ent_Key e \<noteq> [] \<and> \<not> HasPrefix (ent_Key e) ''#'' \<and>
     CHR '' '' \<notin> set (ent_Key e) \<and> CHR 0x09 \<notin> set (ent_Key e)"

lemma IndexAny_append: "set w \<inter> set cs = {} \<Longrightarrow> IndexAny (w @ s) cs = map_option ((+) (length w)) (IndexAny s cs)"
  by (induction w; cases "IndexAny s cs") auto

lemma IndexAny_SomeD: "IndexAny s cs = Some i \<Longrightarrow> i < length s \<and> s ! i \<in> set cs \<and> set (take i s) \<inter> set cs = {}"
  by (induction s arbitrary: i) (auto split: if_splits)

lemma IndexAny_NoneD: "IndexAny s cs = None \<Longrightarrow> set s \<inter> set cs = {}"
  by (induction s) (auto split: if_splits)

lemma entry_reads_back:
  assumes "entry_ok e"
  shows "parseEntries [entryLine e] = [e]"
proof -
  have key: "set (ent_Key e) \<inter> set [CHR '' '', CHR 0x09] = {}" using assms by (auto simp: entry_ok_def)
  have "TrimSpace (entryLine e) = entryLine e" using assms by (simp add: entry_ok_def TrimSpace_id)
  moreover have "\<not> skipLine (entryLine e)" using assms by (cases "ent_Key e") (auto simp: skipLine_def entry_ok_def entryLine_def HasPrefix_def)
  moreover have "\<exists>n. splitEntry (entryLine e) = (ent_Key e, ent_Value e, n)"
    using IndexAny_append [OF key, of "[]"] IndexAny_append [OF key, of "CHR '' '' # ent_Value e"] assms
    by (simp add: splitEntry_def entryLine_def entry_ok_def TrimSpace_id)
  ultimately show ?thesis by (auto simp: parseEntries_def)
qed

lemma no_blank_prefix:
  assumes "HasPrefix (w @ CHR '' '' # x) r" "r \<in> set space_runes" "w \<noteq> []"
  shows "HasPrefix w r"
proof -
  from assms(1) obtain t where t: "w @ CHR '' '' # x = r @ t" by (auto simp: HasPrefix_iff)
  show ?thesis
  proof (cases "length r \<le> length w")
    case True
    with t have "r = take (length r) w" by (metis append_eq_append_conv2 append_eq_conv_conj take_all_iff take_append take_take min.absorb1)
    then show ?thesis by (simp add: HasPrefix_def)
  next
    case False
    with t have "r ! length w = CHR '' ''" by (metis linorder_not_le nth_append nth_append_length)
    then have "CHR '' '' \<in> set r" using False by (metis linorder_not_le nth_mem)
    with space_runes_blank assms(2) have "r = [CHR '' '']" by blast
    with False assms(3) show ?thesis by (cases w) auto
  qed
qed

lemma trimmed_joined:
  assumes "trimmed (k @ y)" "k \<noteq> []" "trimmed v" "v \<noteq> []"
  shows "trimmed (k @ CHR '' '' # v)"
proof -
  have "\<not> HasPrefix (k @ CHR '' '' # v) r" if "r \<in> set space_runes" for r
    using no_blank_prefix [OF _ that assms(2)] assms(1) HasPrefix_append that by (auto simp: trimmed_def)
  moreover have "\<not> HasPrefix (rev (k @ CHR '' '' # v)) (rev r)" if r: "r \<in> set space_runes" for r
  proof
    assume pre: "HasPrefix (rev (k @ CHR '' '' # v)) (rev r)"
    from pre obtain t where t: "rev v @ CHR '' '' # rev k = rev r @ t" by (auto simp: HasPrefix_iff)
    show False
    proof (cases "length r \<le> length v")
      case True
      with t have "rev r = take (length r) (rev v)"
        by (metis append_eq_conv_conj length_rev take_append diff_is_0_eq take0 append_Nil2)
      then have "HasPrefix (rev v) (rev r)" unfolding HasPrefix_def by (metis length_rev)
      with assms(3) r show False by (simp add: trimmed_def)
    next
      case False
      with t have "rev r ! length v = CHR '' ''" by (metis length_rev linorder_not_le nth_append nth_append_length)
      then have "CHR '' '' \<in> set r" using False by (metis length_rev linorder_not_le nth_mem set_rev)
      with space_runes_blank r have "r = [CHR '' '']" by blast
      with False assms(4) show False by (cases v) auto
    qed
  qed
  ultimately show ?thesis by (simp add: trimmed_def)
qed

lemma blanks_are_space: "c \<in> set [CHR '' '', CHR 0x09] \<Longrightarrow> [c] \<in> set space_runes"
  by (auto simp: space_runes_def)

lemma parsed_from:
  assumes "e \<in> set (parseEntries ls)"
  shows "\<exists>line\<in>set ls. \<exists>n. \<not> skipLine (TrimSpace line) \<and> splitEntry (TrimSpace line) = (ent_Key e, ent_Value e, n)"
proof -
  from assms obtain line where "line \<in> set ls" "e \<in> set (parseEntries [line])" by (auto simp: parseEntries_def)
  then show ?thesis by (cases "splitEntry (TrimSpace line)") (auto simp: parseEntries_def Let_def split: if_splits)
qed

lemma parsed_entry_ok:
  assumes "e \<in> set (parseEntries ls)"
  shows "entry_ok e"
proof -
  from parsed_from [OF assms] obtain line n where skip: "\<not> skipLine (TrimSpace line)"
    and e: "splitEntry (TrimSpace line) = (ent_Key e, ent_Value e, n)" by blast
  define t where "t = TrimSpace line"
  have t: "trimmed t" "t \<noteq> []" "\<not> HasPrefix t ''#''" using skip by (auto simp: t_def skipLine_def)
  show ?thesis
  proof (cases "IndexAny t [CHR '' '', CHR 0x09]")
    case None
    with e have "ent_Key e = t" "ent_Value e = []" by (auto simp: splitEntry_def t_def)
    with t IndexAny_NoneD [OF None] show ?thesis by (auto simp: entry_ok_def entryLine_def)
  next
    case (Some i)
    with e have kv: "ent_Key e = take i t" "ent_Value e = TrimSpace (drop (Suc i) t)" by (auto simp: splitEntry_def t_def)
    note i = IndexAny_SomeD [OF Some]
    have split: "t = take i t @ t ! i # drop (Suc i) t" using i by (metis id_take_nth_drop)
    have "i \<noteq> 0"
    proof
      assume "i = 0"
      with split have "HasPrefix t [t ! i]" by (metis HasPrefix_iff append_Cons append_Nil take0)
      with blanks_are_space i t(1) show False unfolding trimmed_def by blast
    qed
    then have key: "ent_Key e \<noteq> []" using kv i by auto
    have "\<not> ends_spaced t" using t(1) by (auto simp: trimmed_def ends_spaced_def)
    moreover have "ends_spaced [t ! i]" using blanks_are_space i unfolding ends_spaced_def HasPrefix_def by (metis append_Nil2 rev_singleton_conv take_all order_refl)
    ultimately have "\<not> ends_spaced (drop (Suc i) t)" "drop (Suc i) t \<noteq> []"
      using ends_spaced_append [of "drop (Suc i) t" "take i t @ [t ! i]"] ends_spaced_append [of "[t ! i]" "take i t"] split by auto
    with TrimSpace_empty [of "drop (Suc i) t"] kv(2) have val: "ent_Value e \<noteq> []" by auto
    have "trimmed (entryLine e)"
      using trimmed_joined [of "ent_Key e" "t ! i # drop (Suc i) t" "ent_Value e"] key val kv t(1) split by (simp add: entryLine_def)
    moreover have "\<not> HasPrefix (ent_Key e) ''#''" using t(3) HasPrefix_append [of "take i t" "''#''" "drop i t"] kv(1) by auto
    ultimately show ?thesis using key kv i by (auto simp: entry_ok_def)
  qed
qed

subsection \<open>Blocks of whole lines\<close>

definition closeLine :: "string \<Rightarrow> string" where
  "closeLine line = (if line = [] \<or> last line = newline then line else line @ [newline])"

lemma concat_SplitAfterLines: "concat (SplitAfterLines s) = s"
  by (induction s) (auto split: list.splits)

lemma SplitAfterLines_closed: "line \<in> set (butlast (SplitAfterLines s)) \<Longrightarrow> line \<noteq> [] \<and> last line = newline"
  by (induction s arbitrary: line) (auto split: list.splits if_splits)

text \<open>A block: at most the limit, and whole lines.\<close>

definition block_ok :: "nat \<Rightarrow> string \<Rightarrow> bool" where
  "block_ok limit b \<longleftrightarrow> b \<noteq> [] \<and> last b = newline \<and> length b \<le> limit"

lemma closeLine_last: "closeLine line \<noteq> [] \<Longrightarrow> last (closeLine line) = newline"
  by (auto simp: closeLine_def)

lemma chunkLoop_Cons: "chunkLoop limit (line # rest) chunks cur =
    (let l = closeLine line in
     if l = [] then chunkLoop limit rest chunks cur
     else if length l > limit then Inl ErrUnsafeToken
     else if length cur + length l > limit then chunkLoop limit rest (chunks @ [cur]) l
     else chunkLoop limit rest chunks (cur @ l))"
  by (auto simp: closeLine_def Let_def)

lemma chunkLoop_blocks:
  "\<forall>c\<in>set chunks. block_ok limit c \<Longrightarrow> cur = [] \<or> block_ok limit cur \<Longrightarrow>
   case chunkLoop limit ls chunks cur of
      Inr cs \<Rightarrow> concat cs = concat chunks @ cur @ concat (map closeLine ls) \<and> (\<forall>c\<in>set cs. block_ok limit c)
    | Inl e \<Rightarrow> e = ErrUnsafeToken \<and> (\<exists>line\<in>set ls. length (closeLine line) > limit)"
proof (induction ls arbitrary: chunks cur)
  case (Cons line rest)
  let ?l = "closeLine line"
  have fits: "block_ok limit ?l" if "?l \<noteq> []" "\<not> length ?l > limit" using that closeLine_last by (simp add: block_ok_def)
  show ?case
  proof (cases "?l = [] \<or> length ?l > limit")
    case True
    with Cons.IH [OF Cons.prems] show ?thesis by (auto simp: chunkLoop_Cons Let_def simp del: chunkLoop.simps split: sum.splits)
  next
    case False
    with fits have l: "block_ok limit ?l" by blast
    show ?thesis
    proof (cases "length cur + length ?l > limit")
      case True
      then have "block_ok limit cur" using Cons.prems(2) False by auto
      with Cons.IH [of "chunks @ [cur]" ?l] Cons.prems(1) l True False show ?thesis
        by (auto simp: chunkLoop_Cons Let_def simp del: chunkLoop.simps split: sum.splits)
    next
      case more: False
      with l have "block_ok limit (cur @ ?l)" by (auto simp: block_ok_def)
      with Cons.IH [of chunks "cur @ ?l"] Cons.prems(1) more False show ?thesis
        by (auto simp: chunkLoop_Cons Let_def simp del: chunkLoop.simps split: sum.splits)
    qed
  qed
qed auto

lemma map_closeLine: "concat (map closeLine (SplitAfterLines s)) = closeLine s"
proof -
  have "SplitAfterLines s \<noteq> []" by (induction s) (auto split: list.splits)
  then obtain xs x where ls: "SplitAfterLines s = xs @ [x]" by (metis append_butlast_last_id)
  have xs: "\<forall>l\<in>set xs. l \<noteq> [] \<and> last l = newline" using SplitAfterLines_closed [of _ s] by (simp add: ls)
  then have "map closeLine xs = xs" by (intro map_idI) (auto simp: closeLine_def)
  then have "concat (map closeLine (SplitAfterLines s)) = concat xs @ closeLine x" by (simp add: ls)
  also have "\<dots> = closeLine (concat xs @ x)"
  proof (cases "x = []")
    case True
    have "concat xs = [] \<or> last (concat xs) = newline" using xs by (cases xs rule: rev_cases) auto
    with True show ?thesis by (auto simp: closeLine_def)
  qed (auto simp: closeLine_def)
  also have "concat xs @ x = s" using concat_SplitAfterLines [of s] by (simp add: ls)
  finally show ?thesis .
qed

lemma chunkLines_Inr:
  assumes "chunkLines body limit = Inr cs"
  shows "concat cs = closeLine body" "\<forall>c\<in>set cs. block_ok limit c"
  using chunkLoop_blocks [of "[]" limit "[]" "SplitAfterLines body"] assms by (simp_all add: chunkLines_def map_closeLine)

subsection \<open>The payloads hold the entries of the file\<close>

definition mapEntriesOf :: "string \<Rightarrow> Entry list" where
  "mapEntriesOf body = (case ParseMapEntries body of None \<Rightarrow> [] | Some es \<Rightarrow> es)"

lemma mapEntriesOf_lines: "mapEntriesOf s = parseEntries (SplitLines s)"
  by (auto simp: mapEntriesOf_def ParseMapEntries_def parseEntries_def skipLine_def Let_def)

lemma mapEntriesOf_Nil [simp]: "mapEntriesOf [] = []"
  by (simp add: mapEntriesOf_def ParseMapEntries_def)

lemma mapEntriesOf_append: "line_end s \<Longrightarrow> mapEntriesOf (s @ t) = mapEntriesOf s @ mapEntriesOf t"
  using parse_append [of s t 0] parseEntries_parse [of _ 0] parseEntries_parse [of t "int (length s)"]
  by (simp add: mapEntriesOf_lines)

lemma mapEntriesOf_concat: "\<forall>c\<in>set cs. line_end c \<Longrightarrow> mapEntriesOf (concat cs) = concat (map mapEntriesOf cs)"
  by (induction cs) (auto simp: mapEntriesOf_append)

lemma entryLine_one:
  assumes "entry_ok e" "newline \<notin> set (entryLine e)"
  shows "mapEntriesOf (entryLine e @ [newline]) = [e]"
proof -
  have "SplitLines w = [w]" if "newline \<notin> set w" for w using that by (induction w) auto
  with assms(2) have "SplitLines (entryLine e @ [newline]) = [entryLine e, []]" by (simp add: SplitLines_append)
  with entry_reads_back [OF assms(1)] parseEntries_Cons [of "entryLine e" "[[]]"] show ?thesis
    by (simp add: mapEntriesOf_lines) (simp add: parseEntries_def skipLine_def)
qed

lemma parsed_no_newline:
  assumes "e \<in> set (parseEntries (SplitLines s))"
  shows "newline \<notin> set (entryLine e)"
proof -
  have lines: "l \<in> set (SplitLines s) \<Longrightarrow> newline \<notin> set l" for l by (induction s arbitrary: l) (auto split: list.splits if_splits)
  from assms obtain line n where l: "line \<in> set (SplitLines s)" "splitEntry (TrimSpace line) = (ent_Key e, ent_Value e, n)"
    using parsed_from by blast
  from l(1) lines set_TrimSpace [of line] have t: "newline \<notin> set (TrimSpace line)" by blast
  have "set (TrimSpace (drop k w)) \<subseteq> set w" "set (take k w) \<subseteq> set w" for k w
    using set_TrimSpace [of "drop k w"] set_drop_subset set_take_subset by fast+
  moreover have "ent_Key e = TrimSpace line \<and> ent_Value e = [] \<or>
      (\<exists>k. ent_Key e = take k (TrimSpace line) \<and> ent_Value e = TrimSpace (drop (Suc k) (TrimSpace line)))"
    using l(2) by (simp add: splitEntry_def split: option.splits) metis+
  ultimately have "set (ent_Key e) \<union> set (ent_Value e) \<subseteq> set (TrimSpace line)" by fastforce
  with t show ?thesis by (auto simp: entryLine_def)
qed

lemma mapPayload_entries: "mapEntriesOf (mapPayload body) = mapEntriesOf body" "line_end (mapPayload body)"
proof -
  let ?es = "mapEntriesOf body"
  have pay: "mapPayload body = concat (map (\<lambda>e. entryLine e @ [newline]) ?es)"
    by (simp add: mapPayload_def mapEntriesOf_def entryLine_def split: option.split)
  have "mapEntriesOf (entryLine e @ [newline]) = [e]" if "e \<in> set ?es" for e
    using entryLine_one parsed_entry_ok parsed_no_newline that by (simp add: mapEntriesOf_lines)
  then have "concat (map mapEntriesOf (map (\<lambda>e. entryLine e @ [newline]) ?es)) = ?es" by (simp add: comp_def cong: map_cong)
  moreover have "\<forall>c\<in>set (map (\<lambda>e. entryLine e @ [newline]) ?es). line_end c" by (auto simp: line_end_def)
  ultimately show "mapEntriesOf (mapPayload body) = ?es" using mapEntriesOf_concat pay by metis
  show "line_end (mapPayload body)" unfolding pay by (cases ?es rule: rev_cases) (auto simp: line_end_def)
qed

text \<open>
  Replacing a map pushes exactly the entries of its file: the payload blocks of the compiled program,
  each read by itself, give the entries of the file in order, whatever comments and blanks the file has.
  No block cuts a line or exceeds the payload limit, and the version that receives them is prepared before
  and committed after.
\<close>

theorem map_replace_delivers:
  assumes "op_Kind op = OpMapReplace" "Compile op content = Inr prog" "content (op_Path op) = Inr body"
  shows "\<exists>blocks. map cm_Payload (pr_Commands prog) = [''''] @ blocks @ [''''] \<and>
    concat (map mapEntriesOf blocks) = mapEntriesOf body \<and> (\<forall>b\<in>set blocks. block_ok MaxPayloadBytes b)"
proof -
  have "map_of compilers (op_wire OpMapReplace) = Some compileMapReplace" by (simp add: compilers_def)
  with assms obtain cmds abort where run: "compileMapReplace op content = Inr (cmds, abort)" and prog: "pr_Commands prog = cmds"
    by (auto simp: Compile_def split: sum.splits)
  from compileMapReplace_Inr [OF run] assms(3) obtain blocks where blocks: "chunkLines (mapPayload body) MaxPayloadBytes = Inr blocks"
    and c: "cmds = [mkCommand (''prepare map '' @ op_Path op)\<lparr>cm_Expect := ''version created'', cm_Capture := True\<rparr>] @
      map (\<lambda>chunk. mkCommand (''add map @'' @ VersionPlaceholder @ '' '' @ op_Path op)\<lparr>cm_Payload := chunk\<rparr>) blocks @
      [mkCommand (''commit map @'' @ VersionPlaceholder @ '' '' @ op_Path op)]"
    by auto
  have cmds: "map cm_Payload cmds = [''''] @ blocks @ ['''']" by (simp add: c mkCommand_def comp_def)
  note whole = chunkLines_Inr [OF blocks]
  have "closeLine (mapPayload body) = mapPayload body" using mapPayload_entries(2) [of body] by (auto simp: closeLine_def line_end_def)
  with whole(1) have "mapEntriesOf (concat blocks) = mapEntriesOf body" by (simp add: mapPayload_entries)
  moreover have "\<forall>b\<in>set blocks. line_end b" using whole(2) by (auto simp: block_ok_def line_end_def)
  ultimately show ?thesis using whole(2) cmds prog mapEntriesOf_concat by metis
qed

definition sampleReplace :: Op where "sampleReplace = (mkOp OpMapReplace)\<lparr>op_Path := ''m''\<rparr>"
definition sampleMapFile :: string where
  "sampleMapFile = ''# routes'' @ [newline] @ '' a  1'' @ [newline, newline] @ ''b'' @ [newline]"

theorem map_replace_delivers_witness:
  "\<exists>blocks. map cm_Payload (pr_Commands (projr (Compile sampleReplace (\<lambda>_. Inr sampleMapFile)))) = [''''] @ blocks @ [''''] \<and>
    concat (map mapEntriesOf blocks) = [\<lparr>ent_Key = ''a'', ent_Value = ''1''\<rparr>, \<lparr>ent_Key = ''b'', ent_Value = ''''\<rparr>] \<and>
    list_all (block_ok MaxPayloadBytes) blocks"
proof -
  have "Compile sampleReplace (\<lambda>_. Inr sampleMapFile) = Inr (projr (Compile sampleReplace (\<lambda>_. Inr sampleMapFile)))" by code_simp
  moreover have "op_Kind sampleReplace = OpMapReplace" by code_simp
  ultimately have "\<exists>blocks. map cm_Payload (pr_Commands (projr (Compile sampleReplace (\<lambda>_. Inr sampleMapFile)))) = [''''] @ blocks @ [''''] \<and>
    concat (map mapEntriesOf blocks) = mapEntriesOf sampleMapFile \<and> (\<forall>b\<in>set blocks. block_ok MaxPayloadBytes b)"
    using map_replace_delivers by blast
  moreover have "mapEntriesOf sampleMapFile = [\<lparr>ent_Key = ''a'', ent_Value = ''1''\<rparr>, \<lparr>ent_Key = ''b'', ent_Value = ''''\<rparr>]" by code_simp
  ultimately show ?thesis by (simp add: list_all_iff)
qed

end
