(* ===== verification/Runtime_Lines.thy ===== *)
theory Runtime_Lines
  imports Runtime_Exec Map_Payload
begin

section \<open>What the worker reads\<close>

text \<open>
  The worker cuts a line at \<open>;\<close> into commands and, when the last one ends with \<open><<\<close> and a pattern, takes
  the lines up to the first that equals the pattern as its payload. Every line the executor sends is read
  as exactly the commands it was joined from, because compiled commands hold neither separators nor the
  terminator: the contract \<open>command_source\<close> between the compiler and the executor.
\<close>

definition sendable :: "Command \<Rightarrow> bool" where
  "sendable c \<longleftrightarrow> newline \<notin> set (cm_Text c) \<and> CHR '';'' \<notin> set (cm_Text c) \<and> PayloadTerminator \<notin> set (SplitLines (cm_Payload c))"

definition worker_line :: "string \<Rightarrow> Command list \<Rightarrow> bool" where
  "worker_line line cmds \<longleftrightarrow> cmds \<noteq> [] \<and>
     (let payload = cm_Payload (last cmds) in
      if payload = ''''
      then \<exists>first. SplitLines line = [first] \<and> split_on (CHR '';'') first = experimentalPrefix # map cm_Text cmds
      else \<exists>first body. SplitLines line = first # body @ [PayloadTerminator] \<and> PayloadTerminator \<notin> set body \<and>
        split_on (CHR '';'') first = experimentalPrefix # map cm_Text (butlast cmds) @ [cm_Text (last cmds) @ '' <<'' @ PayloadTerminator] \<and>
        concat (map (\<lambda>l. l @ [newline]) body) = closeLine payload)"

lemma split_on_sep: "c \<notin> set w \<Longrightarrow> split_on c (w @ c # s) = w # split_on c s" "c \<notin> set w \<Longrightarrow> split_on c w = [w]"
  by (induction w) auto

lemma split_on_joined:
  assumes "\<forall>t\<in>set ts. c \<notin> set t" "c \<notin> set w"
  shows "split_on c (w @ concat (map (\<lambda>t. c # t) ts)) = w # ts"
  using assms by (induction ts arbitrary: w) (auto simp: split_on_sep)

lemma SplitLines_plain: "newline \<notin> set w \<Longrightarrow> SplitLines w = [w]"
  by (induction w) auto

lemma SplitLines_rejoin: "concat (map (\<lambda>l. l @ [newline]) (SplitLines w)) = w @ [newline]"
  by (induction w) (auto split: list.splits)

lemma joinLine_read:
  assumes ne: "pending \<noteq> []" and ok: "\<forall>p\<in>set pending. sendable (snd p)"
  shows "worker_line (joinLine pending) (map snd pending)"
proof -
  let ?texts = "map (cm_Text \<circ> snd) pending" and ?pay = "cm_Payload (snd (last pending))"
  have semi: "\<forall>t\<in>set ?texts. CHR '';'' \<notin> set t" "\<forall>t\<in>set ?texts. newline \<notin> set t" using ok by (auto simp: sendable_def)
  have pre: "CHR '';'' \<notin> set experimentalPrefix" "newline \<notin> set experimentalPrefix" by (simp_all add: experimentalPrefix_def)
  have head: "concat (map (\<lambda>p. '';'' @ cm_Text (snd p)) pending) = concat (map (\<lambda>t. CHR '';'' # t) ?texts)"
    by (simp add: comp_def)
  show ?thesis
  proof (cases "?pay = []")
    case True
    then have line: "joinLine pending = experimentalPrefix @ concat (map (\<lambda>t. CHR '';'' # t) ?texts)"
      unfolding joinLine_def Let_def by (simp add: comp_def)
    have "newline \<notin> set (joinLine pending)" unfolding line using semi(2) pre(2) by auto
    then have "SplitLines (joinLine pending) = [joinLine pending]" by (rule SplitLines_plain)
    moreover have "split_on (CHR '';'') (joinLine pending) = experimentalPrefix # ?texts"
      unfolding line by (rule split_on_joined [OF semi(1) pre(1)])
    ultimately show ?thesis using True ne by (simp add: worker_line_def last_map)
  next
    case False
    let ?tail = "cm_Text (snd (last pending)) @ '' <<'' @ PayloadTerminator"
    let ?first = "experimentalPrefix @ concat (map (\<lambda>t. CHR '';'' # t) (map (cm_Text \<circ> snd) (butlast pending) @ [?tail]))"
    have texts: "?texts = map (cm_Text \<circ> snd) (butlast pending) @ [cm_Text (snd (last pending))]"
      by (subst append_butlast_last_id [OF ne, symmetric]) simp
    have close: "?pay @ (if last ?pay = newline then [] else [newline]) = closeLine ?pay" using False by (simp add: closeLine_def)
    have line: "joinLine pending = ?first @ newline # closeLine ?pay @ PayloadTerminator"
      unfolding joinLine_def Let_def head texts close [symmetric] using False by simp
    have T: "newline \<notin> set PayloadTerminator" "CHR '';'' \<notin> set ?tail" "newline \<notin> set ?tail"
      using semi ne by (auto simp: PayloadTerminator_def)
    have first: "newline \<notin> set ?first" using semi(2) pre T(3) by (auto dest: in_set_butlastD)
    obtain q where q: "closeLine ?pay = q @ [newline]" "?pay = q \<or> ?pay = q @ [newline]"
      using False by (metis append_butlast_last_id closeLine_def)
    let ?body = "SplitLines q"
    have "PayloadTerminator \<notin> set (SplitLines ?pay)" using ok ne by (simp add: sendable_def)
    then have none: "PayloadTerminator \<notin> set ?body" using q(2) by (auto simp: SplitLines_append)
    have whole: "SplitLines (closeLine ?pay @ PayloadTerminator) = ?body @ [PayloadTerminator]"
      by (simp add: q(1) SplitLines_append SplitLines_plain [OF T(1)])
    have "SplitLines (joinLine pending) = ?first # ?body @ [PayloadTerminator]"
      unfolding line SplitLines_append SplitLines_plain [OF first] whole by simp
    moreover have "split_on (CHR '';'') ?first = experimentalPrefix # map cm_Text (butlast (map snd pending)) @ [?tail]"
    proof -
      have "\<forall>t\<in>set (map (cm_Text \<circ> snd) (butlast pending) @ [?tail]). CHR '';'' \<notin> set t"
        using semi(1) T(2) by (auto dest: in_set_butlastD)
      from split_on_joined [OF this pre(1)] show ?thesis by (simp add: map_butlast)
    qed
    ultimately show ?thesis using False ne SplitLines_rejoin [of q] q(1) none unfolding worker_line_def by (auto simp: last_map)
  qed
qed

subsection \<open>Every line sent is read as its commands\<close>

definition substituted :: "string \<Rightarrow> Command \<Rightarrow> Command" where
  "substituted v c = c\<lparr>cm_Text := ReplaceAll (cm_Text c) VersionPlaceholder v\<rparr>"

definition version_ok :: "string \<Rightarrow> bool" where
  "version_ok v \<longleftrightarrow> list_all is_digit v"

lemma mapVersion_ok [simp]: "version_ok (mapVersion out)"
  by (simp add: mapVersion_def version_ok_def Let_def split: option.split)

subsection \<open>Verdicts\<close>

text \<open>One verdict per program, with the first failure marked; \<open>outcome\<close> relates the error of a step to the mark.\<close>

definition verdicts :: "string list \<Rightarrow> execution \<Rightarrow> bool" where
  "verdicts kinds e \<longleftrightarrow> map or_Kind (ex_results e) = kinds \<and> (\<forall>p\<in>set (ex_pending e). fst p < length kinds) \<and>
     (case ex_failed e of None \<Rightarrow> \<forall>r\<in>set (ex_results e). or_OK r | Some i \<Rightarrow> i < length kinds \<and> \<not> or_OK (ex_results e ! i))"

definition outcome :: "string list \<Rightarrow> execution \<Rightarrow> execution \<times> exec_error option \<Rightarrow> bool" where
  "outcome kinds e = (\<lambda>(e', x). verdicts kinds e' \<and>
     (ex_failed e' = None \<longleftrightarrow> ex_failed e = None \<and> (x = None \<or> x = Some SocketError)))"

lemma outcome_recordResult:
  assumes "verdicts kinds e" "i < length kinds"
  shows "outcome kinds e (recordResult i r e)"
proof (cases "cr_Err r")
  case (Some err)
  have len: "length (ex_results e) = length kinds" using assms(1) by (metis length_map verdicts_def)
  have "map or_Kind ((ex_results e)[i := \<lparr>or_Kind = or_Kind (ex_results e ! i), or_OK = False, or_Output = out\<rparr>]) = map or_Kind (ex_results e)" for out
    using assms(2) len by (simp add: map_update list_update_same_conv)
  with Some assms len show ?thesis
    by (auto simp: outcome_def recordResult_def verdicts_def Let_def nth_list_update split: option.splits)
qed (use assms in \<open>auto simp: outcome_def recordResult_def\<close>)

lemma outcome_recordAll: "verdicts kinds e \<Longrightarrow> \<forall>p\<in>set pending. fst p < length kinds \<Longrightarrow> outcome kinds e (recordAll pending rs e)"
proof (induction pending rs e rule: recordAll.induct)
  case (1 i cmd pending r rs e)
  let ?e1 = "if cm_Capture cmd \<and> cr_Err r = None then e\<lparr>ex_version := mapVersion (cr_Output r)\<rparr> else e"
  obtain e2 y where two: "recordResult i r ?e1 = (e2, y)" by fastforce
  have "verdicts kinds ?e1" "ex_failed ?e1 = ex_failed e" using 1(2) by (auto simp: verdicts_def split: option.splits)
  with outcome_recordResult [of kinds ?e1 i r] 1(3) two have o2: "outcome kinds e (e2, y)" by (simp add: outcome_def)
  have "y \<noteq> Some SocketError" using two by (auto simp: recordResult_def Let_def split: option.splits)
  with o2 1(1) [OF refl two [symmetric] refl] 1(3) two show ?case by (auto simp: outcome_def Let_def split: prod.splits)
qed (auto simp: outcome_def)

lemma outcome_flush: "verdicts kinds e \<Longrightarrow> outcome kinds e (flush sock e)"
  using outcome_recordAll [of kinds "e\<lparr>ex_pending := [], ex_length := 0, ex_sent := ex_sent e @ [joinLine (ex_pending e)]\<rparr>" "ex_pending e"]
  by (auto simp: flush_def ExecuteRaw_def Let_def outcome_def verdicts_def split: option.splits)

lemma outcome_then:
  assumes "outcome kinds e (e1, None)" "outcome kinds e1 r"
  shows "outcome kinds e r"
  using assms by (auto simp: outcome_def)

lemma outcome_add:
  assumes "verdicts kinds e" "i < length kinds"
  shows "outcome kinds e (addCommand sock i cmd e)"
proof -
  let ?solo = "cm_Payload cmd \<noteq> '''' \<or> cm_Capture cmd"
  let ?full = "?solo \<or> ex_length e + length (cm_Text cmd) \<ge> MaxCommandLineBytes - lineReserve"
  obtain e1 y where one: "(if ?full then flush sock e else (e, None)) = (e1, y)" by fastforce
  have o1: "outcome kinds e (e1, y)"
    using outcome_flush [OF assms(1), of sock] one assms(1) by (auto simp: outcome_def split: if_splits)
  let ?e2 = "e1\<lparr>ex_pending := ex_pending e1 @ [(i, cmd)], ex_length := ex_length e1 + length (cm_Text cmd) + 1\<rparr>"
  have two: "outcome kinds e (?e2, None)" if "y = None" using o1 assms(2) that by (auto simp: outcome_def verdicts_def)
  with outcome_then [OF two outcome_flush [of kinds ?e2 sock]] o1 one show ?thesis
    by (cases y) (auto simp: addCommand_def Let_def outcome_def)
qed

lemma repeatLoop_keeps:
  assumes "repeatLoop sock n i cmd k e = (e', x)"
  shows "ex_results e' = ex_results e \<and> ex_failed e' = ex_failed e \<and> ex_pending e' = ex_pending e \<and> (\<forall>err. x = Inl err \<longrightarrow> err = SocketError)"
  using assms by (induction n arbitrary: k e) (auto simp: onceCommand_def ExecuteRaw_def split: option.splits if_splits)

lemma outcome_repeat:
  assumes "verdicts kinds e" "i < length kinds"
  shows "outcome kinds e (repeatCommand sock i cmd e)"
proof -
  obtain e1 y where one: "flush sock e = (e1, y)" by fastforce
  note o1 = outcome_flush [OF assms(1), of sock, unfolded one]
  obtain e2 x where loop: "repeatLoop sock MaxMapDelRepeat i cmd 0 e1 = (e2, x)" by fastforce
  note k = repeatLoop_keeps [OF loop]
  have o2: "outcome kinds e (e2, None)" if "y = None" using o1 k that by (auto simp: outcome_def verdicts_def)
  have rec: "outcome kinds e (recordResult i r e2)" if "y = None" for r
    using outcome_then [OF o2 [OF that] outcome_recordResult [OF _ assms(2)]] o2 [OF that] by (simp add: outcome_def)
  show ?thesis
  proof (cases y)
    case None
    have "outcome kinds e (e2, Some err)" if "x = Inl err" for err using o2 [OF None] k that by (simp add: outcome_def)
    with None one loop rec o2 show ?thesis by (cases x) (simp_all add: repeatCommand_def split: prod.split)
  qed (use one o1 in \<open>simp add: repeatCommand_def\<close>)
qed

lemma outcome_commands: "verdicts kinds e \<Longrightarrow> i < length kinds \<Longrightarrow> outcome kinds e (runCommands sock i cs e)"
proof (induction cs arbitrary: e)
  case (Cons c cs)
  let ?cmd = "c\<lparr>cm_Text := ReplaceAll (cm_Text c) VersionPlaceholder (ex_version e)\<rparr>"
  obtain e1 y where one: "(if cm_Repeat ?cmd then repeatCommand sock i ?cmd e else addCommand sock i ?cmd e) = (e1, y)" by fastforce
  have o1: "outcome kinds e (e1, y)"
    using outcome_repeat [OF Cons.prems, of sock ?cmd] outcome_add [OF Cons.prems, of sock ?cmd] one by (auto split: if_splits)
  with outcome_then [of kinds e e1] Cons.IH [of e1] Cons.prems(2) one show ?case by (cases y) (auto simp: outcome_def Let_def)
qed (simp add: outcome_def)

lemma outcome_all: "verdicts kinds e \<Longrightarrow> i + length ps \<le> length kinds \<Longrightarrow> outcome kinds e (runAll sock i ps e)"
proof (induction ps arbitrary: i e)
  case (Cons p ps)
  obtain e1 y where one: "runCommands sock i (pr_Commands p) e = (e1, y)" by fastforce
  have "outcome kinds e (e1, y)" using outcome_commands [OF Cons.prems(1), of i sock "pr_Commands p"] Cons.prems(2) one by simp
  with outcome_then [of kinds e e1] Cons.IH [of e1 "Suc i"] Cons.prems(2) one show ?case by (cases y) (auto simp: outcome_def)
qed (simp add: outcome_flush)

definition freshExecution :: "Program list \<Rightarrow> string list \<Rightarrow> execution" where
  "freshExecution ps sent = \<lparr>ex_results = map (\<lambda>p. \<lparr>or_Kind = pr_Kind p, or_OK = True, or_Output = ''''\<rparr>) ps, ex_pending = [],
     ex_length = 0, ex_version = '''', ex_failed = None, ex_sent = sent\<rparr>"

lemma fresh_verdicts: "verdicts (map pr_Kind ps) (freshExecution ps sent)"
  by (simp add: verdicts_def freshExecution_def comp_def)

lemma Execute_cases:
  assumes "length ps \<le> MaxOpsPerApply" "Execute sock ps sent = (sent', results, err)"
  shows "\<exists>e1. runAll sock 0 ps (freshExecution ps sent) = (e1, err) \<and> results = ex_results e1 \<and> outcome (map pr_Kind ps) (freshExecution ps sent) (e1, err) \<and>
    sent' = ex_sent (case (err, ex_failed e1) of (Some _, Some i) \<Rightarrow> abortProgram sock (ps ! i) e1 | _ \<Rightarrow> e1)"
proof -
  obtain e1 x where "runAll sock 0 ps (freshExecution ps sent) = (e1, x)" by fastforce
  with outcome_all [OF fresh_verdicts, of 0 ps ps sent sock] assms show ?thesis
    by (auto simp: Execute_def freshExecution_def Let_def)
qed

locale command_source =
  fixes given :: "Command \<Rightarrow> bool"
  assumes given_sendable: "given c \<Longrightarrow> sendable c"
begin

definition framed :: "string \<Rightarrow> bool" where
  "framed line \<longleftrightarrow> (\<exists>cmds. worker_line line cmds \<and> (\<forall>c\<in>set cmds. given c))"

definition sound :: "string list \<Rightarrow> execution \<Rightarrow> bool" where
  "sound base e \<longleftrightarrow> (\<exists>new. ex_sent e = base @ new \<and> (\<forall>l\<in>set new. framed l)) \<and> (\<forall>p\<in>set (ex_pending e). given (snd p)) \<and>
     version_ok (ex_version e)"

lemma framed_join: "pending \<noteq> [] \<Longrightarrow> \<forall>p\<in>set pending. given (snd p) \<Longrightarrow> framed (joinLine pending)"
  unfolding framed_def using joinLine_read given_sendable by (metis (no_types, lifting) imageE list.set_map)

lemma sound_sent:
  assumes "sound base e" "framed line" "ExecuteRaw sock line e = (e', r)"
  shows "sound base e'"
proof -
  from assms(1) obtain new where "ex_sent e = base @ new" "\<forall>l\<in>set new. framed l" by (auto simp: sound_def)
  then have "ex_sent (e\<lparr>ex_sent := ex_sent e @ [line]\<rparr>) = base @ new @ [line]" "\<forall>l\<in>set (new @ [line]). framed l"
    using assms(2) by auto
  then show ?thesis using assms(1,3) unfolding sound_def ExecuteRaw_def by fastforce
qed

lemma sound_record: "sound base e \<Longrightarrow> recordResult i r e = (e', x) \<Longrightarrow> sound base e'"
  by (auto simp: recordResult_def sound_def Let_def split: option.splits)

lemma sound_recordAll: "sound base e \<Longrightarrow> recordAll pending rs e = (e', x) \<Longrightarrow> sound base e'"
proof (induction pending rs e arbitrary: e' x rule: recordAll.induct)
  case (1 i cmd pending r rs e)
  let ?e1 = "if cm_Capture cmd \<and> cr_Err r = None then e\<lparr>ex_version := mapVersion (cr_Output r)\<rparr> else e"
  obtain e2 y where two: "recordResult i r ?e1 = (e2, y)" by fastforce
  have "sound base ?e1" using 1(2) by (simp add: sound_def)
  then have "sound base e2" using sound_record two by blast
  with 1(1) [OF refl two [symmetric] refl] 1(3) two show ?case by (auto simp: Let_def split: prod.splits)
qed auto

lemma sound_flush: "sound base e \<Longrightarrow> flush sock e = (e', x) \<Longrightarrow> sound base e'"
proof (cases "ex_pending e = []")
  case False
  assume sound: "sound base e" and run: "flush sock e = (e', x)"
  let ?e = "e\<lparr>ex_pending := [], ex_length := 0\<rparr>"
  obtain e1 raw where send: "ExecuteRaw sock (joinLine (ex_pending e)) ?e = (e1, raw)" by fastforce
  have "sound base ?e" "framed (joinLine (ex_pending e))" using sound framed_join [OF False] by (simp_all add: sound_def)
  then have "sound base e1" using sound_sent send by blast
  with run send False sound_recordAll show ?thesis by (cases raw) (auto simp: flush_def Let_def)
qed (auto simp: flush_def)

lemma sound_add: "sound base e \<Longrightarrow> given cmd \<Longrightarrow> addCommand sock i cmd e = (e', x) \<Longrightarrow> sound base e'"
proof -
  assume sound: "sound base e" and given: "given cmd" and run: "addCommand sock i cmd e = (e', x)"
  let ?solo = "cm_Payload cmd \<noteq> '''' \<or> cm_Capture cmd"
  let ?full = "?solo \<or> ex_length e + length (cm_Text cmd) \<ge> MaxCommandLineBytes - lineReserve"
  obtain e1 y where one: "(if ?full then flush sock e else (e, None)) = (e1, y)" by fastforce
  have s1: "sound base e1" using sound_flush sound one by (auto split: if_splits)
  let ?e2 = "e1\<lparr>ex_pending := ex_pending e1 @ [(i, cmd)], ex_length := ex_length e1 + length (cm_Text cmd) + 1\<rparr>"
  have "sound base ?e2" using s1 given by (auto simp: sound_def)
  with run one s1 sound_flush [of base ?e2] show ?thesis by (auto simp: addCommand_def Let_def split: option.splits if_splits)
qed

lemma sound_loop: "sound base e \<Longrightarrow> given cmd \<Longrightarrow> repeatLoop sock n i cmd k e = (e', x) \<Longrightarrow> sound base e'"
proof (induction n arbitrary: k e)
  case (Suc n)
  obtain e1 raw where send: "ExecuteRaw sock (joinLine [(i, cmd)]) e = (e1, raw)" by fastforce
  have "sound base e1" using sound_sent [OF Suc.prems(1) _ send] framed_join [of "[(i, cmd)]"] Suc.prems(2) by simp
  with Suc.prems Suc.IH send show ?case by (auto simp: onceCommand_def split: option.splits if_splits)
qed simp

lemma sound_repeat: "sound base e \<Longrightarrow> given cmd \<Longrightarrow> repeatCommand sock i cmd e = (e', x) \<Longrightarrow> sound base e'"
proof -
  assume sound: "sound base e" and given: "given cmd" and run: "repeatCommand sock i cmd e = (e', x)"
  obtain e1 y where one: "flush sock e = (e1, y)" by fastforce
  obtain e2 z where loop: "repeatLoop sock MaxMapDelRepeat i cmd 0 e1 = (e2, z)" by fastforce
  have s1: "sound base e1" using sound_flush sound one by blast
  then have s2: "sound base e2" using sound_loop given loop by blast
  then have s3: "recordResult i r e2 = (e', x) \<Longrightarrow> sound base e'" for r using sound_record by blast
  show "sound base e'"
    using run one loop s1 s2 s3 by (cases y; cases z) (auto simp: repeatCommand_def split: if_splits)
qed

lemma sound_commands:
  "sound base e \<Longrightarrow> \<forall>c\<in>set cs. \<forall>v. version_ok v \<longrightarrow> given (substituted v c) \<Longrightarrow> runCommands sock i cs e = (e', x) \<Longrightarrow> sound base e'"
proof (induction cs arbitrary: e)
  case (Cons c cs)
  let ?cmd = "c\<lparr>cm_Text := ReplaceAll (cm_Text c) VersionPlaceholder (ex_version e)\<rparr>"
  have given: "given ?cmd" using Cons.prems(1,2) by (simp add: sound_def substituted_def)
  obtain e1 y where one: "(if cm_Repeat ?cmd then repeatCommand sock i ?cmd e else addCommand sock i ?cmd e) = (e1, y)" by fastforce
  have "sound base e1" using one sound_repeat [OF Cons.prems(1) given] sound_add [OF Cons.prems(1) given] by (auto split: if_splits)
  with Cons.IH Cons.prems(2,3) one show ?case by (cases y) (auto simp: Let_def)
qed simp

definition offers :: "Program \<Rightarrow> bool" where
  "offers p \<longleftrightarrow> (\<forall>c\<in>set (pr_Commands p). \<forall>v. version_ok v \<longrightarrow> given (substituted v c)) \<and>
     (\<forall>c\<in>set (pr_Abort p). given c \<and> cm_Payload c = '''')"

lemma sound_all: "sound base e \<Longrightarrow> \<forall>p\<in>set ps. offers p \<Longrightarrow> runAll sock i ps e = (e', x) \<Longrightarrow> sound base e'"
proof (induction ps arbitrary: i e)
  case (Cons p ps)
  obtain e1 y where one: "runCommands sock i (pr_Commands p) e = (e1, y)" by fastforce
  have "sound base e1" using sound_commands [OF Cons.prems(1) _ one] Cons.prems(2) by (simp add: offers_def)
  with Cons one show ?case by (auto split: option.splits)
qed (simp add: sound_flush)

lemma sound_abort:
  assumes "sound base e" "offers p"
  shows "sound base (abortProgram sock p e)"
proof -
  have "sound base (foldl (\<lambda>e cmd. fst (Raw sock (cm_Text cmd) e)) e cs)" if "\<forall>c\<in>set cs. given c \<and> cm_Payload c = ''''" for cs
    using assms(1) that
  proof (induction cs arbitrary: e)
    case (Cons c cs)
    have "joinLine [(0, c)] = experimentalPrefix @ '';'' @ cm_Text c" using Cons.prems(2) by (simp add: joinLine_def)
    then have "framed (experimentalPrefix @ '';'' @ cm_Text c)" using framed_join [of "[(0, c)]"] Cons.prems(2) by simp
    with sound_sent [OF Cons.prems(1)] have "sound base (fst (Raw sock (cm_Text c) e))" unfolding Raw_def by (metis prod.collapse)
    with Cons show ?case by simp
  qed simp
  with assms(2) show ?thesis by (simp add: abortProgram_def offers_def)
qed

lemma Execute_framed:
  assumes "\<forall>p\<in>set ps. offers p" and run: "Execute sock ps sent = (sent', results, err)"
  shows "\<exists>new. sent' = sent @ new \<and> (\<forall>l\<in>set new. framed l)"
proof (cases "length ps > MaxOpsPerApply")
  case False
  then obtain e1 where one: "runAll sock 0 ps (freshExecution ps sent) = (e1, err)"
    and o1: "outcome (map pr_Kind ps) (freshExecution ps sent) (e1, err)"
    and sent': "sent' = ex_sent (case (err, ex_failed e1) of (Some _, Some i) \<Rightarrow> abortProgram sock (ps ! i) e1 | _ \<Rightarrow> e1)"
    using Execute_cases [OF _ run] by auto
  have "sound sent (freshExecution ps sent)" by (simp add: sound_def version_ok_def freshExecution_def)
  then have s1: "sound sent e1" using sound_all assms(1) one by blast
  have "ps ! i \<in> set ps" if "ex_failed e1 = Some i" for i using o1 that by (simp add: outcome_def verdicts_def)
  then have "sound sent (case (err, ex_failed e1) of (Some _, Some i) \<Rightarrow> abortProgram sock (ps ! i) e1 | _ \<Rightarrow> e1)"
    using s1 sound_abort assms(1) by (auto split: option.split)
  then show ?thesis unfolding sent' sound_def by blast
qed (use run in \<open>auto simp: Execute_def\<close>)

end

subsection \<open>Compiled programs are such a source\<close>

definition issued :: "Program list \<Rightarrow> Command \<Rightarrow> bool" where
  "issued ps c \<longleftrightarrow> (\<exists>p\<in>set ps. (\<exists>op content. Compile op content = Inr p) \<and>
     (c \<in> set (pr_Abort p) \<or> (\<exists>c0\<in>set (pr_Commands p). \<exists>v. version_ok v \<and> c = substituted v c0)))"

lemma split_blank_set: "set t \<subseteq> insert (CHR '' '') (\<Union>w\<in>set (split_blank acc t). set w)"
proof (induction acc t rule: split_blank.induct)
  have kept: "set acc \<subseteq> (\<Union>w\<in>set (split_blank acc cs). set w)" for acc cs
    by (induction acc cs rule: split_blank.induct) auto
  case (2 acc c cs)
  show ?case
  proof (cases "c = CHR '' ''")
    case False
    with 2(3) [OF False] kept [of "acc @ [c]" cs] show ?thesis by auto
  qed (use 2(1,2) in \<open>cases "acc = []"; auto\<close>)
qed simp

lemma command_line_chars:
  assumes "command_line t"
  shows "newline \<notin> set t" "CHR '';'' \<notin> set t"
proof -
  have "newline \<notin> set w \<and> CHR '';'' \<notin> set w" if "w \<in> set (split_blank [] t)" for w
  proof -
    have "command_word w" using assms that by (simp add: command_line_def list_all_iff)
    then show ?thesis by (auto simp: command_word_def SafeToken_def unsafeRunes_def list_ex_iff VersionPlaceholder_def)
  qed
  with split_blank_set [of t "[]"] show "newline \<notin> set t" "CHR '';'' \<notin> set t" by auto
qed

lemma set_ReplaceAll: "set (ReplaceAll s old new) \<subseteq> set s \<union> set new"
proof (induction s old new rule: ReplaceAll.induct)
  case (1 s old new)
  show ?case
  proof (cases "s = [] \<or> old = []")
    case True
    then show ?thesis by (simp add: ReplaceAll.simps)
  next
    case False
    show ?thesis
    proof (cases "HasPrefix s old")
      case True
      with False 1(1) set_drop_subset [of "length old" s] show ?thesis by (subst ReplaceAll.simps) auto
    next
      case no: False
      from False have s: "s = hd s # tl s" by simp
      from False no have "ReplaceAll s old new = hd s # ReplaceAll (tl s) old new" by (subst ReplaceAll.simps) simp
      moreover have "set s = insert (hd s) (set (tl s))" using s by (metis list.simps(15))
      ultimately show ?thesis using 1(2) [OF False no] by auto
    qed
  qed
qed

lemma checkCommands_None: "checkCommands cmds = None \<longleftrightarrow>
   (\<forall>c\<in>set cmds. length (cm_Text c) \<le> MaxCommandLineBytes \<and> length (cm_Payload c) \<le> MaxPayloadBytes \<and> validatePayloadBlock (cm_Payload c) = None)"
  by (induction cmds) (auto split: option.splits)

lemma no_terminator: "validatePayloadBlock p = None \<Longrightarrow> PayloadTerminator \<notin> set (SplitLines p)"
  by (auto simp: validatePayloadBlock_def list_ex_iff trimCR_def PayloadTerminator_def split: if_splits)

definition bare_aborts :: "compiler \<Rightarrow> bool" where
  "bare_aborts build \<longleftrightarrow> (\<forall>op content cmds abort. build op content = Inr (cmds, abort) \<longrightarrow> (\<forall>c\<in>set abort. cm_Payload c = ''''))"

lemma bare_aborts_server:
  "bare_aborts compileBackendAdd" "bare_aborts (compileBackendVerb v e)" "bare_aborts (compileServerVerb v e)" "bare_aborts compileWaitBackend"
  "bare_aborts compileWaitServer" "bare_aborts compileServerAdd" "bare_aborts compileServerEnable" "bare_aborts compileServerSetAddr"
  "bare_aborts compileServerSetWeight" "bare_aborts compileServerSetState"
  by (auto simp: bare_aborts_def compileBackendAdd_def compileBackendVerb_def compileServerVerb_def compileWaitBackend_def compileWaitServer_def
      compileServerAdd_def compileServerEnable_def compileServerSetAddr_def compileServerSetWeight_def compileServerSetState_def withRef_Inr
      Let_def split: if_splits sum.splits option.splits)

lemma bare_aborts_files:
  "bare_aborts compileMapAdd" "bare_aborts compileMapSet" "bare_aborts compileMapDel" "bare_aborts compileMapReplace"
  "bare_aborts (compileCert create)" "bare_aborts (compileCA create)" "bare_aborts compileCRTListAdd" "bare_aborts compileCRTListDel"
  by (auto simp: bare_aborts_def compileMapAdd_def compileMapSet_def compileMapDel_def compileCert_def compileCA_def compileCRTListAdd_def
      compileCRTListDel_def withContent_Inr mkCommand_def dest!: compileMapReplace_Inr split: sum.splits)

lemma aborts_bare:
  assumes "Compile op content = Inr p" "c \<in> set (pr_Abort p)"
  shows "cm_Payload c = ''''"
proof -
  have all: "\<forall>build\<in>snd ` set compilers. bare_aborts build" by (simp add: compilers_def bare_aborts_server bare_aborts_files)
  from assms(1) obtain build cmds abort where "map_of compilers (op_wire (op_Kind op)) = Some build" "build op content = Inr (cmds, abort)"
    "pr_Abort p = abort"
    by (auto simp: Compile_def split: option.splits sum.splits prod.splits)
  moreover from this(1) all have "bare_aborts build" using map_of_SomeD by fastforce
  ultimately show ?thesis using assms(2) unfolding bare_aborts_def by blast
qed

interpretation issue: command_source "issued ps" for ps
proof
  fix c
  assume "issued ps c"
  then obtain p op content where p: "Compile op content = Inr p"
    and c: "c \<in> set (pr_Abort p) \<or> (\<exists>c0\<in>set (pr_Commands p). \<exists>v. version_ok v \<and> c = substituted v c0)" unfolding issued_def by blast
  from c show "sendable c"
  proof
    assume "c \<in> set (pr_Abort p)"
    with Compile_lines [OF p] aborts_bare [OF p] command_line_chars show ?thesis by (simp add: sendable_def PayloadTerminator_def)
  next
    assume "\<exists>c0\<in>set (pr_Commands p). \<exists>v. version_ok v \<and> c = substituted v c0"
    then obtain c0 v where c0: "c0 \<in> set (pr_Commands p)" "version_ok v" "c = substituted v c0" by blast
    have "\<not> is_digit newline" "\<not> is_digit (CHR '';'')" by (simp_all add: is_digit_def less_eq_char_def)
    then have "newline \<notin> set v" "CHR '';'' \<notin> set v" using c0(2) by (auto simp: version_ok_def list_all_iff)
    with c0 Compile_lines [OF p] command_line_chars [of "cm_Text c0"] set_ReplaceAll [of "cm_Text c0" VersionPlaceholder v]
    have "newline \<notin> set (cm_Text c)" "CHR '';'' \<notin> set (cm_Text c)" by (auto simp: substituted_def)
    moreover have "validatePayloadBlock (cm_Payload c0) = None"
      using p c0(1) by (auto simp: Compile_def checkCommands_None split: option.splits sum.splits prod.splits)
    then have "PayloadTerminator \<notin> set (SplitLines (cm_Payload c))" using no_terminator c0(3) by (simp add: substituted_def)
    ultimately show ?thesis by (simp add: sendable_def)
  qed
qed

lemma issue_offers:
  assumes "\<forall>p\<in>set ps. \<exists>op content. Compile op content = Inr p" "p \<in> set ps"
  shows "issue.offers ps p"
  using assms aborts_bare unfolding issue.offers_def issued_def by blast



text \<open>
  C34. A compiled program is well formed: it carries the wire name of its operation, every command and
  cleanup line is a sequence of safe words (or the version to fill in), lines and payloads are within the
  limits, no payload line is the terminator, and cleanup carries no payload.
\<close>

theorem Compile_well_formed:
  assumes "Compile op content = Inr p"
  shows "pr_Kind p = op_wire (op_Kind op) \<and> (\<forall>c\<in>set (pr_Commands p @ pr_Abort p). command_line (cm_Text c)) \<and>
    (\<forall>c\<in>set (pr_Commands p). length (cm_Text c) \<le> MaxCommandLineBytes \<and> length (cm_Payload c) \<le> MaxPayloadBytes \<and>
       PayloadTerminator \<notin> set (SplitLines (cm_Payload c))) \<and>
    (\<forall>c\<in>set (pr_Abort p). cm_Payload c = '''')"
proof -
  have "pr_Kind p = op_wire (op_Kind op)" and ok: "checkCommands (pr_Commands p) = None"
    using assms by (auto simp: Compile_def split: option.splits sum.splits prod.splits)
  moreover from ok have "\<forall>c\<in>set (pr_Commands p). length (cm_Text c) \<le> MaxCommandLineBytes \<and> length (cm_Payload c) \<le> MaxPayloadBytes \<and>
      PayloadTerminator \<notin> set (SplitLines (cm_Payload c))"
    using no_terminator by (simp add: checkCommands_None)
  ultimately show ?thesis using Compile_lines [OF assms] aborts_bare [OF assms] by blast
qed

theorem Compile_well_formed_witness:
  "\<exists>p. Compile ((mkOp OpMapSet)\<lparr>op_Path := ''m'', op_Key := ''k'', op_Value := ''v''\<rparr>) (\<lambda>_. Inl ErrIO) = Inr p \<and> pr_Kind p = ''map_set'' \<and>
    list_all (\<lambda>c. command_line (cm_Text c)) (pr_Commands p @ pr_Abort p)"
proof -
  let ?op = "(mkOp OpMapSet)\<lparr>op_Path := ''m'', op_Key := ''k'', op_Value := ''v''\<rparr>"
  have "\<not> isl (Compile ?op (\<lambda>_. Inl ErrIO))" by code_simp
  then obtain p where p: "Compile ?op (\<lambda>_. Inl ErrIO) = Inr p" by (metis sum.collapse(2))
  with Compile_well_formed [OF p] show ?thesis by (simp add: list_all_iff)
qed

text \<open>A certificate update the worker refuses, followed by a map entry that is never sent.\<close>

definition sampleOps :: "Op list" where
  "sampleOps = [(mkOp OpCertSet)\<lparr>op_Path := ''c''\<rparr>, (mkOp OpMapAdd)\<lparr>op_Path := ''m'', op_Key := ''k'', op_Value := ''a b''\<rparr>]"
definition samplePrograms :: "Program list" where
  "samplePrograms = map (\<lambda>op. projr (Compile op (\<lambda>_. Inr ''pem''))) sampleOps"
definition refusingSocket :: socket where
  "refusingSocket n line = (if n = 0 then Some ''[3]: failed'' else Some '''')"
definition sampleRun :: "string list \<times> OpResult list \<times> exec_error option" where
  "sampleRun = Execute refusingSocket samplePrograms []"

lemma samplePrograms_compiled: "\<forall>p\<in>set samplePrograms. \<exists>op content. Compile op content = Inr p"
proof -
  have "list_all (\<lambda>op. \<not> isl (Compile op (\<lambda>_. Inr ''pem''))) sampleOps" by code_simp
  then show ?thesis unfolding samplePrograms_def list_all_iff by (metis (no_types, lifting) imageE list.set_map sum.collapse(2))
qed



text \<open>
  The verdict of a program that was never sent is a success: after a refused certificate the execution
  stops, and the map entry behind it is reported as done although no line carried its command.
\<close>

theorem unsent_reported_ok:
  "snd (snd (Execute refusingSocket samplePrograms [])) = Some (OpFailed ''cert_set'' ErrRejected ''[3]: failed'') \<and>
   or_OK (fst (snd (Execute refusingSocket samplePrograms [])) ! 1) \<and>
   list_all (\<lambda>line. \<not> Contains line ''add map'') (fst (Execute refusingSocket samplePrograms []))"
  by code_simp

end
