(* ===== verification/Deferrals.thy ===== *)
theory Deferrals
  imports Runtime_Exec Monitored_Runs
begin

section \<open>Deferred deletes\<close>

text \<open>
  \<open>src/pkg/dataplane/agent/cli/deferred.go\<close>: the queue of server and backend deletes an apply leaves
  behind, and the goroutine that drains it. The sections under the mutex are functions on the record
  \<open>Deferrals\<close>; what the observer is told is counted in the state. \<open>drain_step\<close> interleaves the sections of
  the apply path (\<open>Enqueue\<close>, \<open>SetWorker\<close>) with the drain, whose position in its two loops is \<open>drain_pc\<close>.
  The conversation of one delete with the worker is \<open>deleteServer\<close> and \<open>deleteBackendOnWorker\<close> over an answer
  function: the answer to the \<open>n\<close>th command, or the error of the generation check or of the session.
  Generations are naturals: 64 bits of worker changes do not wrap.
\<close>

subsection \<open>The queue\<close>

definition MaxDeferredAttempts :: nat where "MaxDeferredAttempts = 5"
definition deferredWaitMs :: int where "deferredWaitMs = 2000"

record ServerRef =
  ref_Backend :: string
  ref_Server :: string

definition ServerRef_String :: "ServerRef \<Rightarrow> string" where
  "ServerRef_String r = ref_Backend r @ ''/'' @ ref_Server r"

record 'a attempt =
  at_Target :: 'a
  at_Tries :: nat
  at_Worker :: HAProxyInfo
  at_Generation :: nat

record outcomes =
  oc_Done :: nat
  oc_Deferred :: nat
  oc_Abandoned :: nat
  oc_Superseded :: nat

record Deferrals =
  df_servers :: "ServerRef attempt list"
  df_backends :: "string attempt list"
  df_worker :: HAProxyInfo
  df_generation :: nat
  df_inFlightServer :: "ServerRef attempt option"
  df_inFlightBackend :: "string attempt option"
  df_serverOutcomes :: outcomes
  df_backendOutcomes :: outcomes

definition noOutcomes :: outcomes where
  "noOutcomes = \<lparr>oc_Done = 0, oc_Deferred = 0, oc_Abandoned = 0, oc_Superseded = 0\<rparr>"

definition noWorker :: HAProxyInfo where
  "noWorker = \<lparr>hi_Version = '''', hi_FullVersion = '''', hi_WorkerPID = 0, hi_WorkerStartTimeUnixMicros = 0\<rparr>"

definition NewDeferrals :: Deferrals where
  "NewDeferrals = \<lparr>df_servers = [], df_backends = [], df_worker = noWorker, df_generation = 0, df_inFlightServer = None,
     df_inFlightBackend = None, df_serverOutcomes = noOutcomes, df_backendOutcomes = noOutcomes\<rparr>"

fun Split :: "Op list \<Rightarrow> Op list \<times> ServerRef list \<times> string list" where
  "Split [] = ([], [], [])"
| "Split (op # ops) =
     (case Split ops of (inline, servers, backends) \<Rightarrow>
        case op_Kind op of
          OpServerDel \<Rightarrow> (inline, \<lparr>ref_Backend = op_Backend op, ref_Server = op_Server op\<rparr> # servers, backends)
        | OpBackendDel \<Rightarrow> (inline, servers, op_Backend op # backends)
        | OpServerWaitRemovable \<Rightarrow> (inline, servers, backends)
        | OpBackendWaitRemovable \<Rightarrow> (inline, servers, backends)
        | OpShutdownSessions \<Rightarrow> (inline, servers, backends)
        | _ \<Rightarrow> (op # inline, servers, backends))"

datatype deferral_error = BadName | ErrDeferralOverflow | ErrWorkerGone

definition validateDeletes :: "ServerRef list \<Rightarrow> string list \<Rightarrow> deferral_error option" where
  "validateDeletes servers backends =
     (if list_ex (\<lambda>s. errors_Join [validateToken (ref_Backend s), validateToken (ref_Server s)] \<noteq> None) servers then Some BadName
      else if list_ex (\<lambda>b. validateToken b \<noteq> None) backends then Some BadName else None)"

definition outstandingServersLocked :: "Deferrals \<Rightarrow> nat" where
  "outstandingServersLocked d =
     (case df_inFlightServer d of
        None \<Rightarrow> length (df_servers d)
      | Some a \<Rightarrow> if at_Generation a \<noteq> df_generation d then length (df_servers d) else length (df_servers d) + 1)"

definition outstandingBackendsLocked :: "Deferrals \<Rightarrow> nat" where
  "outstandingBackendsLocked d =
     (case df_inFlightBackend d of
        None \<Rightarrow> length (df_backends d)
      | Some a \<Rightarrow> if at_Generation a \<noteq> df_generation d then length (df_backends d) else length (df_backends d) + 1)"

definition checkCapacityLocked :: "nat \<Rightarrow> nat \<Rightarrow> Deferrals \<Rightarrow> deferral_error option" where
  "checkCapacityLocked servers backends d =
     (if int (outstandingServersLocked d + servers) > MaxPendingServerDeletes then Some ErrDeferralOverflow
      else if int (outstandingBackendsLocked d + backends) > MaxPendingBackendDeletes then Some ErrDeferralOverflow
      else None)"

definition CheckDeletes :: "ServerRef list \<Rightarrow> string list \<Rightarrow> Deferrals \<Rightarrow> deferral_error option" where
  "CheckDeletes servers backends d =
     (case validateDeletes servers backends of
        Some e \<Rightarrow> Some e
      | None \<Rightarrow> checkCapacityLocked (length servers) (length backends) d)"

definition newAttempt :: "Deferrals \<Rightarrow> 'a \<Rightarrow> 'a attempt" where
  "newAttempt d t = \<lparr>at_Target = t, at_Tries = 0, at_Worker = df_worker d, at_Generation = df_generation d\<rparr>"

definition Enqueue :: "HAProxyInfo \<Rightarrow> ServerRef list \<Rightarrow> string list \<Rightarrow> Deferrals \<Rightarrow> Deferrals \<times> deferral_error option" where
  "Enqueue worker servers backends d =
     (case validateDeletes servers backends of
        Some e \<Rightarrow> (d, Some e)
      | None \<Rightarrow>
          (case checkCapacityLocked (length servers) (length backends) d of
             Some e \<Rightarrow> (d, Some e)
           | None \<Rightarrow>
               if \<not> SameWorker (df_worker d) worker then (d, Some ErrWorkerGone)
               else (d\<lparr>df_servers := df_servers d @ map (newAttempt d) servers,
                       df_backends := df_backends d @ map (newAttempt d) backends\<rparr>, None)))"

definition SetWorker :: "HAProxyInfo \<Rightarrow> Deferrals \<Rightarrow> Deferrals" where
  "SetWorker worker d =
     (if SameWorker (df_worker d) worker then d
      else d\<lparr>df_worker := worker, df_generation := df_generation d + 1,
             df_serverOutcomes := (df_serverOutcomes d)\<lparr>oc_Superseded := oc_Superseded (df_serverOutcomes d) + length (df_servers d)\<rparr>,
             df_backendOutcomes := (df_backendOutcomes d)\<lparr>oc_Superseded := oc_Superseded (df_backendOutcomes d) + length (df_backends d)\<rparr>,
             df_servers := [], df_backends := []\<rparr>)"

record PendingDeletes =
  pd_Servers :: "string list"
  pd_Backends :: "string list"

definition Pending :: "Deferrals \<Rightarrow> PendingDeletes" where
  "Pending d =
     \<lparr>pd_Servers = (case df_inFlightServer d of
          Some a \<Rightarrow> if at_Generation a = df_generation d then [ServerRef_String (at_Target a)] else []
        | None \<Rightarrow> []) @ map (ServerRef_String \<circ> at_Target) (df_servers d),
      pd_Backends = (case df_inFlightBackend d of
          Some a \<Rightarrow> if at_Generation a = df_generation d then [at_Target a] else []
        | None \<Rightarrow> []) @ map at_Target (df_backends d)\<rparr>"

subsection \<open>The drain\<close>

definition takeServer :: "Deferrals \<Rightarrow> Deferrals \<times> ServerRef attempt option" where
  "takeServer d =
     (case df_servers d of
        [] \<Rightarrow> (d, None)
      | a # rest \<Rightarrow> (d\<lparr>df_servers := rest, df_inFlightServer := Some a\<rparr>, Some a))"

definition takeBackend :: "Deferrals \<Rightarrow> Deferrals \<times> string attempt option" where
  "takeBackend d =
     (case df_backends d of
        [] \<Rightarrow> (d, None)
      | a # rest \<Rightarrow> (d\<lparr>df_backends := rest, df_inFlightBackend := Some a\<rparr>, Some a))"

definition completeServer :: "Deferrals \<Rightarrow> Deferrals" where
  "completeServer d = d\<lparr>df_inFlightServer := None,
     df_serverOutcomes := (df_serverOutcomes d)\<lparr>oc_Done := oc_Done (df_serverOutcomes d) + 1\<rparr>\<rparr>"

definition completeBackend :: "Deferrals \<Rightarrow> Deferrals" where
  "completeBackend d = d\<lparr>df_inFlightBackend := None,
     df_backendOutcomes := (df_backendOutcomes d)\<lparr>oc_Done := oc_Done (df_backendOutcomes d) + 1\<rparr>\<rparr>"

text \<open>Why a delete failed; \<open>WorkerGone\<close> is the only cause the requeue looks at.\<close>

datatype delete_error = WorkerGone | SessionFailed | CommandFailed response_error | Unconfirmed

definition requeueServer :: "ServerRef attempt \<Rightarrow> delete_error \<Rightarrow> Deferrals \<Rightarrow> Deferrals" where
  "requeueServer a cause d =
     (let a' = a\<lparr>at_Tries := at_Tries a + 1\<rparr>; give = (at_Tries a' \<ge> MaxDeferredAttempts); o' = df_serverOutcomes d in
      if at_Generation a' \<noteq> df_generation d \<or> cause = WorkerGone
      then d\<lparr>df_inFlightServer := None, df_serverOutcomes := o'\<lparr>oc_Superseded := oc_Superseded o' + 1\<rparr>\<rparr>
      else if give then d\<lparr>df_inFlightServer := None, df_serverOutcomes := o'\<lparr>oc_Abandoned := oc_Abandoned o' + 1\<rparr>\<rparr>
      else d\<lparr>df_servers := df_servers d @ [a'], df_inFlightServer := None, df_serverOutcomes := o'\<lparr>oc_Deferred := oc_Deferred o' + 1\<rparr>\<rparr>)"

definition requeueBackend :: "string attempt \<Rightarrow> delete_error \<Rightarrow> Deferrals \<Rightarrow> Deferrals" where
  "requeueBackend a cause d =
     (let a' = a\<lparr>at_Tries := at_Tries a + 1\<rparr>; give = (at_Tries a' \<ge> MaxDeferredAttempts); o' = df_backendOutcomes d in
      if at_Generation a' \<noteq> df_generation d \<or> cause = WorkerGone
      then d\<lparr>df_inFlightBackend := None, df_backendOutcomes := o'\<lparr>oc_Superseded := oc_Superseded o' + 1\<rparr>\<rparr>
      else if give then d\<lparr>df_inFlightBackend := None, df_backendOutcomes := o'\<lparr>oc_Abandoned := oc_Abandoned o' + 1\<rparr>\<rparr>
      else d\<lparr>df_backends := df_backends d @ [a'], df_inFlightBackend := None, df_backendOutcomes := o'\<lparr>oc_Deferred := oc_Deferred o' + 1\<rparr>\<rparr>)"

subsection \<open>One delete\<close>

type_synonym answers = "nat \<Rightarrow> string \<Rightarrow> delete_error + string"

text \<open>The commands asked so far are kept; \<open>executeDeferred\<close> is \<open>execute\<close> with its generation check.\<close>

definition executeDeferred :: "answers \<Rightarrow> string \<Rightarrow> string list \<Rightarrow> string list \<times> (delete_error + string)" where
  "executeDeferred ask command asked = (asked @ [command], ask (length asked) command)"

definition deferredCommandResult :: "string \<Rightarrow> string \<Rightarrow> string \<Rightarrow> delete_error option" where
  "deferredCommandResult raw command expect =
     map_option CommandFailed (cr_Err (matchBatch raw [mkCommand command\<lparr>cm_Expect := expect\<rparr>] ! 0))"

definition runDeferred :: "answers \<Rightarrow> string \<Rightarrow> string \<Rightarrow> string list \<Rightarrow> string list \<times> delete_error option" where
  "runDeferred ask command expect asked =
     (case executeDeferred ask command asked of
        (asked', Inl e) \<Rightarrow> (asked', Some e)
      | (asked', Inr raw) \<Rightarrow> (asked', deferredCommandResult raw command expect))"

definition deleteServer :: "answers \<Rightarrow> ServerRef attempt \<Rightarrow> string list \<times> delete_error option" where
  "deleteServer ask a =
     (let ref = ServerRef_String (at_Target a);
          wait = ''wait '' @ Itoa deferredWaitMs @ '' srv-removable '' @ ref;
          (asked, err) = runDeferred ask wait expectDone [];
          (asked', err') =
            (if err = Some (CommandFailed ErrWaitExpired)
             then (case runDeferred ask (''shutdown sessions server '' @ ref) '''' asked of
                     (asked2, None) \<Rightarrow> runDeferred ask wait expectDone asked2
                   | (asked2, Some e) \<Rightarrow> (asked2, Some e))
             else (asked, err))
      in case err' of
           Some e \<Rightarrow> (asked', Some e)
         | None \<Rightarrow> runDeferred ask (''del server '' @ ref) ''Server deleted'' asked')"

definition absentBackend :: string where "absentBackend = ''[3]: Failed. No such backend.''"

definition deleteBackendOnWorker :: "answers \<Rightarrow> string attempt \<Rightarrow> string list \<times> delete_error option" where
  "deleteBackendOnWorker ask a =
     (let wait = ''wait '' @ Itoa deferredWaitMs @ '' be-removable '' @ at_Target a in
      case executeDeferred ask wait [] of
        (asked, Inl e) \<Rightarrow> (asked, Some e)
      | (asked, Inr raw) \<Rightarrow>
          if raw = absentBackend then (asked, None)
          else
            (case deferredCommandResult raw wait expectDone of
               Some e \<Rightarrow> (asked, Some e)
             | None \<Rightarrow>
                 (case runDeferred ask (''del backend '' @ at_Target a) ''Backend deleted'' asked of
                    (asked2, err) \<Rightarrow>
                      if err \<noteq> None \<and> err \<noteq> Some (CommandFailed ErrUnreadableResponse) then (asked2, err)
                      else
                        (case executeDeferred ask (''wait 1 be-removable '' @ at_Target a) asked2 of
                           (asked3, Inl e) \<Rightarrow> (asked3, Some e)
                         | (asked3, Inr raw2) \<Rightarrow> (asked3, if raw2 \<noteq> absentBackend then Some Unconfirmed else None)))))"

subsection \<open>Interleavings\<close>

datatype drain_pc = Resting | ServerLoop nat nat | ServerBusy "ServerRef attempt" nat nat | BackendLoop nat | BackendBusy "string attempt" nat

text \<open>The deletes accepted so far are counted beside the state.\<close>

record deferral_config =
  dq_state :: Deferrals
  dq_pc :: drain_pc
  dq_servers :: nat
  dq_backends :: nat

definition startDeferrals :: deferral_config where
  "startDeferrals = \<lparr>dq_state = NewDeferrals, dq_pc = Resting, dq_servers = 0, dq_backends = 0\<rparr>"

inductive apply_side :: "deferral_config \<Rightarrow> deferral_config \<Rightarrow> bool" where
  enqueued: "Enqueue w ss bs (dq_state c) = (d', None) \<Longrightarrow>
    apply_side c (c\<lparr>dq_state := d', dq_servers := dq_servers c + length ss, dq_backends := dq_backends c + length bs\<rparr>)"
| worker_set: "apply_side c (c\<lparr>dq_state := SetWorker w (dq_state c)\<rparr>)"

inductive drain_side :: "deferral_config \<Rightarrow> deferral_config \<Rightarrow> bool" where
  woken: "dq_pc c = Resting \<Longrightarrow>
    drain_side c (c\<lparr>dq_pc := ServerLoop (length (df_servers (dq_state c))) (length (df_backends (dq_state c)))\<rparr>)"
| server_taken: "dq_pc c = ServerLoop (Suc n) m \<Longrightarrow> takeServer (dq_state c) = (d', Some a) \<Longrightarrow>
    drain_side c (c\<lparr>dq_state := d', dq_pc := ServerBusy a n m\<rparr>)"
| servers_gone: "dq_pc c = ServerLoop (Suc n) m \<Longrightarrow> takeServer (dq_state c) = (d', None) \<Longrightarrow> drain_side c (c\<lparr>dq_pc := BackendLoop m\<rparr>)"
| servers_over: "dq_pc c = ServerLoop 0 m \<Longrightarrow> drain_side c (c\<lparr>dq_pc := BackendLoop m\<rparr>)"
| server_deleted: "dq_pc c = ServerBusy a n m \<Longrightarrow>
    drain_side c (c\<lparr>dq_state := completeServer (dq_state c), dq_pc := ServerLoop n m\<rparr>)"
| server_failed: "dq_pc c = ServerBusy a n m \<Longrightarrow>
    drain_side c (c\<lparr>dq_state := requeueServer a cause (dq_state c), dq_pc := ServerLoop n m\<rparr>)"
| backend_taken: "dq_pc c = BackendLoop (Suc m) \<Longrightarrow> takeBackend (dq_state c) = (d', Some b) \<Longrightarrow>
    drain_side c (c\<lparr>dq_state := d', dq_pc := BackendBusy b m\<rparr>)"
| backends_gone: "dq_pc c = BackendLoop (Suc m) \<Longrightarrow> takeBackend (dq_state c) = (d', None) \<Longrightarrow> drain_side c (c\<lparr>dq_pc := Resting\<rparr>)"
| backends_over: "dq_pc c = BackendLoop 0 \<Longrightarrow> drain_side c (c\<lparr>dq_pc := Resting\<rparr>)"
| backend_deleted: "dq_pc c = BackendBusy b m \<Longrightarrow>
    drain_side c (c\<lparr>dq_state := completeBackend (dq_state c), dq_pc := BackendLoop m\<rparr>)"
| backend_failed: "dq_pc c = BackendBusy b m \<Longrightarrow>
    drain_side c (c\<lparr>dq_state := requeueBackend b cause (dq_state c), dq_pc := BackendLoop m\<rparr>)"
| cancelled: "dq_pc c = ServerLoop (Suc n) m \<or> dq_pc c = BackendLoop (Suc m) \<Longrightarrow> drain_side c (c\<lparr>dq_pc := Resting\<rparr>)"

definition deferral_step :: "unit \<Rightarrow> deferral_config \<Rightarrow> deferral_config \<Rightarrow> bool" where
  "deferral_step _ c c' \<longleftrightarrow> apply_side c c' \<or> drain_side c c'"

subsection \<open>Accounting\<close>

text \<open>One queue: its outstanding deletes, each for the current worker, and what became of the others.\<close>

definition live :: "nat \<Rightarrow> HAProxyInfo \<Rightarrow> 'a attempt \<Rightarrow> bool" where
  "live g w a \<longleftrightarrow> at_Generation a = g \<and> at_Worker a = w"

definition queue_ok :: "nat \<Rightarrow> HAProxyInfo \<Rightarrow> 'a attempt list \<Rightarrow> 'a attempt option \<Rightarrow> outcomes \<Rightarrow> nat \<Rightarrow> int \<Rightarrow> bool" where
  "queue_ok g w queue flight oc accepted cap \<longleftrightarrow>
     (\<forall>a\<in>set queue. live g w a \<and> at_Tries a < MaxDeferredAttempts) \<and>
     (\<forall>a. flight = Some a \<longrightarrow> at_Generation a \<le> g \<and> (at_Generation a = g \<longrightarrow> live g w a) \<and> at_Tries a < MaxDeferredAttempts) \<and>
     int (length queue + (case flight of Some a \<Rightarrow> if at_Generation a = g then 1 else 0 | None \<Rightarrow> 0)) \<le> cap \<and>
     accepted = length queue + (case flight of Some _ \<Rightarrow> 1 | None \<Rightarrow> 0) + oc_Done oc + oc_Abandoned oc + oc_Superseded oc \<and>
     oc_Deferred oc \<le> sum_list (map at_Tries queue) + (case flight of Some a \<Rightarrow> at_Tries a | None \<Rightarrow> 0) +
       (MaxDeferredAttempts - 1) * (oc_Done oc + oc_Abandoned oc + oc_Superseded oc)"

definition flights :: "drain_pc \<Rightarrow> ServerRef attempt option \<times> string attempt option" where
  "flights pc = (case pc of ServerBusy a _ _ \<Rightarrow> (Some a, None) | BackendBusy b _ \<Rightarrow> (None, Some b) | _ \<Rightarrow> (None, None))"

definition deferrals_ok :: "deferral_config \<Rightarrow> bool" where
  "deferrals_ok c \<longleftrightarrow>
     (let d = dq_state c in
      (df_inFlightServer d, df_inFlightBackend d) = flights (dq_pc c) \<and>
      queue_ok (df_generation d) (df_worker d) (df_servers d) (df_inFlightServer d) (df_serverOutcomes d) (dq_servers c) MaxPendingServerDeletes \<and>
      queue_ok (df_generation d) (df_worker d) (df_backends d) (df_inFlightBackend d) (df_backendOutcomes d) (dq_backends c) MaxPendingBackendDeletes)"

lemma queue_enqueue:
  assumes "queue_ok (df_generation d) (df_worker d) q f oc n cap" "int (length q + (case f of Some a \<Rightarrow> if at_Generation a = df_generation d then 1 else 0 | None \<Rightarrow> 0) + length ts) \<le> cap"
  shows "queue_ok (df_generation d) (df_worker d) (q @ map (newAttempt d) ts) f oc (n + length ts) cap"
proof -
  have "sum_list (map at_Tries (map (newAttempt d) ts)) = 0" by (simp add: newAttempt_def comp_def)
  with assms show ?thesis by (auto simp: queue_ok_def newAttempt_def live_def MaxDeferredAttempts_def split: option.splits if_splits)
qed

lemma tries_bound: "\<forall>a\<in>set q. at_Tries a < MaxDeferredAttempts \<Longrightarrow> sum_list (map at_Tries q) \<le> (MaxDeferredAttempts - 1) * length q"
proof (induction q)
  case (Cons a q)
  then have "at_Tries a \<le> MaxDeferredAttempts - 1" by auto
  with Cons show ?case by simp
qed simp

lemma queue_superseded:
  assumes "queue_ok g w q f oc n cap" "0 \<le> cap"
  shows "queue_ok (Suc g) w' [] f (oc\<lparr>oc_Superseded := oc_Superseded oc + length q\<rparr>) n cap"
  using assms tries_bound [of q] by (auto simp: queue_ok_def algebra_simps split: option.splits if_splits)

lemma queue_take: "queue_ok g w (a # q) None oc n cap \<Longrightarrow> queue_ok g w q (Some a) oc n cap"
  by (auto simp: queue_ok_def live_def)

lemma queue_settled:
  assumes "queue_ok g w q (Some a) oc n cap"
  shows "queue_ok g w q None (oc\<lparr>oc_Done := oc_Done oc + 1\<rparr>) n cap" "queue_ok g w q None (oc\<lparr>oc_Abandoned := oc_Abandoned oc + 1\<rparr>) n cap"
    "queue_ok g w q None (oc\<lparr>oc_Superseded := oc_Superseded oc + 1\<rparr>) n cap"
proof -
  have "at_Tries a \<le> MaxDeferredAttempts - 1" using assms by (auto simp: queue_ok_def)
  with assms show "queue_ok g w q None (oc\<lparr>oc_Done := oc_Done oc + 1\<rparr>) n cap" "queue_ok g w q None (oc\<lparr>oc_Abandoned := oc_Abandoned oc + 1\<rparr>) n cap"
    "queue_ok g w q None (oc\<lparr>oc_Superseded := oc_Superseded oc + 1\<rparr>) n cap"
    by (auto simp: queue_ok_def algebra_simps)
qed

lemma queue_requeue:
  assumes "queue_ok g w q (Some a) oc n cap" "at_Generation a = g" "Suc (at_Tries a) < MaxDeferredAttempts"
  shows "queue_ok g w (q @ [a\<lparr>at_Tries := at_Tries a + 1\<rparr>]) None (oc\<lparr>oc_Deferred := oc_Deferred oc + 1\<rparr>) n cap"
  using assms by (auto simp: queue_ok_def live_def)

lemma apply_side_ok:
  assumes "apply_side c c'" "deferrals_ok c"
  shows "deferrals_ok c'"
  using assms
proof (cases rule: apply_side.cases)
  case (enqueued w ss bs d')
  let ?d = "dq_state c"
  have room: "checkCapacityLocked (length ss) (length bs) ?d = None" and
    d': "d' = ?d\<lparr>df_servers := df_servers ?d @ map (newAttempt ?d) ss, df_backends := df_backends ?d @ map (newAttempt ?d) bs\<rparr>"
    using enqueued(2) by (auto simp: Enqueue_def split: option.splits if_splits)
  from room assms(2) show ?thesis unfolding enqueued(1)
    by (auto simp: deferrals_ok_def Let_def d' checkCapacityLocked_def outstandingServersLocked_def outstandingBackendsLocked_def
        intro!: queue_enqueue split: if_splits option.splits)
next
  case (worker_set w)
  let ?d = "dq_state c"
  show ?thesis
  proof (cases "SameWorker (df_worker ?d) w")
    case True
    with worker_set assms(2) show ?thesis by (simp add: SetWorker_def)
  next
    case False
    have caps: "0 \<le> MaxPendingServerDeletes" "0 \<le> MaxPendingBackendDeletes" by (simp_all add: MaxPendingServerDeletes_def MaxPendingBackendDeletes_def)
    from assms(2) have q: "queue_ok (df_generation ?d) (df_worker ?d) (df_servers ?d) (df_inFlightServer ?d) (df_serverOutcomes ?d) (dq_servers c) MaxPendingServerDeletes"
      "queue_ok (df_generation ?d) (df_worker ?d) (df_backends ?d) (df_inFlightBackend ?d) (df_backendOutcomes ?d) (dq_backends c) MaxPendingBackendDeletes"
      by (simp_all add: deferrals_ok_def Let_def)
    from queue_superseded [OF q(1) caps(1), of w] queue_superseded [OF q(2) caps(2), of w] assms(2) False show ?thesis
      unfolding worker_set(1) deferrals_ok_def by (simp add: SetWorker_def Let_def)
  qed
qed

lemma server_side_ok:
  assumes "dq_pc c = ServerBusy a n m" "deferrals_ok c"
  shows "deferrals_ok (c\<lparr>dq_state := completeServer (dq_state c), dq_pc := ServerLoop n m\<rparr>)"
    "deferrals_ok (c\<lparr>dq_state := requeueServer a cause (dq_state c), dq_pc := ServerLoop n m\<rparr>)"
proof -
  let ?d = "dq_state c"
  have f: "df_inFlightServer ?d = Some a" "df_inFlightBackend ?d = None"
    and q: "queue_ok (df_generation ?d) (df_worker ?d) (df_servers ?d) (Some a) (df_serverOutcomes ?d) (dq_servers c) MaxPendingServerDeletes"
    and b: "queue_ok (df_generation ?d) (df_worker ?d) (df_backends ?d) None (df_backendOutcomes ?d) (dq_backends c) MaxPendingBackendDeletes"
    using assms by (auto simp: deferrals_ok_def Let_def flights_def)
  show "deferrals_ok (c\<lparr>dq_state := completeServer (dq_state c), dq_pc := ServerLoop n m\<rparr>)"
    using queue_settled(1) [OF q] b f by (simp add: deferrals_ok_def completeServer_def flights_def Let_def)
  show "deferrals_ok (c\<lparr>dq_state := requeueServer a cause (dq_state c), dq_pc := ServerLoop n m\<rparr>)"
    using queue_settled(2,3) [OF q] queue_requeue [OF q] b f
    by (auto simp: deferrals_ok_def requeueServer_def flights_def Let_def)
qed

lemma backend_side_ok:
  assumes "dq_pc c = BackendBusy a m" "deferrals_ok c"
  shows "deferrals_ok (c\<lparr>dq_state := completeBackend (dq_state c), dq_pc := BackendLoop m\<rparr>)"
    "deferrals_ok (c\<lparr>dq_state := requeueBackend a cause (dq_state c), dq_pc := BackendLoop m\<rparr>)"
proof -
  let ?d = "dq_state c"
  have f: "df_inFlightServer ?d = None" "df_inFlightBackend ?d = Some a"
    and q: "queue_ok (df_generation ?d) (df_worker ?d) (df_backends ?d) (Some a) (df_backendOutcomes ?d) (dq_backends c) MaxPendingBackendDeletes"
    and b: "queue_ok (df_generation ?d) (df_worker ?d) (df_servers ?d) None (df_serverOutcomes ?d) (dq_servers c) MaxPendingServerDeletes"
    using assms by (auto simp: deferrals_ok_def Let_def flights_def)
  show "deferrals_ok (c\<lparr>dq_state := completeBackend (dq_state c), dq_pc := BackendLoop m\<rparr>)"
    using queue_settled(1) [OF q] b f by (simp add: deferrals_ok_def completeBackend_def flights_def Let_def)
  show "deferrals_ok (c\<lparr>dq_state := requeueBackend a cause (dq_state c), dq_pc := BackendLoop m\<rparr>)"
    using queue_settled(2,3) [OF q] queue_requeue [OF q] b f
    by (auto simp: deferrals_ok_def requeueBackend_def flights_def Let_def)
qed

lemma drain_side_ok:
  assumes "drain_side c c'" "deferrals_ok c"
  shows "deferrals_ok c'"
  using assms
proof (cases rule: drain_side.cases)
  case (server_taken n m d' a)
  let ?d = "dq_state c"
  obtain rest where t: "df_servers ?d = a # rest" "d' = ?d\<lparr>df_servers := rest, df_inFlightServer := Some a\<rparr>"
    using server_taken(3) by (auto simp: takeServer_def split: list.splits)
  have "queue_ok (df_generation ?d) (df_worker ?d) rest (Some a) (df_serverOutcomes ?d) (dq_servers c) MaxPendingServerDeletes"
    using assms(2) server_taken(2) t(1) by (intro queue_take) (auto simp: deferrals_ok_def flights_def Let_def)
  with assms(2) server_taken(1,2) t(2) show ?thesis by (auto simp: deferrals_ok_def flights_def Let_def)
next
  case (backend_taken m d' b)
  let ?d = "dq_state c"
  obtain rest where t: "df_backends ?d = b # rest" "d' = ?d\<lparr>df_backends := rest, df_inFlightBackend := Some b\<rparr>"
    using backend_taken(3) by (auto simp: takeBackend_def split: list.splits)
  have "queue_ok (df_generation ?d) (df_worker ?d) rest (Some b) (df_backendOutcomes ?d) (dq_backends c) MaxPendingBackendDeletes"
    using assms(2) backend_taken(2) t(1) by (intro queue_take) (auto simp: deferrals_ok_def flights_def Let_def)
  with assms(2) backend_taken(1,2) t(2) show ?thesis by (auto simp: deferrals_ok_def flights_def Let_def)
next
  case (server_deleted a n m)
  then show ?thesis using server_side_ok(1) assms(2) by blast
next
  case (server_failed a n m cause)
  then show ?thesis using server_side_ok(2) assms(2) by blast
next
  case (backend_deleted b m)
  then show ?thesis using backend_side_ok(1) assms(2) by blast
next
  case (backend_failed b m cause)
  then show ?thesis using backend_side_ok(2) assms(2) by blast
qed (use assms(2) in \<open>auto simp: deferrals_ok_def flights_def Let_def\<close>)

interpretation deferring: monitored_run deferral_step "\<lambda>_. True" deferrals_ok "\<lambda>_ _. True"
  by unfold_locales (auto simp: deferral_step_def intro: apply_side_ok drain_side_ok)

lemma start_ok: "deferrals_ok startDeferrals"
  by (simp add: deferrals_ok_def startDeferrals_def NewDeferrals_def flights_def queue_ok_def noOutcomes_def MaxPendingServerDeletes_def
      MaxPendingBackendDeletes_def)

text \<open>How many steps a drain pass has left at most.\<close>

fun drain_rank :: "drain_pc \<Rightarrow> nat" where
  "drain_rank Resting = 0"
| "drain_rank (BackendLoop m) = 2 * m + 1"
| "drain_rank (BackendBusy _ m) = 2 * m + 2"
| "drain_rank (ServerLoop n m) = 2 * (n + m) + 2"
| "drain_rank (ServerBusy _ n m) = 2 * (n + m) + 3"

lemma drain_ends: "drain_side c c' \<Longrightarrow> dq_pc c \<noteq> Resting \<Longrightarrow> drain_rank (dq_pc c') < drain_rank (dq_pc c)"
  by (cases rule: drain_side.cases) auto

lemma deferred_bound:
  assumes "queue_ok g w q f oc n cap"
  shows "oc_Deferred oc \<le> (MaxDeferredAttempts - 1) * n"
proof -
  have "sum_list (map at_Tries q) \<le> (MaxDeferredAttempts - 1) * length q" using assms by (intro tries_bound) (auto simp: queue_ok_def)
  moreover have "(case f of Some a \<Rightarrow> at_Tries a | None \<Rightarrow> 0) \<le> (MaxDeferredAttempts - 1) * (case f of Some _ \<Rightarrow> 1 | None \<Rightarrow> 0)"
    using assms by (auto simp: queue_ok_def split: option.splits)
  ultimately show ?thesis using assms by (auto simp: queue_ok_def algebra_simps split: option.splits)
qed

text \<open>What the state read reports is what the caps count.\<close>

lemma Pending_counts:
  "length (pd_Servers (Pending d)) = outstandingServersLocked d" "length (pd_Backends (Pending d)) = outstandingBackendsLocked d"
  by (simp_all add: Pending_def outstandingServersLocked_def outstandingBackendsLocked_def split: option.split)

text \<open>
  C16. In every interleaving of applies, worker changes and drains, the outstanding deletes stay within
  the caps of the API, every queued delete is for the worker the agent is on now, and every delete accepted is
  outstanding, done, abandoned or superseded by a new worker, exactly once. Together they are retried at
  most four times per delete, and a drain pass ends whatever is queued meanwhile.
\<close>

theorem deferrals_accounted:
  assumes "run_of deferral_step (\<lambda>_. True) startDeferrals c"
  shows "int (outstandingServersLocked (dq_state c)) \<le> MaxPendingServerDeletes \<and> int (outstandingBackendsLocked (dq_state c)) \<le> MaxPendingBackendDeletes \<and>
    (\<forall>a\<in>set (df_servers (dq_state c)). at_Worker a = df_worker (dq_state c)) \<and> (\<forall>b\<in>set (df_backends (dq_state c)). at_Worker b = df_worker (dq_state c)) \<and>
    (let d = dq_state c; oc = df_serverOutcomes d in
       dq_servers c = length (df_servers d) + (if df_inFlightServer d = None then 0 else 1) + oc_Done oc + oc_Abandoned oc + oc_Superseded oc \<and>
       oc_Deferred oc \<le> 4 * dq_servers c) \<and>
    (let d = dq_state c; oc = df_backendOutcomes d in
       dq_backends c = length (df_backends d) + (if df_inFlightBackend d = None then 0 else 1) + oc_Done oc + oc_Abandoned oc + oc_Superseded oc \<and>
       oc_Deferred oc \<le> 4 * dq_backends c) \<and>
    (\<forall>c'. drain_side c c' \<and> dq_pc c \<noteq> Resting \<longrightarrow> drain_rank (dq_pc c') < drain_rank (dq_pc c))"
proof -
  let ?d = "dq_state c"
  have "deferrals_ok c" using deferring.run [OF assms] start_ok by simp
  then have s: "queue_ok (df_generation ?d) (df_worker ?d) (df_servers ?d) (df_inFlightServer ?d) (df_serverOutcomes ?d) (dq_servers c) MaxPendingServerDeletes"
    and b: "queue_ok (df_generation ?d) (df_worker ?d) (df_backends ?d) (df_inFlightBackend ?d) (df_backendOutcomes ?d) (dq_backends c) MaxPendingBackendDeletes"
    by (simp_all add: deferrals_ok_def Let_def)
  have "oc_Deferred (df_serverOutcomes ?d) \<le> 4 * dq_servers c" "oc_Deferred (df_backendOutcomes ?d) \<le> 4 * dq_backends c"
    using deferred_bound [OF s] deferred_bound [OF b] by (simp_all add: MaxDeferredAttempts_def)
  moreover have "int (outstandingServersLocked ?d) \<le> MaxPendingServerDeletes" "int (outstandingBackendsLocked ?d) \<le> MaxPendingBackendDeletes"
    using s b by (auto simp: queue_ok_def outstandingServersLocked_def outstandingBackendsLocked_def split: option.splits if_splits)
  ultimately show ?thesis using s b drain_ends unfolding queue_ok_def live_def Let_def by (auto split: option.splits)
qed

definition sampleWorker :: HAProxyInfo where
  "sampleWorker = \<lparr>hi_Version = '''', hi_FullVersion = '''', hi_WorkerPID = 7, hi_WorkerStartTimeUnixMicros = 1\<rparr>"
definition sampleRef :: ServerRef where "sampleRef = \<lparr>ref_Backend = ''b'', ref_Server = ''s''\<rparr>"
definition sampleDeferrals :: Deferrals where
  "sampleDeferrals = fst (Enqueue sampleWorker [sampleRef] [] (SetWorker sampleWorker NewDeferrals))"
definition sampleQueue :: deferral_config where
  "sampleQueue = \<lparr>dq_state = sampleDeferrals, dq_pc = Resting, dq_servers = 1, dq_backends = 0\<rparr>"

theorem deferrals_accounted_witness:
  "run_of deferral_step (\<lambda>_. True) startDeferrals sampleQueue \<and> outstandingServersLocked (dq_state sampleQueue) = 1 \<and>
   int (outstandingServersLocked (dq_state sampleQueue)) \<le> MaxPendingServerDeletes \<and> oc_Deferred (df_serverOutcomes (dq_state sampleQueue)) \<le> 4"
proof -
  let ?c = "startDeferrals\<lparr>dq_state := SetWorker sampleWorker (dq_state startDeferrals)\<rparr>"
  have "deferral_step () startDeferrals ?c" using worker_set by (auto simp: deferral_step_def)
  moreover have "snd (Enqueue sampleWorker [sampleRef] [] (dq_state ?c)) = None" by code_simp
  then have "Enqueue sampleWorker [sampleRef] [] (dq_state ?c) = (sampleDeferrals, None)"
    by (simp add: sampleDeferrals_def startDeferrals_def prod_eq_iff)
  from enqueued [OF this] have "apply_side ?c sampleQueue" by (simp add: sampleQueue_def startDeferrals_def)
  then have "deferral_step () ?c sampleQueue" by (simp add: deferral_step_def)
  ultimately have run: "run_of deferral_step (\<lambda>_. True) startDeferrals sampleQueue" by (metis run_of_refl run_of_step)
  have "outstandingServersLocked (dq_state sampleQueue) = 1" by code_simp
  with run deferrals_accounted [OF run] show ?thesis by (auto simp: Let_def sampleQueue_def)
qed

subsection \<open>A delete removes only what the worker released\<close>

definition released :: "answers \<Rightarrow> nat \<Rightarrow> string \<Rightarrow> string \<Rightarrow> bool" where
  "released ask n command expect \<longleftrightarrow> (\<exists>raw. ask n command = Inr raw \<and> deferredCommandResult raw command expect = None)"

lemma runDeferred_cases:
  "runDeferred ask command expect asked = (asked', r) \<Longrightarrow>
   asked' = asked @ [command] \<and> (r = None \<longleftrightarrow> released ask (length asked) command expect)"
  by (auto simp: runDeferred_def executeDeferred_def released_def split: sum.splits)

abbreviation waitServer :: "ServerRef \<Rightarrow> string" where
  "waitServer t \<equiv> ''wait '' @ Itoa deferredWaitMs @ '' srv-removable '' @ ServerRef_String t"

text \<open>
  C36. The delete of a server is sent only right after the worker reported that same server removable, and
  the attempt succeeds only when the worker confirmed the removal; at most four commands are sent.
\<close>

theorem deleteServer_released:
  assumes "deleteServer ask a = (asked, r)"
  shows "(\<forall>i<length asked. asked ! i = ''del server '' @ ServerRef_String (at_Target a) \<longrightarrow>
      i > 0 \<and> asked ! (i - 1) = waitServer (at_Target a) \<and> released ask (i - 1) (waitServer (at_Target a)) expectDone) \<and>
    (r = None \<longrightarrow> asked \<noteq> [] \<and> last asked = ''del server '' @ ServerRef_String (at_Target a) \<and>
      released ask (length asked - 1) (last asked) ''Server deleted'') \<and> length asked \<le> 4"
proof -
  define w where "w = waitServer (at_Target a)"
  define h where "h = ''shutdown sessions server '' @ ServerRef_String (at_Target a)"
  define d where "d = ''del server '' @ ServerRef_String (at_Target a)"
  have ne: "w \<noteq> d" "h \<noteq> d" by (simp_all add: w_def h_def d_def)
  obtain a1 r1 where one: "runDeferred ask w expectDone [] = (a1, r1)" by fastforce
  obtain a2 r2 where two: "runDeferred ask h '''' a1 = (a2, r2)" by fastforce
  obtain a3 r3 where three: "runDeferred ask w expectDone a2 = (a3, r3)" by fastforce
  obtain a4 r4 where four: "runDeferred ask d ''Server deleted'' a1 = (a4, r4)" by fastforce
  obtain a5 r5 where five: "runDeferred ask d ''Server deleted'' a3 = (a5, r5)" by fastforce
  note asks = runDeferred_cases [OF one] runDeferred_cases [OF two] runDeferred_cases [OF three] runDeferred_cases [OF four] runDeferred_cases [OF five]
  consider "r1 = None" "asked = a4" "r = r4" | "r2 = None" "r3 = None" "asked = a5" "r = r5"
    | "asked = a1 \<or> asked = a2 \<or> asked = a3" "r \<noteq> None"
    using assms one two three four five unfolding deleteServer_def w_def [symmetric] h_def [symmetric] d_def [symmetric] Let_def
    by (cases r1; cases r2; cases r3) (auto split: if_splits)
  then have "(\<forall>i<length asked. asked ! i = d \<longrightarrow> i > 0 \<and> asked ! (i - 1) = w \<and> released ask (i - 1) w expectDone) \<and>
    (r = None \<longrightarrow> asked \<noteq> [] \<and> last asked = d \<and> released ask (length asked - 1) (last asked) ''Server deleted'') \<and> length asked \<le> 4"
  proof cases
    case 1
    with asks(1,4) ne show ?thesis by (simp add: less_Suc_eq)
  next
    case 2
    with asks ne show ?thesis by (simp add: less_Suc_eq numeral_2_eq_2 numeral_3_eq_3)
  next
    case 3
    with asks(1-3) ne show ?thesis by (auto simp: less_Suc_eq numeral_2_eq_2)
  qed
  then show ?thesis unfolding w_def d_def .
qed

theorem deleteServer_released_witness:
  "(\<exists>asked. deleteServer (\<lambda>n _. Inr (if n = 0 then ''Done.'' else ''Server deleted.'')) (newAttempt NewDeferrals sampleRef) = (asked, None) \<and>
    asked \<noteq> [] \<and> last asked = ''del server b/s'' \<and> length asked \<le> 4)"
proof -
  let ?ask = "\<lambda>n _. Inr (if n = 0 then ''Done.'' else ''Server deleted.'') :: delete_error + string"
  have "snd (deleteServer ?ask (newAttempt NewDeferrals sampleRef)) = None" by code_simp
  then obtain asked where run: "deleteServer ?ask (newAttempt NewDeferrals sampleRef) = (asked, None)" by (metis prod.collapse)
  from deleteServer_released [OF run] show ?thesis
    using run by (auto simp: newAttempt_def sampleRef_def ServerRef_String_def)
qed

end
