(* ===== verification/Agent_State.thy ===== *)
theory Agent_State
  imports Agent_Tree Runtime_Lines Deferrals "HOL-Library.Word"
begin

section \<open>The agent server: state and admission\<close>

text \<open>
  \<open>src/pkg/dataplane/agent/server/{state,server,statemachine,apply}.go\<close>: the state of the agent, the small
  sections that read and update it under its mutex, and the checks an apply passes before it touches the
  tree. The apply lock serialises applies, scheduled reloads, read-backs and re-observations, so each of
  them is a function of the whole state. The state carries the managed file tree (\<open>Agent_Files\<close>), the
  deferred deletes and the last saved copy of the state file.

  What lies outside the process enters as \<open>server_env\<close>, indexed by the number of calls made so far: the
  clock, the answers of the HAProxy sockets, failing saves and the bytes a failing write of the plan blob leaves. \<open>se_polls\<close> are the answers to \<open>show info\<close> while a
  reload is awaited, up to its deadline. The encoding of a manifest as known-bad work is a parameter, as
  JSON is not modelled. Times are nanoseconds, and a zero time is \<open>None\<close>; the messages of errors are not kept.
\<close>

subsection \<open>The contract (\<open>api.go\<close>)\<close>

record Token =
  tk_LeaderEpoch :: "64 word"
  tk_RenderSeq :: "64 word"

record ManifestFile = ApiFile +
  mfl_Patch :: "FilePatch option"

text \<open>\<open>api.Manifest\<close>, with its three operation lists in the record of the batch functions.\<close>

record ApplyManifest =
  am_IdentityVersion :: int
  am_PlanID :: string
  am_PlanProof :: string
  am_PlanSchemaVersion :: int
  am_Token :: Token
  am_ExpectedPrevPlanID :: string
  am_ExpectedPrevPlanProof :: string
  am_ExpectedPrevToken :: Token
  am_ExpectedWorkerOpsPlanID :: string
  am_ExpectedWorkerOpsPlanProof :: string
  am_WorkerOpsPlanID :: string
  am_ValidatedPlanID :: string
  am_ValidatedPlanProof :: string
  am_Files :: "ManifestFile list"
  am_Lists :: Manifest
  am_Mode :: string

definition wireMode :: "apply_mode \<Rightarrow> string" where
  "wireMode m = (case m of ModeAuto \<Rightarrow> ''auto'' | ModeReload \<Rightarrow> ''reload'' | ModeRevertLKG \<Rightarrow> ''revert_lkg'')"

definition am_InPlaceOps :: "ApplyManifest \<Rightarrow> Op list" where
  "am_InPlaceOps m = mf_InPlaceOps (am_Lists m)"

datatype result_mode = ResultNone | ResultRuntime | ResultFileOnly | ResultReload | ResultScheduled | ResultNoop | ResultRejected

record ReloadInfo =
  ri_Performed :: bool
  ri_OK :: bool
  ri_Output :: string
  ri_WorkerPID :: int
  ri_ScheduledAt :: "int option"

record RollbackInfo =
  rb_Performed :: bool
  rb_Reloaded :: bool

record ApplyResult =
  res_PlanID :: string
  res_OK :: bool
  res_Mode :: result_mode
  res_AppliedPlanID :: string
  res_AppliedPlanProof :: string
  res_RunningPlanID :: string
  res_RunningPlanProof :: string
  res_WorkerOpsPlanID :: string
  res_WorkerOpsPlanProof :: string
  res_AppliedToken :: Token
  res_LKGPlanID :: string
  res_LKGPlanProof :: string
  res_OpResults :: "OpResult list"
  res_Reload :: "ReloadInfo option"
  res_Rollback :: "RollbackInfo option"
  res_Error :: "string option"
  res_HAProxy :: HAProxyInfo
  res_Inventory :: "Inventory option"

definition zeroToken :: Token where "zeroToken = \<lparr>tk_LeaderEpoch = 0, tk_RenderSeq = 0\<rparr>"

definition newResult :: "string \<Rightarrow> result_mode \<Rightarrow> ApplyResult" where
  "newResult planID mode = \<lparr>res_PlanID = planID, res_OK = True, res_Mode = mode, res_AppliedPlanID = '''', res_AppliedPlanProof = '''',
     res_RunningPlanID = '''', res_RunningPlanProof = '''', res_WorkerOpsPlanID = '''', res_WorkerOpsPlanProof = '''',
     res_AppliedToken = zeroToken, res_LKGPlanID = '''', res_LKGPlanProof = '''', res_OpResults = [], res_Reload = None,
     res_Rollback = None, res_Error = None, res_HAProxy = noWorker, res_Inventory = None\<rparr>"

subsection \<open>State (\<open>state.go\<close>, \<open>server.go\<close>)\<close>

datatype apply_phase =
    PhaseIdle | PhaseStaged | PhaseVerified | PhaseBackedUp | PhaseWritten | PhaseApplied | PhaseReloaded | PhaseScheduled
  | PhaseCommitted | PhaseAborted

record nackRecord =
  nk_ManifestDigest :: string
  nk_ManifestWork :: string
  nk_Reason :: string
  nk_Until :: int
  nk_Result :: ApplyResult

record persistentState =
  ps_Generation :: "64 word"
  ps_ProofGeneration :: "64 word"
  ps_PlanSchemaVersion :: int
  ps_AppliedPlanID :: string
  ps_AppliedPlanProof :: string
  ps_RunningPlanID :: string
  ps_RunningPlanProof :: string
  ps_WorkerOpsPlanID :: string
  ps_WorkerOpsPlanProof :: string
  ps_LKGPlanID :: string
  ps_LKGPlanProof :: string
  ps_AppliedToken :: Token
  ps_ManifestPaths :: "string list"
  ps_TreeDigest :: string
  ps_ExpectedWorker :: HAProxyInfo
  ps_Journal :: Journal
  ps_Phase :: apply_phase
  ps_InFlightPlanID :: string
  ps_PendingReloadPlanID :: string
  ps_PendingReloadPlanProof :: string
  ps_PlanBlobPlanID :: string
  ps_PlanBlobPlanProof :: string
  ps_NACK :: "nackRecord option"
  ps_LastApply :: "ApplyResult option"
  ps_ReloadPendingAt :: "int option"

record server_env =
  se_files :: files_env
  se_store :: Store
  se_ConfigFile :: string
  se_ReloadIntervalMin :: int
  se_clock :: "nat \<Rightarrow> int"
  se_saveFault :: "nat \<Rightarrow> bool"
  se_blobFault :: "nat \<Rightarrow> nat option"
  se_info :: "nat \<Rightarrow> HAProxyInfo option"
  se_polls :: "nat \<Rightarrow> HAProxyInfo option list"
  se_reload :: "nat \<Rightarrow> string \<times> bool"
  se_showProc :: "nat \<Rightarrow> bool"
  se_inventory :: "nat \<Rightarrow> Inventory option"
  se_socket :: socket
  se_serverNames :: "nat \<Rightarrow> string \<Rightarrow> bool"
  se_mapEntries :: "nat \<Rightarrow> string \<Rightarrow> bool + string list"
  se_workIdentity :: "ApplyManifest \<Rightarrow> string option"

record AgentServer =
  sv_state :: persistentState
  sv_saved :: persistentState
  sv_tree :: "FileAt gomap"
  sv_treePrints :: "Fingerprint gomap"
  sv_inventory :: Inventory
  sv_worker :: HAProxyInfo
  sv_lastReload :: "int option"
  sv_reportedInventory :: nat
  sv_baselineInvalidations :: nat
  sv_appliedPlan :: string
  sv_blobFile :: "string option"
  sv_deferrals :: Deferrals
  sv_fs :: fsys
  sv_sent :: "string list"
  sv_calls :: nat
  sv_initialized :: bool
  sv_stopped :: bool

type_synonym 'a server_op = "AgentServer \<Rightarrow> AgentServer \<times> 'a"

abbreviation onState :: "(persistentState \<Rightarrow> persistentState) \<Rightarrow> AgentServer \<Rightarrow> AgentServer" where
  "onState f s \<equiv> s\<lparr>sv_state := f (sv_state s)\<rparr>"

text \<open>One call outside the process: its number, counted.\<close>

definition outside :: "nat server_op" where
  "outside s = (s\<lparr>sv_calls := sv_calls s + 1\<rparr>, sv_calls s)"

definition timeNow :: "server_env \<Rightarrow> int server_op" where
  "timeNow env s = (case outside s of (s1, n) \<Rightarrow> (s1, se_clock env n))"

text \<open>\<open>states.save\<close>; true when it failed.\<close>

definition saveState :: "server_env \<Rightarrow> bool server_op" where
  "saveState env s = (case outside s of (s1, n) \<Rightarrow> if se_saveFault env n then (s1, True) else (s1\<lparr>sv_saved := sv_state s1\<rparr>, False))"

definition treeDigest :: "files_env \<Rightarrow> FileAt gomap \<Rightarrow> string" where
  "treeDigest env tree =
     DigestString (fe_sum64 env) (concat (map (\<lambda>path. path @ '' '' @ fa_Digest (the (go_get tree path)) @ [newline]) (sorted_keys tree)))"

subsection \<open>Sections of the state machine (\<open>statemachine.go\<close>)\<close>

definition nackCooldown :: int where "nackCooldown = 60 * 10 ^ 9"

definition roleProof :: "64 word \<Rightarrow> string" where
  "roleProof n = ''a:'' @ nat_digits (unat n)"

definition reserveRoleProofs :: "server_env \<Rightarrow> bool \<Rightarrow> (string \<times> string) option server_op" where
  "reserveRoleProofs env withWorker s =
     (let needed = (if withWorker then 2 else 1) :: 64 word in
      if ps_ProofGeneration (sv_state s) > - 1 - needed then (s, None)
      else
        let g = ps_ProofGeneration (sv_state s) + 1;
            g' = (if withWorker then g + 1 else g);
            s1 = onState (\<lambda>st. st\<lparr>ps_ProofGeneration := g'\<rparr>) s;
            worker = (if withWorker then roleProof g' else '''')
        in case saveState env s1 of (s2, failed) \<Rightarrow> (s2, if failed then None else Some (roleProof g, worker)))"

definition setPhase :: "server_env \<Rightarrow> apply_phase \<Rightarrow> string \<Rightarrow> AgentServer \<Rightarrow> AgentServer" where
  "setPhase env p planID s = fst (saveState env (onState (\<lambda>st. st\<lparr>ps_Phase := p, ps_InFlightPlanID := planID\<rparr>) s))"

definition baselineUnknown :: "AgentServer \<Rightarrow> bool" where
  "baselineUnknown s \<longleftrightarrow> ps_AppliedPlanID (sv_state s) = '''' \<or> ps_AppliedPlanProof (sv_state s) = ''''"

definition reloadPending :: "AgentServer \<Rightarrow> bool" where
  "reloadPending s \<longleftrightarrow> ps_ReloadPendingAt (sv_state s) \<noteq> None"

text \<open>A zero \<open>lastReload\<close> plus an interval lies in the past of every clock.\<close>

definition pacingWindow :: "server_env \<Rightarrow> (int \<times> bool) server_op" where
  "pacingWindow env s =
     (case timeNow env s of
        (s1, now) \<Rightarrow>
          (case sv_lastReload s of
             None \<Rightarrow> (s1, (0, False))
           | Some t \<Rightarrow> (let due = t + se_ReloadIntervalMin env in (s1, (due, now < due)))))"

definition schedulePendingReload :: "server_env \<Rightarrow> int \<Rightarrow> string \<Rightarrow> string \<Rightarrow> AgentServer \<Rightarrow> AgentServer" where
  "schedulePendingReload env due planID planProof s =
     fst (saveState env (onState (\<lambda>st. st\<lparr>ps_ReloadPendingAt := Some due, ps_PendingReloadPlanID := planID, ps_PendingReloadPlanProof := planProof\<rparr>) s))"

definition coalesceIntoPendingReload :: "string \<Rightarrow> string \<Rightarrow> AgentServer \<Rightarrow> AgentServer" where
  "coalesceIntoPendingReload planID planProof =
     onState (\<lambda>st. st\<lparr>ps_PendingReloadPlanID := planID, ps_PendingReloadPlanProof := planProof\<rparr>)"

definition clearPendingReload :: "AgentServer \<Rightarrow> AgentServer" where
  "clearPendingReload =
     onState (\<lambda>st. st\<lparr>ps_ReloadPendingAt := None, ps_PendingReloadPlanID := '''', ps_PendingReloadPlanProof := ''''\<rparr>)"

definition clearJournalNow :: "server_env \<Rightarrow> bool server_op" where
  "clearJournalNow env s =
     (case ClearJournal (se_files env) (ps_Journal (sv_state s)) (sv_fs s) of
        (fs, j, errs) \<Rightarrow> (onState (\<lambda>st. st\<lparr>ps_Journal := j\<rparr>) (s\<lparr>sv_fs := fs\<rparr>), errs \<noteq> []))"

definition recordReload :: "server_env \<Rightarrow> string \<Rightarrow> string \<Rightarrow> AgentServer \<Rightarrow> AgentServer" where
  "recordReload env planID planProof s =
     (case timeNow env s of
        (s1, now) \<Rightarrow>
          (let s2 = onState (\<lambda>st. st\<lparr>ps_RunningPlanID := planID, ps_RunningPlanProof := planProof,
                 ps_WorkerOpsPlanID := planID, ps_WorkerOpsPlanProof := planProof\<rparr>) (s1\<lparr>sv_lastReload := Some now\<rparr>)
           in if planID = '''' \<or> planProof = '''' then s2
              else fst (clearJournalNow env (onState (\<lambda>st. st\<lparr>ps_LKGPlanID := planID, ps_LKGPlanProof := planProof\<rparr>) s2))))"

definition recordWorkerOps :: "string \<Rightarrow> string \<Rightarrow> AgentServer \<Rightarrow> AgentServer" where
  "recordWorkerOps planID planProof = onState (\<lambda>st. st\<lparr>ps_WorkerOpsPlanID := planID, ps_WorkerOpsPlanProof := planProof\<rparr>)"

definition invalidateBaseline :: "AgentServer \<Rightarrow> AgentServer" where
  "invalidateBaseline s =
     (onState (\<lambda>st. st\<lparr>ps_AppliedPlanID := '''', ps_AppliedPlanProof := '''', ps_WorkerOpsPlanID := '''', ps_WorkerOpsPlanProof := ''''\<rparr>) s)
       \<lparr>sv_baselineInvalidations := sv_baselineInvalidations s + 1\<rparr>"

definition samePlanRef :: "string \<Rightarrow> string \<Rightarrow> string \<Rightarrow> string \<Rightarrow> bool" where
  "samePlanRef leftID leftProof rightID rightProof \<longleftrightarrow>
     leftProof \<noteq> '''' \<and> rightProof \<noteq> '''' \<and> leftID = rightID \<and> leftProof = rightProof"

definition workerOpsBaselineMatches :: "string \<Rightarrow> string \<Rightarrow> AgentServer \<Rightarrow> bool" where
  "workerOpsBaselineMatches expectedID expectedProof s =
     samePlanRef expectedID expectedProof (ps_WorkerOpsPlanID (sv_state s)) (ps_WorkerOpsPlanProof (sv_state s))"

definition adoptWorker :: "server_env \<Rightarrow> HAProxyInfo \<Rightarrow> AgentServer \<Rightarrow> AgentServer" where
  "adoptWorker env info s =
     (case outside s of
        (s1, n) \<Rightarrow>
          (let s2 = onState (\<lambda>st. st\<lparr>ps_ExpectedWorker := info\<rparr>) (s1\<lparr>sv_worker := info, sv_deferrals := SetWorker info (sv_deferrals s1)\<rparr>)
           in case se_inventory env n of
                None \<Rightarrow> s2
              | Some listing \<Rightarrow> s2\<lparr>sv_inventory := listing\<lparr>inv_Generation := inv_Generation (sv_inventory s2) + 1\<rparr>\<rparr>))"

definition withPath :: "string \<Rightarrow> string list \<times> bool \<Rightarrow> string list \<times> bool" where
  "withPath path = (\<lambda>(listing, changed). if path \<in> set listing then (listing, changed) else (listing @ [path], True))"

text \<open>\<open>foldCreated\<close> on the paths a batch created.\<close>

definition foldCreated :: "string list \<Rightarrow> string list \<Rightarrow> AgentServer \<Rightarrow> AgentServer" where
  "foldCreated certs cas s =
     (if certs = [] \<and> cas = [] then s
      else
        let (cs, changed) = fold withPath certs (inv_Certs (sv_inventory s), False);
            (fs, changed') = fold withPath cas (inv_CAFiles (sv_inventory s), changed);
            listed = (sv_inventory s)\<lparr>inv_Certs := cs, inv_CAFiles := fs\<rparr>
        in s\<lparr>sv_inventory := (if changed' then listed\<lparr>inv_Generation := inv_Generation listed + 1\<rparr> else listed)\<rparr>)"

text \<open>\<open>checkWorker\<close>; true when the worker answered with the recorded identity.\<close>

definition checkWorker :: "server_env \<Rightarrow> bool server_op" where
  "checkWorker env s =
     (case outside s of
        (s1, n) \<Rightarrow>
          (case se_info env n of
             None \<Rightarrow> (s1, False)
           | Some info \<Rightarrow>
               if SameWorker (ps_ExpectedWorker (sv_state s1)) info then (s1, True)
               else (invalidateBaseline (adoptWorker env info s1), False)))"

definition observeTree :: "ApplyManifest \<Rightarrow> Staged gomap \<Rightarrow> string list \<Rightarrow> AgentServer \<Rightarrow> AgentServer" where
  "observeTree m staged deleted s =
     (let declared = index_by af_Path (am_Files m);
          at = (\<lambda>path. case declared path of Some f \<Rightarrow> \<lparr>fa_Digest = af_Digest f, fa_Proof = af_Proof f, fa_Size = af_Size f\<rparr>
                       | None \<Rightarrow> \<lparr>fa_Digest = '''', fa_Proof = '''', fa_Size = 0\<rparr>);
          tree = fold (\<lambda>(path, part). AList.update path (at path)) staged (sv_tree s);
          prints = fold (\<lambda>(path, part). AList.update path (sg_Fingerprint part)) staged (sv_treePrints s)
      in s\<lparr>sv_tree := fold AList.delete deleted tree, sv_treePrints := fold AList.delete deleted prints\<rparr>)"

text \<open>\<open>promoteLKG\<close>; true when clearing the journal or saving failed.\<close>

definition promoteLKG :: "server_env \<Rightarrow> ApplyManifest \<Rightarrow> bool server_op" where
  "promoteLKG env m s =
     (let st = sv_state s in
      if \<not> samePlanRef (am_ValidatedPlanID m) (am_ValidatedPlanProof m) (ps_AppliedPlanID st) (ps_AppliedPlanProof st) then (s, False)
      else if samePlanRef (ps_LKGPlanID st) (ps_LKGPlanProof st) (ps_AppliedPlanID st) (ps_AppliedPlanProof st) then (s, False)
      else case clearJournalNow env s of
             (s1, True) \<Rightarrow> (s1, True)
           | (s1, False) \<Rightarrow>
               saveState env (onState (\<lambda>st. st\<lparr>ps_LKGPlanID := ps_AppliedPlanID st, ps_LKGPlanProof := ps_AppliedPlanProof st\<rparr>) s1))"

definition lkgPaths :: "string list \<Rightarrow> Journal \<Rightarrow> string list" where
  "lkgPaths current j =
     sort (remdups (foldl (\<lambda>paths e. case en_Kind e of
         KindCreated \<Rightarrow> removeAll (en_Path e) paths
       | KindDeleted \<Rightarrow> en_Path e # paths
       | KindModified \<Rightarrow> paths) current j))"

text \<open>\<open>restoreJournal\<close>; true when it failed.\<close>

definition restoreJournal :: "server_env \<Rightarrow> bool server_op" where
  "restoreJournal env s =
     (case Restore (se_files env) (se_store env) (ps_Journal (sv_state s)) (se_ConfigFile env) (sv_fs s) of
        (fs, errs) \<Rightarrow>
          (let s1 = s\<lparr>sv_fs := fs\<rparr>; paths = lkgPaths (ps_ManifestPaths (sv_state s)) (ps_Journal (sv_state s)) in
           if errs \<noteq> [] then (s1, True)
           else case HashTree (se_files env) (se_store env) paths fs of
                  (fs2, Inl e) \<Rightarrow> (s1\<lparr>sv_fs := fs2\<rparr>, True)
                | (fs2, Inr tree) \<Rightarrow>
                    clearJournalNow env
                      (onState (\<lambda>st. st\<lparr>ps_ManifestPaths := paths, ps_TreeDigest := treeDigest (se_files env) tree\<rparr>)
                        (s1\<lparr>sv_fs := fs2, sv_tree := tree, sv_treePrints := []\<rparr>))))"

definition cachedNACK :: "server_env \<Rightarrow> string \<Rightarrow> string \<Rightarrow> ApplyResult option server_op" where
  "cachedNACK env digest work s =
     (case ps_NACK (sv_state s) of
        None \<Rightarrow> (s, None)
      | Some nack \<Rightarrow>
          if work = '''' \<or> nk_ManifestDigest nack \<noteq> digest \<or> nk_ManifestWork nack \<noteq> work then (s, None)
          else case timeNow env s of
                 (s1, now) \<Rightarrow>
                   if now > nk_Until nack then (onState (\<lambda>st. st\<lparr>ps_NACK := None\<rparr>) s1, None)
                   else (s1, Some (nk_Result nack)))"

definition rememberNACK :: "server_env \<Rightarrow> string \<Rightarrow> string \<Rightarrow> string \<Rightarrow> ApplyResult \<Rightarrow> AgentServer \<Rightarrow> AgentServer" where
  "rememberNACK env digest work reason result s =
     (if work = '''' then s
      else case timeNow env s of
             (s1, now) \<Rightarrow>
               onState (\<lambda>st. st\<lparr>ps_NACK := Some \<lparr>nk_ManifestDigest = digest, nk_ManifestWork = work, nk_Reason = reason,
                 nk_Until = now + nackCooldown, nk_Result = result\<rparr>\<rparr>) s1)"

subsection \<open>Admission (\<open>apply.go\<close>)\<close>

datatype manifest_error =
    BadBatches batch_error | BadIdentityVersion | EmptyPlanID | TooManyManifestFiles | InPlaceUnnamed | InPlaceUnproved
  | HalfValidated | RevertUnproved | UnknownMode | BadPath | DuplicatePath | NoDigest

definition ExactIdentityVersion :: int where "ExactIdentityVersion = 1"

definition validateEnumeratedMode :: "string \<Rightarrow> bool" where
  "validateEnumeratedMode mode \<longleftrightarrow> mode \<in> {wireMode ModeAuto, wireMode ModeReload, wireMode ModeRevertLKG}"

fun validateFiles :: "string list \<Rightarrow> ManifestFile list \<Rightarrow> manifest_error option" where
  "validateFiles seen [] = None"
| "validateFiles seen (f # fs) =
     (if ValidatePath (af_Path f) \<noteq> None then Some BadPath
      else if af_Path f \<in> set seen then Some DuplicatePath
      else if af_Digest f = '''' then Some NoDigest
      else validateFiles (af_Path f # seen) fs)"

definition validateManifest :: "ApplyManifest \<Rightarrow> manifest_error option" where
  "validateManifest m =
     (case ValidateOpBatches (am_Lists m) of
        Some e \<Rightarrow> Some (BadBatches e)
      | None \<Rightarrow>
          if am_IdentityVersion m \<noteq> ExactIdentityVersion then Some BadIdentityVersion
          else if am_PlanID m = '''' then Some EmptyPlanID
          else if length (am_Files m) > MaxFiles then Some TooManyManifestFiles
          else if length (am_InPlaceOps m) > 0 \<and> (am_ExpectedWorkerOpsPlanID m = '''' \<or> am_WorkerOpsPlanID m = '''') then Some InPlaceUnnamed
          else if length (am_InPlaceOps m) > 0 \<and> am_ExpectedWorkerOpsPlanProof m = '''' then Some InPlaceUnproved
          else if (am_ValidatedPlanID m = '''') \<noteq> (am_ValidatedPlanProof m = '''') then Some HalfValidated
          else if am_Mode m = wireMode ModeRevertLKG \<and> am_PlanProof m = '''' then Some RevertUnproved
          else if \<not> validateEnumeratedMode (am_Mode m) then Some UnknownMode
          else validateFiles [] (am_Files m))"

text \<open>\<open>readManifest\<close> after the decoding: the validation, and the automatic apply without a worker baseline that becomes a reload.\<close>

definition readManifest :: "ApplyManifest \<Rightarrow> manifest_error + ApplyManifest" where
  "readManifest m =
     (case validateManifest m of
        Some e \<Rightarrow> Inl e
      | None \<Rightarrow>
          if am_Mode m = wireMode ModeAuto \<and> am_ExpectedWorkerOpsPlanProof m = '''' \<and> length (am_InPlaceOps m) = 0
          then Inr (m\<lparr>am_Mode := wireMode ModeReload, am_Lists := (am_Lists m)\<lparr>mf_Ops := [], mf_OpBatches := []\<rparr>\<rparr>)
          else Inr m)"

datatype fence_reason = StaleEpoch | RevertTargetMismatch | PrevMismatch | UnknownBaseline | WorkerOpsMismatch

definition carriesRefusedPlanLocked :: "string \<Rightarrow> string \<Rightarrow> persistentState \<Rightarrow> bool" where
  "carriesRefusedPlanLocked planID planProof st \<longleftrightarrow>
     \<not> (planProof = '''' \<or> samePlanRef planID planProof (ps_RunningPlanID st) (ps_RunningPlanProof st)) \<and>
     (samePlanRef planID planProof (ps_AppliedPlanID st) (ps_AppliedPlanProof st) \<or>
      samePlanRef planID planProof (ps_WorkerOpsPlanID st) (ps_WorkerOpsPlanProof st))"

definition inPlaceWillRunLocked :: "server_env \<Rightarrow> ApplyManifest \<Rightarrow> bool server_op" where
  "inPlaceWillRunLocked env m s =
     (if length (am_InPlaceOps m) = 0 then (s, False)
      else if ps_ReloadPendingAt (sv_state s) \<noteq> None then (s, True)
      else if am_Mode m \<noteq> wireMode ModeReload then (s, False)
      else case timeNow env s of
             (s1, now) \<Rightarrow> (s1, case sv_lastReload s of None \<Rightarrow> False | Some t \<Rightarrow> now < t + se_ReloadIntervalMin env))"

text \<open>The fence; the conflict it answers with is its reason and the state as it is.\<close>

definition fence :: "server_env \<Rightarrow> ApplyManifest \<Rightarrow> fence_reason option server_op" where
  "fence env m s =
     (let st = sv_state s in
      if tk_LeaderEpoch (am_Token m) < tk_LeaderEpoch (ps_AppliedToken st) then (s, Some StaleEpoch)
      else if am_Mode m = wireMode ModeRevertLKG
      then (s, if carriesRefusedPlanLocked (am_PlanID m) (am_PlanProof m) st then None else Some RevertTargetMismatch)
      else if am_ExpectedPrevPlanID m \<noteq> ps_AppliedPlanID st
      then (s, Some (if ps_AppliedPlanID st = '''' then UnknownBaseline else PrevMismatch))
      else if am_ExpectedPrevToken m \<noteq> ps_AppliedToken st then (s, Some PrevMismatch)
      else if am_Mode m \<noteq> wireMode ModeReload \<and>
        (am_ExpectedPrevPlanProof m = '''' \<or> am_ExpectedPrevPlanProof m \<noteq> ps_AppliedPlanProof st) then (s, Some PrevMismatch)
      else if am_Mode m = wireMode ModeReload \<and> ps_AppliedPlanProof st \<noteq> '''' \<and>
        am_ExpectedPrevPlanProof m \<noteq> ps_AppliedPlanProof st then (s, Some PrevMismatch)
      else case (if am_Mode m = wireMode ModeAuto then (s, True) else inPlaceWillRunLocked env m s) of
             (s1, runs) \<Rightarrow>
               (s1, if runs \<and> \<not> samePlanRef (am_ExpectedWorkerOpsPlanID m) (am_ExpectedWorkerOpsPlanProof m)
                            (ps_WorkerOpsPlanID st) (ps_WorkerOpsPlanProof st)
                    then Some WorkerOpsMismatch else None))"

subsection \<open>Receiving the parts\<close>

record received =
  rc_files :: "Staged gomap"
  rc_unpatched :: "string list"
  rc_plan :: "string option"

text \<open>The parts of the body after the manifest: the plan, a named file, or a part without a usable name.\<close>

datatype body_part = PlanPart part | FilePart string part | NamelessPart

definition MaxPlanBlobBytes :: nat where "MaxPlanBlobBytes = 8 * 1024 * 1024"

definition readPlanBlob :: "part \<Rightarrow> string option" where
  "readPlanBlob p = (case p of Inl _ \<Rightarrow> None | Inr blob \<Rightarrow> if length blob > MaxPlanBlobBytes then None else Some blob)"

text \<open>\<open>stagePart\<close>; the flag is true when it failed.\<close>

definition stagePart :: "server_env \<Rightarrow> (string \<Rightarrow> ManifestFile option) \<Rightarrow> body_part \<Rightarrow> received \<Rightarrow> fsys \<Rightarrow> fsys \<times> received \<times> bool" where
  "stagePart env declared p got fs =
     (case p of
        PlanPart blob \<Rightarrow>
          (case readPlanBlob blob of
             None \<Rightarrow> (fs, got\<lparr>rc_plan := None\<rparr>, True)
           | Some b \<Rightarrow> (fs, got\<lparr>rc_plan := Some b\<rparr>, False))
      | NamelessPart \<Rightarrow> (fs, got, True)
      | FilePart path body \<Rightarrow>
          if path = '''' then (fs, got, True)
          else case declared path of
            None \<Rightarrow> (fs, got, True)
          | Some f \<Rightarrow>
              if go_get (rc_files got) path \<noteq> None \<or> path \<in> set (rc_unpatched got) then (fs, got, True)
              else
                (case mfl_Patch f of
                   Some patch \<Rightarrow>
                     (case StagePatch (se_files env) (se_store env) path body patch (af_Digest f) (af_Size f) fs of
                        (fs1, Inl ErrPatchBaseMissing) \<Rightarrow> (fs1, got\<lparr>rc_unpatched := path # rc_unpatched got\<rparr>, False)
                      | (fs1, Inl e) \<Rightarrow> (fs1, got, True)
                      | (fs1, Inr verified) \<Rightarrow> (fs1, got\<lparr>rc_files := AList.update path verified (rc_files got)\<rparr>, False))
                 | None \<Rightarrow>
                     (case Stage (se_files env) (se_store env) path body (af_Digest f) (af_Size f) fs of
                        (fs1, Inl e) \<Rightarrow> (fs1, got, True)
                      | (fs1, Inr verified) \<Rightarrow> (fs1, got\<lparr>rc_files := AList.update path verified (rc_files got)\<rparr>, False))))"

text \<open>The loop over the parts: how many more may come, and whether the body ends cleanly after them.\<close>

fun stageLoop :: "server_env \<Rightarrow> (string \<Rightarrow> ManifestFile option) \<Rightarrow> nat \<Rightarrow> body_part list \<Rightarrow> bool \<Rightarrow> received \<Rightarrow> fsys \<Rightarrow> fsys \<times> received \<times> bool" where
  "stageLoop env declared 0 parts clean got fs = (fs, got, True)"
| "stageLoop env declared (Suc n) [] clean got fs = (fs, got, \<not> clean)"
| "stageLoop env declared (Suc n) (p # ps) clean got fs =
     (case stagePart env declared p got fs of
        (fs1, got1, True) \<Rightarrow> (fs1, got1, True)
      | (fs1, got1, False) \<Rightarrow> stageLoop env declared n ps clean got1 fs1)"

definition stageParts :: "server_env \<Rightarrow> ApplyManifest \<Rightarrow> body_part list \<Rightarrow> bool \<Rightarrow> fsys \<Rightarrow> fsys \<times> received \<times> bool" where
  "stageParts env m parts clean fs =
     stageLoop env (index_by af_Path (am_Files m)) (MaxFiles + 1) parts clean \<lparr>rc_files = [], rc_unpatched = [], rc_plan = None\<rparr> fs"

definition heldFile :: "FileAt gomap \<Rightarrow> ManifestFile \<Rightarrow> bool" where
  "heldFile tree f =
     (case go_get tree (af_Path f) of
        None \<Rightarrow> False
      | Some at \<Rightarrow> af_Proof f \<noteq> '''' \<and> fa_Proof at = af_Proof f \<and> fa_Digest at = af_Digest f \<and> fa_Size at = af_Size f)"

definition missingParts :: "FileAt gomap \<Rightarrow> ApplyManifest \<Rightarrow> received \<Rightarrow> string list" where
  "missingParts tree m got =
     sort (map af_Path (filter (\<lambda>f. go_get (rc_files got) (af_Path f) = None \<and>
       (af_Path f \<in> set (rc_unpatched got) \<or> \<not> heldFile tree f)) (am_Files m)))"

end
