(* ===== verification/Agent_Apply.thy ===== *)
theory Agent_Apply
  imports Agent_State Map_Entries
begin

section \<open>The agent server: applies, reloads and recovery\<close>

text \<open>
  \<open>src/pkg/dataplane/agent/server/{transaction,reload,handlers}.go\<close> and the parts of \<open>apply.go\<close>, \<open>server.go\<close>
  and \<open>statemachine.go\<close> that run them: one apply from the admitted manifest to its answer, the scheduled
  reload, the read-back, the re-observation and the start. A run threads its own record and the state of
  the server. The errors of a run end in its result, so its functions return no other. Timings, logs and
  metrics are left out; the checked invariants give the list of the violated ones.

  The record of a refused manifest holds a pointer to the run's result, which the end of the run completes;
  \<open>ar_nacked\<close> marks such a run.
\<close>

subsection \<open>A run (\<open>transaction.go\<close>, \<open>reload.go\<close>)\<close>

record applyRun =
  ar_manifest :: ApplyManifest
  ar_staged :: "Staged gomap"
  ar_planBlob :: "string option"
  ar_digest :: string
  ar_work :: string
  ar_appliedProof :: string
  ar_workerProof :: string
  ar_result :: ApplyResult
  ar_tx :: "Transaction option"
  ar_opsRan :: bool
  ar_deterministic :: bool
  ar_invalidations :: nat
  ar_touchedMaps :: "string list"
  ar_touchedBackends :: "string list"
  ar_retiringBackends :: "string list"
  ar_retiringServers :: "ServerRef list"
  ar_createdCerts :: "string list"
  ar_createdCAs :: "string list"
  ar_nacked :: bool

type_synonym run_op = "applyRun \<Rightarrow> AgentServer \<Rightarrow> applyRun \<times> AgentServer"

abbreviation onResult :: "(ApplyResult \<Rightarrow> ApplyResult) \<Rightarrow> applyRun \<Rightarrow> applyRun" where
  "onResult f r \<equiv> r\<lparr>ar_result := f (ar_result r)\<rparr>"

abbreviation ar_PlanID :: "applyRun \<Rightarrow> string" where
  "ar_PlanID r \<equiv> am_PlanID (ar_manifest r)"

definition newRun :: "ApplyManifest \<Rightarrow> ApplyResult \<Rightarrow> applyRun" where
  "newRun m result = \<lparr>ar_manifest = m, ar_staged = [], ar_planBlob = None, ar_digest = '''', ar_work = '''', ar_appliedProof = '''',
     ar_workerProof = '''', ar_result = result, ar_tx = None, ar_opsRan = False, ar_deterministic = False, ar_invalidations = 0,
     ar_touchedMaps = [], ar_touchedBackends = [], ar_retiringBackends = [], ar_retiringServers = [], ar_createdCerts = [],
     ar_createdCAs = [], ar_nacked = False\<rparr>"

text \<open>\<open>awaitNewWorker\<close>: the first answer from another worker; the answers end with the deadline.\<close>

definition newWorkerIn :: "HAProxyInfo \<Rightarrow> HAProxyInfo option list \<Rightarrow> HAProxyInfo option" where
  "newWorkerIn previous polls =
     (case find (\<lambda>a. case a of Some info \<Rightarrow> \<not> SameWorker info previous | None \<Rightarrow> False) polls of Some a \<Rightarrow> a | None \<Rightarrow> None)"

definition awaitNewWorker :: "server_env \<Rightarrow> HAProxyInfo option server_op" where
  "awaitNewWorker env s =
     (case outside s of
        (s1, n) \<Rightarrow>
          (case newWorkerIn (sv_worker s) (se_polls env n) of
             None \<Rightarrow> (s1, None)
           | Some info \<Rightarrow> (adoptWorker env info s1, Some info)))"

definition masterAnswers :: "server_env \<Rightarrow> bool server_op" where
  "masterAnswers env s = (case outside s of (s1, n) \<Rightarrow> (s1, se_showProc env n))"

text \<open>\<open>performReload\<close>; the last component is true when it failed.\<close>

definition performReload :: "server_env \<Rightarrow> string \<Rightarrow> string \<Rightarrow> applyRun \<Rightarrow> AgentServer \<Rightarrow> applyRun \<times> AgentServer \<times> bool" where
  "performReload env planID planProof r s =
     (case outside (clearPendingReload s) of
        (s1, n) \<Rightarrow>
          (case se_reload env n of
             (logs, accepted) \<Rightarrow>
               (let info = \<lparr>ri_Performed = True, ri_OK = accepted, ri_Output = logs, ri_WorkerPID = 0, ri_ScheduledAt = None\<rparr> in
                if \<not> accepted
                then (case (if logs \<noteq> '''' then (s1, True) else masterAnswers env s1) of
                        (s2, refused) \<Rightarrow>
                          (onResult (\<lambda>res. res\<lparr>res_Reload := Some (info\<lparr>ri_Performed := refused\<rparr>)\<rparr>) (r\<lparr>ar_deterministic := refused\<rparr>), s2, True))
                else (case awaitNewWorker env s1 of
                        (s2, None) \<Rightarrow>
                          (onResult (\<lambda>res. res\<lparr>res_Reload := Some (info\<lparr>ri_WorkerPID := hi_WorkerPID (sv_worker s1)\<rparr>)\<rparr>) r, s2, True)
                      | (s2, Some worker) \<Rightarrow>
                          (onResult (\<lambda>res. res\<lparr>res_Reload := Some (info\<lparr>ri_WorkerPID := hi_WorkerPID worker\<rparr>)\<rparr>) r,
                           recordReload env planID planProof s2, False)))))"

text \<open>\<open>tx.Discard\<close>: the parts keep no temporary name.\<close>

definition discardTx :: "server_env \<Rightarrow> run_op" where
  "discardTx env r s =
     (case ar_tx r of
        None \<Rightarrow> (r, s)
      | Some t \<Rightarrow> (r\<lparr>ar_tx := Some (t\<lparr>tx_installs := map (\<lambda>p. p\<lparr>sg_tmp := ''''\<rparr>) (tx_installs t)\<rparr>)\<rparr>,
                   s\<lparr>sv_fs := DiscardAll (se_files env) t (sv_fs s)\<rparr>))"

definition lkgReload :: "server_env \<Rightarrow> applyRun \<Rightarrow> AgentServer \<Rightarrow> applyRun \<times> AgentServer \<times> bool" where
  "lkgReload env r s = performReload env (ps_LKGPlanID (sv_state s)) (ps_LKGPlanProof (sv_state s)) r s"

definition abortRun :: "server_env \<Rightarrow> string \<Rightarrow> run_op" where
  "abortRun env failedAt r s =
     (case discardTx env (onResult (\<lambda>res. res\<lparr>res_OK := False, res_Mode := ResultRejected, res_Error := Some failedAt,
             res_Rollback := Some \<lparr>rb_Performed = False, rb_Reloaded = False\<rparr>\<rparr>) r) s of
        (r1, s1) \<Rightarrow>
          (case restoreJournal env s1 of
             (s2, True) \<Rightarrow> (r1, s2)
           | (s2, False) \<Rightarrow>
               (let noted = (\<lambda>b. res_Rollback_update (\<lambda>_. Some \<lparr>rb_Performed = True, rb_Reloaded = b\<rparr>));
                    (r3, s3) =
                      (if ar_opsRan r1
                       then (case lkgReload env r1 s2 of
                               (r', s', failed) \<Rightarrow> (onResult (noted (\<not> failed)) r', s'))
                       else (onResult (noted False) r1, s2))
                in if ar_deterministic r3
                   then (r3\<lparr>ar_nacked := (ar_work r3 \<noteq> '''')\<rparr>, rememberNACK env (ar_digest r3) (ar_work r3) failedAt (ar_result r3) s3)
                   else (r3, s3))))"

definition revertLKG :: "server_env \<Rightarrow> run_op" where
  "revertLKG env r s =
     (case restoreJournal env (setPhase env PhaseBackedUp (ar_PlanID r) s) of
        (s1, True) \<Rightarrow> abortRun env ''revert'' r s1
      | (s1, False) \<Rightarrow>
          (case lkgReload env (onResult (res_Rollback_update (\<lambda>_. Some \<lparr>rb_Performed = True, rb_Reloaded = False\<rparr>)) r) s1 of
             (r2, s2, True) \<Rightarrow> abortRun env ''revert_reload'' r2 s2
           | (r2, s2, False) \<Rightarrow>
               (onResult (\<lambda>res. res\<lparr>res_Rollback := Some \<lparr>rb_Performed = True, rb_Reloaded = True\<rparr>, res_Mode := ResultReload\<rparr>) r2, s2)))"

text \<open>
  \<open>readFile\<close>, and the compilation of the operations. \<open>Compile\<close> reads at most the file of its own operation;
  the model counts one read of it per operation.
\<close>

definition readFile :: "server_env \<Rightarrow> string \<Rightarrow> fsys \<Rightarrow> fsys \<times> (fs_error + string)" where
  "readFile env path fs =
     (case Abs (se_store env) path of Inl e \<Rightarrow> (fs, Inl e) | Inr p \<Rightarrow> os_ReadFile (se_files env) (path_Clean p) fs)"

definition noteOp :: "Op \<Rightarrow> applyRun \<Rightarrow> applyRun" where
  "noteOp op r =
     (if op_Kind op \<in> {OpMapAdd, OpMapSet, OpMapDel, OpMapReplace} then r\<lparr>ar_touchedMaps := ar_touchedMaps r @ [op_Path op]\<rparr>
      else if op_Kind op \<in> {OpServerAdd, OpServerDel, OpServerEnable, OpServerDisable, OpServerSetAddr, OpServerSetWeight, OpServerSetState}
      then r\<lparr>ar_touchedBackends := ar_touchedBackends r @ [op_Backend op]\<rparr>
      else if op_Kind op = OpCertNew then r\<lparr>ar_createdCerts := ar_createdCerts r @ [op_Path op]\<rparr>
      else if op_Kind op = OpCANew then r\<lparr>ar_createdCAs := ar_createdCAs r @ [op_Path op]\<rparr>
      else r)"

fun compileAll :: "server_env \<Rightarrow> Op list \<Rightarrow> applyRun \<Rightarrow> AgentServer \<Rightarrow> applyRun \<times> AgentServer \<times> Program list option" where
  "compileAll env [] r s = (r, s, Some [])"
| "compileAll env (op # ops) r s =
     (let s1 = s\<lparr>sv_fs := fst (readFile env (op_Path op) (sv_fs s))\<rparr> in
      case Compile op (\<lambda>path. snd (readFile env path (sv_fs s))) of
        Inl e \<Rightarrow> (r, s1, None)
      | Inr program \<Rightarrow>
          (case compileAll env ops (noteOp op r) s1 of
             (r2, s2, rest) \<Rightarrow> (r2, s2, map_option (Cons program) rest)))"

definition compileOps :: "server_env \<Rightarrow> Op list \<Rightarrow> applyRun \<Rightarrow> AgentServer \<Rightarrow> applyRun \<times> AgentServer \<times> Program list option" where
  "compileOps env ops r s =
     (case Split ops of
        (inline, servers, backends) \<Rightarrow>
          if CheckDeletes servers backends (sv_deferrals s) \<noteq> None then (r, s, None)
          else compileAll env inline (r\<lparr>ar_retiringBackends := backends, ar_retiringServers := servers\<rparr>) s)"

text \<open>\<open>runtime.Execute\<close> on the server's socket; the last component is true when it failed.\<close>

definition execute_on :: "server_env \<Rightarrow> Program list \<Rightarrow> AgentServer \<Rightarrow> AgentServer \<times> OpResult list \<times> bool" where
  "execute_on env programs s =
     (case Execute (se_socket env) programs (sv_sent s) of (sent, results, err) \<Rightarrow> (s\<lparr>sv_sent := sent\<rparr>, results, err \<noteq> None))"

fun executeChunks :: "server_env \<Rightarrow> nat \<Rightarrow> Program list \<Rightarrow> AgentServer \<Rightarrow> AgentServer \<times> OpResult list \<times> bool" where
  "executeChunks env n programs s =
     (if programs = [] \<or> n = 0 then (s, [], False)
      else case execute_on env (take n programs) s of
             (s1, results, True) \<Rightarrow> (s1, results, True)
           | (s1, results, False) \<Rightarrow>
               (case executeChunks env n (drop n programs) s1 of (s2, rest, failed) \<Rightarrow> (s2, results @ rest, failed)))"

declare executeChunks.simps [simp del]

definition executeBatches :: "server_env \<Rightarrow> Program list \<Rightarrow> applyRun \<Rightarrow> AgentServer \<Rightarrow> applyRun \<times> AgentServer \<times> bool" where
  "executeBatches env programs r s =
     (case (if length programs \<le> MaxOpsPerApply then execute_on env programs s else executeChunks env MaxOpsPerApply programs s) of
        (s1, results, failed) \<Rightarrow> (onResult (res_OpResults_update (\<lambda>_. results)) (r\<lparr>ar_opsRan := True\<rparr>), s1, failed))"

text \<open>True when the deletes were refused.\<close>

definition enqueueDeletes :: "HAProxyInfo \<Rightarrow> applyRun \<Rightarrow> bool server_op" where
  "enqueueDeletes worker r s =
     (case Enqueue worker (ar_retiringServers r) (ar_retiringBackends r) (sv_deferrals s) of
        (d, err) \<Rightarrow> (s\<lparr>sv_deferrals := d\<rparr>, err \<noteq> None))"

text \<open>The in-place batch while a reload waits: what stops it, and the batch between two identity checks.\<close>

definition inPlaceBatch :: "server_env \<Rightarrow> applyRun \<Rightarrow> AgentServer \<Rightarrow> applyRun \<times> AgentServer \<times> bool" where
  "inPlaceBatch env r s =
     (case compileOps env (am_InPlaceOps (ar_manifest r)) r s of
        (r1, s1, None) \<Rightarrow> (r1, s1, True)
      | (r1, s1, Some programs) \<Rightarrow>
          (let worker = sv_worker s1 in
           case checkWorker env s1 of
             (s2, False) \<Rightarrow> (r1, s2, True)
           | (s2, True) \<Rightarrow>
               (case execute_on env programs s2 of
                  (s3, results, failed) \<Rightarrow>
                    (let r3 = onResult (res_OpResults_update (\<lambda>_. results)) (r1\<lparr>ar_opsRan := True\<rparr>) in
                     if failed then (r3, s3, True)
                     else case checkWorker env s3 of
                            (s4, False) \<Rightarrow> (r3, s4, True)
                          | (s4, True) \<Rightarrow> (case enqueueDeletes worker r3 s4 of (s5, refused) \<Rightarrow> (r3, s5, refused))))))"

definition runInPlace :: "server_env \<Rightarrow> run_op" where
  "runInPlace env r s =
     (if length (am_InPlaceOps (ar_manifest r)) = 0 then (r, s)
      else if \<not> workerOpsBaselineMatches (am_ExpectedWorkerOpsPlanID (ar_manifest r)) (am_ExpectedWorkerOpsPlanProof (ar_manifest r)) s
      then (onResult (res_Error_update (\<lambda>_. Some ''in_place'')) r, invalidateBaseline s)
      else case inPlaceBatch env r s of
             (r1, s1, True) \<Rightarrow> (onResult (res_Error_update (\<lambda>_. Some ''in_place'')) r1, invalidateBaseline s1)
           | (r1, s1, False) \<Rightarrow>
               (r1, recordWorkerOps (am_WorkerOpsPlanID (ar_manifest r1)) (ar_workerProof r1) (foldCreated (ar_createdCerts r1) (ar_createdCAs r1) s1)))"

definition reloadReasonMode :: string where "reloadReasonMode = ''mode''"

definition scheduledFor :: "int \<Rightarrow> ReloadInfo" where
  "scheduledFor due = \<lparr>ri_Performed = False, ri_OK = False, ri_Output = '''', ri_WorkerPID = 0, ri_ScheduledAt = Some due\<rparr>"

definition scheduleRun :: "server_env \<Rightarrow> int \<Rightarrow> run_op" where
  "scheduleRun env due r s =
     (onResult (\<lambda>res. res\<lparr>res_Mode := ResultScheduled, res_Reload := Some (scheduledFor due)\<rparr>) r,
      setPhase env PhaseScheduled (ar_PlanID r) (schedulePendingReload env due (ar_PlanID r) (ar_appliedProof r) s))"

definition reloadRun :: "server_env \<Rightarrow> string \<Rightarrow> run_op" where
  "reloadRun env reason r s =
     (case pacingWindow env s of
        (s1, due, True) \<Rightarrow>
          (case scheduleRun env due r s1 of
             (r2, s2) \<Rightarrow> if reason \<noteq> reloadReasonMode then (r2, s2) else runInPlace env r2 s2)
      | (s1, due, False) \<Rightarrow>
          (case performReload env (ar_PlanID r) (ar_appliedProof r) r s1 of
             (r2, s2, True) \<Rightarrow> abortRun env ''reload'' r2 s2
           | (r2, s2, False) \<Rightarrow> (onResult (res_Mode_update (\<lambda>_. ResultReload)) r2, setPhase env PhaseReloaded (ar_PlanID r) s2)))"

definition inPlace :: "server_env \<Rightarrow> run_op" where
  "inPlace env r s =
     (let s1 = coalesceIntoPendingReload (ar_PlanID r) (ar_appliedProof r) s in
      runInPlace env (onResult (\<lambda>res. res\<lparr>res_Mode := ResultScheduled,
        res_Reload := map_option scheduledFor (ps_ReloadPendingAt (sv_state s1))\<rparr>) r) s1)"

definition settle :: "server_env \<Rightarrow> run_op" where
  "settle env r s =
     (let changed = (case ar_tx r of Some t \<Rightarrow> Changes t > 0 | None \<Rightarrow> False)
      in (onResult (res_Mode_update (\<lambda>_. if changed then ResultFileOnly else ResultNoop)) r, setPhase env PhaseApplied (ar_PlanID r) s))"

definition runOps :: "server_env \<Rightarrow> Program list \<Rightarrow> run_op" where
  "runOps env programs r s =
     (case checkWorker env s of
        (s1, False) \<Rightarrow> reloadRun env ''worker_changed'' r s1
      | (s1, True) \<Rightarrow>
          (let worker = sv_worker s1 in
           case executeBatches env programs r s1 of
             (r2, s2, True) \<Rightarrow> reloadRun env ''op_rejected'' r2 (recordWorkerOps '''' '''' s2)
           | (r2, s2, False) \<Rightarrow>
               (case checkWorker env s2 of
                  (s3, False) \<Rightarrow> reloadRun env ''worker_changed'' r2 s3
                | (s3, True) \<Rightarrow>
                    (case enqueueDeletes worker r2 s3 of
                       (s4, True) \<Rightarrow> reloadRun env ''deferred_delete_commit'' r2 s4
                     | (s4, False) \<Rightarrow>
                         (onResult (res_Mode_update (\<lambda>_. ResultRuntime)) r2,
                          setPhase env PhaseApplied (ar_PlanID r2) (foldCreated (ar_createdCerts r2) (ar_createdCAs r2) s4))))))"

definition activate :: "server_env \<Rightarrow> run_op" where
  "activate env r s =
     (if reloadPending s then inPlace env r s
      else if am_Mode (ar_manifest r) = wireMode ModeReload then reloadRun env reloadReasonMode r s
      else if baselineUnknown s then reloadRun env ''unknown_baseline'' r s
      else
        let ops = RuntimeOps (am_Lists (ar_manifest r)) in
        case compileOps env ops r s of
          (r1, s1, None) \<Rightarrow> reloadRun env ''unknown_op'' r1 s1
        | (r1, s1, Some programs) \<Rightarrow> if programs = [] \<and> ops = [] then settle env r1 s1 else runOps env programs r1 s1)"

definition manifestFilePaths :: "ApplyManifest \<Rightarrow> string list" where
  "manifestFilePaths m = sort (map af_Path (am_Files m))"

definition deletions :: "ApplyManifest \<Rightarrow> AgentServer \<Rightarrow> string list" where
  "deletions m s = sort (filter (\<lambda>path. path \<notin> af_Path ` set (am_Files m)) (ps_ManifestPaths (sv_state s)))"

definition beginTx :: "server_env \<Rightarrow> applyRun \<Rightarrow> AgentServer \<Rightarrow> Transaction" where
  "beginTx env r s =
     fold DeletePath (deletions (ar_manifest r) s)
       (fold InstallPart (map (\<lambda>path. the (go_get (ar_staged r) path)) (sorted_keys (ar_staged r))) (Begin (se_ConfigFile env)))"

definition executeRun :: "server_env \<Rightarrow> run_op" where
  "executeRun env r s =
     (if am_Mode (ar_manifest r) = wireMode ModeRevertLKG then revertLKG env r s
      else
        let s1 = setPhase env PhaseVerified (ar_PlanID r) s; t = beginTx env r s1; r1 = r\<lparr>ar_tx := Some t\<rparr> in
        case Backup (se_files env) (se_store env) t (ps_Journal (sv_state s1)) (sv_fs s1) of
          (fs2, j, failed) \<Rightarrow>
            (let s2 = onState (ps_Journal_update (\<lambda>_. j)) (s1\<lparr>sv_fs := fs2\<rparr>) in
             if failed \<noteq> None then abortRun env ''backup'' r1 s2
             else
               let s3 = setPhase env PhaseBackedUp (ar_PlanID r) s2 in
               case Write (se_files env) (se_store env) t (sv_fs s3) of
                 (fs4, t', errs) \<Rightarrow>
                   (let s4 = s3\<lparr>sv_fs := fs4\<rparr>; r4 = r1\<lparr>ar_tx := Some t'\<rparr> in
                    if errs \<noteq> [] then abortRun env ''write'' r4 s4
                    else
                      let s5 = setPhase env PhaseWritten (ar_PlanID r) s4
                      in activate env r4 (observeTree (ar_manifest r) (ar_staged r) (deletions (ar_manifest r) s5) s5))))"

subsection \<open>The end of a run\<close>

definition commitLocked :: "files_env \<Rightarrow> applyRun \<Rightarrow> AgentServer \<Rightarrow> AgentServer" where
  "commitLocked env r s =
     (let m = ar_manifest r; revert = (am_Mode m = wireMode ModeRevertLKG);
          applied = (if revert then ps_LKGPlanID (sv_state s) else am_PlanID m);
          appliedProof = (if revert then ps_LKGPlanProof (sv_state s) else ar_appliedProof r);
          s1 = (if revert then s else onState (\<lambda>st. st\<lparr>ps_PlanSchemaVersion := am_PlanSchemaVersion m,
                  ps_ManifestPaths := manifestFilePaths m, ps_TreeDigest := treeDigest env (sv_tree s)\<rparr>) s)
      in if sv_baselineInvalidations s1 \<noteq> ar_invalidations r
         then onState (\<lambda>st. st\<lparr>ps_AppliedPlanID := '''', ps_AppliedPlanProof := ''''\<rparr>) s1
         else
           let s2 = onState (\<lambda>st. st\<lparr>ps_AppliedPlanID := applied, ps_AppliedPlanProof := appliedProof, ps_AppliedToken := am_Token m\<rparr>) s1
           in if ps_ReloadPendingAt (sv_state s2) = None then recordWorkerOps applied appliedProof s2 else s2)"

definition applyResultLocked :: "ApplyResult \<Rightarrow> ApplyResult server_op" where
  "applyResultLocked result s =
     (let st = sv_state s;
          res = result\<lparr>res_AppliedPlanID := ps_AppliedPlanID st, res_AppliedPlanProof := ps_AppliedPlanProof st,
            res_RunningPlanID := ps_RunningPlanID st, res_RunningPlanProof := ps_RunningPlanProof st,
            res_WorkerOpsPlanID := ps_WorkerOpsPlanID st, res_WorkerOpsPlanProof := ps_WorkerOpsPlanProof st,
            res_AppliedToken := ps_AppliedToken st, res_LKGPlanID := ps_LKGPlanID st, res_LKGPlanProof := ps_LKGPlanProof st,
            res_HAProxy := sv_worker s\<rparr>
      in if inv_Generation (sv_inventory s) > sv_reportedInventory s
         then (s\<lparr>sv_reportedInventory := inv_Generation (sv_inventory s)\<rparr>, res\<lparr>res_Inventory := Some (sv_inventory s)\<rparr>)
         else (s, res))"

text \<open>The completed result is what the state keeps, in its last apply and in the record of a refused manifest.\<close>

definition keepResult :: "applyRun \<Rightarrow> ApplyResult \<Rightarrow> AgentServer \<Rightarrow> AgentServer" where
  "keepResult r res = onState (\<lambda>st. st\<lparr>ps_LastApply := Some res,
     ps_NACK := (if ar_nacked r then map_option (\<lambda>nack. nack\<lparr>nk_Result := res\<rparr>) (ps_NACK st) else ps_NACK st)\<rparr>)"

definition treeMatchesLocked :: "ApplyManifest \<Rightarrow> AgentServer \<Rightarrow> bool" where
  "treeMatchesLocked m s \<longleftrightarrow>
     length (sorted_keys (sv_tree s)) = length (am_Files m) \<and>
     list_all (\<lambda>f. go_get (sv_tree s) (af_Path f) = Some \<lparr>fa_Digest = af_Digest f, fa_Proof = af_Proof f, fa_Size = af_Size f\<rparr>) (am_Files m)"

definition checkInvariantsLocked :: "applyRun \<Rightarrow> 64 word \<Rightarrow> AgentServer \<Rightarrow> string list" where
  "checkInvariantsLocked r generationBefore s =
     (let m = ar_manifest r; res = ar_result r; st = sv_state s;
          check = (\<lambda>holds name. if holds then [] else [name]);
          reloaded = (case res_Reload res of None \<Rightarrow> False | Some info \<Rightarrow> ri_Performed info \<or> ri_ScheduledAt info \<noteq> None)
      in (if res_OK res
          then check (ps_Generation st = generationBefore + 1) ''generation_monotonic'' @
            (if am_Mode m \<noteq> wireMode ModeRevertLKG then check (treeMatchesLocked m s) ''disk_is_the_desired_set'' else [])
          else []) @
         (case res_Mode res of
            ResultRuntime \<Rightarrow> check (\<not> reloaded) ''runtime_mode_does_not_reload''
          | ResultReload \<Rightarrow> check reloaded ''reload_mode_reloads''
          | ResultNoop \<Rightarrow> check (res_OpResults res = []) ''noop_runs_no_ops''
          | _ \<Rightarrow> []) @
         check (ps_Journal st = [] \<or>
            \<not> samePlanRef (ps_AppliedPlanID st) (ps_AppliedPlanProof st) (ps_LKGPlanID st) (ps_LKGPlanProof st)) ''journal_only_while_diverged'' @
         check (fs_crossDeviceCopy (sv_fs s) = 0) ''mount_probe_found_every_mount'')"

text \<open>\<open>finish\<close>, with the invariants it found violated.\<close>

definition finish :: "server_env \<Rightarrow> applyRun \<Rightarrow> AgentServer \<Rightarrow> applyRun \<times> AgentServer \<times> string list" where
  "finish env r s =
     (let generationBefore = ps_Generation (sv_state s);
          s1 = (if res_OK (ar_result r) then commitLocked (se_files env) r (onState (\<lambda>st. st\<lparr>ps_Generation := ps_Generation st + 1\<rparr>) s)
                else onState (\<lambda>st. st\<lparr>ps_AppliedPlanID := '''', ps_AppliedPlanProof := ''''\<rparr>) s);
          s2 = onState (\<lambda>st. st\<lparr>ps_Phase := PhaseIdle, ps_InFlightPlanID := ''''\<rparr>) s1
      in case applyResultLocked (ar_result r) s2 of
           (s3, res) \<Rightarrow>
             (let r1 = r\<lparr>ar_result := res\<rparr>; s4 = fst (saveState env (keepResult r res s3))
              in (r1, s4, checkInvariantsLocked r1 generationBefore s4)))"

text \<open>\<open>storePlanBlobLocked\<close>; a failing write leaves a prefix of the blob in the file.\<close>

definition storePlanBlobLocked :: "server_env \<Rightarrow> string \<Rightarrow> string \<Rightarrow> string \<Rightarrow> bool server_op" where
  "storePlanBlobLocked env planID planProof blob s =
     (if \<not> samePlanRef (ps_AppliedPlanID (sv_state s)) (ps_AppliedPlanProof (sv_state s)) planID planProof then (s, False)
      else case outside s of
             (s1, n) \<Rightarrow>
               (case se_blobFault env n of
                  Some written \<Rightarrow> (s1\<lparr>sv_blobFile := Some (take written blob)\<rparr>, False)
                | None \<Rightarrow>
                    (fst (saveState env (onState (\<lambda>st. st\<lparr>ps_PlanBlobPlanID := planID, ps_PlanBlobPlanProof := planProof\<rparr>)
                      (s1\<lparr>sv_blobFile := Some blob, sv_appliedPlan := blob\<rparr>))), True)))"

definition rebindPlanBlobProof :: "server_env \<Rightarrow> applyRun \<Rightarrow> AgentServer \<Rightarrow> AgentServer" where
  "rebindPlanBlobProof env r s =
     (let st = sv_state s in
      if ps_PlanBlobPlanID st = '''' \<or> ps_PlanBlobPlanID st \<noteq> ps_AppliedPlanID st \<or> ps_AppliedPlanID st \<noteq> ar_PlanID r \<or>
         ps_AppliedPlanProof st \<noteq> ar_appliedProof r \<or> ps_PlanBlobPlanProof st = ar_appliedProof r then s
      else fst (saveState env (onState (ps_PlanBlobPlanProof_update (\<lambda>_. ar_appliedProof r)) s)))"

definition commitPlanBlob :: "server_env \<Rightarrow> applyRun \<Rightarrow> AgentServer \<Rightarrow> AgentServer" where
  "commitPlanBlob env r s =
     (case ar_planBlob r of
        None \<Rightarrow> rebindPlanBlobProof env r s
      | Some blob \<Rightarrow> fst (storePlanBlobLocked env (ar_PlanID r) (ar_appliedProof r) blob s))"

text \<open>\<open>runApply\<close> up to the read-back, which runs later from the run it returns.\<close>

definition runApply :: "server_env \<Rightarrow> ApplyManifest \<Rightarrow> received \<Rightarrow> string \<Rightarrow> string \<Rightarrow> string \<Rightarrow> string \<Rightarrow> AgentServer \<Rightarrow>
    applyRun \<times> AgentServer \<times> string list" where
  "runApply env m got digest work appliedProof workerProof s =
     (let r = (newRun m (newResult (am_PlanID m) ResultNone))\<lparr>ar_staged := rc_files got, ar_planBlob := rc_plan got, ar_digest := digest,
            ar_work := work, ar_appliedProof := appliedProof, ar_workerProof := workerProof, ar_invalidations := sv_baselineInvalidations s\<rparr>
      in case executeRun env r s of
           (r1, s1) \<Rightarrow> (case finish env r1 s1 of (r2, s2, violated) \<Rightarrow> (r2, commitPlanBlob env r2 s2, violated)))"

subsection \<open>The apply handler (\<open>apply.go\<close>)\<close>

datatype apply_answer =
    NotReady | BadManifest manifest_error | Refused fence_reason | BadParts | MissingFiles "string list"
  | KnownBad ApplyResult | LKGFailed | IdentityFailed | Applied applyRun "string list"

definition discardAllStaged :: "server_env \<Rightarrow> Staged list \<Rightarrow> AgentServer \<Rightarrow> AgentServer" where
  "discardAllStaged env parts s = s\<lparr>sv_fs := foldl (\<lambda>fs p. fst (Discard (se_files env) p fs)) (sv_fs s) parts\<rparr>"

text \<open>What the deferred cleanup finds: the parts of the transaction where one was opened.\<close>

definition leftParts :: "received \<Rightarrow> apply_answer \<Rightarrow> Staged list" where
  "leftParts got answer =
     (case answer of
        Applied r _ \<Rightarrow> (case ar_tx r of Some t \<Rightarrow> tx_installs t | None \<Rightarrow> map snd (rc_files got))
      | _ \<Rightarrow> map snd (rc_files got))"

text \<open>From the promotion of the last known good plan on; the earlier refusals of \<open>stageAndRun\<close> follow below.\<close>

definition admitted :: "server_env \<Rightarrow> ApplyManifest \<Rightarrow> received \<Rightarrow> string \<Rightarrow> string \<Rightarrow> apply_answer server_op" where
  "admitted env m got digest work s =
     (case promoteLKG env m s of
        (s1, True) \<Rightarrow> (s1, LKGFailed)
      | (s1, False) \<Rightarrow>
          (case (if am_Mode m = wireMode ModeRevertLKG then (s1, Some ('''', '''')) else reserveRoleProofs env (length (am_InPlaceOps m) > 0) s1) of
             (s2, None) \<Rightarrow> (s2, IdentityFailed)
           | (s2, Some (appliedProof, workerProof)) \<Rightarrow>
               (case runApply env m got digest work appliedProof workerProof s2 of (r, s3, violated) \<Rightarrow> (s3, Applied r violated))))"

definition admit :: "server_env \<Rightarrow> ApplyManifest \<Rightarrow> received \<Rightarrow> apply_answer server_op" where
  "admit env m got s =
     (let missing = missingParts (sv_tree s) m got in
      if missing \<noteq> [] then (s, MissingFiles missing)
      else case se_workIdentity env m of
             None \<Rightarrow> admitted env m got '''' '''' s
           | Some work \<Rightarrow>
               (let digest = DigestString (fe_sum64 (se_files env)) work in
                case cachedNACK env digest work s of
                  (s1, Some result) \<Rightarrow> (s1, KnownBad result)
                | (s1, None) \<Rightarrow> admitted env m got digest work s1))"

definition stageAndRun :: "server_env \<Rightarrow> ApplyManifest \<Rightarrow> body_part list \<Rightarrow> bool \<Rightarrow> apply_answer server_op" where
  "stageAndRun env m parts clean s =
     (case stageParts env m parts clean (sv_fs s) of
        (fs1, got, failed) \<Rightarrow>
          (case (if failed then (s\<lparr>sv_fs := fs1\<rparr>, BadParts) else admit env m got (s\<lparr>sv_fs := fs1\<rparr>)) of
             (s2, answer) \<Rightarrow> (discardAllStaged env (leftParts got answer) s2, answer)))"

definition handleApply :: "server_env \<Rightarrow> ApplyManifest \<Rightarrow> body_part list \<Rightarrow> bool \<Rightarrow> apply_answer server_op" where
  "handleApply env sent parts clean s =
     (if \<not> sv_initialized s then (s, NotReady)
      else case readManifest sent of
             Inl e \<Rightarrow> (s, BadManifest e)
           | Inr m \<Rightarrow>
               (case fence env m s of
                  (s1, Some reason) \<Rightarrow> (s1, Refused reason)
                | (s1, None) \<Rightarrow> stageAndRun env m parts clean s1))"

subsection \<open>Between applies\<close>

definition reloadManifest :: "string \<Rightarrow> string \<Rightarrow> ApplyManifest" where
  "reloadManifest planID planProof = \<lparr>am_IdentityVersion = 0, am_PlanID = planID, am_PlanProof = planProof, am_PlanSchemaVersion = 0,
     am_Token = zeroToken, am_ExpectedPrevPlanID = '''', am_ExpectedPrevPlanProof = '''', am_ExpectedPrevToken = zeroToken,
     am_ExpectedWorkerOpsPlanID = '''', am_ExpectedWorkerOpsPlanProof = '''', am_WorkerOpsPlanID = '''', am_ValidatedPlanID = '''',
     am_ValidatedPlanProof = '''', am_Files = [], am_Lists = \<lparr>mf_Ops = [], mf_OpBatches = [], mf_InPlaceOps = []\<rparr>,
     am_Mode = wireMode ModeReload\<rparr>"

definition ownReload :: "string \<Rightarrow> string \<Rightarrow> applyRun" where
  "ownReload planID planProof = newRun (reloadManifest planID planProof) (newResult planID ResultReload)"

definition firePendingReload :: "server_env \<Rightarrow> AgentServer \<Rightarrow> AgentServer" where
  "firePendingReload env s =
     (let planID = ps_PendingReloadPlanID (sv_state s); planProof = ps_PendingReloadPlanProof (sv_state s) in
      if \<not> sv_initialized s \<or> planID = '''' \<or> planProof = '''' then s
      else case timeNow env s of
             (s1, now) \<Rightarrow>
               if (case ps_ReloadPendingAt (sv_state s) of Some due \<Rightarrow> now < due | None \<Rightarrow> False) then s1
               else
                 (case (case performReload env planID planProof (ownReload planID planProof) s1 of
                          (r, s2, True) \<Rightarrow> abortRun env ''scheduled_reload'' r s2
                        | (r, s2, False) \<Rightarrow> (r, s2)) of
                    (r, s3) \<Rightarrow>
                      (let s4 = (if res_OK (ar_result r) then s3
                                 else onState (\<lambda>st. st\<lparr>ps_AppliedPlanID := '''', ps_AppliedPlanProof := ''''\<rparr>) s3)
                       in case applyResultLocked (ar_result r) s4 of
                            (s5, res) \<Rightarrow> fst (saveState env (keepResult r res s5)))))"

definition selfReload :: "server_env \<Rightarrow> AgentServer \<Rightarrow> AgentServer" where
  "selfReload env s =
     (let planID = ps_AppliedPlanID (sv_state s); planProof = ps_AppliedPlanProof (sv_state s)
      in case performReload env planID planProof (ownReload planID planProof) s of (r, s1, failed) \<Rightarrow> fst (saveState env s1))"

definition MaxMapEntries :: nat where "MaxMapEntries = 2 ^ 18"

text \<open>The keys of the map file; \<open>None\<close> for an error, which is never the one for a listing over the limit.\<close>

definition readMapFile :: "server_env \<Rightarrow> string \<Rightarrow> fsys \<Rightarrow> fsys \<times> string list option" where
  "readMapFile env path fs =
     (case readFile env path fs of
        (fs1, Inl e) \<Rightarrow> (fs1, None)
      | (fs1, Inr content) \<Rightarrow>
          (let parsed = (case ParseMapEntries content of None \<Rightarrow> [] | Some es \<Rightarrow> es)
           in (fs1, if length parsed > MaxMapEntries then None else Some (remdups (map ent_Key parsed)))))"

definition mapDiverged :: "server_env \<Rightarrow> string \<Rightarrow> bool server_op" where
  "mapDiverged env path s =
     (case outside s of
        (s1, n) \<Rightarrow>
          (case se_mapEntries env n path of
             Inl tooMany \<Rightarrow> (s1, \<not> tooMany)
           | Inr running \<Rightarrow>
               (case readMapFile env path (sv_fs s1) of
                  (fs1, None) \<Rightarrow> (s1\<lparr>sv_fs := fs1\<rparr>, True)
                | (fs1, Some desired) \<Rightarrow>
                    (s1\<lparr>sv_fs := fs1\<rparr>, length (remdups running) \<noteq> length desired \<or> \<not> list_all (\<lambda>key. key \<in> set running) desired))))"

fun dedupe :: "string list \<Rightarrow> string list" where
  "dedupe [] = []"
| "dedupe (v # vs) = v # dedupe (removeAll v vs)"

text \<open>The loops of the read-back; each backend is asked for once, and each map compared once.\<close>

definition unreadableBackend :: "server_env \<Rightarrow> applyRun \<Rightarrow> string \<Rightarrow> AgentServer \<times> bool \<Rightarrow> AgentServer \<times> bool" where
  "unreadableBackend env r backend = (\<lambda>(s, diverged).
     if backend \<in> set (ar_retiringBackends r) then (s, diverged)
     else case outside s of (s1, n) \<Rightarrow> (s1, diverged \<or> \<not> se_serverNames env n backend))"

definition divergedMap :: "server_env \<Rightarrow> string \<Rightarrow> AgentServer \<times> bool \<Rightarrow> AgentServer \<times> bool" where
  "divergedMap env path = (\<lambda>(s, diverged). case mapDiverged env path s of (s1, d) \<Rightarrow> (s1, diverged \<or> d))"

definition readBack :: "server_env \<Rightarrow> applyRun \<Rightarrow> AgentServer \<Rightarrow> AgentServer" where
  "readBack env r s =
     (if res_Mode (ar_result r) \<noteq> ResultRuntime \<or> \<not> res_OK (ar_result r) \<or> sv_stopped s then s
      else case fold (divergedMap env) (dedupe (ar_touchedMaps r)) (fold (unreadableBackend env r) (dedupe (ar_touchedBackends r)) (s, False)) of
             (s1, diverged) \<Rightarrow>
               if \<not> diverged \<or> sv_stopped s1 then s1
               else (case pacingWindow env s1 of
                       (s2, due, open) \<Rightarrow>
                         if open then schedulePendingReload env due (ps_AppliedPlanID (sv_state s2)) (ps_AppliedPlanProof (sv_state s2)) s2
                         else selfReload env s2))"

text \<open>\<open>refreshTree\<close>: a file keeps its proof while its fingerprint is the recorded one; true when the observation failed.\<close>

definition refreshTree :: "server_env \<Rightarrow> bool server_op" where
  "refreshTree env s =
     (case Observe (se_files env) (se_store env) (ps_ManifestPaths (sv_state s)) (sv_fs s) of
        (fs1, Inl e) \<Rightarrow> (s\<lparr>sv_fs := fs1\<rparr>, True)
      | (fs1, Inr observed) \<Rightarrow>
          (let kept = (\<lambda>path print. go_get (sv_treePrints s) path = Some print);
               proof_at = (\<lambda>path. case go_get (sv_tree s) path of Some at \<Rightarrow> fa_Proof at | None \<Rightarrow> '''');
               tree = map (\<lambda>(path, at, print). (path, if kept path print then at\<lparr>fa_Proof := proof_at path\<rparr> else at)) observed;
               prints = map (\<lambda>(path, at, print). (path, print)) (filter (\<lambda>(path, at, print). kept path print) observed)
           in (onState (ps_TreeDigest_update (\<lambda>_. treeDigest (se_files env) tree)) (s\<lparr>sv_fs := fs1, sv_tree := tree, sv_treePrints := prints\<rparr>), False)))"

definition reobserve :: "server_env \<Rightarrow> bool server_op" where
  "reobserve env s = (case refreshTree env s of (s1, True) \<Rightarrow> (s1, True) | (s1, False) \<Rightarrow> (fst (checkWorker env s1), False))"

record agent_state =
  as_PlanSchemaVersion :: int
  as_AgentOps :: "string list"
  as_HAProxy :: HAProxyInfo
  as_Generation :: "64 word"
  as_AppliedPlanID :: string
  as_AppliedPlanProof :: string
  as_RunningPlanID :: string
  as_RunningPlanProof :: string
  as_WorkerOpsPlanID :: string
  as_WorkerOpsPlanProof :: string
  as_AppliedToken :: Token
  as_LKGPlanID :: string
  as_LKGPlanProof :: string
  as_Files :: "FileAt gomap"
  as_Inventory :: Inventory
  as_PendingDeletes :: PendingDeletes
  as_LastApply :: "ApplyResult option"
  as_AppliedPlanStored :: bool
  as_AppliedPlan :: string
  as_ReloadPendingAt :: "int option"

definition planStored :: "persistentState \<Rightarrow> bool" where
  "planStored st \<longleftrightarrow> ps_PlanBlobPlanID st \<noteq> '''' \<and> ps_PlanBlobPlanID st = ps_AppliedPlanID st \<and>
     ps_PlanBlobPlanProof st \<noteq> '''' \<and> ps_PlanBlobPlanProof st = ps_AppliedPlanProof st"

text \<open>\<open>stateResponse\<close>; the constant versions and feature names of the answer are left out.\<close>

definition stateResponse :: "server_env \<Rightarrow> bool \<Rightarrow> bool \<Rightarrow> agent_state option server_op" where
  "stateResponse env verify withPlan s =
     (case (if verify then reobserve env s else (s, False)) of
        (s1, True) \<Rightarrow> (s1, None)
      | (s1, False) \<Rightarrow>
          (let st = sv_state s1 in
           (s1, Some \<lparr>as_PlanSchemaVersion = ps_PlanSchemaVersion st, as_AgentOps = Kinds, as_HAProxy = sv_worker s1,
              as_Generation = ps_Generation st, as_AppliedPlanID = ps_AppliedPlanID st, as_AppliedPlanProof = ps_AppliedPlanProof st,
              as_RunningPlanID = ps_RunningPlanID st, as_RunningPlanProof = ps_RunningPlanProof st,
              as_WorkerOpsPlanID = ps_WorkerOpsPlanID st, as_WorkerOpsPlanProof = ps_WorkerOpsPlanProof st,
              as_AppliedToken = ps_AppliedToken st, as_LKGPlanID = ps_LKGPlanID st, as_LKGPlanProof = ps_LKGPlanProof st,
              as_Files = sv_tree s1, as_Inventory = sv_inventory s1, as_PendingDeletes = Pending (sv_deferrals s1),
              as_LastApply = ps_LastApply st, as_AppliedPlanStored = planStored st,
              as_AppliedPlan = (if planStored st \<and> withPlan then sv_appliedPlan s1 else ''''),
              as_ReloadPendingAt = ps_ReloadPendingAt st\<rparr>)))"

datatype plan_answer = PlanNotReady | PlanUnnamed | PlanUnreadable | PlanMoved string string | PlanStored string string

definition handlePlan :: "server_env \<Rightarrow> string \<Rightarrow> string \<Rightarrow> part \<Rightarrow> plan_answer server_op" where
  "handlePlan env planID planProof body s =
     (if \<not> sv_initialized s then (s, PlanNotReady)
      else if planID = '''' \<or> planProof = '''' then (s, PlanUnnamed)
      else case readPlanBlob body of
             None \<Rightarrow> (s, PlanUnreadable)
           | Some blob \<Rightarrow>
               (case storePlanBlobLocked env planID planProof blob s of
                  (s1, True) \<Rightarrow> (s1, PlanStored planID planProof)
                | (s1, False) \<Rightarrow> (s1, PlanMoved (ps_AppliedPlanID (sv_state s1)) (ps_AppliedPlanProof (sv_state s1)))))"

subsection \<open>The start (\<open>server.go\<close>)\<close>

definition loadPlanBlob :: "server_env \<Rightarrow> AgentServer \<Rightarrow> AgentServer" where
  "loadPlanBlob env s =
     (if ps_PlanBlobPlanID (sv_state s) = '''' \<or> ps_PlanBlobPlanProof (sv_state s) = '''' then s
      else case outside s of
             (s1, n) \<Rightarrow>
               (case (if se_blobFault env n = None then sv_blobFile s else None) of
                  None \<Rightarrow> onState (\<lambda>st. st\<lparr>ps_PlanBlobPlanID := '''', ps_PlanBlobPlanProof := ''''\<rparr>) s1
                | Some blob \<Rightarrow> s1\<lparr>sv_appliedPlan := blob\<rparr>))"

text \<open>A new process over the files the old one left: the saved state, without the work of a refused manifest.\<close>

definition NewServer :: "server_env \<Rightarrow> AgentServer \<Rightarrow> AgentServer" where
  "NewServer env s =
     loadPlanBlob env s\<lparr>sv_state := (sv_saved s)\<lparr>ps_NACK := map_option (nk_ManifestWork_update (\<lambda>_. '''')) (ps_NACK (sv_saved s))\<rparr>,
       sv_tree := [], sv_treePrints := [], sv_inventory := emptyInventory, sv_worker := noWorker, sv_lastReload := None,
       sv_reportedInventory := 0, sv_baselineInvalidations := 0, sv_appliedPlan := '''', sv_deferrals := NewDeferrals,
       sv_initialized := False, sv_stopped := False\<rparr>"

text \<open>True when HAProxy did not answer yet.\<close>

definition probeHAProxy :: "server_env \<Rightarrow> bool server_op" where
  "probeHAProxy env s =
     (case outside s of
        (s1, n) \<Rightarrow>
          (case se_info env n of
             None \<Rightarrow> (s1, True)
           | Some info \<Rightarrow>
               (case masterAnswers env s1 of
                  (s2, False) \<Rightarrow> (s2, True)
                | (s2, True) \<Rightarrow>
                    (case outside s2 of
                       (s3, k) \<Rightarrow>
                         (case se_inventory env k of
                            None \<Rightarrow> (s3, True)
                          | Some listing \<Rightarrow>
                              (s3\<lparr>sv_worker := info, sv_deferrals := SetWorker info (sv_deferrals s3),
                                  sv_inventory := listing\<lparr>inv_Generation := 1\<rparr>\<rparr>, False))))))"

definition adoptDisk :: "server_env \<Rightarrow> bool server_op" where
  "adoptDisk env s =
     (case HashTree (se_files env) (se_store env) (ps_ManifestPaths (sv_state s)) (sv_fs s) of
        (fs1, Inl e) \<Rightarrow> (s\<lparr>sv_fs := fs1\<rparr>, True)
      | (fs1, Inr tree) \<Rightarrow>
          (let digest = treeDigest (se_files env) tree;
               moved = (ps_TreeDigest (sv_state s) \<noteq> '''' \<and> ps_TreeDigest (sv_state s) \<noteq> digest);
               forget = (\<lambda>st. if moved then st\<lparr>ps_AppliedPlanID := '''', ps_RunningPlanID := '''', ps_WorkerOpsPlanID := ''''\<rparr> else st)
           in saveState env (onState (\<lambda>st. (forget st)\<lparr>ps_AppliedPlanProof := '''', ps_RunningPlanProof := '''', ps_WorkerOpsPlanProof := '''',
                ps_LKGPlanProof := '''', ps_PendingReloadPlanID := '''', ps_PendingReloadPlanProof := '''', ps_ReloadPendingAt := None,
                ps_PlanBlobPlanProof := '''', ps_NACK := None, ps_TreeDigest := digest, ps_ExpectedWorker := sv_worker s\<rparr>)
                (s\<lparr>sv_fs := fs1, sv_tree := tree\<rparr>))))"

definition recoverFromCrash :: "server_env \<Rightarrow> bool server_op" where
  "recoverFromCrash env s =
     (if ps_Phase (sv_state s) = PhaseIdle \<or> ps_Phase (sv_state s) = PhaseCommitted then (s, False)
      else
        let planID = ps_InFlightPlanID (sv_state s) in
        case performReload env '''' '''' (ownReload planID '''') (invalidateBaseline s) of
          (r, s1, failed) \<Rightarrow>
            (let s2 = onState (\<lambda>st. st\<lparr>ps_Phase := PhaseIdle, ps_InFlightPlanID := ''''\<rparr>) s1;
                 s3 = (if failed then onState (\<lambda>st. st\<lparr>ps_RunningPlanID := '''', ps_RunningPlanProof := ''''\<rparr>) s2 else s2)
             in saveState env s3))"

text \<open>The probes until one succeeds, at most as many as come before the context ends.\<close>

fun probeLoop :: "server_env \<Rightarrow> nat \<Rightarrow> bool server_op" where
  "probeLoop env 0 s = (s, True)"
| "probeLoop env (Suc n) s = (case probeHAProxy env s of (s1, False) \<Rightarrow> (s1, False) | (s1, True) \<Rightarrow> probeLoop env n s1)"

definition initialise :: "server_env \<Rightarrow> nat \<Rightarrow> bool server_op" where
  "initialise env n s =
     (let s0 = s\<lparr>sv_fs := fst (SweepTemp (se_files env) (se_store env) (sv_fs s))\<rparr> in
      case probeLoop env n s0 of
        (s1, True) \<Rightarrow> (s1, True)
      | (s1, False) \<Rightarrow>
          (case adoptDisk env s1 of
             (s2, True) \<Rightarrow> (s2, True)
           | (s2, False) \<Rightarrow>
               (case recoverFromCrash env s2 of (s3, True) \<Rightarrow> (s3, True) | (s3, False) \<Rightarrow> (s3\<lparr>sv_initialized := True\<rparr>, False))))"

end
