(* ===== verification/Agent_Server.thy ===== *)
theory Agent_Server
  imports Agent_Apply
begin

section \<open>The agent server: laws\<close>

text \<open>
  What each part of an apply does to the state of the agent: which parts leave the tree, the proofs and the
  scheduled reload alone, what a reload, a rollback and the end of a run leave, and that a run from an owned
  tree ends with the tree of its manifest and violates none of the invariants the agent checks.
\<close>

subsection \<open>What the parts of a run leave alone\<close>

text \<open>\<open>kept\<close> holds of every part of a run but the reload, the observation of the written tree and the restore.\<close>

definition saved_number :: "AgentServer \<Rightarrow> AgentServer \<Rightarrow> bool" where
  "saved_number s s' \<longleftrightarrow> ps_ProofGeneration (sv_saved s') \<in> {ps_ProofGeneration (sv_saved s), ps_ProofGeneration (sv_state s)}"

definition kept :: "AgentServer \<Rightarrow> AgentServer \<Rightarrow> bool" where
  "kept s s' \<longleftrightarrow> sv_tree s' = sv_tree s \<and> sv_initialized s' = sv_initialized s \<and> ps_ManifestPaths (sv_state s') = ps_ManifestPaths (sv_state s) \<and>
     ps_Journal (sv_state s') = ps_Journal (sv_state s) \<and> ps_LKGPlanID (sv_state s') = ps_LKGPlanID (sv_state s) \<and>
     ps_LKGPlanProof (sv_state s') = ps_LKGPlanProof (sv_state s) \<and> ps_Generation (sv_state s') = ps_Generation (sv_state s) \<and>
     ps_ProofGeneration (sv_state s') = ps_ProofGeneration (sv_state s) \<and> ps_AppliedToken (sv_state s') = ps_AppliedToken (sv_state s) \<and>
     ps_NACK (sv_state s') = ps_NACK (sv_state s) \<and> ps_AppliedPlanProof (sv_state s') \<in> {[], ps_AppliedPlanProof (sv_state s)} \<and>
     saved_number s s'"

definition waits :: "AgentServer \<Rightarrow> int option \<times> string \<times> string" where
  "waits s = (ps_ReloadPendingAt (sv_state s), ps_PendingReloadPlanID (sv_state s), ps_PendingReloadPlanProof (sv_state s))"

lemma kept_refl [simp]: "kept s s"
  by (simp add: kept_def saved_number_def)

lemma kept_trans [trans]: "kept s t \<Longrightarrow> kept t u \<Longrightarrow> kept s u"
  by (auto simp: kept_def saved_number_def)

lemma outside_kept: "outside s = (s', n) \<Longrightarrow> kept s s' \<and> waits s' = waits s \<and> sv_state s' = sv_state s \<and> sv_fs s' = sv_fs s"
  by (auto simp: outside_def kept_def saved_number_def waits_def)

lemma saveState_kept: "saveState env s = (s', b) \<Longrightarrow> kept s s' \<and> waits s' = waits s \<and> sv_state s' = sv_state s \<and> sv_fs s' = sv_fs s"
  by (auto simp: saveState_def outside_def kept_def saved_number_def waits_def split: if_splits)

lemma setPhase_kept [simp]:
  "kept t s \<Longrightarrow> kept t (setPhase env p planID s)" "waits (setPhase env p planID s) = waits s" "sv_fs (setPhase env p planID s) = sv_fs s"
  by (auto simp: setPhase_def saveState_def outside_def kept_def saved_number_def waits_def)

lemma setPhase_refs [simp]:
  "ps_AppliedPlanID (sv_state (setPhase env p planID s)) = ps_AppliedPlanID (sv_state s)"
  "ps_AppliedPlanProof (sv_state (setPhase env p planID s)) = ps_AppliedPlanProof (sv_state s)"
  by (auto simp: setPhase_def saveState_def outside_def split: prod.splits if_splits)

lemma small_kept [simp]:
  "kept t s \<Longrightarrow> kept t (schedulePendingReload env due planID planProof s)" "kept t (coalesceIntoPendingReload planID planProof s) \<longleftrightarrow> kept t s"
  "kept t (recordWorkerOps planID planProof s) \<longleftrightarrow> kept t s" "kept t s \<Longrightarrow> kept t (invalidateBaseline s)" "kept t (adoptWorker env info s) \<longleftrightarrow> kept t s"
  "kept t (foldCreated certs cas s) \<longleftrightarrow> kept t s" "kept t (clearPendingReload s) \<longleftrightarrow> kept t s"
  by (auto simp: kept_def saved_number_def schedulePendingReload_def saveState_def outside_def coalesceIntoPendingReload_def recordWorkerOps_def
    invalidateBaseline_def adoptWorker_def foldCreated_def clearPendingReload_def Let_def case_prod_beta split: option.splits)

lemma small_waits [simp]:
  "waits (recordWorkerOps planID planProof s) = waits s" "waits (invalidateBaseline s) = waits s" "waits (adoptWorker env info s) = waits s"
  "waits (foldCreated certs cas s) = waits s" "waits (coalesceIntoPendingReload planID planProof s) = (fst (waits s), planID, planProof)"
  "waits (clearPendingReload s) = (None, '''', '''')" "waits (schedulePendingReload env due planID planProof s) = (Some due, planID, planProof)"
  by (auto simp: waits_def schedulePendingReload_def saveState_def outside_def coalesceIntoPendingReload_def recordWorkerOps_def
    invalidateBaseline_def adoptWorker_def foldCreated_def clearPendingReload_def Let_def case_prod_beta split: option.splits)

lemma checkWorker_kept: "checkWorker env s = (s', b) \<Longrightarrow> kept s s' \<and> waits s' = waits s"
  unfolding checkWorker_def
  by (auto split: prod.splits option.splits if_splits dest!: outside_kept)

lemma timeNow_kept: "timeNow env s = (s', now) \<Longrightarrow> kept s s' \<and> waits s' = waits s \<and> sv_state s' = sv_state s \<and> sv_fs s' = sv_fs s"
  by (auto simp: timeNow_def split: prod.splits dest: outside_kept)

lemma pacingWindow_kept: "pacingWindow env s = (s', w) \<Longrightarrow> kept s s' \<and> waits s' = waits s"
  by (auto simp: pacingWindow_def Let_def split: prod.splits option.splits dest: timeNow_kept)

lemma execute_on_kept: "execute_on env programs s = (s', results, failed) \<Longrightarrow> kept s s' \<and> waits s' = waits s"
  by (auto simp: execute_on_def kept_def saved_number_def waits_def split: prod.splits)

lemma executeChunks_kept: "executeChunks env n programs s = (s', results, failed) \<Longrightarrow> kept s s' \<and> waits s' = waits s"
proof (induction env n programs s arbitrary: s' results failed rule: executeChunks.induct)
  case (1 env n programs s)
  show ?case
  proof (cases "programs = [] \<or> n = 0")
    case True
    with "1.prems" show ?thesis by (subst (asm) executeChunks.simps) auto
  next
    case False
    obtain s1 results1 failed1 where e: "execute_on env (take n programs) s = (s1, results1, failed1)" by (cases "execute_on env (take n programs) s") auto
    obtain s2 rest failed2 where c: "executeChunks env n (drop n programs) s1 = (s2, rest, failed2)"
      by (cases "executeChunks env n (drop n programs) s1") auto
    have "\<not> failed1 \<Longrightarrow> kept s1 s2 \<and> waits s2 = waits s1" using "1.IH" [OF False e [symmetric] refl] c by auto
    with "1.prems" False e c execute_on_kept [OF e] show ?thesis
      by (subst (asm) executeChunks.simps) (auto split: if_splits bool.splits intro: kept_trans)
  qed
qed

lemma executeBatches_kept:
  assumes "executeBatches env programs r s = (r', s', failed)"
  shows "kept s s'" "waits s' = waits s"
  using assms execute_on_kept executeChunks_kept
  by (auto simp: executeBatches_def split: prod.splits if_splits)

lemma enqueueDeletes_kept: "enqueueDeletes worker r s = (s', b) \<Longrightarrow> kept s s' \<and> waits s' = waits s"
  by (auto simp: enqueueDeletes_def kept_def saved_number_def waits_def split: prod.splits)

lemma compileAll_kept: "compileAll env ops r s = (r', s', programs) \<Longrightarrow> kept s s' \<and> waits s' = waits s"
proof (induction ops arbitrary: r s r' s' programs)
  case (Cons op ops)
  from Cons.prems Cons.IH [of "noteOp op r" "s\<lparr>sv_fs := fst (readFile env (op_Path op) (sv_fs s))\<rparr>"] show ?case
    by (auto simp: Let_def kept_def saved_number_def waits_def split: sum.splits prod.splits)
qed simp

lemma compileOps_kept: "compileOps env ops r s = (r', s', programs) \<Longrightarrow> kept s s' \<and> waits s' = waits s"
  by (auto simp: compileOps_def split: prod.splits if_splits dest: compileAll_kept)

subsection \<open>What a run carries\<close>

definition carried :: "applyRun \<Rightarrow> applyRun \<Rightarrow> bool" where
  "carried r r' \<longleftrightarrow> ar_manifest r' = ar_manifest r \<and> ar_staged r' = ar_staged r \<and> ar_planBlob r' = ar_planBlob r \<and>
     ar_digest r' = ar_digest r \<and> ar_work r' = ar_work r \<and> ar_appliedProof r' = ar_appliedProof r \<and>
     ar_workerProof r' = ar_workerProof r \<and> ar_invalidations r' = ar_invalidations r"

definition outcome :: "applyRun \<Rightarrow> bool \<times> result_mode \<times> ReloadInfo option" where
  "outcome r = (res_OK (ar_result r), res_Mode (ar_result r), res_Reload (ar_result r))"

lemma carried_refl [simp]: "carried r r"
  by (simp add: carried_def)

lemma carried_trans [trans]: "carried r t \<Longrightarrow> carried t u \<Longrightarrow> carried r u"
  by (simp add: carried_def)

lemma carried_simps [simp]:
  "carried t (r\<lparr>ar_result := res\<rparr>) \<longleftrightarrow> carried t r" "carried t (r\<lparr>ar_opsRan := b\<rparr>) \<longleftrightarrow> carried t r"
  "carried t (r\<lparr>ar_deterministic := b\<rparr>) \<longleftrightarrow> carried t r" "carried t (r\<lparr>ar_tx := tx\<rparr>) \<longleftrightarrow> carried t r"
  "carried t (r\<lparr>ar_nacked := b\<rparr>) \<longleftrightarrow> carried t r"
  by (simp_all add: carried_def)

lemma noteOp_carried: "carried r (noteOp op r)" "ar_result (noteOp op r) = ar_result r"
  by (simp_all add: carried_def noteOp_def)

lemma compileAll_carried: "compileAll env ops r s = (r', s', programs) \<Longrightarrow> carried r r' \<and> ar_result r' = ar_result r"
proof (induction ops arbitrary: r s r' s' programs)
  case (Cons op ops)
  from Cons.prems Cons.IH [of "noteOp op r" "s\<lparr>sv_fs := fst (readFile env (op_Path op) (sv_fs s))\<rparr>"] noteOp_carried [where op=op and r=r]
  show ?case by (auto simp: Let_def split: sum.splits prod.splits intro: carried_trans)
qed simp

lemma compileOps_carried: "compileOps env ops r s = (r', s', programs) \<Longrightarrow> carried r r' \<and> ar_result r' = ar_result r"
  by (auto simp: compileOps_def carried_def split: prod.splits if_splits dest!: compileAll_carried)

lemma executeBatches_carried: "executeBatches env programs r s = (r', s', failed) \<Longrightarrow> carried r r' \<and> outcome r' = outcome r"
  by (auto simp: executeBatches_def outcome_def carried_def split: prod.splits if_splits)

lemma inPlaceBatch_effect:
  assumes "inPlaceBatch env r s = (r', s', failed)"
  shows "kept s s' \<and> waits s' = waits s \<and> carried r r' \<and> outcome r' = outcome r"
proof -
  obtain r1 s1 programs where c: "compileOps env (am_InPlaceOps (ar_manifest r)) r s = (r1, s1, programs)" by (metis prod_cases3)
  have 1: "kept s s1" "waits s1 = waits s" "carried r r1" "outcome r1 = outcome r"
    using compileOps_kept [OF c] compileOps_carried [OF c] by (auto simp: outcome_def)
  show ?thesis
  proof (cases programs)
    case None
    with assms c 1 show ?thesis by (auto simp: inPlaceBatch_def)
  next
    case (Some ps)
    obtain s2 same where w: "checkWorker env s1 = (s2, same)" by fastforce
    obtain s3 results bad where e: "execute_on env ps s2 = (s3, results, bad)" by (metis prod_cases3)
    obtain s4 same' where w': "checkWorker env s3 = (s4, same')" by fastforce
    have "kept s s2" "kept s s3" "kept s s4" "waits s2 = waits s" "waits s3 = waits s" "waits s4 = waits s"
      using 1 checkWorker_kept [OF w] execute_on_kept [OF e] checkWorker_kept [OF w'] by (metis kept_trans)+
    with assms c Some w e w' 1 show ?thesis
      by (auto simp: inPlaceBatch_def Let_def outcome_def split: bool.splits if_splits prod.splits dest!: enqueueDeletes_kept
        intro: kept_trans carried_trans)
  qed
qed

lemma runInPlace_effect:
  assumes "runInPlace env r s = (r', s')"
  shows "kept s s' \<and> waits s' = waits s \<and> carried r r' \<and> outcome r' = outcome r"
  using assms inPlaceBatch_effect [of env r s]
  by (auto simp: runInPlace_def outcome_def split: if_splits prod.splits bool.splits)

text \<open>A reload keeps the recorded tree; one that succeeds for a named plan also makes it the last known good one.\<close>

definition kept_tree :: "AgentServer \<Rightarrow> AgentServer \<Rightarrow> bool" where
  "kept_tree s s' \<longleftrightarrow> sv_tree s' = sv_tree s \<and> sv_initialized s' = sv_initialized s \<and> ps_ManifestPaths (sv_state s') = ps_ManifestPaths (sv_state s) \<and>
     ps_Generation (sv_state s') = ps_Generation (sv_state s) \<and> ps_ProofGeneration (sv_state s') = ps_ProofGeneration (sv_state s) \<and>
     ps_AppliedToken (sv_state s') = ps_AppliedToken (sv_state s) \<and> ps_NACK (sv_state s') = ps_NACK (sv_state s) \<and>
     ps_AppliedPlanProof (sv_state s') \<in> {[], ps_AppliedPlanProof (sv_state s)} \<and> saved_number s s'"

lemma kept_keeps_tree: "kept s s' \<Longrightarrow> kept_tree s s'"
  by (simp add: kept_def kept_tree_def)

lemma kept_tree_trans [trans]: "kept_tree s t \<Longrightarrow> kept_tree t u \<Longrightarrow> kept_tree s u"
  by (auto simp: kept_tree_def saved_number_def)

lemma recordReload_effect:
  "kept_tree s (recordReload env planID planProof s)" "waits (recordReload env planID planProof s) = waits s"
  "planID = '''' \<or> planProof = '''' \<Longrightarrow> kept s (recordReload env planID planProof s)"
  "planID \<noteq> '''' \<Longrightarrow> planProof \<noteq> '''' \<Longrightarrow> ps_Journal (sv_state (recordReload env planID planProof s)) = [] \<and>
     ps_LKGPlanID (sv_state (recordReload env planID planProof s)) = planID \<and> ps_LKGPlanProof (sv_state (recordReload env planID planProof s)) = planProof"
  by (auto simp: recordReload_def timeNow_def outside_def clearJournalNow_def ClearJournal_def kept_def kept_tree_def saved_number_def waits_def Let_def
    split: prod.splits)

lemma recordReload_running:
  "ps_RunningPlanID (sv_state (recordReload env planID planProof s)) = planID \<and>
   ps_RunningPlanProof (sv_state (recordReload env planID planProof s)) = planProof \<and>
   ps_WorkerOpsPlanID (sv_state (recordReload env planID planProof s)) = planID \<and>
   ps_WorkerOpsPlanProof (sv_state (recordReload env planID planProof s)) = planProof"
  by (auto simp: recordReload_def timeNow_def outside_def clearJournalNow_def Let_def split: prod.splits)

definition cleared :: "AgentServer \<Rightarrow> AgentServer \<Rightarrow> bool" where
  "cleared s s' \<longleftrightarrow> ps_Journal (sv_state s') = [] \<or>
     ps_Journal (sv_state s') = ps_Journal (sv_state s) \<and> ps_LKGPlanProof (sv_state s') = ps_LKGPlanProof (sv_state s)"

lemma masterAnswers_kept: "masterAnswers env s = (s', b) \<Longrightarrow> kept s s' \<and> waits s' = waits s"
  by (auto simp: masterAnswers_def split: prod.splits dest: outside_kept)

lemma awaitNewWorker_kept: "awaitNewWorker env s = (s', w) \<Longrightarrow> kept s s' \<and> waits s' = waits s"
  by (auto simp: awaitNewWorker_def split: prod.splits option.splits dest!: outside_kept)

definition reloads :: "string \<Rightarrow> string \<Rightarrow> applyRun \<Rightarrow> AgentServer \<Rightarrow> applyRun \<Rightarrow> AgentServer \<Rightarrow> bool \<Rightarrow> bool" where
  "reloads planID planProof r s r' s' failed \<longleftrightarrow>
     kept_tree s s' \<and> waits s' = (None, [], []) \<and> carried r r' \<and> cleared s s' \<and>
     res_OK (ar_result r') = res_OK (ar_result r) \<and> res_Mode (ar_result r') = res_Mode (ar_result r) \<and>
     ps_LKGPlanProof (sv_state s') \<in> {ps_LKGPlanProof (sv_state s), planProof} \<and>
     (if failed then kept s s'
      else (\<exists>info. res_Reload (ar_result r') = Some info \<and> ri_Performed info) \<and>
        ps_RunningPlanID (sv_state s') = planID \<and> ps_RunningPlanProof (sv_state s') = planProof)"

lemma recordReload_cleared: "kept s t \<Longrightarrow> cleared s (recordReload env planID planProof t)"
  using recordReload_effect(3,4) [where s=t and env=env and planID=planID and planProof=planProof] by (cases "planID = [] \<or> planProof = []") (auto simp: cleared_def kept_def)

lemma recordReload_lkg: "kept s t \<Longrightarrow> ps_LKGPlanProof (sv_state (recordReload env planID planProof t)) \<in> {ps_LKGPlanProof (sv_state s), planProof}"
  using recordReload_effect(3,4) [where s=t and env=env and planID=planID and planProof=planProof]
  by (cases "planID = [] \<or> planProof = []") (auto simp: kept_def)

lemma performReload_effect:
  assumes "performReload env planID planProof r s = (r', s', failed)"
  shows "reloads planID planProof r s r' s' failed"
proof -
  obtain s1 n where o: "outside (clearPendingReload s) = (s1, n)" by fastforce
  have 1: "kept s s1" "waits s1 = (None, [], [])" using outside_kept [OF o] by (auto intro: kept_trans [of s "clearPendingReload s"])
  obtain logs accepted where l: "se_reload env n = (logs, accepted)" by fastforce
  obtain s2 refused where m: "(if logs \<noteq> [] then (s1, True) else masterAnswers env s1) = (s2, refused)" by fastforce
  obtain s3 w where a: "awaitNewWorker env s1 = (s3, w)" by fastforce
  from m masterAnswers_kept have "kept s1 s2 \<and> waits s2 = waits s1" by (auto split: if_splits)
  with 1 awaitNewWorker_kept [OF a] have k: "kept s s2" "waits s2 = (None, [], [])" "kept s s3" "waits s3 = (None, [], [])"
    by (auto intro: kept_trans)
  have same: "cleared s s2" "cleared s s3" "kept_tree s s2" "kept_tree s s3" "ps_LKGPlanProof (sv_state s2) = ps_LKGPlanProof (sv_state s)"
    "ps_LKGPlanProof (sv_state s3) = ps_LKGPlanProof (sv_state s)"
    using k by (auto simp: cleared_def kept_def kept_tree_def)
  show ?thesis
  proof (cases "accepted \<and> w \<noteq> None")
    case True
    then obtain worker where w: "w = Some worker" by auto
    with assms o l a True have f: "s' = recordReload env planID planProof s3" "\<not> failed" "carried r r'"
      "res_OK (ar_result r') = res_OK (ar_result r)" "res_Mode (ar_result r') = res_Mode (ar_result r)"
      "\<exists>info. res_Reload (ar_result r') = Some info \<and> ri_Performed info"
      by (auto simp: performReload_def Let_def)
    with k same recordReload_effect(1,2) [where s=s3 and env=env and planID=planID and planProof=planProof] recordReload_running [of env planID planProof s3]
      recordReload_cleared [OF k(3), of env planID planProof] recordReload_lkg [OF k(3), of env planID planProof] show ?thesis
      by (auto simp: reloads_def intro: kept_tree_trans)
  next
    case False
    with assms o l m a k same show ?thesis
      by (auto simp: performReload_def Let_def reloads_def split: if_splits option.splits)
  qed
qed

subsection \<open>How a run ends\<close>

lemma clearJournalNow_effect:
  "clearJournalNow env s = (s', b) \<Longrightarrow> kept_tree s s' \<and> waits s' = waits s \<and> ps_Journal (sv_state s') = [] \<and>
     ps_LKGPlanID (sv_state s') = ps_LKGPlanID (sv_state s) \<and> ps_LKGPlanProof (sv_state s') = ps_LKGPlanProof (sv_state s)"
  by (auto simp: clearJournalNow_def ClearJournal_def kept_tree_def saved_number_def waits_def Let_def split: prod.splits)

text \<open>A restore that fails keeps the record of the tree; one that succeeds ends with an empty journal.\<close>

definition tree_owned :: "AgentServer \<Rightarrow> bool" where
  "tree_owned s \<longleftrightarrow> dom (go_get (sv_tree s)) \<subseteq> set (ps_ManifestPaths (sv_state s))"

lemma readPaths_owned: "readPaths env st paths fs = (fs', Inr files) \<Longrightarrow> fst ` set files \<subseteq> set paths"
proof (induction paths arbitrary: fs fs' files)
  case (Cons p ps)
  obtain s1 r where r: "readRegular env st p fs = (s1, r)" by fastforce
  obtain s2 q where q: "readPaths env st ps s1 = (s2, q)" by fastforce
  from Cons.prems r q Cons.IH [of s1 s2] show ?case by (cases r; cases q) (force split: if_splits)+
qed simp

lemma HashTree_owned:
  assumes "HashTree env st paths fs = (fs', Inr tree)"
  shows "dom (go_get tree) \<subseteq> set paths"
proof -
  from assms obtain files where "readPaths env st paths fs = (fs', Inr files)"
    and tree: "tree = map (\<lambda>(rel, content, meta). (rel, fileAt env content)) files"
    by (auto simp: HashTree_def readTree_def split: prod.splits sum.splits if_splits)
  have "fst ` set tree = fst ` set files" by (auto simp: tree image_image intro: rev_image_eqI)
  with readPaths_owned [OF \<open>readPaths env st paths fs = (fs', Inr files)\<close>] show ?thesis by (simp add: dom_map_of_conv_image_fst)
qed

lemma restoreJournal_owned: "restoreJournal env s = (s', False) \<Longrightarrow> tree_owned s'"
  by (auto simp: restoreJournal_def clearJournalNow_def tree_owned_def Let_def split: prod.splits if_splits sum.splits
    dest!: HashTree_owned subsetD [OF _ domI])

lemma restoreJournal_effect:
  assumes "restoreJournal env s = (s', failed)"
  shows "waits s' = waits s" "ps_Generation (sv_state s') = ps_Generation (sv_state s)" "sv_initialized s' = sv_initialized s"
    "ps_AppliedToken (sv_state s') = ps_AppliedToken (sv_state s)" "ps_LKGPlanID (sv_state s') = ps_LKGPlanID (sv_state s)"
    "ps_LKGPlanProof (sv_state s') = ps_LKGPlanProof (sv_state s)" "\<not> failed \<Longrightarrow> ps_Journal (sv_state s') = []"
  using assms
  by (auto simp: restoreJournal_def clearJournalNow_def ClearJournal_def waits_def Let_def split: prod.splits if_splits sum.splits)

lemma rememberNACK_kept:
  "waits (rememberNACK env digest work reason result s) = waits s" "tree_owned (rememberNACK env digest work reason result s) = tree_owned s"
  by (auto simp: rememberNACK_def timeNow_def outside_def waits_def tree_owned_def)

definition rolled_back :: "ApplyResult \<Rightarrow> bool" where
  "rolled_back res \<longleftrightarrow> (case res_Rollback res of Some rb \<Rightarrow> rb_Performed rb | None \<Rightarrow> False)"

lemma kept_tree_owned: "kept_tree s s' \<Longrightarrow> tree_owned s' = tree_owned s"
  by (simp add: kept_tree_def tree_owned_def)

lemma discardTx_effect: "discardTx env r s = (r', s') \<Longrightarrow> kept s s' \<and> waits s' = waits s \<and> carried r r' \<and> ar_result r' = ar_result r \<and>
    ar_opsRan r' = ar_opsRan r \<and> ar_deterministic r' = ar_deterministic r \<and> sv_tree s' = sv_tree s"
  by (auto simp: discardTx_def kept_def saved_number_def waits_def carried_def split: option.splits)

lemma abortRun_effect:
  assumes "abortRun env failedAt r s = (r', s')"
  shows "\<not> res_OK (ar_result r')" "res_Mode (ar_result r') = ResultRejected" "carried r r'" "\<not> ar_opsRan r \<Longrightarrow> waits s' = waits s"
    "rolled_back (ar_result r') \<Longrightarrow> tree_owned s'"
proof -
  let ?r0 = "onResult (\<lambda>res. res\<lparr>res_OK := False, res_Mode := ResultRejected, res_Error := Some failedAt,
    res_Rollback := Some \<lparr>rb_Performed = False, rb_Reloaded = False\<rparr>\<rparr>) r"
  obtain r1 s1 where d: "discardTx env ?r0 s = (r1, s1)" by fastforce
  obtain s2 failed where j: "restoreJournal env s1 = (s2, failed)" by fastforce
  obtain r3 s3 bad where l: "lkgReload env r1 s2 = (r3, s3, bad)" by (metis prod_cases3)
  note effects = discardTx_effect [OF d] restoreJournal_effect(1) [OF j] performReload_effect [OF l [unfolded lkgReload_def]]
  have "carried r r1" using effects(1) by (simp add: carried_def)
  moreover have "\<not> failed \<Longrightarrow> tree_owned s2 \<and> tree_owned s3" using restoreJournal_owned [of env s1 s2] j kept_tree_owned [of s2 s3] effects(3)
    by (auto simp: reloads_def)
  ultimately show "\<not> res_OK (ar_result r')" "res_Mode (ar_result r') = ResultRejected" "carried r r'"
      "\<not> ar_opsRan r \<Longrightarrow> waits s' = waits s" "rolled_back (ar_result r') \<Longrightarrow> tree_owned s'"
    using assms d j l effects
    by (auto simp: abortRun_def Let_def reloads_def rememberNACK_kept rolled_back_def split: bool.splits if_splits intro: carried_trans)
qed

definition mode_ok :: "ApplyResult \<Rightarrow> bool" where
  "mode_ok res \<longleftrightarrow>
     (case res_Mode res of
        ResultRuntime \<Rightarrow> res_Reload res = None
      | ResultReload \<Rightarrow> (\<exists>info. res_Reload res = Some info \<and> ri_Performed info)
      | ResultNoop \<Rightarrow> res_OpResults res = []
      | ResultFileOnly \<Rightarrow> True | ResultScheduled \<Rightarrow> True | _ \<Rightarrow> False)"

definition landed :: "applyRun \<Rightarrow> AgentServer \<Rightarrow> applyRun \<times> AgentServer \<Rightarrow> bool" where
  "landed r s e \<longleftrightarrow> carried r (fst e) \<and>
     (if res_OK (ar_result (fst e)) then kept_tree s (snd e) \<and> cleared s (snd e) \<and> mode_ok (ar_result (fst e))
      else res_Mode (ar_result (fst e)) = ResultRejected \<and> (rolled_back (ar_result (fst e)) \<longrightarrow> tree_owned (snd e)))"

lemma landed_pair: "landed r s (r', s') \<Longrightarrow> carried r r' \<and> (if res_OK (ar_result r') then kept_tree s s' \<and> cleared s s' \<and> mode_ok (ar_result r')
    else res_Mode (ar_result r') = ResultRejected \<and> (rolled_back (ar_result r') \<longrightarrow> tree_owned s'))"
  by (auto simp: landed_def split: if_splits)

lemma cleared_kept: "kept s t \<Longrightarrow> cleared t u \<Longrightarrow> cleared s u"
  by (auto simp: cleared_def kept_def)

lemma landed_after: "kept s t \<Longrightarrow> carried r q \<Longrightarrow> landed q t e \<Longrightarrow> landed r s e"
  by (auto simp: landed_def intro: carried_trans kept_tree_trans kept_keeps_tree cleared_kept)

lemma landed_kept:
  "kept s (snd e) \<Longrightarrow> carried r (fst e) \<Longrightarrow> res_OK (ar_result (fst e)) \<Longrightarrow> mode_ok (ar_result (fst e)) \<Longrightarrow> landed r s e"
  by (auto simp: landed_def cleared_def kept_tree_def kept_def)

lemma abortRun_landed: "landed r s (abortRun env failedAt r s)"
  using abortRun_effect [of env failedAt r s] by (cases "abortRun env failedAt r s") (auto simp: landed_def)

lemma reloadRun_landed: "res_OK (ar_result r) \<Longrightarrow> landed r s (reloadRun env reason r s)"
proof -
  assume ok: "res_OK (ar_result r)"
  obtain s1 due paced where w: "pacingWindow env s = (s1, due, paced)" by (metis prod_cases3)
  have k: "kept s s1" using pacingWindow_kept [OF w] by simp
  show ?thesis
  proof (cases paced)
    case True
    obtain r2 s2 where sch: "scheduleRun env due r s1 = (r2, s2)" by fastforce
    then have 2: "kept s s2" "carried r r2" "res_OK (ar_result r2)" "res_Mode (ar_result r2) = ResultScheduled"
      using k ok by (auto simp: scheduleRun_def)
    obtain r3 s3 where i: "runInPlace env r2 s2 = (r3, s3)" by fastforce
    from runInPlace_effect [OF i] 2 have "kept s s3" "carried r r3" "res_OK (ar_result r3)" "res_Mode (ar_result r3) = ResultScheduled"
      by (auto simp: outcome_def intro: kept_trans carried_trans)
    with w True sch i 2 show ?thesis by (auto simp: reloadRun_def mode_ok_def intro!: landed_kept)
  next
    case False
    obtain r2 s2 failed where p: "performReload env (ar_PlanID r) (ar_appliedProof r) r s1 = (r2, s2, failed)" by (metis prod_cases3)
    note 2 = performReload_effect [OF p]
    show ?thesis
    proof (cases failed)
      case True
      with 2 have "landed r1 s2 e \<Longrightarrow> r1 = r2 \<Longrightarrow> landed r s e" for r1 e
        using landed_after [of s s2 r r2 e] k by (auto simp: reloads_def intro: kept_trans)
      from this [OF abortRun_landed refl] w False p True show ?thesis by (simp add: reloadRun_def)
    next
      case f: False
      with w False p 2 k ok show ?thesis
        by (auto simp: reloadRun_def landed_def reloads_def mode_ok_def cleared_def kept_tree_def kept_def saved_number_def setPhase_def saveState_def outside_def)
    qed
  qed
qed

lemma inPlace_landed: "res_OK (ar_result r) \<Longrightarrow> landed r s (inPlace env r s)"
proof -
  assume ok: "res_OK (ar_result r)"
  let ?s1 = "coalesceIntoPendingReload (ar_PlanID r) (ar_appliedProof r) s"
  let ?r1 = "onResult (\<lambda>res. res\<lparr>res_Mode := ResultScheduled, res_Reload := map_option scheduledFor (ps_ReloadPendingAt (sv_state ?s1))\<rparr>) r"
  obtain r2 s2 where i: "runInPlace env ?r1 ?s1 = (r2, s2)" by fastforce
  have "kept s s2" "carried r r2" "res_OK (ar_result r2)" "res_Mode (ar_result r2) = ResultScheduled"
    using runInPlace_effect [OF i] ok by (auto simp: outcome_def carried_def intro: kept_trans [of s ?s1])
  with i show ?thesis by (auto simp: inPlace_def Let_def mode_ok_def intro!: landed_kept)
qed

definition fresh_run :: "applyRun \<Rightarrow> bool" where
  "fresh_run r \<longleftrightarrow> res_OK (ar_result r) \<and> res_Reload (ar_result r) = None \<and> res_OpResults (ar_result r) = []"

lemma settle_landed: "fresh_run r \<Longrightarrow> landed r s (settle env r s)"
  by (rule landed_kept) (auto simp: settle_def Let_def mode_ok_def fresh_run_def)

lemma runOps_landed:
  assumes "fresh_run r"
  shows "landed r s (runOps env programs r s)"
proof -
  from assms have ok: "res_OK (ar_result r)" "res_Reload (ar_result r) = None" by (auto simp: fresh_run_def)
  obtain s1 same where w1: "checkWorker env s = (s1, same)" by fastforce
  obtain r2 s2 bad where e: "executeBatches env programs r s1 = (r2, s2, bad)" by (metis prod_cases3)
  obtain s3 same' where w3: "checkWorker env s2 = (s3, same')" by fastforce
  obtain s4 refused where q: "enqueueDeletes (sv_worker s1) r2 s3 = (s4, refused)" by fastforce
  have k: "kept s s1" "kept s s2" "kept s s3" "kept s s4"
    using checkWorker_kept [OF w1] executeBatches_kept [OF e] checkWorker_kept [OF w3] enqueueDeletes_kept [OF q] by (metis kept_trans)+
  have r2: "carried r r2" "res_OK (ar_result r2)" "res_Reload (ar_result r2) = None"
    using executeBatches_carried [OF e] ok by (auto simp: outcome_def)
  have reload: "landed r s (reloadRun env reason q t)" if "kept s t" "carried r q" "res_OK (ar_result q)" for reason q t
    using landed_after [OF that(1,2)] reloadRun_landed [OF that(3)] .
  have "landed r s (onResult (res_Mode_update (\<lambda>_. ResultRuntime)) r2,
      setPhase env PhaseApplied (ar_PlanID r2) (foldCreated (ar_createdCerts r2) (ar_createdCAs r2) s4))"
    by (rule landed_kept) (use k r2 in \<open>auto simp: mode_ok_def\<close>)
  with w1 e w3 q k r2 ok show ?thesis
    by (auto simp: runOps_def Let_def split: bool.splits intro!: reload)
qed

lemma activate_landed:
  assumes "fresh_run r"
  shows "landed r s (activate env r s)"
proof -
  from assms have ok: "res_OK (ar_result r)" by (auto simp: fresh_run_def)
  obtain r1 s1 programs where c: "compileOps env (RuntimeOps (am_Lists (ar_manifest r))) r s = (r1, s1, programs)" by (metis prod_cases3)
  have 1: "kept s s1" "carried r r1" "ar_result r1 = ar_result r" using compileOps_kept [OF c] compileOps_carried [OF c] by auto
  then have "fresh_run r1" using assms by (simp add: fresh_run_def)
  then have "landed r1 s1 (reloadRun env ''unknown_op'' r1 s1)" "landed r1 s1 (settle env r1 s1)" "landed r1 s1 (runOps env ps r1 s1)" for ps
    using reloadRun_landed settle_landed runOps_landed by (auto simp: fresh_run_def)
  then have "landed r s (reloadRun env ''unknown_op'' r1 s1)" "landed r s (settle env r1 s1)" "landed r s (runOps env ps r1 s1)" for ps
    using landed_after [OF 1(1,2)] by auto
  with c reloadRun_landed [OF ok] inPlace_landed [OF ok] show ?thesis
    by (auto simp: activate_def Let_def split: option.splits)
qed

text \<open>The same for a revert, whose tree is the restored one.\<close>

lemma revertLKG_ends:
  assumes "revertLKG env r s = (r', s')" "res_OK (ar_result r)"
  shows "carried r r'"
    "if res_OK (ar_result r') then ps_Journal (sv_state s') = [] \<and> ps_Generation (sv_state s') = ps_Generation (sv_state s) \<and> mode_ok (ar_result r') \<and> tree_owned s'
     else res_Mode (ar_result r') = ResultRejected \<and> (rolled_back (ar_result r') \<longrightarrow> tree_owned s')"
proof -
  obtain s1 failed where j: "restoreJournal env (setPhase env PhaseBackedUp (ar_PlanID r) s) = (s1, failed)" by fastforce
  let ?r1 = "onResult (res_Rollback_update (\<lambda>_. Some \<lparr>rb_Performed = True, rb_Reloaded = False\<rparr>)) r"
  obtain r2 s2 bad where l: "lkgReload env ?r1 s1 = (r2, s2, bad)" by (metis prod_cases3)
  note 2 = performReload_effect [OF l [unfolded lkgReload_def]]
  have r2: "carried r r2" using 2 by (simp add: reloads_def carried_def)
  note a = abortRun_effect [where env=env and r=r and s=s1 and failedAt="''revert''"]
    abortRun_effect [where env=env and r=r2 and s=s2 and failedAt="''revert_reload''"]
  have g: "ps_Generation (sv_state s1) = ps_Generation (sv_state s)"
    using restoreJournal_effect(2) [OF j] by (auto simp: setPhase_def saveState_def outside_def)
  show "carried r r'" using assms j l r2 a(3,8) by (auto simp: revertLKG_def split: bool.splits intro: carried_trans)
  show "if res_OK (ar_result r') then ps_Journal (sv_state s') = [] \<and> ps_Generation (sv_state s') = ps_Generation (sv_state s) \<and> mode_ok (ar_result r') \<and> tree_owned s'
     else res_Mode (ar_result r') = ResultRejected \<and> (rolled_back (ar_result r') \<longrightarrow> tree_owned s')"
    using assms j l 2 a(1,2,5,6,7,10) g restoreJournal_effect(7) [OF j] restoreJournal_owned [of env _ s1] kept_tree_owned [of s1 s2]
    by (auto simp: revertLKG_def reloads_def cleared_def mode_ok_def kept_tree_def split: bool.splits)
qed

lemma observeTree_state [simp]:
  "sv_state (observeTree m staged deleted s) = sv_state s" "sv_initialized (observeTree m staged deleted s) = sv_initialized s"
  by (simp_all add: observeTree_def Let_def)

lemma executeRun_ends:
  assumes "executeRun env r s = (r', s')" "fresh_run r" "am_Mode (ar_manifest r) \<noteq> wireMode ModeRevertLKG"
  shows "carried r r'"
    "if res_OK (ar_result r')
     then sv_tree s' = sv_tree (observeTree (ar_manifest r) (ar_staged r) (deletions (ar_manifest r) s) s) \<and>
       ps_ManifestPaths (sv_state s') = ps_ManifestPaths (sv_state s) \<and> ps_Generation (sv_state s') = ps_Generation (sv_state s) \<and>
       (ps_Journal (sv_state s') = [] \<or> ps_LKGPlanProof (sv_state s') = ps_LKGPlanProof (sv_state s)) \<and> mode_ok (ar_result r')
     else res_Mode (ar_result r') = ResultRejected \<and> (rolled_back (ar_result r') \<longrightarrow> tree_owned s')"
proof -
  let ?s1 = "setPhase env PhaseVerified (ar_PlanID r) s"
  let ?r1 = "r\<lparr>ar_tx := Some (beginTx env r ?s1)\<rparr>"
  obtain fs2 j failed where b: "Backup (se_files env) (se_store env) (beginTx env r ?s1) (ps_Journal (sv_state ?s1)) (sv_fs ?s1) = (fs2, j, failed)"
    by (metis prod_cases3)
  let ?s2 = "onState (ps_Journal_update (\<lambda>_. j)) (?s1\<lparr>sv_fs := fs2\<rparr>)"
  let ?s3 = "setPhase env PhaseBackedUp (ar_PlanID r) ?s2"
  obtain fs4 t errs where w: "Write (se_files env) (se_store env) (beginTx env r ?s1) (sv_fs ?s3) = (fs4, t, errs)" by (metis prod_cases3)
  let ?s5 = "setPhase env PhaseWritten (ar_PlanID r) (?s3\<lparr>sv_fs := fs4\<rparr>)"
  let ?r4 = "?r1\<lparr>ar_tx := Some t\<rparr>"
  let ?s6 = "observeTree (ar_manifest r) (ar_staged r) (deletions (ar_manifest r) ?s5) ?s5"
  have keep: "kept_tree s ?s5" "ps_LKGPlanProof (sv_state ?s5) = ps_LKGPlanProof (sv_state s)"
    by (auto simp: kept_tree_def saved_number_def setPhase_def saveState_def outside_def)
  then have seen: "sv_tree ?s6 = sv_tree (observeTree (ar_manifest r) (ar_staged r) (deletions (ar_manifest r) s) s)"
    by (simp add: observeTree_def Let_def deletions_def kept_tree_def)
  have act: "landed ?r4 ?s6 (activate env ?r4 ?s6)" by (rule activate_landed) (use assms(2) in \<open>simp add: fresh_run_def\<close>)
  have run: "(r', s') = (if failed \<noteq> None then abortRun env ''backup'' ?r1 ?s2
      else if errs \<noteq> [] then abortRun env ''write'' ?r4 (?s3\<lparr>sv_fs := fs4\<rparr>) else activate env ?r4 ?s6)"
    unfolding assms(1) [symmetric] executeRun_def Let_def if_not_P [OF assms(3)] b prod.case w ..
  have ends: "carried ?r4 r' \<and> (if res_OK (ar_result r') then kept_tree ?s6 s' \<and> cleared ?s6 s' \<and> mode_ok (ar_result r')
      else res_Mode (ar_result r') = ResultRejected \<and> (rolled_back (ar_result r') \<longrightarrow> tree_owned s'))"
  proof (cases "failed \<noteq> None \<or> errs \<noteq> []")
    case True
    with run obtain failedAt q t' where a: "abortRun env failedAt q t' = (r', s')" and "q = ?r1 \<or> q = ?r4" by metis
    then have "carried ?r4 q" by (auto simp: carried_def)
    with abortRun_effect [OF a] show ?thesis by (auto intro: carried_trans)
  next
    case False
    with run have "activate env ?r4 ?s6 = (r', s')" by metis
    with act have "landed ?r4 ?s6 (r', s')" by metis
    then show ?thesis by (rule landed_pair)
  qed
  then show "carried r r'" by (simp add: carried_def)
  from ends seen keep show "if res_OK (ar_result r')
     then sv_tree s' = sv_tree (observeTree (ar_manifest r) (ar_staged r) (deletions (ar_manifest r) s) s) \<and>
       ps_ManifestPaths (sv_state s') = ps_ManifestPaths (sv_state s) \<and> ps_Generation (sv_state s') = ps_Generation (sv_state s) \<and>
       (ps_Journal (sv_state s') = [] \<or> ps_LKGPlanProof (sv_state s') = ps_LKGPlanProof (sv_state s)) \<and> mode_ok (ar_result r')
     else res_Mode (ar_result r') = ResultRejected \<and> (rolled_back (ar_result r') \<longrightarrow> tree_owned s')"
    by (auto simp: kept_tree_def cleared_def)
qed

subsection \<open>The recorded tree\<close>

definition declared_at :: "ManifestFile \<Rightarrow> FileAt" where
  "declared_at f = \<lparr>fa_Digest = af_Digest f, fa_Proof = af_Proof f, fa_Size = af_Size f\<rparr>"

lemma fold_update_get: "go_get (fold (\<lambda>(k, x). AList.update k (f k)) xs t) p = (if p \<in> fst ` set xs then Some (f p) else go_get t p)"
  by (induction xs arbitrary: t) (auto simp: update_conv')

lemma fold_delete_get: "go_get (fold AList.delete ks t) p = (if p \<in> set ks then None else go_get t p)"
  by (induction ks arbitrary: t) (auto simp: delete_conv')

lemma observeTree_get:
  assumes "distinct (map af_Path (am_Files m))" "f \<in> set (am_Files m)" "af_Path f \<notin> set deleted"
  shows "go_get (sv_tree (observeTree m staged deleted s)) (af_Path f) =
    (if af_Path f \<in> fst ` set staged then Some (declared_at f) else go_get (sv_tree s) (af_Path f))"
  using assms by (simp add: observeTree_def Let_def fold_update_get fold_delete_get index_by_distinct declared_at_def)

lemma observeTree_dom:
  "dom (go_get (sv_tree (observeTree m staged deleted s))) = (dom (go_get (sv_tree s)) \<union> fst ` set staged) - set deleted"
  by (rule set_eqI) (simp add: domIff observeTree_def Let_def fold_update_get fold_delete_get)

lemma validateFiles_paths:
  "validateFiles seen fs = None \<Longrightarrow> distinct (map af_Path fs) \<and> set (map af_Path fs) \<inter> set seen = {}"
proof (induction fs arbitrary: seen)
  case (Cons f fs)
  from Cons.prems have "validateFiles (af_Path f # seen) fs = None" "af_Path f \<notin> set seen" by (auto split: if_splits)
  with Cons.IH [of "af_Path f # seen"] show ?case by auto
qed simp

lemma readManifest_paths: "readManifest sent = Inr m \<Longrightarrow> distinct (map af_Path (am_Files m)) \<and> am_PlanID m \<noteq> ''''"
  by (auto simp: readManifest_def validateManifest_def split: option.splits if_splits dest: validateFiles_paths)

text \<open>A file that is not asked for was received, or the tree holds it with the declared proof.\<close>

lemma missingParts_held:
  assumes "missingParts tree m got = []" "f \<in> set (am_Files m)"
  shows "go_get (rc_files got) (af_Path f) \<noteq> None \<or> go_get tree (af_Path f) = Some (declared_at f) \<and> af_Proof f \<noteq> ''''"
proof (rule ccontr)
  assume "\<not> ?thesis"
  then have "go_get (rc_files got) (af_Path f) = None" "\<not> heldFile tree f" by (auto simp: heldFile_def declared_at_def split: option.splits)
  with assms(2) have "af_Path f \<in> set (missingParts tree m got)" by (auto simp: missingParts_def)
  with assms(1) show False by simp
qed

lemma observed_matches:
  assumes m: "distinct (map af_Path (am_Files m))" and own: "tree_owned s" and missing: "missingParts (sv_tree s) m got = []"
    and parts: "fst ` set (rc_files got) \<subseteq> af_Path ` set (am_Files m)"
    and tree: "sv_tree s' = sv_tree (observeTree m (rc_files got) (deletions m s) s)"
  shows "treeMatchesLocked m s'" "dom (go_get (sv_tree s')) = af_Path ` set (am_Files m)"
proof -
  have del: "set (deletions m s) = set (ps_ManifestPaths (sv_state s)) - af_Path ` set (am_Files m)" by (auto simp: deletions_def)
  have at: "go_get (sv_tree s') (af_Path f) = Some (declared_at f)" if f: "f \<in> set (am_Files m)" for f
  proof -
    from f have "af_Path f \<notin> set (deletions m s)" by (simp add: del)
    from observeTree_get [OF m f this] missingParts_held [OF missing f] show ?thesis
      by (auto simp: tree dom_map_of_conv_image_fst [symmetric])
  qed
  have "dom (go_get (sv_tree s')) \<subseteq> af_Path ` set (am_Files m)"
    using own parts by (auto simp: tree observeTree_dom del tree_owned_def subset_iff)
  with at show d: "dom (go_get (sv_tree s')) = af_Path ` set (am_Files m)" by fastforce
  have "length (sorted_keys (sv_tree s')) = card (af_Path ` set (am_Files m))"
    using distinct_card [OF distinct_sorted_keys, of "sv_tree s'"] by (simp add: d)
  also have "\<dots> = length (am_Files m)" using distinct_card [OF m] by simp
  finally show "treeMatchesLocked m s'" using at by (auto simp: treeMatchesLocked_def list_all_iff declared_at_def)
qed

subsection \<open>The end of an apply\<close>

lemma commitLocked_fields:
  "sv_saved (commitLocked fe r s) = sv_saved s"
  "ps_ProofGeneration (sv_state (commitLocked fe r s)) = ps_ProofGeneration (sv_state s)"
  "waits (commitLocked fe r s) = waits s" "sv_initialized (commitLocked fe r s) = sv_initialized s"
  "sv_tree (commitLocked fe r s) = sv_tree s" "ps_Generation (sv_state (commitLocked fe r s)) = ps_Generation (sv_state s)"
  "ps_Journal (sv_state (commitLocked fe r s)) = ps_Journal (sv_state s)" "sv_fs (commitLocked fe r s) = sv_fs s"
  "ps_LKGPlanProof (sv_state (commitLocked fe r s)) = ps_LKGPlanProof (sv_state s)"
  "ps_LKGPlanID (sv_state (commitLocked fe r s)) = ps_LKGPlanID (sv_state s)"
  "ps_ManifestPaths (sv_state (commitLocked fe r s)) =
     (if am_Mode (ar_manifest r) = wireMode ModeRevertLKG then ps_ManifestPaths (sv_state s) else manifestFilePaths (ar_manifest r))"
  by (simp_all add: commitLocked_def Let_def recordWorkerOps_def waits_def)

lemma commitLocked_applied:
  "ps_AppliedPlanProof (sv_state (commitLocked fe r s)) \<in>
     {'''', if am_Mode (ar_manifest r) = wireMode ModeRevertLKG then ps_LKGPlanProof (sv_state s) else ar_appliedProof r}"
  by (simp add: commitLocked_def Let_def recordWorkerOps_def)

lemma mode_ok_cong:
  "res_Mode res' = res_Mode res \<Longrightarrow> res_Reload res' = res_Reload res \<Longrightarrow> res_OpResults res' = res_OpResults res \<Longrightarrow> mode_ok res' = mode_ok res"
  by (simp add: mode_ok_def split: result_mode.split)

lemma applyResultLocked_effect:
  assumes "applyResultLocked res s = (s', res')"
  shows "sv_tree s' = sv_tree s" "sv_state s' = sv_state s" "sv_fs s' = sv_fs s" "sv_initialized s' = sv_initialized s" "res_OK res' = res_OK res" "res_Mode res' = res_Mode res"
    "res_Reload res' = res_Reload res" "res_OpResults res' = res_OpResults res" "res_Rollback res' = res_Rollback res"
    "res_AppliedPlanID res' = ps_AppliedPlanID (sv_state s)" "res_AppliedPlanProof res' = ps_AppliedPlanProof (sv_state s)"
    "sv_saved s' = sv_saved s"
  using assms by (auto simp: applyResultLocked_def Let_def split: if_splits)

definition finished :: "applyRun \<Rightarrow> AgentServer \<Rightarrow> applyRun \<Rightarrow> AgentServer \<Rightarrow> bool" where
  "finished r s r' s' \<longleftrightarrow>
     carried r r' \<and> res_OK (ar_result r') = res_OK (ar_result r) \<and> res_Mode (ar_result r') = res_Mode (ar_result r) \<and>
     res_Reload (ar_result r') = res_Reload (ar_result r) \<and> res_OpResults (ar_result r') = res_OpResults (ar_result r) \<and>
     res_Rollback (ar_result r') = res_Rollback (ar_result r) \<and> res_AppliedPlanProof (ar_result r') = ps_AppliedPlanProof (sv_state s') \<and>
     sv_tree s' = sv_tree s \<and> sv_fs s' = sv_fs s \<and> ps_Journal (sv_state s') = ps_Journal (sv_state s) \<and> waits s' = waits s \<and>
     ps_LKGPlanProof (sv_state s') = ps_LKGPlanProof (sv_state s) \<and> ps_Phase (sv_state s') = PhaseIdle \<and> sv_initialized s' = sv_initialized s \<and>
     ps_ProofGeneration (sv_state s') = ps_ProofGeneration (sv_state s) \<and> saved_number s s' \<and>
     (if res_OK (ar_result r)
      then ps_Generation (sv_state s') = ps_Generation (sv_state s) + 1 \<and>
        ps_AppliedPlanProof (sv_state s') \<in> {[], if am_Mode (ar_manifest r) = wireMode ModeRevertLKG
          then ps_LKGPlanProof (sv_state s) else ar_appliedProof r} \<and>
        ps_ManifestPaths (sv_state s') = (if am_Mode (ar_manifest r) = wireMode ModeRevertLKG
          then ps_ManifestPaths (sv_state s) else manifestFilePaths (ar_manifest r))
      else ps_Generation (sv_state s') = ps_Generation (sv_state s) \<and> ps_AppliedPlanID (sv_state s') = [] \<and>
        ps_AppliedPlanProof (sv_state s') = [] \<and> ps_ManifestPaths (sv_state s') = ps_ManifestPaths (sv_state s))"

lemma finish_effect:
  assumes "finish env r s = (r', s', violated)"
  shows "finished r s r' s' \<and> violated = checkInvariantsLocked r' (ps_Generation (sv_state s)) s'"
proof -
  let ?g = "onState (\<lambda>st. st\<lparr>ps_Generation := ps_Generation st + 1\<rparr>) s"
  let ?s1 = "if res_OK (ar_result r) then commitLocked (se_files env) r ?g else onState (\<lambda>st. st\<lparr>ps_AppliedPlanID := '''', ps_AppliedPlanProof := ''''\<rparr>) s"
  let ?s2 = "onState (\<lambda>st. st\<lparr>ps_Phase := PhaseIdle, ps_InFlightPlanID := ''''\<rparr>) ?s1"
  obtain s3 res where a: "applyResultLocked (ar_result r) ?s2 = (s3, res)" by fastforce
  note res = applyResultLocked_effect [OF a]
  obtain s4 b where k: "saveState env (keepResult r res s3) = (s4, b)" by fastforce
  have f: "r' = r\<lparr>ar_result := res\<rparr>" "s' = s4" "violated = checkInvariantsLocked r' (ps_Generation (sv_state s)) s'"
    using assms a k by (auto simp: finish_def Let_def)
  have st: "sv_tree s' = sv_tree ?s1" "sv_fs s' = sv_fs ?s1" "ps_Journal (sv_state s') = ps_Journal (sv_state ?s1)"
    "ps_LKGPlanProof (sv_state s') = ps_LKGPlanProof (sv_state ?s1)" "ps_Generation (sv_state s') = ps_Generation (sv_state ?s1)"
    "ps_AppliedPlanID (sv_state s') = ps_AppliedPlanID (sv_state ?s1)" "ps_AppliedPlanProof (sv_state s') = ps_AppliedPlanProof (sv_state ?s1)"
    "ps_ManifestPaths (sv_state s') = ps_ManifestPaths (sv_state ?s1)" "ps_Phase (sv_state s') = PhaseIdle" "waits s' = waits ?s1"
    "sv_initialized s' = sv_initialized ?s1" "ps_ProofGeneration (sv_state s') = ps_ProofGeneration (sv_state ?s1)" "saved_number ?s1 s'"
    "res_AppliedPlanProof res = ps_AppliedPlanProof (sv_state s')"
    using saveState_kept [OF k] res(1-4,11,12) by (simp_all add: f(2) kept_def saved_number_def keepResult_def waits_def)
  show ?thesis
    using f st res commitLocked_applied [of "se_files env" r ?g] commitLocked_fields(3) [of "se_files env" r ?g]
    by (cases "res_OK (ar_result r)") (simp_all add: finished_def commitLocked_fields saved_number_def waits_def split: if_split_asm)
qed

subsection \<open>The tree and the invariants after an apply\<close>

lemma checkInvariants_found:
  assumes "res_OK (ar_result r) \<Longrightarrow> ps_Generation (sv_state s) = before + 1"
    and "res_OK (ar_result r) \<Longrightarrow> am_Mode (ar_manifest r) \<noteq> wireMode ModeRevertLKG \<Longrightarrow> treeMatchesLocked (ar_manifest r) s"
    and "res_Mode (ar_result r) = ResultRejected \<or> mode_ok (ar_result r)"
    and "ps_Journal (sv_state s) = [] \<or> ps_AppliedPlanProof (sv_state s) = [] \<or> ps_AppliedPlanProof (sv_state s) \<noteq> ps_LKGPlanProof (sv_state s)"
  shows "set (checkInvariantsLocked r before s) \<subseteq> {''mount_probe_found_every_mount''}"
proof -
  have one: "set (if holds then [] else [name]) \<subseteq> N \<longleftrightarrow> holds \<or> name \<in> N" for holds and name :: string and N by simp
  have given: "set (if b then xs else []) \<subseteq> N \<longleftrightarrow> \<not> b \<or> set xs \<subseteq> N" for b and xs :: "string list" and N by (cases b) simp_all
  show ?thesis
    using assms unfolding checkInvariantsLocked_def Let_def set_append Un_subset_iff one given samePlanRef_def mode_ok_def
    by (cases "res_Mode (ar_result r)") (auto simp: one split: option.splits)
qed

lemma finish_found:
  assumes f: "finish env r s = (r', s', violated)"
    and "res_OK (ar_result r) \<Longrightarrow> am_Mode (ar_manifest r) \<noteq> wireMode ModeRevertLKG \<Longrightarrow> treeMatchesLocked (ar_manifest r) s"
    and "if res_OK (ar_result r) then mode_ok (ar_result r) else res_Mode (ar_result r) = ResultRejected"
    and "res_OK (ar_result r) \<Longrightarrow> ps_Journal (sv_state s) = [] \<or>
      am_Mode (ar_manifest r) \<noteq> wireMode ModeRevertLKG \<and> ar_appliedProof r \<noteq> ps_LKGPlanProof (sv_state s)"
  shows "set violated \<subseteq> {''mount_probe_found_every_mount''}"
proof -
  from finish_effect [OF f] have e: "finished r s r' s'" "violated = checkInvariantsLocked r' (ps_Generation (sv_state s)) s'" by auto
  then have same: "ar_manifest r' = ar_manifest r" "treeMatchesLocked (ar_manifest r) s' = treeMatchesLocked (ar_manifest r) s"
    "mode_ok (ar_result r') = mode_ok (ar_result r)"
    using mode_ok_cong [of "ar_result r'" "ar_result r"] by (simp_all add: finished_def carried_def treeMatchesLocked_def)
  show ?thesis
    unfolding e(2) by (rule checkInvariants_found) (use assms(2-4) e(1) same in \<open>auto simp: finished_def split: if_splits\<close>)
qed

lemma commitPlanBlob_kept:
  "sv_tree (commitPlanBlob env r s) = sv_tree s" "ps_ManifestPaths (sv_state (commitPlanBlob env r s)) = ps_ManifestPaths (sv_state s)"
  "waits (commitPlanBlob env r s) = waits s"
  by (auto simp: commitPlanBlob_def rebindPlanBlobProof_def storePlanBlobLocked_def saveState_def outside_def Let_def waits_def
    split: option.splits prod.splits)

lemma executeRun_fresh: "fresh_run ((newRun m (newResult planID ResultNone))\<lparr>ar_staged := a, ar_planBlob := b, ar_digest := c, ar_work := d,
    ar_appliedProof := e, ar_workerProof := f, ar_invalidations := n\<rparr>)"
  by (simp add: fresh_run_def newRun_def newResult_def)

text \<open>
  An apply of a valid manifest whose files were all received or held, run with a fresh proof: what its end
  finds violated, and the record of the tree it leaves.
\<close>

lemma runApply_sound:
  assumes run: "runApply env m got digest work appliedProof workerProof s = (r, s', violated)"
    and m: "distinct (map af_Path (am_Files m))" and own: "tree_owned s" and missing: "missingParts (sv_tree s) m got = []"
    and parts: "fst ` set (rc_files got) \<subseteq> af_Path ` set (am_Files m)"
    and fresh: "am_Mode m \<noteq> wireMode ModeRevertLKG \<Longrightarrow> appliedProof \<noteq> ps_LKGPlanProof (sv_state s)"
  shows "set violated \<subseteq> {''mount_probe_found_every_mount''}"
    "res_OK (ar_result r) \<Longrightarrow> am_Mode m \<noteq> wireMode ModeRevertLKG \<Longrightarrow> treeMatchesLocked m s'"
    "res_OK (ar_result r) \<or> rolled_back (ar_result r) \<Longrightarrow> tree_owned s'"
proof -
  define r0 where "r0 = (newRun m (newResult (am_PlanID m) ResultNone))\<lparr>ar_staged := rc_files got, ar_planBlob := rc_plan got, ar_digest := digest,
    ar_work := work, ar_appliedProof := appliedProof, ar_workerProof := workerProof, ar_invalidations := sv_baselineInvalidations s\<rparr>"
  obtain r1 s1 where e: "executeRun env r0 s = (r1, s1)" by fastforce
  obtain r2 s2 v where f: "finish env r1 s1 = (r2, s2, v)" by (metis prod_cases3)
  have out: "r = r2" "s' = commitPlanBlob env r2 s2" "violated = v"
    using run e f by (auto simp: runApply_def Let_def r0_def)
  have r0: "ar_manifest r0 = m" "ar_staged r0 = rc_files got" "ar_appliedProof r0 = appliedProof" "res_OK (ar_result r0)" "fresh_run r0"
    using executeRun_fresh by (auto simp: r0_def newRun_def newResult_def)
  note end1 = finish_effect [OF f]
  have end2: "sv_tree s' = sv_tree s2 \<and> ps_ManifestPaths (sv_state s') = ps_ManifestPaths (sv_state s2)"
    by (simp add: out(2) commitPlanBlob_kept)
  note end0 = executeRun_ends [OF e r0(5), unfolded r0] revertLKG_ends [of env r0 s r1 s1]
  have matches: "treeMatchesLocked m s1 \<and> dom (go_get (sv_tree s1)) = af_Path ` set (am_Files m)"
    if "res_OK (ar_result r1)" "am_Mode m \<noteq> wireMode ModeRevertLKG"
    using observed_matches [OF m own missing parts] end0(2) that by auto
  have revert: "carried r0 r1 \<and> (if res_OK (ar_result r1) then ps_Journal (sv_state s1) = [] \<and> mode_ok (ar_result r1) \<and> tree_owned s1
      else res_Mode (ar_result r1) = ResultRejected \<and> (rolled_back (ar_result r1) \<longrightarrow> tree_owned s1))"
    if "am_Mode m = wireMode ModeRevertLKG"
    using that e r0 end0(3,4) by (auto simp: executeRun_def split: if_splits)
  have same: "res_OK (ar_result r) = res_OK (ar_result r1)" "rolled_back (ar_result r) = rolled_back (ar_result r1)" "ar_manifest r1 = m"
    "treeMatchesLocked m s' = treeMatchesLocked m s1" "sv_tree s' = sv_tree s1"
    using end0(1) end1 end2 revert r0(1)
    by (auto simp: out(1) finished_def rolled_back_def treeMatchesLocked_def carried_def)
  show "treeMatchesLocked m s'" if "res_OK (ar_result r)" "am_Mode m \<noteq> wireMode ModeRevertLKG" using that matches same by simp
  show "tree_owned s'" if "res_OK (ar_result r) \<or> rolled_back (ar_result r)"
    using that matches same end0(2) end1 end2 revert
    by (cases "am_Mode m = wireMode ModeRevertLKG"; cases "res_OK (ar_result r1)")
      (auto simp: finished_def tree_owned_def manifestFilePaths_def)
  have "set v \<subseteq> {''mount_probe_found_every_mount''}"
  proof (cases "am_Mode m = wireMode ModeRevertLKG")
    case True
    with revert r0 show ?thesis by (intro finish_found [OF f]) (auto simp: carried_def split: if_splits)
  next
    case False
    with end0(1,2) r0 matches fresh show ?thesis by (intro finish_found [OF f]) (auto simp: carried_def split: if_splits)
  qed
  then show "set violated \<subseteq> {''mount_probe_found_every_mount''}" by (simp add: out(3))
qed

end
