(* ===== verification/Agent_Invariants.thy ===== *)
theory Agent_Invariants
  imports Agent_Server
begin

section \<open>The agent server: invariants\<close>

text \<open>
  The proofs the state names are numbers handed out before, and the files of the recorded tree are owned.
  Both hold after every operation of the agent whose rollback, where it made one, was performed.
\<close>

subsection \<open>The proofs of a state\<close>

definition proofs_in :: "string set \<Rightarrow> AgentServer \<Rightarrow> bool" where
  "proofs_in X s \<longleftrightarrow> ps_AppliedPlanProof (sv_state s) \<in> X \<and> ps_LKGPlanProof (sv_state s) \<in> X \<and> ps_PendingReloadPlanProof (sv_state s) \<in> X"

definition within :: "string set \<Rightarrow> AgentServer \<Rightarrow> AgentServer \<Rightarrow> bool" where
  "within X s s' \<longleftrightarrow> ps_ProofGeneration (sv_state s') = ps_ProofGeneration (sv_state s) \<and> saved_number s s' \<and> (proofs_in X s \<longrightarrow> proofs_in X s')"

lemma within_trans [trans]: "within X s t \<Longrightarrow> within X t u \<Longrightarrow> within X s u"
  by (auto simp: within_def saved_number_def)

lemma kept_within:
  assumes "[] \<in> X" "kept s s'" "waits s' = waits s"
  shows "within X s s'"
  using assms by (auto simp: within_def proofs_in_def kept_def waits_def)

lemma kept_scheduled:
  assumes "[] \<in> X" "kept s s'" "waits s' = (due, planID, planProof)" "planProof \<in> X"
  shows "within X s s'"
  using assms by (auto simp: within_def saved_number_def proofs_in_def kept_def waits_def)

lemma reloads_within:
  assumes "[] \<in> X" "reloads planID planProof r s r' s' failed" "planProof \<in> X \<or> proofs_in X s \<and> planProof = ps_LKGPlanProof (sv_state s)"
  shows "within X s s'"
  using assms by (auto simp: within_def saved_number_def proofs_in_def reloads_def kept_tree_def waits_def)

lemma restoreJournal_within: "restoreJournal env s = (s', failed) \<Longrightarrow> within X s s'"
  by (auto simp: restoreJournal_def clearJournalNow_def ClearJournal_def within_def saved_number_def proofs_in_def Let_def
    split: prod.splits if_splits sum.splits)

lemma rememberNACK_within: "within X s (rememberNACK env digest work reason result s)"
  by (auto simp: rememberNACK_def timeNow_def outside_def within_def saved_number_def proofs_in_def)

lemma lkgReload_within:
  assumes "[] \<in> X" "lkgReload env r s = (r', s', failed)"
  shows "within X s s'"
  using assms performReload_effect [of env "ps_LKGPlanID (sv_state s)" "ps_LKGPlanProof (sv_state s)" r s r' s' failed]
  by (auto simp: lkgReload_def within_def saved_number_def proofs_in_def reloads_def kept_tree_def waits_def)

lemma abortRun_within:
  assumes "[] \<in> X" "abortRun env failedAt r s = (r', s')"
  shows "within X s s'"
proof -
  let ?r0 = "onResult (\<lambda>res. res\<lparr>res_OK := False, res_Mode := ResultRejected, res_Error := Some failedAt,
    res_Rollback := Some \<lparr>rb_Performed = False, rb_Reloaded = False\<rparr>\<rparr>) r"
  obtain r1 s1 where d: "discardTx env ?r0 s = (r1, s1)" by fastforce
  obtain s2 failed where j: "restoreJournal env s1 = (s2, failed)" by fastforce
  obtain r3 s3 bad where l: "lkgReload env r1 s2 = (r3, s3, bad)" by (metis prod_cases3)
  have 1: "within X s s1" using discardTx_effect [OF d] kept_within [OF assms(1)] by simp
  have 2: "within X s s2" using within_trans [OF 1 restoreJournal_within [OF j]] .
  have 3: "within X s s3" using within_trans [OF 2 lkgReload_within [OF assms(1) l]] .
  have "within X s (rememberNACK env dg wk rs res s3)" "within X s (rememberNACK env dg wk rs res s2)" for dg wk rs res
    using within_trans [OF 3 rememberNACK_within] within_trans [OF 2 rememberNACK_within] by auto
  with assms(2) d j l 2 3 show ?thesis by (auto simp: abortRun_def Let_def split: bool.splits if_splits)
qed

text \<open>The parts of a run keep the proofs within a set that has its own.\<close>


lemma reloadRun_within:
  assumes "[] \<in> X" "ar_appliedProof r \<in> X" "reloadRun env reason r s = (r', s')"
  shows "within X s s'"
proof -
  obtain s1 due paced where w: "pacingWindow env s = (s1, due, paced)" by (metis prod_cases3)
  have 1: "within X s s1" using pacingWindow_kept [OF w] kept_within [OF assms(1)] by simp
  obtain r2 s2 where sch: "scheduleRun env due r s1 = (r2, s2)" by fastforce
  then have "kept s1 s2" "waits s2 = (Some due, ar_PlanID r, ar_appliedProof r)" by (auto simp: scheduleRun_def)
  with kept_scheduled [OF assms(1)] assms(2) 1 have 2: "within X s s2" by (blast intro: within_trans)
  obtain r3 s3 where i: "runInPlace env r2 s2 = (r3, s3)" by fastforce
  have 3: "within X s s3" using runInPlace_effect [OF i] kept_within [OF assms(1)] 2 by (blast intro: within_trans)
  obtain r4 s4 failed where p: "performReload env (ar_PlanID r) (ar_appliedProof r) r s1 = (r4, s4, failed)" by (metis prod_cases3)
  have 4: "within X s s4" using reloads_within [OF assms(1) performReload_effect [OF p]] assms(2) 1 by (blast intro: within_trans)
  have 5: "within X s (setPhase env PhaseReloaded (ar_PlanID r) s4)"
    using 4 kept_within [OF assms(1), of s4 "setPhase env PhaseReloaded (ar_PlanID r) s4"] by (auto intro: within_trans)
  have 6: "within X s u" if "abortRun env failedAt r4 s4 = (q, u)" for failedAt q u
    using abortRun_within [OF assms(1) that] 4 by (blast intro: within_trans)
  from assms(3) w sch i p 2 3 5 6 show ?thesis by (auto simp: reloadRun_def split: bool.splits if_splits)
qed

lemma runOps_within:
  assumes "[] \<in> X" "ar_appliedProof r \<in> X" "runOps env programs r s = (r', s')"
  shows "within X s s'"
proof -
  obtain s1 same where w1: "checkWorker env s = (s1, same)" by fastforce
  obtain r2 s2 bad where e: "executeBatches env programs r s1 = (r2, s2, bad)" by (metis prod_cases3)
  obtain s3 same' where w3: "checkWorker env s2 = (s3, same')" by fastforce
  obtain s4 refused where q: "enqueueDeletes (sv_worker s1) r2 s3 = (s4, refused)" by fastforce
  have "kept s s1" "kept s s2" "kept s s3" "kept s s4" "waits s1 = waits s" "waits s2 = waits s" "waits s3 = waits s" "waits s4 = waits s"
    using checkWorker_kept [OF w1] executeBatches_kept [OF e] checkWorker_kept [OF w3] enqueueDeletes_kept [OF q] by (metis kept_trans)+
  then have k: "within X s s1" "within X s (recordWorkerOps [] [] s2)" "within X s s3" "within X s s4"
      "within X s (setPhase env p planID (foldCreated certs cas s4))" for p planID certs cas
    by (auto intro: kept_within [OF assms(1)])
  have "ar_appliedProof r2 \<in> X" using executeBatches_carried [OF e] assms(2) by (simp add: carried_def)
  then have reload: "within X s u" if "reloadRun env reason q t = (v, u)" "within X s t" "q = r \<or> q = r2" for reason q t u v
    using reloadRun_within [OF assms(1) _ that(1)] assms(2) that(2,3) by (blast intro: within_trans)
  from assms(3) w1 e w3 q k show ?thesis
    by (auto simp: runOps_def Let_def split: bool.splits intro: reload)
qed

lemma activate_within:
  assumes "[] \<in> X" "ar_appliedProof r \<in> X" "activate env r s = (r', s')"
  shows "within X s s'"
proof -
  obtain r1 s1 programs where c: "compileOps env (RuntimeOps (am_Lists (ar_manifest r))) r s = (r1, s1, programs)" by (metis prod_cases3)
  have 1: "within X s s1" using compileOps_kept [OF c] by (blast intro: kept_within [OF assms(1)])
  have r1: "ar_appliedProof r1 \<in> X" using compileOps_carried [OF c] assms(2) by (simp add: carried_def)
  have settled: "within X s (snd (settle env r1 s1))"
    using 1 kept_within [OF assms(1), of s1 "snd (settle env r1 s1)"] by (auto simp: settle_def Let_def intro: within_trans)
  have waiting: "within X s (snd (inPlace env r s))"
  proof -
    let ?s1 = "coalesceIntoPendingReload (ar_PlanID r) (ar_appliedProof r) s"
    obtain r2 s2 where i: "inPlace env r s = (r2, s2)" by fastforce
    then have "kept ?s1 s2 \<and> waits s2 = waits ?s1" by (auto simp: inPlace_def Let_def dest: runInPlace_effect)
    then have "within X ?s1 s2" by (blast intro: kept_within [OF assms(1)])
    with kept_scheduled [OF assms(1), of s ?s1] assms(2) i show ?thesis by (auto intro: within_trans)
  qed
  from assms(3) c 1 r1 settled waiting reloadRun_within [OF assms(1)] runOps_within [OF assms(1)] assms(2) show ?thesis
    by (auto simp: activate_def Let_def split: if_splits option.splits intro: within_trans)
qed

lemma revertLKG_within:
  assumes "[] \<in> X" "revertLKG env r s = (r', s')"
  shows "within X s s'"
proof -
  let ?s0 = "setPhase env PhaseBackedUp (ar_PlanID r) s"
  obtain s1 failed where j: "restoreJournal env ?s0 = (s1, failed)" by fastforce
  have 0: "within X s ?s0" by (rule kept_within [OF assms(1)]) auto
  have 1: "within X s s1" using within_trans [OF 0 restoreJournal_within [OF j]] .
  let ?r1 = "onResult (res_Rollback_update (\<lambda>_. Some \<lparr>rb_Performed = True, rb_Reloaded = False\<rparr>)) r"
  obtain r2 s2 bad where l: "lkgReload env ?r1 s1 = (r2, s2, bad)" by (metis prod_cases3)
  have 2: "within X s s2" using within_trans [OF 1 lkgReload_within [OF assms(1) l]] .
  have "within X s u" if "abortRun env failedAt q t = (v, u)" "within X s t" for failedAt q t u v
    using within_trans [OF that(2) abortRun_within [OF assms(1) that(1)]] .
  with assms(2) j l 1 2 show ?thesis by (auto simp: revertLKG_def split: bool.splits)
qed

lemma observeTree_saved [simp]: "sv_saved (observeTree m staged deleted s) = sv_saved s"
  by (simp add: observeTree_def Let_def)

lemma executeRun_within:
  assumes "[] \<in> X" "ar_appliedProof r \<in> X" "executeRun env r s = (r', s')"
  shows "within X s s'"
proof (cases "am_Mode (ar_manifest r) = wireMode ModeRevertLKG")
  case True
  with assms show ?thesis by (auto simp: executeRun_def intro: revertLKG_within)
next
  case False
  have same: "within X s (setPhase env p planID t)" if "within X s t" for p planID t
    using that kept_within [OF assms(1), of t "setPhase env p planID t"] by (auto intro: within_trans)
  have seen: "within X s (observeTree m staged deleted t)" "within X s (onState (ps_Journal_update f) t)" "within X s (t\<lparr>sv_fs := fs\<rparr>)"
      "within X s (t\<lparr>sv_fs := fs, sv_state := (sv_state t)\<lparr>ps_Journal := j\<rparr>\<rparr>)"
    if "within X s t" for m staged deleted t f fs j
    using that by (auto simp: within_def saved_number_def proofs_in_def)
  have refl: "within X s s" by (simp add: within_def saved_number_def)
  have abort: "within X s u" if "abortRun env failedAt q t = (v, u)" "within X s t" for failedAt q t u v
    using within_trans [OF that(2) abortRun_within [OF assms(1) that(1)]] .
  have act: "within X s u" if "activate env q t = (v, u)" "within X s t" "ar_appliedProof q \<in> X" for q t u v
    using within_trans [OF that(2) activate_within [OF assms(1) that(3,1)]] .
  show ?thesis
    using assms(3) False
    by (simp add: executeRun_def Let_def split: prod.splits if_splits)
      (auto intro!: same seen refl elim!: abort act simp: assms(2))
qed

lemma tree_owned_cong:
  "sv_tree s' = sv_tree s \<Longrightarrow> ps_ManifestPaths (sv_state s') = ps_ManifestPaths (sv_state s) \<Longrightarrow> tree_owned s' = tree_owned s"
  by (simp add: tree_owned_def)

lemma storePlanBlob_within: "storePlanBlobLocked env planID planProof blob s = (s', b) \<Longrightarrow>
    within X s s' \<and> sv_tree s' = sv_tree s \<and> ps_ManifestPaths (sv_state s') = ps_ManifestPaths (sv_state s)"
  by (auto simp: storePlanBlobLocked_def saveState_def outside_def within_def saved_number_def proofs_in_def split: if_splits option.splits)

lemma commitPlanBlob_within: "within X s (commitPlanBlob env r s)"
  by (auto simp: commitPlanBlob_def rebindPlanBlobProof_def storePlanBlobLocked_def saveState_def outside_def Let_def within_def saved_number_def proofs_in_def
    split: option.splits prod.splits)

lemma runApply_within:
  assumes "[] \<in> X" "appliedProof \<in> X" "runApply env m got digest work appliedProof workerProof s = (r, s', violated)"
  shows "within X s s'"
proof -
  define r0 where "r0 = (newRun m (newResult (am_PlanID m) ResultNone))\<lparr>ar_staged := rc_files got, ar_planBlob := rc_plan got, ar_digest := digest,
    ar_work := work, ar_appliedProof := appliedProof, ar_workerProof := workerProof, ar_invalidations := sv_baselineInvalidations s\<rparr>"
  obtain r1 s1 where e: "executeRun env r0 s = (r1, s1)" by fastforce
  obtain r2 s2 v where f: "finish env r1 s1 = (r2, s2, v)" by (metis prod_cases3)
  have out: "s' = commitPlanBlob env r2 s2" using assms(3) e f by (auto simp: runApply_def Let_def r0_def)
  have r0: "ar_appliedProof r0 \<in> X" "fresh_run r0" using assms(2) executeRun_fresh by (auto simp: r0_def)
  have "carried r0 r1"
    using executeRun_ends(1) [OF e r0(2)] revertLKG_ends(1) [of env r0 s r1 s1] e r0(2)
    by (cases "am_Mode (ar_manifest r0) = wireMode ModeRevertLKG") (auto simp: executeRun_def fresh_run_def)
  then have "within X s1 s2"
    using finish_effect [OF f] r0(1) assms(1) by (auto simp: finished_def within_def saved_number_def proofs_in_def waits_def carried_def split: if_splits)
  with executeRun_within [OF assms(1) r0(1) e] commitPlanBlob_within show ?thesis by (auto simp: out intro: within_trans)
qed

subsection \<open>Admission\<close>

lemma stagePart_files:
  assumes "stagePart env declared p got fs = (fs1, got1, bad)"
  shows "rc_files got1 = rc_files got \<or> (\<exists>path v f. declared path = Some f \<and> rc_files got1 = AList.update path v (rc_files got))"
  using assms
  by (auto simp: stagePart_def split: body_part.splits option.splits if_splits prod.splits sum.splits fs_error.splits) (metis option.distinct(1))+

lemma stageLoop_parts:
  assumes "stageLoop env declared n parts clean got fs = (fs', got', failed)" "fst ` set (rc_files got) \<subseteq> dom declared"
  shows "fst ` set (rc_files got') \<subseteq> dom declared"
  using assms
proof (induction env declared n parts clean got fs arbitrary: fs' got' failed rule: stageLoop.induct)
  case (3 env declared n p ps clean got fs)
  obtain fs1 got1 bad where one: "stagePart env declared p got fs = (fs1, got1, bad)" by (metis prod_cases3)
  have "fst ` set (rc_files got1) \<subseteq> dom declared"
    using stagePart_files [OF one] "3.prems"(2) by (metis dom_update domI insert_subset Un_insert_left sup_bot.left_neutral)
  with "3.IH" [OF one [symmetric] refl] "3.prems"(1) one show ?case by (cases bad) auto
qed auto

lemma roleProof_eq_iff [simp]: "roleProof a = roleProof b \<longleftrightarrow> a = b"
  by (simp add: roleProof_def nat_digits_eq_iff unsigned_word_eqI word_unat_eq_iff)

lemma roleProof_nonempty [simp]: "roleProof a \<noteq> []"
  by (simp add: roleProof_def)

text \<open>The proofs of the first numbers, and the empty one.\<close>

definition issuedProofs :: "64 word \<Rightarrow> string set" where
  "issuedProofs n = insert [] (roleProof ` {..n})"

text \<open>\<open>sound_state\<close>: the recorded tree is owned, and the proofs the state names are issued.\<close>

definition sound_state :: "AgentServer \<Rightarrow> bool" where
  "sound_state s \<longleftrightarrow> tree_owned s \<and> proofs_in (issuedProofs (ps_ProofGeneration (sv_state s))) s"

lemma issuedProofs_mono: "a \<le> b \<Longrightarrow> issuedProofs a \<subseteq> issuedProofs b"
  by (auto simp: issuedProofs_def)

lemma proofs_in_mono: "proofs_in X s \<Longrightarrow> X \<subseteq> Y \<Longrightarrow> proofs_in Y s"
  by (auto simp: proofs_in_def)

lemma word_two_above:
  fixes g :: "64 word"
  assumes "\<not> g > - 1 - (if two then 2 else 1)"
  shows "g < g + 1" "two \<Longrightarrow> g + 1 < g + 1 + 1"
proof -
  have "uint (- 1 - (if two then 2 else 1) :: 64 word) = (if two then 2 ^ 64 - 3 else 2 ^ 64 - 2)" by (simp add: uint_word_ariths)
  with assms have "uint g \<le> (if two then 2 ^ 64 - 3 else 2 ^ 64 - 2)" by (simp add: word_less_def not_less split: if_splits)
  then show "g < g + 1" "two \<Longrightarrow> g + 1 < g + 1 + 1"
    by (auto simp: word_less_def uint_plus_if' split: if_splits)
qed

lemma reserve_effect:
  assumes "reserveRoleProofs env withWorker s = (s', proofs)"
  shows "sv_tree s' = sv_tree s" "ps_ManifestPaths (sv_state s') = ps_ManifestPaths (sv_state s)" "ps_ProofGeneration (sv_state s) \<le> ps_ProofGeneration (sv_state s')"
    "sv_fs s' = sv_fs s" "proofs_in X s' = proofs_in X s" "ps_LKGPlanProof (sv_state s') = ps_LKGPlanProof (sv_state s)" "waits s' = waits s"
    "proofs = Some (applied, worker) \<Longrightarrow> \<exists>n. applied = roleProof n \<and> ps_ProofGeneration (sv_state s) < n \<and> n \<le> ps_ProofGeneration (sv_state s')"
  using assms word_two_above [where g="ps_ProofGeneration (sv_state s)" and two=withWorker]
  by (auto simp: reserveRoleProofs_def saveState_def outside_def Let_def proofs_in_def waits_def split: if_splits prod.splits)

lemma promoteLKG_effect:
  assumes "promoteLKG env m s = (s', failed)" "[] \<in> X"
  shows "within X s s'" "sv_tree s' = sv_tree s" "ps_ManifestPaths (sv_state s') = ps_ManifestPaths (sv_state s)" "waits s' = waits s"
proof -
  obtain s1 b where c: "clearJournalNow env s = (s1, b)" by fastforce
  note 1 = clearJournalNow_effect [OF c]
  show "within X s s'" "sv_tree s' = sv_tree s" "ps_ManifestPaths (sv_state s') = ps_ManifestPaths (sv_state s)" "waits s' = waits s"
    using assms c 1
    by (auto simp: promoteLKG_def Let_def saveState_def outside_def within_def saved_number_def proofs_in_def kept_tree_def waits_def split: if_splits bool.splits)
qed

lemma cachedNACK_effect:
  assumes "cachedNACK env digest work s = (s', cached)"
  shows "within X s s'" "sv_tree s' = sv_tree s" "ps_ManifestPaths (sv_state s') = ps_ManifestPaths (sv_state s)" "sv_fs s' = sv_fs s" "waits s' = waits s"
  using assms by (auto simp: cachedNACK_def timeNow_def outside_def within_def saved_number_def proofs_in_def waits_def split: option.splits if_splits)

lemma within_inv:
  assumes "within (issuedProofs (ps_ProofGeneration (sv_state s))) s s'" "sv_tree s' = sv_tree s"
    "ps_ManifestPaths (sv_state s') = ps_ManifestPaths (sv_state s)" "sound_state s"
  shows "sound_state s'"
  using assms by (auto simp: sound_state_def within_def tree_owned_def)

text \<open>What every answer of an apply leaves: the invariant, unless a rollback was not performed.\<close>

definition answered :: "ApplyManifest \<Rightarrow> AgentServer \<Rightarrow> apply_answer \<Rightarrow> bool" where
  "answered m s answer \<longleftrightarrow>
     (case answer of
        Applied r violated \<Rightarrow> set violated \<subseteq> {''mount_probe_found_every_mount''} \<and>
          (res_OK (ar_result r) \<and> am_Mode m \<noteq> wireMode ModeRevertLKG \<longrightarrow> treeMatchesLocked m s) \<and>
          (res_OK (ar_result r) \<or> rolled_back (ar_result r) \<longrightarrow> sound_state s)
      | _ \<Rightarrow> sound_state s)"

lemma admitted_sound:
  assumes "admitted env m got digest work s = (s', answer)" and inv: "sound_state s" and m: "distinct (map af_Path (am_Files m))"
    and missing: "missingParts (sv_tree s) m got = []" and parts: "fst ` set (rc_files got) \<subseteq> af_Path ` set (am_Files m)"
  shows "answered m s' answer"
proof -
  let ?revert = "am_Mode m = wireMode ModeRevertLKG"
  obtain s1 failed where p: "promoteLKG env m s = (s1, failed)" by fastforce
  have e: "[] \<in> issuedProofs n" for n by (simp add: issuedProofs_def)
  note 1 = promoteLKG_effect [OF p e]
  have i1: "sound_state s1" using within_inv [OF 1(1-3) inv] .
  obtain s2 proofs where q: "(if ?revert then (s1, Some ([], [])) else reserveRoleProofs env (length (am_InPlaceOps m) > 0) s1) = (s2, proofs)" by fastforce
  let ?X = "issuedProofs (ps_ProofGeneration (sv_state s2))"
  have 2: "sv_tree s2 = sv_tree s" "tree_owned s2" "proofs_in ?X s2" "ps_LKGPlanProof (sv_state s2) = ps_LKGPlanProof (sv_state s1)"
    using q 1(2) i1 reserve_effect(1-6) [of env "length (am_InPlaceOps m) > 0" s1 s2 proofs]
      proofs_in_mono [OF _ issuedProofs_mono, of "ps_ProofGeneration (sv_state s1)" s1 "ps_ProofGeneration (sv_state s2)"]
      tree_owned_cong [of s2 s1]
    by (auto simp: sound_state_def split: if_splits)
  show ?thesis
  proof (cases "failed \<or> proofs = None")
    case True
    with assms(1) p q i1 2 show ?thesis by (auto simp: admitted_def answered_def sound_state_def split: bool.splits)
  next
    case False
    then obtain appliedProof workerProof where proofs: "proofs = Some (appliedProof, workerProof)" by auto
    have fresh: "\<not> ?revert \<Longrightarrow> appliedProof \<noteq> ps_LKGPlanProof (sv_state s2)" "appliedProof \<in> ?X"
      using q proofs i1 2(4) reserve_effect(8) [of env "length (am_InPlaceOps m) > 0" s1 s2 proofs appliedProof workerProof]
      by (auto simp: sound_state_def proofs_in_def issuedProofs_def split: if_splits)
    obtain r s3 violated where run: "runApply env m got digest work appliedProof workerProof s2 = (r, s3, violated)" by (metis prod_cases3)
    note sound = runApply_sound [OF run m 2(2) _ parts fresh(1)] runApply_within [OF e fresh(2) run]
    have "answer = Applied r violated" "s' = s3" using assms(1) p q False proofs run by (auto simp: admitted_def)
    with sound 2 missing show ?thesis by (auto simp: answered_def sound_state_def within_def)
  qed
qed

lemma fence_kept: "fence env m s = (s', reason) \<Longrightarrow> sv_state s' = sv_state s \<and> sv_saved s' = sv_saved s \<and> sv_tree s' = sv_tree s \<and> sv_fs s' = sv_fs s"
  by (auto simp: fence_def inPlaceWillRunLocked_def timeNow_def outside_def Let_def split: if_splits prod.splits)

lemma sound_state_cong:
  "sv_tree s' = sv_tree s \<Longrightarrow> sv_state s' = sv_state s \<Longrightarrow> sound_state s' = sound_state s"
  by (simp add: sound_state_def tree_owned_def proofs_in_def)

lemma answered_cong: "sv_tree s' = sv_tree s \<Longrightarrow> sv_state s' = sv_state s \<Longrightarrow> answered m s' answer = answered m s answer"
  using sound_state_cong [of s' s] by (auto simp: answered_def treeMatchesLocked_def split: apply_answer.splits)

lemma answered_simps [simp]:
  "answered m s NotReady = sound_state s" "answered m s (BadManifest e) = sound_state s" "answered m s (Refused reason) = sound_state s"
  "answered m s BadParts = sound_state s" "answered m s (MissingFiles files) = sound_state s" "answered m s (KnownBad res) = sound_state s"
  by (simp_all add: answered_def)

lemma discardAllStaged_same [simp]:
  "sound_state (discardAllStaged env ps s) = sound_state s" "answered m (discardAllStaged env ps s) a = answered m s a"
  by (rule sound_state_cong answered_cong; simp add: discardAllStaged_def)+

lemma admit_sound:
  assumes "admit env m got s = (s', answer)" and inv: "sound_state s" and m: "distinct (map af_Path (am_Files m))"
    and parts: "fst ` set (rc_files got) \<subseteq> af_Path ` set (am_Files m)"
  shows "answered m s' answer"
proof (cases "missingParts (sv_tree s) m got = []")
  case True
  have "answered m s' answer" if "admitted env m got digest work t = (s', answer)" "sound_state t" "sv_tree t = sv_tree s" for digest work t
    using admitted_sound [OF that(1,2) m _ parts] True that(3) by simp
  moreover have "sound_state t" "sv_tree t = sv_tree s" if "cachedNACK env digest work s = (t, cached)" for digest work t cached
    using cachedNACK_effect [OF that] within_inv [of s t] inv by auto
  ultimately show ?thesis
    using assms(1) True inv by (auto simp: admit_def Let_def answered_def split: option.splits prod.splits)
next
  case False
  with assms(1) inv show ?thesis by (auto simp: admit_def answered_def Let_def)
qed

lemma handleApply_sound:
  assumes run: "handleApply env sent parts clean s = (s', answer)" and inv: "sound_state s" and m: "readManifest sent = Inr m"
  shows "answered m s' answer"
proof -
  obtain s1 reason where f: "fence env m s = (s1, reason)" by fastforce
  have s1: "sound_state s1" "sv_tree s1 = sv_tree s" using fence_kept [OF f] inv sound_state_cong [of s1 s] by auto
  obtain fs1 got failed where st: "stageParts env m parts clean (sv_fs s1) = (fs1, got, failed)" by (metis prod_cases3)
  have "fst ` set (rc_files got) \<subseteq> dom (index_by af_Path (am_Files m))"
    using stageLoop_parts [OF st [unfolded stageParts_def]] by simp
  then have parts: "fst ` set (rc_files got) \<subseteq> af_Path ` set (am_Files m)" by simp
  have "sound_state (s1\<lparr>sv_fs := fs1\<rparr>)" using s1 sound_state_cong [of "s1\<lparr>sv_fs := fs1\<rparr>" s1] by simp
  with admit_sound [of env m got "s1\<lparr>sv_fs := fs1\<rparr>"] readManifest_paths [OF m] parts
  have "answered m t a" if "(if failed then (s1\<lparr>sv_fs := fs1\<rparr>, BadParts) else admit env m got (s1\<lparr>sv_fs := fs1\<rparr>)) = (t, a)" for t a
    using that by (auto split: if_splits)
  then show ?thesis
    using run m f st s1 inv by (auto simp: handleApply_def stageAndRun_def split: if_splits option.splits prod.splits)
qed

subsection \<open>Between applies and at the start\<close>

definition restored :: "AgentServer \<Rightarrow> bool" where
  "restored s \<longleftrightarrow> (case ps_LastApply (sv_state s) of None \<Rightarrow> True | Some res \<Rightarrow> res_OK res \<or> rolled_back res)"

lemma performReload_sound:
  assumes "performReload env planID planProof r s = (r', s', failed)" "sound_state s" "planProof \<in> issuedProofs (ps_ProofGeneration (sv_state s))"
  shows "sound_state s'" "res_OK (ar_result r') = res_OK (ar_result r)"
  using reloads_within [OF _ performReload_effect [OF assms(1)], of "issuedProofs (ps_ProofGeneration (sv_state s))"] assms(2,3)
    performReload_effect [OF assms(1)] kept_tree_owned [of s s']
  by (auto simp: sound_state_def within_def reloads_def issuedProofs_def)

lemma abortRun_sound:
  assumes "abortRun env failedAt r s = (r', s')" "sound_state s" "rolled_back (ar_result r')"
  shows "sound_state s'"
  using abortRun_within [OF _ assms(1), of "issuedProofs (ps_ProofGeneration (sv_state s))"] abortRun_effect(5) [OF assms(1,3)] assms(2)
  by (auto simp: sound_state_def within_def issuedProofs_def)

lemma sound_forget: "sound_state s \<Longrightarrow> sound_state (onState (\<lambda>st. st\<lparr>ps_AppliedPlanID := [], ps_AppliedPlanProof := []\<rparr>) s)"
  by (auto simp: sound_state_def tree_owned_def proofs_in_def issuedProofs_def)

text \<open>What ends a scheduled reload leaves the state sound and its result as the last one.\<close>

lemma keepResult_sound:
  assumes "applyResultLocked res s = (s1, res')" "saveState env (keepResult r res' s1) = (s2, failed)"
  shows "sound_state s2 = sound_state s" "ps_LastApply (sv_state s2) = Some res'" "res_OK res' = res_OK res" "rolled_back res' = rolled_back res"
  using applyResultLocked_effect [OF assms(1)] saveState_kept [OF assms(2)]
  by (auto simp: sound_state_def tree_owned_def proofs_in_def keepResult_def kept_def rolled_back_def)

lemma firePendingReload_sound:
  assumes inv: "sound_state s" and "restored (firePendingReload env s)"
  shows "sound_state (firePendingReload env s)"
proof (cases "firePendingReload env s = s \<or> firePendingReload env s = fst (timeNow env s)")
  case True
  with inv sound_state_cong [of "fst (timeNow env s)" s] show ?thesis by (auto simp: timeNow_def outside_def)
next
  case False
  let ?id = "ps_PendingReloadPlanID (sv_state s)" and ?proof = "ps_PendingReloadPlanProof (sv_state s)"
  obtain s1 now where t: "timeNow env s = (s1, now)" by fastforce
  have s1: "sound_state s1" "sv_state s1 = sv_state s" using t inv sound_state_cong [of s1 s] by (auto simp: timeNow_def outside_def)
  obtain r2 s2 failed where p: "performReload env ?id ?proof (ownReload ?id ?proof) s1 = (r2, s2, failed)" by (metis prod_cases3)
  obtain r3 s3 where a: "(if failed then abortRun env ''scheduled_reload'' r2 s2 else (r2, s2)) = (r3, s3)" by fastforce
  let ?s4 = "if res_OK (ar_result r3) then s3 else onState (\<lambda>st. st\<lparr>ps_AppliedPlanID := [], ps_AppliedPlanProof := []\<rparr>) s3"
  obtain s5 res where l: "applyResultLocked (ar_result r3) ?s4 = (s5, res)" by fastforce
  obtain s6 bad where k: "saveState env (keepResult r3 res s5) = (s6, bad)" by fastforce
  have out: "firePendingReload env s = s6"
    using False t p a l k by (auto simp: firePendingReload_def Let_def split: if_splits bool.splits)
  note last = keepResult_sound [OF l k]
  have "?proof \<in> issuedProofs (ps_ProofGeneration (sv_state s1))" using inv s1 by (simp add: sound_state_def proofs_in_def)
  with performReload_sound [OF p s1(1)] have s2: "sound_state s2" "res_OK (ar_result r2)"
    by (auto simp: ownReload_def newRun_def newResult_def)
  have "res_OK (ar_result r3) \<or> rolled_back (ar_result r3)" using assms(2) last by (auto simp: out restored_def)
  with a s2 abortRun_sound [of env "''scheduled_reload''" r2 s2 r3 s3] abortRun_effect(1) [of env "''scheduled_reload''" r2 s2 r3 s3]
  have "sound_state s3" by (auto split: if_splits)
  then have "sound_state ?s4" using sound_forget [of s3] by auto
  with last(1) show ?thesis by (simp add: out)
qed

lemma kept_sound: "kept s s' \<Longrightarrow> waits s' = waits s \<Longrightarrow> sound_state s \<Longrightarrow> sound_state s'"
  using kept_within [of "issuedProofs (ps_ProofGeneration (sv_state s))" s s'] kept_tree_owned [OF kept_keeps_tree, of s s']
  by (auto simp: sound_state_def within_def issuedProofs_def)

lemma schedulePendingReload_sound:
  "planProof \<in> issuedProofs (ps_ProofGeneration (sv_state s)) \<Longrightarrow> sound_state s \<Longrightarrow> sound_state (schedulePendingReload env due planID planProof s)"
  using kept_scheduled [of "issuedProofs (ps_ProofGeneration (sv_state s))" s "schedulePendingReload env due planID planProof s"]
    kept_tree_owned [OF kept_keeps_tree, of s "schedulePendingReload env due planID planProof s"]
  by (auto simp: sound_state_def within_def issuedProofs_def)

text \<open>The loops of the read-back read only.\<close>

definition reads :: "AgentServer \<Rightarrow> AgentServer \<Rightarrow> bool" where
  "reads s s' \<longleftrightarrow> kept s s' \<and> sv_state s' = sv_state s \<and> sv_saved s' = sv_saved s"

lemma reads_trans: "reads s t \<Longrightarrow> reads t u \<Longrightarrow> reads s u"
  by (auto simp: reads_def intro: kept_trans)

lemma mapDiverged_reads: "mapDiverged env path s = (s', d) \<Longrightarrow> reads s s'"
  by (auto simp: mapDiverged_def outside_def reads_def kept_def saved_number_def split: sum.splits prod.splits option.splits)

lemma fold_reads:
  assumes "\<And>x c. reads (fst c) (fst (f x c))"
  shows "reads (fst c) (fst (fold f xs c))"
proof (induction xs arbitrary: c)
  case (Cons x xs)
  show ?case using reads_trans [OF assms [of c x] Cons.IH [of "f x c"]] by simp
qed (simp add: reads_def)

lemma readBack_loops: "reads s (fst (fold (divergedMap env) ms (fold (unreadableBackend env r) bs (s, False))))"
proof -
  have "reads (fst c) (fst (divergedMap env p c))" for p c
    using mapDiverged_reads [of env p "fst c"] by (cases c; cases "mapDiverged env p (fst c)") (auto simp: divergedMap_def)
  moreover have "reads (fst c) (fst (unreadableBackend env r b c))" for b c
    by (cases c) (auto simp: unreadableBackend_def outside_def reads_def kept_def saved_number_def)
  ultimately show ?thesis using reads_trans fold_reads [of "unreadableBackend env r" "(s, False)"] fold_reads [of "divergedMap env"] by (metis fst_conv)
qed

lemma readBack_sound:
  assumes inv: "sound_state s"
  shows "sound_state (readBack env r s)"
proof -
  obtain s1 diverged where l: "fold (divergedMap env) (dedupe (ar_touchedMaps r)) (fold (unreadableBackend env r) (dedupe (ar_touchedBackends r)) (s, False)) = (s1, diverged)"
    by fastforce
  have s1: "sound_state s1" using readBack_loops [of s env "dedupe (ar_touchedMaps r)" r "dedupe (ar_touchedBackends r)"] l inv
    by (auto simp: reads_def intro: kept_sound simp: waits_def)
  obtain s2 due paced where w: "pacingWindow env s1 = (s2, due, paced)" by (metis prod_cases3)
  have s2: "sound_state s2" using pacingWindow_kept [OF w] s1 kept_sound by blast
  then have p: "ps_AppliedPlanProof (sv_state s2) \<in> issuedProofs (ps_ProofGeneration (sv_state s2))" by (simp add: sound_state_def proofs_in_def)
  obtain q s3 failed where rel: "performReload env (ps_AppliedPlanID (sv_state s2)) (ps_AppliedPlanProof (sv_state s2))
      (ownReload (ps_AppliedPlanID (sv_state s2)) (ps_AppliedPlanProof (sv_state s2))) s2 = (q, s3, failed)" by (metis prod_cases3)
  have "sound_state s3" using performReload_sound(1) [OF rel s2 p] .
  then have "sound_state (selfReload env s2)"
    using rel saveState_kept [of env s3 "fst (saveState env s3)" "snd (saveState env s3)"] kept_sound [of s3 "fst (saveState env s3)"]
    by (simp add: selfReload_def)
  with s1 inv l w schedulePendingReload_sound [OF p s2] show ?thesis by (auto simp: readBack_def)
qed

lemma Observe_owned:
  assumes "Observe env st paths fs = (fs', Inr observed)"
  shows "fst ` set observed \<subseteq> set paths"
proof -
  from assms obtain files where read: "readPaths env st paths fs = (fs', Inr files)"
    and o: "observed = map (\<lambda>(rel, content, meta). (rel, fileAt env content, \<lparr>fp_Sum = fe_sha256 env content, fp_Meta = meta\<rparr>)) files"
    by (auto simp: Observe_def readTree_def split: prod.splits sum.splits if_splits)
  have "fst ` set observed = fst ` set files" by (auto simp: o image_image intro: rev_image_eqI)
  with readPaths_owned [OF read] show ?thesis by simp
qed

lemma reobserve_sound:
  assumes "reobserve env s = (s', failed)" "sound_state s"
  shows "sound_state s'"
proof -
  obtain s1 bad where f: "refreshTree env s = (s1, bad)" by fastforce
  have "sound_state s1"
  proof (cases bad)
    case True
    with f assms(2) sound_state_cong [of s1 s] show ?thesis by (auto simp: refreshTree_def Let_def split: prod.splits sum.splits)
  next
    case False
    then obtain fs1 observed where o: "Observe (se_files env) (se_store env) (ps_ManifestPaths (sv_state s)) (sv_fs s) = (fs1, Inr observed)"
      using f by (cases "Observe (se_files env) (se_store env) (ps_ManifestPaths (sv_state s)) (sv_fs s)";
        cases "snd (Observe (se_files env) (se_store env) (ps_ManifestPaths (sv_state s)) (sv_fs s))") (auto simp: refreshTree_def Let_def)
    with f have "\<exists>g. sv_tree s1 = map (\<lambda>(path, at, print). (path, g path at print)) observed"
      and s1: "ps_ManifestPaths (sv_state s1) = ps_ManifestPaths (sv_state s)"
        "ps_ProofGeneration (sv_state s1) = ps_ProofGeneration (sv_state s)" "\<And>X. proofs_in X s1 = proofs_in X s"
      by (auto simp: refreshTree_def Let_def proofs_in_def)
    then have "map fst (sv_tree s1) = map fst observed" by (auto simp: case_prod_beta)
    then have "fst ` set (sv_tree s1) = fst ` set observed" by (metis set_map)
    note s1 = this s1
    have "fst ` set observed \<subseteq> set (ps_ManifestPaths (sv_state s))" using Observe_owned [OF o] .
    with s1 assms(2) show ?thesis by (simp add: sound_state_def tree_owned_def dom_map_of_conv_image_fst)
  qed
  with f assms(1) checkWorker_kept [of env s1] kept_sound [of s1 s'] show ?thesis
    by (cases "checkWorker env s1") (auto simp: reobserve_def split: bool.splits)
qed

lemma handlePlan_sound:
  assumes "handlePlan env planID planProof body s = (s', answer)" "sound_state s"
  shows "sound_state s'"
proof -
  have "sound_state t" if "storePlanBlobLocked env planID planProof blob s = (t, b)" for blob t b
    using storePlanBlob_within [OF that] within_inv [of s t] assms(2) by blast
  with assms show ?thesis by (auto simp: handlePlan_def split: if_splits option.splits prod.splits bool.splits)
qed

end
