(* ===== verification/Agent_Steps.thy ===== *)
theory Agent_Steps
  imports Agent_Invariants Monitored_Runs "HOL-Library.Sublist"
begin

section \<open>The agent server: whole executions\<close>

text \<open>
  An execution of the agent as a sequence of calls: applies, scheduled reloads, read-backs, verified reads,
  uploads of a plan, and restarts of the process at any point between them, each over the files and the
  saved state the last one left. The configuration carries the proofs handed out so far.
\<close>

datatype agent_call =
    CallApply ApplyManifest "body_part list" bool | CallFire | CallReadBack applyRun | CallVerify | CallPlan string string part | CallRestart nat

definition newProofs :: "apply_answer \<Rightarrow> string list" where
  "newProofs answer = (case answer of Applied r _ \<Rightarrow> filter (\<lambda>p. p \<noteq> '''') [ar_workerProof r, ar_appliedProof r] | _ \<Rightarrow> [])"

inductive agent_step :: "server_env \<Rightarrow> agent_call \<Rightarrow> AgentServer \<times> string list \<Rightarrow> AgentServer \<times> string list \<Rightarrow> bool" for env where
  applies: "handleApply env sent parts clean s = (s', answer) \<Longrightarrow> agent_step env (CallApply sent parts clean) (s, ps) (s', newProofs answer @ ps)"
| fires: "agent_step env CallFire (s, ps) (firePendingReload env s, ps)"
| readsBack: "sv_initialized s \<Longrightarrow> agent_step env (CallReadBack r) (s, ps) (readBack env r s, ps)"
| verifies: "sv_initialized s \<Longrightarrow> reobserve env s = (s', failed) \<Longrightarrow> agent_step env CallVerify (s, ps) (s', ps)"
| stores: "handlePlan env planID planProof body s = (s', answer) \<Longrightarrow> agent_step env (CallPlan planID planProof body) (s, ps) (s', ps)"
| restarts: "initialise env n (NewServer env s) = (s', failed) \<Longrightarrow> agent_step env (CallRestart n) (s, ps) (s', ps)"

inductive_cases agent_stepE: "agent_step env call c c'"

subsection \<open>The start\<close>

lemma loadPlanBlob_same:
  "sv_tree (loadPlanBlob env s) = sv_tree s" "ps_ProofGeneration (sv_state (loadPlanBlob env s)) = ps_ProofGeneration (sv_state s)"
  "sv_saved (loadPlanBlob env s) = sv_saved s"
  by (auto simp: loadPlanBlob_def outside_def split: option.splits)

lemma NewServer_number: "ps_ProofGeneration (sv_state (NewServer env s)) = ps_ProofGeneration (sv_saved s)" "sv_saved (NewServer env s) = sv_saved s"
  "\<not> sv_initialized (NewServer env s)"
  by (auto simp: NewServer_def loadPlanBlob_def outside_def Let_def split: option.splits)

lemma probeLoop_state: "probeLoop env n s = (s', b) \<Longrightarrow> sv_state s' = sv_state s \<and> sv_saved s' = sv_saved s \<and> sv_initialized s' = sv_initialized s"
proof (induction n arbitrary: s)
  case (Suc n)
  have one: "sv_state t = sv_state s \<and> sv_saved t = sv_saved s \<and> sv_initialized t = sv_initialized s" if "probeHAProxy env s = (t, b)" for t b
    using that by (auto simp: probeHAProxy_def masterAnswers_def outside_def split: option.splits bool.splits)
  obtain t failed where t: "probeHAProxy env s = (t, failed)" by fastforce
  from Suc.prems Suc.IH [of t] one [OF t] t show ?case by (cases failed) auto
qed simp

text \<open>No proof of an earlier process survives the adoption of the disk.\<close>

definition unproved :: "AgentServer \<Rightarrow> bool" where
  "unproved s \<longleftrightarrow> ps_AppliedPlanProof (sv_state s) = [] \<and> ps_RunningPlanProof (sv_state s) = [] \<and> ps_WorkerOpsPlanProof (sv_state s) = [] \<and>
     ps_LKGPlanProof (sv_state s) = [] \<and> ps_PendingReloadPlanProof (sv_state s) = [] \<and> ps_ReloadPendingAt (sv_state s) = None \<and>
     ps_PlanBlobPlanProof (sv_state s) = [] \<and> ps_NACK (sv_state s) = None \<and> (\<forall>at\<in>ran (go_get (sv_tree s)). fa_Proof at = [])"

lemma HashTree_unproved:
  assumes "HashTree env st paths fs = (fs', Inr tree)" "at \<in> ran (go_get tree)"
  shows "fa_Proof at = []"
  using assms by (auto simp: HashTree_def fileAt_def ran_def split: prod.splits sum.splits dest!: map_of_SomeD)

lemma adoptDisk_effect:
  assumes "adoptDisk env s = (s', False)"
  shows "unproved s'" "tree_owned s'"
proof -
  from assms obtain fs1 tree where h: "HashTree (se_files env) (se_store env) (ps_ManifestPaths (sv_state s)) (sv_fs s) = (fs1, Inr tree)"
    by (auto simp: adoptDisk_def split: prod.splits sum.splits)
  with assms have tree: "sv_tree s' = tree" "ps_ManifestPaths (sv_state s') = ps_ManifestPaths (sv_state s)"
    by (auto simp: adoptDisk_def Let_def saveState_def outside_def split: if_splits)
  have "ps_AppliedPlanProof (sv_state s') = [] \<and> ps_RunningPlanProof (sv_state s') = [] \<and> ps_WorkerOpsPlanProof (sv_state s') = [] \<and>
      ps_LKGPlanProof (sv_state s') = [] \<and> ps_PendingReloadPlanProof (sv_state s') = [] \<and> ps_ReloadPendingAt (sv_state s') = None \<and>
      ps_PlanBlobPlanProof (sv_state s') = [] \<and> ps_NACK (sv_state s') = None"
    using assms h by (auto simp: adoptDisk_def Let_def saveState_def outside_def split: if_splits)
  with HashTree_unproved [OF h] tree(1) show "unproved s'" by (simp add: unproved_def)
  from HashTree_owned [OF h] tree show "tree_owned s'" by (simp add: tree_owned_def)
qed

definition counts :: "AgentServer \<Rightarrow> AgentServer \<Rightarrow> bool" where
  "counts s s' \<longleftrightarrow> ps_ProofGeneration (sv_state s') = ps_ProofGeneration (sv_state s) \<and> saved_number s s'"

lemma counts_trans: "counts s t \<Longrightarrow> counts t u \<Longrightarrow> counts s u"
  by (auto simp: counts_def saved_number_def)

lemma adoptDisk_counts: "adoptDisk env s = (s', b) \<Longrightarrow> counts s s' \<and> sv_initialized s' = sv_initialized s"
  by (auto simp: adoptDisk_def Let_def saveState_def outside_def counts_def saved_number_def split: prod.splits sum.splits if_splits)

lemma performReload_unnamed:
  assumes "performReload env [] [] r s = (r', s', failed)" "unproved s"
  shows "unproved s'" "tree_owned s' = tree_owned s" "counts s s'" "sv_initialized s' = sv_initialized s"
proof -
  note e = performReload_effect [OF assms(1)]
  show "tree_owned s' = tree_owned s" "counts s s'" "sv_initialized s' = sv_initialized s"
    using e kept_tree_owned [of s s'] by (auto simp: reloads_def kept_tree_def counts_def)
  have "ps_WorkerOpsPlanProof (sv_state s') = [] \<and> ps_RunningPlanProof (sv_state s') = [] \<and> ps_PlanBlobPlanProof (sv_state s') = []"
    using assms
    by (auto simp: performReload_def Let_def outside_def clearPendingReload_def masterAnswers_def awaitNewWorker_def adoptWorker_def
      recordReload_def timeNow_def unproved_def split: prod.splits if_splits option.splits)
  with e assms(2) show "unproved s'" by (auto simp: unproved_def reloads_def kept_tree_def waits_def)
qed

lemma recoverFromCrash_effect:
  assumes "recoverFromCrash env s = (s', b)" "unproved s"
  shows "unproved s'" "tree_owned s' = tree_owned s" "counts s s'" "sv_initialized s' = sv_initialized s"
proof -
  let ?s0 = "invalidateBaseline s"
  have s0: "unproved ?s0" "tree_owned ?s0 = tree_owned s" "counts s ?s0" "sv_initialized ?s0 = sv_initialized s"
    using assms(2) by (auto simp: unproved_def invalidateBaseline_def tree_owned_def counts_def saved_number_def)
  obtain r1 s1 failed where p: "performReload env [] [] (ownReload (ps_InFlightPlanID (sv_state s)) []) ?s0 = (r1, s1, failed)" by (metis prod_cases3)
  note 1 = performReload_unnamed [OF p s0(1)]
  define s3 where "s3 = (let s2 = onState (\<lambda>st. st\<lparr>ps_Phase := PhaseIdle, ps_InFlightPlanID := []\<rparr>) s1
    in if failed then onState (\<lambda>st. st\<lparr>ps_RunningPlanID := [], ps_RunningPlanProof := []\<rparr>) s2 else s2)"
  have 3: "unproved s3" "tree_owned s3 = tree_owned s1" "counts s1 s3" "sv_initialized s3 = sv_initialized s1"
    using 1(1) by (auto simp: s3_def Let_def unproved_def tree_owned_def counts_def saved_number_def)
  obtain s4 b4 where k: "saveState env s3 = (s4, b4)" by fastforce
  have "unproved s4" "tree_owned s4 = tree_owned s3" "counts s3 s4" "sv_initialized s4 = sv_initialized s3"
    using saveState_kept [OF k] 3(1) by (auto simp: kept_def unproved_def tree_owned_def counts_def)
  then have "unproved s4" "tree_owned s4 = tree_owned s" "counts s s4" "sv_initialized s4 = sv_initialized s"
    using s0 1 3 by (auto intro: counts_trans)
  moreover have "s' = s \<or> s' = s4" using assms(1) p k by (auto simp: recoverFromCrash_def Let_def s3_def split: if_splits)
  ultimately show "unproved s'" "tree_owned s' = tree_owned s" "counts s s'" "sv_initialized s' = sv_initialized s"
    using assms(2) by (auto simp: counts_def saved_number_def)
qed

lemma initialise_effect:
  assumes "initialise env n s = (s', failed)" "\<not> sv_initialized s"
  shows "if failed then \<not> sv_initialized s' else unproved s' \<and> tree_owned s'" "counts s s'"
proof -
  let ?s0 = "s\<lparr>sv_fs := fst (SweepTemp (se_files env) (se_store env) (sv_fs s))\<rparr>"
  obtain s1 b1 where p: "probeLoop env n ?s0 = (s1, b1)" by fastforce
  have 1: "counts s s1" "\<not> sv_initialized s1" using probeLoop_state [OF p] assms(2) by (auto simp: counts_def saved_number_def)
  obtain s2 b2 where a: "adoptDisk env s1 = (s2, b2)" by fastforce
  have 2: "counts s s2" "\<not> sv_initialized s2" using adoptDisk_counts [OF a] 1 by (auto intro: counts_trans)
  obtain s3 b3 where c: "recoverFromCrash env s2 = (s3, b3)" by fastforce
  have ready: "unproved s2" "tree_owned s2" "unproved s3" "tree_owned s3" "counts s2 s3" "\<not> sv_initialized s3" if "\<not> b2"
    using adoptDisk_effect [of env s1 s2] recoverFromCrash_effect [OF c] a that 2 by auto
  have flag: "unproved (s3\<lparr>sv_initialized := True\<rparr>) = unproved s3" "tree_owned (s3\<lparr>sv_initialized := True\<rparr>) = tree_owned s3"
    "counts s (s3\<lparr>sv_initialized := True\<rparr>) = counts s s3"
    by (auto simp: unproved_def tree_owned_def counts_def saved_number_def)
  show "if failed then \<not> sv_initialized s' else unproved s' \<and> tree_owned s'" "counts s s'"
    using assms(1) p a c 1 2 ready flag counts_trans [OF 2(1)] by (auto simp: initialise_def Let_def split: bool.splits)
qed

subsection \<open>The numbers of the proofs\<close>

lemma within_counts: "within X s s' \<Longrightarrow> counts s s'"
  by (simp add: within_def counts_def)

lemma kept_counts: "kept s s' \<Longrightarrow> counts s s'"
  by (simp add: kept_def counts_def)

lemma counts_refl [simp]: "counts s s"
  by (simp add: counts_def saved_number_def)

lemma performReload_counts: "performReload env planID planProof r s = (r', s', failed) \<Longrightarrow> counts s s'"
  using performReload_effect [of env planID planProof r s r' s' failed] by (simp add: reloads_def kept_tree_def counts_def)

lemma saveState_counts: "counts s (fst (saveState env s))"
  using saveState_kept [of env s] by (cases "saveState env s") (auto intro: kept_counts)

lemma firePendingReload_counts: "counts s (firePendingReload env s)"
proof -
  let ?id = "ps_PendingReloadPlanID (sv_state s)" and ?proof = "ps_PendingReloadPlanProof (sv_state s)"
  obtain s1 now where t: "timeNow env s = (s1, now)" by fastforce
  obtain r2 s2 failed where p: "performReload env ?id ?proof (ownReload ?id ?proof) s1 = (r2, s2, failed)" by (metis prod_cases3)
  obtain r3 s3 where a: "(if failed then abortRun env ''scheduled_reload'' r2 s2 else (r2, s2)) = (r3, s3)" by fastforce
  let ?s4 = "if res_OK (ar_result r3) then s3 else onState (\<lambda>st. st\<lparr>ps_AppliedPlanID := [], ps_AppliedPlanProof := []\<rparr>) s3"
  obtain s5 res where l: "applyResultLocked (ar_result r3) ?s4 = (s5, res)" by fastforce
  have 1: "counts s s1" "counts s1 s2" using timeNow_kept [OF t] performReload_counts [OF p] by (auto intro: kept_counts)
  have 3: "counts s2 s3" using a abortRun_within [of UNIV env "''scheduled_reload''" r2 s2 r3 s3] by (auto split: if_splits intro: within_counts)
  have "counts s3 (keepResult r3 res s5)"
    using applyResultLocked_effect [OF l] by (auto simp: counts_def saved_number_def keepResult_def)
  from counts_trans [OF this saveState_counts] have "counts s (fst (saveState env (keepResult r3 res s5)))"
    using 1 3 by (blast intro: counts_trans)
  with t p a l 1 show ?thesis by (auto simp: firePendingReload_def Let_def split: bool.splits if_splits)
qed

lemma readBack_counts: "counts s (readBack env r s)"
proof -
  obtain s1 diverged where l: "fold (divergedMap env) (dedupe (ar_touchedMaps r)) (fold (unreadableBackend env r) (dedupe (ar_touchedBackends r)) (s, False)) = (s1, diverged)"
    by fastforce
  have 1: "counts s s1" using readBack_loops [of s env "dedupe (ar_touchedMaps r)" r "dedupe (ar_touchedBackends r)"] l
    by (auto simp: reads_def intro: kept_counts)
  obtain s2 due paced where w: "pacingWindow env s1 = (s2, due, paced)" by (metis prod_cases3)
  have 2: "counts s s2" using pacingWindow_kept [OF w] 1 by (blast intro: counts_trans kept_counts)
  have "counts s2 (selfReload env s2)"
    by (auto simp: selfReload_def Let_def split: prod.split intro: counts_trans [OF performReload_counts saveState_counts])
  moreover have "counts s2 (schedulePendingReload env due planID planProof s2)" for planID planProof by (rule kept_counts) simp
  ultimately show ?thesis using 1 2 l w by (auto simp: readBack_def intro: counts_trans)
qed

lemma reobserve_counts: "reobserve env s = (s', failed) \<Longrightarrow> counts s s'"
proof -
  assume run: "reobserve env s = (s', failed)"
  obtain s1 bad where f: "refreshTree env s = (s1, bad)" by fastforce
  then have "counts s s1" by (auto simp: refreshTree_def Let_def counts_def saved_number_def split: prod.splits sum.splits)
  moreover have "counts s1 (fst (checkWorker env s1))" using checkWorker_kept [of env s1] by (cases "checkWorker env s1") (auto intro: kept_counts)
  ultimately show ?thesis using run f by (auto simp: reobserve_def split: bool.splits intro: counts_trans)
qed

lemma handlePlan_counts: "handlePlan env planID planProof body s = (s', answer) \<Longrightarrow> counts s s'"
  by (auto simp: handlePlan_def split: if_splits option.splits prod.splits bool.splits
    dest!: storePlanBlob_within [where X=UNIV] intro: within_counts)

lemma runApply_proofs:
  assumes "runApply env m got digest work appliedProof workerProof s = (r, s', violated)"
  shows "ar_appliedProof r = appliedProof" "ar_workerProof r = workerProof" "ps_LastApply (sv_state s') = Some (ar_result r)"
proof -
  define r0 where "r0 = (newRun m (newResult (am_PlanID m) ResultNone))\<lparr>ar_staged := rc_files got, ar_planBlob := rc_plan got, ar_digest := digest,
    ar_work := work, ar_appliedProof := appliedProof, ar_workerProof := workerProof, ar_invalidations := sv_baselineInvalidations s\<rparr>"
  obtain r1 s1 where e: "executeRun env r0 s = (r1, s1)" by fastforce
  obtain r2 s2 v where f: "finish env r1 s1 = (r2, s2, v)" by (metis prod_cases3)
  have out: "r = r2" "s' = commitPlanBlob env r2 s2" using assms e f by (auto simp: runApply_def Let_def r0_def)
  have "fresh_run r0" using executeRun_fresh by (auto simp: r0_def)
  then have "carried r0 r1"
    using executeRun_ends(1) [OF e] revertLKG_ends(1) [of env r0 s r1 s1] e
    by (cases "am_Mode (ar_manifest r0) = wireMode ModeRevertLKG") (auto simp: executeRun_def fresh_run_def)
  with finish_effect [OF f] show "ar_appliedProof r = appliedProof" "ar_workerProof r = workerProof"
    by (auto simp: out finished_def carried_def r0_def)
  have "ps_LastApply (sv_state s2) = Some (ar_result r2)"
    using f by (auto simp: finish_def Let_def keepResult_def saveState_def outside_def split: prod.splits)
  moreover have "ps_LastApply (sv_state (commitPlanBlob env q t)) = ps_LastApply (sv_state t)" for q t
    by (auto simp: commitPlanBlob_def rebindPlanBlobProof_def storePlanBlobLocked_def saveState_def outside_def Let_def
      split: option.splits prod.splits)
  ultimately show "ps_LastApply (sv_state s') = Some (ar_result r)" by (simp add: out)
qed

lemma newProofs_simps [simp]:
  "newProofs NotReady = []" "newProofs (BadManifest e) = []" "newProofs (Refused reason) = []" "newProofs BadParts = []"
  "newProofs (MissingFiles files) = []" "newProofs (KnownBad res) = []" "newProofs LKGFailed = []" "newProofs IdentityFailed = []"
  by (simp_all add: newProofs_def)

text \<open>What one apply hands out: numbers above every earlier one, saved before it runs.\<close>

definition numbered_from :: "AgentServer \<Rightarrow> AgentServer \<Rightarrow> string list \<Rightarrow> bool" where
  "numbered_from s s' ps \<longleftrightarrow>
     (ps_ProofGeneration (sv_saved s) \<le> ps_ProofGeneration (sv_state s) \<longrightarrow>
        ps_ProofGeneration (sv_saved s) \<le> ps_ProofGeneration (sv_saved s') \<and> ps_ProofGeneration (sv_saved s') \<le> ps_ProofGeneration (sv_state s')) \<and>
     distinct ps \<and> (\<forall>p\<in>set ps. \<exists>k. p = roleProof k \<and> ps_ProofGeneration (sv_state s) < k \<and> k \<le> ps_ProofGeneration (sv_saved s'))"

lemma counts_numbered: "counts s s' \<Longrightarrow> numbered_from s s' []"
  by (auto simp: counts_def saved_number_def numbered_from_def)

lemma reserve_numbered:
  assumes "reserveRoleProofs env withWorker s = (s', proofs)"
  shows "case proofs of None \<Rightarrow> numbered_from s s' [] | Some (applied, worker) \<Rightarrow>
      numbered_from s s' (filter (\<lambda>p. p \<noteq> []) [worker, applied]) \<and> ps_ProofGeneration (sv_saved s') = ps_ProofGeneration (sv_state s')"
  using assms word_two_above [where g="ps_ProofGeneration (sv_state s)" and two=withWorker]
  by (auto simp: reserveRoleProofs_def saveState_def outside_def Let_def numbered_from_def split: if_splits)

lemma numbered_counts:
  assumes "counts s t" "numbered_from t u ps" "counts u v" "ps = [] \<or> ps_ProofGeneration (sv_saved u) = ps_ProofGeneration (sv_state u)"
  shows "numbered_from s v ps"
  using assms by (auto simp: counts_def saved_number_def numbered_from_def)

lemma admitted_numbered:
  assumes "admitted env m got digest work s = (s', answer)"
  shows "numbered_from s s' (newProofs answer)"
proof -
  obtain s1 failed where p: "promoteLKG env m s = (s1, failed)" by fastforce
  have 1: "counts s s1" using within_counts [OF promoteLKG_effect(1) [OF p, of UNIV]] by simp
  show ?thesis
  proof (cases failed)
    case True
    with assms p 1 show ?thesis by (auto simp: admitted_def intro: counts_numbered)
  next
    case False
    obtain s2 proofs where q: "(if am_Mode m = wireMode ModeRevertLKG then (s1, Some ([], [])) else reserveRoleProofs env (length (am_InPlaceOps m) > 0) s1) = (s2, proofs)"
      by fastforce
    have 2: "case proofs of None \<Rightarrow> numbered_from s1 s2 [] | Some (applied, worker) \<Rightarrow> numbered_from s1 s2 (filter (\<lambda>p. p \<noteq> []) [worker, applied]) \<and>
        (filter (\<lambda>p. p \<noteq> []) [worker, applied] = [] \<or> ps_ProofGeneration (sv_saved s2) = ps_ProofGeneration (sv_state s2))"
      using q reserve_numbered [of env "length (am_InPlaceOps m) > 0" s1 s2 proofs] counts_numbered [OF counts_refl, of s1]
      by (auto split: if_splits option.splits)
    show ?thesis
    proof (cases proofs)
      case None
      with assms p q False 2 numbered_counts [OF 1 _ counts_refl] show ?thesis by (auto simp: admitted_def)
    next
      case (Some pair)
      obtain r s3 violated where run: "runApply env m got digest work (fst pair) (snd pair) s2 = (r, s3, violated)" by (metis prod_cases3)
      let ?ps = "filter (\<lambda>p. p \<noteq> []) [snd pair, fst pair]"
      have "counts s2 s3" using within_counts [OF runApply_within [OF _ _ run, of UNIV]] by simp
      moreover have "numbered_from s1 s2 ?ps" "?ps = [] \<or> ps_ProofGeneration (sv_saved s2) = ps_ProofGeneration (sv_state s2)"
        using 2 Some by (simp_all add: case_prod_beta del: filter.simps)
      ultimately have "numbered_from s s3 ?ps" using numbered_counts [OF 1] by blast
      moreover have "answer = Applied r violated" "s' = s3" using assms p q False Some run by (auto simp: admitted_def split: prod.splits)
      moreover have "newProofs (Applied r violated) = ?ps" using runApply_proofs [OF run] by (simp add: newProofs_def)
      ultimately show ?thesis by simp
    qed
  qed
qed

lemma handleApply_numbered:
  assumes "handleApply env sent parts clean s = (s', answer)"
  shows "numbered_from s s' (newProofs answer)"
proof -
  have discard: "numbered_from s (discardAllStaged env ps t) qs = numbered_from s t qs" for s ps t qs
    by (simp add: numbered_from_def discardAllStaged_def)
  have start: "numbered_from t' u qs" if "numbered_from t u qs" "sv_state t = sv_state t'" "sv_saved t = sv_saved t'" for t t' u qs
    using that by (simp add: numbered_from_def)
  have same: "numbered_from t u []" if "sv_state u = sv_state t" "sv_saved u = sv_saved t" for t u
    using that by (simp add: numbered_from_def)
  have admitted: "numbered_from t u (newProofs a)" if "admit env m got t = (u, a)" for m got t u a
  proof -
    have run: "numbered_from t u (newProofs a)" if "admitted env m got digest work t' = (u, a)" "counts t t'" for digest work t'
      using admitted_numbered [OF that(1)] that(2) by (auto simp: counts_def saved_number_def numbered_from_def)
    have nack: "counts t t'" if "cachedNACK env digest work t = (t', cached)" for digest work t' cached
      using within_counts [OF cachedNACK_effect(1) [OF that, of UNIV]] .
    show ?thesis using that
      by (auto simp: admit_def Let_def split: if_splits option.splits prod.splits intro: nack elim!: run)
        (simp_all add: counts_numbered nack)
  qed
  from assms show ?thesis
    unfolding handleApply_def stageAndRun_def
    by (auto split: if_splits sum.splits option.splits prod.splits simp: discard dest!: fence_kept admitted intro: same start)
      (simp add: same)
qed

definition proofs_counted :: "AgentServer \<times> string list \<Rightarrow> bool" where
  "proofs_counted c \<longleftrightarrow> ps_ProofGeneration (sv_saved (fst c)) \<le> ps_ProofGeneration (sv_state (fst c)) \<and> distinct (snd c) \<and>
     (\<forall>p\<in>set (snd c). \<exists>k\<le>ps_ProofGeneration (sv_saved (fst c)). p = roleProof k)"

lemma numbered_counted:
  assumes "proofs_counted (s, ps)" "numbered_from s s' qs"
  shows "proofs_counted (s', qs @ ps)"
proof -
  have le: "ps_ProofGeneration (sv_saved s) \<le> ps_ProofGeneration (sv_state s)" "ps_ProofGeneration (sv_saved s) \<le> ps_ProofGeneration (sv_saved s')"
    "ps_ProofGeneration (sv_saved s') \<le> ps_ProofGeneration (sv_state s')"
    using assms by (auto simp: proofs_counted_def numbered_from_def)
  have "set qs \<inter> set ps = {}"
  proof (rule ccontr)
    assume "set qs \<inter> set ps \<noteq> {}"
    then obtain p where "p \<in> set qs" "p \<in> set ps" by auto
    then obtain k k' where "p = roleProof k" "ps_ProofGeneration (sv_state s) < k" "p = roleProof k'" "k' \<le> ps_ProofGeneration (sv_saved s)"
      using assms by (fastforce simp: proofs_counted_def numbered_from_def)
    with le(1) show False by simp
  qed
  with assms le show ?thesis by (fastforce simp: proofs_counted_def numbered_from_def intro: order_trans)
qed

lemma agent_step_counted:
  assumes "agent_step env call c c'" "proofs_counted c"
  shows "proofs_counted c'" "suffix (snd c) (snd c')"
proof -
  have counted: "proofs_counted (s', ps)" if "counts s s'" "proofs_counted (s, ps)" for s s' ps
    using numbered_counted [OF that(2) counts_numbered [OF that(1)]] by simp
  from assms show "proofs_counted c'"
  proof (cases rule: agent_step.cases)
    case applies
    with assms(2) numbered_counted handleApply_numbered show ?thesis by blast
  next
    case (restarts n s s' failed ps)
    have "proofs_counted (NewServer env s, ps)" using assms(2) restarts NewServer_number [of env s] by (simp add: proofs_counted_def)
    with restarts initialise_effect(2) [OF restarts(4)] NewServer_number show ?thesis by (auto intro: counted)
  qed (use assms(2) counted firePendingReload_counts readBack_counts reobserve_counts handlePlan_counts in blast)+
  from assms(1) show "suffix (snd c) (snd c')" by (cases rule: agent_step.cases) (auto simp: suffix_def)
qed

interpretation issue_run: monitored_run "agent_step env" "\<lambda>_. True" proofs_counted "\<lambda>c c'. suffix (snd c) (snd c')"
  by unfold_locales (use agent_step_counted suffix_order.trans in auto)

subsection \<open>Soundness of every reached state\<close>

definition sound_config :: "AgentServer \<times> string list \<Rightarrow> bool" where
  "sound_config c \<longleftrightarrow> (sv_initialized (fst c) \<longrightarrow> sound_state (fst c))"

text \<open>The steps after which the last apply, where it failed, had its rollback performed.\<close>

definition restoring_step :: "server_env \<Rightarrow> agent_call \<Rightarrow> AgentServer \<times> string list \<Rightarrow> AgentServer \<times> string list \<Rightarrow> bool" where
  "restoring_step env call c c' \<longleftrightarrow> agent_step env call c c' \<and> restored (fst c')"

lemma handleApply_last:
  assumes "handleApply env sent parts clean s = (s', Applied r violated)"
  shows "ps_LastApply (sv_state s') = Some (ar_result r)"
proof -
  have "ps_LastApply (sv_state u) = Some (ar_result r)" if "admitted env m got digest work t = (u, Applied r violated)" for m got digest work t u
    using that runApply_proofs(3) by (auto simp: admitted_def split: prod.splits bool.splits option.splits)
  then have "ps_LastApply (sv_state u) = Some (ar_result r)" if "admit env m got t = (u, Applied r violated)" for m got t u
    using that by (auto simp: admit_def Let_def split: if_splits option.splits prod.splits)
  with assms show ?thesis
    by (auto simp: handleApply_def stageAndRun_def discardAllStaged_def split: if_splits sum.splits option.splits prod.splits)
qed

lemma unproved_sound: "unproved s \<Longrightarrow> tree_owned s \<Longrightarrow> sound_state s"
  by (auto simp: unproved_def sound_state_def proofs_in_def issuedProofs_def)

lemma handleApply_config:
  assumes "handleApply env sent parts clean s = (s', answer)" "restored s'" "sv_initialized s \<Longrightarrow> sound_state s"
  shows "sv_initialized s' \<Longrightarrow> sound_state s'"
proof (cases "sv_initialized s \<and> (\<exists>m. readManifest sent = Inr m)")
  case True
  then obtain m where "readManifest sent = Inr m" by blast
  with assms True have a: "answered m s' answer" using handleApply_sound by blast
  show "sound_state s'"
  proof (cases answer)
    case (Applied r violated)
    with a assms(1,2) handleApply_last [of env sent parts clean s s' r violated] show ?thesis by (auto simp: answered_def restored_def)
  qed (use a in \<open>auto simp: answered_def\<close>)
next
  case False
  moreover assume "sv_initialized s'"
  ultimately show "sound_state s'" using assms by (auto simp: handleApply_def split: sum.splits if_splits)
qed

lemma restoring_step_sound:
  assumes "restoring_step env call c c'" "sound_config c"
  shows "sound_config c'"
proof -
  from assms(1) have step: "agent_step env call c c'" and res: "restored (fst c')" by (auto simp: restoring_step_def)
  from step show ?thesis
  proof (cases rule: agent_step.cases)
    case applies
    with assms(2) res handleApply_config show ?thesis by (simp add: sound_config_def)
  next
    case (fires s ps)
    have "firePendingReload env s = s" if "\<not> sv_initialized s" using that by (simp add: firePendingReload_def)
    with fires assms(2) res firePendingReload_sound show ?thesis by (cases "sv_initialized s") (auto simp: sound_config_def)
  next
    case (stores planID planProof body s s' answer ps)
    then have "s' = s" if "\<not> sv_initialized s" using that by (simp add: handlePlan_def)
    with stores assms(2) handlePlan_sound show ?thesis by (cases "sv_initialized s") (auto simp: sound_config_def)
  next
    case (restarts n s s' failed ps)
    with initialise_effect(1) [OF restarts(4) NewServer_number(3)] unproved_sound show ?thesis
      by (auto simp: sound_config_def split: if_splits)
  qed (use assms(2) readBack_sound reobserve_sound in \<open>auto simp: sound_config_def\<close>)
qed

interpretation sound_run: monitored_run "restoring_step env" "\<lambda>_. True" sound_config "\<lambda>c c'. True"
  by unfold_locales (use restoring_step_sound in auto)

end
