(* ===== verification/Agent_Samples.thy ===== *)
theory Agent_Samples
  imports Agent_Steps
begin

section \<open>The agent server: a sample agent\<close>

text \<open>
  A small agent with one managed file, on a disk and sockets that answer as chosen, and what its handler
  computes to; the witnesses of the properties run on it.
\<close>

definition workerNumber :: "int \<Rightarrow> HAProxyInfo" where
  "workerNumber pid = noWorker\<lparr>hi_WorkerPID := pid, hi_WorkerStartTimeUnixMicros := pid\<rparr>"

definition sampleEnv :: "(nat \<Rightarrow> bool) \<Rightarrow> (nat \<Rightarrow> string \<times> bool) \<Rightarrow> (nat \<Rightarrow> HAProxyInfo option list) \<Rightarrow> server_env" where
  "sampleEnv fault reload polls = \<lparr>se_files = sampleFiles fault, se_store = sampleStore, se_ConfigFile = ''a'', se_ReloadIntervalMin = 10,
     se_clock = int, se_saveFault = (\<lambda>_. False), se_blobFault = (\<lambda>_. None), se_info = (\<lambda>_. Some (workerNumber 1)), se_polls = polls,
     se_reload = reload, se_showProc = (\<lambda>_. True), se_inventory = (\<lambda>_. Some emptyInventory), se_socket = (\<lambda>_ _. None),
     se_serverNames = (\<lambda>_ _. True), se_mapEntries = (\<lambda>_ _. Inr []), se_workIdentity = (\<lambda>m. Some (am_PlanID m))\<rparr>"

definition calmEnv :: server_env where
  "calmEnv = sampleEnv (\<lambda>_. False) (\<lambda>_. ('''', True)) (\<lambda>_. [None, Some (workerNumber 2)])"

definition sampleDigest :: "string \<Rightarrow> string" where
  "sampleDigest content = DigestString (fe_sum64 calmDisk) content"

definition sampleManifest :: ApplyManifest where
  "sampleManifest = (reloadManifest ''p1'' '''')\<lparr>am_IdentityVersion := 1, am_ExpectedPrevPlanID := ''p0'', am_ExpectedPrevPlanProof := ''a:1'',
     am_Files := [\<lparr>af_Path = ''a'', af_Digest = sampleDigest ''new'', af_Proof = ''f2'', af_Size = 3, af_Kind = '''', af_ReloadOnChange = False, mfl_Patch = None\<rparr>]\<rparr>"

definition stateWith :: "int option \<Rightarrow> string \<Rightarrow> string \<Rightarrow> persistentState" where
  "stateWith due planID planProof = \<lparr>ps_Generation = 1, ps_ProofGeneration = 1, ps_PlanSchemaVersion = 0, ps_AppliedPlanID = ''p0'', ps_AppliedPlanProof = ''a:1'',
     ps_RunningPlanID = ''p0'', ps_RunningPlanProof = ''a:1'', ps_WorkerOpsPlanID = ''p0'', ps_WorkerOpsPlanProof = ''a:1'', ps_LKGPlanID = ''p0'',
     ps_LKGPlanProof = ''a:1'', ps_AppliedToken = zeroToken, ps_ManifestPaths = [''a''], ps_TreeDigest = '''', ps_ExpectedWorker = workerNumber 1,
     ps_Journal = [], ps_Phase = PhaseIdle, ps_InFlightPlanID = '''', ps_PendingReloadPlanID = planID, ps_PendingReloadPlanProof = planProof,
     ps_PlanBlobPlanID = '''', ps_PlanBlobPlanProof = '''', ps_NACK = None, ps_LastApply = None, ps_ReloadPendingAt = due\<rparr>"

definition serverWith :: "int option \<Rightarrow> string \<Rightarrow> string \<Rightarrow> AgentServer" where
  "serverWith due planID planProof = \<lparr>sv_state = stateWith due planID planProof, sv_saved = stateWith due planID planProof, sv_tree = [(''a'', \<lparr>fa_Digest = sampleDigest ''old'', fa_Proof = ''f1'', fa_Size = 3\<rparr>)],
     sv_treePrints = [], sv_inventory = emptyInventory, sv_worker = workerNumber 1, sv_lastReload = None, sv_reportedInventory = 0,
     sv_baselineInvalidations = 0, sv_appliedPlan = '''', sv_blobFile = None, sv_deferrals = NewDeferrals, sv_fs = sampleDisk, sv_sent = [], sv_calls = 0,
     sv_initialized = True, sv_stopped = False\<rparr>"

definition sampleServer :: AgentServer where "sampleServer = serverWith None '''' ''''"
definition pendingServer :: AgentServer where "pendingServer = serverWith (Some 0) ''p0'' ''a:1''"

definition refusingEnv :: server_env where
  "refusingEnv = sampleEnv (\<lambda>_. False) (\<lambda>_. (''refused'', False)) (\<lambda>_. [])"

definition runOf :: "apply_answer \<Rightarrow> applyRun" where
  "runOf answer = (case answer of Applied r _ \<Rightarrow> r | _ \<Rightarrow> newRun sampleManifest (newResult '''' ResultNone))"

definition violationsOf :: "apply_answer \<Rightarrow> string list" where
  "violationsOf answer = (case answer of Applied _ v \<Rightarrow> v | _ \<Rightarrow> [])"

text \<open>An apply whose body carries no part and whose files are all held, up to its run.\<close>

definition noParts :: received where
  "noParts = \<lparr>rc_files = [], rc_unpatched = [], rc_plan = None\<rparr>"

definition runs_directly :: "server_env \<Rightarrow> ApplyManifest \<Rightarrow> AgentServer \<Rightarrow> string \<Rightarrow> bool" where
  "runs_directly env m s work \<longleftrightarrow> sv_initialized s \<and> readManifest m = Inr m \<and> fence env m s = (s, None) \<and> missingParts (sv_tree s) m noParts = [] \<and>
     se_workIdentity env m = Some work \<and> ps_NACK (sv_state s) = None \<and> am_ValidatedPlanProof m = '''' \<and>
     am_Mode m \<noteq> wireMode ModeRevertLKG \<and> am_InPlaceOps m = []"

definition runOn :: "server_env \<Rightarrow> ApplyManifest \<Rightarrow> AgentServer \<Rightarrow> string \<Rightarrow> applyRun \<times> AgentServer \<times> string list" where
  "runOn env m s work =
     (case reserveRoleProofs env False s of
        (s1, Some (applied, worker)) \<Rightarrow> runApply env m noParts (DigestString (fe_sum64 (se_files env)) work) work applied worker s1
      | (s1, None) \<Rightarrow> (newRun m (newResult '''' ResultNone), s1, []))"

lemma handleApply_runs:
  assumes "runs_directly env m s work" "snd (reserveRoleProofs env False s) = Some (applied, worker)" "runOn env m s work = (r, s', violated)"
  shows "handleApply env m [] True s = (discardAllStaged env (leftParts noParts (Applied r violated)) s', Applied r violated)"
proof -
  have "stageParts env m [] True fs = (fs, noParts, False)" for fs by (simp add: stageParts_def noParts_def)
  moreover have "promoteLKG env m s = (s, False)" using assms(1) by (simp add: promoteLKG_def samePlanRef_def runs_directly_def)
  moreover have "s\<lparr>sv_fs := sv_fs s\<rparr> = s" by simp
  ultimately show ?thesis
    using assms by (auto simp: runs_directly_def handleApply_def stageAndRun_def admit_def admitted_def cachedNACK_def runOn_def Let_def
      split: prod.splits option.splits)
qed

definition heldManifest :: ApplyManifest where
  "heldManifest = sampleManifest\<lparr>am_Files := [\<lparr>af_Path = ''a'', af_Digest = sampleDigest ''old'', af_Proof = ''f1'', af_Size = 3, af_Kind = '''',
     af_ReloadOnChange = False, mfl_Patch = None\<rparr>]\<rparr>"

lemma sample_runs: "runs_directly (sampleEnv fault reload polls) heldManifest (serverWith due planID planProof) ''p1''"
proof -
  have "readManifest heldManifest = Inr heldManifest" by code_simp
  moreover have "fence (sampleEnv fault reload polls) heldManifest (serverWith due planID planProof) = (serverWith due planID planProof, None)"
    by (simp add: fence_def heldManifest_def sampleManifest_def reloadManifest_def serverWith_def stateWith_def wireMode_def
      inPlaceWillRunLocked_def am_InPlaceOps_def Let_def)
  moreover have "missingParts (sv_tree sampleServer) heldManifest noParts = []" by code_simp
  ultimately show ?thesis
    by (simp add: runs_directly_def sampleServer_def serverWith_def stateWith_def sampleEnv_def heldManifest_def sampleManifest_def
      reloadManifest_def wireMode_def am_InPlaceOps_def)
qed

lemma sample_reserves: "snd (reserveRoleProofs (sampleEnv fault reload polls) False (serverWith due planID planProof)) = Some (''a:2'', [])"
proof -
  have "roleProof 2 = ''a:2''" by code_simp
  moreover have "\<not> (- 2 :: 64 word) < 1" by code_simp
  ultimately show ?thesis
    by (simp add: reserveRoleProofs_def saveState_def outside_def sampleEnv_def serverWith_def stateWith_def Let_def)
qed

definition reservedServer :: "server_env \<Rightarrow> AgentServer \<Rightarrow> AgentServer" where
  "reservedServer env s = fst (reserveRoleProofs env False s)"

lemma sample_reserved:
  "reserveRoleProofs (sampleEnv fault reload polls) False (serverWith due planID planProof) =
     (reservedServer (sampleEnv fault reload polls) (serverWith due planID planProof), Some (''a:2'', []))"
  using sample_reserves [of fault reload polls due planID planProof] by (simp add: reservedServer_def prod_eq_iff)

lemma handleApply_sample:
  "handleApply (sampleEnv fault reload polls) heldManifest [] True (serverWith due planID planProof) =
    (fst (handleApply (sampleEnv fault reload polls) heldManifest [] True (serverWith due planID planProof)),
     Applied (fst (runOn (sampleEnv fault reload polls) heldManifest (serverWith due planID planProof) ''p1''))
       (snd (snd (runOn (sampleEnv fault reload polls) heldManifest (serverWith due planID planProof) ''p1''))))"
proof -
  let ?env = "sampleEnv fault reload polls" and ?s = "serverWith due planID planProof"
  obtain r s' violated where run: "runOn ?env heldManifest ?s ''p1'' = (r, s', violated)" by (metis prod_cases3)
  show ?thesis unfolding handleApply_runs [OF sample_runs sample_reserves run] run by simp
qed

text \<open>The result of a run, up to its stages.\<close>

lemma runOn_result:
  assumes "reserveRoleProofs env False s = (s1, Some (applied, worker))"
  shows "res_OK (ar_result (fst (runOn env m s work))) = res_OK (ar_result (fst (executeRun env
    ((newRun m (newResult (am_PlanID m) ResultNone))\<lparr>ar_digest := DigestString (fe_sum64 (se_files env)) work, ar_work := work,
      ar_appliedProof := applied, ar_workerProof := worker, ar_invalidations := sv_baselineInvalidations s1\<rparr>) s1)))"
  using assms
  by (auto simp: runOn_def runApply_def noParts_def Let_def newRun_def finished_def split: prod.splits dest!: finish_effect)

lemma sample_results:
  "res_OK (ar_result (fst (runOn calmEnv heldManifest sampleServer ''p1'')))"
  "res_OK (ar_result (fst (runOn calmEnv heldManifest pendingServer ''p1'')))"
  "\<not> res_OK (ar_result (fst (runOn refusingEnv heldManifest sampleServer ''p1'')))"
  unfolding calmEnv_def refusingEnv_def sampleServer_def pendingServer_def runOn_result [OF sample_reserved] by code_simp+

lemma sample_sound: "sound_config (sampleServer, ps)"
proof -
  have "proofs_in {''a:1'', ''''} sampleServer" by (simp add: proofs_in_def sampleServer_def serverWith_def stateWith_def)
  moreover have "roleProof 1 = ''a:1''" by code_simp
  ultimately have "proofs_in (issuedProofs 1) sampleServer" by (auto simp: proofs_in_def issuedProofs_def image_iff intro!: bexI [of _ 1])
  then show ?thesis
    by (auto simp: sound_config_def sound_state_def tree_owned_def sampleServer_def serverWith_def stateWith_def split: if_splits)
qed

end
