(* ===== verification/Agent_Properties.thy ===== *)
theory Agent_Properties
  imports Agent_Samples
begin

section \<open>The agent server: properties\<close>

text \<open>
  What the controller may rely on when it talks to an agent: what an accepted apply leaves, what a refused one
  does not touch, how proofs and scheduled reloads behave over applies, reloads and restarts, and two cases in
  which the agent claims more than it knows.
\<close>

subsection \<open>The sample applies\<close>

lemma sample_applies:
  "handleApply calmEnv heldManifest [] True sampleServer = (fst (handleApply calmEnv heldManifest [] True sampleServer),
     Applied (fst (runOn calmEnv heldManifest sampleServer ''p1'')) (snd (snd (runOn calmEnv heldManifest sampleServer ''p1''))))"
  "handleApply calmEnv heldManifest [] True pendingServer = (fst (handleApply calmEnv heldManifest [] True pendingServer),
     Applied (fst (runOn calmEnv heldManifest pendingServer ''p1'')) (snd (snd (runOn calmEnv heldManifest pendingServer ''p1''))))"
  "handleApply refusingEnv heldManifest [] True sampleServer = (fst (handleApply refusingEnv heldManifest [] True sampleServer),
     Applied (fst (runOn refusingEnv heldManifest sampleServer ''p1'')) (snd (snd (runOn refusingEnv heldManifest sampleServer ''p1''))))"
  unfolding calmEnv_def refusingEnv_def sampleServer_def pendingServer_def by (rule handleApply_sample)+

lemma sample_manifest: "readManifest heldManifest = Inr heldManifest" "am_Mode heldManifest \<noteq> wireMode ModeRevertLKG" "am_PlanID heldManifest = ''p1''"
  using sample_runs by (simp_all add: runs_directly_def heldManifest_def sampleManifest_def reloadManifest_def)

lemma sample_proof: "ar_appliedProof (fst (runOn calmEnv heldManifest sampleServer ''p1'')) = ''a:2''"
  "ar_workerProof (fst (runOn calmEnv heldManifest sampleServer ''p1'')) = []"
proof -
  obtain r s' violated where run: "runOn calmEnv heldManifest sampleServer ''p1'' = (r, s', violated)" by (metis prod_cases3)
  have "reserveRoleProofs calmEnv False sampleServer = (reservedServer calmEnv sampleServer, Some (''a:2'', []))"
    unfolding calmEnv_def sampleServer_def by (rule sample_reserved)
  with run have "runApply calmEnv heldManifest noParts (DigestString (fe_sum64 (se_files calmEnv)) ''p1'') ''p1'' ''a:2'' []
      (reservedServer calmEnv sampleServer) = (r, s', violated)" by (simp add: runOn_def)
  from runApply_proofs [OF this] run show "ar_appliedProof (fst (runOn calmEnv heldManifest sampleServer ''p1'')) = ''a:2''"
    "ar_workerProof (fst (runOn calmEnv heldManifest sampleServer ''p1'')) = []" by simp_all
qed

subsection \<open>A refused apply\<close>

definition scratch_parts :: "server_env \<Rightarrow> received \<Rightarrow> bool" where
  "scratch_parts env got \<longleftrightarrow> (\<forall>part\<in>snd ` set (rc_files got). sg_tmp part \<in> scratch (se_store env))"

lemma update_parts: "snd ` set (AList.update k v xs) \<subseteq> insert v (snd ` set xs)"
  by (induction xs) auto

lemma staged_scratch:
  assumes "store_ok (se_store env)"
  shows "Stage (se_files env) (se_store env) rel body digest sz fs = (fs', r) \<Longrightarrow>
      only (scratch (se_store env)) fs fs' \<and> (\<forall>v. r = Inr v \<longrightarrow> sg_tmp v \<in> scratch (se_store env))"
    "StagePatch (se_files env) (se_store env) rel body patch digest sz fs = (fs', r) \<Longrightarrow>
      only (scratch (se_store env)) fs fs' \<and> (\<forall>v. r = Inr v \<longrightarrow> sg_tmp v \<in> scratch (se_store env))"
proof -
  have stage: "only (scratch (se_store env)) fs fs' \<and> (\<forall>v. r = Inr v \<longrightarrow> sg_tmp v \<in> scratch (se_store env))"
    if "stage (se_files env) (se_store env) rel digest sz fill fs = (fs', r)" for fill fs
    using stage_verified [OF assms that] by (auto elim: only_mono)
  show "Stage (se_files env) (se_store env) rel body digest sz fs = (fs', r) \<Longrightarrow>
      only (scratch (se_store env)) fs fs' \<and> (\<forall>v. r = Inr v \<longrightarrow> sg_tmp v \<in> scratch (se_store env))"
    unfolding Stage_def by (rule stage)
  have "only (scratch (se_store env)) fs fs1" if "os_ReadFile (se_files env) p fs = (fs1, c)" for p fs1 c
    using reads_only(2) [OF that] by (auto elim: only_mono)
  then show "StagePatch (se_files env) (se_store env) rel body patch digest sz fs = (fs', r) \<Longrightarrow>
      only (scratch (se_store env)) fs fs' \<and> (\<forall>v. r = Inr v \<longrightarrow> sg_tmp v \<in> scratch (se_store env))"
    by (auto simp: StagePatch_def Let_def split: sum.splits prod.splits if_splits dest!: stage intro: only_then)
qed

lemma stagePart_scratch:
  assumes ok: "store_ok (se_store env)" and run: "stagePart env declared p got fs = (fs', got', bad)" and parts: "scratch_parts env got"
  shows "only (scratch (se_store env)) fs fs' \<and> scratch_parts env got'"
proof -
  have grow: "scratch_parts env (got\<lparr>rc_files := AList.update path v (rc_files got)\<rparr>)" if "sg_tmp v \<in> scratch (se_store env)" for path v
  proof -
    have "snd ` set (rc_files (got\<lparr>rc_files := AList.update path v (rc_files got)\<rparr>)) \<subseteq> insert v (snd ` set (rc_files got))"
      using update_parts by simp
    with parts that show ?thesis unfolding scratch_parts_def by blast
  qed
  have same: "scratch_parts env (got\<lparr>rc_unpatched := u\<rparr>)" "scratch_parts env (got\<lparr>rc_plan := q\<rparr>)" for u q
    using parts by (auto simp: scratch_parts_def)
  show ?thesis
  proof (cases p)
    case (FilePart path body)
    show ?thesis
    proof (cases "declared path")
      case None
      with run FilePart parts show ?thesis by (auto simp: stagePart_def split: if_splits)
    next
      case (Some f)
      obtain fs1 r where s: "Stage (se_files env) (se_store env) path body (af_Digest f) (af_Size f) fs = (fs1, r)" by fastforce
      obtain fs2 q where q: "mfl_Patch f = Some patch \<Longrightarrow>
          StagePatch (se_files env) (se_store env) path body patch (af_Digest f) (af_Size f) fs = (fs2, q)" for patch
        by (cases "mfl_Patch f") (auto, metis surj_pair)
      note s' = staged_scratch(1) [OF ok s]
      show ?thesis
      proof (cases "mfl_Patch f")
        case None
        with run FilePart Some s s' parts grow show ?thesis by (cases r) (auto simp: stagePart_def split: if_splits)
      next
        case p: (Some patch)
        note q' = staged_scratch(2) [OF ok q [OF p]]
        show ?thesis
        proof (cases q)
          case (Inl e)
          with run FilePart Some p q [OF p] q' parts same show ?thesis
            by (cases e) (auto simp: stagePart_def split: if_splits)
        next
          case (Inr v)
          with run FilePart Some p q [OF p] q' parts grow show ?thesis by (auto simp: stagePart_def split: if_splits)
        qed
      qed
    qed
  qed (use run parts same in \<open>auto simp: stagePart_def split: option.splits\<close>)
qed

lemma stageLoop_scratch:
  assumes ok: "store_ok (se_store env)" and "stageLoop env declared n parts clean got fs = (fs', got', bad)" "scratch_parts env got"
  shows "only (scratch (se_store env)) fs fs' \<and> scratch_parts env got'"
  using assms(2,3)
proof (induction n arbitrary: parts got fs)
  case (Suc n)
  show ?case
  proof (cases parts)
    case (Cons p ps)
    obtain fs1 got1 b where one: "stagePart env declared p got fs = (fs1, got1, b)" by (metis prod_cases3)
    from Suc.prems Cons one stagePart_scratch [OF ok one] Suc.IH [of ps got1 fs1] show ?thesis by (cases b) (auto intro: only_then)
  qed (use Suc.prems in auto)
qed auto

lemma discard_scratch:
  "\<forall>p\<in>set parts. sg_tmp p \<in> P \<Longrightarrow> only P fs (foldl (\<lambda>fs p. fst (Discard env p fs)) fs parts)"
proof (induction parts arbitrary: fs)
  case (Cons p ps)
  have "only P fs (fst (Discard env p fs))" using Cons.prems Remove_only [of "sg_tmp p" fs env] by (auto simp: Discard_def elim: only_mono)
  with Cons show ?case by (auto intro: only_then)
qed simp

definition refused :: "apply_answer \<Rightarrow> bool" where
  "refused answer = (case answer of Applied _ _ \<Rightarrow> False | LKGFailed \<Rightarrow> False | IdentityFailed \<Rightarrow> False | _ \<Rightarrow> True)"

lemma same_state: "\<exists>nack. sv_state s = (sv_state s)\<lparr>ps_NACK := nack\<rparr>"
  by (rule exI [of _ "ps_NACK (sv_state s)"]) simp

lemma cachedNACK_state:
  assumes "cachedNACK env digest work s = (s', cached)"
  shows "\<exists>nack. sv_state s' = (sv_state s)\<lparr>ps_NACK := nack\<rparr>"
proof -
  from assms have "sv_state s' = sv_state s \<or> sv_state s' = (sv_state s)\<lparr>ps_NACK := None\<rparr>"
    by (auto simp: cachedNACK_def timeNow_def outside_def split: option.splits if_splits)
  with same_state [of s] show ?thesis by auto
qed

lemma admit_refused:
  assumes "admit env m got s = (s', answer)" "refused answer"
  shows "sv_fs s' = sv_fs s \<and> sv_tree s' = sv_tree s \<and> (\<exists>nack. sv_state s' = (sv_state s)\<lparr>ps_NACK := nack\<rparr>) \<and> leftParts got answer = map snd (rc_files got)"
proof -
  have "\<not> refused a" if "admitted env m got digest work t = (u, a)" for digest work t u a
    using that by (auto simp: admitted_def refused_def split: prod.splits bool.splits option.splits)
  with assms consider "s' = s" "answer = MissingFiles (missingParts (sv_tree s) m got)"
    | digest work res where "cachedNACK env digest work s = (s', Some res)" "answer = KnownBad res"
    by (auto simp: admit_def Let_def split: if_splits option.splits prod.splits)
  then show ?thesis
  proof cases
    case 1
    with same_state [of s] show ?thesis by (simp add: leftParts_def)
  next
    case 2
    with cachedNACK_effect(2,4) [OF 2(1)] cachedNACK_state [OF 2(1)] show ?thesis by (simp add: leftParts_def)
  qed
qed



subsection \<open>Applies over whole executions\<close>



text \<open>
  C4. No two applies are ever given the same proof: in every execution, restarts and failing saves of the state
  included, the role proofs handed out are pairwise different. Numbers are saved before they are used, and
  the 64-bit counter refuses instead of wrapping.
\<close>

theorem proofs_never_repeat:
  assumes "run_of (agent_step env) (\<lambda>_. True) (s0, []) (s, ps)"
    and "ps_ProofGeneration (sv_saved s0) \<le> ps_ProofGeneration (sv_state s0)"
  shows "distinct ps"
  using issue_run.run [OF assms(1)] assms(2) by (simp add: proofs_counted_def)

theorem proofs_never_repeat_witness:
  "newProofs (snd (handleApply calmEnv heldManifest [] True sampleServer)) = [''a:2''] \<and>
   distinct (newProofs (snd (handleApply calmEnv sampleManifest [] True (fst (handleApply calmEnv heldManifest [] True sampleServer)))) @ [''a:2''])"
proof -
  let ?one = "handleApply calmEnv heldManifest [] True sampleServer"
  let ?two = "handleApply calmEnv sampleManifest [] True (fst ?one)"
  have "newProofs (snd ?one) = [''a:2'']"
    by (subst sample_applies(1)) (simp add: newProofs_def sample_proof)
  moreover have steps: "agent_step calmEnv (CallApply heldManifest [] True) (sampleServer, []) (fst ?one, newProofs (snd ?one) @ [])"
    "agent_step calmEnv (CallApply sampleManifest [] True) (fst ?one, newProofs (snd ?one) @ []) (fst ?two, newProofs (snd ?two) @ newProofs (snd ?one) @ [])"
    by (rule applies, rule prod.collapse [symmetric])+
  note step = run_of_step [where step = "agent_step calmEnv" and allowed = "\<lambda>_. True", OF _ TrueI]
  have "run_of (agent_step calmEnv) (\<lambda>_. True) (sampleServer, []) (fst ?two, newProofs (snd ?two) @ newProofs (snd ?one) @ [])"
    by (rule step [OF _ steps(2)], rule step [OF _ steps(1)], rule run_of_refl)
  then have "distinct (newProofs (snd ?two) @ newProofs (snd ?one) @ [])"
    by (rule proofs_never_repeat) (simp add: sampleServer_def serverWith_def)
  ultimately show ?thesis by (simp only: append_Nil2 simp_thms)
qed

subsection \<open>Scheduled reloads\<close>

lemma executeRun_pending:
  assumes run: "executeRun env r s = (r', s')" and fresh: "fresh_run r" "\<not> ar_opsRan r" and mode: "am_Mode (ar_manifest r) \<noteq> wireMode ModeRevertLKG"
    and due: "ps_ReloadPendingAt (sv_state s) = Some due"
  shows "ps_ReloadPendingAt (sv_state s') = Some due"
    "res_OK (ar_result r') \<Longrightarrow> waits s' = (Some due, ar_PlanID r, ar_appliedProof r) \<and> res_Mode (ar_result r') = ResultScheduled"
proof -
  have aborts: "fst (waits u) = fst (waits t) \<and> \<not> res_OK (ar_result v)" if "abortRun env failedAt q t = (v, u)" "\<not> ar_opsRan q" for failedAt q t v u
    using abortRun_effect(1,4) [OF that(1)] that(2) by auto
  have acts: "waits u = (Some due, ar_PlanID q, ar_appliedProof q) \<and> res_Mode (ar_result v) = ResultScheduled"
    if a: "activate env q t = (v, u)" and w: "fst (waits t) = Some due" for q t v u
  proof -
    have "activate env q t = inPlace env q t" using w by (simp add: activate_def reloadPending_def waits_def)
    with a obtain q1 where i: "runInPlace env q1 (coalesceIntoPendingReload (ar_PlanID q) (ar_appliedProof q) t) = (v, u)"
      and "res_Mode (ar_result q1) = ResultScheduled" by (auto simp: inPlace_def Let_def)
    with runInPlace_effect [OF i] w show ?thesis by (simp add: outcome_def)
  qed
  have w: "fst (waits s) = Some due" using due by (simp add: waits_def)
  have same: "waits (observeTree m staged deleted t) = waits t" "waits (t\<lparr>sv_fs := fs\<rparr>) = waits t"
      "waits (t\<lparr>sv_fs := fs, sv_state := (sv_state t)\<lparr>ps_Journal := j\<rparr>\<rparr>) = waits t" for m staged deleted t fs j
    by (auto simp: waits_def)
  from run mode fresh have "(\<exists>failedAt q t. abortRun env failedAt q t = (r', s') \<and> \<not> ar_opsRan q \<and> fst (waits t) = Some due) \<or>
      (\<exists>q t. activate env q t = (r', s') \<and> ar_manifest q = ar_manifest r \<and> ar_appliedProof q = ar_appliedProof r \<and> fst (waits t) = Some due)"
    by (simp add: executeRun_def Let_def split: prod.splits if_splits) (fastforce simp: same w)+
  with aborts acts show "ps_ReloadPendingAt (sv_state s') = Some due"
    "res_OK (ar_result r') \<Longrightarrow> waits s' = (Some due, ar_PlanID r, ar_appliedProof r) \<and> res_Mode (ar_result r') = ResultScheduled"
    by (fastforce simp: waits_def)+
qed

lemma runApply_pending:
  assumes run: "runApply env m got digest work appliedProof workerProof s = (r, s', violated)" and mode: "am_Mode m \<noteq> wireMode ModeRevertLKG"
    and due: "ps_ReloadPendingAt (sv_state s) = Some due"
  shows "ps_ReloadPendingAt (sv_state s') = Some due \<and>
    (res_OK (ar_result r) \<longrightarrow> waits s' = (Some due, am_PlanID m, ar_appliedProof r) \<and> res_Mode (ar_result r) = ResultScheduled)"
proof -
  define r0 where "r0 = (newRun m (newResult (am_PlanID m) ResultNone))\<lparr>ar_staged := rc_files got, ar_planBlob := rc_plan got, ar_digest := digest,
    ar_work := work, ar_appliedProof := appliedProof, ar_workerProof := workerProof, ar_invalidations := sv_baselineInvalidations s\<rparr>"
  obtain r1 s1 where e: "executeRun env r0 s = (r1, s1)" by fastforce
  obtain r2 s2 v where f: "finish env r1 s1 = (r2, s2, v)" by (metis prod_cases3)
  have out: "r = r2" "s' = commitPlanBlob env r2 s2" using run e f by (auto simp: runApply_def Let_def r0_def)
  have r0: "fresh_run r0" "\<not> ar_opsRan r0" "ar_manifest r0 = m" "ar_appliedProof r0 = appliedProof"
    using executeRun_fresh by (auto simp: r0_def newRun_def)
  have "fst (waits s1) = Some due" "res_OK (ar_result r1) \<Longrightarrow> waits s1 = (Some due, am_PlanID m, appliedProof) \<and> res_Mode (ar_result r1) = ResultScheduled"
    using executeRun_pending [OF e r0(1,2) _ due] mode r0 by (auto simp: waits_def)
  moreover have "waits s' = waits s1" "res_OK (ar_result r) = res_OK (ar_result r1)" "res_Mode (ar_result r) = res_Mode (ar_result r1)"
    using finish_effect [OF f] by (simp_all add: out finished_def commitPlanBlob_kept(3))
  moreover have "ps_ReloadPendingAt (sv_state s') = fst (waits s')" by (simp add: waits_def)
  ultimately show ?thesis using runApply_proofs(1) [OF run] by simp
qed

text \<open>
  C14. An apply that is not a revert never loses or moves a reload that is already scheduled: whatever it runs and
  whatever fails, the reload stays scheduled for the same time, and when the apply succeeds it is answered as
  scheduled and the reload now carries the plan and the proof of this apply.
\<close>

theorem scheduled_reload_kept:
  assumes run: "handleApply env sent parts clean s = (s', answer)" and m: "readManifest sent = Inr m" and "am_Mode m \<noteq> wireMode ModeRevertLKG"
    and due: "ps_ReloadPendingAt (sv_state s) = Some due"
  shows "ps_ReloadPendingAt (sv_state s') = Some due \<and>
    (\<forall>r violated. answer = Applied r violated \<and> res_OK (ar_result r) \<longrightarrow>
       ps_PendingReloadPlanID (sv_state s') = am_PlanID m \<and> ps_PendingReloadPlanProof (sv_state s') = ar_appliedProof r \<and>
       res_Mode (ar_result r) = ResultScheduled)"
proof -
  let ?P = "\<lambda>u a. ps_ReloadPendingAt (sv_state u) = Some due \<and> (\<forall>r violated. a = Applied r violated \<and> res_OK (ar_result r) \<longrightarrow>
    waits u = (Some due, am_PlanID m, ar_appliedProof r) \<and> res_Mode (ar_result r) = ResultScheduled)"
  have admitted: "?P u a" if a: "admitted env m got digest work t = (u, a)" and t: "ps_ReloadPendingAt (sv_state t) = Some due" for got digest work t u a
  proof -
    obtain s1 failed where p: "promoteLKG env m t = (s1, failed)" by fastforce
    obtain s2 proofs where q: "reserveRoleProofs env (length (am_InPlaceOps m) > 0) s1 = (s2, proofs)" by fastforce
    have "ps_ReloadPendingAt (sv_state s1) = Some due" using promoteLKG_effect(4) [OF p, of UNIV] t by (simp add: waits_def)
    moreover from this have "ps_ReloadPendingAt (sv_state s2) = Some due" using reserve_effect(7) [OF q] by (simp add: waits_def)
    ultimately show ?thesis using a p q assms(3) runApply_pending [OF _ assms(3)]
      by (auto simp: admitted_def split: bool.splits option.splits prod.splits)
  qed
  have "?P u a" if "admit env m got t = (u, a)" "ps_ReloadPendingAt (sv_state t) = Some due" for got t u a
    using that admitted cachedNACK_effect(5) [of env _ _ t]
    by (auto simp: admit_def Let_def waits_def split: if_splits option.splits prod.splits)
  with run m due have "?P s' answer"
    by (auto simp: handleApply_def stageAndRun_def discardAllStaged_def waits_def split: if_splits option.splits prod.splits dest!: fence_kept)
  then show ?thesis by (auto simp: waits_def)
qed

theorem scheduled_reload_kept_witness:
  "ps_ReloadPendingAt (sv_state (fst (handleApply calmEnv heldManifest [] True pendingServer))) = Some 0 \<and>
   ps_PendingReloadPlanID (sv_state (fst (handleApply calmEnv heldManifest [] True pendingServer))) = ''p1'' \<and>
   res_Mode (ar_result (fst (runOn calmEnv heldManifest pendingServer ''p1''))) = ResultScheduled"
proof -
  have due: "ps_ReloadPendingAt (sv_state pendingServer) = Some 0" by (simp add: pendingServer_def serverWith_def stateWith_def)
  note kept = scheduled_reload_kept [OF sample_applies(2) sample_manifest(1,2) due]
  from kept [THEN conjunct2, rule_format, OF conjI [OF refl sample_results(2)]] kept [THEN conjunct1] show ?thesis
    unfolding sample_manifest(3) by (intro conjI) (elim conjE, assumption)+
qed



subsection \<open>Restarts and failed applies\<close>

lemma fence_unproved:
  assumes "ps_AppliedPlanProof (sv_state s) = []" "am_Mode m = wireMode ModeAuto"
  shows "snd (fence env m s) \<noteq> None"
  using assms by (auto simp: fence_def Let_def wireMode_def)

text \<open>
  C15. After a restart the agent claims nothing of its earlier life: whatever the disk, the saved state and an
  interrupted apply left, once it is ready it refuses every apply and every revert that is not a full reload,
  and it asks for the content of every file a manifest declares and does not ship.
\<close>

theorem restart_needs_reload:
  assumes "initialise env n (NewServer env s) = (s', False)"
  shows "(am_Mode m \<noteq> wireMode ModeReload \<longrightarrow> snd (fence env m s') \<noteq> None) \<and>
    (\<forall>f\<in>set (am_Files m). go_get (rc_files got) (af_Path f) = None \<longrightarrow> af_Path f \<in> set (missingParts (sv_tree s') m got))"
proof -
  from initialise_effect(1) [OF assms NewServer_number(3)] have u: "unproved s'" by simp
  have "\<not> heldFile (sv_tree s') f" for f
    using u by (auto simp: unproved_def heldFile_def ranI split: option.splits)
  moreover have "snd (fence env m s') \<noteq> None" if "am_Mode m \<noteq> wireMode ModeReload"
    using u that by (auto simp: unproved_def fence_def Let_def carriesRefusedPlanLocked_def samePlanRef_def)
  ultimately show ?thesis by (auto simp: missingParts_def)
qed

theorem restart_needs_reload_witness:
  "snd (fence calmEnv (heldManifest\<lparr>am_Mode := wireMode ModeAuto\<rparr>) (fst (initialise calmEnv 1 (NewServer calmEnv sampleServer)))) \<noteq> None \<and>
   ''a'' \<in> set (missingParts (sv_tree (fst (initialise calmEnv 1 (NewServer calmEnv sampleServer)))) heldManifest noParts)"
proof -
  have "snd (initialise calmEnv 1 (NewServer calmEnv sampleServer)) = False" by code_simp
  then have i: "initialise calmEnv 1 (NewServer calmEnv sampleServer) = (fst (initialise calmEnv 1 (NewServer calmEnv sampleServer)), False)"
    by (metis prod.collapse)
  from restart_needs_reload [OF i, of "heldManifest\<lparr>am_Mode := wireMode ModeAuto\<rparr>"] restart_needs_reload [OF i, of heldManifest noParts] show ?thesis
    by (auto simp: heldManifest_def wireMode_def noParts_def)
qed

text \<open>
  C38. After an apply that failed, at whatever stage and however its rollback went, the agent names no applied plan,
  and it refuses every automatic apply until a full one has succeeded.
\<close>

theorem failed_apply_fenced:
  assumes run: "handleApply env sent parts clean s = (s', Applied r violated)" and "\<not> res_OK (ar_result r)"
  shows "ps_AppliedPlanID (sv_state s') = '''' \<and> ps_AppliedPlanProof (sv_state s') = '''' \<and>
    (am_Mode m = wireMode ModeAuto \<longrightarrow> snd (fence env m s') \<noteq> None)"
proof -
  have "ps_AppliedPlanID (sv_state u) = [] \<and> ps_AppliedPlanProof (sv_state u) = []"
    if e: "runApply env m got digest work a w t = (r, u, violated)" for m got digest work a w t u
  proof -
    from e obtain r1 s1 s2 where f: "finish env r1 s1 = (r, s2, violated)" "u = commitPlanBlob env r s2"
      by (auto simp: runApply_def Let_def split: prod.splits)
    moreover have "\<not> res_OK (ar_result r1)" using finish_effect [OF f(1)] assms(2) by (auto simp: finished_def)
    ultimately have "ps_AppliedPlanID (sv_state s2) = []" "ps_AppliedPlanProof (sv_state s2) = []"
      using finish_effect [OF f(1)] by (auto simp: finished_def)
    then show ?thesis
      by (auto simp: f(2) commitPlanBlob_def rebindPlanBlobProof_def storePlanBlobLocked_def saveState_def outside_def Let_def
        split: option.splits prod.splits)
  qed
  then have "ps_AppliedPlanID (sv_state u) = [] \<and> ps_AppliedPlanProof (sv_state u) = []"
    if "admit env m got t = (u, Applied r violated)" for m got t u
    using that by (auto simp: admit_def admitted_def Let_def split: if_splits option.splits prod.splits bool.splits)
  with run have "ps_AppliedPlanID (sv_state s') = []" "ps_AppliedPlanProof (sv_state s') = []"
    by (auto simp: handleApply_def stageAndRun_def discardAllStaged_def split: if_splits sum.splits option.splits prod.splits)
  with fence_unproved show ?thesis by blast
qed

theorem failed_apply_fenced_witness:
  "ps_AppliedPlanID (sv_state (fst (handleApply refusingEnv heldManifest [] True sampleServer))) = '''' \<and>
   snd (fence refusingEnv (heldManifest\<lparr>am_Mode := wireMode ModeAuto\<rparr>) (fst (handleApply refusingEnv heldManifest [] True sampleServer))) \<noteq> None"
  using failed_apply_fenced [OF sample_applies(3) sample_results(3),
      of "heldManifest\<lparr>am_Mode := wireMode ModeAuto\<rparr>"] by simp

subsection \<open>Claims beyond the evidence\<close>

text \<open>
  C39. A failed apply can be cached as work HAProxy refuses on evidence about other files: when its operations ran,
  its own reload was accepted but the new worker did not answer in time, and the recovery reload of the last
  known good files is then refused with a log, the manifest of this apply is recorded as known bad.
\<close>

theorem recovery_verdict_cached:
  assumes r: "ar_opsRan r" "\<not> ar_deterministic r" "ar_work r \<noteq> ''''"
    and "pacingWindow env s = (s1, due, False)" and "se_reload env (sv_calls s1) = (out, True)"
    and "newWorkerIn (sv_worker s1) (se_polls env (sv_calls s1 + 1)) = None"
    and disc: "discardTx env r ((clearPendingReload s1)\<lparr>sv_calls := sv_calls s1 + 2\<rparr>) = (r', s2)"
    and restore: "restoreJournal env s2 = (s3, False)" and refused: "se_reload env (sv_calls s3) = (logs, False)" "logs \<noteq> ''''"
  shows "\<exists>nack. ps_NACK (sv_state (snd (reloadRun env reason r s))) = Some nack \<and> nk_ManifestWork nack = ar_work r \<and>
    nk_ManifestDigest nack = ar_digest r"
proof -
  let ?t = "(clearPendingReload s1)\<lparr>sv_calls := sv_calls s1 + 2\<rparr>"
  obtain q where p: "performReload env (ar_PlanID r) (ar_appliedProof r) r s1 = (q, ?t, True)" and q: "\<exists>res. q = r\<lparr>ar_result := res\<rparr>"
    using assms(5,6) by (auto simp: performReload_def outside_def awaitNewWorker_def clearPendingReload_def Let_def)
  have run: "reloadRun env reason r s = abortRun env ''reload'' q ?t" using assms(4) p by (simp add: reloadRun_def)
  let ?q0 = "onResult (\<lambda>res. res\<lparr>res_OK := False, res_Mode := ResultRejected, res_Error := Some ''reload'',
    res_Rollback := Some \<lparr>rb_Performed = False, rb_Reloaded = False\<rparr>\<rparr>) q"
  obtain q1 where d: "discardTx env ?q0 ?t = (q1, s2)" and q1: "ar_opsRan q1" "ar_work q1 = ar_work r" "ar_digest q1 = ar_digest r"
    using disc q r(1) by (auto simp: discardTx_def split: option.splits)
  obtain q2 s4 where l: "lkgReload env q1 s3 = (q2, s4, True)" and q2: "ar_deterministic q2" "ar_work q2 = ar_work r" "ar_digest q2 = ar_digest r"
    using refused q1 by (auto simp: lkgReload_def performReload_def outside_def clearPendingReload_def Let_def)
  show ?thesis
    using run d restore l q1 q2 r(3) by (auto simp: abortRun_def Let_def rememberNACK_def timeNow_def outside_def)
qed

definition slowWorkerEnv :: server_env where
  "slowWorkerEnv = sampleEnv (\<lambda>_. False) (\<lambda>n. if n = 1 then ('''', True) else (''refused'', False)) (\<lambda>_. [])"

definition ranRun :: applyRun where
  "ranRun = (newRun heldManifest (newResult ''p1'' ResultNone))\<lparr>ar_opsRan := True, ar_work := ''w'', ar_digest := ''d''\<rparr>"

definition afterReload :: AgentServer where
  "afterReload = (clearPendingReload (sampleServer\<lparr>sv_calls := 1\<rparr>))\<lparr>sv_calls := 3\<rparr>"

theorem recovery_verdict_cached_witness:
  "map_option nk_ManifestWork (ps_NACK (sv_state (snd (reloadRun slowWorkerEnv [] ranRun sampleServer)))) = Some ''w''"
proof -
  let ?s1 = "sampleServer\<lparr>sv_calls := 1\<rparr>"
  have w: "pacingWindow slowWorkerEnv sampleServer = (?s1, 0, False)"
    by (simp add: pacingWindow_def timeNow_def outside_def sampleServer_def serverWith_def)
  have first: "se_reload slowWorkerEnv (sv_calls ?s1) = ('''', True)" "newWorkerIn (sv_worker ?s1) (se_polls slowWorkerEnv (sv_calls ?s1 + 1)) = None"
    by (simp_all add: slowWorkerEnv_def sampleEnv_def newWorkerIn_def)
  have disc: "discardTx slowWorkerEnv ranRun ((clearPendingReload ?s1)\<lparr>sv_calls := sv_calls ?s1 + 2\<rparr>) = (ranRun, afterReload)"
    by (simp add: discardTx_def ranRun_def newRun_def afterReload_def)
  have "snd (restoreJournal slowWorkerEnv afterReload) = False" by code_simp
  then have restore: "restoreJournal slowWorkerEnv afterReload = (fst (restoreJournal slowWorkerEnv afterReload), False)" by (metis prod.collapse)
  have again: "se_reload slowWorkerEnv (sv_calls (fst (restoreJournal slowWorkerEnv afterReload))) = (''refused'', False)" by code_simp
  have r: "ar_opsRan ranRun" "\<not> ar_deterministic ranRun" "ar_work ranRun = ''w''" by (simp_all add: ranRun_def newRun_def)
  obtain nack where "ps_NACK (sv_state (snd (reloadRun slowWorkerEnv [] ranRun sampleServer))) = Some nack" "nk_ManifestWork nack = ar_work ranRun"
    using recovery_verdict_cached [OF r(1,2) _ w first disc restore again, of "[]"] r(3) by auto
  then show ?thesis by (simp add: r(3))
qed

text \<open>
  C40. A rollback that fails leaves the agent claiming files it may not hold: when restoring some entry of the journal
  fails, the disk keeps whatever the restore did up to there, while the recorded tree stays that of the
  rejected manifest, so that none of its files is asked for when the same manifest comes again.
\<close>

theorem failed_restore_keeps_claims:
  assumes "abortRun env failedAt r s = (r', s')" and none: "case ar_tx r of None \<Rightarrow> True | Some t \<Rightarrow> list_all (\<lambda>p. sg_tmp p = '''') (tx_installs t)"
    and restore: "Restore (se_files env) (se_store env) (ps_Journal (sv_state s)) (se_ConfigFile env) (sv_fs s) = (fs, errs)" "errs \<noteq> []"
    and tree: "treeMatchesLocked m s" and proofs: "list_all (\<lambda>f. af_Proof f \<noteq> '''') (am_Files m)"
  shows "sv_fs s' = fs \<and> sv_tree s' = sv_tree s \<and> missingParts (sv_tree s') m \<lparr>rc_files = [], rc_unpatched = [], rc_plan = None\<rparr> = []"
proof -
  let ?r0 = "onResult (\<lambda>res. res\<lparr>res_OK := False, res_Mode := ResultRejected, res_Error := Some failedAt,
    res_Rollback := Some \<lparr>rb_Performed = False, rb_Reloaded = False\<rparr>\<rparr>) r"
  have "foldl (\<lambda>fs p. fst (Discard (se_files env) p fs)) u ps = u" if "list_all (\<lambda>p. sg_tmp p = []) ps" for u ps
    using that by (induction ps) (auto simp: Discard_def)
  then obtain r1 where d: "discardTx env ?r0 s = (r1, s)" using none by (auto simp: discardTx_def DiscardAll_def split: option.splits)
  have "restoreJournal env s = (s\<lparr>sv_fs := fs\<rparr>, True)" using restore by (simp add: restoreJournal_def Let_def)
  with assms(1) d have s': "s' = s\<lparr>sv_fs := fs\<rparr>" by (simp add: abortRun_def)
  have "heldFile (sv_tree s) f" if "f \<in> set (am_Files m)" for f
    using tree proofs that by (auto simp: treeMatchesLocked_def heldFile_def list_all_iff)
  then have "missingParts (sv_tree s) m \<lparr>rc_files = [], rc_unpatched = [], rc_plan = None\<rparr> = []" by (simp add: missingParts_def filter_False)
  then show ?thesis by (simp add: s')
qed

definition claimedFile :: "string \<Rightarrow> ManifestFile" where
  "claimedFile path = \<lparr>af_Path = path, af_Digest = sampleDigest ''new'', af_Proof = ''f2'', af_Size = 3, af_Kind = '''', af_ReloadOnChange = False, mfl_Patch = None\<rparr>"

definition claimedManifest :: ApplyManifest where
  "claimedManifest = sampleManifest\<lparr>am_Files := [claimedFile ''a'', claimedFile ''c'']\<rparr>"

definition halfRestored :: AgentServer where
  "halfRestored = sampleServer\<lparr>sv_tree := map (\<lambda>p. (p, \<lparr>fa_Digest = sampleDigest ''new'', fa_Proof = ''f2'', fa_Size = 3\<rparr>)) [''a'', ''c''],
     sv_fs := sampleDisk\<lparr>fs_nodes := map (\<lambda>p. (p, Regular ''new'' \<lparr>fm_Mode = 0, fm_UID = 0, fm_GID = 0\<rparr>)) [''/b/a'', ''/b/c'']\<rparr>,
     sv_state := (sv_state sampleServer)\<lparr>ps_Journal := [\<lparr>en_Path = ''a'', en_Kind = KindModified, en_Backup = ''/b/x''\<rparr>,
       \<lparr>en_Path = ''c'', en_Kind = KindCreated, en_Backup = ''''\<rparr>]\<rparr>\<rparr>"

definition failingEnv :: server_env where
  "failingEnv = sampleEnv (\<lambda>n. n > 0) (\<lambda>_. (''refused'', False)) (\<lambda>_. [])"

theorem failed_restore_keeps_claims_witness:
  "node_at (sv_fs (snd (abortRun failingEnv ''reload'' ranRun halfRestored))) ''/b/c'' = None \<and>
   missingParts (sv_tree (snd (abortRun failingEnv ''reload'' ranRun halfRestored))) claimedManifest \<lparr>rc_files = [], rc_unpatched = [], rc_plan = None\<rparr> = []"
proof -
  let ?restore = "Restore (se_files failingEnv) (se_store failingEnv) (ps_Journal (sv_state halfRestored)) (se_ConfigFile failingEnv) (sv_fs halfRestored)"
  have "snd ?restore \<noteq> []" "node_at (fst ?restore) ''/b/c'' = None" by code_simp+
  moreover have "treeMatchesLocked claimedManifest halfRestored" by code_simp
  moreover have "list_all (\<lambda>f. af_Proof f \<noteq> '''') (am_Files claimedManifest)" by code_simp
  moreover have "case ar_tx ranRun of None \<Rightarrow> True | Some t \<Rightarrow> list_all (\<lambda>p. sg_tmp p = '''') (tx_installs t)" by (simp add: ranRun_def newRun_def)
  ultimately show ?thesis
    using failed_restore_keeps_claims [of failingEnv "''reload''" ranRun halfRestored "fst (abortRun failingEnv ''reload'' ranRun halfRestored)"
      "snd (abortRun failingEnv ''reload'' ranRun halfRestored)" "fst ?restore" "snd ?restore" claimedManifest]
    by auto
qed

end
