(* ===== verification/File_Patch.thy ===== *)
theory File_Patch
  imports Agent_Tree
begin

section \<open>Files delivered as splices\<close>

text \<open>
  \<open>src/pkg/controller/deployer/file_patch.go\<close>: the controller sends the run of bytes between the common
  prefix and the common suffix of the content a pod holds and the next one, and the agent's
  \<open>StagePatch\<close> puts it back together. \<open>contentProof\<close> is reduced to the digest and the content it proves.
  The memo shares one splice among the pods that hold the same content.
\<close>

record contentProof =
  cp_digest :: string
  cp_content :: string

definition compareChunk :: nat where "compareChunk = 4096"

text \<open>The two loops of \<open>commonPrefix\<close>, by whole chunks and then by bytes, and of \<open>commonSuffix\<close> on the reversed strings.\<close>

function prefixChunks :: "string \<Rightarrow> string \<Rightarrow> nat \<Rightarrow> nat \<Rightarrow> nat" where
  "prefixChunks a b n i =
     (if i + compareChunk \<le> n \<and> take compareChunk (drop i a) = take compareChunk (drop i b)
      then prefixChunks a b n (i + compareChunk) else i)"
  by pat_completeness auto
termination by (relation "measure (\<lambda>(a, b, n, i). n - i)") (auto simp: compareChunk_def)

function prefixBytes :: "string \<Rightarrow> string \<Rightarrow> nat \<Rightarrow> nat \<Rightarrow> nat" where
  "prefixBytes a b n i = (if i < n \<and> a ! i = b ! i then prefixBytes a b n (i + 1) else i)"
  by pat_completeness auto
termination by (relation "measure (\<lambda>(a, b, n, i). n - i)") auto

declare prefixChunks.simps [simp del] prefixBytes.simps [simp del]

definition commonPrefix :: "string \<Rightarrow> string \<Rightarrow> nat" where
  "commonPrefix a b = (let n = min (length a) (length b) in prefixBytes a b n (prefixChunks a b n 0))"

function suffixChunks :: "string \<Rightarrow> string \<Rightarrow> nat \<Rightarrow> nat \<Rightarrow> nat" where
  "suffixChunks a b n i =
     (if i + compareChunk \<le> n \<and>
         take compareChunk (drop (length a - i - compareChunk) a) = take compareChunk (drop (length b - i - compareChunk) b)
      then suffixChunks a b n (i + compareChunk) else i)"
  by pat_completeness auto
termination by (relation "measure (\<lambda>(a, b, n, i). n - i)") (auto simp: compareChunk_def)

function suffixBytes :: "string \<Rightarrow> string \<Rightarrow> nat \<Rightarrow> nat \<Rightarrow> nat" where
  "suffixBytes a b n i =
     (if i < n \<and> a ! (length a - 1 - i) = b ! (length b - 1 - i) then suffixBytes a b n (i + 1) else i)"
  by pat_completeness auto
termination by (relation "measure (\<lambda>(a, b, n, i). n - i)") auto

declare suffixChunks.simps [simp del] suffixBytes.simps [simp del]

definition commonSuffix :: "string \<Rightarrow> string \<Rightarrow> nat" where
  "commonSuffix a b = (let n = min (length a) (length b) in suffixBytes a b n (suffixChunks a b n 0))"

record filePatch =
  fpt_patch :: FilePatch
  fpt_data :: string

definition contentPatch :: "contentProof \<Rightarrow> string \<Rightarrow> filePatch option" where
  "contentPatch base nxt =
     (let prev = cp_content base;
          prefix = commonPrefix prev nxt;
          suffix = commonSuffix (drop prefix prev) (drop prefix nxt);
          data = drop prefix (take (length nxt - suffix) nxt)
      in if length data * 2 > length nxt then None
         else Some \<lparr>fpt_patch = \<lparr>pa_BaseDigest = cp_digest base, pa_BaseSize = int (length prev),
                      pa_Offset = int prefix, pa_Length = int (length prev - prefix - suffix)\<rparr>,
                    fpt_data = data\<rparr>)"

text \<open>\<open>patchMemo\<close>: the splices known by path and base digest, and the ones known not to be worth sending.\<close>

record patchMemo =
  pm_patches :: "((string \<times> string) \<times> filePatch) list"
  pm_missing :: "(string \<times> string) list"

definition newPatchMemo :: patchMemo where
  "newPatchMemo = \<lparr>pm_patches = [], pm_missing = []\<rparr>"

definition memoGet :: "string \<Rightarrow> contentProof \<Rightarrow> string \<Rightarrow> patchMemo \<Rightarrow> patchMemo \<times> filePatch option" where
  "memoGet path base nxt m =
     (let key = (path, cp_digest base) in
      case map_of (pm_patches m) key of
        Some patch \<Rightarrow> (m, Some patch)
      | None \<Rightarrow>
          if key \<in> set (pm_missing m) then (m, None)
          else (case contentPatch base nxt of
                  Some patch \<Rightarrow> (m\<lparr>pm_patches := AList.update key patch (pm_patches m)\<rparr>, Some patch)
                | None \<Rightarrow> (m\<lparr>pm_missing := key # pm_missing m\<rparr>, None)))"

subsection \<open>The runs that agree\<close>

lemma prefixBytes_agrees:
  "i \<le> n \<Longrightarrow> take i a = take i b \<Longrightarrow> n \<le> length a \<Longrightarrow> n \<le> length b \<Longrightarrow>
   prefixBytes a b n i \<le> n \<and> take (prefixBytes a b n i) a = take (prefixBytes a b n i) b"
proof (induction a b n i rule: prefixBytes.induct)
  case (1 a b n i)
  then show ?case by (subst (1 2 3) prefixBytes.simps) (auto simp: take_Suc_conv_app_nth)
qed

lemma prefixChunks_agrees:
  "i \<le> n \<Longrightarrow> take i a = take i b \<Longrightarrow> n \<le> length a \<Longrightarrow> n \<le> length b \<Longrightarrow>
   prefixChunks a b n i \<le> n \<and> take (prefixChunks a b n i) a = take (prefixChunks a b n i) b"
proof (induction a b n i rule: prefixChunks.induct)
  case (1 a b n i)
  then show ?case by (subst (1 2 3) prefixChunks.simps) (auto simp: take_add)
qed

lemma commonPrefix_agrees: "take (commonPrefix a b) a = take (commonPrefix a b) b \<and> commonPrefix a b \<le> min (length a) (length b)"
  using prefixChunks_agrees [of 0 "min (length a) (length b)" a b]
    prefixBytes_agrees [of "prefixChunks a b (min (length a) (length b)) 0" "min (length a) (length b)" a b]
  by (simp add: commonPrefix_def Let_def)

definition ends_alike :: "string \<Rightarrow> string \<Rightarrow> nat \<Rightarrow> bool" where
  "ends_alike a b i \<longleftrightarrow> drop (length a - i) a = drop (length b - i) b"

lemma ends_alike_extend:
  assumes "ends_alike a b i" "i + k \<le> length a" "i + k \<le> length b"
    "take k (drop (length a - (i + k)) a) = take k (drop (length b - (i + k)) b)"
  shows "ends_alike a b (i + k)"
proof -
  have split: "drop (length c - (i + k)) c = take k (drop (length c - (i + k)) c) @ drop (length c - i) c" if "i + k \<le> length c" for c :: string
  proof -
    have "k + (length c - (i + k)) = length c - i" using that by simp
    then have "drop k (drop (length c - (i + k)) c) = drop (length c - i) c" by (simp only: drop_drop)
    then show ?thesis by (metis append_take_drop_id)
  qed
  from split [OF assms(2)] split [OF assms(3)] assms(1,4) show ?thesis unfolding ends_alike_def by simp
qed

lemma suffixChunks_agrees:
  "i \<le> n \<Longrightarrow> ends_alike a b i \<Longrightarrow> n \<le> length a \<Longrightarrow> n \<le> length b \<Longrightarrow>
   suffixChunks a b n i \<le> n \<and> ends_alike a b (suffixChunks a b n i)"
proof (induction a b n i rule: suffixChunks.induct)
  case (1 a b n i)
  then show ?case by (subst (1 2) suffixChunks.simps) (auto dest: ends_alike_extend [of a b i compareChunk])
qed

lemma suffixBytes_agrees:
  "i \<le> n \<Longrightarrow> ends_alike a b i \<Longrightarrow> n \<le> length a \<Longrightarrow> n \<le> length b \<Longrightarrow>
   suffixBytes a b n i \<le> n \<and> ends_alike a b (suffixBytes a b n i)"
proof (induction a b n i rule: suffixBytes.induct)
  case (1 a b n i)
  have "ends_alike a b (Suc i)" if "i < n" "a ! (length a - 1 - i) = b ! (length b - 1 - i)"
  proof -
    have "take 1 (drop (length a - (i + 1)) a) = take 1 (drop (length b - (i + 1)) b)"
      using that 1(4,5) by (simp add: hd_drop_conv_nth take_Suc)
    with ends_alike_extend [of a b i 1] that 1(3-5) show ?thesis by simp
  qed
  with 1 show ?case by (subst (1 2) suffixBytes.simps) auto
qed

lemma commonSuffix_agrees: "ends_alike a b (commonSuffix a b) \<and> commonSuffix a b \<le> min (length a) (length b)"
  using suffixChunks_agrees [of 0 "min (length a) (length b)" a b]
    suffixBytes_agrees [of "suffixChunks a b (min (length a) (length b)) 0" "min (length a) (length b)" a b]
  by (simp add: commonSuffix_def Let_def ends_alike_def)

text \<open>The splice of a patch the controller composed is the next content.\<close>

lemma contentPatch_splices:
  assumes "contentPatch base nxt = Some fp"
  shows "splice (cp_content base) (fpt_patch fp) (int (length nxt) - pa_BaseSize (fpt_patch fp) + pa_Length (fpt_patch fp))
      (Inr (fpt_data fp)) = Inr nxt"
    "pa_BaseSize (fpt_patch fp) = int (length (cp_content base))" "pa_BaseDigest (fpt_patch fp) = cp_digest base"
    "0 \<le> pa_Offset (fpt_patch fp)" "0 \<le> pa_Length (fpt_patch fp)"
    "pa_Offset (fpt_patch fp) + pa_Length (fpt_patch fp) \<le> int (length (cp_content base))"
    "0 \<le> int (length nxt) - pa_BaseSize (fpt_patch fp) + pa_Length (fpt_patch fp)"
proof -
  let ?a = "cp_content base"
  define p where "p = commonPrefix ?a nxt"
  define q where "q = commonSuffix (drop p ?a) (drop p nxt)"
  define data where "data = drop p (take (length nxt - q) nxt)"
  from commonPrefix_agrees [of ?a nxt] have p: "take p ?a = take p nxt" "p \<le> length ?a" "p \<le> length nxt" by (auto simp: p_def)
  from commonSuffix_agrees [of "drop p ?a" "drop p nxt"]
  have q: "ends_alike (drop p ?a) (drop p nxt) q" "p + q \<le> length ?a" "p + q \<le> length nxt" using p by (auto simp: q_def)
  have fp: "fp = \<lparr>fpt_patch = \<lparr>pa_BaseDigest = cp_digest base, pa_BaseSize = int (length ?a), pa_Offset = int p,
      pa_Length = int (length ?a - p - q)\<rparr>, fpt_data = data\<rparr>"
    using assms by (simp add: contentPatch_def Let_def p_def q_def data_def split: if_splits)
  have tail: "drop (length ?a - q) ?a = drop (length nxt - q) nxt"
  proof -
    have "p + (length c - p - q) = length c - q" if "p + q \<le> length c" for c :: string using that by simp
    with q show ?thesis by (simp add: ends_alike_def add.commute)
  qed
  have len: "length data = length nxt - p - q" using q by (simp add: data_def)
  have "nat (int p + int (length ?a - p - q)) = length ?a - q" using q by simp
  moreover have "take p nxt @ data @ drop (length nxt - q) nxt = nxt"
  proof -
    have "take p nxt @ data = take (length nxt - q) nxt"
      using q by (metis append_take_drop_id data_def min.absorb1 take_take le_diff_conv2 add_leD2)
    then show ?thesis by (metis append_assoc append_take_drop_id)
  qed
  ultimately show "splice ?a (fpt_patch fp) (int (length nxt) - pa_BaseSize (fpt_patch fp) + pa_Length (fpt_patch fp))
      (Inr (fpt_data fp)) = Inr nxt"
    using p q len tail by (auto simp: fp splice_def limited_def)
  show "pa_BaseSize (fpt_patch fp) = int (length ?a)" "pa_BaseDigest (fpt_patch fp) = cp_digest base"
    "0 \<le> pa_Offset (fpt_patch fp)" "0 \<le> pa_Length (fpt_patch fp)"
    "pa_Offset (fpt_patch fp) + pa_Length (fpt_patch fp) \<le> int (length ?a)"
    "0 \<le> int (length nxt) - pa_BaseSize (fpt_patch fp) + pa_Length (fpt_patch fp)"
    using p q by (simp_all add: fp of_nat_diff)
qed

text \<open>With the base in place, staging the patch is staging the next content, unless the base cannot be read.\<close>

lemma StagePatch_stages:
  assumes patch: "contentPatch base nxt = Some fp" and p: "Abs st rel = Inr p"
    and held: "node_at s p = Some (Regular (cp_content base) meta)" and digest: "cp_digest base = DigestString (fe_sum64 env) (cp_content base)"
  shows "StagePatch env st rel (Inr (fpt_data fp)) (fpt_patch fp) d (int (length nxt)) s =
    (if fe_fault env (fs_calls s) then (s\<lparr>fs_calls := fs_calls s + 1\<rparr>, Inl ErrPatchBaseMissing)
     else stage env st rel d (int (length nxt)) (Inr nxt) (s\<lparr>fs_calls := fs_calls s + 1\<rparr>))"
proof -
  note fits = contentPatch_splices [OF patch]
  have "splice (cp_content base) (fpt_patch fp) (int (length nxt) - int (length (cp_content base)) + pa_Length (fpt_patch fp)) (Inr (fpt_data fp)) = Inr nxt"
    using fits(1,2) by simp
  moreover have "\<not> pa_Offset (fpt_patch fp) > int (length (cp_content base))"
    "\<not> pa_Length (fpt_patch fp) > int (length (cp_content base)) - pa_Offset (fpt_patch fp)"
    "\<not> int (length nxt) - int (length (cp_content base)) + pa_Length (fpt_patch fp) < 0"
    "\<not> pa_Offset (fpt_patch fp) < 0" "\<not> pa_Length (fpt_patch fp) < 0"
    using fits(2-) by simp_all
  ultimately show ?thesis
    using fits(2,3) by (simp add: StagePatch_def p held digest os_ReadFile_def os_call_def Let_def)
qed

text \<open>
  C33. A file the controller delivers as a splice reaches the pod as the next content: when the pod holds
  the content the splice was computed against, a staged part holds exactly the next content, whatever
  calls fail; and it is staged when no call fails and the temporary name is free. Staging touches none of
  the managed paths.
\<close>

theorem patch_delivers_next:
  assumes ok: "store_ok st" and patch: "contentPatch base nxt = Some fp" and p: "Abs st rel = Inr p"
    and held: "node_at s p = Some (Regular (cp_content base) meta)" and digest: "cp_digest base = DigestString (fe_sum64 env) (cp_content base)"
    and run: "StagePatch env st rel (Inr (fpt_data fp)) (fpt_patch fp) (DigestString (fe_sum64 env) nxt) (int (length nxt)) s = (s', r)"
  shows "(\<forall>staged. r = Inr staged \<longrightarrow> content_of (node_at s' (sg_tmp staged)) = Some nxt) \<and> only (scratch st) s s' \<and>
    (healthy env s \<and> node_at s (next_temp env st p (s\<lparr>fs_calls := fs_calls s + 1\<rparr>)) = None \<longrightarrow> (\<exists>staged. r = Inr staged))"
proof (cases "fe_fault env (fs_calls s)")
  case True
  with run show ?thesis by (auto simp: StagePatch_stages [OF patch p held digest] only_def node_at_def healthy_def)
next
  case False
  let ?s = "s\<lparr>fs_calls := fs_calls s + 1\<rparr>"
  from False run have stg: "stage env st rel (DigestString (fe_sum64 env) nxt) (int (length nxt)) (Inr nxt) ?s = (s', r)"
    by (simp add: StagePatch_stages [OF patch p held digest])
  have same: "node_at ?s q = node_at s q" for q by (simp add: node_at_def)
  from stage_verified [OF ok stg] have "only (scratch st) ?s s'" "\<forall>staged. r = Inr staged \<longrightarrow> content_of (node_at s' (sg_tmp staged)) = Some nxt"
    by (auto intro: only_mono)
  moreover have "\<exists>staged. r = Inr staged" if "healthy env s" "node_at s (next_temp env st p ?s) = None"
    using stage_accepts [OF p _ _ refl refl, of env ?s nxt] that stg by (auto simp: healthy_def same)
  ultimately show ?thesis by (auto simp: only_def same)
qed

definition sampleProof :: contentProof where
  "sampleProof = \<lparr>cp_digest = FormatDigest 0, cp_content = ''old''\<rparr>"
definition samplePatch :: filePatch where "samplePatch = the (contentPatch sampleProof ''olds'')"
definition samplePatched :: "fsys \<times> (fs_error + Staged)" where
  "samplePatched = StagePatch calmDisk sampleStore ''a'' (Inr (fpt_data samplePatch)) (fpt_patch samplePatch)
     (DigestString (fe_sum64 calmDisk) ''olds'') (int (length ''olds'')) sampleDisk"

theorem patch_delivers_next_witness:
  "fpt_data samplePatch = ''s'' \<and> (\<exists>staged. snd samplePatched = Inr staged \<and> content_of (node_at (fst samplePatched) (sg_tmp staged)) = Some ''olds'')"
proof -
  have "contentPatch sampleProof ''olds'' \<noteq> None" "fpt_data samplePatch = ''s''" by code_simp+
  then have patch: "contentPatch sampleProof ''olds'' = Some samplePatch" by (simp add: samplePatch_def)
  have p: "Abs sampleStore ''a'' = Inr ''/b/a''" by code_simp
  have held: "node_at sampleDisk ''/b/a'' = Some (Regular (cp_content sampleProof) \<lparr>fm_Mode = 0x1A4, fm_UID = 0, fm_GID = 0\<rparr>)" by code_simp
  have digest: "cp_digest sampleProof = DigestString (fe_sum64 calmDisk) (cp_content sampleProof)" by code_simp
  have "StagePatch calmDisk sampleStore ''a'' (Inr (fpt_data samplePatch)) (fpt_patch samplePatch)
     (DigestString (fe_sum64 calmDisk) ''olds'') (int (length ''olds'')) sampleDisk = (fst samplePatched, snd samplePatched)"
    by (simp add: samplePatched_def)
  note patch_delivers_next [OF sample_store_ok patch p held digest this]
  moreover have "healthy calmDisk sampleDisk" by (simp add: healthy_def calmDisk_def sampleFiles_def)
  moreover have "node_at sampleDisk (next_temp calmDisk sampleStore ''/b/a'' (sampleDisk\<lparr>fs_calls := fs_calls sampleDisk + 1\<rparr>)) = None" by code_simp
  ultimately show ?thesis using \<open>fpt_data samplePatch = ''s''\<close> by blast
qed

end
