(* ===== verification/Spec2Isabelle.thy ===== *)
theory Spec2Isabelle
  imports Deploy_Shipped Map_Entries Persistent_Changes Ordered_Set_Roots Scheduler_Drain Coalesce Debouncer Agent_Properties File_Patch
begin

text \<open>
  Verification of the deployment planner of the HAProxy template ingress controller: what the
  controller decides to do to one HAProxy pod to bring it to a new render.
\<close>

end
